(* ===== verification/Prelude.thy ===== *)
theory Prelude
  imports Main "HOL-Library.Monad_Syntax"
begin

text \<open>
  Shared vocabulary of the development.

  A Rust panic (a failed \<open>assert!\<close>, an out-of-range index, \<open>unwrap\<close> on \<open>None\<close>, \<open>ice!\<close>, an
  arithmetic overflow, which the debug profile checks) is the value \<open>None\<close> of an \<open>option\<close>; a
  function that cannot panic has no such option.  A Rust \<open>Option\<close> inside such a function is a
  second option, a Rust \<open>Result\<close> is a sum with the error on the left.

  The theory also holds the interface \<open>index_store\<close>: a store that only grows and hands out
  the index of what it stored.  Spans, labels, type variables and scopes are all kept in one.
\<close>

section \<open>Fact collections\<close>

named_theorems panic_simps \<open>unfolding of the checked machine operations\<close>
named_theorems inv_intros \<open>every operation keeps its component's invariant\<close>

section \<open>Machine-sized naturals\<close>

text \<open>\<open>usize\<close> is 64 bits wide on the targets of the JIT.\<close>

definition usize_bound :: nat where
  "usize_bound = 2 ^ 64"

definition usize :: "nat \<Rightarrow> nat option" where
  "usize n = (if n < usize_bound then Some n else None)"

lemma usize_Some_iff [simp]: "usize n = Some m \<longleftrightarrow> m = n \<and> n < usize_bound"
  by (auto simp: usize_def)

lemma usize_None_iff [simp]: "usize n = None \<longleftrightarrow> usize_bound \<le> n"
  by (auto simp: usize_def)

section \<open>Lists and options\<close>

lemma bind_SomeE:
  assumes "Option.bind m f = Some y"
  obtains x where "m = Some x" "f x = Some y"
  using assms by (auto simp: bind_eq_Some_conv)

text \<open>Rust's checked indexing \<open>xs[i]\<close>: a panic out of range.\<close>

definition index :: "'a list \<Rightarrow> nat \<Rightarrow> 'a option" where
  "index xs i = (if i < length xs then Some (xs ! i) else None)"

lemma index_Some_iff: "index xs i = Some x \<longleftrightarrow> i < length xs \<and> xs ! i = x"
  by (auto simp: index_def)

lemma index_None_iff [simp]: "index xs i = None \<longleftrightarrow> length xs \<le> i"
  by (auto simp: index_def)

lemma index_append_old [simp]: "i < length xs \<Longrightarrow> index (xs @ ys) i = index xs i"
  by (simp add: index_def nth_append)

lemma index_append_new [simp]: "index (xs @ [x]) (length xs) = Some x"
  by (simp add: index_def)

lemma index_update [simp]:
  "i < length xs \<Longrightarrow> index (xs[i := x]) j = (if j = i then Some x else index xs j)"
  by (auto simp: index_def)

text \<open>\<open>iter().position(p)\<close>: the index of the first element that satisfies \<open>p\<close>.\<close>

fun position :: "('a \<Rightarrow> bool) \<Rightarrow> 'a list \<Rightarrow> nat option" where
  "position p [] = None"
| "position p (x # xs) = (if p x then Some 0 else map_option Suc (position p xs))"

lemma position_Some:
  "position p xs = Some i \<Longrightarrow> i < length xs \<and> p (xs ! i) \<and> (\<forall>j < i. \<not> p (xs ! j))"
proof (induction xs arbitrary: i)
  case (Cons x xs)
  then show ?case by (cases i) (auto simp: less_Suc_eq_0_disj split: if_splits)
qed simp

lemma position_None: "position p xs = None \<longleftrightarrow> (\<forall>x \<in> set xs. \<not> p x)"
  by (induction xs) auto

lemma find_position:
  "find p xs = map_option (\<lambda>i. xs ! i) (position p xs)"
  by (induction xs) (auto simp: option.map_comp comp_def)

text \<open>\<open>format!("{n}")\<close> of an unsigned integer.\<close>

fun show_nat :: "nat \<Rightarrow> string" where
  "show_nat n =
     (if n < 10 then [''0123456789'' ! n] else show_nat (n div 10) @ [''0123456789'' ! (n mod 10)])"

declare show_nat.simps [simp del]

section \<open>Stores that hand out indices\<close>

locale index_store =
  fixes add :: "'s \<Rightarrow> 'a \<Rightarrow> 's \<times> nat"
    and get :: "'s \<Rightarrow> nat \<Rightarrow> 'v option"
    and count :: "'s \<Rightarrow> nat"
    and val :: "'a \<Rightarrow> nat \<Rightarrow> 'v"
  assumes add_ref: "snd (add s a) = count s"
    and add_count: "count (fst (add s a)) = Suc (count s)"
    and get_new: "get (fst (add s a)) (count s) = Some (val a (count s))"
    and get_old: "r < count s \<Longrightarrow> get (fst (add s a)) r = get s r"
    and get_range: "get s r = None \<longleftrightarrow> count s \<le> r"
begin

fun adds :: "'s \<Rightarrow> 'a list \<Rightarrow> 's \<times> nat list" where
  "adds s [] = (s, [])"
| "adds s (a # as) =
     (let (s1, r) = add s a; (s2, rs) = adds s1 as in (s2, r # rs))"

lemma adds_refs: "snd (adds s as) = [count s ..< count s + length as]"
proof (induction as arbitrary: s)
  case (Cons a as)
  have "[count s ..< count s + length (a # as)]
      = count s # [Suc (count s) ..< Suc (count s) + length as]"
    by (subst upt_conv_Cons) (simp_all del: upt_Suc)
  then show ?case
    using Cons.IH [of "fst (add s a)"]
    by (simp add: split_beta Let_def add_ref add_count del: upt_Suc)
qed simp

lemma adds_count: "count (fst (adds s as)) = count s + length as"
proof (induction as arbitrary: s)
  case (Cons a as)
  then show ?case by (simp add: split_beta Let_def add_count)
qed simp

lemma adds_get_old: "r < count s \<Longrightarrow> get (fst (adds s as)) r = get s r"
proof (induction as arbitrary: s)
  case (Cons a as)
  then show ?case by (simp add: split_beta Let_def add_count get_old)
qed simp

lemma adds_get_new:
  "i < length as \<Longrightarrow> get (fst (adds s as)) (count s + i) = Some (val (as ! i) (count s + i))"
proof (induction as arbitrary: s i)
  case (Cons a as)
  show ?case
  proof (cases i)
    case 0
    then show ?thesis
      by (simp add: split_beta Let_def adds_get_old add_count get_new)
  next
    case (Suc j)
    with Cons.prems Cons.IH [of j "fst (add s a)"] show ?thesis
      by (simp add: split_beta Let_def add_count)
  qed
qed simp

lemma adds_distinct: "distinct (snd (adds s as))"
  by (simp add: adds_refs)

lemma add_in_range: "snd (add s a) < count (fst (add s a))"
  by (simp add: add_ref add_count)

end

text \<open>Congruence for evaluation from the outside in.\<close>

lemma weak_bind: "x = y \<Longrightarrow> Option.bind x f = Option.bind y f"
  by simp

end
