(* ===== verification/Layout.thy ===== *)
theory Layout
  imports Prelude
begin

text \<open>
  \<open>src/src/runtime/layout.rs\<close>: sizes and alignments of Roto types in the C representation.
  A \<open>layout\<close> is the struct \<open>Layout\<close>, a \<open>layout_builder\<close> the struct \<open>LayoutBuilder\<close>.  The operations
  that assert or add machine integers return \<open>None\<close> where the code panics.  The lemmas show that
  a builder hands out aligned, disjoint, in-bounds offsets and that its result is a valid layout.
\<close>

section \<open>Powers of two and rounding up\<close>

fun is_power_of_two :: "nat \<Rightarrow> bool" where
  "is_power_of_two n =
     (if n = 0 then False else if n = 1 then True else even n \<and> is_power_of_two (n div 2))"

declare is_power_of_two.simps [simp del]

lemma is_power_of_two_iff: "is_power_of_two n \<longleftrightarrow> (\<exists>k. n = 2 ^ k)"
proof (induction n rule: is_power_of_two.induct)
  case (1 n)
  show ?case
  proof (cases "n = 0 \<or> n = 1")
    case True
    then show ?thesis
      by (auto simp: is_power_of_two.simps [of n] intro: exI [of _ "0::nat"])
  next
    case False
    have "is_power_of_two n \<longleftrightarrow> even n \<and> (\<exists>k. n div 2 = 2 ^ k)"
      using False 1 by (simp add: is_power_of_two.simps [of n])
    also have "\<dots> \<longleftrightarrow> (\<exists>k. n = 2 ^ k)"
    proof
      assume "even n \<and> (\<exists>k. n div 2 = 2 ^ k)"
      then obtain k where "even n" and "n div 2 = 2 ^ k" by blast
      then have "n = 2 ^ Suc k" by (metis dvd_mult_div_cancel power_Suc)
      then show "\<exists>k. n = 2 ^ k" by blast
    next
      assume "\<exists>k. n = 2 ^ k"
      then obtain k where k: "n = 2 ^ k" by blast
      with False obtain j where "k = Suc j" by (cases k) auto
      with k show "even n \<and> (\<exists>k. n div 2 = 2 ^ k)" by auto
    qed
    finally show ?thesis .
  qed
qed

lemma power_of_two_pos [simp]: "is_power_of_two n \<Longrightarrow> 0 < n"
  by (auto simp: is_power_of_two_iff)

lemma is_power_of_two_one [simp]: "is_power_of_two (Suc 0)"
  by (simp add: is_power_of_two.simps)

lemma not_power_of_two_zero [simp]: "\<not> is_power_of_two 0"
  by (simp add: is_power_of_two.simps)

lemma power_of_two_dvd:
  assumes "is_power_of_two a" and "is_power_of_two b" and "a \<le> b"
  shows "a dvd b"
proof -
  from assms(1,2) obtain j k where "a = 2 ^ j" "b = 2 ^ k"
    by (auto simp: is_power_of_two_iff)
  with assms(3) show ?thesis
    by (metis le_imp_power_dvd power_increasing_iff one_less_numeral_iff semiring_norm(76))
qed

lemma power_of_two_max:
  "is_power_of_two a \<Longrightarrow> is_power_of_two b \<Longrightarrow> is_power_of_two (max a b)"
  by (simp add: max_def)

text \<open>\<open>usize::next_multiple_of\<close>: a panic on a zero divisor or on overflow.\<close>

definition next_multiple_of :: "nat \<Rightarrow> nat \<Rightarrow> nat option" where
  "next_multiple_of n a =
     (if a = 0 then None
      else let r = n mod a in if r = 0 then Some n else usize (n + (a - r)))"

text \<open>\<open>usize::ilog2\<close>: a panic on zero.\<close>

fun ilog2 :: "nat \<Rightarrow> nat option" where
  "ilog2 n = (if n = 0 then None else if n = 1 then Some 0 else map_option Suc (ilog2 (n div 2)))"

declare ilog2.simps [simp del]

lemma ilog2_power: "ilog2 (2 ^ k) = Some k"
proof (induction k)
  case 0
  show ?case by (simp add: ilog2.simps)
next
  case (Suc k)
  then show ?case by (subst ilog2.simps) auto
qed

lemma next_multiple_of_Some:
  assumes "next_multiple_of n a = Some m"
  shows "n \<le> m" and "a dvd m" and "m < n + a"
    and "\<And>k. n \<le> k \<Longrightarrow> a dvd k \<Longrightarrow> m \<le> k"
proof -
  have a: "0 < a" and m: "m = (if n mod a = 0 then n else n + (a - n mod a))"
    using assms by (auto simp: next_multiple_of_def Let_def split: if_splits)
  have lt: "n mod a < a" using a by simp
  show ge: "n \<le> m" using m by simp
  show lta: "m < n + a" using m a lt by auto
  show dvd: "a dvd m"
  proof (cases "n mod a = 0")
    case False
    have "n + (a - n mod a) = a * (n div a) + a"
      using lt mult_div_mod_eq [of a n] by linarith
    then have "a dvd n + (a - n mod a)" by (metis dvd_add dvd_refl dvd_triv_left)
    with False m show ?thesis by simp
  qed (use m in \<open>simp add: mod_eq_0_iff_dvd\<close>)
  show "m \<le> k" if k: "n \<le> k" "a dvd k" for k
  proof (rule ccontr)
    assume "\<not> m \<le> k"
    then have km: "k < m" by simp
    with k(2) dvd have "a dvd m - k" by (simp add: dvd_diff_nat)
    with km have "a \<le> m - k" by (simp add: dvd_imp_le)
    with k(1) lta km show False by linarith
  qed
qed

lemma next_multiple_of_total:
  assumes "0 < a" and "n + a \<le> usize_bound"
  shows "\<exists>m. next_multiple_of n a = Some m"
proof -
  have "n mod a \<noteq> 0 \<Longrightarrow> n + (a - n mod a) < usize_bound"
    using assms mod_less_divisor [OF assms(1), of n] by linarith
  then show ?thesis using assms by (simp add: next_multiple_of_def Let_def)
qed

section \<open>Layouts\<close>

record layout =
  lsize :: nat
  lalign :: nat

definition layout_new :: "nat \<Rightarrow> nat \<Rightarrow> layout option" where
  "layout_new sz al =
     (if \<not> al > 0 then None
      else if \<not> is_power_of_two al then None
      else if \<not> al dvd sz then None
      else Some \<lparr>lsize = sz, lalign = al\<rparr>)"

definition is_zero_sized :: "layout \<Rightarrow> bool" where
  "is_zero_sized l \<longleftrightarrow> lsize l = 0"

definition align_shift :: "layout \<Rightarrow> nat option" where
  "align_shift l = ilog2 (lalign l)"

definition layout_union :: "layout \<Rightarrow> layout \<Rightarrow> layout option" where
  "layout_union l other =
     (let sz = max (lsize l) (lsize other);
          al = max (lalign l) (lalign other)
      in do { sz' \<leftarrow> next_multiple_of sz al;
              Some \<lparr>lsize = sz', lalign = al\<rparr> })"

section \<open>The layout builder\<close>

record layout_builder =
  bsize :: nat
  balign :: nat

definition builder_new :: layout_builder where
  "builder_new = \<lparr>bsize = 0, balign = 1\<rparr>"

definition builder_add :: "layout_builder \<Rightarrow> layout \<Rightarrow> (layout_builder \<times> nat) option" where
  "builder_add b l = do {
     offset \<leftarrow> next_multiple_of (bsize b) (lalign l);
     sz \<leftarrow> usize (offset + lsize l);
     Some (\<lparr>bsize = sz, balign = max (balign b) (lalign l)\<rparr>, offset) }"

definition builder_finish :: "layout_builder \<Rightarrow> layout option" where
  "builder_finish b = do {
     sz \<leftarrow> next_multiple_of (bsize b) (balign b);
     layout_new sz (balign b) }"

fun concat_into :: "layout_builder \<Rightarrow> layout list \<Rightarrow> layout_builder option" where
  "concat_into b [] = Some b"
| "concat_into b (l # ls) = do { (b', _) \<leftarrow> builder_add b l; concat_into b' ls }"

definition layout_concat :: "layout list \<Rightarrow> layout option" where
  "layout_concat ls = do { b \<leftarrow> concat_into builder_new ls; builder_finish b }"

definition offset_by :: "layout \<Rightarrow> nat \<Rightarrow> nat option" where
  "offset_by l n = do {
     l0 \<leftarrow> layout_new n 1;
     (b, _) \<leftarrow> builder_add builder_new l0;
     (_, off) \<leftarrow> builder_add b l;
     Some off }"


section \<open>Well-formed layouts and builders\<close>

text \<open>
  The three conditions documented on \<open>Layout\<close> (a power of two is not zero), and the invariant of
  a builder: its alignment is the largest one added so far.
\<close>

definition valid_layout :: "layout \<Rightarrow> bool" where
  "valid_layout l \<longleftrightarrow> is_power_of_two (lalign l) \<and> lalign l dvd lsize l"

definition builder_ok :: "layout_builder \<Rightarrow> bool" where
  "builder_ok b \<longleftrightarrow> is_power_of_two (balign b)"

lemma layout_new_Some:
  "layout_new n a = Some l \<longleftrightarrow> l = \<lparr>lsize = n, lalign = a\<rparr> \<and> valid_layout l"
  by (auto simp: layout_new_def valid_layout_def)

lemma valid_layout_pos [simp]: "valid_layout l \<Longrightarrow> 0 < lalign l"
  by (simp add: valid_layout_def)

lemma builder_new_ok [inv_intros, simp]: "builder_ok builder_new"
  by (simp add: builder_ok_def builder_new_def)

lemma builder_add_Some:
  "builder_add b l = Some (b', off) \<longleftrightarrow>
     next_multiple_of (bsize b) (lalign l) = Some off \<and> off + lsize l < usize_bound \<and>
     b' = \<lparr>bsize = off + lsize l, balign = max (balign b) (lalign l)\<rparr>"
  by (auto simp: builder_add_def bind_eq_Some_conv)

lemma builder_add_ok [inv_intros]:
  "builder_ok b \<Longrightarrow> valid_layout l \<Longrightarrow> builder_add b l = Some (b', off) \<Longrightarrow> builder_ok b'"
  by (auto simp: builder_add_Some builder_ok_def valid_layout_def intro: power_of_two_max)

lemma builder_finish_eq:
  assumes "builder_ok b"
  shows "builder_finish b =
    map_option (\<lambda>n. \<lparr>lsize = n, lalign = balign b\<rparr>) (next_multiple_of (bsize b) (balign b))"
proof (cases "next_multiple_of (bsize b) (balign b)")
  case (Some n)
  then have "balign b dvd n" by (rule next_multiple_of_Some)
  with Some assms show ?thesis
    by (simp add: builder_finish_def layout_new_def builder_ok_def)
qed (simp add: builder_finish_def)

lemma builder_finish_valid:
  assumes "builder_finish b = Some l"
  shows "valid_layout l" and "bsize b \<le> lsize l" and "lalign l = balign b"
  using assms next_multiple_of_Some(1) [of "bsize b" "balign b"]
  by (auto simp: builder_finish_def bind_eq_Some_conv layout_new_Some)

section \<open>Placing a sequence of fields\<close>

text \<open>
  The loop of every place in the code that walks the fields of a record or of an enum variant:
  add each field's layout to the builder and keep the offset.
\<close>

fun place :: "layout_builder \<Rightarrow> layout list \<Rightarrow> (layout_builder \<times> nat list) option" where
  "place b [] = Some (b, [])"
| "place b (l # ls) = do {
     (b1, off) \<leftarrow> builder_add b l;
     (b2, offs) \<leftarrow> place b1 ls;
     Some (b2, off # offs) }"

lemma place_Cons_Some:
  "place b (l # ls) = Some (b2, offs) \<longleftrightarrow>
    (\<exists>b1 off offs'. builder_add b l = Some (b1, off) \<and> place b1 ls = Some (b2, offs') \<and>
       offs = off # offs')"
  by (auto simp: bind_eq_Some_conv)

declare place.simps(2) [simp del]
lemmas place_simps [simp] = place_Cons_Some

lemma concat_into_place: "concat_into b ls = map_option fst (place b ls)"
  by (induction ls arbitrary: b)
    (auto simp: place.simps(2) split: option.splits bind_split)

lemma place_length: "place b ls = Some (b', offs) \<Longrightarrow> length offs = length ls"
  by (induction ls arbitrary: b offs) auto

lemma place_ok [inv_intros]:
  "place b ls = Some (b', offs) \<Longrightarrow> builder_ok b \<Longrightarrow> \<forall>l \<in> set ls. valid_layout l \<Longrightarrow> builder_ok b'"
  by (induction ls arbitrary: b offs) (auto intro: builder_add_ok)

lemma place_size_mono: "place b ls = Some (b', offs) \<Longrightarrow> bsize b \<le> bsize b'"
proof (induction ls arbitrary: b offs)
  case (Cons l ls)
  then obtain b1 off offs' where
    add: "builder_add b l = Some (b1, off)" and rest: "place b1 ls = Some (b', offs')"
    by auto
  from add have "bsize b \<le> bsize b1"
    by (auto simp: builder_add_Some dest: next_multiple_of_Some(1))
  with Cons.IH [OF rest] show ?case by simp
qed simp

lemma place_align:
  "place b ls = Some (b', offs) \<Longrightarrow> balign b' = fold max (map lalign ls) (balign b)"
  by (induction ls arbitrary: b offs) (auto simp: builder_add_Some max.commute)

lemma fold_max_ge: "(a::nat) \<le> fold max xs a \<and> (\<forall>x \<in> set xs. x \<le> fold max xs a)"
proof (induction xs arbitrary: a)
  case (Cons x xs)
  from Cons.IH [of "max x a"] show ?case by auto
qed simp

lemma place_align_le:
  "place b ls = Some (b', offs) \<Longrightarrow> l \<in> set ls \<Longrightarrow> lalign l \<le> balign b'"
  using fold_max_ge [of "balign b" "map lalign ls"] by (simp add: place_align)

lemma place_aligned:
  "place b ls = Some (b', offs) \<Longrightarrow> i < length ls \<Longrightarrow> lalign (ls ! i) dvd offs ! i"
proof (induction ls arbitrary: b offs i)
  case (Cons l ls)
  then show ?case
    by (cases i) (auto simp: builder_add_Some dest: next_multiple_of_Some(2))
qed simp

lemma place_start: "place b ls = Some (b', offs) \<Longrightarrow> i < length ls \<Longrightarrow> bsize b \<le> offs ! i"
proof (induction ls arbitrary: b offs i)
  case (Cons l ls)
  then obtain b1 off offs' where
    add: "builder_add b l = Some (b1, off)" and rest: "place b1 ls = Some (b', offs')"
    and offs: "offs = off # offs'" by auto
  from add have off: "bsize b \<le> off" and b1: "off \<le> bsize b1"
    by (auto simp: builder_add_Some dest: next_multiple_of_Some(1))
  show ?case
  proof (cases i)
    case (Suc j)
    with Cons.prems Cons.IH [OF rest, of j] off b1 offs show ?thesis by simp
  qed (use off offs in simp)
qed simp

lemma place_end:
  "place b ls = Some (b', offs) \<Longrightarrow> i < length ls \<Longrightarrow> offs ! i + lsize (ls ! i) \<le> bsize b'"
proof (induction ls arbitrary: b offs i)
  case (Cons l ls)
  then obtain b1 off offs' where
    add: "builder_add b l = Some (b1, off)" and rest: "place b1 ls = Some (b', offs')"
    and offs: "offs = off # offs'" by auto
  from add have "off + lsize l = bsize b1" by (auto simp: builder_add_Some)
  with place_size_mono [OF rest] Cons.prems Cons.IH [OF rest] offs show ?case
    by (cases i) auto
qed simp

lemma place_disjoint:
  "place b ls = Some (b', offs) \<Longrightarrow> i < j \<Longrightarrow> j < length ls \<Longrightarrow>
    offs ! i + lsize (ls ! i) \<le> offs ! j"
proof (induction ls arbitrary: b offs i j)
  case (Cons l ls)
  then obtain b1 off offs' k where
    add: "builder_add b l = Some (b1, off)" and rest: "place b1 ls = Some (b', offs')"
    and offs: "offs = off # offs'" and j: "j = Suc k" by (cases j) auto
  from add have "off + lsize l = bsize b1" by (auto simp: builder_add_Some)
  then show ?case
    using Cons.prems Cons.IH [OF rest, of "i - 1" k] place_start [OF rest, of k] offs j
    by (cases i) auto
qed simp

text \<open>\<open>layout_ok_at\<close>: what it means that the fields \<open>ls\<close> live at \<open>offs\<close> inside a value of layout \<open>L\<close>.\<close>

definition fields_fit :: "layout list \<Rightarrow> nat list \<Rightarrow> layout \<Rightarrow> bool" where
  "fields_fit ls offs L \<longleftrightarrow>
     length offs = length ls \<and>
     (\<forall>i < length ls. lalign (ls ! i) dvd offs ! i \<and> lalign (ls ! i) dvd lalign L \<and>
        offs ! i + lsize (ls ! i) \<le> lsize L) \<and>
     (\<forall>j < length ls. \<forall>i < j. offs ! i + lsize (ls ! i) \<le> offs ! j)"

lemma place_fits:
  assumes "place b ls = Some (b', offs)" and "builder_finish b' = Some L"
    and "builder_ok b" and "\<forall>l \<in> set ls. valid_layout l"
  shows "fields_fit ls offs L"
proof -
  note fin = builder_finish_valid [OF assms(2)]
  have "lalign (ls ! i) dvd lalign L" if "i < length ls" for i
  proof (rule power_of_two_dvd)
    show "is_power_of_two (lalign (ls ! i))"
      using assms(4) that by (auto simp: valid_layout_def)
    show "is_power_of_two (lalign L)" using fin(1) by (simp add: valid_layout_def)
    show "lalign (ls ! i) \<le> lalign L"
      using place_align_le [OF assms(1)] that fin(3) by simp
  qed
  moreover have "offs ! i + lsize (ls ! i) \<le> lsize L" if "i < length ls" for i
    using place_end [OF assms(1) that] fin(2) by simp
  ultimately show ?thesis
    using place_length [OF assms(1)] place_aligned [OF assms(1)] place_disjoint [OF assms(1)]
    by (auto simp: fields_fit_def)
qed

text \<open>
  C30. Whatever fields a record or enum variant has, the offsets the builder gives them are aligned
  for their types, do not overlap, follow the declaration order and stay inside the finished
  layout, which satisfies the three documented conditions of \<open>Layout\<close>.
\<close>

theorem builder_places_fields:
  assumes "\<forall>l \<in> set ls. valid_layout l"
    and "place builder_new ls = Some (b, offs)" and "builder_finish b = Some L"
  shows "fields_fit ls offs L \<and> valid_layout L \<and> layout_concat ls = Some L"
  using assms place_fits [OF assms(2,3) builder_new_ok assms(1)] builder_finish_valid(1) [OF assms(3)]
  by (simp add: layout_concat_def concat_into_place)

theorem builder_places_fields_witness:
  "fields_fit [\<lparr>lsize = 1, lalign = 1\<rparr>, \<lparr>lsize = 4, lalign = 4\<rparr>, \<lparr>lsize = 2, lalign = 2\<rparr>] [0, 4, 8]
     \<lparr>lsize = 12, lalign = 4\<rparr>"
proof -
  let ?ls = "[\<lparr>lsize = 1, lalign = 1\<rparr>, \<lparr>lsize = 4, lalign = 4\<rparr>, \<lparr>lsize = 2, lalign = 2\<rparr>]"
  have v: "\<forall>l \<in> set ?ls. valid_layout l"
    by (simp add: valid_layout_def is_power_of_two.simps)
  have p: "place builder_new ?ls = Some (\<lparr>bsize = 10, balign = 4\<rparr>, [0, 4, 8])"
    by (simp add: builder_add_Some builder_new_def next_multiple_of_def usize_bound_def)
  have f: "builder_finish \<lparr>bsize = 10, balign = 4\<rparr> = Some \<lparr>lsize = 12, lalign = 4\<rparr>"
    by (simp add: builder_finish_def next_multiple_of_def layout_new_def
        is_power_of_two.simps usize_def usize_bound_def)
  show ?thesis using builder_places_fields [OF v p f] by simp
qed


section \<open>Unions, offsets and the absence of panics\<close>

text \<open>
  The union of two valid layouts is valid, can hold either of them, and is the smallest such
  layout; it panics only when the rounded size does not fit a \<open>usize\<close>.
\<close>

theorem layout_union_least:
  assumes "valid_layout a" and "valid_layout b"
  shows "layout_union a b = None \<and> usize_bound < max (lsize a) (lsize b) + max (lalign a) (lalign b)
    \<or> (\<exists>u. layout_union a b = Some u \<and> valid_layout u \<and>
        lsize a \<le> lsize u \<and> lsize b \<le> lsize u \<and> lalign a dvd lalign u \<and> lalign b dvd lalign u \<and>
        (\<forall>w. valid_layout w \<longrightarrow> lsize a \<le> lsize w \<longrightarrow> lsize b \<le> lsize w \<longrightarrow>
           lalign a dvd lalign w \<longrightarrow> lalign b dvd lalign w \<longrightarrow>
           lsize u \<le> lsize w \<and> lalign u dvd lalign w))"
proof -
  let ?al = "max (lalign a) (lalign b)" and ?sz = "max (lsize a) (lsize b)"
  have al: "is_power_of_two ?al"
    using assms by (simp add: valid_layout_def power_of_two_max)
  show ?thesis
  proof (cases "next_multiple_of ?sz ?al")
    case None
    then have "usize_bound < ?sz + ?al"
      using next_multiple_of_total [of ?al ?sz] power_of_two_pos [OF al] by fastforce
    with None show ?thesis by (simp add: layout_union_def Let_def)
  next
    case (Some n)
    note n = next_multiple_of_Some [OF Some]
    let ?u = "\<lparr>lsize = n, lalign = ?al\<rparr>"
    have dvd: "lalign a dvd ?al" "lalign b dvd ?al"
      using assms al by (auto simp: valid_layout_def intro: power_of_two_dvd)
    have least: "n \<le> lsize w \<and> ?al dvd lalign w"
      if "valid_layout w" "lsize a \<le> lsize w" "lsize b \<le> lsize w"
        "lalign a dvd lalign w" "lalign b dvd lalign w" for w
    proof -
      have alw: "?al dvd lalign w" using that(4,5) by (simp add: max_def)
      also have "lalign w dvd lsize w" using that(1) by (simp add: valid_layout_def)
      finally have "n \<le> lsize w" using that(2,3) by (intro n(4)) auto
      with alw show ?thesis by simp
    qed
    have "layout_union a b = Some ?u" using Some by (simp add: layout_union_def Let_def)
    moreover have "valid_layout ?u" using al n(2) by (simp add: valid_layout_def)
    ultimately show ?thesis using n(1) dvd least by auto
  qed
qed

theorem layout_union_least_witness:
  "valid_layout \<lparr>lsize = 6, lalign = 2\<rparr> \<and> valid_layout \<lparr>lsize = 4, lalign = 4\<rparr> \<and>
   layout_union \<lparr>lsize = 6, lalign = 2\<rparr> \<lparr>lsize = 4, lalign = 4\<rparr> = Some \<lparr>lsize = 8, lalign = 4\<rparr> \<and>
   valid_layout \<lparr>lsize = 8, lalign = 4\<rparr>"
proof -
  have v: "valid_layout \<lparr>lsize = 6, lalign = 2\<rparr>" "valid_layout \<lparr>lsize = 4, lalign = 4\<rparr>"
    by (simp_all add: valid_layout_def is_power_of_two.simps)
  have u: "layout_union \<lparr>lsize = 6, lalign = 2\<rparr> \<lparr>lsize = 4, lalign = 4\<rparr>
      = Some \<lparr>lsize = 8, lalign = 4\<rparr>"
    by (simp add: layout_union_def next_multiple_of_def usize_def usize_bound_def)
  from layout_union_least [OF v] u v show ?thesis by auto
qed

lemma place_total:
  assumes "\<forall>l \<in> set ls. 0 < lalign l"
    and "bsize b + (\<Sum>l \<leftarrow> ls. lsize l + lalign l) < usize_bound"
  shows "\<exists>b' offs. place b ls = Some (b', offs) \<and>
    bsize b' \<le> bsize b + (\<Sum>l \<leftarrow> ls. lsize l + lalign l)"
  using assms
proof (induction ls arbitrary: b)
  case (Cons l ls)
  then obtain off where off: "next_multiple_of (bsize b) (lalign l) = Some off"
    using next_multiple_of_total [of "lalign l" "bsize b"] by fastforce
  have offb: "off < bsize b + lalign l" using next_multiple_of_Some(3) [OF off] .
  let ?b = "\<lparr>bsize = off + lsize l, balign = max (balign b) (lalign l)\<rparr>"
  have "builder_add b l = Some (?b, off)"
    using off offb Cons.prems by (auto simp: builder_add_Some)
  moreover have "\<exists>b' offs. place ?b ls = Some (b', offs) \<and>
      bsize b' \<le> bsize ?b + (\<Sum>l \<leftarrow> ls. lsize l + lalign l)"
    using Cons.prems offb by (intro Cons.IH) auto
  ultimately show ?case using offb by fastforce
qed simp

lemma fold_max_le_sum: "fold max xs (a::nat) \<le> a + sum_list xs"
proof (induction xs arbitrary: a)
  case (Cons x xs)
  from Cons.IH [of "max x a"] show ?case by simp
qed simp

text \<open>
  \<open>Layout::concat\<close> never panics on valid layouts whose sizes and alignments add up to less than
  half of the address space: neither an arithmetic overflow nor one of the assertions of
  \<open>Layout::new\<close> can fire.
\<close>

theorem layout_concat_no_panic:
  assumes "\<forall>l \<in> set ls. valid_layout l"
    and "2 * (\<Sum>l \<leftarrow> ls. lsize l + lalign l) + 1 < usize_bound"
  shows "\<exists>L. layout_concat ls = Some L \<and> valid_layout L \<and> (\<forall>l \<in> set ls. lsize l \<le> lsize L)"
proof -
  let ?S = "\<Sum>l \<leftarrow> ls. lsize l + lalign l"
  have "\<forall>l \<in> set ls. 0 < lalign l" using assms(1) by auto
  moreover have "bsize builder_new + ?S < usize_bound"
    using assms(2) by (simp add: builder_new_def)
  ultimately obtain b offs where p: "place builder_new ls = Some (b, offs)" and b: "bsize b \<le> ?S"
    using place_total [of ls builder_new] by (auto simp: builder_new_def)
  have ok: "builder_ok b" using place_ok [OF p builder_new_ok assms(1)] .
  have "balign b \<le> 1 + sum_list (map lalign ls)"
    using place_align [OF p] fold_max_le_sum [of "map lalign ls" 1] by (simp add: builder_new_def)
  moreover have "sum_list (map lalign ls) \<le> ?S" by (rule sum_list_mono) simp
  ultimately have "bsize b + balign b \<le> usize_bound" using b assms(2) by linarith
  then obtain n where n: "next_multiple_of (bsize b) (balign b) = Some n"
    using next_multiple_of_total [of "balign b" "bsize b"] ok by (auto simp: builder_ok_def)
  let ?L = "\<lparr>lsize = n, lalign = balign b\<rparr>"
  have f: "builder_finish b = Some ?L" using n ok by (simp add: builder_finish_eq)
  then have c: "layout_concat ls = Some ?L"
    using p by (simp add: layout_concat_def concat_into_place)
  have fit: "fields_fit ls offs ?L" by (rule place_fits [OF p f builder_new_ok assms(1)])
  have "lsize l \<le> lsize ?L" if "l \<in> set ls" for l
  proof -
    from that obtain i where "i < length ls" "ls ! i = l" by (auto simp: in_set_conv_nth)
    with fit show ?thesis by (fastforce simp: fields_fit_def)
  qed
  with c builder_finish_valid(1) [OF f] show ?thesis by auto
qed

theorem layout_concat_no_panic_witness:
  "\<exists>L. layout_concat [\<lparr>lsize = 1, lalign = 1\<rparr>, \<lparr>lsize = 8, lalign = 8\<rparr>] = Some L \<and> valid_layout L \<and>
     (\<forall>l \<in> set [\<lparr>lsize = 1, lalign = 1\<rparr>, \<lparr>lsize = 8, lalign = 8\<rparr>]. lsize l \<le> lsize L)"
  by (rule layout_concat_no_panic) (simp_all add: valid_layout_def is_power_of_two.simps usize_bound_def)

lemma offset_by_eq:
  assumes "valid_layout l"
  shows "offset_by l n = (case next_multiple_of n (lalign l) of
      None \<Rightarrow> None
    | Some off \<Rightarrow> if n < usize_bound \<and> off + lsize l < usize_bound then Some off else None)"
  using assms
  by (simp add: offset_by_def layout_new_def builder_add_def builder_new_def usize_def
      next_multiple_of_def [of 0] split: option.splits)

end
