(* ===== verification/Source_Text.thy ===== *)
theory Source_Text
  imports Prelude
begin

text \<open>
  Source text and positions: \<open>str\<close> slices as lists of Unicode scalar values with their UTF-8 byte
  lengths, and \<open>src/src/parser/meta.rs\<close> (spans, the span table and the metadata wrapper).
  Rust indexes a \<open>str\<close> by bytes and panics when an index is inside a character, so every slicing
  operation here returns an option.
\<close>

section \<open>Strings as Rust sees them\<close>

type_synonym rchar = nat
type_synonym str = "rchar list"

text \<open>\<open>char::len_utf8\<close>.\<close>

definition utf8_len :: "rchar \<Rightarrow> nat" where
  "utf8_len c = (if c < 0x80 then 1 else if c < 0x800 then 2 else if c < 0x10000 then 3 else 4)"

definition byte_len :: "str \<Rightarrow> nat" where
  "byte_len s = sum_list (map utf8_len s)"

text \<open>\<open>str::split_at\<close>: byte offset, panic when it is not a character boundary.\<close>

fun split_at :: "nat \<Rightarrow> str \<Rightarrow> (str \<times> str) option" where
  "split_at 0 s = Some ([], s)"
| "split_at (Suc n) [] = None"
| "split_at (Suc n) (c # s) =
     (if utf8_len c \<le> Suc n
      then map_option (\<lambda>(a, b). (c # a, b)) (split_at (Suc n - utf8_len c) s) else None)"

definition lit :: "string \<Rightarrow> str" where
  "lit s = map of_char s"

lemma utf8_len_pos [simp]: "0 < utf8_len c"
  by (simp add: utf8_len_def)

lemma byte_len_simps [simp]:
  "byte_len [] = 0" "byte_len (c # s) = utf8_len c + byte_len s"
  "byte_len (s @ t) = byte_len s + byte_len t"
  by (simp_all add: byte_len_def)

lemma byte_len_zero [simp]: "byte_len s = 0 \<longleftrightarrow> s = []"
  by (cases s) (auto simp: utf8_len_def)

lemma byte_len_ge_length: "length s \<le> byte_len s"
proof (induction s)
  case (Cons c s)
  have "Suc 0 \<le> utf8_len c" using utf8_len_pos [of c] by linarith
  with Cons show ?case by simp
qed simp

lemma utf8_len_ascii [simp]: "c < 128 \<Longrightarrow> utf8_len c = 1"
  by (simp add: utf8_len_def)

lemma byte_len_ascii: "\<forall>c \<in> set s. c < 128 \<Longrightarrow> byte_len s = length s"
  by (induction s) auto

lemma split_at_append: "split_at n s = Some (a, b) \<Longrightarrow> s = a @ b \<and> byte_len a = n"
proof (induction n s arbitrary: a b rule: split_at.induct)
  case (3 n c s)
  then show ?case by (fastforce split: if_splits)
qed auto

lemma split_at_byte_len [simp]: "split_at (byte_len a) (a @ b) = Some (a, b)"
proof (induction a)
  case (Cons c a)
  obtain k where k: "utf8_len c + byte_len a = Suc k"
    using utf8_len_pos [of c] by (cases "utf8_len c + byte_len a") auto
  then have "Suc k - utf8_len c = byte_len a" and "utf8_len c \<le> Suc k" by linarith+
  with Cons k show ?case by simp
qed simp

lemma split_at_Some_iff: "split_at n s = Some (a, b) \<longleftrightarrow> s = a @ b \<and> byte_len a = n"
  using split_at_append split_at_byte_len by blast

lemma split_at_ascii:
  "\<forall>c \<in> set s. c < 128 \<Longrightarrow> n \<le> length s \<Longrightarrow> split_at n s = Some (take n s, drop n s)"
proof -
  assume "\<forall>c \<in> set s. c < 128" and n: "n \<le> length s"
  then have "\<forall>c \<in> set (take n s). c < 128" by (auto dest: in_set_takeD)
  then have "byte_len (take n s) = n" using n by (simp add: byte_len_ascii)
  then show ?thesis by (simp add: split_at_Some_iff)
qed

section \<open>Spans\<close>

record span =
  span_file :: nat
  span_start :: nat
  span_end :: nat

definition span_merge :: "span \<Rightarrow> span \<Rightarrow> span option" where
  "span_merge x y =
     (if span_file x \<noteq> span_file y then None
      else Some \<lparr>span_file = span_file x,
                 span_start = min (span_start x) (span_start y),
                 span_end = max (span_end x) (span_end y)\<rparr>)"

definition span_new :: "nat \<Rightarrow> nat \<times> nat \<Rightarrow> span" where
  "span_new f r = \<lparr>span_file = f, span_start = fst r, span_end = snd r\<rparr>"

text \<open>\<open>&file[a..b]\<close>: a panic when the range is decreasing, too long or splits a character.\<close>

definition slice :: "str \<Rightarrow> nat \<Rightarrow> nat \<Rightarrow> str option" where
  "slice s a b = (if b < a then None else do {
     (_, rest) \<leftarrow> split_at a s;
     (mid, _) \<leftarrow> split_at (b - a) rest;
     Some mid })"

definition character_range :: "span \<Rightarrow> str \<Rightarrow> (nat \<times> nat) option" where
  "character_range sp f = do {
     before \<leftarrow> slice f 0 (span_start sp);
     inside \<leftarrow> slice f (span_start sp) (span_end sp);
     (let start = length before in Some (start, start + length inside)) }"

section \<open>The span table\<close>

type_synonym meta_id = nat

datatype 'a meta = Meta (node: 'a) (meta_id: meta_id)

record spans =
  span_table :: "span list"

definition spans_add :: "spans \<Rightarrow> span \<Rightarrow> 'a \<Rightarrow> spans \<times> 'a meta" where
  "spans_add s sp x =
     (s\<lparr>span_table := span_table s @ [sp]\<rparr>, (Meta x (length (span_table s))))"

definition spans_get :: "spans \<Rightarrow> meta_id \<Rightarrow> span option" where
  "spans_get s i = index (span_table s) i"

definition spans_merge :: "spans \<Rightarrow> meta_id \<Rightarrow> meta_id \<Rightarrow> span option" where
  "spans_merge s x y = do {
     a \<leftarrow> spans_get s x;
     b \<leftarrow> spans_get s y;
     span_merge a b }"

interpretation span_store: index_store
  "\<lambda>s sp. (fst (spans_add s sp ()), meta_id (snd (spans_add s sp ())))"
  spans_get "\<lambda>s. length (span_table s)" "\<lambda>sp _. sp"
  by unfold_locales (auto simp: spans_add_def spans_get_def)

text \<open>The source text a span stands for.\<close>

definition covers :: "span \<Rightarrow> span \<Rightarrow> bool" where
  "covers x y \<longleftrightarrow> span_file x = span_file y \<and> span_start x \<le> span_start y \<and> span_end y \<le> span_end x"

lemma span_merge_covers:
  "span_merge x y = Some z \<Longrightarrow> covers z x \<and> covers z y"
  by (auto simp: span_merge_def covers_def split: if_splits)

text \<open>
  Looking up the span of two freshly added nodes and merging them gives the least span that
  covers both, whatever else was in the table; it panics exactly when the nodes come from
  different files.
\<close>

theorem spans_merge_added:
  "spans_merge
     (fst (spans_add (fst (spans_add s p x)) q y))
     (meta_id (snd (spans_add s p x)))
     (meta_id (snd (spans_add (fst (spans_add s p x)) q y)))
   = (if span_file p = span_file q
      then Some \<lparr>span_file = span_file p, span_start = min (span_start p) (span_start q),
                 span_end = max (span_end p) (span_end q)\<rparr>
      else None)
   \<and> (span_file p = span_file q \<longrightarrow>
       (\<forall>w. covers w p \<longrightarrow> covers w q \<longrightarrow> covers w (the (span_merge p q))))"
proof -
  let ?s1 = "fst (spans_add s p x)" and ?i = "meta_id (snd (spans_add s p x))"
  let ?s2 = "fst (spans_add ?s1 q y)" and ?j = "meta_id (snd (spans_add ?s1 q y))"
  have "spans_get ?s2 ?i = Some p"
    using span_store.adds_get_new [of 0 "[p, q]" s]
    by (simp add: spans_add_def spans_get_def index_def nth_append)
  moreover have "spans_get ?s2 ?j = Some q"
    using span_store.adds_get_new [of 1 "[p, q]" s]
    by (simp add: spans_add_def spans_get_def index_def nth_append)
  ultimately have "spans_merge ?s2 ?i ?j = span_merge p q"
    by (simp add: spans_merge_def)
  then show ?thesis by (auto simp: span_merge_def covers_def)
qed

theorem spans_merge_added_witness:
  "spans_merge
     (fst (spans_add (fst (spans_add \<lparr>span_table = []\<rparr> (span_new 0 (3, 5)) ())) (span_new 0 (1, 4)) ()))
     0 1 = Some (span_new 0 (1, 5))"
  using spans_merge_added [of "\<lparr>span_table = []\<rparr>" "span_new 0 (3, 5)" "()" "span_new 0 (1, 4)" "()"]
  by (simp add: spans_add_def span_new_def)

lemma slice_Some_iff:
  "slice s a b = Some m \<longleftrightarrow> (\<exists>p q. s = p @ m @ q \<and> byte_len p = a \<and> b = a + byte_len m)"
proof
  assume "slice s a b = Some m"
  then obtain p r q where "\<not> b < a" "split_at a s = Some (p, r)" "split_at (b - a) r = Some (m, q)"
    by (auto simp: slice_def bind_eq_Some_conv split: if_splits)
  then show "\<exists>p q. s = p @ m @ q \<and> byte_len p = a \<and> b = a + byte_len m"
    by (intro exI [of _ p] exI [of _ q]) (simp add: split_at_Some_iff)
next
  assume "\<exists>p q. s = p @ m @ q \<and> byte_len p = a \<and> b = a + byte_len m"
  then show "slice s a b = Some m" by (auto simp: slice_def)
qed

lemma character_range_eq:
  "f = p @ m @ q \<Longrightarrow>
   character_range \<lparr>span_file = i, span_start = byte_len p, span_end = byte_len p + byte_len m\<rparr> f
     = Some (length p, length p + length m)"
proof -
  assume f: "f = p @ m @ q"
  have "slice f 0 (byte_len p) = Some p" using f by (simp add: slice_Some_iff)
  moreover have "slice f (byte_len p) (byte_len p + byte_len m) = Some m"
    using f by (auto simp: slice_Some_iff)
  ultimately show ?thesis by (simp add: character_range_def Let_def)
qed

end
