(* ===== verification/Type_Defs.thy ===== *)
theory Type_Defs
  imports Layout Source_Text
begin

text \<open>
  \<open>src/src/typechecker/types.rs\<close>: the types of the type checker, named type definitions,
  signatures, instantiation with fresh variables and substitution.  Constructors carry a prefix
  (\<open>T\<close> for \<open>Type\<close>, \<open>D\<close> for \<open>TypeDefinition\<close>, \<open>P\<close> for \<open>Primitive\<close>) because the MIR and the LIR reuse the names.
  A closure \<open>fresh_var\<close> that mutates its environment is a state transformer.
\<close>

type_synonym ident = string
type_synonym scope_ref = nat
type_synonym type_id = nat

abbreviation (input) GLOBAL :: scope_ref where "GLOBAL \<equiv> 0"

datatype resolved_name = ResolvedName (rn_scope: scope_ref) (rn_ident: ident)

datatype must_be_signed = SignedYes | SignedNo

datatype rtype =
  TVar nat
| TExplicitVar ident
| TIntVar nat must_be_signed
| TFloatVar nat
| TRecordVar nat "(ident meta \<times> rtype) list"
| TUnit
| TNever
| TRecord "(ident meta \<times> rtype) list"
| TFunction "rtype list" rtype
| TName type_name
and type_name = TypeName (tn_name: resolved_name) (tn_arguments: "rtype list")

type_synonym fields = "(ident meta \<times> rtype) list"

datatype int_size = I8 | I16 | I32 | I64
datatype int_kind = Unsigned | Signed
datatype float_size = F32 | F64

datatype primitive =
  PInt int_kind int_size
| PFloat float_size
| PString
| PChar
| PBool
| PAsn
| PIpAddr
| PPrefix

record enum_variant =
  ev_name :: ident
  ev_fields :: "rtype list"

datatype type_definition =
  DEnum type_name "enum_variant list"
| DRecord type_name fields
| DRuntime resolved_name type_id
| DPrimitive primitive
| DList type_name

section \<open>Constructors of named types\<close>

definition named :: "ident \<Rightarrow> rtype list \<Rightarrow> rtype" where
  "named i args = TName (TypeName (ResolvedName GLOBAL i) args)"

definition t_option :: "rtype \<Rightarrow> rtype" where "t_option t = named ''Option'' [t]"
definition t_list :: "rtype \<Rightarrow> rtype" where "t_list t = named ''List'' [t]"
definition t_result :: "rtype \<Rightarrow> rtype \<Rightarrow> rtype" where "t_result a b = named ''Result'' [a, b]"
definition t_verdict :: "rtype \<Rightarrow> rtype \<Rightarrow> rtype" where "t_verdict a b = named ''Verdict'' [a, b]"
definition t_bool :: rtype where "t_bool = named ''bool'' []"
definition t_i32 :: rtype where "t_i32 = named ''i32'' []"
definition t_u8 :: rtype where "t_u8 = named ''u8'' []"
definition t_f64 :: rtype where "t_f64 = named ''f64'' []"
definition t_string :: rtype where "t_string = named ''String'' []"

section \<open>Primitives\<close>

fun int_size_int :: "int_size \<Rightarrow> nat" where
  "int_size_int I8 = 8"
| "int_size_int I16 = 16"
| "int_size_int I32 = 32"
| "int_size_int I64 = 64"

fun int_kind_prefix :: "int_kind \<Rightarrow> char" where
  "int_kind_prefix Unsigned = CHR ''u''"
| "int_kind_prefix Signed = CHR ''i''"

fun float_size_int :: "float_size \<Rightarrow> nat" where
  "float_size_int F32 = 32"
| "float_size_int F64 = 64"

fun show_primitive :: "primitive \<Rightarrow> string" where
  "show_primitive (PInt ty sz) = int_kind_prefix ty # show_nat (int_size_int sz)"
| "show_primitive (PFloat sz) = CHR ''f'' # show_nat (float_size_int sz)"
| "show_primitive PString = ''String''"
| "show_primitive PBool = ''bool''"
| "show_primitive PChar = ''char''"
| "show_primitive PAsn = ''Asn''"
| "show_primitive PIpAddr = ''IpAddr''"
| "show_primitive PPrefix = ''Prefix''"

text \<open>
  The layouts of the Rust types \<open>RotoString\<close>, \<open>IpAddr\<close>, \<open>Prefix\<close> and \<open>ErasedList\<close> come from the Rust
  compiler (\<open>Layout::of\<close>): parameters of the model.
\<close>

record platform =
  string_layout :: layout
  ip_addr_layout :: layout
  prefix_layout :: layout
  list_layout :: layout

fun primitive_layout :: "platform \<Rightarrow> primitive \<Rightarrow> layout option" where
  "primitive_layout pf (PInt _ sz) =
     (let bytes = int_size_int sz div 8 in layout_new bytes bytes)"
| "primitive_layout pf (PFloat sz) =
     (let bytes = float_size_int sz div 8 in layout_new bytes bytes)"
| "primitive_layout pf PBool = layout_new 1 1"
| "primitive_layout pf PChar = layout_new 4 4"
| "primitive_layout pf PAsn = layout_new 4 4"
| "primitive_layout pf PString = Some (string_layout pf)"
| "primitive_layout pf PIpAddr = Some (ip_addr_layout pf)"
| "primitive_layout pf PPrefix = Some (prefix_layout pf)"

definition valid_platform :: "platform \<Rightarrow> bool" where
  "valid_platform pf \<longleftrightarrow> valid_layout (string_layout pf) \<and> valid_layout (ip_addr_layout pf) \<and>
     valid_layout (prefix_layout pf) \<and> valid_layout (list_layout pf)"

lemma primitive_layout_valid:
  assumes "valid_platform pf"
  shows "\<exists>l. primitive_layout pf p = Some l \<and> valid_layout l"
proof -
  have two: "is_power_of_two 2" "is_power_of_two 4" "is_power_of_two 8"
    by (simp_all add: is_power_of_two.simps)
  show ?thesis
  proof (cases p)
    case (PInt k sz)
    then show ?thesis using two by (cases sz) (simp_all add: layout_new_Some valid_layout_def)
  next
    case (PFloat sz)
    then show ?thesis using two by (cases sz) (simp_all add: layout_new_Some valid_layout_def)
  qed (use assms two in \<open>simp_all add: layout_new_Some valid_layout_def valid_platform_def\<close>)
qed

section \<open>Type definitions\<close>

fun def_type_name :: "type_definition \<Rightarrow> type_name" where
  "def_type_name (DEnum n _) = n"
| "def_type_name (DRecord n _) = n"
| "def_type_name (DList n) = n"
| "def_type_name (DRuntime r _) = TypeName r []"
| "def_type_name (DPrimitive p) = TypeName (ResolvedName GLOBAL (show_primitive p)) []"

fun is_signed_int :: "type_definition \<Rightarrow> bool" where
  "is_signed_int (DPrimitive (PInt Signed _)) = True"
| "is_signed_int _ = False"

fun is_int :: "type_definition \<Rightarrow> bool" where
  "is_int (DPrimitive (PInt _ _)) = True"
| "is_int _ = False"

fun is_float :: "type_definition \<Rightarrow> bool" where
  "is_float (DPrimitive (PFloat _)) = True"
| "is_float _ = False"

lemma is_signed_int_is_int: "is_signed_int d \<Longrightarrow> is_int d"
  by (cases d rule: is_signed_int.cases) auto

section \<open>Substitution\<close>

lemma size_field [termination_simp]: "(n, t) \<in> set fs \<Longrightarrow> size (t::rtype) < Suc (size_list (size_prod (\<lambda>_. 0) size) fs)"
  by (induction fs) auto

fun substitute :: "rtype \<Rightarrow> rtype \<Rightarrow> rtype \<Rightarrow> rtype" where
  "substitute me frm to =
     (if me = frm then to
      else case me of
        TRecordVar x fs \<Rightarrow> TRecordVar x (map (\<lambda>(n, t). (n, substitute t frm to)) fs)
      | TRecord fs \<Rightarrow> TRecord (map (\<lambda>(n, t). (n, substitute t frm to)) fs)
      | TName (TypeName n args) \<Rightarrow> TName (TypeName n (map (\<lambda>t. substitute t frm to) args))
      | other \<Rightarrow> other)"


declare substitute.simps [simp del]

lemma substitute_same [simp]: "substitute t t u = u"
  by (subst substitute.simps) simp

lemma substitute_simps [simp]:
  "substitute (TExplicitVar x) (TExplicitVar y) u = (if x = y then u else TExplicitVar x)"
  "substitute (TVar n) (TExplicitVar y) u = TVar n"
  "substitute (TIntVar n s) (TExplicitVar y) u = TIntVar n s"
  "substitute (TFloatVar n) (TExplicitVar y) u = TFloatVar n"
  "substitute TUnit (TExplicitVar y) u = TUnit"
  "substitute TNever (TExplicitVar y) u = TNever"
  "substitute (TFunction ps r) (TExplicitVar y) u = TFunction ps r"
  "substitute (TRecordVar n fs) (TExplicitVar y) u =
     TRecordVar n (map (\<lambda>(i, t). (i, substitute t (TExplicitVar y) u)) fs)"
  "substitute (TRecord fs) (TExplicitVar y) u =
     TRecord (map (\<lambda>(i, t). (i, substitute t (TExplicitVar y) u)) fs)"
  "substitute (TName (TypeName nm args)) (TExplicitVar y) u =
     TName (TypeName nm (map (\<lambda>t. substitute t (TExplicitVar y) u) args))"
  by (subst substitute.simps, simp)+

text \<open>\<open>substitute_many\<close> folds single substitutions from the left, one after the other.\<close>

fun substitute_many :: "rtype \<Rightarrow> (rtype \<times> rtype) list \<Rightarrow> rtype" where
  "substitute_many me [] = me"
| "substitute_many me ((frm, to) # subs) = substitute_many (substitute me frm to) subs"

definition variant_substitute_many :: "enum_variant \<Rightarrow> (rtype \<times> rtype) list \<Rightarrow> enum_variant" where
  "variant_substitute_many v subs =
     \<lparr>ev_name = ev_name v, ev_fields = map (\<lambda>t. substitute_many t subs) (ev_fields v)\<rparr>"

section \<open>Instantiation\<close>

text \<open>Rust's \<open>Option\<close> is the inner option, a failed \<open>assert_eq!\<close> the outer \<open>None\<close>.\<close>

fun match_patterns :: "type_definition \<Rightarrow> rtype list \<Rightarrow> enum_variant list option option" where
  "match_patterns (DEnum tn variants) type_args =
     (if length (tn_arguments tn) \<noteq> length type_args then None
      else Some (Some (map (\<lambda>v. variant_substitute_many v (zip (tn_arguments tn) type_args)) variants)))"
| "match_patterns _ type_args = Some None"

fun record_fields :: "type_definition \<Rightarrow> rtype list \<Rightarrow> fields option option" where
  "record_fields (DRecord tn fs) type_args =
     (if length (tn_arguments tn) \<noteq> length type_args then None
      else Some (Some (map (\<lambda>(i, t). (i, substitute_many t (zip (tn_arguments tn) type_args))) fs)))"
| "record_fields _ type_args = Some None"

fun instantiate_args :: "('s \<Rightarrow> 's \<times> rtype) \<Rightarrow> 's \<Rightarrow> rtype list \<Rightarrow> 's \<times> rtype list" where
  "instantiate_args fresh s [] = (s, [])"
| "instantiate_args fresh s (a # as) =
     (let (s1, a') = (case a of TExplicitVar _ \<Rightarrow> fresh s | _ \<Rightarrow> (s, a));
          (s2, as') = instantiate_args fresh s1 as
      in (s2, a' # as'))"

definition type_name_instantiate :: "('s \<Rightarrow> 's \<times> rtype) \<Rightarrow> 's \<Rightarrow> type_name \<Rightarrow> 's \<times> rtype" where
  "type_name_instantiate fresh s n =
     (let (s', args) = instantiate_args fresh s (tn_arguments n)
      in (s', TName (TypeName (tn_name n) args)))"

definition def_instantiate :: "('s \<Rightarrow> 's \<times> rtype) \<Rightarrow> 's \<Rightarrow> type_definition \<Rightarrow> 's \<times> rtype" where
  "def_instantiate fresh s d = type_name_instantiate fresh s (def_type_name d)"

record signature =
  sig_types :: "rtype list"
  parameter_types :: "rtype list"
  return_type :: rtype

fun instantiate_types ::
  "('s \<Rightarrow> 's \<times> rtype) \<Rightarrow> 's \<Rightarrow> rtype list \<Rightarrow> 's \<times> rtype list \<times> (rtype \<times> rtype) list" where
  "instantiate_types fresh s [] = (s, [], [])"
| "instantiate_types fresh s (ty # tys) =
     (case ty of
        TExplicitVar _ \<Rightarrow>
          (let (s1, new_ty) = fresh s; (s2, news, subs) = instantiate_types fresh s1 tys
           in (s2, new_ty # news, (ty, new_ty) # subs))
      | _ \<Rightarrow>
          (let (s2, news, subs) = instantiate_types fresh s tys in (s2, ty # news, subs)))"

definition signature_instantiate :: "('s \<Rightarrow> 's \<times> rtype) \<Rightarrow> 's \<Rightarrow> signature \<Rightarrow> 's \<times> signature" where
  "signature_instantiate fresh s sg =
     (let (s', news, subs) = instantiate_types fresh s (sig_types sg)
      in (s', \<lparr>sig_types = news,
              parameter_types = map (\<lambda>t. substitute_many t subs) (parameter_types sg),
              return_type = substitute_many (return_type sg) subs\<rparr>))"

definition signature_substitute :: "signature \<Rightarrow> rtype list \<Rightarrow> signature option" where
  "signature_substitute sg new_types =
     (if length (sig_types sg) \<noteq> length new_types then None
      else let subs = zip (sig_types sg) new_types
           in Some \<lparr>sig_types = new_types,
                    parameter_types = map (\<lambda>t. substitute_many t subs) (parameter_types sg),
                    return_type = substitute_many (return_type sg) subs\<rparr>)"

section \<open>Built-in types\<close>

definition default_primitives :: "(string \<times> primitive) list" where
  "default_primitives =
    [(''u8'', PInt Unsigned I8), (''u16'', PInt Unsigned I16),
     (''u32'', PInt Unsigned I32), (''u64'', PInt Unsigned I64),
     (''i8'', PInt Signed I8), (''i16'', PInt Signed I16),
     (''i32'', PInt Signed I32), (''i64'', PInt Signed I64),
     (''f32'', PFloat F32), (''f64'', PFloat F64),
     (''bool'', PBool), (''char'', PChar), (''String'', PString),
     (''Asn'', PAsn), (''IpAddr'', PIpAddr), (''Prefix'', PPrefix)]"

text \<open>Name, type parameters and variants of \<open>Option\<close>, \<open>Verdict\<close> and \<open>Result\<close> (without the doc texts).\<close>

definition default_compounds :: "(string \<times> string list \<times> (string \<times> rtype list) list) list" where
  "default_compounds =
    [(''Option'', [''T''], [(''Some'', [TExplicitVar ''T'']), (''None'', [])]),
     (''Verdict'', [''A'', ''R''],
        [(''Accept'', [TExplicitVar ''A'']), (''Reject'', [TExplicitVar ''R''])]),
     (''Result'', [''T'', ''E''],
        [(''Ok'', [TExplicitVar ''T'']), (''Err'', [TExplicitVar ''E''])])]"

definition default_types :: "(ident \<times> type_definition) list" where
  "default_types =
     map (\<lambda>(n, p). (n, DPrimitive p)) default_primitives @
     map (\<lambda>(n, params, variants).
        (n, DEnum (TypeName (ResolvedName GLOBAL n) (map TExplicitVar params))
              (map (\<lambda>(vn, fs). \<lparr>ev_name = vn, ev_fields = fs\<rparr>) variants))) default_compounds @
     [(''List'', DList (TypeName (ResolvedName GLOBAL ''List'') [TExplicitVar ''T'']))]"

section \<open>The built-in types\<close>

text \<open>
  The registered name of every built-in type is the name its definition gives itself, in the global
  scope, and no two built-in types share a name.
\<close>

theorem default_types_named:
  "distinct (map fst default_types) \<and>
   list_all (\<lambda>(n, d). tn_name (def_type_name d) = ResolvedName GLOBAL n) default_types"
  by (simp add: default_types_def default_primitives_def default_compounds_def show_nat.simps)

end
