(* ===== verification/Ast.thy ===== *)
theory Ast
  imports Type_Defs "HOL-Library.Word"
begin

text \<open>
  The syntax tree, \<open>src/src/ast.rs\<close>.  A float is its IEEE bit pattern.
\<close>

datatype ip_addr = IpV4 "32 word" | IpV6 "128 word"

datatype int_type = IntI8 | IntI16 | IntI32 | IntI64 | IntU8 | IntU16 | IntU32 | IntU64
datatype float_type = FloatF32 | FloatF64

datatype literal =
  LitString str
| LitChar rchar
| LitAsn "32 word"
| LitIpAddress ip_addr
| LitInteger "64 word" "int_type option"
| LitFloat "64 word" "float_type option"
| LitBool bool
| LitUnit

datatype bin_op =
  BAnd | BOr | BEq | BNe | BLt | BLe | BGt | BGe | BAdd | BSub | BMul | BDiv | BMod

datatype compound_assign_op = CAdd | CSub | CMul | CDiv | CMod

datatype return_kind = RkReturn | RkAccept | RkReject

fun return_kind_str :: "return_kind \<Rightarrow> string" where
  "return_kind_str RkReturn = ''return''"
| "return_kind_str RkAccept = ''accept''"
| "return_kind_str RkReject = ''reject''"

text \<open>
  The nodes of the tree.  An \<open>Identifier\<close> is an interned string: it is compared by its text, so it is
  the text here.  \<open>Vec\<close> is a list, \<open>Box\<close> is left out.
\<close>

type_synonym name = str

text \<open>The text of an identifier as the UTF-8 bytes that Rust compares and prints.\<close>

fun utf8_bytes :: "rchar \<Rightarrow> nat list" where
  "utf8_bytes c =
     (if c < 128 then [c]
      else if c < 2048 then [192 + c div 64, 128 + c mod 64]
      else if c < 65536 then [224 + c div 4096, 128 + c div 64 mod 64, 128 + c mod 64]
      else [240 + c div 262144, 128 + c div 4096 mod 64, 128 + c div 64 mod 64, 128 + c mod 64])"

definition ident_of :: "name \<Rightarrow> ident" where
  "ident_of s = map char_of (concat (map utf8_bytes s))"

definition ast_ident :: "name meta \<Rightarrow> ident meta" where
  "ast_ident i = Meta (ident_of (node i)) (meta_id i)"

datatype path = Path (path_idents: "name meta list")

datatype type_expr =
  TeOption "type_expr meta"
| TePath "path meta" "type_expr meta list meta option"
| TeNever
| TeUnit
| TeRecord "(name meta \<times> type_expr meta) list meta"

type_synonym record_ty = "(name meta \<times> type_expr meta) list meta"

datatype pattern =
  Underscore
| EnumVariantPattern "name meta" "name meta list meta option"

record compound_head =
  ca_binop_id :: meta_id
  ca_path_expr_id :: meta_id
  ca_path :: "path meta"
  ca_op :: compound_assign_op

datatype expr =
  EReturn return_kind "expr meta option"
| ELiteral "literal meta"
| EBlock "block meta"
| EMatch "(expr meta \<times> match_arm list) meta"
| EFunctionCall "expr meta" "expr meta list meta"
| EAccess "expr meta" "name meta"
| EPath "path meta"
| ERecord "(name meta \<times> expr meta) list meta"
| ETypedRecord "path meta" "(name meta \<times> expr meta) list meta"
| EList "expr meta list"
| ENot "expr meta"
| EAssign "path meta" "expr meta"
| ECompoundAssign compound_head "expr meta"
| EBinOp "expr meta" bin_op "expr meta"
| ENegate "expr meta"
| EIfElse "expr meta" "block meta" "block meta option"
| EWhile "expr meta" "block meta"
| EFor "name meta" "expr meta" "block meta"
| EQuestionMark "expr meta"
| EFString "fstring_part meta list"
and block = Block (blk_imports: "path meta list") (blk_stmts: "stmt meta list") (blk_last: "expr meta option")
and stmt =
  SLet "name meta" "type_expr meta option" "expr meta"
| SExpr "expr meta"
and match_arm = MatchArm "pattern meta" "expr meta option" "block meta"
and fstring_part = FsString str | FsExpr "expr meta"

datatype filter_type = FtFilterMap | FtFilter

type_synonym params = "(name meta \<times> type_expr meta) list"

datatype variant_decl = VariantDecl "name meta" "type_expr meta list"

datatype declaration_item =
  DeFilterMap filter_type "name meta" "params meta" "block meta"
| DeConst "name meta" "type_expr meta" "expr meta"
| DeRecord "name meta" "name meta list" record_ty
| DeEnum "name meta" "name meta list" "variant_decl list meta"
| DeFunction "name meta" "params meta" "type_expr meta option" "block meta"
| DeTest "name meta" "block meta"
| DeImport "path meta list"

type_synonym syntax_tree = "declaration_item list"

record signature_decl =
  sd_type_params :: "name meta list"
  sd_params :: "type_expr meta list"
  sd_ret :: "type_expr meta option"

text \<open>The \<open>Display\<close> instances, as they are.\<close>

fun show_int_type :: "int_type \<Rightarrow> string" where
  "show_int_type IntI8 = ''i8''"
| "show_int_type IntI16 = ''i16''"
| "show_int_type IntI32 = ''i32''"
| "show_int_type IntI64 = ''i64''"
| "show_int_type IntU8 = ''u8''"
| "show_int_type IntU16 = ''u16''"
| "show_int_type IntU32 = ''u32''"
| "show_int_type IntU64 = ''u64''"

fun show_float_type :: "float_type \<Rightarrow> string" where
  "show_float_type FloatF32 = ''i32''"
| "show_float_type FloatF64 = ''i64''"

fun show_bin_op :: "bin_op \<Rightarrow> string" where
  "show_bin_op BAnd = ''&&''"
| "show_bin_op BOr = ''||''"
| "show_bin_op BEq = ''==''"
| "show_bin_op BNe = ''!=''"
| "show_bin_op BLt = ''<=''"
| "show_bin_op BLe = ''<''"
| "show_bin_op BGt = ''>=''"
| "show_bin_op BGe = ''<''"
| "show_bin_op BAdd = ''+''"
| "show_bin_op BSub = ''-''"
| "show_bin_op BMul = ''*''"
| "show_bin_op BDiv = ''/''"
| "show_bin_op BMod = ''%''"

text \<open>Not injective: two pairs of distinct operators or types print alike.\<close>

lemma show_bin_op_clash: "show_bin_op BLe = show_bin_op BGe"
  by simp

lemma show_float_type_clash: "show_float_type FloatF32 = show_int_type IntI32"
  by simp

end
