(* ===== verification/Labels.thy ===== *)
theory Labels
  imports Prelude
begin

text \<open>
  \<open>src/src/label.rs\<close>: labels of basic blocks.  A \<open>label_store\<close> is the struct \<open>LabelStore\<close>, a
  \<open>label_ref\<close> an index into it.  The lemmas show that every operation returns a reference no
  earlier operation returned, that earlier references keep their label, and that the parent
  links of a store built by these operations are well founded.
\<close>

type_synonym ident = string
type_synonym label_ref = nat

record label =
  label_ident :: ident
  label_internal :: bool
  label_parent :: "label_ref option"
  label_counter :: nat

record label_store =
  labels :: "label list"

text \<open>All four operations end in \<open>self.labels.push(..); LabelRef(self.labels.len() - 1)\<close>.\<close>

definition push_label :: "label_store \<Rightarrow> label \<Rightarrow> label_store \<times> label_ref" where
  "push_label s l = (s\<lparr>labels := labels s @ [l]\<rparr>, length (labels s @ [l]) - 1)"

definition new_label :: "label_store \<Rightarrow> ident \<Rightarrow> label_store \<times> label_ref" where
  "new_label s i = push_label s \<lparr>label_ident = i, label_internal = False, label_parent = None, label_counter = 0\<rparr>"

definition label_wrap :: "label_store \<Rightarrow> label_ref \<Rightarrow> ident \<Rightarrow> label_store \<times> label_ref" where
  "label_wrap s p i = push_label s \<lparr>label_ident = i, label_internal = False, label_parent = Some p, label_counter = 0\<rparr>"

definition wrap_internal :: "label_store \<Rightarrow> label_ref \<Rightarrow> ident \<Rightarrow> label_store \<times> label_ref" where
  "wrap_internal s p i = push_label s \<lparr>label_ident = i, label_internal = True, label_parent = Some p, label_counter = 0\<rparr>"

definition label_get :: "label_store \<Rightarrow> label_ref \<Rightarrow> label option" where
  "label_get s r = index (labels s) r"

definition label_next :: "label_store \<Rightarrow> label_ref \<Rightarrow> (label_store \<times> label_ref) option" where
  "label_next s prev = do {
     previous \<leftarrow> label_get s prev;
     c \<leftarrow> usize (label_counter previous + 1);
     Some (push_label s (previous\<lparr>label_counter := c\<rparr>)) }"

interpretation labels: index_store push_label label_get "\<lambda>s. length (labels s)" "\<lambda>l _. l"
  by unfold_locales (auto simp: push_label_def label_get_def)

text \<open>The operations as requests, so that a run of them is a list.\<close>

datatype label_op =
  New ident
| Wrap label_ref ident
| WrapInternal label_ref ident
| Next label_ref

fun label_step :: "label_store \<Rightarrow> label_op \<Rightarrow> (label_store \<times> label_ref) option" where
  "label_step s (New i) = Some (new_label s i)"
| "label_step s (Wrap p i) = Some (label_wrap s p i)"
| "label_step s (WrapInternal p i) = Some (wrap_internal s p i)"
| "label_step s (Next p) = label_next s p"

fun label_run :: "label_store \<Rightarrow> label_op list \<Rightarrow> (label_store \<times> label_ref list) option" where
  "label_run s [] = Some (s, [])"
| "label_run s (op # ops) = do {
     (s1, r) \<leftarrow> label_step s op;
     (s2, rs) \<leftarrow> label_run s1 ops;
     Some (s2, r # rs) }"

definition label_parents_ok :: "label_store \<Rightarrow> bool" where
  "label_parents_ok s \<longleftrightarrow>
     (\<forall>i < length (labels s). \<forall>p. label_parent (labels s ! i) = Some p \<longrightarrow> p < i)"

text \<open>A caller only passes references it was given.\<close>

fun op_in_range :: "label_store \<Rightarrow> label_op \<Rightarrow> bool" where
  "op_in_range s (New i) = True"
| "op_in_range s (Wrap p i) = (p < length (labels s))"
| "op_in_range s (WrapInternal p i) = (p < length (labels s))"
| "op_in_range s (Next p) = (p < length (labels s))"

lemma label_step_push:
  assumes "label_step s op = Some (s', r)"
  shows "\<exists>l. push_label s l = (s', r) \<and> (label_parents_ok s \<and> op_in_range s op \<longrightarrow>
    (\<forall>p. label_parent l = Some p \<longrightarrow> p < length (labels s)))"
proof (cases op)
  case (New i)
  with assms show ?thesis by (auto simp: new_label_def)
next
  case (Wrap p i)
  with assms show ?thesis by (intro exI conjI) (auto simp: label_wrap_def)
next
  case (WrapInternal p i)
  with assms show ?thesis by (intro exI conjI) (auto simp: wrap_internal_def)
next
  case (Next p)
  with assms obtain l c where g: "label_get s p = Some l"
    and sr: "push_label s (l\<lparr>label_counter := c\<rparr>) = (s', r)"
    by (auto simp: label_next_def bind_eq_Some_conv)
  have "q < length (labels s)" if "label_parents_ok s" "label_parent l = Some q" for q
    using that g by (fastforce simp: label_get_def index_Some_iff label_parents_ok_def)
  with sr show ?thesis by (intro exI conjI) auto
qed

lemma label_step_ref: "label_step s op = Some (s', r) \<Longrightarrow> r = length (labels s)"
  by (auto simp: push_label_def dest!: label_step_push)

lemma label_step_count: "label_step s op = Some (s', r) \<Longrightarrow> length (labels s') = Suc (length (labels s))"
  by (auto simp: push_label_def dest!: label_step_push)

lemma label_step_parents [inv_intros]:
  assumes "label_step s op = Some (s', r)" and "label_parents_ok s" and "op_in_range s op"
  shows "label_parents_ok s'"
proof -
  obtain l where l: "push_label s l = (s', r)"
    and p: "\<And>p. label_parent l = Some p \<Longrightarrow> p < length (labels s)"
    using label_step_push [OF assms(1)] assms(2,3) by blast
  from l have "labels s' = labels s @ [l]" by (auto simp: push_label_def)
  with assms(2) p show ?thesis
    by (auto simp: label_parents_ok_def nth_append less_Suc_eq)
qed

lemma label_run_count:
  "label_run s ops = Some (s', rs) \<Longrightarrow> length (labels s') = length (labels s) + length ops"
  by (induction ops arbitrary: s rs) (auto simp: bind_eq_Some_conv dest: label_step_count)

lemma label_run_refs:
  "label_run s ops = Some (s', rs) \<Longrightarrow> rs = [length (labels s) ..< length (labels s) + length ops]"
proof (induction ops arbitrary: s rs)
  case (Cons op ops)
  then obtain s1 r rs' where st: "label_step s op = Some (s1, r)"
    and run: "label_run s1 ops = Some (s', rs')" and rs: "rs = r # rs'"
    by (auto simp: bind_eq_Some_conv)
  have "rs' = [Suc (length (labels s)) ..< Suc (length (labels s)) + length ops]"
    using Cons.IH [OF run] label_step_count [OF st] by simp
  with rs label_step_ref [OF st] show ?case by (simp add: upt_conv_Cons del: upt_Suc)
qed simp

lemma label_run_old:
  "label_run s ops = Some (s', rs) \<Longrightarrow> i < length (labels s) \<Longrightarrow> label_get s' i = label_get s i"
proof (induction ops arbitrary: s rs)
  case (Cons op ops)
  then obtain s1 r rs' where st: "label_step s op = Some (s1, r)"
    and run: "label_run s1 ops = Some (s', rs')"
    by (auto simp: bind_eq_Some_conv)
  from label_step_push [OF st] obtain l where "push_label s l = (s1, r)" by blast
  with labels.get_old [OF Cons.prems(2), of l] have "label_get s1 i = label_get s i" by simp
  with Cons.IH [OF run] Cons.prems(2) label_step_count [OF st] show ?case by simp
qed simp

text \<open>
  Every run of label operations returns pairwise different references, none of which was in use
  before, and leaves the label of every earlier reference as it was: two blocks can only share a
  label when the lowering reuses the reference itself.
\<close>

theorem label_refs_unique:
  assumes "label_run s ops = Some (s', rs)"
  shows "distinct rs \<and> (\<forall>r \<in> set rs. length (labels s) \<le> r \<and> label_get s r = None
           \<and> label_get s' r \<noteq> None)
    \<and> (\<forall>i < length (labels s). label_get s' i = label_get s i)"
  using label_run_refs [OF assms] label_run_count [OF assms] label_run_old [OF assms]
  by (auto simp: label_get_def index_def)

theorem label_refs_unique_witness:
  "\<exists>s' rs. label_run \<lparr>labels = []\<rparr> [New ''f'', WrapInternal 0 ''then'', Next 0, Next 0] = Some (s', rs)
     \<and> distinct rs \<and> length rs = 4"
proof -
  obtain s' rs where run:
    "label_run \<lparr>labels = []\<rparr> [New ''f'', WrapInternal 0 ''then'', Next 0, Next 0] = Some (s', rs)"
    by (simp add: new_label_def wrap_internal_def label_next_def label_get_def push_label_def
        index_def usize_def usize_bound_def)
  from label_refs_unique [OF run] label_run_refs [OF run] run show ?thesis by auto
qed

fun ops_in_range :: "label_store \<Rightarrow> label_op list \<Rightarrow> bool" where
  "ops_in_range s [] = True"
| "ops_in_range s (op # ops) = (op_in_range s op \<and>
     (case label_step s op of None \<Rightarrow> True | Some (s', _) \<Rightarrow> ops_in_range s' ops))"

lemma label_run_parents:
  "label_run s ops = Some (s', rs) \<Longrightarrow> ops_in_range s ops \<Longrightarrow> label_parents_ok s \<Longrightarrow> label_parents_ok s'"
proof (induction ops arbitrary: s rs)
  case (Cons op ops)
  then obtain s1 r rs' where st: "label_step s op = Some (s1, r)"
    and run: "label_run s1 ops = Some (s', rs')"
    by (auto simp: bind_eq_Some_conv)
  with Cons show ?case by (auto intro: label_step_parents)
qed simp

end
