(* ===== verification/Mir_Types.thy ===== *)
theory Mir_Types
  imports Type_Defs
begin

text \<open>
  \<open>src/src/mir/ty.rs\<close>: the concrete types of the MIR, the pool that interns them, and the layout and
  passing convention of a type.  A \<open>pool\<close> is the struct \<open>Pool\<close> (its \<open>IndexSet\<close> a list without
  duplicates), a \<open>ty_ref\<close> an index into it; the host runtime contributes the list of registered
  types.  \<open>layout_of\<close> follows references, so it takes fuel: \<open>None\<close> is a panic or not enough of it,
  and \<open>layout_of_fuel\<close> (theory \<open>Mir_Layout\<close>) shows that one unit more than the reference is enough.
\<close>

type_synonym ty_ref = nat

datatype ty =
  MUnit
| MNever
| MRecord "(ident \<times> ty_ref) list"
| MEnum "(ident \<times> ty_ref list) list"
| MPrimitive primitive
| MList ty_ref
| MRuntime type_id

record mir_signature =
  ms_parameter_types :: "ty_ref list"
  ms_return_type :: ty_ref

section \<open>The interface of an interner\<close>

locale interner =
  fixes intern :: "'p \<Rightarrow> 't \<Rightarrow> 'p \<times> nat"
    and get :: "'p \<Rightarrow> nat \<Rightarrow> 't option"
    and inv :: "'p \<Rightarrow> bool"
  assumes inv_intern: "inv p \<Longrightarrow> inv (fst (intern p t))"
    and get_intern: "inv p \<Longrightarrow> get (fst (intern p t)) (snd (intern p t)) = Some t"
    and get_keeps: "inv p \<Longrightarrow> get p r = Some u \<Longrightarrow> get (fst (intern p t)) r = Some u"
    and get_inj: "inv p \<Longrightarrow> get p r = Some t \<Longrightarrow> get p r' = Some t \<Longrightarrow> r = r'"
begin

fun interns :: "'p \<Rightarrow> 't list \<Rightarrow> 'p \<times> nat list" where
  "interns p [] = (p, [])"
| "interns p (t # ts) =
     (let (p1, r) = intern p t; (p2, rs) = interns p1 ts in (p2, r # rs))"

lemma interns_inv: "inv p \<Longrightarrow> inv (fst (interns p ts))"
  by (induction ts arbitrary: p) (simp_all add: split_beta Let_def inv_intern)

lemma interns_length: "length (snd (interns p ts)) = length ts"
  by (induction ts arbitrary: p) (simp_all add: split_beta Let_def)

lemma interns_keeps: "inv p \<Longrightarrow> get p r = Some u \<Longrightarrow> get (fst (interns p ts)) r = Some u"
  by (induction ts arbitrary: p) (simp_all add: split_beta Let_def inv_intern get_keeps)

lemma interns_get:
  "inv p \<Longrightarrow> i < length ts \<Longrightarrow> get (fst (interns p ts)) (snd (interns p ts) ! i) = Some (ts ! i)"
proof (induction ts arbitrary: p i)
  case (Cons t ts)
  then show ?case
    by (cases i)
      (simp_all add: split_beta Let_def inv_intern interns_keeps get_intern)
qed simp

lemma interns_eq_iff:
  assumes "inv p" and "i < length ts" and "j < length ts"
  shows "snd (interns p ts) ! i = snd (interns p ts) ! j \<longleftrightarrow> ts ! i = ts ! j"
proof -
  have "inv (fst (interns p ts))" using assms(1) by (rule interns_inv)
  with interns_get [OF assms(1,2)] interns_get [OF assms(1,3)] show ?thesis
    using get_inj by (metis option.inject)
qed

lemma intern_again:
  assumes "inv p"
  shows "snd (intern (fst (interns (fst (intern p t)) ts)) t) = snd (intern p t)"
proof -
  let ?q = "fst (interns (fst (intern p t)) ts)"
  have inv: "inv ?q" using assms by (simp add: inv_intern interns_inv)
  have "get ?q (snd (intern p t)) = Some t"
    using assms by (simp add: interns_keeps inv_intern get_intern)
  with inv have "get (fst (intern ?q t)) (snd (intern p t)) = Some t" by (rule get_keeps)
  with get_inj [OF inv_intern [OF inv] get_intern [OF inv]] show ?thesis by blast
qed

end

section \<open>The pool\<close>

record pool =
  pool_types :: "ty list"

definition pool_intern :: "pool \<Rightarrow> ty \<Rightarrow> pool \<times> ty_ref" where
  "pool_intern p t =
     (case position (\<lambda>u. u = t) (pool_types p) of
        Some i \<Rightarrow> (p, i)
      | None \<Rightarrow> (p\<lparr>pool_types := pool_types p @ [t]\<rparr>, length (pool_types p)))"

definition pool_get :: "pool \<Rightarrow> ty_ref \<Rightarrow> ty option" where
  "pool_get p r = index (pool_types p) r"

definition REF_UNIT :: ty_ref where "REF_UNIT = 0"
definition REF_NEVER :: ty_ref where "REF_NEVER = 1"
definition REF_BOOL :: ty_ref where "REF_BOOL = 2"
definition REF_U8 :: ty_ref where "REF_U8 = 3"
definition REF_U64 :: ty_ref where "REF_U64 = 6"
definition REF_I32 :: ty_ref where "REF_I32 = 9"
definition REF_F64 :: ty_ref where "REF_F64 = 12"
definition REF_STRING :: ty_ref where "REF_STRING = 13"

definition well_known :: "(ty_ref \<times> ty) list" where
  "well_known =
    [(0, MUnit), (1, MNever), (2, MPrimitive PBool),
     (3, MPrimitive (PInt Unsigned I8)), (4, MPrimitive (PInt Unsigned I16)),
     (5, MPrimitive (PInt Unsigned I32)), (6, MPrimitive (PInt Unsigned I64)),
     (7, MPrimitive (PInt Signed I8)), (8, MPrimitive (PInt Signed I16)),
     (9, MPrimitive (PInt Signed I32)), (10, MPrimitive (PInt Signed I64)),
     (11, MPrimitive (PFloat F32)), (12, MPrimitive (PFloat F64)), (13, MPrimitive PString)]"

text \<open>\<open>Pool::new\<close>: intern in order, asserting each expected reference.\<close>

fun pool_fill :: "pool \<Rightarrow> (ty_ref \<times> ty) list \<Rightarrow> pool option" where
  "pool_fill p [] = Some p"
| "pool_fill p ((expected, t) # rest) =
     (let (p', actual) = pool_intern p t
      in if expected \<noteq> actual then None else pool_fill p' rest)"

definition pool_new :: "pool option" where
  "pool_new = pool_fill \<lparr>pool_types = []\<rparr> well_known"

definition pool_distinct :: "pool \<Rightarrow> bool" where
  "pool_distinct p \<longleftrightarrow> distinct (pool_types p)"

lemma pool_intern_cases:
  obtains (old) i where "pool_intern p t = (p, i)" "i < length (pool_types p)" "pool_types p ! i = t"
  | (new) "pool_intern p t = (p\<lparr>pool_types := pool_types p @ [t]\<rparr>, length (pool_types p))"
      "t \<notin> set (pool_types p)"
  by (cases "position (\<lambda>u. u = t) (pool_types p)")
    (auto simp: pool_intern_def position_None dest: position_Some)

interpretation pool: interner pool_intern pool_get pool_distinct
proof
  fix p t
  assume p: "pool_distinct p"
  show "pool_distinct (fst (pool_intern p t))"
    using p by (cases rule: pool_intern_cases [of p t]) (auto simp: pool_distinct_def)
  show "pool_get (fst (pool_intern p t)) (snd (pool_intern p t)) = Some t"
    by (cases rule: pool_intern_cases [of p t]) (auto simp: pool_get_def index_def nth_append)
next
  fix p r u t
  assume "pool_distinct p" and "pool_get p r = Some u"
  then show "pool_get (fst (pool_intern p t)) r = Some u"
    by (cases rule: pool_intern_cases [of p t]) (auto simp: pool_get_def index_def nth_append split: if_splits)
next
  fix p r t r'
  assume "pool_distinct p" and "pool_get p r = Some t" and "pool_get p r' = Some t"
  then show "r = r'"
    by (auto simp: pool_get_def index_Some_iff pool_distinct_def nth_eq_iff_index_eq)
qed

text \<open>
  C34. Interning any sequence of types gives references that are equal exactly when the types are,
  resolve to the interned type, and stay what they are when a type is interned again later.
\<close>

theorem pool_refs_identify_types:
  assumes "pool_distinct p" and "i < length ts" and "j < length ts"
  shows "pool_get (fst (pool.interns p ts)) (snd (pool.interns p ts) ! i) = Some (ts ! i)
    \<and> (snd (pool.interns p ts) ! i = snd (pool.interns p ts) ! j \<longleftrightarrow> ts ! i = ts ! j)
    \<and> snd (pool_intern (fst (pool.interns (fst (pool_intern p t)) ts)) t) = snd (pool_intern p t)"
  using pool.interns_get [OF assms(1,2)] pool.interns_eq_iff [OF assms]
    pool.intern_again [OF assms(1)] by blast

theorem pool_refs_identify_types_witness:
  "snd (pool.interns \<lparr>pool_types = [MUnit]\<rparr> [MList 0, MUnit, MList 0]) ! 0
     = snd (pool.interns \<lparr>pool_types = [MUnit]\<rparr> [MList 0, MUnit, MList 0]) ! 2"
  using pool_refs_identify_types [of "\<lparr>pool_types = [MUnit]\<rparr>" 0 "[MList 0, MUnit, MList 0]" 2]
  by (simp add: pool_distinct_def)

text \<open>
  \<open>Pool::new\<close> passes all its assertions: the well-known references are the positions at which the
  types are interned.
\<close>

theorem pool_new_succeeds:
  "\<exists>p. pool_new = Some p \<and> pool_distinct p \<and>
     pool_get p REF_UNIT = Some MUnit \<and> pool_get p REF_NEVER = Some MNever \<and>
     pool_get p REF_BOOL = Some (MPrimitive PBool) \<and>
     pool_get p REF_U64 = Some (MPrimitive (PInt Unsigned I64)) \<and>
     pool_get p REF_I32 = Some (MPrimitive (PInt Signed I32)) \<and>
     pool_get p REF_F64 = Some (MPrimitive (PFloat F64)) \<and>
     pool_get p REF_STRING = Some (MPrimitive PString)"
  by (simp add: pool_new_def well_known_def pool_intern_def pool_get_def index_def pool_distinct_def
      REF_UNIT_def REF_NEVER_def REF_BOOL_def REF_U64_def REF_I32_def REF_F64_def REF_STRING_def)

section \<open>The runtime's registered types\<close>

datatype movability = MovValue | MovCopy | MovCloneDrop

record runtime_type =
  rt_type_id :: type_id
  rt_layout :: layout
  rt_movability :: movability
  rt_name :: resolved_name

type_synonym rt = "runtime_type list"

definition get_runtime_type :: "rt \<Rightarrow> type_id \<Rightarrow> runtime_type option" where
  "get_runtime_type rt i = find (\<lambda>t. rt_type_id t = i) rt"

section \<open>Layouts of types\<close>

definition u8_layout :: layout where
  "u8_layout = \<lparr>lsize = 1, lalign = 1\<rparr>"

text \<open>The inner option is the code's: \<open>None\<close> for an uninhabited type.\<close>

fun add_fields ::
  "(ty_ref \<Rightarrow> layout option option) \<Rightarrow> layout_builder \<Rightarrow> ty_ref list \<Rightarrow> layout_builder option option" where
  "add_fields lf b [] = Some (Some b)"
| "add_fields lf b (t # ts) = do {
     l \<leftarrow> lf t;
     (case l of
        None \<Rightarrow> Some None
      | Some l \<Rightarrow> do { (b', _) \<leftarrow> builder_add b l; add_fields lf b' ts }) }"

fun enum_layout ::
  "(ty_ref \<Rightarrow> layout option option) \<Rightarrow> layout option \<Rightarrow> (ident \<times> ty_ref list) list
     \<Rightarrow> layout option option" where
  "enum_layout lf acc [] = Some acc"
| "enum_layout lf acc ((_, fs) # vs) = do {
     (b0, _) \<leftarrow> builder_add builder_new u8_layout;
     r \<leftarrow> add_fields lf b0 fs;
     (case r of
        None \<Rightarrow> enum_layout lf acc vs
      | Some b \<Rightarrow> do {
          vl \<leftarrow> builder_finish b;
          acc' \<leftarrow> (case acc of None \<Rightarrow> Some vl | Some l \<Rightarrow> layout_union l vl);
          enum_layout lf (Some acc') vs }) }"

fun layout_of :: "nat \<Rightarrow> platform \<Rightarrow> rt \<Rightarrow> pool \<Rightarrow> ty_ref \<Rightarrow> layout option option" where
  "layout_of 0 pf rt p r = None"
| "layout_of (Suc fuel) pf rt p r = do {
     t \<leftarrow> pool_get p r;
     (case t of
        MNever \<Rightarrow> Some None
      | MUnit \<Rightarrow> map_option Some (layout_new 0 1)
      | MPrimitive q \<Rightarrow> map_option Some (primitive_layout pf q)
      | MRuntime i \<Rightarrow> map_option (\<lambda>t. Some (rt_layout t)) (get_runtime_type rt i)
      | MRecord fs \<Rightarrow> do {
          b \<leftarrow> add_fields (layout_of fuel pf rt p) builder_new (map snd fs);
          (case b of None \<Rightarrow> Some None | Some b \<Rightarrow> map_option Some (builder_finish b)) }
      | MEnum vs \<Rightarrow> enum_layout (layout_of fuel pf rt p) None vs
      | MList _ \<Rightarrow> Some (Some (list_layout pf))) }"

fun value_kind :: "ty \<Rightarrow> bool option" where
  "value_kind MNever = None"
| "value_kind (MRecord _) = Some True"
| "value_kind (MEnum _) = Some True"
| "value_kind (MPrimitive q) =
     (case q of PString \<Rightarrow> Some True | PIpAddr \<Rightarrow> Some True | PPrefix \<Rightarrow> Some True | _ \<Rightarrow> Some False)"
| "value_kind (MList _) = Some True"
| "value_kind (MRuntime _) = Some True"
| "value_kind MUnit = Some False"

definition is_reference_type :: "nat \<Rightarrow> platform \<Rightarrow> rt \<Rightarrow> pool \<Rightarrow> ty_ref \<Rightarrow> bool option option" where
  "is_reference_type fuel pf rt p r = do {
     l \<leftarrow> layout_of fuel pf rt p r;
     (case l of
        None \<Rightarrow> Some None
      | Some l \<Rightarrow> if lsize l = 0 then Some (Some False)
                  else do { t \<leftarrow> pool_get p r; Some (value_kind t) }) }"

end
