(* ===== verification/Mir.thy ===== *)
theory Mir
  imports Ast Labels Mir_Types
begin

text \<open>
  \<open>src/src/mir/mod.rs\<close>: the instructions, blocks and items of the mid-level representation.
\<close>

datatype mir_var_kind = MvExplicit ident | MvTmp nat

record mir_var =
  mv_scope :: scope_ref
  mv_kind :: mir_var_kind

datatype projection = PrVariantField ident nat | PrField ident

record mir_place =
  pl_var :: mir_var
  pl_root_ty :: ty_ref
  pl_projection :: "projection list"

definition place_new :: "mir_var \<Rightarrow> ty_ref \<Rightarrow> mir_place" where
  "place_new v t = \<lparr>pl_var = v, pl_root_ty = t, pl_projection = []\<rparr>"

type_synonym runtime_function_ref = nat

datatype mir_value =
  VConst literal ty_ref
| VConstant resolved_name ty_ref
| VContext nat
| VClone mir_place
| VDiscriminant mir_var
| VNot mir_var
| VNegate mir_var ty_ref
| VMove mir_var
| VBinOp mir_var bin_op ty_ref mir_var
| VCall resolved_name "mir_var list" mir_signature
| VCallRuntime runtime_function_ref "mir_var list" "ty_ref list" mir_signature

datatype mir_instr =
  MiJump label_ref
| MiSwitch mir_var "(nat \<times> label_ref) list" "label_ref option"
| MiAssign mir_place ty_ref mir_value
| MiSetDiscriminant mir_var ty_ref ident
| MiReturn mir_var
| MiDrop mir_place ty_ref

record mir_block =
  mb_label :: label_ref
  mb_instructions :: "mir_instr list"

datatype mir_item_kind =
  MkConstant rtype ty_ref resolved_name
| MkFunction "mir_var list" signature mir_signature

record mir_item =
  mi_ty :: mir_item_kind
  mi_name :: ident
  mi_scope :: scope_ref
  mi_variables :: "(mir_var \<times> ty_ref) list"
  mi_blocks :: "mir_block list"
  mi_tmp_idx :: nat

type_synonym mir = "mir_item list"

end
