(* ===== verification/Mir_Dead_Code.thy ===== *)
theory Mir_Dead_Code
  imports Mir
begin

text \<open>
  \<open>src/src/mir/dead_code.rs\<close>: the worklist that truncates every reachable block after its first
  terminator and removes the blocks nothing jumps to.  The \<open>while\<close> loop is a \<open>partial_function\<close>:
  the outer \<open>None\<close> is a loop that does not end, the inner one a panic.
\<close>

section \<open>The pass\<close>

type_synonym dead_state = "label_ref list"

definition state_add :: "dead_state \<Rightarrow> label_ref \<Rightarrow> dead_state" where
  "state_add st l = (case find (\<lambda>l'. l' = l) st of Some _ \<Rightarrow> st | None \<Rightarrow> st @ [l])"

definition state_contains :: "dead_state \<Rightarrow> label_ref \<Rightarrow> bool" where
  "state_contains st l \<longleftrightarrow> l \<in> set st"

fun scan_block :: "dead_state \<Rightarrow> nat \<Rightarrow> mir_instr list \<Rightarrow> dead_state \<times> nat option" where
  "scan_block st i [] = (st, None)"
| "scan_block st i (inst # rest) =
     (case inst of
        MiJump lbl \<Rightarrow> (state_add st lbl, Some i)
      | MiSwitch _ branches dflt \<Rightarrow>
          (let st1 = fold (\<lambda>(_, lbl) st. state_add st lbl) branches st;
               st2 = (case dflt of Some d \<Rightarrow> state_add st1 d | None \<Rightarrow> st1)
           in (st2, Some i))
      | MiReturn _ \<Rightarrow> (st, Some i)
      | _ \<Rightarrow> scan_block st (Suc i) rest)"

definition process_block :: "dead_state \<Rightarrow> mir_block \<Rightarrow> (dead_state \<times> mir_block) option" where
  "process_block st b =
     (case scan_block st 0 (mb_instructions b) of
        (st', Some i) \<Rightarrow> Some (st', b\<lparr>mb_instructions := take (i + 1) (mb_instructions b)\<rparr>)
      | (_, None) \<Rightarrow> None)"

definition process_label ::
  "mir_block list \<Rightarrow> dead_state \<Rightarrow> label_ref \<Rightarrow> (mir_block list \<times> dead_state) option" where
  "process_label bs st lbl = do {
     k \<leftarrow> position (\<lambda>b. mb_label b = lbl) bs;
     (st', b') \<leftarrow> process_block st (bs ! k);
     Some (bs[k := b'], st') }"

partial_function (option) dead_loop ::
  "mir_block list \<Rightarrow> dead_state \<Rightarrow> nat \<Rightarrow> (mir_block list \<times> dead_state) option option" where
  "dead_loop bs st i =
     (if i < length st then
        (case process_label bs st (st ! i) of
           None \<Rightarrow> Some None
         | Some r \<Rightarrow> dead_loop (fst r) (snd r) (Suc i))
      else Some (Some (bs, st)))"

definition process_item :: "mir_item \<Rightarrow> mir_item option option" where
  "process_item item =
     (case mi_blocks item of
        [] \<Rightarrow> Some None
      | b0 # _ \<Rightarrow>
          (case dead_loop (mi_blocks item) (state_add [] (mb_label b0)) 0 of
             None \<Rightarrow> None
           | Some None \<Rightarrow> Some None
           | Some (Some (bs, st)) \<Rightarrow>
               Some (Some (item\<lparr>mi_blocks := filter (\<lambda>b. state_contains st (mb_label b)) bs\<rparr>))))"

fun eliminate_dead_code :: "mir \<Rightarrow> mir option option" where
  "eliminate_dead_code [] = Some (Some [])"
| "eliminate_dead_code (item # items) =
     (case process_item item of
        None \<Rightarrow> None
      | Some None \<Rightarrow> Some None
      | Some (Some item') \<Rightarrow>
          (case eliminate_dead_code items of
             None \<Rightarrow> None
           | Some None \<Rightarrow> Some None
           | Some (Some items') \<Rightarrow> Some (Some (item' # items'))))"

section \<open>What control can reach\<close>

fun is_terminator :: "mir_instr \<Rightarrow> bool" where
  "is_terminator (MiJump _) = True"
| "is_terminator (MiSwitch _ _ _) = True"
| "is_terminator (MiReturn _) = True"
| "is_terminator _ = False"

fun successors :: "mir_instr \<Rightarrow> label_ref list" where
  "successors (MiJump l) = [l]"
| "successors (MiSwitch _ bs d) = map snd bs @ (case d of Some l \<Rightarrow> [l] | None \<Rightarrow> [])"
| "successors _ = []"

definition block_at :: "mir_block list \<Rightarrow> label_ref \<Rightarrow> mir_block option" where
  "block_at bs l = find (\<lambda>b. mb_label b = l) bs"

definition term_index :: "mir_block \<Rightarrow> nat option" where
  "term_index b = position is_terminator (mb_instructions b)"

definition targets :: "mir_block \<Rightarrow> label_ref list" where
  "targets b = (case term_index b of
     None \<Rightarrow> [] | Some k \<Rightarrow> successors (mb_instructions b ! k))"

definition truncate_block :: "mir_block \<Rightarrow> mir_block" where
  "truncate_block b = (case term_index b of
     None \<Rightarrow> b | Some k \<Rightarrow> b\<lparr>mb_instructions := take (k + 1) (mb_instructions b)\<rparr>)"

text \<open>\<open>control bs l i\<close>: an execution that starts at the entry block can be at instruction \<open>i\<close> of block \<open>l\<close>.\<close>

inductive control :: "mir_block list \<Rightarrow> label_ref \<Rightarrow> nat \<Rightarrow> bool" for bs where
  control_entry: "bs = b # bs' \<Longrightarrow> control bs (mb_label b) 0"
| control_next: "control bs l i \<Longrightarrow> block_at bs l = Some b \<Longrightarrow> i < length (mb_instructions b) \<Longrightarrow>
    \<not> is_terminator (mb_instructions b ! i) \<Longrightarrow> control bs l (Suc i)"
| control_jump: "control bs l i \<Longrightarrow> block_at bs l = Some b \<Longrightarrow> i < length (mb_instructions b) \<Longrightarrow>
    l' \<in> set (successors (mb_instructions b ! i)) \<Longrightarrow> control bs l' 0"

text \<open>Control never leaves the code: every position reached holds an instruction.\<close>

definition mir_well_formed :: "mir_block list \<Rightarrow> bool" where
  "mir_well_formed bs \<longleftrightarrow> (\<forall>l. control bs l 0 \<longrightarrow> (\<exists>b. block_at bs l = Some b \<and> term_index b \<noteq> None))"

section \<open>The state\<close>

lemma set_state_add [simp]: "set (state_add st l) = insert l (set st)"
  by (auto simp: state_add_def find_Some_iff find_None_iff split: option.splits)

lemma distinct_state_add [simp]: "distinct st \<Longrightarrow> distinct (state_add st l)"
  by (auto simp: state_add_def find_None_iff split: option.splits)

lemma state_add_prefix: "\<exists>ys. state_add st l = st @ ys"
  by (auto simp: state_add_def split: option.splits)

lemma fold_state_add:
  "set (fold (\<lambda>(_, l) st. state_add st l) bs st) = set st \<union> snd ` set bs"
  "distinct st \<Longrightarrow> distinct (fold (\<lambda>(_, l) st. state_add st l) bs st)"
  "\<exists>ys. fold (\<lambda>(_, l) st. state_add st l) bs st = st @ ys"
proof -
  show "set (fold (\<lambda>(_, l) st. state_add st l) bs st) = set st \<union> snd ` set bs"
    by (induction bs arbitrary: st) auto
  show "distinct st \<Longrightarrow> distinct (fold (\<lambda>(_, l) st. state_add st l) bs st)"
    by (induction bs arbitrary: st) auto
  show "\<exists>ys. fold (\<lambda>(_, l) st. state_add st l) bs st = st @ ys"
  proof (induction bs arbitrary: st)
    case (Cons x bs)
    obtain ys where "state_add st (snd x) = st @ ys" using state_add_prefix by blast
    moreover obtain zs where
      "fold (\<lambda>(_, l) st. state_add st l) bs (state_add st (snd x)) = state_add st (snd x) @ zs"
      using Cons.IH by blast
    ultimately show ?case by (simp add: case_prod_unfold)
  qed simp
qed

lemma scan_block_spec:
  "snd (scan_block st i xs) = map_option (\<lambda>k. i + k) (position is_terminator xs) \<and>
   set (fst (scan_block st i xs)) = set st \<union>
     (case position is_terminator xs of None \<Rightarrow> {} | Some k \<Rightarrow> set (successors (xs ! k))) \<and>
   (distinct st \<longrightarrow> distinct (fst (scan_block st i xs))) \<and>
   (\<exists>ys. fst (scan_block st i xs) = st @ ys)"
proof (induction xs arbitrary: i)
  case (Cons x xs)
  show ?case
  proof (cases "is_terminator x")
    case True
    then show ?thesis
    proof (cases x)
      case (MiSwitch v bs d)
      obtain ys where ys: "fold (\<lambda>(_, l) st. state_add st l) bs st = st @ ys"
        using fold_state_add(3) by blast
      show ?thesis
      proof (cases d)
        case None
        with MiSwitch fold_state_add [where bs = bs and st = st] show ?thesis by (simp add: Let_def)
      next
        case (Some l)
        have "\<exists>zs. state_add (st @ ys) l = st @ zs"
          using state_add_prefix [of "st @ ys" l] by auto
        with MiSwitch Some fold_state_add [where bs = bs and st = st] ys show ?thesis
          by (auto simp: Let_def)
      qed
    qed (use True state_add_prefix in auto)
  next
    case False
    then have "scan_block st i (x # xs) = scan_block st (Suc i) xs" by (cases x) auto
    with False Cons.IH [of "Suc i"] show ?thesis
      by (auto simp: option.map_comp comp_def split: option.splits)
  qed
qed simp

lemma process_block_spec:
  "process_block st b = None \<longleftrightarrow> term_index b = None"
  "process_block st b = Some (st', b') \<Longrightarrow>
     b' = truncate_block b \<and> set st' = set st \<union> set (targets b) \<and>
     (distinct st \<longrightarrow> distinct st') \<and> (\<exists>ys. st' = st @ ys)"
  using scan_block_spec [of st 0 "mb_instructions b"]
  by (auto simp: process_block_def term_index_def truncate_block_def targets_def
      split: option.splits prod.splits)

section \<open>Truncation\<close>

lemma position_take:
  "position p xs = Some k \<Longrightarrow> position p (take (Suc k) xs) = Some k"
proof (induction xs arbitrary: k)
  case (Cons x xs)
  then show ?case by (cases k) (auto split: if_splits)
qed simp

lemma truncate_label [simp]: "mb_label (truncate_block b) = mb_label b"
  by (simp add: truncate_block_def split: option.splits)

lemma term_index_truncate [simp]: "term_index (truncate_block b) = term_index b"
  by (auto simp: truncate_block_def term_index_def position_take split: option.splits)

lemma targets_truncate [simp]: "targets (truncate_block b) = targets b"
proof (cases "term_index b")
  case None
  then show ?thesis by (simp add: targets_def)
next
  case (Some k)
  then have "mb_instructions (truncate_block b) ! k = mb_instructions b ! k"
    by (simp add: truncate_block_def)
  with Some show ?thesis by (simp add: targets_def)
qed

lemma truncate_truncate [simp]: "truncate_block (truncate_block b) = truncate_block b"
proof (cases "term_index b")
  case None
  then show ?thesis by (simp add: truncate_block_def)
next
  case (Some k)
  then have "term_index (truncate_block b) = Some k" by simp
  then have "truncate_block (truncate_block b)
      = (truncate_block b)\<lparr>mb_instructions := take (k + 1) (mb_instructions (truncate_block b))\<rparr>"
    by (simp add: truncate_block_def [of "truncate_block b"])
  with Some show ?thesis by (simp add: truncate_block_def)
qed

lemma length_truncate:
  "term_index b = Some k \<Longrightarrow> length (mb_instructions (truncate_block b)) = Suc k"
  by (auto simp: truncate_block_def term_index_def dest: position_Some)

lemma nth_truncate:
  "term_index b = Some k \<Longrightarrow> i \<le> k \<Longrightarrow> mb_instructions (truncate_block b) ! i = mb_instructions b ! i"
  by (simp add: truncate_block_def)

section \<open>Control and the terminators\<close>

lemma control_prefix:
  assumes "control bs l 0" and "block_at bs l = Some b" and "term_index b = Some k" and "i \<le> k"
  shows "control bs l i"
  using assms(4)
proof (induction i)
  case (Suc i)
  have "k < length (mb_instructions b)" and "\<not> is_terminator (mb_instructions b ! i)"
    using position_Some [OF assms(3) [unfolded term_index_def]] Suc.prems by auto
  with Suc assms(2) show ?case by (auto intro: control_next)
qed (rule assms(1))

lemma control_targets:
  assumes "control bs l 0" and "block_at bs l = Some b" and "l' \<in> set (targets b)"
  shows "control bs l' 0"
proof -
  from assms(3) obtain k where k: "term_index b = Some k"
    and l': "l' \<in> set (successors (mb_instructions b ! k))"
    by (cases "term_index b") (auto simp: targets_def)
  have "k < length (mb_instructions b)"
    using position_Some [OF k [unfolded term_index_def]] by simp
  with control_prefix [OF assms(1,2) k order_refl] assms(2) l' show ?thesis
    by (auto intro: control_jump)
qed

lemma control_bound:
  "control bs l i \<Longrightarrow> control bs l 0 \<and>
    (\<forall>b k. block_at bs l = Some b \<longrightarrow> term_index b = Some k \<longrightarrow> i \<le> k)"
proof (induction rule: control.induct)
  case (control_next l i b)
  have "Suc i \<le> k" if "term_index b = Some k" for k
  proof -
    have "is_terminator (mb_instructions b ! k)"
      using position_Some [OF that [unfolded term_index_def]] by simp
    with control_next that have "i \<noteq> k" and "i \<le> k" by auto
    then show ?thesis by simp
  qed
  with control_next show ?case by auto
qed (auto intro: control.intros)

lemma successors_terminator: "l \<in> set (successors x) \<Longrightarrow> is_terminator x"
  by (cases x) auto

lemma control_edge:
  assumes "control bs l i" and "block_at bs l = Some b" and "i < length (mb_instructions b)"
    and "l' \<in> set (successors (mb_instructions b ! i))" and "term_index b \<noteq> None"
  shows "l' \<in> set (targets b)"
proof -
  from assms(5) obtain k where k: "term_index b = Some k" by blast
  have "i \<le> k" using control_bound [OF assms(1)] assms(2) k by blast
  moreover have "is_terminator (mb_instructions b ! i)"
    using assms(4) by (rule successors_terminator)
  ultimately have "i = k"
    using position_Some [OF k [unfolded term_index_def]] by (meson le_neq_implies_less)
  with assms(4) k show ?thesis by (simp add: targets_def)
qed

lemma block_at_position:
  "block_at bs l = map_option (\<lambda>k. bs ! k) (position (\<lambda>b. mb_label b = l) bs)"
  by (simp add: block_at_def find_position)

section \<open>The loop\<close>

definition processed :: "mir_block list \<Rightarrow> label_ref set \<Rightarrow> mir_block list" where
  "processed bs ls = map (\<lambda>b. if mb_label b \<in> ls then truncate_block b else b) bs"

definition dead_inv :: "mir_block list \<Rightarrow> mir_block list \<Rightarrow> dead_state \<Rightarrow> nat \<Rightarrow> bool" where
  "dead_inv bs0 bs st i \<longleftrightarrow>
     bs = processed bs0 (set (take i st)) \<and> distinct st \<and> i \<le> length st \<and>
     (\<exists>b rest. bs0 = b # rest \<and> mb_label b \<in> set st) \<and>
     (\<forall>l \<in> set st. control bs0 l 0) \<and>
     (\<forall>l \<in> set (take i st). \<exists>b. block_at bs0 l = Some b \<and> term_index b \<noteq> None \<and>
        set (targets b) \<subseteq> set st)"

lemma position_processed:
  "position (\<lambda>b. mb_label b = l) (processed bs ls) = position (\<lambda>b. mb_label b = l) bs"
  unfolding processed_def by (induction bs) auto

lemma processed_insert:
  assumes "distinct (map mb_label bs)" and "k < length bs" and "mb_label (bs ! k) = l"
  shows "(processed bs ls)[k := truncate_block (bs ! k)] = processed bs (insert l ls)"
proof (rule nth_equalityI)
  fix j assume "j < length ((processed bs ls)[k := truncate_block (bs ! k)])"
  then have j: "j < length bs" by (simp add: processed_def)
  have "mb_label (bs ! j) = l \<longleftrightarrow> j = k"
    using assms j by (auto simp: distinct_conv_nth)
  then show "(processed bs ls)[k := truncate_block (bs ! k)] ! j = processed bs (insert l ls) ! j"
    using j assms(2,3) by (auto simp: processed_def nth_list_update)
qed (simp add: processed_def)

lemma dead_inv_step:
  assumes inv: "dead_inv bs0 bs st i" and i: "i < length st" and dist: "distinct (map mb_label bs0)"
  shows "case process_label bs st (st ! i) of
      None \<Rightarrow> \<not> mir_well_formed bs0
    | Some (bs', st') \<Rightarrow> dead_inv bs0 bs' st' (Suc i)"
proof -
  let ?l = "st ! i" and ?ls = "set (take i st)"
  have ctl: "control bs0 ?l 0" and bs: "bs = processed bs0 ?ls"
    using inv i by (auto simp: dead_inv_def)
  have new: "?l \<notin> ?ls"
    using inv i by (auto simp: dead_inv_def in_set_conv_nth distinct_conv_nth)
  show ?thesis
  proof (cases "position (\<lambda>b. mb_label b = ?l) bs0")
    case None
    with ctl have "\<not> mir_well_formed bs0" by (auto simp: mir_well_formed_def block_at_position)
    with None show ?thesis by (simp add: process_label_def bs position_processed)
  next
    case (Some k)
    let ?b = "bs0 ! k"
    have k: "k < length bs0" "mb_label ?b = ?l" using position_Some [OF Some] by auto
    have at: "block_at bs0 ?l = Some ?b" using Some by (simp add: block_at_position)
    have same: "bs ! k = ?b" using k new by (simp add: bs processed_def)
    show ?thesis
    proof (cases "process_block st ?b")
      case None
      then have "\<not> mir_well_formed bs0"
        using process_block_spec(1) at ctl by (auto simp: mir_well_formed_def)
      with None Some show ?thesis by (simp add: process_label_def bs position_processed same [unfolded bs])
    next
      case (Some r)
      then obtain st' b' where r: "process_block st ?b = Some (st', b')" by (cases r) auto
      note spec = process_block_spec(2) [OF r]
      then obtain ys where st': "st' = st @ ys" by blast
      have ti: "term_index ?b \<noteq> None" using process_block_spec(1) [of st ?b] r by auto
      have take: "set (take (Suc i) st') = insert ?l ?ls"
        using i by (auto simp: st' take_Suc_conv_app_nth)
      have res: "process_label bs st ?l = Some (bs[k := truncate_block ?b], st')"
        using \<open>position _ bs0 = Some k\<close> r spec
        by (simp add: process_label_def bs position_processed same [unfolded bs])
      have "dead_inv bs0 (bs[k := truncate_block ?b]) st' (Suc i)"
        unfolding dead_inv_def take
      proof (intro conjI ballI)
        show "bs[k := truncate_block ?b] = processed bs0 (insert ?l ?ls)"
          unfolding bs by (rule processed_insert [OF dist k])
        show "distinct st'" using inv spec by (simp add: dead_inv_def)
        show "Suc i \<le> length st'" using i by (simp add: st')
        show "\<exists>b rest. bs0 = b # rest \<and> mb_label b \<in> set st'" using inv by (auto simp: dead_inv_def st')
        show "control bs0 l 0" if "l \<in> set st'" for l
          using that spec inv control_targets [OF ctl at] by (auto simp: dead_inv_def)
        show "\<exists>b. block_at bs0 l = Some b \<and> term_index b \<noteq> None \<and> set (targets b) \<subseteq> set st'"
          if "l \<in> insert ?l ?ls" for l
        proof (cases "l = ?l")
          case True
          with at ti spec show ?thesis by auto
        next
          case False
          with that inv show ?thesis by (fastforce simp: dead_inv_def st')
        qed
      qed
      with res show ?thesis by simp
    qed
  qed
qed

lemma dead_inv_bound:
  assumes "dead_inv bs0 bs st i"
  shows "i \<le> length bs0"
proof -
  have "set (take i st) \<subseteq> mb_label ` set bs0"
  proof
    fix l assume "l \<in> set (take i st)"
    with assms obtain b where "find (\<lambda>b. mb_label b = l) bs0 = Some b"
      by (auto simp: dead_inv_def block_at_def)
    then show "l \<in> mb_label ` set bs0" by (auto simp: find_Some_iff)
  qed
  then have "card (set (take i st)) \<le> card (mb_label ` set bs0)" by (intro card_mono) auto
  also have "\<dots> \<le> length bs0" by (meson card_image_le card_length finite_set le_trans)
  finally show ?thesis using assms by (simp add: dead_inv_def distinct_card)
qed

lemma dead_loop_result:
  assumes "distinct (map mb_label bs0)" and "dead_inv bs0 bs st i"
  shows "\<exists>r. dead_loop bs st i = Some r \<and>
    (case r of None \<Rightarrow> \<not> mir_well_formed bs0 | Some (bs', st') \<Rightarrow> dead_inv bs0 bs' st' (length st'))"
  using assms(2)
proof (induction "Suc (length bs0) - i" arbitrary: bs st i)
  case 0
  with dead_inv_bound show ?case by fastforce
next
  case (Suc n)
  show ?case
  proof (cases "i < length st")
    case False
    with Suc.prems have i: "i = length st" by (simp add: dead_inv_def)
    have "dead_loop bs st i = Some (Some (bs, st))" using False by (simp add: dead_loop.simps [of bs st i])
    with Suc.prems i show ?thesis by simp
  next
    case True
    note step = dead_inv_step [OF Suc.prems True assms(1)]
    show ?thesis
    proof (cases "process_label bs st (st ! i)")
      case None
      with True step show ?thesis by (simp add: dead_loop.simps [of bs st i])
    next
      case (Some r)
      with step have inv: "dead_inv bs0 (fst r) (snd r) (Suc i)" by (simp add: split_beta)
      have "n = Suc (length bs0) - Suc i" using Suc.hyps(2) by simp
      from Suc.hyps(1) [OF this inv] Some True show ?thesis
        by (simp add: dead_loop.simps [of bs st i])
    qed
  qed
qed

lemma dead_inv_final:
  assumes "dead_inv bs0 bs st (length st)"
  shows "set st = {l. control bs0 l 0}" and "mir_well_formed bs0"
proof -
  have "l \<in> set st" if "control bs0 l i" for l i
    using that
  proof induction
    case (control_entry b bs')
    with assms show ?case by (auto simp: dead_inv_def)
  next
    case (control_jump l i b l')
    from assms control_jump.IH obtain b' where "block_at bs0 l = Some b'" "term_index b' \<noteq> None"
      "set (targets b') \<subseteq> set st"
      by (auto simp: dead_inv_def)
    with control_jump.hyps(2) have "term_index b \<noteq> None" and sub: "set (targets b) \<subseteq> set st" by auto
    with control_edge control_jump show ?case by blast
  qed auto
  then show eq: "set st = {l. control bs0 l 0}" using assms by (auto simp: dead_inv_def)
  show "mir_well_formed bs0"
    using assms eq by (fastforce simp: mir_well_formed_def dead_inv_def)
qed

section \<open>The result\<close>

definition live_blocks :: "mir_block list \<Rightarrow> mir_block list" where
  "live_blocks bs = map truncate_block (filter (\<lambda>b. control bs (mb_label b) 0) bs)"

lemma filter_processed:
  "filter (\<lambda>b. mb_label b \<in> ls) (processed bs ls) = map truncate_block (filter (\<lambda>b. mb_label b \<in> ls) bs)"
  unfolding processed_def by (induction bs) auto

lemma process_item_result:
  assumes "distinct (map mb_label (mi_blocks item))"
  shows "process_item item = Some
    (if mi_blocks item \<noteq> [] \<and> mir_well_formed (mi_blocks item)
     then Some (item\<lparr>mi_blocks := live_blocks (mi_blocks item)\<rparr>) else None)"
proof (cases "mi_blocks item")
  case Nil
  then show ?thesis by (simp add: process_item_def)
next
  case (Cons b0 rest)
  let ?bs = "mi_blocks item" and ?st = "state_add [] (mb_label b0)"
  have "control ?bs (mb_label b0) 0" using Cons by (rule control_entry)
  then have "dead_inv ?bs ?bs ?st 0"
    using Cons by (simp add: dead_inv_def processed_def state_add_def)
  from dead_loop_result [OF assms this] obtain r where r: "dead_loop ?bs ?st 0 = Some r"
    and rs: "case r of None \<Rightarrow> \<not> mir_well_formed ?bs
      | Some (bs', st') \<Rightarrow> dead_inv ?bs bs' st' (length st')" by blast
  show ?thesis
  proof (cases r)
    case None
    with rs r Cons show ?thesis by (simp add: process_item_def)
  next
    case (Some p)
    then obtain bs' st' where p: "r = Some (bs', st')" by (cases p) auto
    with rs have inv: "dead_inv ?bs bs' st' (length st')" by simp
    note fin = dead_inv_final [OF inv]
    have "bs' = processed ?bs (set st')" using inv by (simp add: dead_inv_def)
    then have "filter (\<lambda>b. state_contains st' (mb_label b)) bs' = live_blocks ?bs"
      using filter_processed [of "set st'" ?bs] fin(1)
      by (simp add: state_contains_def live_blocks_def)
    with p r fin(2) Cons show ?thesis by (simp add: process_item_def)
  qed
qed

lemma block_at_live:
  assumes "control bs l 0"
  shows "block_at (live_blocks bs) l = map_option truncate_block (block_at bs l)"
proof -
  have "find (\<lambda>b. mb_label b = l) (map truncate_block (filter (\<lambda>b. P (mb_label b)) xs))
      = map_option truncate_block (find (\<lambda>b. mb_label b = l) xs)" if "P l" for P xs
    using that by (induction xs) auto
  from this [of "\<lambda>l. control bs l 0" bs] assms show ?thesis by (simp add: block_at_def live_blocks_def)
qed

lemma truncate_instr:
  assumes "term_index b = Some k" and "i < length (mb_instructions (truncate_block b))"
  shows "i < length (mb_instructions b)"
    and "mb_instructions (truncate_block b) ! i = mb_instructions b ! i"
  using assms length_truncate [OF assms(1)] nth_truncate [OF assms(1), of i]
    position_Some [OF assms(1) [unfolded term_index_def]] by auto

lemma control_live:
  assumes "mir_well_formed bs"
  shows "control (live_blocks bs) l i \<longleftrightarrow> control bs l i"
proof
  show "control bs l i" if "control (live_blocks bs) l i"
    using that
  proof induction
    case (control_entry b bs')
    then have "b \<in> set (live_blocks bs)" by simp
    then show ?case by (auto simp: live_blocks_def)
  next
    case (control_next l i b)
    have l: "control bs l 0" using control_bound [OF control_next.IH] by blast
    with control_next.hyps(2) obtain b0 where b0: "block_at bs l = Some b0" "b = truncate_block b0"
      by (auto simp: block_at_live)
    with assms l obtain k where "term_index b0 = Some k" by (auto simp: mir_well_formed_def)
    from truncate_instr [OF this, of i] control_next b0 show ?case
      by (auto intro: control.control_next)
  next
    case (control_jump l i b l')
    have l: "control bs l 0" using control_bound [OF control_jump.IH] by blast
    with control_jump.hyps(2) obtain b0 where b0: "block_at bs l = Some b0" "b = truncate_block b0"
      by (auto simp: block_at_live)
    with assms l obtain k where "term_index b0 = Some k" by (auto simp: mir_well_formed_def)
    from truncate_instr [OF this, of i] control_jump b0 show ?case
      by (auto intro: control.control_jump)
  qed
next
  show "control (live_blocks bs) l i" if "control bs l i"
    using that
  proof induction
    case (control_entry b bs')
    then have "control bs (mb_label b) 0" by (intro control.control_entry)
    with control_entry have
      "live_blocks bs = truncate_block b # map truncate_block (filter (\<lambda>b. control bs (mb_label b) 0) bs')"
      by (simp add: live_blocks_def)
    from control.control_entry [OF this] show ?case by simp
  next
    case (control_next l i b)
    have l: "control bs l 0" using control_bound [OF control_next.hyps(1)] by blast
    with assms control_next.hyps(2) obtain k where k: "term_index b = Some k"
      by (auto simp: mir_well_formed_def)
    have ik: "i \<le> k" using control_bound [OF control_next.hyps(1)] control_next.hyps(2) k by blast
    have "block_at (live_blocks bs) l = Some (truncate_block b)"
      using l control_next.hyps(2) by (simp add: block_at_live)
    with control_next ik show ?case
      using length_truncate [OF k] nth_truncate [OF k ik] by (auto intro: control.control_next)
  next
    case (control_jump l i b l')
    have l: "control bs l 0" using control_bound [OF control_jump.hyps(1)] by blast
    with assms control_jump.hyps(2) obtain k where k: "term_index b = Some k"
      by (auto simp: mir_well_formed_def)
    have ik: "i \<le> k" using control_bound [OF control_jump.hyps(1)] control_jump.hyps(2) k by blast
    have "block_at (live_blocks bs) l = Some (truncate_block b)"
      using l control_jump.hyps(2) by (simp add: block_at_live)
    with control_jump ik show ?case
      using length_truncate [OF k] nth_truncate [OF k ik] by (auto intro: control.control_jump)
  qed
qed

text \<open>
  C16. When the blocks of an item have distinct labels, the worklist ends.  It panics exactly when the
  item has no block or control can reach a block that does not exist or has no terminator, and
  otherwise leaves the reachable blocks, in their order, cut after their first terminator.
\<close>

theorem dead_code_exact:
  assumes "distinct (map mb_label (mi_blocks item))"
  shows "process_item item = Some
    (if mi_blocks item \<noteq> [] \<and> mir_well_formed (mi_blocks item)
     then Some (item\<lparr>mi_blocks := live_blocks (mi_blocks item)\<rparr>) else None)"
  using assms by (rule process_item_result)

definition sample_item :: mir_item where
  "sample_item =
     (let v = \<lparr>mv_scope = 0, mv_kind = MvTmp 0\<rparr>
      in \<lparr>mi_ty = MkConstant TUnit 0 (ResolvedName 0 ''c''), mi_name = ''c'', mi_scope = 0,
           mi_variables = [],
           mi_blocks =
             [\<lparr>mb_label = 0, mb_instructions = [MiJump 2, MiReturn v]\<rparr>,
              \<lparr>mb_label = 1, mb_instructions = [MiReturn v]\<rparr>,
              \<lparr>mb_label = 2, mb_instructions = [MiReturn v]\<rparr>],
           mi_tmp_idx = 1\<rparr>)"

lemma sample_item_distinct: "distinct (map mb_label (mi_blocks sample_item))"
  by (simp add: sample_item_def Let_def)

lemma sample_item_processed:
  "process_item sample_item = Some (Some (sample_item\<lparr>mi_blocks :=
     [\<lparr>mb_label = 0, mb_instructions = [MiJump 2]\<rparr>,
      \<lparr>mb_label = 2, mb_instructions = [MiReturn \<lparr>mv_scope = 0, mv_kind = MvTmp 0\<rparr>]\<rparr>]\<rparr>))"
  by (simp add: process_item_def sample_item_def Let_def dead_loop.simps process_label_def process_block_def
      state_add_def state_contains_def)

theorem dead_code_exact_witness:
  "map mb_label (live_blocks (mi_blocks sample_item)) = [0, 2]"
proof -
  have "sample_item\<lparr>mi_blocks := live_blocks (mi_blocks sample_item)\<rparr> = sample_item\<lparr>mi_blocks :=
     [\<lparr>mb_label = 0, mb_instructions = [MiJump 2]\<rparr>,
      \<lparr>mb_label = 2, mb_instructions = [MiReturn \<lparr>mv_scope = 0, mv_kind = MvTmp 0\<rparr>]\<rparr>]\<rparr>"
    using dead_code_exact [OF sample_item_distinct] sample_item_processed by (auto split: if_splits)
  from arg_cong [OF this, of mi_blocks] show ?thesis by simp
qed

text \<open>
  C11. Dead-code elimination does not change what an item can execute: control reaches the same
  positions before and after it, each holds the same instruction, and every instruction kept is one
  that control reaches.
\<close>

theorem dead_code_keeps_control:
  assumes "distinct (map mb_label (mi_blocks item))" and "process_item item = Some (Some item')"
  shows "(control (mi_blocks item') l i \<longleftrightarrow> control (mi_blocks item) l i) \<and>
    (control (mi_blocks item) l i \<longrightarrow>
      (\<exists>b b'. block_at (mi_blocks item) l = Some b \<and> block_at (mi_blocks item') l = Some b' \<and>
         i < length (mb_instructions b') \<and> mb_instructions b' ! i = mb_instructions b ! i)) \<and>
    (\<forall>b \<in> set (mi_blocks item'). \<forall>i < length (mb_instructions b). control (mi_blocks item) (mb_label b) i)"
proof -
  let ?bs = "mi_blocks item"
  from assms have wf: "mir_well_formed ?bs" and bs': "mi_blocks item' = live_blocks ?bs"
    by (auto simp: process_item_result split: if_splits)
  have keep: "\<exists>b b'. block_at ?bs l = Some b \<and> block_at (live_blocks ?bs) l = Some b' \<and>
      i < length (mb_instructions b') \<and> mb_instructions b' ! i = mb_instructions b ! i"
    if c: "control ?bs l i"
  proof -
    have l: "control ?bs l 0" using control_bound [OF c] by blast
    with wf obtain b k where b: "block_at ?bs l = Some b" and k: "term_index b = Some k"
      by (auto simp: mir_well_formed_def)
    have "i \<le> k" using control_bound [OF c] b k by blast
    with b k l show ?thesis
      using length_truncate [OF k] nth_truncate [OF k] by (auto simp: block_at_live)
  qed
  have live: "control ?bs (mb_label b) i"
    if b: "b \<in> set (live_blocks ?bs)" and i: "i < length (mb_instructions b)" for b i
  proof -
    from b obtain b0 where b0: "b0 \<in> set ?bs" "b = truncate_block b0" "control ?bs (mb_label b0) 0"
      by (auto simp: live_blocks_def)
    have at: "block_at ?bs (mb_label b0) = Some b0"
    proof -
      from b0(1) obtain j where j: "j < length ?bs" "?bs ! j = b0" by (auto simp: in_set_conv_nth)
      obtain m where m: "position (\<lambda>b. mb_label b = mb_label b0) ?bs = Some m"
        using b0(1) by (cases "position (\<lambda>b. mb_label b = mb_label b0) ?bs") (auto simp: position_None)
      from position_Some [OF m] j assms(1) have "m = j" by (auto simp: distinct_conv_nth)
      with m j show ?thesis by (simp add: block_at_position)
    qed
    from wf b0(3) at obtain k where k: "term_index b0 = Some k" by (auto simp: mir_well_formed_def)
    have "i \<le> k" using i length_truncate [OF k] b0(2) by simp
    from control_prefix [OF b0(3) at k this] b0(2) show ?thesis by simp
  qed
  show ?thesis unfolding bs' using control_live [OF wf] keep live by blast
qed

theorem dead_code_keeps_control_witness:
  "control (mi_blocks sample_item) 2 0"
  using dead_code_keeps_control [OF sample_item_distinct sample_item_processed]
  by (fastforce simp: sample_item_def Let_def)

end
