(* ===== verification/Type_Cycle.thy ===== *)
theory Type_Cycle
  imports Type_Defs
begin

text \<open>
  \<open>src/src/typechecker/type_cycle.rs\<close>: the depth-first search that rejects recursive types.  The order
  in which the hash map yields its keys is a parameter of \<open>detect_type_cycles\<close>.  The recursion through
  names takes fuel; \<open>None\<close> is the panic of a missing definition or too little fuel, and one unit more
  than the number of definitions is enough.
\<close>

type_synonym type_map = "resolved_name \<Rightarrow> type_definition option"
type_synonym visited = "resolved_name \<Rightarrow> bool option"

datatype cycle_error = CycleDetected | UnresolvedVariable

type_synonym visit_result = "(visited \<times> (cycle_error + unit)) option"

section \<open>The search\<close>

text \<open>\<open>?\<close> after a visit: go on when there was no error.\<close>

definition and_visit :: "visit_result \<Rightarrow> (visited \<Rightarrow> visit_result) \<Rightarrow> visit_result" where
  "and_visit r k = (case r of
     None \<Rightarrow> None
   | Some (vis, Inl e) \<Rightarrow> Some (vis, Inl e)
   | Some (vis, Inr _) \<Rightarrow> k vis)"

fun visit_each :: "(visited \<Rightarrow> 'a \<Rightarrow> visit_result) \<Rightarrow> visited \<Rightarrow> 'a list \<Rightarrow> visit_result" where
  "visit_each v vis [] = Some (vis, Inr ())"
| "visit_each v vis (x # xs) = and_visit (v vis x) (\<lambda>vis. visit_each v vis xs)"

lemma visit_each_cong [fundef_cong]:
  assumes "vis = vis'" and "xs = ys" and "\<And>s y. y \<in> set ys \<Longrightarrow> v s y = w s y"
  shows "visit_each v vis xs = visit_each w vis' ys"
proof -
  have "visit_each v vis' ys = visit_each w vis' ys"
    using assms(3)
  proof (induction ys arbitrary: vis')
    case (Cons y ys)
    then have "visit_each v vis ys = visit_each w vis ys" for vis by simp
    with Cons.prems show ?case by (simp add: and_visit_def split: option.splits sum.splits)
  qed simp
  with assms show ?thesis by simp
qed

fun visit_type :: "(visited \<Rightarrow> resolved_name \<Rightarrow> visit_result) \<Rightarrow> visited \<Rightarrow> rtype \<Rightarrow> visit_result" where
  "visit_type vn vis (TVar _) = Some (vis, Inl UnresolvedVariable)"
| "visit_type vn vis (TIntVar _ _) = Some (vis, Inl UnresolvedVariable)"
| "visit_type vn vis (TFloatVar _) = Some (vis, Inl UnresolvedVariable)"
| "visit_type vn vis (TRecordVar _ _) = Some (vis, Inl UnresolvedVariable)"
| "visit_type vn vis TNever = Some (vis, Inr ())"
| "visit_type vn vis TUnit = Some (vis, Inr ())"
| "visit_type vn vis (TFunction _ _) = Some (vis, Inr ())"
| "visit_type vn vis (TExplicitVar _) = Some (vis, Inr ())"
| "visit_type vn vis (TRecord fs) = visit_each (\<lambda>vis (_, ty). visit_type vn vis ty) vis fs"
| "visit_type vn vis (TName ident) = vn vis (tn_name ident)"

fun visit_definition ::
  "(visited \<Rightarrow> resolved_name \<Rightarrow> visit_result) \<Rightarrow> visited \<Rightarrow> type_definition \<Rightarrow> visit_result" where
  "visit_definition vn vis (DEnum _ variants) =
     visit_each (\<lambda>vis v. visit_each (visit_type vn) vis (ev_fields v)) vis variants"
| "visit_definition vn vis (DRecord _ fs) = visit_each (\<lambda>vis (_, ty). visit_type vn vis ty) vis fs"
| "visit_definition vn vis (DRuntime _ _) = Some (vis, Inr ())"
| "visit_definition vn vis (DPrimitive _) = Some (vis, Inr ())"
| "visit_definition vn vis (DList _) = Some (vis, Inr ())"

fun visit_name :: "nat \<Rightarrow> type_map \<Rightarrow> visited \<Rightarrow> resolved_name \<Rightarrow> visit_result" where
  "visit_name 0 types vis name = None"
| "visit_name (Suc fuel) types vis name =
     (case vis name of
        Some False \<Rightarrow> Some (vis, Inl CycleDetected)
      | Some True \<Rightarrow> Some (vis, Inr ())
      | None \<Rightarrow>
          (case types name of
             None \<Rightarrow> None
           | Some d \<Rightarrow>
               and_visit (visit_definition (visit_name fuel types) (vis(name \<mapsto> False)) d)
                 (\<lambda>vis. Some (vis(name \<mapsto> True), Inr ()))))"

definition detect_type_cycles ::
  "nat \<Rightarrow> type_map \<Rightarrow> resolved_name list \<Rightarrow> (cycle_error + unit) option" where
  "detect_type_cycles fuel types keys = map_option snd (visit_each (visit_name fuel types) Map.empty keys)"

section \<open>The reference relation\<close>

text \<open>
  The names a type contains directly.  The arguments of a named type are not among them: a list or an option of a type
  need not contain it.
\<close>

fun names_of :: "rtype \<Rightarrow> resolved_name set" where
  "names_of (TRecord fs) = (\<Union>(n, t) \<in> set fs. names_of t)"
| "names_of (TName tn) = {tn_name tn}"
| "names_of _ = {}"

fun has_var :: "rtype \<Rightarrow> bool" where
  "has_var (TVar _) = True"
| "has_var (TIntVar _ _) = True"
| "has_var (TFloatVar _) = True"
| "has_var (TRecordVar _ _) = True"
| "has_var (TRecord fs) = (\<exists>(n, t) \<in> set fs. has_var t)"
| "has_var _ = False"

fun def_types :: "type_definition \<Rightarrow> rtype list" where
  "def_types (DEnum _ variants) = concat (map ev_fields variants)"
| "def_types (DRecord _ fs) = map snd fs"
| "def_types _ = []"

definition refers :: "type_map \<Rightarrow> (resolved_name \<times> resolved_name) set" where
  "refers types = {(n, m). \<exists>d t. types n = Some d \<and> t \<in> set (def_types d) \<and> m \<in> names_of t}"

definition no_vars :: "type_map \<Rightarrow> bool" where
  "no_vars types \<longleftrightarrow> (\<forall>n d t. types n = Some d \<longrightarrow> t \<in> set (def_types d) \<longrightarrow> \<not> has_var t)"

definition closed_types :: "type_map \<Rightarrow> bool" where
  "closed_types types \<longleftrightarrow> finite (dom types) \<and> (\<forall>(n, m) \<in> refers types. m \<in> dom types)"

section \<open>The invariant of the search\<close>

definition done_names :: "visited \<Rightarrow> resolved_name set" where
  "done_names vis = {n. vis n = Some True}"

definition open_names :: "visited \<Rightarrow> resolved_name set" where
  "open_names vis = {n. vis n = Some False}"

text \<open>
  Finished names are defined, have no unresolved variables, refer to finished names only, and their
  references are acyclic.
\<close>

definition search_inv :: "type_map \<Rightarrow> visited \<Rightarrow> bool" where
  "search_inv types vis \<longleftrightarrow>
     dom vis \<subseteq> dom types \<and>
     (\<forall>n \<in> done_names vis. \<forall>d t. types n = Some d \<longrightarrow> t \<in> set (def_types d) \<longrightarrow> \<not> has_var t) \<and>
     (\<forall>(n, m) \<in> refers types. n \<in> done_names vis \<longrightarrow> m \<in> done_names vis) \<and>
     acyclic (refers types \<inter> done_names vis \<times> UNIV)"

text \<open>One visit: what it needs (\<open>reach\<close>: every open name leads to the target) and what it gives.\<close>

definition visit_ok ::
  "type_map \<Rightarrow> visited \<Rightarrow> resolved_name set \<Rightarrow> bool \<Rightarrow> visit_result \<Rightarrow> bool" where
  "visit_ok types vis targets bad r \<longleftrightarrow>
     (case r of
        None \<Rightarrow> False
      | Some (vis', Inr _) \<Rightarrow>
          search_inv types vis' \<and> open_names vis' = open_names vis \<and>
          done_names vis \<union> targets \<subseteq> done_names vis' \<and> \<not> bad
      | Some (_, Inl e) \<Rightarrow> \<not> (acyclic (refers types) \<and> no_vars types))"

definition reach :: "type_map \<Rightarrow> visited \<Rightarrow> resolved_name set \<Rightarrow> bool" where
  "reach types vis targets \<longleftrightarrow> (\<forall>m \<in> open_names vis. \<forall>n \<in> targets. (m, n) \<in> (refers types)\<^sup>+)"

lemma done_mono:
  assumes "open_names vis' = open_names vis" and "done_names vis \<subseteq> done_names vis'"
  shows "dom vis \<subseteq> dom vis'"
proof
  fix n assume "n \<in> dom vis"
  then obtain b where b: "vis n = Some b" by blast
  then have "n \<in> open_names vis \<or> n \<in> done_names vis" by (cases b) (auto simp: open_names_def done_names_def)
  with assms show "n \<in> dom vis'" by (auto simp: open_names_def done_names_def)
qed

lemma visit_each_ok:
  assumes "\<And>vis x. x \<in> set xs \<Longrightarrow> search_inv types vis \<Longrightarrow> reach types vis (T x) \<Longrightarrow>
      seen \<subseteq> dom vis \<Longrightarrow> visit_ok types vis (T x) (B x) (v vis x)"
  shows "search_inv types vis \<Longrightarrow> reach types vis (\<Union>x \<in> set xs. T x) \<Longrightarrow> seen \<subseteq> dom vis \<Longrightarrow>
    visit_ok types vis (\<Union>x \<in> set xs. T x) (\<exists>x \<in> set xs. B x) (visit_each v vis xs)"
  using assms
proof (induction xs arbitrary: vis)
  case Nil
  then show ?case by (simp add: visit_ok_def)
next
  case (Cons x xs)
  have rx: "reach types vis (T x)" and rxs: "reach types vis (\<Union>x \<in> set xs. T x)"
    using Cons.prems(2) by (auto simp: reach_def)
  have one: "visit_ok types vis (T x) (B x) (v vis x)"
    using Cons.prems(1,3,4) rx by simp
  show ?case
  proof (cases "v vis x")
    case None
    with one show ?thesis by (simp add: visit_ok_def)
  next
    case (Some p)
    then obtain vis1 r where p: "v vis x = Some (vis1, r)" by (cases p) auto
    show ?thesis
    proof (cases r)
      case (Inl e)
      with one p show ?thesis by (simp add: visit_ok_def and_visit_def)
    next
      case (Inr u)
      with one p have s: "search_inv types vis1" "open_names vis1 = open_names vis"
        "done_names vis \<union> T x \<subseteq> done_names vis1" "\<not> B x"
        by (auto simp: visit_ok_def)
      have "reach types vis1 (\<Union>x \<in> set xs. T x)" using rxs s(2) by (simp add: reach_def)
      moreover have "seen \<subseteq> dom vis1" using Cons.prems(3) done_mono [OF s(2)] s(3) by blast
      ultimately have "visit_ok types vis1 (\<Union>x \<in> set xs. T x) (\<exists>x \<in> set xs. B x) (visit_each v vis1 xs)"
        using Cons.IH [OF s(1)] Cons.prems(4) by simp
      then show ?thesis
        using s p Inr by (auto simp: visit_ok_def and_visit_def split: option.splits sum.splits)
    qed
  qed
qed

section \<open>Correctness\<close>

lemma field_type_size: "(n, t) \<in> set fs \<Longrightarrow> size t < size (TRecord fs)"
  by (induction fs) auto

lemma visit_type_ok:
  assumes vn: "\<And>vis n. search_inv types vis \<Longrightarrow> reach types vis {n} \<Longrightarrow> seen \<subseteq> dom vis \<Longrightarrow>
      n \<in> dom types \<Longrightarrow> visit_ok types vis {n} False (vn vis n)"
  shows "search_inv types vis \<Longrightarrow> reach types vis (names_of t) \<Longrightarrow> seen \<subseteq> dom vis \<Longrightarrow>
    names_of t \<subseteq> dom types \<Longrightarrow> (has_var t \<Longrightarrow> \<not> no_vars types) \<Longrightarrow>
    visit_ok types vis (names_of t) (has_var t) (visit_type vn vis t)"
proof (induction t arbitrary: vis rule: measure_induct_rule [of size])
  case (less t)
  show ?case
  proof (cases t)
    case (TRecord fs)
    have "visit_ok types vis (\<Union>x \<in> set fs. names_of (snd x)) (\<exists>x \<in> set fs. has_var (snd x))
        (visit_each (\<lambda>vis (_, ty). visit_type vn vis ty) vis fs)"
    proof (rule visit_each_ok [where seen = seen])
      fix vis x
      assume x: "x \<in> set fs" and inv: "search_inv types vis" "reach types vis (names_of (snd x))" "seen \<subseteq> dom vis"
      have "size (snd x) < size t" using field_type_size [of "fst x" "snd x" fs] x TRecord by simp
      moreover have "names_of (snd x) \<subseteq> dom types" "has_var (snd x) \<Longrightarrow> \<not> no_vars types"
        using less.prems(4,5) x TRecord by (auto simp: split_beta)
      ultimately show "visit_ok types vis (names_of (snd x)) (has_var (snd x)) (case x of (_, ty) \<Rightarrow> visit_type vn vis ty)"
        using less.IH [of "snd x" vis] inv by (simp add: split_beta)
    qed (use less.prems TRecord in \<open>auto simp: split_beta\<close>)
    then show ?thesis using TRecord by (simp add: split_beta)
  next
    case (TName tn)
    with vn less.prems show ?thesis by simp
  qed (use less.prems in \<open>auto simp: visit_ok_def\<close>)
qed

lemma visit_definition_ok:
  assumes vn: "\<And>vis n. search_inv types vis \<Longrightarrow> reach types vis {n} \<Longrightarrow> seen \<subseteq> dom vis \<Longrightarrow>
      n \<in> dom types \<Longrightarrow> visit_ok types vis {n} False (vn vis n)"
    and vis: "search_inv types vis" "seen \<subseteq> dom vis"
    and d: "\<forall>t \<in> set (def_types d). reach types vis (names_of t) \<and> names_of t \<subseteq> dom types \<and>
      (has_var t \<longrightarrow> \<not> no_vars types)"
  shows "visit_ok types vis (\<Union>t \<in> set (def_types d). names_of t) (\<exists>t \<in> set (def_types d). has_var t)
    (visit_definition vn vis d)"
proof (cases d)
  case (DEnum tn variants)
  have reach: "reach types vis (\<Union>t \<in> set (def_types d). names_of t)" using d by (auto simp: reach_def)
  have "visit_ok types vis (\<Union>v \<in> set variants. \<Union>t \<in> set (ev_fields v). names_of t)
      (\<exists>v \<in> set variants. \<exists>t \<in> set (ev_fields v). has_var t)
      (visit_each (\<lambda>vis v. visit_each (visit_type vn) vis (ev_fields v)) vis variants)"
  proof (rule visit_each_ok [where seen = seen])
    fix vis v
    assume v: "v \<in> set variants" and inv: "search_inv types vis"
      "reach types vis (\<Union>t \<in> set (ev_fields v). names_of t)" "seen \<subseteq> dom vis"
    show "visit_ok types vis (\<Union>t \<in> set (ev_fields v). names_of t) (\<exists>t \<in> set (ev_fields v). has_var t)
        (visit_each (visit_type vn) vis (ev_fields v))"
    proof (rule visit_each_ok [where seen = seen])
      fix vis t
      assume t: "t \<in> set (ev_fields v)" and vis: "search_inv types vis" "reach types vis (names_of t)"
        "seen \<subseteq> dom vis"
      have "names_of t \<subseteq> dom types \<and> (has_var t \<longrightarrow> \<not> no_vars types)"
        using d v t DEnum by (auto simp del: domIff)
      with visit_type_ok [OF vn vis] show
        "visit_ok types vis (names_of t) (has_var t) (visit_type vn vis t)" by simp
    qed (use inv in auto)
  qed (use vis reach DEnum in auto)
  then show ?thesis using DEnum by simp
next
  case (DRecord tn fs)
  have reach: "reach types vis (\<Union>t \<in> set (def_types d). names_of t)" using d by (auto simp: reach_def)
  have "visit_ok types vis (\<Union>x \<in> set fs. names_of (snd x)) (\<exists>x \<in> set fs. has_var (snd x))
      (visit_each (\<lambda>vis (_, ty). visit_type vn vis ty) vis fs)"
  proof (rule visit_each_ok [where seen = seen])
    fix vis x
    assume x: "x \<in> set fs" and inv: "search_inv types vis" "reach types vis (names_of (snd x))" "seen \<subseteq> dom vis"
    have "names_of (snd x) \<subseteq> dom types \<and> (has_var (snd x) \<longrightarrow> \<not> no_vars types)" using d x DRecord by simp
    with visit_type_ok [OF vn inv] show
      "visit_ok types vis (names_of (snd x)) (has_var (snd x)) (case x of (_, ty) \<Rightarrow> visit_type vn vis ty)"
      by (simp add: split_beta)
  qed (use vis reach DRecord in auto)
  then show ?thesis using DRecord by simp
qed (use vis in \<open>simp_all add: visit_ok_def\<close>)

lemma acyclic_finish:
  assumes acyclic: "acyclic (R \<inter> D \<times> UNIV)" and closed: "\<forall>(a, b) \<in> R. a \<in> D \<longrightarrow> b \<in> D"
    and n: "n \<notin> D" "\<forall>m. (n, m) \<in> R \<longrightarrow> m \<in> D"
  shows "acyclic (R \<inter> insert n D \<times> UNIV)"
proof -
  have stay: "(a, b) \<in> (R \<inter> D \<times> UNIV)\<^sup>+ \<and> b \<in> D"
    if "(a, b) \<in> (R \<inter> insert n D \<times> UNIV)\<^sup>+" "a \<in> D" for a b
    using that
  proof induction
    case (base y)
    with closed show ?case by auto
  next
    case (step y z)
    then have "(a, y) \<in> (R \<inter> D \<times> UNIV)\<^sup>+" "(y, z) \<in> R \<inter> D \<times> UNIV" "z \<in> D" using closed by auto
    then show ?case by (meson trancl.trancl_into_trancl)
  qed
  show ?thesis
    unfolding acyclic_def
  proof (intro allI notI)
    fix x assume x: "(x, x) \<in> (R \<inter> insert n D \<times> UNIV)\<^sup>+"
    show False
    proof (cases "x \<in> D")
      case True
      with stay [OF x] acyclic show False by (simp add: acyclic_def)
    next
      case False
      from tranclD [OF x] obtain y where y: "(x, y) \<in> R" "x = n" "(y, x) \<in> (R \<inter> insert n D \<times> UNIV)\<^sup>*"
        using False by auto
      with n(2) have "y \<in> D" by blast
      moreover from y(3) have "y = x \<or> (y, x) \<in> (R \<inter> insert n D \<times> UNIV)\<^sup>+" by (auto simp: rtrancl_eq_or_trancl)
      ultimately show False using stay [of y x] False by auto
    qed
  qed
qed

lemma visit_name_ok:
  assumes closed: "closed_types types"
  shows "search_inv types vis \<Longrightarrow> reach types vis {n} \<Longrightarrow> n \<in> dom types \<Longrightarrow>
    card (dom types - dom vis) < fuel \<Longrightarrow> visit_ok types vis {n} False (visit_name fuel types vis n)"
proof (induction fuel arbitrary: vis n)
  case (Suc fuel)
  show ?case
  proof (cases "vis n")
    case (Some b)
    show ?thesis
    proof (cases b)
      case True
      with Some Suc.prems(1) show ?thesis by (simp add: visit_ok_def done_names_def)
    next
      case False
      with Some Suc.prems(2) have "(n, n) \<in> (refers types)\<^sup>+" by (simp add: reach_def open_names_def)
      with Some False show ?thesis by (auto simp: visit_ok_def acyclic_def)
    qed
  next
    case None
    obtain d where d: "types n = Some d" using Suc.prems(3) by blast
    let ?vis = "vis(n \<mapsto> False)"
    have fin: "done_names ?vis = done_names vis" using None by (auto simp: done_names_def)
    have op: "open_names ?vis = insert n (open_names vis)" by (auto simp: open_names_def)
    have inv: "search_inv types ?vis" using Suc.prems(1,3) by (simp add: search_inv_def fin)
    have edge: "(n, m) \<in> refers types" if "t \<in> set (def_types d)" "m \<in> names_of t" for t m
      using that d by (auto simp: refers_def)
    have reach: "reach types ?vis (names_of t)" if "t \<in> set (def_types d)" for t
      unfolding reach_def
    proof (intro ballI)
      fix m k assume m: "m \<in> open_names ?vis" and k: "k \<in> names_of t"
      show "(m, k) \<in> (refers types)\<^sup>+"
      proof (cases "m = n")
        case True
        with edge [OF that k] show ?thesis by blast
      next
        case False
        with m op Suc.prems(2) have "(m, n) \<in> (refers types)\<^sup>+" by (simp add: reach_def)
        from trancl_into_trancl [OF this edge [OF that k]] show ?thesis .
      qed
    qed
    have defs: "\<forall>t \<in> set (def_types d). reach types ?vis (names_of t) \<and> names_of t \<subseteq> dom types \<and>
        (has_var t \<longrightarrow> \<not> no_vars types)"
      using reach edge closed d by (fastforce simp: closed_types_def no_vars_def)
    have IH: "visit_ok types v {m} False (visit_name fuel types v m)"
      if v: "search_inv types v" "reach types v {m}" "dom ?vis \<subseteq> dom v" "m \<in> dom types" for v m
    proof (rule Suc.IH [OF v(1,2,4)])
      have finite: "finite (dom types)" using closed by (simp add: closed_types_def)
      have "dom types - dom v \<subset> dom types - dom vis"
        using v(3) None Suc.prems(3) by auto
      then have "card (dom types - dom v) < card (dom types - dom vis)"
        using finite by (intro psubset_card_mono) auto
      with Suc.prems(4) show "card (dom types - dom v) < fuel" by simp
    qed
    have body: "visit_ok types ?vis (\<Union>t \<in> set (def_types d). names_of t) (\<exists>t \<in> set (def_types d). has_var t)
        (visit_definition (visit_name fuel types) ?vis d)"
      by (rule visit_definition_ok [where seen = "dom ?vis", OF IH inv order_refl defs])
    show ?thesis
    proof (cases "visit_definition (visit_name fuel types) ?vis d")
      case None
      with body show ?thesis by (simp add: visit_ok_def)
    next
      case (Some p)
      then obtain v r where p: "visit_definition (visit_name fuel types) ?vis d = Some (v, r)" by (cases p) auto
      show ?thesis
      proof (cases r)
        case (Inl e)
        with p body d None show ?thesis by (simp add: visit_ok_def and_visit_def)
      next
        case (Inr u)
        with p body have v: "search_inv types v" "open_names v = insert n (open_names vis)"
          "done_names vis \<subseteq> done_names v" "(\<Union>t \<in> set (def_types d). names_of t) \<subseteq> done_names v"
          "\<not> (\<exists>t \<in> set (def_types d). has_var t)"
          by (auto simp: visit_ok_def op fin)
        let ?v = "v(n \<mapsto> True)"
        have "n \<in> open_names v" using v(2) by simp
        then have nd: "n \<notin> done_names v" by (simp add: open_names_def done_names_def)
        have dn: "done_names ?v = insert n (done_names v)" by (auto simp: done_names_def)
        have no: "n \<notin> open_names vis" using None by (simp add: open_names_def)
        then have opn: "open_names ?v = open_names vis" using v(2) by (auto simp: open_names_def)
        have succ: "\<forall>m. (n, m) \<in> refers types \<longrightarrow> m \<in> done_names v"
          using v(4) d by (auto simp: refers_def)
        have "search_inv types ?v"
          unfolding search_inv_def dn
        proof (intro conjI)
          show "dom ?v \<subseteq> dom types" using v(1) Suc.prems(3) by (simp add: search_inv_def)
          show "\<forall>k \<in> insert n (done_names v). \<forall>d t. types k = Some d \<longrightarrow> t \<in> set (def_types d) \<longrightarrow> \<not> has_var t"
            using v(1,5) d by (auto simp: search_inv_def)
          show "\<forall>(a, b) \<in> refers types. a \<in> insert n (done_names v) \<longrightarrow> b \<in> insert n (done_names v)"
            using v(1) succ by (auto simp: search_inv_def)
          show "acyclic (refers types \<inter> insert n (done_names v) \<times> UNIV)"
            by (rule acyclic_finish) (use v(1) nd succ in \<open>auto simp: search_inv_def\<close>)
        qed
        with p Inr d None v(3) opn dn show ?thesis by (auto simp: visit_ok_def and_visit_def)
      qed
    qed
  qed
qed simp

lemma detect_type_cycles_result:
  assumes "closed_types types" and "set keys = dom types" and "card (dom types) < fuel"
  shows "\<exists>r. detect_type_cycles fuel types keys = Some r \<and>
    (r = Inr () \<longleftrightarrow> acyclic (refers types) \<and> no_vars types)"
proof -
  have inv0: "search_inv types Map.empty" by (simp add: search_inv_def done_names_def acyclic_def)
  have "visit_ok types Map.empty (\<Union>n \<in> set keys. {n}) (\<exists>n \<in> set keys. False)
      (visit_each (visit_name fuel types) Map.empty keys)"
  proof (rule visit_each_ok [where seen = "{}"])
    fix vis n
    assume n: "n \<in> set keys" and vis: "search_inv types vis" "reach types vis {n}"
    have "card (dom types - dom vis) \<le> card (dom types)"
      using assms(1) by (intro card_mono) (auto simp: closed_types_def)
    with assms(3) have "card (dom types - dom vis) < fuel" by simp
    from visit_name_ok [OF assms(1) vis _ this] n assms(2)
    show "visit_ok types vis {n} False (visit_name fuel types vis n)" by simp
  qed (use inv0 in \<open>auto simp: reach_def open_names_def\<close>)
  then have ok: "visit_ok types Map.empty (dom types) False (visit_each (visit_name fuel types) Map.empty keys)"
    using assms(2) by simp
  then obtain vis r where r: "visit_each (visit_name fuel types) Map.empty keys = Some (vis, r)"
    by (auto simp: visit_ok_def split: option.splits)
  show ?thesis
  proof (cases r)
    case (Inl e)
    with ok r show ?thesis by (simp add: visit_ok_def detect_type_cycles_def)
  next
    case (Inr u)
    with ok r have inv: "search_inv types vis" and all: "dom types \<subseteq> done_names vis"
      by (auto simp: visit_ok_def)
    have "refers types \<inter> done_names vis \<times> UNIV = refers types"
      using all by (auto simp: refers_def)
    with inv have "acyclic (refers types)" by (simp add: search_inv_def)
    moreover have "no_vars types" using inv all by (fastforce simp: search_inv_def no_vars_def)
    ultimately show ?thesis using r Inr by (simp add: detect_type_cycles_def)
  qed
qed

text \<open>
  C17. When every name that is referred to is defined, the search ends without a panic for any order of the keys.  It
  accepts the definitions exactly when no definition contains itself directly, through the types of its
  fields and of its variants' arguments, and none contains an unresolved type variable.  Containment in the argument
  of another type, as in a field of type \<open>Option[A]\<close> in \<open>A\<close>, is not followed: the search is not exact for it.
\<close>

theorem detect_type_cycles_exact:
  assumes "closed_types types" and "set keys = dom types" and "card (dom types) < fuel"
  shows "\<exists>r. detect_type_cycles fuel types keys = Some r \<and>
    (r = Inr () \<longleftrightarrow> acyclic (refers types) \<and> no_vars types)"
  using assms by (rule detect_type_cycles_result)

abbreviation (input) name_a :: resolved_name where "name_a \<equiv> ResolvedName 1 ''A''"
abbreviation (input) name_b :: resolved_name where "name_b \<equiv> ResolvedName 1 ''B''"

definition mutual_types :: type_map where
  "mutual_types = [name_a \<mapsto> DRecord (TypeName name_a []) [((Meta ''b'' 0), TName (TypeName name_b []))],
     name_b \<mapsto> DEnum (TypeName name_b []) [\<lparr>ev_name = ''V'', ev_fields = [TName (TypeName name_a [])]\<rparr>]]"

theorem detect_type_cycles_exact_witness:
  "\<not> (acyclic (refers mutual_types) \<and> no_vars mutual_types)"
proof -
  have dom: "dom mutual_types = {name_a, name_b}" by (auto simp: mutual_types_def)
  have closed: "closed_types mutual_types"
    unfolding closed_types_def dom by (auto simp: refers_def mutual_types_def split: if_splits)
  have keys: "set [name_a, name_b] = dom mutual_types" using dom by simp
  have fuel: "card (dom mutual_types) < 3" unfolding dom by simp
  have "detect_type_cycles 3 mutual_types [name_a, name_b] = Some (Inl CycleDetected)"
    by (simp add: detect_type_cycles_def mutual_types_def and_visit_def numeral_3_eq_3)
  with detect_type_cycles_exact [OF closed keys fuel] show ?thesis by simp
qed

end
