(* ===== verification/Union_Find.thy ===== *)
theory Union_Find
  imports Type_Defs
begin

text \<open>
  \<open>src/src/typechecker/unionfind.rs\<close>: type variables and what they stand for.  Both searches
  recurse along the links without a bound, so they are partial functions: \<open>None\<close> is a search that
  does not return (an index out of range, or a cycle).  \<open>uf_ok\<close> says that there is neither; on such
  a structure both searches return, agree, and path compression changes no answer.
\<close>

record union_find =
  uf_inner :: "rtype list"

text \<open>The index carried by the four kinds of type variable.\<close>

fun var_index :: "rtype \<Rightarrow> nat option" where
  "var_index (TVar i) = Some i"
| "var_index (TIntVar i _) = Some i"
| "var_index (TFloatVar i) = Some i"
| "var_index (TRecordVar i _) = Some i"
| "var_index _ = None"

partial_function (option) uf_find :: "union_find \<Rightarrow> nat \<Rightarrow> (union_find \<times> rtype) option" where
  "uf_find uf i =
     (case index (uf_inner uf) i of
        None \<Rightarrow> None
      | Some t \<Rightarrow>
          (case var_index t of
             None \<Rightarrow> Some (uf, t)
           | Some j \<Rightarrow>
               if j \<noteq> i then
                 Option.bind (uf_find uf j)
                   (\<lambda>(uf', new_t). Some (uf'\<lparr>uf_inner := (uf_inner uf')[i := new_t]\<rparr>, new_t))
               else Some (uf, t)))"

partial_function (option) uf_find_ref :: "union_find \<Rightarrow> nat \<Rightarrow> rtype option" where
  "uf_find_ref uf i =
     (case index (uf_inner uf) i of
        None \<Rightarrow> None
      | Some t \<Rightarrow>
          (case var_index t of
             None \<Rightarrow> Some t
           | Some j \<Rightarrow> if j \<noteq> i then uf_find_ref uf j else Some t))"

definition uf_fresh :: "union_find \<Rightarrow> (nat \<Rightarrow> rtype) \<Rightarrow> union_find \<times> rtype" where
  "uf_fresh uf f =
     (let n = length (uf_inner uf); t = f n in (uf\<lparr>uf_inner := uf_inner uf @ [t]\<rparr>, t))"

definition uf_set :: "union_find \<Rightarrow> nat \<Rightarrow> rtype \<Rightarrow> union_find option" where
  "uf_set uf i t =
     (if i < length (uf_inner uf) then Some (uf\<lparr>uf_inner := (uf_inner uf)[i := t]\<rparr>) else None)"

interpretation uf_store: index_store
  "\<lambda>uf f. (fst (uf_fresh uf f), length (uf_inner uf))"
  "\<lambda>uf i. index (uf_inner uf) i" "\<lambda>uf. length (uf_inner uf)" "\<lambda>f n. f n"
  by unfold_locales (auto simp: uf_fresh_def Let_def)

section \<open>Links\<close>

text \<open>\<open>link uf i = Some j\<close>: slot \<open>i\<close> holds another variable \<open>j\<close>.\<close>

definition link :: "union_find \<Rightarrow> nat \<Rightarrow> nat option" where
  "link uf i = (case index (uf_inner uf) i of None \<Rightarrow> None
     | Some t \<Rightarrow> (case var_index t of None \<Rightarrow> None | Some j \<Rightarrow> if j \<noteq> i then Some j else None))"

inductive leads :: "union_find \<Rightarrow> nat \<Rightarrow> nat \<Rightarrow> bool" for uf where
  leads_here: "i < length (uf_inner uf) \<Longrightarrow> link uf i = None \<Longrightarrow> leads uf i i"
| leads_on: "link uf i = Some j \<Longrightarrow> leads uf j r \<Longrightarrow> leads uf i r"

inductive_cases leadsE: "leads uf i r"

definition uf_ok :: "union_find \<Rightarrow> bool" where
  "uf_ok uf \<longleftrightarrow> (\<forall>i < length (uf_inner uf). \<exists>r. leads uf i r)"

lemma link_range: "link uf i = Some j \<Longrightarrow> i < length (uf_inner uf) \<and> j \<noteq> i"
  by (auto simp: link_def index_def split: option.splits if_splits)

lemma leads_range: "leads uf i r \<Longrightarrow> i < length (uf_inner uf) \<and> r < length (uf_inner uf) \<and> link uf r = None"
  by (induction rule: leads.induct) (auto dest: link_range)

lemma leads_unique: "leads uf i r \<Longrightarrow> leads uf i r' \<Longrightarrow> r' = r"
proof (induction arbitrary: r' rule: leads.induct)
  case (leads_here i)
  then show ?case by (auto elim: leadsE)
next
  case (leads_on i j r)
  from leads_on.prems leads_on.hyps(1) have "leads uf j r'" by (auto elim: leadsE)
  then show ?case by (rule leads_on.IH)
qed

lemma uf_find_ref_step:
  "link uf i = Some j \<Longrightarrow> uf_find_ref uf i = uf_find_ref uf j"
  by (subst uf_find_ref.simps) (auto simp: link_def simp del: index_None_iff split: option.splits if_splits)

lemma uf_find_ref_root:
  "i < length (uf_inner uf) \<Longrightarrow> link uf i = None \<Longrightarrow> uf_find_ref uf i = Some (uf_inner uf ! i)"
  by (subst uf_find_ref.simps) (auto simp: link_def index_def split: option.splits if_splits)

lemma uf_find_ref_leads: "leads uf i r \<Longrightarrow> uf_find_ref uf i = Some (uf_inner uf ! r)"
  by (induction rule: leads.induct) (auto simp: uf_find_ref_root uf_find_ref_step)

lemma uf_find_ref_SomeD: "uf_find_ref uf i = Some t \<Longrightarrow> \<exists>r. leads uf i r \<and> t = uf_inner uf ! r"
proof (induction uf i t rule: uf_find_ref.raw_induct [rotated, consumes 1])
  case (1 g uf i t)
  show ?case
  proof (cases "link uf i")
    case None
    with 1(2) have "i < length (uf_inner uf) \<and> t = uf_inner uf ! i"
      by (auto simp: link_def index_def split: option.splits if_splits)
    with None show ?thesis by (blast intro: leads_here)
  next
    case (Some j)
    with 1(2) have "g uf j = Some t"
      by (auto simp: link_def split: option.splits if_splits)
    from 1(1) [OF this] Some show ?thesis by (auto intro: leads_on)
  qed
qed

lemma uf_find_ref_Some_iff: "uf_find_ref uf i = Some t \<longleftrightarrow> (\<exists>r. leads uf i r \<and> t = uf_inner uf ! r)"
  using uf_find_ref_SomeD uf_find_ref_leads by metis

section \<open>Path compression\<close>

lemma link_update:
  "i < length (uf_inner uf) \<Longrightarrow>
    link (uf\<lparr>uf_inner := (uf_inner uf)[i := t]\<rparr>) k =
      (if k = i then (case var_index t of None \<Rightarrow> None | Some j \<Rightarrow> if j \<noteq> i then Some j else None)
       else link uf k)"
  by (auto simp: link_def)

text \<open>Redirecting a slot to what it already leads to changes the target of no slot.\<close>

definition same_answers :: "union_find \<Rightarrow> union_find \<Rightarrow> bool" where
  "same_answers uf uf' \<longleftrightarrow>
     length (uf_inner uf') = length (uf_inner uf) \<and> (\<forall>k. uf_find_ref uf' k = uf_find_ref uf k)"

lemma same_answers_refl [simp]: "same_answers uf uf"
  by (simp add: same_answers_def)

lemma same_answers_trans: "same_answers a b \<Longrightarrow> same_answers b c \<Longrightarrow> same_answers a c"
  by (simp add: same_answers_def)

lemma same_answers_ok: "same_answers uf uf' \<Longrightarrow> uf_ok uf \<Longrightarrow> uf_ok uf'"
  unfolding uf_ok_def same_answers_def by (metis uf_find_ref_SomeD uf_find_ref_leads)

lemma root_content:
  assumes "link uf r = None" and "r < length (uf_inner uf)"
  shows "var_index (uf_inner uf ! r) = None \<or> var_index (uf_inner uf ! r) = Some r"
  using assms by (auto simp: link_def index_def split: option.splits if_splits)

lemma compress_same:
  assumes l: "link uf i = Some j" and r: "leads uf i r"
  shows "same_answers uf (uf\<lparr>uf_inner := (uf_inner uf)[i := uf_inner uf ! r]\<rparr>)"
proof -
  let ?t = "uf_inner uf ! r" and ?uf = "uf\<lparr>uf_inner := (uf_inner uf)[i := uf_inner uf ! r]\<rparr>"
  have i: "i < length (uf_inner uf)" using link_range [OF l] by simp
  have rr: "r < length (uf_inner uf)" "link uf r = None" using leads_range [OF r] by auto
  have ri: "r \<noteq> i" using l rr by auto
  have content: "var_index ?t = None \<or> var_index ?t = Some r" using rr by (simp add: root_content)
  have at_r: "leads ?uf r r" using rr ri i by (intro leads_here) (simp_all add: link_update)
  have at_i: "uf_find_ref ?uf i = Some ?t"
  proof (cases "var_index ?t")
    case None
    then have "leads ?uf i i" using i by (intro leads_here) (simp_all add: link_update)
    from uf_find_ref_leads [OF this] i show ?thesis by simp
  next
    case (Some k)
    with content have "link ?uf i = Some r" using i ri by (simp add: link_update)
    from uf_find_ref_leads [OF leads_on [OF this at_r]] ri show ?thesis by simp
  qed
  have fwd: "uf_find_ref ?uf k = Some (uf_inner uf ! s)" if "leads uf k s" for k s
    using that
  proof induction
    case (leads_here k)
    with l have "k \<noteq> i" by auto
    with leads_here i have "leads ?uf k k" by (intro leads.leads_here) (simp_all add: link_update)
    from uf_find_ref_leads [OF this] \<open>k \<noteq> i\<close> show ?case by simp
  next
    case (leads_on k m s)
    show ?case
    proof (cases "k = i")
      case True
      with r leads_on have "s = r" by (metis leads.leads_on leads_unique)
      with True at_i show ?thesis by simp
    next
      case False
      with leads_on.hyps(1) i have "link ?uf k = Some m" by (simp add: link_update)
      with leads_on.IH show ?thesis by (simp add: uf_find_ref_step)
    qed
  qed
  have bwd: "\<exists>t. uf_find_ref uf k = Some t" if "leads ?uf k s" for k s
    using that
  proof induction
    case (leads_here k)
    show ?case
    proof (cases "k = i")
      case True
      with uf_find_ref_leads [OF r] show ?thesis by blast
    next
      case False
      with leads_here i show ?thesis by (auto simp: link_update uf_find_ref_root)
    qed
  next
    case (leads_on k m s)
    show ?case
    proof (cases "k = i")
      case True
      with uf_find_ref_leads [OF r] show ?thesis by blast
    next
      case False
      with leads_on.hyps(1) i have "link uf k = Some m" by (simp add: link_update)
      with leads_on.IH show ?thesis by (simp add: uf_find_ref_step)
    qed
  qed
  have "uf_find_ref ?uf k = uf_find_ref uf k" for k
  proof (cases "uf_find_ref uf k")
    case None
    with bwd [of k] uf_find_ref_SomeD [of ?uf k] show ?thesis
      by (cases "uf_find_ref ?uf k") auto
  next
    case (Some t)
    with uf_find_ref_SomeD fwd show ?thesis by metis
  qed
  then show ?thesis by (simp add: same_answers_def)
qed

lemma uf_find_correct:
  assumes "leads uf i r"
  shows "\<exists>uf'. uf_find uf i = Some (uf', uf_inner uf ! r) \<and> same_answers uf uf' \<and>
    link uf' r = None \<and> uf_inner uf' ! r = uf_inner uf ! r \<and> uf_inner uf' ! i = uf_inner uf ! r"
  using assms
proof induction
  case (leads_here i)
  then show ?case
    by (subst uf_find.simps) (auto simp: link_def index_def split: option.splits if_splits)
next
  case (leads_on i j r)
  from leads_on.IH obtain uf' where f: "uf_find uf j = Some (uf', uf_inner uf ! r)"
    and same: "same_answers uf uf'" and r: "link uf' r = None" "uf_inner uf' ! r = uf_inner uf ! r"
    by blast
  let ?t = "uf_inner uf ! r"
  let ?uf = "uf'\<lparr>uf_inner := (uf_inner uf')[i := ?t]\<rparr>"
  have i: "i < length (uf_inner uf)" "j \<noteq> i" using link_range [OF leads_on.hyps(1)] by auto
  have len: "length (uf_inner uf') = length (uf_inner uf)" using same by (simp add: same_answers_def)
  have step: "uf_find uf i = Some (?uf, ?t)"
    using leads_on.hyps(1) f
    by (subst uf_find.simps) (auto simp: link_def simp del: index_None_iff split: option.splits if_splits)
  have rr: "r < length (uf_inner uf)" using leads_range [OF leads_on.hyps(2)] by simp
  have ri: "r \<noteq> i" using leads_on.hyps leads_range [OF leads_on.hyps(2)] by auto
  have "same_answers uf' ?uf"
  proof (cases "link uf' i")
    case None
    then have "uf_find_ref uf' i = Some (uf_inner uf' ! i)" using i len by (simp add: uf_find_ref_root)
    moreover have "uf_find_ref uf' i = Some ?t"
      using same uf_find_ref_leads [OF leads.leads_on [OF leads_on.hyps]] by (simp add: same_answers_def)
    ultimately have "(uf_inner uf')[i := ?t] = uf_inner uf'" by simp
    then show ?thesis by simp
  next
    case (Some m)
    obtain s where s: "leads uf' i s" "?t = uf_inner uf' ! s"
      using same uf_find_ref_leads [OF leads.leads_on [OF leads_on.hyps]]
      by (metis same_answers_def uf_find_ref_SomeD)
    from compress_same [OF Some s(1)] s(2) show ?thesis by simp
  qed
  with same have "same_answers uf ?uf" by (rule same_answers_trans)
  moreover have "link ?uf r = None" using r ri i len by (simp add: link_update)
  ultimately show ?case using step r ri i len by auto
qed

lemma uf_ok_leads: "uf_ok uf \<Longrightarrow> i < length (uf_inner uf) \<Longrightarrow> \<exists>r. leads uf i r"
  by (simp add: uf_ok_def)

lemma uf_find_total:
  assumes "uf_ok uf" and "i < length (uf_inner uf)"
  obtains uf' t where "uf_find uf i = Some (uf', t)" "uf_find_ref uf i = Some t" "same_answers uf uf'"
    "uf_ok uf'"
  using uf_ok_leads [OF assms] uf_find_correct uf_find_ref_leads same_answers_ok assms(1) by metis

lemma uf_find_SomeD:
  "uf_find uf i = Some (uf', t) \<Longrightarrow> \<exists>r. leads uf i r \<and> t = uf_inner uf ! r"
proof (induction uf i "(uf', t)" arbitrary: uf' t rule: uf_find.raw_induct [rotated, consumes 1])
  case (1 g uf i)
  show ?case
  proof (cases "link uf i")
    case None
    with 1(2) have "i < length (uf_inner uf) \<and> t = uf_inner uf ! i"
      by (auto simp: link_def index_def split: option.splits if_splits)
    with None show ?thesis by (blast intro: leads_here)
  next
    case (Some j)
    with 1(2) obtain uf1 where "g uf j = Some (uf1, t)"
      by (auto simp: link_def bind_eq_Some_conv split: option.splits if_splits)
    from 1(1) [OF this] Some show ?thesis by (auto intro: leads_on)
  qed
qed

lemma uf_find_result:
  assumes "uf_find uf i = Some (uf', t)"
  shows "uf_find_ref uf i = Some t" and "same_answers uf uf'"
    and "\<exists>r. leads uf i r \<and> t = uf_inner uf ! r"
  using uf_find_SomeD [OF assms] uf_find_correct uf_find_ref_leads assms by (metis option.inject prod.inject)+

text \<open>
  C29. On a structure without cycles and dangling links, \<open>find\<close> returns for every variable, gives the
  answer of the non-compressing \<open>find_ref\<close>, and its path compression leaves every answer of every
  variable as it was, so the structure stays free of cycles.
\<close>

theorem find_compresses_safely:
  assumes "uf_ok uf" and "i < length (uf_inner uf)"
  shows "\<exists>uf' t. uf_find uf i = Some (uf', t) \<and> uf_find_ref uf i = Some t \<and> uf_ok uf' \<and>
    (\<forall>k. uf_find_ref uf' k = uf_find_ref uf k) \<and> uf_inner uf' ! i = t"
proof -
  from uf_ok_leads [OF assms] obtain r where r: "leads uf i r" by blast
  from uf_find_correct [OF r] obtain uf' where
    "uf_find uf i = Some (uf', uf_inner uf ! r)" "same_answers uf uf'" "uf_inner uf' ! i = uf_inner uf ! r"
    by blast
  with uf_find_ref_leads [OF r] same_answers_ok [OF _ assms(1)] show ?thesis
    by (auto simp: same_answers_def)
qed

lemma sample_uf_ok: "uf_ok \<lparr>uf_inner = [TVar 1, TVar 2, TUnit]\<rparr>"
proof -
  let ?uf = "\<lparr>uf_inner = [TVar 1, TVar 2, TUnit]\<rparr>"
  have l2: "leads ?uf 2 2" by (rule leads_here) (simp_all add: link_def index_def)
  have l1: "leads ?uf 1 2" by (rule leads_on [OF _ l2]) (simp add: link_def index_def)
  have l0: "leads ?uf 0 2" by (rule leads_on [OF _ l1]) (simp add: link_def index_def)
  show ?thesis
    unfolding uf_ok_def
  proof (intro allI impI)
    fix i assume "i < length (uf_inner ?uf)"
    then consider "i = 0" | "i = 1" | "i = 2" by fastforce
    then show "\<exists>r. leads ?uf i r" using l0 l1 l2 by cases auto
  qed
qed

theorem find_compresses_safely_witness:
  "\<exists>uf'. uf_find \<lparr>uf_inner = [TVar 1, TVar 2, TUnit]\<rparr> 0 = Some (uf', TUnit) \<and> uf_inner uf' ! 0 = TUnit"
proof -
  have "uf_find_ref \<lparr>uf_inner = [TVar 1, TVar 2, TUnit]\<rparr> 0 = Some TUnit"
    by (simp add: uf_find_ref.simps index_def)
  with find_compresses_safely [OF sample_uf_ok, of 0] show ?thesis by auto
qed

section \<open>Growing and binding\<close>

lemma fresh_leads:
  assumes "leads uf k r"
  shows "leads (fst (uf_fresh uf f)) k r"
proof -
  have keep: "link (fst (uf_fresh uf f)) m = link uf m" if "m < length (uf_inner uf)" for m
    using that by (simp add: link_def uf_fresh_def Let_def)
  show ?thesis using assms
  proof induction
    case (leads_here i)
    then show ?case by (intro leads.leads_here) (simp_all add: keep, simp add: uf_fresh_def Let_def)
  next
    case (leads_on i j r)
    then have "link (fst (uf_fresh uf f)) i = Some j" by (simp add: keep link_range)
    from leads.leads_on [OF this leads_on.IH] show ?case .
  qed
qed

lemma fresh_ok [inv_intros]:
  assumes "uf_ok uf" and "var_index (f (length (uf_inner uf))) = Some (length (uf_inner uf))"
  shows "uf_ok (fst (uf_fresh uf f))"
proof -
  let ?n = "length (uf_inner uf)" and ?uf = "fst (uf_fresh uf f)"
  have "leads ?uf ?n ?n"
    using assms(2) by (intro leads_here) (simp_all add: uf_fresh_def Let_def link_def)
  moreover have "\<exists>r. leads ?uf i r" if "i < ?n" for i
    using uf_ok_leads [OF assms(1) that] fresh_leads by blast
  moreover have "length (uf_inner ?uf) = Suc ?n" by (simp add: uf_fresh_def Let_def)
  ultimately show ?thesis by (auto simp: uf_ok_def less_Suc_eq)
qed

text \<open>
  \<open>uf'\<close> extends \<open>uf\<close>: what was bound stays bound to the same type, and an unbound variable has been
  bound at most as a whole class: all that led to it now lead where it leads.
\<close>

definition uf_extends :: "union_find \<Rightarrow> union_find \<Rightarrow> bool" where
  "uf_extends uf uf' \<longleftrightarrow>
     length (uf_inner uf') = length (uf_inner uf) \<and>
     (\<forall>k t. uf_find_ref uf k = Some t \<longrightarrow>
        (case var_index t of
           None \<Rightarrow> uf_find_ref uf' k = Some t
         | Some r \<Rightarrow> uf_find_ref uf' k = uf_find_ref uf' r))"

lemma leads_var_index:
  assumes "leads uf k r"
  shows "var_index (uf_inner uf ! r) = None \<or> var_index (uf_inner uf ! r) = Some r"
  using leads_range [OF assms] by (simp add: root_content)

lemma same_answers_extends: "same_answers uf uf' \<Longrightarrow> uf_extends uf uf'"
proof -
  assume same: "same_answers uf uf'"
  have "uf_find_ref uf k = uf_find_ref uf r" if "uf_find_ref uf k = Some t" "var_index t = Some r" for k t r
  proof -
    from uf_find_ref_SomeD [OF that(1)] obtain q where q: "leads uf k q" "t = uf_inner uf ! q" by blast
    with that(2) leads_var_index [OF q(1)] have "q = r" by simp
    with q leads_range [OF q(1)] that(1) show ?thesis by (simp add: uf_find_ref_root)
  qed
  with same show ?thesis by (auto simp: uf_extends_def same_answers_def split: option.splits)
qed

lemma uf_extends_refl [simp]: "uf_extends uf uf"
  by (rule same_answers_extends) simp

lemma uf_extendsD:
  "uf_extends uf uf' \<Longrightarrow> uf_find_ref uf k = Some t \<Longrightarrow> var_index t = None \<Longrightarrow> uf_find_ref uf' k = Some t"
  "uf_extends uf uf' \<Longrightarrow> uf_find_ref uf k = Some t \<Longrightarrow> var_index t = Some r \<Longrightarrow>
     uf_find_ref uf' k = uf_find_ref uf' r"
  by (force simp: uf_extends_def split: option.splits)+

lemma uf_extends_same:
  assumes "uf_extends uf uf'" and "uf_find_ref uf k = uf_find_ref uf m" and "uf_find_ref uf k \<noteq> None"
  shows "uf_find_ref uf' k = uf_find_ref uf' m"
proof -
  from assms(3) obtain t where t: "uf_find_ref uf k = Some t" by blast
  with assms(2) have m: "uf_find_ref uf m = Some t" by simp
  show ?thesis
  proof (cases "var_index t")
    case None
    with uf_extendsD(1) [OF assms(1)] t m show ?thesis by metis
  next
    case (Some r)
    with uf_extendsD(2) [OF assms(1)] t m show ?thesis by metis
  qed
qed

lemma uf_extends_trans:
  assumes "uf_extends a b" and "uf_extends b c" and "uf_ok b"
  shows "uf_extends a c"
  unfolding uf_extends_def
proof (intro conjI allI impI)
  show "length (uf_inner c) = length (uf_inner a)" using assms by (simp add: uf_extends_def)
  fix k t assume t: "uf_find_ref a k = Some t"
  show "case var_index t of None \<Rightarrow> uf_find_ref c k = Some t | Some r \<Rightarrow> uf_find_ref c k = uf_find_ref c r"
  proof (cases "var_index t")
    case None
    with uf_extendsD(1) [OF assms(2) uf_extendsD(1) [OF assms(1) t]] show ?thesis by simp
  next
    case (Some r)
    with uf_extendsD(2) [OF assms(1) t] have eq: "uf_find_ref b k = uf_find_ref b r" by simp
    from uf_find_ref_SomeD [OF t] obtain q where "leads a k q" by blast
    then have "k < length (uf_inner b)" using leads_range assms(1) by (simp add: uf_extends_def)
    with assms(3) have "uf_find_ref b k \<noteq> None" using uf_ok_leads uf_find_ref_leads by fastforce
    with uf_extends_same [OF assms(2) eq] Some show ?thesis by simp
  qed
qed

text \<open>Binding a root to a type that does not lead back to it.\<close>

lemma set_root:
  assumes ok: "uf_ok uf" and root: "r < length (uf_inner uf)" "var_index (uf_inner uf ! r) = Some r"
    and t: "var_index t = None \<or> (\<exists>j s. var_index t = Some j \<and> leads uf j s \<and> s \<noteq> r)"
    and set: "uf_set uf r t = Some uf'"
  shows "uf_ok uf'" and "uf_extends uf uf'"
    and "uf_find_ref uf' r = (case var_index t of None \<Rightarrow> Some t | Some j \<Rightarrow> uf_find_ref uf j)"
proof -
  have r: "r < length (uf_inner uf)" "link uf r = None"
    using root by (simp_all add: link_def index_def)
  have uf': "uf' = uf\<lparr>uf_inner := (uf_inner uf)[r := t]\<rparr>" using set r by (simp add: uf_set_def)
  have len: "length (uf_inner uf') = length (uf_inner uf)" by (simp add: uf')
  have other: "leads uf' k s \<and> uf_inner uf' ! s = uf_inner uf ! s" if "leads uf k s" "s \<noteq> r" for k s
    using that
  proof induction
    case (leads_here k)
    with r show ?case by (auto simp: uf' link_update intro: leads.leads_here)
  next
    case (leads_on k m s)
    have "k \<noteq> r" using leads_on.hyps(1) r(2) by auto
    with leads_on.hyps(1) r(1) have "link uf' k = Some m" by (simp add: uf' link_update)
    with leads_on show ?case by (auto intro: leads.leads_on)
  qed
  obtain s where s: "leads uf' r s"
    and ans: "uf_find_ref uf' r = (case var_index t of None \<Rightarrow> Some t | Some j \<Rightarrow> uf_find_ref uf j)"
  proof (cases "var_index t")
    case None
    then have "leads uf' r r" using r(1) by (intro leads_here) (simp_all add: uf' link_update)
    with uf_find_ref_leads [OF this] None r(1) that show ?thesis by (simp add: uf')
  next
    case (Some j)
    with t obtain s where s: "leads uf j s" "s \<noteq> r" by auto
    have "j \<noteq> r"
    proof
      assume "j = r"
      with r s(1) have "s = r" by (auto elim: leadsE)
      with s(2) show False by simp
    qed
    with Some r(1) have "link uf' r = Some j" by (simp add: uf' link_update)
    with other [OF s] have l: "leads uf' r s" by (blast intro: leads_on)
    from uf_find_ref_leads [OF l] uf_find_ref_leads [OF s(1)] other [OF s] Some that l
    show ?thesis by simp
  qed
  have via: "uf_find_ref uf' k = uf_find_ref uf' r \<and> (\<exists>s. leads uf' k s)" if "leads uf k r" for k
    using that
  proof (induction k q\<equiv>r rule: leads.induct)
    case (leads_here)
    with s show ?case by blast
  next
    case (leads_on k m)
    have "k \<noteq> r" using leads_on.hyps(1) r(2) by auto
    with leads_on.hyps(1) r(1) have "link uf' k = Some m" by (simp add: uf' link_update)
    with leads_on show ?case by (auto simp: uf_find_ref_step intro: leads.leads_on)
  qed
  show "uf_ok uf'"
    unfolding uf_ok_def len
  proof (intro allI impI)
    fix k assume "k < length (uf_inner uf)"
    then obtain q where q: "leads uf k q" using uf_ok_leads [OF ok] by blast
    show "\<exists>r. leads uf' k r"
    proof (cases "q = r")
      case True
      with q via show ?thesis by blast
    next
      case False
      with q other show ?thesis by blast
    qed
  qed
  show "uf_extends uf uf'"
    unfolding uf_extends_def
  proof (intro conjI allI impI len)
    fix k u assume "uf_find_ref uf k = Some u"
    then obtain q where q: "leads uf k q" and u: "u = uf_inner uf ! q" by (blast dest: uf_find_ref_SomeD)
    show "case var_index u of None \<Rightarrow> uf_find_ref uf' k = Some u | Some r \<Rightarrow> uf_find_ref uf' k = uf_find_ref uf' r"
    proof (cases "q = r")
      case False
      from other [OF q False] u have "uf_find_ref uf' k = Some u" using uf_find_ref_leads by fastforce
      moreover have "uf_find_ref uf' q = Some u"
        using other [of q q] False leads_range [OF q] u uf_find_ref_leads
        by (metis leads_here)
      ultimately show ?thesis using leads_var_index [OF q] u by auto
    next
      case True
      with u root have "var_index u = Some r" by simp
      with via q True show ?thesis by simp
    qed
  qed
  show "uf_find_ref uf' r = (case var_index t of None \<Rightarrow> Some t | Some j \<Rightarrow> uf_find_ref uf j)" by (rule ans)
qed

end
