(* ===== verification/Unify.thy ===== *)
theory Unify
  imports Union_Find
begin

text \<open>
  Unification, from \<open>src/src/typechecker/mod.rs\<close> (\<open>unify\<close>, \<open>unify_inner\<close>, \<open>unify_intvars\<close>,
  \<open>unify_fields\<close>, \<open>resolve_type\<close>).  The state is the union-find structure, the environment the type
  definitions of the names.  The code has no occurs check and can recurse for ever on a cyclic type:
  \<open>unify_inner\<close> takes fuel, and \<open>None\<close> is an \<open>ice!\<close>, another panic, or too little of it.  The inner
  option is the code's: \<open>None\<close> for types that do not unify, with the bindings made so far kept.
\<close>

type_synonym tenv = "resolved_name \<Rightarrow> type_definition option"
type_synonym 'a unify = "(union_find \<times> 'a option) option"

definition and_then :: "'a unify \<Rightarrow> (union_find \<Rightarrow> 'a \<Rightarrow> 'b unify) \<Rightarrow> 'b unify" where
  "and_then m f = (case m of
     None \<Rightarrow> None
   | Some (uf, None) \<Rightarrow> Some (uf, None)
   | Some (uf, Some x) \<Rightarrow> f uf x)"

definition resolve_type :: "union_find \<Rightarrow> rtype \<Rightarrow> (union_find \<times> rtype) option" where
  "resolve_type uf t = (case var_index t of Some x \<Rightarrow> uf_find uf x | None \<Rightarrow> Some (uf, t))"

text \<open>Bind variable \<open>i\<close> to \<open>t\<close> and answer \<open>t\<close>.\<close>

definition bind_var :: "union_find \<Rightarrow> nat \<Rightarrow> rtype \<Rightarrow> rtype unify" where
  "bind_var uf i t = map_option (\<lambda>uf'. (uf', Some t)) (uf_set uf i t)"

definition unify_intvars ::
  "union_find \<Rightarrow> nat \<Rightarrow> must_be_signed \<Rightarrow> nat \<Rightarrow> must_be_signed \<Rightarrow> rtype unify" where
  "unify_intvars uf a a_signed b b_signed =
     (if a_signed = SignedYes \<and> b_signed = SignedNo then bind_var uf b (TIntVar a a_signed)
      else bind_var uf a (TIntVar b b_signed))"

definition unify_int_name ::
  "tenv \<Rightarrow> union_find \<Rightarrow> nat \<Rightarrow> must_be_signed \<Rightarrow> type_name \<Rightarrow> rtype unify" where
  "unify_int_name env uf b s name =
     (if tn_arguments name \<noteq> [] then Some (uf, None)
      else case env (tn_name name) of
          None \<Rightarrow> None
        | Some type_def \<Rightarrow>
            (let correct = (if s = SignedYes then is_signed_int type_def else is_int type_def)
             in if \<not> correct then Some (uf, None) else bind_var uf b (TName name)))"

definition unify_float_name :: "tenv \<Rightarrow> union_find \<Rightarrow> nat \<Rightarrow> type_name \<Rightarrow> rtype unify" where
  "unify_float_name env uf b name =
     (if tn_arguments name \<noteq> [] then Some (uf, None)
      else case env (tn_name name) of
          None \<Rightarrow> None
        | Some type_def \<Rightarrow> if \<not> is_float type_def then Some (uf, None) else bind_var uf b (TName name))"

text \<open>The loops, over the function that unifies two types.\<close>

fun unify_all ::
  "(union_find \<Rightarrow> rtype \<Rightarrow> rtype \<Rightarrow> rtype unify) \<Rightarrow> union_find \<Rightarrow> (rtype \<times> rtype) list \<Rightarrow> unit unify" where
  "unify_all u uf [] = Some (uf, Some ())"
| "unify_all u uf ((a, b) # ps) = and_then (u uf a b) (\<lambda>uf _. unify_all u uf ps)"

fun unify_fields_loop ::
  "(union_find \<Rightarrow> rtype \<Rightarrow> rtype \<Rightarrow> rtype unify) \<Rightarrow> union_find \<Rightarrow> fields \<Rightarrow> fields \<Rightarrow> fields unify" where
  "unify_fields_loop u uf [] b_fields = Some (uf, Some [])"
| "unify_fields_loop u uf ((name, a_ty) # a_fields) b_fields =
     (case position (\<lambda>(n, _). node n = node name) b_fields of
        None \<Rightarrow> Some (uf, None)
      | Some idx \<Rightarrow>
          and_then (u uf a_ty (snd (b_fields ! idx))) (\<lambda>uf t.
          and_then (unify_fields_loop u uf a_fields (take idx b_fields @ drop (Suc idx) b_fields)) (\<lambda>uf rest.
            Some (uf, Some ((name, t) # rest)))))"

definition unify_fields ::
  "(union_find \<Rightarrow> rtype \<Rightarrow> rtype \<Rightarrow> rtype unify) \<Rightarrow> union_find \<Rightarrow> fields \<Rightarrow> fields \<Rightarrow> fields unify" where
  "unify_fields u uf a_fields b_fields =
     (if length a_fields \<noteq> length b_fields then Some (uf, None)
      else unify_fields_loop u uf a_fields b_fields)"

definition unify_record_name ::
  "(union_find \<Rightarrow> rtype \<Rightarrow> rtype \<Rightarrow> rtype unify) \<Rightarrow> tenv \<Rightarrow> union_find \<Rightarrow> nat \<Rightarrow> fields \<Rightarrow> type_name
     \<Rightarrow> rtype unify" where
  "unify_record_name u env uf var fs name =
     (case env (tn_name name) of
        None \<Rightarrow> None
      | Some type_def \<Rightarrow>
          (case record_fields type_def (tn_arguments name) of
             None \<Rightarrow> None
           | Some None \<Rightarrow> Some (uf, None)
           | Some (Some named_fields) \<Rightarrow>
               and_then (unify_fields u uf fs named_fields) (\<lambda>uf _. bind_var uf var (TName name))))"

text \<open>The match of \<open>unify_inner\<close> on the two resolved types, arm by arm.\<close>

definition unify_resolved ::
  "(union_find \<Rightarrow> rtype \<Rightarrow> rtype \<Rightarrow> rtype unify) \<Rightarrow> tenv \<Rightarrow> union_find \<Rightarrow> rtype \<Rightarrow> rtype \<Rightarrow> rtype unify" where
  "unify_resolved u env uf ta tb =
     (if ta = tb then Some (uf, Some ta)
      else case (ta, tb) of
        (TExplicitVar _, _) \<Rightarrow> None
      | (_, TExplicitVar _) \<Rightarrow> None
      | (TNever, x) \<Rightarrow> Some (uf, Some x)
      | (x, TNever) \<Rightarrow> Some (uf, Some x)
      | (TIntVar a a_signed, TIntVar b b_signed) \<Rightarrow> unify_intvars uf a a_signed b b_signed
      | (TIntVar b s, TName name) \<Rightarrow> unify_int_name env uf b s name
      | (TName name, TIntVar b s) \<Rightarrow> unify_int_name env uf b s name
      | (TFloatVar a, TFloatVar b) \<Rightarrow> bind_var uf a (TFloatVar b)
      | (TFloatVar b, TName name) \<Rightarrow> unify_float_name env uf b name
      | (TName name, TFloatVar b) \<Rightarrow> unify_float_name env uf b name
      | (TVar a, b) \<Rightarrow> bind_var uf a b
      | (a, TVar b) \<Rightarrow> bind_var uf b a
      | (TRecordVar a_var a_fields, TRecordVar b_var b_fields) \<Rightarrow>
          and_then (unify_fields u uf a_fields b_fields) (\<lambda>uf _. bind_var uf a_var tb)
      | (TRecordVar a_var a_fields, TRecord b_fields) \<Rightarrow>
          and_then (unify_fields u uf a_fields b_fields) (\<lambda>uf _. bind_var uf a_var tb)
      | (TRecord a_fields, TRecordVar b_var b_fields) \<Rightarrow>
          and_then (unify_fields u uf a_fields b_fields) (\<lambda>uf _. bind_var uf b_var ta)
      | (TRecordVar var fs, TName name) \<Rightarrow> unify_record_name u env uf var fs name
      | (TName name, TRecordVar var fs) \<Rightarrow> unify_record_name u env uf var fs name
      | (TName a, TName b) \<Rightarrow>
          if tn_name a \<noteq> tn_name b then Some (uf, None)
          else and_then (unify_all u uf (zip (tn_arguments a) (tn_arguments b)))
                 (\<lambda>uf _. Some (uf, Some (TName b)))
      | (TFunction a_params a_ret, TFunction b_params b_ret) \<Rightarrow>
          and_then (unify_all u uf (zip a_params b_params)) (\<lambda>uf _.
          and_then (u uf a_ret b_ret) (\<lambda>uf _. Some (uf, Some tb)))
      | _ \<Rightarrow> Some (uf, None))"

fun unify_inner :: "nat \<Rightarrow> tenv \<Rightarrow> union_find \<Rightarrow> rtype \<Rightarrow> rtype \<Rightarrow> rtype unify" where
  "unify_inner 0 env uf a b = None"
| "unify_inner (Suc n) env uf a b = do {
     (uf1, ta) \<leftarrow> resolve_type uf a;
     (uf2, tb) \<leftarrow> resolve_type uf1 b;
     unify_resolved (unify_inner n env) env uf2 ta tb }"

text \<open>The error of a failed unification carries the two resolved types.\<close>

datatype unify_error = MismatchedTypes rtype rtype

definition unify ::
  "nat \<Rightarrow> tenv \<Rightarrow> union_find \<Rightarrow> rtype \<Rightarrow> rtype \<Rightarrow> (union_find \<times> (unify_error + rtype)) option" where
  "unify n env uf a b = do {
     (uf1, r) \<leftarrow> unify_inner n env uf a b;
     (case r of
        Some ty \<Rightarrow> Some (uf1, Inr ty)
      | None \<Rightarrow> do {
          (uf2, a') \<leftarrow> resolve_type uf1 a;
          (uf3, b') \<leftarrow> resolve_type uf2 b;
          Some (uf3, Inl (MismatchedTypes a' b')) }) }"

section \<open>Agreement\<close>

definition resolve_ref :: "union_find \<Rightarrow> rtype \<Rightarrow> rtype option" where
  "resolve_ref uf t = (case var_index t of Some x \<Rightarrow> uf_find_ref uf x | None \<Rightarrow> Some t)"

text \<open>
  What unification establishes: under the bindings, the two types are the same, or one of them is
  \<open>!\<close>, or they are built by the same constructor from arguments that agree (paired as \<open>zip\<close> pairs them).
\<close>

inductive agree :: "union_find \<Rightarrow> rtype \<Rightarrow> rtype \<Rightarrow> bool" for uf where
  agree_same: "resolve_ref uf a = Some t \<Longrightarrow> resolve_ref uf b = Some t \<Longrightarrow> agree uf a b"
| agree_never_l: "resolve_ref uf a = Some TNever \<Longrightarrow> resolve_ref uf b = Some t \<Longrightarrow> agree uf a b"
| agree_never_r: "resolve_ref uf a = Some t \<Longrightarrow> resolve_ref uf b = Some TNever \<Longrightarrow> agree uf a b"
| agree_name: "resolve_ref uf a = Some (TName m) \<Longrightarrow> resolve_ref uf b = Some (TName n) \<Longrightarrow>
    tn_name m = tn_name n \<Longrightarrow> \<forall>(x, y) \<in> set (zip (tn_arguments m) (tn_arguments n)). agree uf x y \<Longrightarrow>
    agree uf a b"
| agree_function: "resolve_ref uf a = Some (TFunction ps r) \<Longrightarrow> resolve_ref uf b = Some (TFunction qs s) \<Longrightarrow>
    \<forall>(x, y) \<in> set (zip ps qs). agree uf x y \<Longrightarrow> agree uf r s \<Longrightarrow> agree uf a b"

lemma resolve_ref_extends:
  assumes "uf_extends uf uf'" and "uf_ok uf'" and "resolve_ref uf t = Some t'"
  shows "var_index t' = None \<Longrightarrow> resolve_ref uf' t = Some t'"
    and "var_index t' = Some r \<Longrightarrow> resolve_ref uf' t = uf_find_ref uf' r"
    and "\<exists>t''. resolve_ref uf' t = Some t''"
proof -
  show n: "resolve_ref uf' t = Some t'" if "var_index t' = None"
    using that assms uf_extendsD(1) [OF assms(1)]
    by (auto simp: resolve_ref_def split: option.splits)
  show v: "resolve_ref uf' t = uf_find_ref uf' r" if "var_index t' = Some r" for r
    using that assms uf_extendsD(2) [OF assms(1)]
    by (auto simp: resolve_ref_def split: option.splits)
  show "\<exists>t''. resolve_ref uf' t = Some t''"
  proof (cases "var_index t")
    case None
    then show ?thesis by (simp add: resolve_ref_def)
  next
    case (Some x)
    with assms(3) have "uf_find_ref uf x = Some t'" by (simp add: resolve_ref_def)
    then obtain q where "leads uf x q" by (blast dest: uf_find_ref_SomeD)
    then have "x < length (uf_inner uf')" using leads_range assms(1) by (simp add: uf_extends_def)
    with uf_ok_leads [OF assms(2)] uf_find_ref_leads Some show ?thesis
      by (fastforce simp: resolve_ref_def)
  qed
qed

lemma agree_extends:
  assumes "agree uf a b" and "uf_extends uf uf'" and "uf_ok uf'"
  shows "agree uf' a b"
  using assms(1)
proof induction
  case (agree_same a t b)
  have "resolve_ref uf' a = resolve_ref uf' b"
  proof (cases "var_index t")
    case None
    with resolve_ref_extends(1) [OF assms(2,3)] agree_same show ?thesis by simp
  next
    case (Some r)
    with resolve_ref_extends(2) [OF assms(2,3)] agree_same show ?thesis by simp
  qed
  with resolve_ref_extends(3) [OF assms(2,3) agree_same(1)] show ?case
    by (auto intro: agree.agree_same)
next
  case (agree_never_l a b t)
  have "resolve_ref uf' a = Some TNever"
    using resolve_ref_extends(1) [OF assms(2,3) agree_never_l(1)] by simp
  with resolve_ref_extends(3) [OF assms(2,3) agree_never_l(2)] show ?case
    by (auto intro: agree.agree_never_l)
next
  case (agree_never_r a t b)
  have "resolve_ref uf' b = Some TNever"
    using resolve_ref_extends(1) [OF assms(2,3) agree_never_r(2)] by simp
  with resolve_ref_extends(3) [OF assms(2,3) agree_never_r(1)] show ?case
    by (auto intro: agree.agree_never_r)
next
  case (agree_name a m b n)
  with resolve_ref_extends(1) [OF assms(2,3)] have
    "resolve_ref uf' a = Some (TName m)" "resolve_ref uf' b = Some (TName n)" by simp_all
  from agree.agree_name [OF this agree_name(3)] agree_name(4) show ?case by auto
next
  case (agree_function a ps r b qs s)
  with resolve_ref_extends(1) [OF assms(2,3)] have
    "resolve_ref uf' a = Some (TFunction ps r)" "resolve_ref uf' b = Some (TFunction qs s)" by simp_all
  from agree.agree_function [OF this] agree_function show ?case by auto
qed

text \<open>The types without record variables, for which unification is sound unconditionally.\<close>

fun rv_free :: "rtype \<Rightarrow> bool" where
  "rv_free (TRecordVar _ _) = False"
| "rv_free (TRecord fs) = (\<forall>(n, t) \<in> set fs. rv_free t)"
| "rv_free (TFunction ps r) = ((\<forall>t \<in> set ps. rv_free t) \<and> rv_free r)"
| "rv_free (TName (TypeName n args)) = (\<forall>t \<in> set args. rv_free t)"
| "rv_free _ = True"

definition uf_rv_free :: "union_find \<Rightarrow> bool" where
  "uf_rv_free uf \<longleftrightarrow> (\<forall>t \<in> set (uf_inner uf). rv_free t)"

lemma uf_find_rv_free:
  "uf_find uf i = Some (uf', t) \<Longrightarrow> uf_rv_free uf \<Longrightarrow> uf_rv_free uf' \<and> rv_free t"
proof (induction uf i "(uf', t)" arbitrary: uf' t rule: uf_find.raw_induct [rotated, consumes 1])
  case (1 g uf i)
  show ?case
  proof (cases "link uf i")
    case None
    with 1(2) have "i < length (uf_inner uf) \<and> t = uf_inner uf ! i \<and> uf' = uf"
      by (auto simp: link_def index_def split: option.splits if_splits)
    with 1(3) show ?thesis by (simp add: uf_rv_free_def)
  next
    case (Some j)
    with 1(2) obtain uf1 where "g uf j = Some (uf1, t)" and uf': "uf' = uf1\<lparr>uf_inner := (uf_inner uf1)[i := t]\<rparr>"
      by (auto simp: link_def bind_eq_Some_conv split: option.splits if_splits)
    from 1(1) [OF this(1) 1(3)] show ?thesis
      using set_update_subset_insert [of "uf_inner uf1" i t] by (auto simp: uf_rv_free_def uf')
  qed
qed

text \<open>A type as \<open>resolve_type\<close> answers it: not a variable, or an unbound one.\<close>

definition resolved :: "union_find \<Rightarrow> rtype \<Rightarrow> bool" where
  "resolved uf t \<longleftrightarrow> resolve_ref uf t = Some t"

lemma resolved_var:
  assumes "resolved uf t" and "var_index t = Some i"
  shows "i < length (uf_inner uf)" and "uf_inner uf ! i = t" and "leads uf i i"
proof -
  from assms have "uf_find_ref uf i = Some t" by (simp add: resolved_def resolve_ref_def)
  then obtain r where r: "leads uf i r" "t = uf_inner uf ! r" by (blast dest: uf_find_ref_SomeD)
  with leads_var_index [OF r(1)] assms(2) have "r = i" by simp
  with r leads_range [OF r(1)] show "i < length (uf_inner uf)" "uf_inner uf ! i = t" "leads uf i i" by auto
qed

lemma resolve_type_result:
  assumes "resolve_type uf t = Some (uf', t')" and "uf_ok uf" and "uf_rv_free uf" and "rv_free t"
  shows "same_answers uf uf'" and "uf_ok uf'" and "uf_rv_free uf'" and "rv_free t'"
    and "resolve_ref uf t = Some t'" and "resolved uf' t'"
proof -
  have "same_answers uf uf' \<and> uf_rv_free uf' \<and> rv_free t' \<and> resolve_ref uf t = Some t' \<and> resolved uf t'"
  proof (cases "var_index t")
    case None
    with assms show ?thesis by (simp add: resolve_type_def resolve_ref_def resolved_def)
  next
    case (Some x)
    with assms have f: "uf_find uf x = Some (uf', t')" by (simp add: resolve_type_def)
    note res = uf_find_result [OF f]
    obtain r where r: "leads uf x r" "t' = uf_inner uf ! r" using res(3) by blast
    have "resolved uf t'"
    proof (cases "var_index t'")
      case (Some i)
      with r leads_var_index [OF r(1)] have "i = r" by simp
      with r leads_range [OF r(1)] Some show ?thesis
        by (simp add: resolved_def resolve_ref_def uf_find_ref_root)
    qed (simp add: resolved_def resolve_ref_def)
    with res Some uf_find_rv_free [OF f assms(3)] show ?thesis by (simp add: resolve_ref_def)
  qed
  then show "same_answers uf uf'" "uf_rv_free uf'" "rv_free t'" "resolve_ref uf t = Some t'" by auto
  then show "uf_ok uf'" using same_answers_ok assms(2) by blast
  show "resolved uf' t'"
    using \<open>same_answers uf uf' \<and> _\<close>
    by (auto simp: resolved_def resolve_ref_def same_answers_def split: option.splits)
qed

section \<open>Soundness\<close>

definition unified :: "union_find \<Rightarrow> rtype \<Rightarrow> rtype \<Rightarrow> union_find \<Rightarrow> rtype option \<Rightarrow> bool" where
  "unified uf a b uf' r \<longleftrightarrow>
     uf_ok uf' \<and> uf_rv_free uf' \<and> uf_extends uf uf' \<and> (r \<noteq> None \<longrightarrow> agree uf' a b)"

lemma unified_refl: "uf_ok uf \<Longrightarrow> uf_rv_free uf \<Longrightarrow> unified uf a b uf None"
  by (simp add: unified_def)

lemma bind_var_unified:
  assumes b: "bind_var uf i u = Some (uf', r)" and ok: "uf_ok uf" "uf_rv_free uf" "rv_free u"
    and t: "resolved uf t" "var_index t = Some i" and u: "resolved uf u" "u \<noteq> t"
  shows "unified uf t u uf' r" and "unified uf u t uf' r"
proof -
  from b have set: "uf_set uf i u = Some uf'" by (auto simp: bind_var_def)
  note it = resolved_var [OF t]
  have root: "var_index (uf_inner uf ! i) = Some i" using it t by simp
  have dst: "var_index u = None \<or> (\<exists>j s. var_index u = Some j \<and> leads uf j s \<and> s \<noteq> i)"
  proof (cases "var_index u")
    case (Some j)
    from resolved_var [OF u(1) Some] it(2) u(2) have "j \<noteq> i" "leads uf j j" by auto
    with Some show ?thesis by blast
  qed simp
  note bound = set_root [OF ok(1) it(1) root dst set]
  have uf': "uf' = uf\<lparr>uf_inner := (uf_inner uf)[i := u]\<rparr>"
    using set it by (simp add: uf_set_def)
  have rv: "uf_rv_free uf'"
    using ok(2,3) set_update_subset_insert [of "uf_inner uf" i u] by (auto simp: uf_rv_free_def uf')
  have "uf_find_ref uf' i = resolve_ref uf' u"
  proof (cases "var_index u")
    case None
    with bound(3) show ?thesis by (simp add: resolve_ref_def)
  next
    case (Some j)
    from resolved_var [OF u(1) Some] it(2) u(2) have "j \<noteq> i" by auto
    with Some it(1) have "link uf' i = Some j" by (simp add: uf' link_update)
    with Some show ?thesis by (simp add: uf_find_ref_step resolve_ref_def)
  qed
  with t have eq: "resolve_ref uf' t = resolve_ref uf' u" by (simp add: resolve_ref_def)
  obtain v where "resolve_ref uf' u = Some v"
    using resolve_ref_extends(3) [OF bound(2,1)] u(1) by (auto simp: resolved_def)
  with eq have "agree uf' t u" "agree uf' u t" by (auto intro: agree_same)
  with bound rv show "unified uf t u uf' r" and "unified uf u t uf' r" by (simp_all add: unified_def)
qed

definition sound_unifier :: "(union_find \<Rightarrow> rtype \<Rightarrow> rtype \<Rightarrow> rtype unify) \<Rightarrow> bool" where
  "sound_unifier u \<longleftrightarrow> (\<forall>uf a b uf' r. u uf a b = Some (uf', r) \<longrightarrow> uf_ok uf \<longrightarrow> uf_rv_free uf \<longrightarrow>
     rv_free a \<longrightarrow> rv_free b \<longrightarrow> unified uf a b uf' r)"

lemma and_then_Some:
  "and_then m f = Some (uf', r) \<longleftrightarrow>
     (m = Some (uf', None) \<and> r = None) \<or> (\<exists>uf x. m = Some (uf, Some x) \<and> f uf x = Some (uf', r))"
  by (auto simp: and_then_def split: option.splits)

lemma unify_all_sound:
  assumes "sound_unifier u"
  shows "unify_all u uf ps = Some (uf', r) \<Longrightarrow> uf_ok uf \<Longrightarrow> uf_rv_free uf \<Longrightarrow>
    \<forall>(a, b) \<in> set ps. rv_free a \<and> rv_free b \<Longrightarrow>
    uf_ok uf' \<and> uf_rv_free uf' \<and> uf_extends uf uf' \<and> (r \<noteq> None \<longrightarrow> (\<forall>(a, b) \<in> set ps. agree uf' a b))"
proof (induction ps arbitrary: uf)
  case (Cons p ps)
  obtain a b where p: "p = (a, b)" by (cases p)
  with Cons.prems(4) have rv: "rv_free a" "rv_free b" by auto
  from Cons.prems(1) p consider "u uf a b = Some (uf', None)" "r = None"
    | uf1 x where "u uf a b = Some (uf1, Some x)" "unify_all u uf1 ps = Some (uf', r)"
    by (auto simp: and_then_Some)
  then show ?case
  proof cases
    case 1
    with assms Cons.prems(2,3) rv have "unified uf a b uf' None"
      unfolding sound_unifier_def by blast
    with 1 show ?thesis by (simp add: unified_def)
  next
    case 2
    with assms Cons.prems(2,3) rv have un: "unified uf a b uf1 (Some x)"
      unfolding sound_unifier_def by blast
    then have IH: "uf_ok uf' \<and> uf_rv_free uf' \<and> uf_extends uf1 uf' \<and>
        (r \<noteq> None \<longrightarrow> (\<forall>(a, b) \<in> set ps. agree uf' a b))"
      using Cons.IH [OF 2(2)] Cons.prems(4) by (simp add: unified_def)
    have "agree uf' a b"
      using agree_extends [of uf1 a b uf'] un IH by (simp add: unified_def)
    moreover have "uf_extends uf uf'"
      using uf_extends_trans [of uf uf1 uf'] un IH by (simp add: unified_def)
    ultimately show ?thesis using IH p by auto
  qed
qed simp

lemma rv_free_name [simp]: "rv_free (TName n) \<longleftrightarrow> (\<forall>t \<in> set (tn_arguments n). rv_free t)"
  by (cases n) simp

text \<open>Without record variables every arm fails, binds a variable to the other type, or descends.\<close>

lemma unify_resolved_arms:
  assumes "unify_resolved u env uf ta tb = Some (uf', r)" and "ta \<noteq> tb"
    and "rv_free ta" and "rv_free tb"
  shows "(r = None \<and> uf' = uf) \<or> ((ta = TNever \<or> tb = TNever) \<and> uf' = uf) \<or>
    (\<exists>i. var_index ta = Some i \<and> bind_var uf i tb = Some (uf', r)) \<or>
    (\<exists>i. var_index tb = Some i \<and> bind_var uf i ta = Some (uf', r)) \<or>
    (\<exists>m n. ta = TName m \<and> tb = TName n) \<or>
    (\<exists>ps s qs s'. ta = TFunction ps s \<and> tb = TFunction qs s')"
proof (cases ta)
  case (TIntVar i s)
  with assms show ?thesis
    by (cases tb) (simp_all add: unify_resolved_def unify_intvars_def unify_int_name_def Let_def
        split: if_splits option.splits)
next
  case (TFloatVar i)
  with assms show ?thesis
    by (cases tb) (simp_all add: unify_resolved_def unify_float_name_def Let_def
        split: if_splits option.splits)
next
  case (TName n)
  with assms show ?thesis
    by (cases tb) (simp_all add: unify_resolved_def unify_int_name_def unify_float_name_def Let_def
        split: if_splits option.splits)
next
  case (TVar i)
  with assms show ?thesis by (cases tb) (simp_all add: unify_resolved_def)
next
  case (TExplicitVar x)
  with assms show ?thesis by (cases tb) (simp_all add: unify_resolved_def)
next
  case TUnit
  with assms show ?thesis by (cases tb) (simp_all add: unify_resolved_def)
next
  case TNever
  with assms show ?thesis by (cases tb) (simp_all add: unify_resolved_def)
next
  case (TRecord fs)
  with assms show ?thesis by (cases tb) (simp_all add: unify_resolved_def)
next
  case (TFunction ps q)
  with assms show ?thesis by (cases tb) (simp_all add: unify_resolved_def)
next
  case (TRecordVar i fs)
  with assms(3) show ?thesis by simp
qed

lemma unify_resolved_simps:
  "unify_resolved u env uf t t = Some (uf, Some t)"
  "m \<noteq> n \<Longrightarrow> unify_resolved u env uf (TName m) (TName n) =
     (if tn_name m \<noteq> tn_name n then Some (uf, None)
      else and_then (unify_all u uf (zip (tn_arguments m) (tn_arguments n))) (\<lambda>uf _. Some (uf, Some (TName n))))"
  "TFunction ps s \<noteq> TFunction qs s' \<Longrightarrow> unify_resolved u env uf (TFunction ps s) (TFunction qs s') =
     and_then (unify_all u uf (zip ps qs)) (\<lambda>uf _.
     and_then (u uf s s') (\<lambda>uf _. Some (uf, Some (TFunction qs s'))))"
  by (auto simp: unify_resolved_def)

lemma unify_resolved_sound:
  assumes u: "sound_unifier u" and res: "unify_resolved u env uf ta tb = Some (uf', r)"
    and ok: "uf_ok uf" "uf_rv_free uf" and rv: "rv_free ta" "rv_free tb"
    and rs: "resolved uf ta" "resolved uf tb"
  shows "unified uf ta tb uf' r"
proof (cases "ta = tb")
  case True
  have "agree uf tb tb" using rs(2) by (auto simp: resolved_def intro: agree_same)
  with res ok True show ?thesis by (auto simp: unify_resolved_simps unified_def)
next
  case ne: False
  from unify_resolved_arms [OF res ne rv] consider
      (fail) "r = None" "uf' = uf" | (never) "ta = TNever \<or> tb = TNever" "uf' = uf"
    | (left) i where "var_index ta = Some i" "bind_var uf i tb = Some (uf', r)"
    | (right) i where "var_index tb = Some i" "bind_var uf i ta = Some (uf', r)"
    | (names) m n where "ta = TName m" "tb = TName n"
    | (funs) ps s qs s' where "ta = TFunction ps s" "tb = TFunction qs s'"
    by blast
  then show ?thesis
  proof cases
    case fail
    with ok show ?thesis by (simp add: unified_refl)
  next
    case never
    have "agree uf ta tb"
    proof (cases "ta = TNever")
      case True
      with rs show ?thesis unfolding resolved_def by (intro agree_never_l) simp_all
    next
      case False
      with never rs show ?thesis unfolding resolved_def by (intro agree_never_r) simp_all
    qed
    with never ok show ?thesis by (simp add: unified_def)
  next
    case left
    show ?thesis by (rule bind_var_unified(1) [OF left(2) ok rv(2) rs(1) left(1) rs(2)]) (use ne in auto)
  next
    case right
    show ?thesis by (rule bind_var_unified(2) [OF right(2) ok rv(1) rs(2) right(1) rs(1)]) (use ne in auto)
  next
    case names
    from res ne names consider "r = None" "uf' = uf"
      | x where "tn_name m = tn_name n"
        "unify_all u uf (zip (tn_arguments m) (tn_arguments n)) = Some (uf', x)"
        "r = None \<longleftrightarrow> x = None"
      by (auto simp: unify_resolved_simps and_then_Some split: if_splits)
    then show ?thesis
    proof cases
      case 1
      with ok show ?thesis by (simp add: unified_refl)
    next
      case 2
      have "\<forall>(a, b) \<in> set (zip (tn_arguments m) (tn_arguments n)). rv_free a \<and> rv_free b"
        using rv names by (auto dest: set_zip_leftD set_zip_rightD)
      note all = unify_all_sound [OF u 2(2) ok this]
      have "agree uf' ta tb" if "r \<noteq> None"
      proof (rule agree_name)
        show "resolve_ref uf' ta = Some (TName m)" "resolve_ref uf' tb = Some (TName n)"
          using names by (simp_all add: resolve_ref_def)
      qed (use 2 that all in simp_all)
      with all show ?thesis by (simp add: unified_def)
    qed
  next
    case funs
    let ?ps = "zip ps qs"
    have rvs: "\<forall>(a, b) \<in> set ?ps. rv_free a \<and> rv_free b"
      using rv funs by (auto dest: set_zip_leftD set_zip_rightD)
    from res ne funs consider "unify_all u uf ?ps = Some (uf', None)" "r = None"
      | uf1 x where "unify_all u uf ?ps = Some (uf1, Some ())" "u uf1 s s' = Some (uf', x)"
        "r = None \<longleftrightarrow> x = None"
      by (auto simp: unify_resolved_simps and_then_Some)
    then show ?thesis
    proof cases
      case 1
      from unify_all_sound [OF u 1(1) ok rvs] 1(2) show ?thesis by (simp add: unified_def)
    next
      case 2
      have all: "uf_ok uf1 \<and> uf_rv_free uf1 \<and> uf_extends uf uf1 \<and> (\<forall>(a, b) \<in> set ?ps. agree uf1 a b)"
        using unify_all_sound [OF u 2(1) ok rvs] by simp
      have un: "unified uf1 s s' uf' x"
        using u 2(2) all rv funs unfolding sound_unifier_def by simp
      have ext: "uf_extends uf1 uf'" "uf_ok uf'" using un by (auto simp: unified_def)
      have "uf_extends uf uf'" using uf_extends_trans all ext(1) by blast
      moreover have "agree uf' ta tb" if "r \<noteq> None"
      proof (rule agree_function)
        show "resolve_ref uf' ta = Some (TFunction ps s)" "resolve_ref uf' tb = Some (TFunction qs s')"
          using funs by (simp_all add: resolve_ref_def)
        show "\<forall>(a, b) \<in> set ?ps. agree uf' a b" using all agree_extends [OF _ ext] by auto
        show "agree uf' s s'" using un that 2(3) by (simp add: unified_def)
      qed
      ultimately show ?thesis using un by (simp add: unified_def)
    qed
  qed
qed

lemma agree_resolved:
  assumes "agree uf ta tb" and "resolve_ref uf a = resolve_ref uf ta" and "resolve_ref uf b = resolve_ref uf tb"
  shows "agree uf a b"
  using assms by (cases rule: agree.cases) (auto intro: agree.intros)

lemma unify_inner_sound: "sound_unifier (unify_inner n env)"
proof (induction n)
  case 0
  show ?case by (simp add: sound_unifier_def)
next
  case (Suc n)
  show ?case
    unfolding sound_unifier_def
  proof (intro allI impI)
    fix uf a b uf' r
    assume res: "unify_inner (Suc n) env uf a b = Some (uf', r)"
      and ok: "uf_ok uf" "uf_rv_free uf" and rv: "rv_free a" "rv_free b"
    from res obtain uf1 ta uf2 tb where a: "resolve_type uf a = Some (uf1, ta)"
      and b: "resolve_type uf1 b = Some (uf2, tb)"
      and match: "unify_resolved (unify_inner n env) env uf2 ta tb = Some (uf', r)"
      by (auto simp: bind_eq_Some_conv)
    note ra = resolve_type_result [OF a ok rv(1)]
    note rb = resolve_type_result [OF b ra(2,3) rv(2)]
    have same: "same_answers uf uf2" using ra(1) rb(1) by (rule same_answers_trans)
    have ta: "resolved uf2 ta"
      using ra(6) rb(1) by (auto simp: resolved_def resolve_ref_def same_answers_def split: option.splits)
    from unify_resolved_sound [OF Suc.IH match rb(2,3) ra(4) rb(4) ta rb(6)]
    have un: "unified uf2 ta tb uf' r" .
    have ext: "uf_extends uf uf'"
      using uf_extends_trans [OF same_answers_extends [OF same]] un rb(2) by (simp add: unified_def)
    have ok': "uf_ok uf'" using un by (simp add: unified_def)
    have follow: "resolve_ref uf' t = resolve_ref uf' v" if "resolve_ref uf t = Some v" for t v
      using resolve_ref_extends(1,2) [OF ext ok' that]
      by (cases "var_index v") (simp_all add: resolve_ref_def [of _ v])
    have "resolve_ref uf b = Some tb"
      using rb(5) ra(1) by (auto simp: resolve_ref_def same_answers_def split: option.splits)
    from agree_resolved [OF _ follow [OF ra(5)] follow [OF this]] un ext
    show "unified uf a b uf' r" by (simp add: unified_def)
  qed
qed

text \<open>
  C1. For types and stores without record variables (the open types of record literals): when unification answers with
  a type, the bindings it has made let the two types agree, that is they are the same type, or one of them is \<open>!\<close>,
  which agrees with every type, or they have the same name or function shape with arguments that agree.  Whether it
  answers or not, no link is cyclic afterwards and every type bound before keeps its binding.
\<close>

theorem unify_inner_agrees:
  assumes "unify_inner n env uf a b = Some (uf', r)" and "uf_ok uf" and "uf_rv_free uf"
    and "rv_free a" and "rv_free b"
  shows "uf_ok uf' \<and> uf_extends uf uf' \<and> (r \<noteq> None \<longrightarrow> agree uf' a b)"
  using unify_inner_sound [of n env] assms unfolding sound_unifier_def unified_def by blast

lemma two_vars_ok: "uf_ok \<lparr>uf_inner = [TVar 0, TIntVar 1 SignedNo]\<rparr>"
proof -
  let ?uf = "\<lparr>uf_inner = [TVar 0, TIntVar 1 SignedNo]\<rparr>"
  have "leads ?uf 0 0" "leads ?uf 1 1" by (rule leads_here; simp add: link_def index_def)+
  then show ?thesis by (auto simp: uf_ok_def less_Suc_eq)
qed

theorem unify_inner_agrees_witness:
  "\<exists>uf'. uf_ok uf' \<and> agree uf' (TName (TypeName (ResolvedName 0 ''Option'') [TVar 0]))
     (TName (TypeName (ResolvedName 0 ''Option'') [TIntVar 1 SignedNo]))"
proof -
  let ?uf = "\<lparr>uf_inner = [TVar 0, TIntVar 1 SignedNo]\<rparr>"
    and ?uf' = "\<lparr>uf_inner = [TIntVar 1 SignedNo, TIntVar 1 SignedNo]\<rparr>"
    and ?a = "TName (TypeName (ResolvedName 0 ''Option'') [TVar 0])"
    and ?b = "TName (TypeName (ResolvedName 0 ''Option'') [TIntVar 1 SignedNo])"
  have "unify_inner 2 Map.empty ?uf ?a ?b = Some (?uf', Some ?b)"
    by (simp add: numeral_2_eq_2 resolve_type_def unify_resolved_def uf_find.simps index_def
        and_then_def bind_var_def uf_set_def)
  from unify_inner_agrees [OF this two_vars_ok] show ?thesis by (auto simp: uf_rv_free_def)
qed

section \<open>Literals\<close>

text \<open>
  C33. Unifying two integer-literal variables leaves one variable for both, and it must be signed if
  either had to be.
\<close>

theorem unify_intvars_signed:
  assumes "uf_ok uf" and "resolved uf (TIntVar a s)" and "resolved uf (TIntVar b s')" and "a \<noteq> b"
  shows "\<exists>uf' i. unify_intvars uf a s b s' = Some (uf', Some (TIntVar i (if SignedYes \<in> {s, s'} then SignedYes else SignedNo))) \<and>
    uf_ok uf' \<and>
    uf_find_ref uf' a = Some (TIntVar i (if SignedYes \<in> {s, s'} then SignedYes else SignedNo)) \<and>
    uf_find_ref uf' b = Some (TIntVar i (if SignedYes \<in> {s, s'} then SignedYes else SignedNo))"
proof -
  note a = resolved_var [OF assms(2), simplified] and b = resolved_var [OF assms(3), simplified]
  have set: "\<exists>uf'. uf_set uf i (TIntVar j sj) = Some uf' \<and> uf_ok uf' \<and>
      uf_find_ref uf' i = Some (TIntVar j sj) \<and> uf_find_ref uf' j = Some (TIntVar j sj)"
    if i: "i < length (uf_inner uf)" "uf_inner uf ! i = TIntVar i si"
      and j: "leads uf j j" "uf_inner uf ! j = TIntVar j sj" and ij: "i \<noteq> j" for i j si sj
  proof -
    let ?uf = "uf\<lparr>uf_inner := (uf_inner uf)[i := TIntVar j sj]\<rparr>"
    have set: "uf_set uf i (TIntVar j sj) = Some ?uf" using i by (simp add: uf_set_def)
    have dst: "var_index (TIntVar j sj) = None \<or>
        (\<exists>k s. var_index (TIntVar j sj) = Some k \<and> leads uf k s \<and> s \<noteq> i)" using j ij by auto
    have root: "var_index (uf_inner uf ! i) = Some i" using i by simp
    note res = set_root [OF assms(1) i(1) root dst set]
    have fj: "uf_find_ref uf j = Some (TIntVar j sj)" using uf_find_ref_leads [OF j(1)] j(2) by simp
    then have "uf_find_ref ?uf i = Some (TIntVar j sj)" using res(3) by simp
    moreover have "link ?uf i = Some j" using i(1) ij by (simp add: link_update)
    ultimately show ?thesis using set res(1) uf_find_ref_step by metis
  qed
  show ?thesis
  proof (cases "s = SignedYes \<and> s' = SignedNo")
    case True
    with set [OF b(1,2) a(3,2)] assms(4) show ?thesis
      by (auto simp: unify_intvars_def bind_var_def)
  next
    case False
    then have "(if SignedYes \<in> {s, s'} then SignedYes else SignedNo) = s'"
      by (cases s; cases s') auto
    with False set [OF a(1,2) b(3,2)] assms(4) show ?thesis
      by (auto simp: unify_intvars_def bind_var_def)
  qed
qed

theorem unify_intvars_signed_witness:
  "\<exists>uf' i. unify_intvars \<lparr>uf_inner = [TIntVar 0 SignedYes, TIntVar 1 SignedNo]\<rparr> 0 SignedYes 1 SignedNo
     = Some (uf', Some (TIntVar i SignedYes)) \<and> uf_find_ref uf' 1 = Some (TIntVar i SignedYes)"
proof -
  let ?uf = "\<lparr>uf_inner = [TIntVar 0 SignedYes, TIntVar 1 SignedNo]\<rparr>"
  have l: "leads ?uf 0 0" "leads ?uf 1 1" by (rule leads_here; simp add: link_def index_def)+
  then have ok: "uf_ok ?uf" by (auto simp: uf_ok_def less_Suc_eq)
  have r: "resolved ?uf (TIntVar 0 SignedYes)" "resolved ?uf (TIntVar 1 SignedNo)"
    by (simp_all add: resolved_def resolve_ref_def uf_find_ref.simps index_def)
  from unify_intvars_signed [OF ok r] show ?thesis by auto
qed

section \<open>No occurs check\<close>

text \<open>
  C39. There is no occurs check: a variable unifies with a list of itself, and once two variables
  have been bound that way, unifying them with each other does not return for any amount of fuel.
\<close>

definition list_of :: "rtype \<Rightarrow> rtype" where
  "list_of t = TName (TypeName (ResolvedName 0 ''List'') [t])"

theorem unify_cyclic_diverges:
  "unify_inner 1 Map.empty \<lparr>uf_inner = [TVar 0, TVar 1]\<rparr> (TVar 0) (list_of (TVar 0))
     = Some (\<lparr>uf_inner = [list_of (TVar 0), TVar 1]\<rparr>, Some (list_of (TVar 0))) \<and>
   unify_inner 1 Map.empty \<lparr>uf_inner = [list_of (TVar 0), TVar 1]\<rparr> (TVar 1) (list_of (TVar 1))
     = Some (\<lparr>uf_inner = [list_of (TVar 0), list_of (TVar 1)]\<rparr>, Some (list_of (TVar 1))) \<and>
   (\<forall>n. unify_inner n Map.empty \<lparr>uf_inner = [list_of (TVar 0), list_of (TVar 1)]\<rparr> (TVar 0) (TVar 1) = None)"
proof -
  let ?uf = "\<lparr>uf_inner = [list_of (TVar 0), list_of (TVar 1)]\<rparr>"
  have "unify_inner n Map.empty ?uf (TVar 0) (TVar 1) = None" for n
  proof (induction n)
    case (Suc n)
    have "resolve_type ?uf (TVar 0) = Some (?uf, list_of (TVar 0))"
      "resolve_type ?uf (TVar 1) = Some (?uf, list_of (TVar 1))"
      by (simp_all add: resolve_type_def uf_find.simps index_def list_of_def)
    with Suc show ?case
      by (simp add: list_of_def unify_resolved_simps and_then_def)
  qed simp
  then show ?thesis
    by (simp add: resolve_type_def uf_find.simps index_def list_of_def unify_resolved_def bind_var_def
        uf_set_def)
qed

end
