(* ===== verification/Mir_Layout.thy ===== *)
theory Mir_Layout
  imports Mir_Types
begin

text \<open>
  What \<open>Pool::layout_of\<close> computes.  In a pool whose types only refer to older types the recursion
  ends (one unit of fuel more than the reference is enough), the result is \<open>None\<close> exactly for the
  uninhabited types, and an inhabited type gets a valid layout in which its fields fit.
\<close>

section \<open>The references a layout follows\<close>

fun refs_of :: "ty \<Rightarrow> ty_ref list" where
  "refs_of (MRecord fs) = map snd fs"
| "refs_of (MEnum vs) = concat (map snd vs)"
| "refs_of _ = []"

definition wf_pool :: "pool \<Rightarrow> bool" where
  "wf_pool p \<longleftrightarrow> (\<forall>r < length (pool_types p). \<forall>q \<in> set (refs_of (pool_types p ! r)). q < r)"

lemma wf_poolD: "wf_pool p \<Longrightarrow> pool_get p r = Some t \<Longrightarrow> q \<in> set (refs_of t) \<Longrightarrow> q < r"
  by (auto simp: wf_pool_def pool_get_def index_Some_iff)

lemma pool_get_less: "pool_get p r = Some t \<Longrightarrow> r < length (pool_types p)"
  by (auto simp: pool_get_def index_Some_iff)

lemma wf_pool_intern [inv_intros]:
  assumes "wf_pool p" and "\<forall>q \<in> set (refs_of t). q < length (pool_types p)"
  shows "wf_pool (fst (pool_intern p t))"
  using assms by (cases rule: pool_intern_cases [of p t]) (auto simp: wf_pool_def nth_append less_Suc_eq)

lemma add_fields_cong [fundef_cong]:
  assumes "b = b'" and "ts = ts'" and "\<And>t. t \<in> set ts' \<Longrightarrow> lf t = lg t"
  shows "add_fields lf b ts = add_fields lg b' ts'"
proof -
  have "add_fields lf b' ts' = add_fields lg b' ts'"
    using assms(3) by (induction ts' arbitrary: b') (auto split: option.splits bind_split)
  with assms show ?thesis by simp
qed

lemma enum_layout_cong [fundef_cong]:
  assumes "acc = acc'" and "vs = vs'" and "\<And>t. t \<in> set (concat (map snd vs')) \<Longrightarrow> lf t = lg t"
  shows "enum_layout lf acc vs = enum_layout lg acc' vs'"
proof -
  have "enum_layout lf acc' vs' = enum_layout lg acc' vs'"
    using assms(3)
  proof (induction vs' arbitrary: acc')
    case (Cons v vs)
    have "add_fields lf b (snd v) = add_fields lg b (snd v)" for b
      by (rule add_fields_cong) (use Cons.prems in auto)
    then show ?case using Cons by (cases v) (auto split: option.splits bind_split)
  qed simp
  with assms show ?thesis by simp
qed

lemma layout_of_fuel:
  "wf_pool p \<Longrightarrow> r < f \<Longrightarrow> layout_of f pf rt p r = layout_of (Suc r) pf rt p r"
proof (induction r arbitrary: f rule: less_induct)
  case (less r)
  then obtain g where g: "f = Suc g" "r \<le> g" by (cases f) auto
  show ?case
  proof (cases "pool_get p r")
    case None
    then show ?thesis by (simp add: g)
  next
    case (Some t)
    have eq: "layout_of g pf rt p q = layout_of r pf rt p q" if "q \<in> set (refs_of t)" for q
    proof -
      have "q < r" using wf_poolD [OF less.prems(1) Some that] .
      with less.IH [OF this less.prems(1), of g] less.IH [OF this less.prems(1), of r] g
      show ?thesis by simp
    qed
    show ?thesis
    proof (cases t)
      case (MRecord fs)
      with eq have "add_fields (layout_of g pf rt p) builder_new (map snd fs)
          = add_fields (layout_of r pf rt p) builder_new (map snd fs)"
        by (intro add_fields_cong) auto
      with Some MRecord g show ?thesis by simp
    next
      case (MEnum vs)
      with eq have "enum_layout (layout_of g pf rt p) None vs
          = enum_layout (layout_of r pf rt p) None vs"
        by (intro enum_layout_cong) auto
      with Some MEnum g show ?thesis by simp
    qed (use Some g in simp_all)
  qed
qed

section \<open>Inhabited types\<close>

inductive inhabited :: "pool \<Rightarrow> ty_ref \<Rightarrow> bool" for p where
  inh_unit: "pool_get p r = Some MUnit \<Longrightarrow> inhabited p r"
| inh_primitive: "pool_get p r = Some (MPrimitive q) \<Longrightarrow> inhabited p r"
| inh_runtime: "pool_get p r = Some (MRuntime i) \<Longrightarrow> inhabited p r"
| inh_list: "pool_get p r = Some (MList t) \<Longrightarrow> inhabited p r"
| inh_record: "pool_get p r = Some (MRecord fs) \<Longrightarrow> \<forall>t \<in> set (map snd fs). inhabited p t
    \<Longrightarrow> inhabited p r"
| inh_enum: "pool_get p r = Some (MEnum vs) \<Longrightarrow> (n, ts) \<in> set vs \<Longrightarrow> \<forall>t \<in> set ts. inhabited p t
    \<Longrightarrow> inhabited p r"

inductive_cases inhabitedE: "inhabited p r"

lemma inhabited_never: "pool_get p r = Some MNever \<Longrightarrow> \<not> inhabited p r"
  by (auto elim: inhabitedE)

lemma inhabited_record:
  "pool_get p r = Some (MRecord fs) \<Longrightarrow> inhabited p r \<longleftrightarrow> (\<forall>t \<in> set (map snd fs). inhabited p t)"
  by (subst inhabited.simps) simp

lemma inhabited_enum:
  "pool_get p r = Some (MEnum vs) \<Longrightarrow>
     inhabited p r \<longleftrightarrow> (\<exists>v \<in> set vs. \<forall>t \<in> set (snd v). inhabited p t)"
  by (subst inhabited.simps) (auto simp: Bex_def)

lemma map_eq_SomeD:
  "map lf ts = map (\<lambda>l. Some (Some l)) ls \<Longrightarrow> t \<in> set ts \<Longrightarrow> \<exists>l. lf t = Some (Some l)"
  by (induction ts arbitrary: ls) (auto simp: Cons_eq_map_conv)

text \<open>Inverting the two loops: the layouts of the fields, when there is one for each.\<close>

lemma add_fields_None:
  assumes "add_fields lf b ts = Some None"
  shows "\<exists>t \<in> set ts. lf t = Some None"
  using assms by (induction ts arbitrary: b) (fastforce simp: bind_eq_Some_conv split: option.splits)+

lemma add_fields_Some:
  assumes "add_fields lf b ts = Some (Some b')"
  shows "\<exists>ls offs. map lf ts = map (\<lambda>l. Some (Some l)) ls \<and> place b ls = Some (b', offs)"
  using assms
proof (induction ts arbitrary: b)
  case Nil
  then show ?case by simp
next
  case (Cons t ts)
  from Cons.prems obtain l b1 off where l: "lf t = Some (Some l)"
    and add: "builder_add b l = Some (b1, off)" and rest: "add_fields lf b1 ts = Some (Some b')"
    by (auto simp: bind_eq_Some_conv split: option.splits)
  from Cons.IH [OF rest] obtain ls offs where
    ls: "map lf ts = map (\<lambda>l. Some (Some l)) ls" "place b1 ls = Some (b', offs)" by blast
  have "map lf (t # ts) = map (\<lambda>l. Some (Some l)) (l # ls)"
    and "place b (l # ls) = Some (b', off # offs)"
    using l ls add by auto
  then show ?case by blast
qed

lemma enum_layout_None:
  assumes "enum_layout lf acc vs = Some None"
  shows "acc = None \<and> (\<forall>v \<in> set vs. \<exists>t \<in> set (snd v). lf t = Some None)"
  using assms
proof (induction vs arbitrary: acc)
  case (Cons v vs)
  obtain n fs where v: "v = (n, fs)" by (cases v)
  from Cons.prems v obtain b0 off r where add: "builder_add builder_new u8_layout = Some (b0, off)"
    and r: "add_fields lf b0 fs = Some r"
    by (auto simp: bind_eq_Some_conv)
  show ?case
  proof (cases r)
    case None
    with Cons.prems v add r have "enum_layout lf acc vs = Some None" by simp
    from Cons.IH [OF this] add_fields_None [OF r [unfolded None]] v show ?thesis by auto
  next
    case (Some b)
    with Cons.prems v add r obtain acc' where "enum_layout lf (Some acc') vs = Some None"
      by (auto simp: bind_eq_Some_conv)
    from Cons.IH [OF this] show ?thesis by simp
  qed
qed simp

lemma enum_layout_Some:
  assumes "enum_layout lf acc vs = Some (Some L)"
  shows "(\<exists>l. acc = Some l) \<or> (\<exists>v \<in> set vs. \<forall>t \<in> set (snd v). \<exists>l. lf t = Some (Some l))"
  using assms
proof (induction vs arbitrary: acc)
  case (Cons v vs)
  obtain n fs where v: "v = (n, fs)" by (cases v)
  from Cons.prems v obtain b0 off r where add: "builder_add builder_new u8_layout = Some (b0, off)"
    and r: "add_fields lf b0 fs = Some r"
    by (auto simp: bind_eq_Some_conv)
  show ?case
  proof (cases r)
    case None
    with Cons.prems v add r have "enum_layout lf acc vs = Some (Some L)" by simp
    from Cons.IH [OF this] show ?thesis by auto
  next
    case (Some b)
    with add_fields_Some [of lf b0 fs b] r obtain ls where
      "map lf fs = map (\<lambda>l. Some (Some l)) ls" by blast
    note all = map_eq_SomeD [OF this]
    have "\<forall>t \<in> set (snd v). \<exists>l. lf t = Some (Some l)" using v all by simp
    then show ?thesis by auto
  qed
qed simp

lemma layout_of_None_iff:
  assumes "layout_of f pf rt p r = Some l"
  shows "l = None \<longleftrightarrow> \<not> inhabited p r"
  using assms
proof (induction f arbitrary: r l)
  case (Suc f)
  let ?lf = "layout_of f pf rt p"
  from Suc.prems obtain t where t: "pool_get p r = Some t" by (auto simp: bind_eq_Some_conv)
  show ?case
  proof (cases t)
    case (MRecord fs)
    from Suc.prems t MRecord obtain b where b: "add_fields ?lf builder_new (map snd fs) = Some b"
      and l: "b = None \<and> l = None \<or> b \<noteq> None \<and> l \<noteq> None"
      by (auto simp: bind_eq_Some_conv split: option.splits)
    show ?thesis
    proof (cases b)
      case None
      with add_fields_None b Suc.IH obtain q where "q \<in> set (map snd fs)" "\<not> inhabited p q" by blast
      with None l show ?thesis using inhabited_record [OF t [unfolded MRecord]] by auto
    next
      case (Some b')
      with add_fields_Some b obtain ls where
        "map ?lf (map snd fs) = map (\<lambda>l. Some (Some l)) ls" by blast
      then have "\<forall>q \<in> set (map snd fs). \<exists>l. ?lf q = Some (Some l)"
        by (blast dest: map_eq_SomeD)
      with Suc.IH have "\<forall>q \<in> set (map snd fs). inhabited p q" by blast
      with Some l show ?thesis using inhabited_record [OF t [unfolded MRecord]] by auto
    qed
  next
    case (MEnum vs)
    from Suc.prems t MEnum have e: "enum_layout ?lf None vs = Some l" by simp
    show ?thesis
    proof (cases l)
      case None
      with enum_layout_None e Suc.IH have "\<forall>v \<in> set vs. \<exists>q \<in> set (snd v). \<not> inhabited p q" by blast
      with None show ?thesis using inhabited_enum [OF t [unfolded MEnum]] by auto
    next
      case (Some L)
      with enum_layout_Some e obtain v where
        "v \<in> set vs" "\<forall>q \<in> set (snd v). \<exists>l. ?lf q = Some (Some l)" by blast
      with Suc.IH have "\<exists>v \<in> set vs. \<forall>q \<in> set (snd v). inhabited p q" by blast
      with Some show ?thesis using inhabited_enum [OF t [unfolded MEnum]] by auto
    qed
  next
    case MNever
    with Suc.prems t show ?thesis by (auto dest: inhabited_never)
  qed (use Suc.prems t in \<open>auto intro: inhabited.intros\<close>)
qed simp

text \<open>
  C22. With one unit of fuel more than the reference the layout computation answers "no layout" exactly for the
  uninhabited types: those built from \<open>!\<close> through records with an uninhabited field and enums without an
  inhabited variant.  When it has no answer, no amount of fuel gives one: the computation panics, because a size
  overflows \<open>usize\<close> or a type is not registered.
\<close>

theorem layout_none_iff_uninhabited:
  assumes "wf_pool p" and "r < f"
  shows "case layout_of f pf rt p r of
      Some l \<Rightarrow> l = None \<longleftrightarrow> \<not> inhabited p r
    | None \<Rightarrow> \<forall>n > r. layout_of n pf rt p r = None"
proof (cases "layout_of f pf rt p r")
  case None
  then have "layout_of (Suc r) pf rt p r = None" using layout_of_fuel [OF assms] by simp
  then have "\<forall>n > r. layout_of n pf rt p r = None" using layout_of_fuel [OF assms(1)] by metis
  with None show ?thesis by simp
next
  case (Some l)
  with layout_of_None_iff [OF Some] show ?thesis by simp
qed

theorem layout_none_iff_uninhabited_witness:
  "\<not> inhabited \<lparr>pool_types = [MNever, MEnum [(''A'', [0])], MRecord [(''x'', 1)]]\<rparr> 2"
proof -
  let ?p = "\<lparr>pool_types = [MNever, MEnum [(''A'', [0])], MRecord [(''x'', 1)]]\<rparr>"
  have l: "layout_of 3 pf [] ?p 2 = Some None" for pf
    by (simp add: numeral_3_eq_3 pool_get_def index_def builder_add_def builder_new_def u8_layout_def
        next_multiple_of_def usize_def usize_bound_def Let_def)
  have "wf_pool ?p" by (simp add: wf_pool_def numeral_3_eq_3 less_Suc_eq nth_Cons')
  from layout_none_iff_uninhabited [OF this, of 2 3 undefined "[]"] l show ?thesis by simp
qed

section \<open>Fields fit\<close>

definition valid_runtime :: "rt \<Rightarrow> bool" where
  "valid_runtime rt \<longleftrightarrow> (\<forall>t \<in> set rt. valid_layout (rt_layout t))"

lemma get_runtime_type_valid:
  "valid_runtime rt \<Longrightarrow> get_runtime_type rt i = Some t \<Longrightarrow> valid_layout (rt_layout t)"
  by (auto simp: valid_runtime_def get_runtime_type_def find_Some_iff)

lemma layout_union_covers:
  assumes "layout_union a b = Some u" and "valid_layout a" and "valid_layout b"
  shows "valid_layout u" and "lsize a \<le> lsize u" and "lsize b \<le> lsize u"
    and "lalign a dvd lalign u" and "lalign b dvd lalign u"
proof -
  from assms(1) obtain n where n: "next_multiple_of (max (lsize a) (lsize b)) (max (lalign a) (lalign b)) = Some n"
    and u: "u = \<lparr>lsize = n, lalign = max (lalign a) (lalign b)\<rparr>"
    by (auto simp: layout_union_def Let_def bind_eq_Some_conv)
  have p: "is_power_of_two (lalign a)" "is_power_of_two (lalign b)"
    "is_power_of_two (max (lalign a) (lalign b))"
    using assms(2,3) by (auto simp: valid_layout_def intro: power_of_two_max)
  note n' = next_multiple_of_Some [OF n]
  show "valid_layout u" using u n'(2) p(3) by (simp add: valid_layout_def)
  show "lsize a \<le> lsize u" "lsize b \<le> lsize u" using u n'(1) by auto
  show "lalign a dvd lalign u" "lalign b dvd lalign u"
    using u p by (auto intro: power_of_two_dvd)
qed

lemma fields_fit_mono:
  "fields_fit ls offs l \<Longrightarrow> lsize l \<le> lsize L \<Longrightarrow> lalign l dvd lalign L \<Longrightarrow> fields_fit ls offs L"
  by (fastforce simp: fields_fit_def intro: dvd_trans)

text \<open>The offsets of an enum variant: its fields follow the one-byte discriminant at offset 0.\<close>

definition variant_fits :: "layout list \<Rightarrow> layout \<Rightarrow> bool" where
  "variant_fits ls L \<longleftrightarrow>
     (\<exists>b offs. place builder_new (u8_layout # ls) = Some (b, 0 # offs) \<and>
        fields_fit (u8_layout # ls) (0 # offs) L)"

lemma u8_layout_valid [simp]: "valid_layout u8_layout"
  by (simp add: valid_layout_def u8_layout_def)

lemma builder_add_discriminant:
  "builder_add builder_new u8_layout = Some (\<lparr>bsize = 1, balign = 1\<rparr>, 0)"
  by (simp add: builder_add_def builder_new_def u8_layout_def next_multiple_of_def usize_def
      usize_bound_def)

lemma enum_layout_fits:
  assumes "enum_layout lf acc vs = Some (Some L)"
    and "\<And>v t l. v \<in> set vs \<Longrightarrow> t \<in> set (snd v) \<Longrightarrow> lf t = Some (Some l) \<Longrightarrow> valid_layout l"
    and "\<forall>a. acc = Some a \<longrightarrow> valid_layout a"
  shows "valid_layout L \<and> (\<forall>a. acc = Some a \<longrightarrow> lsize a \<le> lsize L \<and> lalign a dvd lalign L) \<and>
    (\<forall>v \<in> set vs. \<forall>ls. map lf (snd v) = map (\<lambda>l. Some (Some l)) ls \<longrightarrow> variant_fits ls L)"
  using assms
proof (induction vs arbitrary: acc)
  case (Cons v vs)
  obtain n fs where v: "v = (n, fs)" by (cases v)
  let ?b0 = "\<lparr>bsize = 1, balign = 1\<rparr>"
  from Cons.prems(1) v obtain r where r: "add_fields lf ?b0 fs = Some r"
    by (auto simp: bind_eq_Some_conv builder_add_discriminant)
  show ?case
  proof (cases r)
    case None
    with Cons.prems(1) v r have "enum_layout lf acc vs = Some (Some L)"
      by (simp add: builder_add_discriminant)
    note IH = Cons.IH [OF this] 
    have "\<not> (\<exists>ls. map lf fs = map (\<lambda>l. Some (Some l)) ls)"
      using add_fields_None [OF r [unfolded None]] map_eq_SomeD [of lf fs] by fastforce
    with IH Cons.prems(2,3) v show ?thesis by (metis list.set_intros(2) set_ConsD snd_conv)
  next
    case (Some b)
    with add_fields_Some r obtain ls offs where
      ls: "map lf fs = map (\<lambda>l. Some (Some l)) ls" and pl: "place ?b0 ls = Some (b, offs)" by blast
    have valid: "\<forall>l \<in> set (u8_layout # ls). valid_layout l"
    proof -
      have "\<exists>t \<in> set fs. lf t = Some (Some l)" if "l \<in> set ls" for l
      proof -
        from that have "Some (Some l) \<in> set (map lf fs)" unfolding ls by simp
        then show ?thesis by auto
      qed
      with Cons.prems(2) [of v] v show ?thesis by fastforce
    qed
    from Cons.prems(1) v r Some obtain vl acc' where vl: "builder_finish b = Some vl"
      and acc': "(case acc of None \<Rightarrow> Some vl | Some l \<Rightarrow> layout_union l vl) = Some acc'"
      and rest: "enum_layout lf (Some acc') vs = Some (Some L)"
      by (auto simp: bind_eq_Some_conv builder_add_discriminant)
    have place: "place builder_new (u8_layout # ls) = Some (b, 0 # offs)"
      using pl by (simp add: builder_add_discriminant)
    have fit: "fields_fit (u8_layout # ls) (0 # offs) vl"
      by (rule place_fits [OF place vl builder_new_ok valid])
    have cover: "valid_layout acc' \<and> lsize vl \<le> lsize acc' \<and> lalign vl dvd lalign acc' \<and>
        (\<forall>a. acc = Some a \<longrightarrow> lsize a \<le> lsize acc' \<and> lalign a dvd lalign acc')"
      using acc' Cons.prems(3) builder_finish_valid(1) [OF vl]
        layout_union_covers [of _ vl acc'] by (cases acc) auto
    have IH: "valid_layout L \<and> lsize acc' \<le> lsize L \<and> lalign acc' dvd lalign L \<and>
        (\<forall>v \<in> set vs. \<forall>ls. map lf (snd v) = map (\<lambda>l. Some (Some l)) ls \<longrightarrow> variant_fits ls L)"
      using Cons.IH [OF rest] Cons.prems(2) cover by auto
    have "variant_fits ls L"
      unfolding variant_fits_def using place fields_fit_mono [OF fit] cover IH
      by (meson dvd_trans le_trans)
    moreover have "ls' = ls" if "map lf fs = map (\<lambda>l. Some (Some l)) ls'" for ls'
      using that ls by (simp add: inj_map_eq_map inj_def)
    ultimately show ?thesis using IH cover v by (auto intro: dvd_trans)
  qed
qed auto

definition layouts_fit :: "platform \<Rightarrow> rt \<Rightarrow> pool \<Rightarrow> nat \<Rightarrow> ty_ref \<Rightarrow> layout \<Rightarrow> bool" where
  "layouts_fit pf rt p f r L \<longleftrightarrow>
     (\<forall>fs ls. pool_get p r = Some (MRecord fs) \<longrightarrow>
        map (layout_of f pf rt p) (map snd fs) = map (\<lambda>l. Some (Some l)) ls \<longrightarrow>
        (\<exists>b offs. place builder_new ls = Some (b, offs) \<and> fields_fit ls offs L)) \<and>
     (\<forall>vs n ts ls. pool_get p r = Some (MEnum vs) \<longrightarrow> (n, ts) \<in> set vs \<longrightarrow>
        map (layout_of f pf rt p) ts = map (\<lambda>l. Some (Some l)) ls \<longrightarrow> variant_fits ls L)"

lemma layout_of_valid:
  assumes "valid_platform pf" and "valid_runtime rt"
    and "layout_of f pf rt p r = Some (Some L)"
  shows "valid_layout L"
  using assms(3)
proof (induction f arbitrary: r L)
  case (Suc f)
  let ?lf = "layout_of f pf rt p"
  from Suc.prems obtain t where t: "pool_get p r = Some t" by (auto simp: bind_eq_Some_conv)
  show ?case
  proof (cases t)
    case (MRecord fs)
    with Suc.prems t obtain b where "builder_finish b = Some L"
      by (auto simp: bind_eq_Some_conv split: option.splits)
    then show ?thesis by (rule builder_finish_valid(1))
  next
    case (MEnum vs)
    with Suc.prems t have "enum_layout ?lf None vs = Some (Some L)" by simp
    from enum_layout_fits [OF this] Suc.IH show ?thesis by auto
  next
    case (MPrimitive q)
    with Suc.prems t primitive_layout_valid [OF assms(1), of q] show ?thesis by auto
  next
    case (MRuntime i)
    with Suc.prems t assms(2) show ?thesis by (auto intro: get_runtime_type_valid)
  next
    case MUnit
    with Suc.prems t show ?thesis by (auto simp: layout_new_Some)
  next
    case (MList q)
    with Suc.prems t assms(1) show ?thesis by (auto simp: valid_platform_def)
  next
    case MNever
    with Suc.prems t show ?thesis by simp
  qed
qed simp

lemma layout_of_fits:
  assumes "valid_platform pf" and "valid_runtime rt"
    and "layout_of (Suc f) pf rt p r = Some (Some L)"
  shows "valid_layout L \<and> layouts_fit pf rt p f r L"
proof -
  let ?lf = "layout_of f pf rt p"
  have valid: "valid_layout l" if "?lf q = Some (Some l)" for q l
    by (rule layout_of_valid [OF assms(1,2) that])
  have "\<exists>b offs. place builder_new ls = Some (b, offs) \<and> fields_fit ls offs L"
    if t: "pool_get p r = Some (MRecord fs)"
      and ls: "map ?lf (map snd fs) = map (\<lambda>l. Some (Some l)) ls" for fs ls
  proof -
    from assms(3) t obtain b where add: "add_fields ?lf builder_new (map snd fs) = Some (Some b)"
      and fin: "builder_finish b = Some L"
      by (auto simp: bind_eq_Some_conv split: option.splits)
    from add_fields_Some [OF add] obtain ls' offs where
      "map ?lf (map snd fs) = map (\<lambda>l. Some (Some l)) ls'" and pl: "place builder_new ls' = Some (b, offs)"
      by blast
    with ls have eq: "ls' = ls" by (simp add: inj_map_eq_map inj_def)
    have "valid_layout l" if "l \<in> set ls" for l
    proof -
      from that have "Some (Some l) \<in> set (map ?lf (map snd fs))" unfolding ls by simp
      then show ?thesis using valid by auto
    qed
    then show ?thesis using place_fits [OF pl fin builder_new_ok] pl eq by blast
  qed
  moreover have "variant_fits ls L"
    if t: "pool_get p r = Some (MEnum vs)" and v: "(n, ts) \<in> set vs"
      and ls: "map ?lf ts = map (\<lambda>l. Some (Some l)) ls" for vs n ts ls
  proof -
    from assms(3) t have "enum_layout ?lf None vs = Some (Some L)" by simp
    from enum_layout_fits [OF this] valid v ls show ?thesis by fastforce
  qed
  ultimately show ?thesis
    using layout_of_valid [OF assms] unfolding layouts_fit_def by blast
qed

definition test_platform :: platform where
  "test_platform = \<lparr>string_layout = \<lparr>lsize = 24, lalign = 8\<rparr>, ip_addr_layout = \<lparr>lsize = 17, lalign = 1\<rparr>,
     prefix_layout = \<lparr>lsize = 18, lalign = 1\<rparr>, list_layout = \<lparr>lsize = 8, lalign = 8\<rparr>\<rparr>"

text \<open>
  C21. With one unit of fuel more than the reference an inhabited type gets a valid layout in which its contents
  fit: the fields of a record at the offsets of the builder, the fields of every inhabited variant of an enum behind
  the one-byte discriminant at offset 0, all aligned, disjoint and in bounds.  Otherwise no amount of fuel gives an
  answer: the computation panics, because a size overflows \<open>usize\<close> or a type is not registered.
\<close>

theorem layout_of_contents_fit:
  assumes "valid_platform pf" and "valid_runtime rt" and "wf_pool p" and "r < f" and "inhabited p r"
  shows "case layout_of f pf rt p r of
      Some (Some L) \<Rightarrow> valid_layout L \<and> layouts_fit pf rt p r r L
    | Some None \<Rightarrow> False
    | None \<Rightarrow> \<forall>n > r. layout_of n pf rt p r = None"
proof (cases "layout_of f pf rt p r")
  case None
  then have "layout_of (Suc r) pf rt p r = None" using layout_of_fuel [OF assms(3,4)] by simp
  then have "\<forall>n > r. layout_of n pf rt p r = None" using layout_of_fuel [OF assms(3)] by metis
  with None show ?thesis by simp
next
  case (Some l)
  with layout_of_None_iff [OF Some] assms(5) obtain L where L: "l = Some L" by blast
  with Some have "layout_of (Suc r) pf rt p r = Some (Some L)" using layout_of_fuel [OF assms(3,4)] by simp
  from layout_of_fits [OF assms(1,2) this] Some L show ?thesis by simp
qed

theorem layout_of_contents_fit_witness:
  "variant_fits [\<lparr>lsize = 8, lalign = 8\<rparr>] \<lparr>lsize = 16, lalign = 8\<rparr>"
proof -
  let ?p = "\<lparr>pool_types = [MUnit, MList 0, MEnum [(''Some'', [1]), (''None'', [])]]\<rparr>"
  have v: "valid_platform test_platform" "valid_runtime []"
    by (simp_all add: valid_platform_def test_platform_def valid_layout_def valid_runtime_def
        is_power_of_two.simps)
  have "is_power_of_two 8" by (simp add: is_power_of_two.simps)
  then have l: "layout_of 3 test_platform [] ?p 2 = Some (Some \<lparr>lsize = 16, lalign = 8\<rparr>)"
    by (simp add: pool_get_def index_def builder_add_def builder_new_def u8_layout_def
        next_multiple_of_def usize_def usize_bound_def Let_def test_platform_def builder_finish_def
        layout_new_def layout_union_def numeral_3_eq_3)
  have wf: "wf_pool ?p" by (simp add: wf_pool_def numeral_3_eq_3 less_Suc_eq nth_Cons')
  have inh: "inhabited ?p 2"
    by (rule inh_enum [where vs = "[(''Some'', [1]), (''None'', [])]" and n = "''None''" and ts = "[]"])
      (simp_all add: pool_get_def index_def)
  have "layouts_fit test_platform [] ?p 2 2 \<lparr>lsize = 16, lalign = 8\<rparr>"
    using layout_of_contents_fit [OF v wf _ inh, of 3] l by simp
  moreover have "map (layout_of 2 test_platform [] ?p) [1]
      = map (\<lambda>l. Some (Some l)) [\<lparr>lsize = 8, lalign = 8\<rparr>]"
    by (simp add: numeral_2_eq_2 pool_get_def index_def test_platform_def)
  moreover have "pool_get ?p 2 = Some (MEnum [(''Some'', [1]), (''None'', [])])"
    by (simp add: pool_get_def index_def)
  ultimately show ?thesis unfolding layouts_fit_def by fastforce
qed

end
