(* ===== verification/Type_Info.thy ===== *)
theory Type_Info
  imports Type_Cycle Unify Mir_Layout
begin

text \<open>
  \<open>TypeInfo::resolve\<close> and \<open>TypeInfo::convert\<close> (\<open>src/src/typechecker/info.rs\<close>): from the types of the
  type checker to references into the pool of MIR types.  The recursion follows the definitions of
  named types and takes fuel: \<open>None\<close> is a panic (\<open>ice!\<close>, \<open>todo!\<close>) or too little of it.
\<close>

record convert_state =
  cs_unionfind :: union_find
  cs_pool :: pool

type_synonym 'a converted = "(convert_state \<times> 'a) option"

fun convert_all :: "(convert_state \<Rightarrow> rtype \<Rightarrow> ty_ref converted) \<Rightarrow> convert_state \<Rightarrow> rtype list
    \<Rightarrow> ty_ref list converted" where
  "convert_all c s [] = Some (s, [])"
| "convert_all c s (t # ts) = do {
     (s1, r) \<leftarrow> c s t;
     (s2, rs) \<leftarrow> convert_all c s1 ts;
     Some (s2, r # rs) }"

fun convert_variants :: "(convert_state \<Rightarrow> rtype \<Rightarrow> ty_ref converted) \<Rightarrow> convert_state
    \<Rightarrow> (rtype \<times> rtype) list \<Rightarrow> enum_variant list \<Rightarrow> (ident \<times> ty_ref list) list converted" where
  "convert_variants c s subs [] = Some (s, [])"
| "convert_variants c s subs (v # vs) = do {
     (s1, tys) \<leftarrow> convert_all c s (ev_fields (variant_substitute_many v subs));
     (s2, rest) \<leftarrow> convert_variants c s1 subs vs;
     Some (s2, (ev_name v, tys) # rest) }"

definition convert_intern :: "convert_state \<Rightarrow> ty \<Rightarrow> ty_ref converted" where
  "convert_intern s t =
     (let (p, r) = pool_intern (cs_pool s) t in Some (s\<lparr>cs_pool := p\<rparr>, r))"

definition convert_fields :: "(convert_state \<Rightarrow> rtype \<Rightarrow> ty_ref converted) \<Rightarrow> convert_state \<Rightarrow> fields
    \<Rightarrow> ty_ref converted" where
  "convert_fields c s items = do {
     (s1, tys) \<leftarrow> convert_all c s (map snd items);
     convert_intern s1 (MRecord (zip (map (\<lambda>(n, _). node n) items) tys)) }"

definition convert_named :: "(convert_state \<Rightarrow> rtype \<Rightarrow> ty_ref converted) \<Rightarrow> convert_state \<Rightarrow> type_definition
    \<Rightarrow> rtype list \<Rightarrow> ty_ref converted" where
  "convert_named c s type_def arguments =
     (case type_def of
        DEnum tn variants \<Rightarrow> do {
          (s1, vs) \<leftarrow> convert_variants c s (zip (tn_arguments tn) arguments) variants;
          convert_intern s1 (MEnum vs) }
      | DRecord tn fs \<Rightarrow>
          convert_fields c s
            (map (\<lambda>(i, t). (i, substitute_many t (zip (tn_arguments tn) arguments))) fs)
      | DRuntime _ i \<Rightarrow> convert_intern s (MRuntime i)
      | DPrimitive p \<Rightarrow> convert_intern s (MPrimitive p)
      | DList _ \<Rightarrow> do {
          inner \<leftarrow> index arguments 0;
          (s1, r) \<leftarrow> c s inner;
          convert_intern s1 (MList r) })"

fun convert :: "nat \<Rightarrow> type_map \<Rightarrow> convert_state \<Rightarrow> rtype \<Rightarrow> ty_ref converted" where
  "convert 0 types s t = None"
| "convert (Suc fuel) types s t = do {
     (uf, t') \<leftarrow> resolve_type (cs_unionfind s) t;
     let s = s\<lparr>cs_unionfind := uf\<rparr> in
     (case t' of
        TVar _ \<Rightarrow> Some (s, REF_NEVER)
      | TExplicitVar _ \<Rightarrow> None
      | TNever \<Rightarrow> Some (s, REF_UNIT)
      | TFunction _ _ \<Rightarrow> None
      | TIntVar _ _ \<Rightarrow> Some (s, REF_I32)
      | TFloatVar _ \<Rightarrow> Some (s, REF_F64)
      | TRecord items \<Rightarrow> convert_fields (convert fuel types) s items
      | TRecordVar _ items \<Rightarrow> convert_fields (convert fuel types) s items
      | TUnit \<Rightarrow> convert_intern s MUnit
      | TName tn \<Rightarrow> do {
          type_def \<leftarrow> types (tn_name tn);
          convert_named (convert fuel types) s type_def (tn_arguments tn) }) }"

text \<open>The two questions the type checker asks of resolved types.\<close>

definition is_numeric_type :: "type_map \<Rightarrow> union_find \<Rightarrow> rtype \<Rightarrow> (union_find \<times> bool) option" where
  "is_numeric_type types uf ty = do {
     (uf1, t) \<leftarrow> resolve_type uf ty;
     (case t of
        TFloatVar _ \<Rightarrow> Some (uf1, True)
      | TIntVar _ _ \<Rightarrow> Some (uf1, True)
      | TName tn \<Rightarrow> do { d \<leftarrow> types (tn_name tn); Some (uf1, is_float d \<or> is_int d) }
      | _ \<Rightarrow> Some (uf1, False)) }"

definition get_int_type ::
  "type_map \<Rightarrow> union_find \<Rightarrow> rtype \<Rightarrow> (union_find \<times> (int_kind \<times> int_size) option) option" where
  "get_int_type types uf ty = do {
     (uf1, t) \<leftarrow> resolve_type uf ty;
     (case t of
        TIntVar _ _ \<Rightarrow> Some (uf1, Some (Signed, I32))
      | TName tn \<Rightarrow> do {
          d \<leftarrow> types (tn_name tn);
          Some (uf1, case d of DPrimitive (PInt kind sz) \<Rightarrow> Some (kind, sz) | _ \<Rightarrow> None) }
      | _ \<Rightarrow> Some (uf1, None)) }"

definition is_list_type :: "type_map \<Rightarrow> union_find \<Rightarrow> rtype \<Rightarrow> (union_find \<times> bool) option" where
  "is_list_type types uf ty = do {
     (uf1, t) \<leftarrow> resolve_type uf ty;
     (case t of
        TName tn \<Rightarrow> do { d \<leftarrow> types (tn_name tn); Some (uf1, case d of DList _ \<Rightarrow> True | _ \<Rightarrow> False) }
      | _ \<Rightarrow> Some (uf1, False)) }"

section \<open>The pool stays well-founded\<close>

text \<open>
  A pool with at least the well-known types, without duplicates, in which types refer to older ones
  only; and what one conversion does to it.
\<close>

definition pool_ok :: "pool \<Rightarrow> bool" where
  "pool_ok p \<longleftrightarrow> pool_distinct p \<and> wf_pool p \<and> length well_known \<le> length (pool_types p)"

definition pool_grows :: "pool \<Rightarrow> pool \<Rightarrow> bool" where
  "pool_grows p p' \<longleftrightarrow> (\<exists>ts. pool_types p' = pool_types p @ ts)"

lemma pool_grows_refl [simp]: "pool_grows p p"
  by (simp add: pool_grows_def)

lemma pool_grows_trans: "pool_grows a b \<Longrightarrow> pool_grows b c \<Longrightarrow> pool_grows a c"
  by (auto simp: pool_grows_def)

lemma pool_grows_length: "pool_grows p p' \<Longrightarrow> length (pool_types p) \<le> length (pool_types p')"
  by (auto simp: pool_grows_def)

definition converts :: "convert_state \<Rightarrow> convert_state \<Rightarrow> ty_ref list \<Rightarrow> bool" where
  "converts s s' rs \<longleftrightarrow> pool_ok (cs_pool s') \<and> pool_grows (cs_pool s) (cs_pool s') \<and>
     (\<forall>r \<in> set rs. r < length (pool_types (cs_pool s')))"

definition good_converter :: "(convert_state \<Rightarrow> rtype \<Rightarrow> ty_ref converted) \<Rightarrow> bool" where
  "good_converter c \<longleftrightarrow> (\<forall>s t s' r. pool_ok (cs_pool s) \<longrightarrow> c s t = Some (s', r) \<longrightarrow> converts s s' [r])"

lemma converts_trans:
  assumes "converts a b rs" and "converts b c qs"
  shows "converts a c (rs @ qs)"
proof -
  have "length (pool_types (cs_pool b)) \<le> length (pool_types (cs_pool c))"
    using assms(2) by (auto simp: converts_def dest: pool_grows_length)
  with assms show ?thesis by (fastforce simp: converts_def intro: pool_grows_trans)
qed

lemma convert_intern_ok:
  assumes "pool_ok (cs_pool s)" and "\<forall>q \<in> set (refs_of t). q < length (pool_types (cs_pool s))"
    and "convert_intern s t = Some (s', r)"
  shows "converts s s' [r] \<and> pool_get (cs_pool s') r = Some t"
proof -
  obtain p where p: "pool_intern (cs_pool s) t = (p, r)" and s': "cs_pool s' = p"
    using assms(3) by (auto simp: convert_intern_def split: prod.splits)
  have d: "pool_distinct (cs_pool s)" using assms(1) by (simp add: pool_ok_def)
  have wf: "wf_pool p" using wf_pool_intern [of "cs_pool s" t] assms(1,2) p by (simp add: pool_ok_def)
  have dist: "pool_distinct p" using pool.inv_intern [OF d, of t] p by simp
  have get: "pool_get p r = Some t" using pool.get_intern [OF d, of t] p by simp
  have grows: "pool_grows (cs_pool s) p"
    using p by (cases rule: pool_intern_cases [of "cs_pool s" t]) (auto simp: pool_grows_def)
  have "length well_known \<le> length (pool_types p)"
    using assms(1) pool_grows_length [OF grows] by (simp add: pool_ok_def)
  with wf dist get grows show ?thesis
    unfolding s' converts_def pool_ok_def by (auto simp: pool_get_less s')
qed

lemma convert_all_ok:
  assumes "good_converter c"
  shows "pool_ok (cs_pool s) \<Longrightarrow> convert_all c s ts = Some (s', rs) \<Longrightarrow>
    converts s s' rs \<and> length rs = length ts"
proof (induction ts arbitrary: s rs)
  case Nil
  then show ?case by (simp add: converts_def)
next
  case (Cons t ts)
  from Cons.prems(2) obtain s1 r qs where c: "c s t = Some (s1, r)"
    and rest: "convert_all c s1 ts = Some (s', qs)" and rs: "rs = r # qs"
    by (auto simp: bind_eq_Some_conv)
  have one: "converts s s1 [r]" using assms Cons.prems(1) c unfolding good_converter_def by blast
  then have "pool_ok (cs_pool s1)" by (simp add: converts_def)
  from Cons.IH [OF this rest] converts_trans [OF one] rs show ?case by auto
qed

lemma convert_variants_ok:
  assumes "good_converter c"
  shows "pool_ok (cs_pool s) \<Longrightarrow> convert_variants c s subs vs = Some (s', ws) \<Longrightarrow>
    converts s s' (concat (map snd ws))"
proof (induction vs arbitrary: s ws)
  case Nil
  then show ?case by (simp add: converts_def)
next
  case (Cons v vs)
  from Cons.prems(2) obtain s1 tys rest where
    c: "convert_all c s (ev_fields (variant_substitute_many v subs)) = Some (s1, tys)"
    and rest: "convert_variants c s1 subs vs = Some (s', rest)" and ws: "ws = (ev_name v, tys) # rest"
    by (auto simp: bind_eq_Some_conv)
  have one: "converts s s1 tys" using convert_all_ok [OF assms Cons.prems(1) c] by simp
  then have "pool_ok (cs_pool s1)" by (simp add: converts_def)
  from converts_trans [OF one Cons.IH [OF this rest]] ws show ?case by simp
qed

lemma converts_last: "converts s s' rs \<Longrightarrow> converts s' s'' [r] \<Longrightarrow> converts s s'' [r]"
  using converts_trans [of s s' rs s'' "[r]"] by (auto simp: converts_def)

lemma convert_fields_ok:
  assumes "good_converter c" and "pool_ok (cs_pool s)" and "convert_fields c s items = Some (s', r)"
  shows "converts s s' [r]"
proof -
  from assms(3) obtain s1 tys where all: "convert_all c s (map snd items) = Some (s1, tys)"
    and int: "convert_intern s1 (MRecord (zip (map (\<lambda>(n, _). node n) items) tys)) = Some (s', r)"
    by (auto simp: convert_fields_def bind_eq_Some_conv)
  have c: "converts s s1 tys" and len: "length tys = length items"
    using convert_all_ok [OF assms(1,2) all] by auto
  have "converts s1 s' [r]"
    using convert_intern_ok [OF _ _ int] c len by (simp add: converts_def)
  with c show ?thesis by (rule converts_last)
qed

lemma convert_named_ok:
  assumes "good_converter c" and "pool_ok (cs_pool s)" and "convert_named c s d args = Some (s', r)"
  shows "converts s s' [r]"
proof (cases d)
  case (DEnum tn variants)
  with assms(3) obtain s1 vs where
    vs: "convert_variants c s (zip (tn_arguments tn) args) variants = Some (s1, vs)"
    and int: "convert_intern s1 (MEnum vs) = Some (s', r)"
    by (auto simp: convert_named_def bind_eq_Some_conv)
  have c: "converts s s1 (concat (map snd vs))" by (rule convert_variants_ok [OF assms(1,2) vs])
  have "converts s1 s' [r]" using convert_intern_ok [OF _ _ int] c by (simp add: converts_def)
  with c show ?thesis by (rule converts_last)
next
  case (DRecord tn fs)
  with assms(3) have "convert_fields c s
      (map (\<lambda>(i, t). (i, substitute_many t (zip (tn_arguments tn) args))) fs) = Some (s', r)"
    by (simp add: convert_named_def)
  then show ?thesis by (rule convert_fields_ok [OF assms(1,2)])
next
  case (DRuntime n i)
  with assms(3) have int: "convert_intern s (MRuntime i) = Some (s', r)" by (simp add: convert_named_def)
  from convert_intern_ok [OF assms(2) _ int] show ?thesis by simp
next
  case (DPrimitive p)
  with assms(3) have int: "convert_intern s (MPrimitive p) = Some (s', r)" by (simp add: convert_named_def)
  from convert_intern_ok [OF assms(2) _ int] show ?thesis by simp
next
  case (DList tn)
  with assms(3) obtain t s1 q where c: "c s t = Some (s1, q)" and int: "convert_intern s1 (MList q) = Some (s', r)"
    by (auto simp: convert_named_def bind_eq_Some_conv)
  have one: "converts s s1 [q]" using assms(1,2) c unfolding good_converter_def by blast
  have "converts s1 s' [r]" using convert_intern_ok [OF _ _ int] one by (simp add: converts_def)
  with one show ?thesis by (rule converts_last)
qed

lemma well_known_ref:
  "pool_ok p \<Longrightarrow> r < 14 \<Longrightarrow> r < length (pool_types p)"
  by (simp add: pool_ok_def well_known_def)

lemma convert_good: "good_converter (convert fuel types)"
proof (induction fuel)
  case 0
  show ?case by (simp add: good_converter_def)
next
  case (Suc fuel)
  show ?case
    unfolding good_converter_def
  proof (intro allI impI)
    fix s t s' r
    assume ok: "pool_ok (cs_pool s)" and res: "convert (Suc fuel) types s t = Some (s', r)"
    from res obtain uf t' where t': "resolve_type (cs_unionfind s) t = Some (uf, t')"
      by (auto simp: bind_eq_Some_conv)
    let ?s = "s\<lparr>cs_unionfind := uf\<rparr>"
    have same: "converts ?s s' [r] \<Longrightarrow> converts s s' [r]" by (simp add: converts_def)
    have known: "converts s ?s [q]" if "q < 14" for q
      using ok well_known_ref [OF ok that] by (simp add: converts_def)
    have okS: "pool_ok (cs_pool ?s)" using ok by simp
    note fields = convert_fields_ok [OF Suc.IH okS] and named = convert_named_ok [OF Suc.IH okS]
    show "converts s s' [r]"
    proof (cases t')
      case TUnit
      with res t' have "convert_intern ?s MUnit = Some (s', r)" by simp
      from convert_intern_ok [OF okS _ this] show ?thesis by (intro same) simp
    next
      case (TRecord items)
      with res t' have "convert_fields (convert fuel types) ?s items = Some (s', r)" by simp
      from fields [OF this] show ?thesis by (rule same)
    next
      case (TRecordVar i items)
      with res t' have "convert_fields (convert fuel types) ?s items = Some (s', r)" by simp
      from fields [OF this] show ?thesis by (rule same)
    next
      case (TName tn)
      with res t' obtain d where "convert_named (convert fuel types) ?s d (tn_arguments tn) = Some (s', r)"
        by (auto simp: bind_eq_Some_conv)
      from named [OF this] show ?thesis by (rule same)
    qed (use res t' known in \<open>auto simp: REF_NEVER_def REF_UNIT_def REF_I32_def REF_F64_def\<close>)
  qed
qed

text \<open>
  C23. Converting a type keeps the pool free of duplicates and well-founded, only adds types to it,
  and answers a reference to a type in it: so the layout computation, which follows references to
  older types only, ends on every converted type.
\<close>

theorem convert_keeps_pool:
  assumes "convert fuel types s t = Some (s', r)"
    and "pool_distinct (cs_pool s)" and "wf_pool (cs_pool s)" and "14 \<le> length (pool_types (cs_pool s))"
  shows "pool_distinct (cs_pool s') \<and> wf_pool (cs_pool s') \<and>
    (\<forall>q u. pool_get (cs_pool s) q = Some u \<longrightarrow> pool_get (cs_pool s') q = Some u) \<and>
    r < length (pool_types (cs_pool s')) \<and>
    (\<forall>f pf rt. r < f \<longrightarrow> layout_of f pf rt (cs_pool s') r = layout_of (Suc r) pf rt (cs_pool s') r)"
proof -
  have "pool_ok (cs_pool s)" using assms(2-4) by (simp add: pool_ok_def well_known_def)
  with convert_good [of fuel types] assms(1) have c: "converts s s' [r]"
    unfolding good_converter_def by blast
  then obtain ts where "pool_types (cs_pool s') = pool_types (cs_pool s) @ ts"
    by (auto simp: converts_def pool_grows_def)
  then have "\<forall>q u. pool_get (cs_pool s) q = Some u \<longrightarrow> pool_get (cs_pool s') q = Some u"
    by (auto simp: pool_get_def index_Some_iff nth_append)
  moreover have "wf_pool (cs_pool s')" using c by (simp add: converts_def pool_ok_def)
  ultimately show ?thesis using c layout_of_fuel by (auto simp: converts_def pool_ok_def)
qed

definition sample_pool :: pool where
  "sample_pool = \<lparr>pool_types = map snd well_known\<rparr>"

lemma sample_pool_ok:
  "pool_distinct sample_pool" "wf_pool sample_pool" "14 \<le> length (pool_types sample_pool)"
proof -
  show "pool_distinct sample_pool" by (simp add: sample_pool_def pool_distinct_def well_known_def)
  have "\<forall>t \<in> set (pool_types sample_pool). refs_of t = []" by (simp add: sample_pool_def well_known_def)
  then show "wf_pool sample_pool" by (auto simp: wf_pool_def)
  show "14 \<le> length (pool_types sample_pool)" by (simp add: sample_pool_def well_known_def)
qed

theorem convert_keeps_pool_witness:
  "\<exists>s' r. convert 2 Map.empty \<lparr>cs_unionfind = \<lparr>uf_inner = []\<rparr>, cs_pool = sample_pool\<rparr>
      (TRecord [((Meta ''x'' 0), TUnit)]) = Some (s', r) \<and> wf_pool (cs_pool s')"
proof -
  let ?s = "\<lparr>cs_unionfind = \<lparr>uf_inner = []\<rparr>, cs_pool = sample_pool\<rparr>"
    and ?t = "TRecord [((Meta ''x'' 0), TUnit)]"
  obtain s' r where c: "convert 2 Map.empty ?s ?t = Some (s', r)"
    by (auto simp: numeral_2_eq_2 resolve_type_def convert_fields_def convert_intern_def Let_def
        case_prod_unfold)
  from convert_keeps_pool [OF c] sample_pool_ok c show ?thesis by auto
qed

section \<open>Recursion through type arguments\<close>

definition option_name :: resolved_name where "option_name = ResolvedName GLOBAL ''Option''"

definition recursive_types :: type_map where
  "recursive_types =
    [name_a \<mapsto> DRecord (TypeName name_a [])
       [((Meta ''next'' 0), t_option (TName (TypeName name_a [])))],
     option_name \<mapsto> DEnum (TypeName option_name [TExplicitVar ''T''])
       [\<lparr>ev_name = ''Some'', ev_fields = [TExplicitVar ''T'']\<rparr>, \<lparr>ev_name = ''None'', ev_fields = []\<rparr>]]"

text \<open>
  C38. The cycle check does not look at the arguments of a named type: it accepts
  \<open>record A { next: A? }\<close>, whose conversion then does not return for any amount of fuel.
\<close>

theorem recursive_argument_accepted:
  "detect_type_cycles 3 recursive_types [name_a, option_name] = Some (Inr ()) \<and>
   detect_type_cycles 3 recursive_types [option_name, name_a] = Some (Inr ()) \<and>
   (\<forall>fuel s. convert fuel recursive_types s (TName (TypeName name_a [])) = None)"
proof -
  let ?A = "TName (TypeName name_a [])" and ?O = "ResolvedName 0 ''Option''"
  let ?oA = "TName (TypeName ?O [?A])"
  have lookup: "recursive_types (ResolvedName (Suc 0) ''A'') =
      Some (DRecord (TypeName name_a []) [((Meta ''next'' 0), ?oA)])"
    "recursive_types ?O = Some (DEnum (TypeName ?O [TExplicitVar ''T''])
      [\<lparr>ev_name = ''Some'', ev_fields = [TExplicitVar ''T'']\<rparr>, \<lparr>ev_name = ''None'', ev_fields = []\<rparr>])"
    by (simp_all add: recursive_types_def option_name_def t_option_def named_def)
  have "convert fuel recursive_types s ?A = None \<and> convert fuel recursive_types s ?oA = None" for fuel s
  proof (induction fuel arbitrary: s)
    case (Suc fuel)
    have "convert (Suc fuel) recursive_types s ?A = None"
      using Suc by (simp add: resolve_type_def lookup convert_named_def convert_fields_def Let_def)
    moreover have "convert (Suc fuel) recursive_types s ?oA = None"
      using Suc by (simp add: resolve_type_def lookup convert_named_def Let_def variant_substitute_many_def)
    ultimately show ?case by blast
  qed simp
  moreover have "detect_type_cycles 3 recursive_types [name_a, option_name] = Some (Inr ())"
    "detect_type_cycles 3 recursive_types [option_name, name_a] = Some (Inr ())"
    by (simp_all add: detect_type_cycles_def recursive_types_def option_name_def t_option_def named_def
        and_visit_def numeral_3_eq_3)
  ultimately show ?thesis by blast
qed

end
