(* ===== verification/Scope_Graph.thy ===== *)
theory Scope_Graph
  imports Type_Defs
begin

text \<open>
  \<open>src/src/typechecker/scope.rs\<close>: the tree of scopes, the declarations, imports and name resolution.
  A \<open>scope_graph\<close> is the struct \<open>ScopeGraph\<close>; the declarations are a map from resolved names.  The
  loops that climb the tree are partial functions: \<open>None\<close> is a panic or a climb without end, and
  the invariant \<open>graph_ok\<close>, which every operation keeps, excludes both.  A method that returns a
  mutable reference to a declaration returns its key here.
\<close>

section \<open>State\<close>

datatype value_kind = VkLocal | VkConstant | VkContext nat
datatype type_or_stub = TsType type_definition | TsStub nat
datatype function_definition = FdRuntime nat | FdRoto

record function_declaration =
  fd_definition :: function_definition
  fd_parameter_names :: "ident list"
  fd_signature :: signature

datatype declaration_kind =
  DkValue value_kind "rtype option"
| DkType type_or_stub
| DkFunction "function_declaration option"
| DkModule
| DkMethod "function_declaration option"
| DkEnum "(type_definition \<times> enum_variant) option"
| DkTypeParam ident

record decl =
  dec_name :: resolved_name
  dec_kind :: declaration_kind
  dec_id :: meta_id
  dec_scope :: "scope_ref option"
  dec_doc :: string

record module_scope =
  ms_name :: resolved_name
  ms_parent_module :: "scope_ref option"

datatype scope_type =
  StRoot
| StThen nat
| StElse nat
| StWhileBody nat
| StForBody nat
| StModule module_scope
| StFunction ident
| StMatchArm nat "nat option"
| StType ident
| StTypeParams
| StBlock nat

record scope =
  sc_type :: scope_type
  sc_parent :: "scope_ref option"
  sc_imports :: "ident \<Rightarrow> (meta_id \<times> resolved_name) option"

record scope_graph =
  sg_declarations :: "resolved_name \<Rightarrow> decl option"
  sg_scopes :: "scope list"

section \<open>Operations\<close>

definition graph_new :: scope_graph where
  "graph_new = \<lparr>sg_declarations = Map.empty,
     sg_scopes = [\<lparr>sc_type = StRoot, sc_parent = None, sc_imports = Map.empty\<rparr>]\<rparr>"

definition graph_wrap :: "scope_graph \<Rightarrow> scope_ref \<Rightarrow> scope_type \<Rightarrow> scope_graph \<times> scope_ref" where
  "graph_wrap g p ty =
     (let idx = length (sg_scopes g)
      in (g\<lparr>sg_scopes := sg_scopes g @ [\<lparr>sc_type = ty, sc_parent = Some p, sc_imports = Map.empty\<rparr>]\<rparr>, idx))"

definition graph_parent :: "scope_graph \<Rightarrow> scope_ref \<Rightarrow> scope_ref option option" where
  "graph_parent g s = map_option sc_parent (index (sg_scopes g) s)"

partial_function (option) resolve_name ::
  "scope_graph \<Rightarrow> scope_ref \<Rightarrow> ident \<Rightarrow> bool \<Rightarrow> decl option option" where
  "resolve_name g s i recurse =
     (case sg_declarations g (ResolvedName s i) of
        Some d \<Rightarrow> Some (Some d)
      | None \<Rightarrow>
          if \<not> recurse then Some None
          else case index (sg_scopes g) s of
              None \<Rightarrow> None
            | Some sc \<Rightarrow>
                (case sc_imports sc i of
                   Some x \<Rightarrow> map_option Some (sg_declarations g (snd x))
                 | None \<Rightarrow>
                     (case sc_parent sc of
                        None \<Rightarrow> Some None
                      | Some p \<Rightarrow> resolve_name g p i recurse)))"

definition get_declaration :: "scope_graph \<Rightarrow> resolved_name \<Rightarrow> decl option" where
  "get_declaration g n = sg_declarations g n"

definition insert_import ::
  "scope_graph \<Rightarrow> scope_ref \<Rightarrow> meta_id \<Rightarrow> resolved_name \<Rightarrow> (scope_graph \<times> (meta_id + unit)) option" where
  "insert_import g s i name = do {
     sc \<leftarrow> index (sg_scopes g) s;
     (case sc_imports sc (rn_ident name) of
        Some entry \<Rightarrow> Some (g, Inl (fst entry))
      | None \<Rightarrow>
          Some (g\<lparr>sg_scopes := (sg_scopes g)[s := sc\<lparr>sc_imports := (sc_imports sc)(rn_ident name \<mapsto> (i, name))\<rparr>]\<rparr>,
                Inr ())) }"

definition insert_context ::
  "scope_graph \<Rightarrow> ident meta \<Rightarrow> rtype \<Rightarrow> nat \<Rightarrow> scope_graph \<times> (unit + resolved_name)" where
  "insert_context g v ty offset =
     (let name = ResolvedName GLOBAL (node v); kind = DkValue (VkContext offset) (Some ty)
      in case sg_declarations g name of
           Some _ \<Rightarrow> (g, Inl ())
         | None \<Rightarrow>
             (g\<lparr>sg_declarations := (sg_declarations g)(name \<mapsto>
                 \<lparr>dec_name = name, dec_kind = kind, dec_id = meta_id v, dec_scope = None, dec_doc = []\<rparr>)\<rparr>,
              Inr name))"

definition insert_runtime_constant ::
  "scope_graph \<Rightarrow> scope_ref \<Rightarrow> ident meta \<Rightarrow> rtype \<Rightarrow> string \<Rightarrow> scope_graph \<times> (unit + resolved_name)" where
  "insert_runtime_constant g s v ty doc =
     (let name = ResolvedName s (node v); kind = DkValue VkConstant (Some ty)
      in case sg_declarations g name of
           Some _ \<Rightarrow> (g, Inl ())
         | None \<Rightarrow>
             (g\<lparr>sg_declarations := (sg_declarations g)(name \<mapsto>
                 \<lparr>dec_name = name, dec_kind = kind, dec_id = meta_id v, dec_scope = None, dec_doc = doc\<rparr>)\<rparr>,
              Inr name))"

definition insert_declaration ::
  "scope_graph \<Rightarrow> scope_ref \<Rightarrow> ident meta \<Rightarrow> declaration_kind \<Rightarrow> string \<Rightarrow> (declaration_kind \<Rightarrow> bool)
     \<Rightarrow> scope_graph \<times> (meta_id + resolved_name)" where
  "insert_declaration g s i kind doc update_if =
     (let name = ResolvedName s (node i)
      in case sg_declarations g name of
           None \<Rightarrow>
             (g\<lparr>sg_declarations := (sg_declarations g)(name \<mapsto>
                 \<lparr>dec_name = name, dec_kind = kind, dec_id = meta_id i, dec_scope = None, dec_doc = doc\<rparr>)\<rparr>,
              Inr name)
         | Some old \<Rightarrow>
             if update_if (dec_kind old) then
               (g\<lparr>sg_declarations := (sg_declarations g)(name \<mapsto> old\<lparr>dec_kind := kind\<rparr>)\<rparr>, Inr name)
             else (g, Inl (dec_id old)))"

definition set_dec_scope :: "scope_graph \<Rightarrow> resolved_name \<Rightarrow> (scope_ref option \<Rightarrow> scope_ref option) \<Rightarrow> scope_graph" where
  "set_dec_scope g n f = g\<lparr>sg_declarations := (sg_declarations g)(n :=
     map_option (\<lambda>d. d\<lparr>dec_scope := f (dec_scope d)\<rparr>) (sg_declarations g n))\<rparr>"

definition insert_var ::
  "scope_graph \<Rightarrow> scope_ref \<Rightarrow> ident meta \<Rightarrow> rtype \<Rightarrow> scope_graph \<times> (meta_id + resolved_name)" where
  "insert_var g s i ty = insert_declaration g s i (DkValue VkLocal (Some ty)) [] (\<lambda>_. False)"

definition insert_const ::
  "scope_graph \<Rightarrow> scope_ref \<Rightarrow> ident meta \<Rightarrow> rtype \<Rightarrow> scope_graph \<times> (meta_id + resolved_name)" where
  "insert_const g s i ty =
     insert_declaration g s i (DkValue VkConstant (Some ty)) [] (\<lambda>kind. kind = DkValue VkConstant None)"

definition insert_type ::
  "scope_graph \<Rightarrow> scope_ref \<Rightarrow> ident meta \<Rightarrow> string \<Rightarrow> type_definition \<Rightarrow> scope_graph \<times> (meta_id + unit)" where
  "insert_type g s i doc ty =
     (let kind = DkType (TsType ty);
          (g1, new_scope) = graph_wrap g s (StType (node i));
          (g2, r) = insert_declaration g1 s i kind doc (\<lambda>kind. case kind of
                      DkType (TsStub num_params) \<Rightarrow> num_params = length (tn_arguments (def_type_name ty))
                    | _ \<Rightarrow> False)
      in case r of
           Inl old \<Rightarrow> (g2, Inl old)
         | Inr name \<Rightarrow>
             (set_dec_scope g2 name (\<lambda>sc. case sc of None \<Rightarrow> Some new_scope | Some x \<Rightarrow> Some x), Inr ()))"

definition insert_module ::
  "scope_graph \<Rightarrow> scope_ref \<Rightarrow> ident meta \<Rightarrow> string \<Rightarrow> scope_ref \<Rightarrow> scope_graph \<times> (meta_id + unit)" where
  "insert_module g s i doc mod_scope =
     (case insert_declaration g s i DkModule doc (\<lambda>_. False) of
        (g1, Inl old) \<Rightarrow> (g1, Inl old)
      | (g1, Inr name) \<Rightarrow> (set_dec_scope g1 name (\<lambda>_. Some mod_scope), Inr ()))"

definition insert_function ::
  "scope_graph \<Rightarrow> scope_ref \<Rightarrow> ident meta \<Rightarrow> function_definition \<Rightarrow> ident list \<Rightarrow> string \<Rightarrow> signature
     \<Rightarrow> scope_graph \<times> (meta_id + resolved_name)" where
  "insert_function g s i def params doc sg =
     insert_declaration g s i
       (DkFunction (Some \<lparr>fd_definition = def, fd_parameter_names = params, fd_signature = sg\<rparr>)) doc
       (\<lambda>kind. kind = DkFunction None)"

definition insert_method ::
  "scope_graph \<Rightarrow> scope_ref \<Rightarrow> ident meta \<Rightarrow> function_definition \<Rightarrow> ident list \<Rightarrow> string \<Rightarrow> signature
     \<Rightarrow> scope_graph \<times> (meta_id + resolved_name)" where
  "insert_method g s i def params doc sg =
     insert_declaration g s i
       (DkMethod (Some \<lparr>fd_definition = def, fd_parameter_names = params, fd_signature = sg\<rparr>)) doc
       (\<lambda>kind. kind = DkMethod None)"

text \<open>\<open>parent_module\<close>: the outer \<open>None\<close> is a panic, the inner one the code's \<open>None\<close>.\<close>

partial_function (option) parent_module :: "scope_graph \<Rightarrow> scope_ref \<Rightarrow> decl option option" where
  "parent_module g s =
     (case index (sg_scopes g) s of
        None \<Rightarrow> None
      | Some sc \<Rightarrow>
          (case sc_type sc of
             StModule m \<Rightarrow>
               (case ms_parent_module m of
                  None \<Rightarrow> Some None
                | Some p \<Rightarrow>
                    (case index (sg_scopes g) p of
                       None \<Rightarrow> None
                     | Some psc \<Rightarrow>
                         (case sc_type psc of
                            StModule parent \<Rightarrow> map_option Some (get_declaration g (ms_name parent))
                          | _ \<Rightarrow> None)))
           | _ \<Rightarrow>
               (case sc_parent sc of
                  None \<Rightarrow> Some None
                | Some p \<Rightarrow> parent_module g p)))"

section \<open>Printing scopes\<close>

fun join :: "string \<Rightarrow> string list \<Rightarrow> string" where
  "join sep [] = []"
| "join sep [x] = x"
| "join sep (x # xs) = x @ sep @ join sep xs"

partial_function (option) module_idents :: "scope_graph \<Rightarrow> module_scope \<Rightarrow> string list option" where
  "module_idents g m =
     (case ms_parent_module m of
        None \<Rightarrow> Some [rn_ident (ms_name m)]
      | Some idx \<Rightarrow>
          (case index (sg_scopes g) idx of
             None \<Rightarrow> None
           | Some s \<Rightarrow>
               (case sc_type s of
                  StModule p \<Rightarrow> Option.bind (module_idents g p) (\<lambda>xs. Some (rn_ident (ms_name m) # xs))
                | _ \<Rightarrow> None)))"

definition print_module :: "scope_graph \<Rightarrow> module_scope \<Rightarrow> string option" where
  "print_module g m = map_option (\<lambda>xs. join ''.'' (rev xs)) (module_idents g m)"

definition show_scope_type :: "scope_graph \<Rightarrow> scope_type \<Rightarrow> string option" where
  "show_scope_type g ty = (case ty of
     StRoot \<Rightarrow> Some []
   | StModule m \<Rightarrow> print_module g m
   | StFunction name \<Rightarrow> Some name
   | StBlock idx \<Rightarrow> Some (''$block_'' @ show_nat idx)
   | StThen idx \<Rightarrow> Some (''$if_'' @ show_nat idx @ ''_then'')
   | StElse idx \<Rightarrow> Some (''$if_'' @ show_nat idx @ ''_else'')
   | StMatchArm idx (Some arm) \<Rightarrow> Some (''$match_'' @ show_nat idx @ ''_arm_'' @ show_nat arm)
   | StMatchArm idx None \<Rightarrow> Some (''$match_'' @ show_nat idx @ ''_arm_default'')
   | StWhileBody idx \<Rightarrow> Some (''$while_body_'' @ show_nat idx)
   | StForBody idx \<Rightarrow> Some (''$for_body_'' @ show_nat idx)
   | StType name \<Rightarrow> Some name
   | StTypeParams \<Rightarrow> Some ''$type_params'')"

partial_function (option) scope_idents :: "scope_graph \<Rightarrow> scope_ref option \<Rightarrow> string list option" where
  "scope_idents g s =
     (case s of
        None \<Rightarrow> Some []
      | Some s \<Rightarrow>
          (case index (sg_scopes g) s of
             None \<Rightarrow> None
           | Some sc \<Rightarrow>
               if sc_type sc = StRoot then Some []
               else Option.bind (show_scope_type g (sc_type sc)) (\<lambda>i.
                    Option.bind (scope_idents g (sc_parent sc)) (\<lambda>xs. Some (i # xs)))))"

definition print_scope :: "scope_graph \<Rightarrow> scope_ref \<Rightarrow> string option" where
  "print_scope g s = map_option (\<lambda>xs. join ''.'' (rev xs)) (scope_idents g (Some s))"

interpretation scopes: index_store
  "\<lambda>g (p, ty). graph_wrap g p ty" "\<lambda>g s. index (sg_scopes g) s" "\<lambda>g. length (sg_scopes g)"
  "\<lambda>(p, ty) _. \<lparr>sc_type = ty, sc_parent = Some p, sc_imports = Map.empty\<rparr>"
  by unfold_locales (auto simp: graph_wrap_def Let_def)

section \<open>The invariant\<close>

text \<open>
  Every scope but the root has an older parent; the parent module of a module is an older module
  scope whose declaration exists; every declaration is filed under its name; every import names a
  declaration.
\<close>

definition scope_ok :: "scope_graph \<Rightarrow> nat \<Rightarrow> scope \<Rightarrow> bool" where
  "scope_ok g i sc \<longleftrightarrow>
     (case sc_parent sc of None \<Rightarrow> sc_type sc = StRoot | Some p \<Rightarrow> p < i) \<and>
     (\<forall>k x. sc_imports sc k = Some x \<longrightarrow> rn_ident (snd x) = k \<and> sg_declarations g (snd x) \<noteq> None) \<and>
     (\<forall>m p. sc_type sc = StModule m \<longrightarrow> ms_parent_module m = Some p \<longrightarrow>
        p < i \<and> (\<exists>psc pm. index (sg_scopes g) p = Some psc \<and> sc_type psc = StModule pm \<and>
          sg_declarations g (ms_name pm) \<noteq> None))"

definition graph_ok :: "scope_graph \<Rightarrow> bool" where
  "graph_ok g \<longleftrightarrow> (\<forall>i sc. index (sg_scopes g) i = Some sc \<longrightarrow> scope_ok g i sc) \<and>
     (\<forall>n d. sg_declarations g n = Some d \<longrightarrow> dec_name d = n)"

lemma graph_okD: "graph_ok g \<Longrightarrow> index (sg_scopes g) i = Some sc \<Longrightarrow> scope_ok g i sc"
  by (simp add: graph_ok_def)

text \<open>Growing a graph: scopes are only added, declarations only added or updated in place.\<close>

definition graph_grows :: "scope_graph \<Rightarrow> scope_graph \<Rightarrow> bool" where
  "graph_grows g g' \<longleftrightarrow>
     (\<forall>i sc. index (sg_scopes g) i = Some sc \<longrightarrow> index (sg_scopes g') i = Some sc) \<and>
     dom (sg_declarations g) \<subseteq> dom (sg_declarations g')"

lemma scope_ok_grows: "graph_grows g g' \<Longrightarrow> scope_ok g i sc \<Longrightarrow> scope_ok g' i sc"
  unfolding scope_ok_def graph_grows_def by (fastforce split: option.splits)

lemma graph_grows_refl [simp]: "graph_grows g g"
  by (simp add: graph_grows_def)

lemma graph_grows_trans: "graph_grows a b \<Longrightarrow> graph_grows b c \<Longrightarrow> graph_grows a c"
  unfolding graph_grows_def by fast

lemma graph_ok_grows:
  assumes "graph_ok g" and "graph_grows g g'"
    and "\<And>i sc. index (sg_scopes g') i = Some sc \<Longrightarrow> index (sg_scopes g) i = None \<Longrightarrow> scope_ok g' i sc"
    and "\<And>n d. sg_declarations g' n = Some d \<Longrightarrow> dec_name d = n"
  shows "graph_ok g'"
  unfolding graph_ok_def
proof (intro conjI allI impI)
  fix i sc assume i: "index (sg_scopes g') i = Some sc"
  show "scope_ok g' i sc"
  proof (cases "index (sg_scopes g) i")
    case None
    with assms(3) i show ?thesis by blast
  next
    case (Some sc')
    with i assms(2) have "sc' = sc" unfolding graph_grows_def by fastforce
    with graph_okD [OF assms(1) Some] scope_ok_grows [OF assms(2)] show ?thesis by blast
  qed
qed (rule assms(4))

lemma graph_new_ok [inv_intros]: "graph_ok graph_new"
  by (auto simp: graph_ok_def graph_new_def scope_ok_def index_def)

definition wrap_ok :: "scope_graph \<Rightarrow> scope_ref \<Rightarrow> scope_type \<Rightarrow> bool" where
  "wrap_ok g p ty \<longleftrightarrow> p < length (sg_scopes g) \<and>
     (\<forall>m q. ty = StModule m \<longrightarrow> ms_parent_module m = Some q \<longrightarrow>
        (\<exists>psc pm. index (sg_scopes g) q = Some psc \<and> sc_type psc = StModule pm \<and>
          sg_declarations g (ms_name pm) \<noteq> None))"

lemma graph_wrap_grows: "graph_grows g (fst (graph_wrap g p ty))"
  by (auto simp: graph_grows_def graph_wrap_def Let_def index_Some_iff nth_append)

lemma graph_wrap_ok [inv_intros]:
  assumes "graph_ok g" and "wrap_ok g p ty"
  shows "graph_ok (fst (graph_wrap g p ty))"
proof (rule graph_ok_grows [OF assms(1) graph_wrap_grows])
  fix i sc
  assume "index (sg_scopes (fst (graph_wrap g p ty))) i = Some sc" and "index (sg_scopes g) i = None"
  then have i: "i = length (sg_scopes g)" "sc = \<lparr>sc_type = ty, sc_parent = Some p, sc_imports = Map.empty\<rparr>"
    by (auto simp: graph_wrap_def Let_def index_Some_iff less_Suc_eq)
  have lt: "q < length (sg_scopes g)" if "index (sg_scopes g) q = Some x" for q x
    using that by (simp add: index_Some_iff)
  have "scope_ok g i sc" using assms(2) lt i by (fastforce simp: scope_ok_def wrap_ok_def)
  then show "scope_ok (fst (graph_wrap g p ty)) i sc" by (rule scope_ok_grows [OF graph_wrap_grows])
next
  fix n d assume "sg_declarations (fst (graph_wrap g p ty)) n = Some d"
  with assms(1) show "dec_name d = n" by (simp add: graph_wrap_def Let_def graph_ok_def)
qed

lemma insert_declaration_cases:
  obtains (new) "sg_declarations g (ResolvedName s (node i)) = None"
      "insert_declaration g s i kind doc u =
        (g\<lparr>sg_declarations := (sg_declarations g)(ResolvedName s (node i) \<mapsto>
           \<lparr>dec_name = ResolvedName s (node i), dec_kind = kind, dec_id = meta_id i, dec_scope = None, dec_doc = doc\<rparr>)\<rparr>,
         Inr (ResolvedName s (node i)))"
  | (update) old where "sg_declarations g (ResolvedName s (node i)) = Some old" "u (dec_kind old)"
      "insert_declaration g s i kind doc u =
        (g\<lparr>sg_declarations := (sg_declarations g)(ResolvedName s (node i) \<mapsto> old\<lparr>dec_kind := kind\<rparr>)\<rparr>,
         Inr (ResolvedName s (node i)))"
  | (twice) old where "sg_declarations g (ResolvedName s (node i)) = Some old" "\<not> u (dec_kind old)"
      "insert_declaration g s i kind doc u = (g, Inl (dec_id old))"
  by (cases "sg_declarations g (ResolvedName s (node i))")
    (auto simp: insert_declaration_def Let_def split: if_splits)

lemma insert_declaration_grows: "graph_grows g (fst (insert_declaration g s i kind doc u))"
  by (cases rule: insert_declaration_cases [of g s i kind doc u]) (auto simp: graph_grows_def)

lemma decl_only_ok:
  assumes "graph_ok g" and "sg_scopes g' = sg_scopes g" and "graph_grows g g'"
    and "\<And>n d. sg_declarations g' n = Some d \<Longrightarrow> dec_name d = n"
  shows "graph_ok g'"
  by (rule graph_ok_grows [OF assms(1,3)]) (use assms(2,4) in auto)

lemma insert_declaration_ok [inv_intros]:
  assumes "graph_ok g"
  shows "graph_ok (fst (insert_declaration g s i kind doc u))"
proof (rule decl_only_ok [OF assms _ insert_declaration_grows])
  show "sg_scopes (fst (insert_declaration g s i kind doc u)) = sg_scopes g"
    by (cases rule: insert_declaration_cases [of g s i kind doc u]) auto
  show "dec_name d = n" if "sg_declarations (fst (insert_declaration g s i kind doc u)) n = Some d" for n d
    using that assms by (cases rule: insert_declaration_cases [of g s i kind doc u])
      (auto simp: graph_ok_def split: if_splits)
qed

lemma set_dec_scope_ok [inv_intros]:
  assumes "graph_ok g"
  shows "graph_ok (set_dec_scope g n f)" and "graph_grows g (set_dec_scope g n f)"
proof -
  show grows: "graph_grows g (set_dec_scope g n f)" by (auto simp: set_dec_scope_def graph_grows_def)
  show "graph_ok (set_dec_scope g n f)"
    by (rule decl_only_ok [OF assms _ grows])
      (use assms in \<open>auto simp: set_dec_scope_def graph_ok_def split: if_splits\<close>)
qed

lemma insert_import_ok [inv_intros]:
  assumes ok: "graph_ok g" and n: "sg_declarations g n \<noteq> None" and r: "insert_import g s i n = Some (g', x)"
  shows "graph_ok g'" and "dom (sg_declarations g') = dom (sg_declarations g)"
proof -
  from r obtain sc where sc: "index (sg_scopes g) s = Some sc"
    and g': "g' = g \<or> g' = g\<lparr>sg_scopes := (sg_scopes g)[s := sc\<lparr>sc_imports := (sc_imports sc)(rn_ident n \<mapsto> (i, n))\<rparr>]\<rparr>"
    by (auto simp: insert_import_def bind_eq_Some_conv split: option.splits)
  let ?sc = "sc\<lparr>sc_imports := (sc_imports sc)(rn_ident n \<mapsto> (i, n))\<rparr>"
  let ?g = "g\<lparr>sg_scopes := (sg_scopes g)[s := ?sc]\<rparr>"
  have s: "s < length (sg_scopes g)" using sc by (simp add: index_Some_iff)
  have idx: "index (sg_scopes ?g) k = (if k = s then Some ?sc else index (sg_scopes g) k)" for k
    using s by simp
  have transfer: "scope_ok ?g k q" if "scope_ok g k q" for k q
    using that sc unfolding scope_ok_def by (fastforce simp: s split: option.splits)
  have "scope_ok g s ?sc" using graph_okD [OF ok sc] n by (auto simp: scope_ok_def split: option.splits)
  then have "graph_ok ?g"
    unfolding graph_ok_def idx using transfer graph_okD [OF ok] ok by (auto simp: graph_ok_def split: if_splits)
  with g' ok show "graph_ok g'" by auto
  show "dom (sg_declarations g') = dom (sg_declarations g)" using g' by auto
qed

lemma insert_type_ok [inv_intros]:
  assumes "graph_ok g" and "s < length (sg_scopes g)"
  shows "graph_ok (fst (insert_type g s i doc ty))"
proof -
  have "wrap_ok g s (StType (node i))" using assms(2) by (simp add: wrap_ok_def)
  note w = graph_wrap_ok [OF assms(1) this]
  show ?thesis
    using w by (auto simp: insert_type_def Let_def split_beta split: sum.splits
        intro: set_dec_scope_ok(1) insert_declaration_ok)
qed

section \<open>Resolution\<close>

text \<open>The scopes a name is looked up in, from the inside out.\<close>

inductive climbs :: "scope_graph \<Rightarrow> scope_ref \<Rightarrow> scope_ref list \<Rightarrow> bool" for g where
  climbs_root: "index (sg_scopes g) s = Some sc \<Longrightarrow> sc_parent sc = None \<Longrightarrow> climbs g s [s]"
| climbs_up: "index (sg_scopes g) s = Some sc \<Longrightarrow> sc_parent sc = Some p \<Longrightarrow> climbs g p ss \<Longrightarrow> climbs g s (s # ss)"

definition local_lookup :: "scope_graph \<Rightarrow> ident \<Rightarrow> scope_ref \<Rightarrow> decl option" where
  "local_lookup g i s =
     (case sg_declarations g (ResolvedName s i) of
        Some d \<Rightarrow> Some d
      | None \<Rightarrow>
          (case sc_imports (sg_scopes g ! s) i of
             Some x \<Rightarrow> sg_declarations g (snd x)
           | None \<Rightarrow> None))"

fun first_hit :: "('a \<Rightarrow> 'b option) \<Rightarrow> 'a list \<Rightarrow> 'b option" where
  "first_hit f [] = None"
| "first_hit f (x # xs) = (case f x of Some y \<Rightarrow> Some y | None \<Rightarrow> first_hit f xs)"

lemma climbs_total:
  assumes "graph_ok g"
  shows "s < length (sg_scopes g) \<Longrightarrow> \<exists>ss. climbs g s ss"
proof (induction s rule: less_induct)
  case (less s)
  then obtain sc where sc: "index (sg_scopes g) s = Some sc" by (simp add: index_def)
  show ?case
  proof (cases "sc_parent sc")
    case None
    with sc show ?thesis by (blast intro: climbs_root)
  next
    case (Some p)
    with graph_okD [OF assms sc] have "p < s" by (simp add: scope_ok_def)
    with less obtain ss where "climbs g p ss" by fastforce
    with sc Some show ?thesis by (blast intro: climbs_up)
  qed
qed

lemma climbs_scope: "climbs g s ss \<Longrightarrow> \<exists>sc. index (sg_scopes g) s = Some sc \<and> sg_scopes g ! s = sc"
  by (cases rule: climbs.cases) (auto simp: index_Some_iff)

lemma import_declared:
  assumes "graph_ok g" and "index (sg_scopes g) s = Some sc" and "sc_imports sc i = Some x"
  shows "sg_declarations g (snd x) \<noteq> None"
  using graph_okD [OF assms(1,2)] assms(3) unfolding scope_ok_def by blast

lemma resolve_name_first_hit:
  assumes "graph_ok g" and "climbs g s ss"
  shows "resolve_name g s i True = Some (first_hit (local_lookup g i) ss)"
  using assms(2)
proof induction
  case (climbs_root s sc)
  then have "sg_scopes g ! s = sc" by (simp add: index_Some_iff)
  with climbs_root import_declared [OF assms(1) climbs_root(1), of i] show ?case
    by (subst resolve_name.simps) (auto simp: local_lookup_def split: option.splits)
next
  case (climbs_up s sc p ss)
  then have "sg_scopes g ! s = sc" by (simp add: index_Some_iff)
  with climbs_up import_declared [OF assms(1) climbs_up(1), of i] show ?case
    by (subst resolve_name.simps) (auto simp: local_lookup_def [of g i s] split: option.splits)
qed

text \<open>
  C24. In a well-formed graph, as every checker holds one, looking a name up from any scope returns, and gives
  the innermost hit on the way to the root, a declaration of a scope before one of its imports.
\<close>

theorem resolve_name_innermost:
  assumes "graph_ok g" and "s < length (sg_scopes g)"
  shows "\<exists>ss. climbs g s ss \<and> resolve_name g s i True = Some (first_hit (local_lookup g i) ss)"
  using climbs_total [OF assms] resolve_name_first_hit [OF assms(1)] by blast

text \<open>A function with a variable that shadows an outer one, and a block in it.\<close>

definition nested_graph :: scope_graph where
  "nested_graph = fst (graph_wrap (fst (insert_var (fst (graph_wrap
     (fst (insert_var graph_new 0 (Meta ''x'' 0) TUnit)) 0 (StFunction ''f''))) 1 (Meta ''x'' 1) TNever)) 1 (StBlock 0))"

lemma nested_graph_scopes: "length (sg_scopes nested_graph) = 3"
  by (simp add: nested_graph_def graph_new_def graph_wrap_def insert_var_def insert_declaration_def Let_def)

lemma nested_graph_ok: "graph_ok nested_graph"
proof -
  let ?g1 = "fst (insert_var graph_new 0 (Meta ''x'' 0) TUnit)"
  let ?g2 = "fst (graph_wrap ?g1 0 (StFunction ''f''))"
  let ?g3 = "fst (insert_var ?g2 1 (Meta ''x'' 1) TNever)"
  have "graph_ok ?g1" unfolding insert_var_def by (intro insert_declaration_ok graph_new_ok)
  moreover have "wrap_ok ?g1 0 (StFunction ''f'')"
    by (simp add: wrap_ok_def graph_new_def insert_var_def insert_declaration_def Let_def)
  ultimately have "graph_ok ?g2" by (rule graph_wrap_ok)
  then have "graph_ok ?g3" unfolding insert_var_def by (rule insert_declaration_ok)
  moreover have "wrap_ok ?g3 1 (StBlock 0)"
    by (simp add: wrap_ok_def graph_new_def graph_wrap_def insert_var_def insert_declaration_def Let_def)
  ultimately show ?thesis unfolding nested_graph_def by (rule graph_wrap_ok)
qed

theorem resolve_name_innermost_witness:
  "\<exists>ss. climbs nested_graph 2 ss \<and>
     resolve_name nested_graph 2 ''x'' True = Some (first_hit (local_lookup nested_graph ''x'') ss)"
  by (rule resolve_name_innermost [OF nested_graph_ok]) (simp add: nested_graph_scopes)

section \<open>Shadowing\<close>

lemma climbs_declare:
  "climbs g s ss \<Longrightarrow> sg_scopes g' = sg_scopes g \<Longrightarrow> climbs g' s ss"
  by (induction rule: climbs.induct) (auto intro: climbs.intros)

lemma first_hit_cong: "(\<And>x. x \<in> set xs \<Longrightarrow> f x = g x) \<Longrightarrow> first_hit f xs = first_hit g xs"
  by (induction xs) (auto split: option.splits)

lemma climbs_range: "climbs g s ss \<Longrightarrow> \<forall>x \<in> set ss. x < length (sg_scopes g)"
  by (induction rule: climbs.induct) (auto simp: index_Some_iff)

lemma climbs_hd: "climbs g s ss \<Longrightarrow> \<exists>rest. ss = s # rest"
  by (cases rule: climbs.cases) auto

text \<open>
  C31. Declaring a local variable either succeeds, and then it is what its name resolves to from its
  scope while every other name, and every scope that is not inside this one, resolves as before; or
  it reports the identifier of the earlier declaration of the name in the same scope and changes nothing.
\<close>

theorem insert_var_shadows:
  assumes ok: "graph_ok g" and s: "s < length (sg_scopes g)" and ins: "insert_var g s i ty = (g', r)"
  shows "(\<forall>n. r = Inr n \<longrightarrow>
      (\<exists>d. resolve_name g' s (node i) True = Some (Some d) \<and> dec_name d = n \<and>
         dec_kind d = DkValue VkLocal (Some ty) \<and> dec_id d = meta_id i) \<and>
      (\<forall>s' ss j. climbs g s' ss \<longrightarrow> j \<noteq> node i \<or> s \<notin> set ss \<longrightarrow>
         resolve_name g' s' j True = resolve_name g s' j True)) \<and>
    (\<forall>old. r = Inl old \<longrightarrow> g' = g \<and>
      (\<exists>d. resolve_name g s (node i) False = Some (Some d) \<and> dec_id d = old))"
proof (cases rule: insert_declaration_cases [of g s i "DkValue VkLocal (Some ty)" "[]" "\<lambda>_. False"])
  case new
  let ?n = "ResolvedName s (node i)"
  let ?d = "\<lparr>dec_name = ?n, dec_kind = DkValue VkLocal (Some ty), dec_id = meta_id i,
    dec_scope = None, dec_doc = []\<rparr>"
  have g': "g' = g\<lparr>sg_declarations := (sg_declarations g)(?n \<mapsto> ?d)\<rparr>" and r: "r = Inr ?n"
    using new ins by (auto simp: insert_var_def)
  have ok': "graph_ok g'" using insert_declaration_ok [OF ok] ins by (metis insert_var_def fst_conv)
  have "resolve_name g' s (node i) True = Some (Some ?d)"
    by (subst resolve_name.simps) (simp add: g')
  moreover have "resolve_name g' s' j True = resolve_name g s' j True"
    if c: "climbs g s' ss" and j: "j \<noteq> node i \<or> s \<notin> set ss" for s' ss j
  proof -
    have "local_lookup g' j x = local_lookup g j x" if x: "x \<in> set ss" for x
    proof -
      have "ResolvedName x j \<noteq> ?n" using j x by auto
      moreover have "\<forall>y. sc_imports (sg_scopes g ! x) j = Some y \<longrightarrow> snd y \<noteq> ?n"
        using import_declared [OF ok, of x _ j] climbs_range [OF c] x new(1)
        by (metis index_Some_iff)
      ultimately show ?thesis by (auto simp: local_lookup_def g' split: option.splits)
    qed
    then have "first_hit (local_lookup g' j) ss = first_hit (local_lookup g j) ss"
      by (rule first_hit_cong)
    moreover have "climbs g' s' ss" by (rule climbs_declare [OF c]) (simp add: g')
    ultimately show ?thesis
      using resolve_name_first_hit [OF ok c] resolve_name_first_hit [OF ok'] by simp
  qed
  ultimately show ?thesis using r by auto
next
  case (twice old)
  then have "g' = g" "r = Inl (dec_id old)" using ins by (auto simp: insert_var_def)
  with twice(1) show ?thesis by (auto simp: resolve_name.simps)
qed simp

theorem insert_var_shadows_witness:
  "\<exists>g' n d. insert_var graph_new 0 (Meta ''x'' 7) TUnit = (g', Inr n) \<and>
     resolve_name g' 0 ''x'' True = Some (Some d) \<and> dec_id d = 7"
proof -
  obtain g' r where ins: "insert_var graph_new 0 (Meta ''x'' 7) TUnit = (g', r)"
    by fastforce
  have r: "r = Inr (ResolvedName 0 ''x'')"
    using ins by (auto simp: insert_var_def insert_declaration_def graph_new_def Let_def)
  have "0 < length (sg_scopes graph_new)" by (simp add: graph_new_def)
  from insert_var_shadows [OF graph_new_ok this ins] r ins show ?thesis by auto
qed

section \<open>Climbing always ends\<close>

lemma module_idents_total:
  assumes "graph_ok g"
  shows "index (sg_scopes g) i = Some sc \<Longrightarrow> sc_type sc = StModule m \<Longrightarrow> \<exists>xs. module_idents g m = Some xs"
proof (induction i arbitrary: sc m rule: less_induct)
  case (less i)
  show ?case
  proof (cases "ms_parent_module m")
    case None
    then show ?thesis by (simp add: module_idents.simps [of g m])
  next
    case (Some p)
    with graph_okD [OF assms less.prems(1)] less.prems(2) obtain psc pm where
      p: "p < i" "index (sg_scopes g) p = Some psc" "sc_type psc = StModule pm"
      by (auto simp: scope_ok_def)
    from less.IH [OF p] obtain xs where "module_idents g pm = Some xs" by blast
    with Some p show ?thesis by (simp add: module_idents.simps [of g m])
  qed
qed

lemma show_scope_type_total:
  assumes "graph_ok g" and "index (sg_scopes g) i = Some sc"
  shows "\<exists>x. show_scope_type g (sc_type sc) = Some x"
proof (cases "sc_type sc")
  case (StModule m)
  with module_idents_total [OF assms] show ?thesis by (auto simp: show_scope_type_def print_module_def)
next
  case (StMatchArm k arm)
  then show ?thesis by (cases arm) (simp_all add: show_scope_type_def)
qed (simp_all add: show_scope_type_def)

lemma scope_idents_total:
  assumes "graph_ok g"
  shows "s < length (sg_scopes g) \<Longrightarrow> \<exists>xs. scope_idents g (Some s) = Some xs"
proof (induction s rule: less_induct)
  case (less s)
  then obtain sc where sc: "index (sg_scopes g) s = Some sc" by (simp add: index_def)
  obtain x where x: "show_scope_type g (sc_type sc) = Some x"
    using show_scope_type_total [OF assms sc] by blast
  show ?case
  proof (cases "sc_parent sc")
    case None
    with sc x show ?thesis by (simp add: scope_idents.simps [of g "Some s"] scope_idents.simps [of g None])
  next
    case (Some p)
    with graph_okD [OF assms sc] have "p < s" by (simp add: scope_ok_def)
    with less obtain xs where "scope_idents g (Some p) = Some xs" by fastforce
    with sc x Some show ?thesis by (simp add: scope_idents.simps [of g "Some s"])
  qed
qed

lemma parent_module_total:
  assumes "graph_ok g"
  shows "s < length (sg_scopes g) \<Longrightarrow> \<exists>d. parent_module g s = Some d"
proof (induction s rule: less_induct)
  case (less s)
  then obtain sc where sc: "index (sg_scopes g) s = Some sc" by (simp add: index_def)
  have up: ?case if no: "\<And>m. sc_type sc \<noteq> StModule m"
  proof (cases "sc_parent sc")
    case None
    with sc no show ?thesis
      by (cases "sc_type sc") (auto simp: parent_module.simps [of g s])
  next
    case (Some p)
    with graph_okD [OF assms sc] have "p < s" by (simp add: scope_ok_def)
    with less obtain d where "parent_module g p = Some d" by fastforce
    with sc Some no show ?thesis
      by (cases "sc_type sc") (auto simp: parent_module.simps [of g s])
  qed
  show ?case
  proof (cases "sc_type sc")
    case (StModule m)
    show ?thesis
    proof (cases "ms_parent_module m")
      case None
      with sc StModule show ?thesis by (simp add: parent_module.simps [of g s])
    next
      case (Some p)
      with graph_okD [OF assms sc] StModule obtain psc pm d where
        "index (sg_scopes g) p = Some psc" "sc_type psc = StModule pm" "sg_declarations g (ms_name pm) = Some d"
        by (auto simp: scope_ok_def)
      with sc StModule Some show ?thesis
        by (simp add: parent_module.simps [of g s] get_declaration_def)
    qed
  qed (use up in auto)
qed

text \<open>
  C32. In a well-formed graph printing any scope and finding its parent module return: no climb goes on for ever
  and none reaches one of the panics.
\<close>

theorem climbs_return:
  assumes "graph_ok g" and "s < length (sg_scopes g)"
  shows "(\<exists>x. print_scope g s = Some x) \<and> (\<exists>d. parent_module g s = Some d)"
  using scope_idents_total [OF assms] parent_module_total [OF assms] by (auto simp: print_scope_def)

theorem climbs_return_witness:
  "\<exists>x. print_scope nested_graph 2 = Some x"
  using climbs_return [OF nested_graph_ok, of 2] nested_graph_scopes by simp

end
