(* ===== verification/Ir_Value.thy ===== *)
theory Ir_Value
  imports Source_Text "HOL-Library.Word"
begin

unbundle bit_operations_syntax

text \<open>
  \<open>src/src/lir/value.rs\<close>: the values of the low-level representation, their types, and their bytes in
  memory.  An integer is a word of its width (read with \<open>sint\<close> when it is signed), a float its IEEE
  bit pattern, a \<open>char\<close> its code point, a pointer the 64-bit index the evaluator hands out.  Native
  byte order is a parameter.
\<close>

datatype ir_value =
  VBool bool
| VU8 "8 word"
| VU16 "16 word"
| VU32 "32 word"
| VU64 "64 word"
| VI8 "8 word"
| VI16 "16 word"
| VI32 "32 word"
| VI64 "64 word"
| VF32 "32 word"
| VF64 "64 word"
| VChar rchar
| VAsn "32 word"
| VPointer "64 word"

datatype ir_type =
  ItBool | ItU8 | ItU16 | ItU32 | ItU64 | ItI8 | ItI16 | ItI32 | ItI64
| ItF32 | ItF64 | ItChar | ItAsn | ItPointer

fun ir_bytes :: "ir_type \<Rightarrow> nat" where
  "ir_bytes ItBool = 1"
| "ir_bytes ItU8 = 1"
| "ir_bytes ItI8 = 1"
| "ir_bytes ItU16 = 2"
| "ir_bytes ItI16 = 2"
| "ir_bytes ItU32 = 4"
| "ir_bytes ItI32 = 4"
| "ir_bytes ItF32 = 4"
| "ir_bytes ItAsn = 4"
| "ir_bytes ItChar = 4"
| "ir_bytes ItU64 = 8"
| "ir_bytes ItI64 = 8"
| "ir_bytes ItF64 = 8"
| "ir_bytes ItPointer = 64 div 8"

definition ir_alignment :: "ir_type \<Rightarrow> nat" where
  "ir_alignment t = ir_bytes t"

fun show_ir_type :: "ir_type \<Rightarrow> string" where
  "show_ir_type ItBool = ''bool''"
| "show_ir_type ItU8 = ''u8''"
| "show_ir_type ItU16 = ''u16''"
| "show_ir_type ItU32 = ''u32''"
| "show_ir_type ItU64 = ''u64''"
| "show_ir_type ItI8 = ''i8''"
| "show_ir_type ItI16 = ''i16''"
| "show_ir_type ItI32 = ''i32''"
| "show_ir_type ItI64 = ''i64''"
| "show_ir_type ItF32 = ''f32''"
| "show_ir_type ItF64 = ''f64''"
| "show_ir_type ItChar = ''char''"
| "show_ir_type ItAsn = ''Asn''"
| "show_ir_type ItPointer = ''Pointer''"

text \<open>\<open>PartialEq for IrValue\<close>: a panic on any pair the match does not list.\<close>

definition ir_eq :: "ir_value \<Rightarrow> ir_value \<Rightarrow> bool option" where
  "ir_eq a b = (case (a, b) of
     (VBool l, VBool r) \<Rightarrow> Some (l = r)
   | (VU8 l, VU8 r) \<Rightarrow> Some (l = r)
   | (VU16 l, VU16 r) \<Rightarrow> Some (l = r)
   | (VU32 l, VU32 r) \<Rightarrow> Some (l = r)
   | (VI8 l, VI8 r) \<Rightarrow> Some (l = r)
   | (VI16 l, VI16 r) \<Rightarrow> Some (l = r)
   | (VI32 l, VI32 r) \<Rightarrow> Some (l = r)
   | (VAsn l, VAsn r) \<Rightarrow> Some (l = r)
   | (VPointer l, VPointer r) \<Rightarrow> Some (l = r)
   | _ \<Rightarrow> None)"

fun get_type :: "ir_value \<Rightarrow> ir_type" where
  "get_type (VBool _) = ItBool"
| "get_type (VU8 _) = ItU8"
| "get_type (VU16 _) = ItU16"
| "get_type (VU32 _) = ItU32"
| "get_type (VU64 _) = ItU32"
| "get_type (VI8 _) = ItI8"
| "get_type (VI16 _) = ItI16"
| "get_type (VI32 _) = ItI32"
| "get_type (VI64 _) = ItI64"
| "get_type (VF32 _) = ItF32"
| "get_type (VF64 _) = ItF64"
| "get_type (VAsn _) = ItAsn"
| "get_type (VChar _) = ItChar"
| "get_type (VPointer _) = ItPointer"

section \<open>Bytes of words\<close>

type_synonym byte = "8 word"

datatype byte_order = LittleEndian | BigEndian

definition le_bytes :: "nat \<Rightarrow> 'a::len word \<Rightarrow> byte list" where
  "le_bytes n w = map (\<lambda>i. ucast (drop_bit (8 * i) w)) [0..<n]"

fun of_le_bytes :: "byte list \<Rightarrow> 'a::len word" where
  "of_le_bytes [] = 0"
| "of_le_bytes (b # bs) = ucast b OR push_bit 8 (of_le_bytes bs)"

definition to_ne_bytes :: "byte_order \<Rightarrow> nat \<Rightarrow> 'a::len word \<Rightarrow> byte list" where
  "to_ne_bytes bo n w = (case bo of LittleEndian \<Rightarrow> le_bytes n w | BigEndian \<Rightarrow> rev (le_bytes n w))"

definition from_ne_bytes :: "byte_order \<Rightarrow> byte list \<Rightarrow> 'a::len word" where
  "from_ne_bytes bo bs = (case bo of LittleEndian \<Rightarrow> of_le_bytes bs | BigEndian \<Rightarrow> of_le_bytes (rev bs))"

lemma length_to_ne_bytes [simp]: "length (to_ne_bytes bo n w) = n"
  by (simp add: to_ne_bytes_def le_bytes_def split: byte_order.split)

lemma bit_of_le_bytes:
  "bit (of_le_bytes bs :: 'a::len word) k \<longleftrightarrow>
     k < LENGTH('a) \<and> k div 8 < length bs \<and> bit (bs ! (k div 8)) (k mod 8)"
proof (induction bs arbitrary: k)
  case Nil
  then show ?case by simp
next
  case (Cons b bs)
  show ?case
  proof (cases "k < 8")
    case True
    then show ?thesis
      by (auto simp: bit_or_iff bit_push_bit_iff bit_ucast_iff)
  next
    case False
    then have b: "\<not> bit b k" using bit_imp_le_length [of b k] by auto
    have k: "(k - 8) mod 8 = k mod 8" "k div 8 = Suc ((k - 8) div 8)"
      using False by (auto simp: le_mod_geq le_div_geq)
    have "bit (push_bit 8 (of_le_bytes bs :: 'a word)) k \<longleftrightarrow>
        k < LENGTH('a) \<and> bit (of_le_bytes bs :: 'a word) (k - 8)"
      using False by (auto simp: bit_push_bit_iff)
    also have "\<dots> \<longleftrightarrow> k < LENGTH('a) \<and> k div 8 < length (b # bs) \<and> bit ((b # bs) ! (k div 8)) (k mod 8)"
      using False Cons.IH [of "k - 8"] unfolding k by auto
    finally show ?thesis using b by (simp add: bit_or_iff bit_ucast_iff)
  qed
qed

lemma of_le_bytes_le_bytes:
  assumes "LENGTH('a::len) = 8 * n"
  shows "of_le_bytes (le_bytes n w) = (w :: 'a word)"
proof (rule bit_word_eqI)
  fix k assume k: "k < LENGTH('a)"
  then have "k div 8 < n" using assms by auto
  moreover have "8 * (k div 8) + k mod 8 = k" by simp
  moreover have "k mod 8 < 8" by simp
  ultimately show "bit (of_le_bytes (le_bytes n w) :: 'a word) k = bit w k"
    using k by (simp add: bit_of_le_bytes le_bytes_def bit_ucast_iff bit_drop_bit_eq)
qed

lemma from_to_ne_bytes:
  "LENGTH('a::len) = 8 * n \<Longrightarrow> from_ne_bytes bo (to_ne_bytes bo n w) = (w :: 'a word)"
  by (simp add: from_ne_bytes_def to_ne_bytes_def of_le_bytes_le_bytes split: byte_order.split)

section \<open>Values in memory\<close>

fun as_vec :: "byte_order \<Rightarrow> ir_value \<Rightarrow> byte list" where
  "as_vec bo (VBool b) = to_ne_bytes bo 1 (of_bool b :: 8 word)"
| "as_vec bo (VU8 x) = to_ne_bytes bo 1 x"
| "as_vec bo (VU16 x) = to_ne_bytes bo 2 x"
| "as_vec bo (VU32 x) = to_ne_bytes bo 4 x"
| "as_vec bo (VU64 x) = to_ne_bytes bo 8 x"
| "as_vec bo (VI8 x) = to_ne_bytes bo 1 x"
| "as_vec bo (VI16 x) = to_ne_bytes bo 2 x"
| "as_vec bo (VI32 x) = to_ne_bytes bo 4 x"
| "as_vec bo (VI64 x) = to_ne_bytes bo 8 x"
| "as_vec bo (VF32 x) = to_ne_bytes bo 4 x"
| "as_vec bo (VF64 x) = to_ne_bytes bo 8 x"
| "as_vec bo (VAsn x) = to_ne_bytes bo 4 x"
| "as_vec bo (VChar x) = to_ne_bytes bo 4 (word_of_nat x :: 32 word)"
| "as_vec bo (VPointer x) = to_ne_bytes bo 8 x"

text \<open>\<open>char::from_u32\<close>.\<close>

definition char_from_u32 :: "32 word \<Rightarrow> rchar option" where
  "char_from_u32 w = (let c = unat w in
     if c < 0xD800 \<or> (0xE000 \<le> c \<and> c < 0x110000) then Some c else None)"

definition is_char :: "rchar \<Rightarrow> bool" where
  "is_char c \<longleftrightarrow> c < 0xD800 \<or> (0xE000 \<le> c \<and> c < 0x110000)"

text \<open>A slice of another length than the array, an invalid bool and an invalid char are panics.\<close>

fun from_slice :: "byte_order \<Rightarrow> ir_type \<Rightarrow> byte list \<Rightarrow> ir_value option" where
  "from_slice bo ItBool val =
     (if length val \<noteq> 1 then None
      else if val ! 0 = 0 then Some (VBool False)
      else if val ! 0 = 1 then Some (VBool True)
      else None)"
| "from_slice bo ItU8 val = (if length val \<noteq> 1 then None else Some (VU8 (from_ne_bytes bo val)))"
| "from_slice bo ItU16 val = (if length val \<noteq> 2 then None else Some (VU16 (from_ne_bytes bo val)))"
| "from_slice bo ItU32 val = (if length val \<noteq> 4 then None else Some (VU32 (from_ne_bytes bo val)))"
| "from_slice bo ItU64 val = (if length val \<noteq> 8 then None else Some (VU64 (from_ne_bytes bo val)))"
| "from_slice bo ItI8 val = (if length val \<noteq> 1 then None else Some (VI8 (from_ne_bytes bo val)))"
| "from_slice bo ItI16 val = (if length val \<noteq> 2 then None else Some (VI16 (from_ne_bytes bo val)))"
| "from_slice bo ItI32 val = (if length val \<noteq> 4 then None else Some (VI32 (from_ne_bytes bo val)))"
| "from_slice bo ItI64 val = (if length val \<noteq> 8 then None else Some (VI64 (from_ne_bytes bo val)))"
| "from_slice bo ItF32 val = (if length val \<noteq> 4 then None else Some (VF32 (from_ne_bytes bo val)))"
| "from_slice bo ItF64 val = (if length val \<noteq> 8 then None else Some (VF64 (from_ne_bytes bo val)))"
| "from_slice bo ItChar val =
     (if length val \<noteq> 4 then None else map_option VChar (char_from_u32 (from_ne_bytes bo val)))"
| "from_slice bo ItAsn val = (if length val \<noteq> 4 then None else Some (VAsn (from_ne_bytes bo val)))"
| "from_slice bo ItPointer val = (if length val \<noteq> 64 div 8 then None else Some (VPointer (from_ne_bytes bo val)))"

fun as_bool :: "ir_value \<Rightarrow> bool option" where
  "as_bool (VBool x) = Some x"
| "as_bool _ = None"

fun as_u64 :: "ir_value \<Rightarrow> 64 word option" where
  "as_u64 (VU8 x) = Some (ucast x)"
| "as_u64 (VU16 x) = Some (ucast x)"
| "as_u64 (VU32 x) = Some (ucast x)"
| "as_u64 (VU64 x) = Some x"
| "as_u64 _ = None"

fun as_i64 :: "ir_value \<Rightarrow> 64 word option" where
  "as_i64 (VI8 x) = Some (scast x)"
| "as_i64 (VI16 x) = Some (scast x)"
| "as_i64 (VI32 x) = Some (scast x)"
| "as_i64 (VI64 x) = Some x"
| "as_i64 _ = None"

fun switch_on :: "ir_value \<Rightarrow> 32 word option" where
  "switch_on (VBool b) = Some (of_bool b)"
| "switch_on (VU8 x) = Some (ucast x)"
| "switch_on (VU16 x) = Some (ucast x)"
| "switch_on (VU32 x) = Some x"
| "switch_on _ = None"

section \<open>Round trip\<close>

text \<open>The type whose variant a value has, and the values whose \<open>char\<close> is one.\<close>

fun variant_type :: "ir_value \<Rightarrow> ir_type" where
  "variant_type (VU64 _) = ItU64"
| "variant_type v = get_type v"

fun ir_valid :: "ir_value \<Rightarrow> bool" where
  "ir_valid (VChar c) = is_char c"
| "ir_valid _ = True"

lemma length_as_vec: "length (as_vec bo v) = ir_bytes (variant_type v)"
  by (cases v) simp_all

lemma from_to_ne_bytes_simps [simp]:
  "from_ne_bytes bo (to_ne_bytes bo 1 (w1 :: 8 word)) = w1"
  "from_ne_bytes bo (to_ne_bytes bo (Suc 0) (w1 :: 8 word)) = w1"
  "from_ne_bytes bo (to_ne_bytes bo 2 (w2 :: 16 word)) = w2"
  "from_ne_bytes bo (to_ne_bytes bo 4 (w4 :: 32 word)) = w4"
  "from_ne_bytes bo (to_ne_bytes bo 8 (w8 :: 64 word)) = w8"
  by (simp_all add: from_to_ne_bytes)

lemma char_from_u32_of_nat: "is_char c \<Longrightarrow> char_from_u32 (word_of_nat c) = Some c"
  by (auto simp: char_from_u32_def is_char_def unat_of_nat Let_def)

lemma to_ne_bytes_single: "to_ne_bytes bo (Suc 0) (w :: 8 word) = [w]"
  by (simp add: to_ne_bytes_def le_bytes_def split: byte_order.split)

lemma from_ne_bytes_single: "from_ne_bytes bo [w] = (w :: 8 word)"
  using from_to_ne_bytes [of 1 bo w] by (simp add: to_ne_bytes_single)

lemma from_slice_as_vec:
  "ir_valid v \<Longrightarrow> from_slice bo (variant_type v) (as_vec bo v) = Some v"
  by (cases v) (simp_all add: char_from_u32_of_nat to_ne_bytes_single from_ne_bytes_single)

text \<open>
  C27. Writing a value to memory and reading it back at the type it was written with gives the value,
  in either byte order.  At the type \<open>get_type\<close> reports this holds for every value but a \<open>u64\<close>, which
  \<open>get_type\<close> calls a \<open>u32\<close>, so that reading its eight bytes panics.
\<close>

theorem value_memory_roundtrip:
  assumes "ir_valid v"
  shows "length (as_vec bo v) = ir_bytes (variant_type v) \<and>
    from_slice bo (variant_type v) (as_vec bo v) = Some v \<and>
    from_slice bo (get_type v) (as_vec bo v) = (case v of VU64 _ \<Rightarrow> None | _ \<Rightarrow> Some v)"
proof -
  have "from_slice bo (get_type v) (as_vec bo v) = (case v of VU64 _ \<Rightarrow> None | _ \<Rightarrow> Some v)"
  proof (cases "\<exists>x. v = VU64 x")
    case False
    then have "variant_type v = get_type v" by (cases v) auto
    with from_slice_as_vec [OF assms, of bo] False show ?thesis by (cases v) auto
  qed auto
  with from_slice_as_vec [OF assms] show ?thesis by (simp add: length_as_vec)
qed

theorem value_memory_roundtrip_witness:
  "from_slice LittleEndian ItChar (as_vec LittleEndian (VChar 0x1F600)) = Some (VChar 0x1F600)"
  using value_memory_roundtrip [of "VChar 0x1F600" LittleEndian] by (simp add: is_char_def)

text \<open>
  Comparing two values of the same type panics for \<open>u64\<close>, \<open>i64\<close>, the floats and \<open>char\<close>, and is
  equality for every other type; comparing values of different types always panics.
\<close>

theorem ir_eq_partial:
  "ir_eq a b =
     (if variant_type a = variant_type b \<and>
         variant_type a \<notin> {ItU64, ItI64, ItF32, ItF64, ItChar} then Some (a = b) else None)"
  by (cases a; cases b; simp add: ir_eq_def)

end
