(* ===== verification/Lir.thy ===== *)
theory Lir
  imports Ir_Value Labels Type_Defs
begin

text \<open>
  \<open>src/src/lir/mod.rs\<close>: variables, operands, instructions, blocks and items of the low-level
  representation.  A pointer to a Rust function (clone, drop, equality, string initialisation) is a
  number: what it does is a parameter of the evaluator.
\<close>

datatype ir_var_kind = IvExplicit ident | IvTmp nat | IvReturn | IvContext

record ir_var =
  iv_scope :: scope_ref
  iv_kind :: ir_var_kind

datatype operand = OpPlace ir_var | OpValue ir_value

type_synonym clone_fn = nat
type_synonym drop_fn = nat
type_synonym eq_fn = nat
type_synonym init_fn = nat

datatype int_cmp = IEq | INe | IULt | IULe | IUGt | IUGe | ISLt | ISLe | ISGt | ISGe
datatype float_cmp = FEq | FNe | FLt | FLe | FGt | FGe

datatype ir_instr =
  LJump label_ref
| LSwitch operand "(nat \<times> label_ref) list" label_ref
| LAssign ir_var operand ir_type
| LConstantAddress ir_var resolved_name
| LFunctionAddress ir_var ident
| LInitString ir_var str init_fn
| LCall "(ir_var \<times> ir_type) option" "operand option" ident "operand list" "ir_var option"
| LCallRuntime nat "operand list"
| LReturn "operand option"
| LIntCmp ir_var int_cmp operand operand
| LFloatCmp ir_var float_cmp operand operand
| LAdd ir_var operand operand
| LSub ir_var operand operand
| LMul ir_var operand operand
| LDiv ir_var bool operand operand
| LMod ir_var bool operand operand
| LFDiv ir_var operand operand
| LNot ir_var operand
| LNegate ir_var operand
| LOffset ir_var operand nat
| LInitialize ir_var "byte list" layout
| LWrite operand operand
| LRead ir_var operand ir_type
| LCopy operand operand nat
| LClone operand operand clone_fn
| LEq ir_var operand operand eq_fn
| LDrop operand "drop_fn option"

datatype value_or_slot = VsVal ir_type | VsStackSlot layout

record ir_signature =
  is_parameters :: "(ident \<times> ir_type) list"
  is_context :: bool
  is_return_ptr :: bool
  is_return_type :: "ir_type option"

datatype ir_item_kind =
  IkConstant rtype "layout option" nat resolved_name
| IkFunction "signature option" ir_signature

record ir_block =
  ib_label :: label_ref
  ib_instructions :: "ir_instr list"

record ir_item =
  ii_name :: ident
  ii_scope :: scope_ref
  ii_kind :: ir_item_kind
  ii_entry_block :: label_ref
  ii_variables :: "(ir_var \<times> value_or_slot) list"
  ii_blocks :: "ir_block list"
  ii_public :: bool

type_synonym lir = "ir_item list"

fun show_int_cmp :: "int_cmp \<Rightarrow> string" where
  "show_int_cmp IEq = ''eq''"
| "show_int_cmp INe = ''ne''"
| "show_int_cmp IULt = ''ult''"
| "show_int_cmp IULe = ''ule''"
| "show_int_cmp IUGt = ''ugt''"
| "show_int_cmp IUGe = ''uge''"
| "show_int_cmp ISLt = ''slt''"
| "show_int_cmp ISLe = ''sle''"
| "show_int_cmp ISGt = ''sgt''"
| "show_int_cmp ISGe = ''sge''"

fun show_float_cmp :: "float_cmp \<Rightarrow> string" where
  "show_float_cmp FEq = ''eq''"
| "show_float_cmp FNe = ''ne''"
| "show_float_cmp FLt = ''lt''"
| "show_float_cmp FLe = ''le''"
| "show_float_cmp FGt = ''gt''"
| "show_float_cmp FGe = ''ge''"

lemma show_int_cmp_inject: "show_int_cmp a = show_int_cmp b \<longleftrightarrow> a = b"
  by (cases a; cases b; simp)

lemma show_float_cmp_inject: "show_float_cmp a = show_float_cmp b \<longleftrightarrow> a = b"
  by (cases a; cases b; simp)

end
