(* ===== verification/Ir_Memory.thy ===== *)
theory Ir_Memory
  imports Lir
begin

text \<open>
  The memory of the evaluator, from \<open>src/src/lir/eval.rs\<close>: a stack of frames with allocations, and
  the table of all pointers given out.  A pointer value is an index into that table.  A failed
  \<open>assert!\<close> or index is \<open>None\<close>.  The bytes behind a pointer to a host constant are a parameter
  (\<open>ext\<close>, by address).  The lemmas show what the documentation promises: no access to a
  frame that has been popped, none out of bounds, none unaligned.
\<close>

declare index_None_iff [simp del]

section \<open>The interface of a byte store\<close>

locale byte_store =
  fixes rd :: "'m \<Rightarrow> 'p \<Rightarrow> nat \<Rightarrow> byte list option"
    and wr :: "'m \<Rightarrow> 'p \<Rightarrow> byte list \<Rightarrow> 'm option"
    and apart :: "'m \<Rightarrow> 'p \<Rightarrow> nat \<Rightarrow> 'p \<Rightarrow> nat \<Rightarrow> bool"
  assumes rd_length: "rd m p n = Some bs \<Longrightarrow> length bs = n"
    and rd_wr: "wr m p bs = Some m' \<Longrightarrow> rd m' p (length bs) = Some bs"
    and rd_apart: "wr m p bs = Some m' \<Longrightarrow> apart m p (length bs) q n \<Longrightarrow> rd m' q n = rd m q n"
begin

definition store :: "byte_order \<Rightarrow> 'm \<Rightarrow> 'p \<Rightarrow> ir_value \<Rightarrow> 'm option" where
  "store bo m p v = wr m p (as_vec bo v)"

definition load :: "byte_order \<Rightarrow> 'm \<Rightarrow> 'p \<Rightarrow> ir_type \<Rightarrow> ir_value option" where
  "load bo m p t = Option.bind (rd m p (ir_bytes t)) (from_slice bo t)"

lemma load_store:
  "store bo m p v = Some m' \<Longrightarrow> ir_valid v \<Longrightarrow> load bo m' p (variant_type v) = Some v"
  using rd_wr [of m p "as_vec bo v" m']
  by (simp add: store_def load_def length_as_vec from_slice_as_vec)

lemma load_apart:
  "store bo m p v = Some m' \<Longrightarrow> apart m p (ir_bytes (variant_type v)) q (ir_bytes t) \<Longrightarrow>
    load bo m' q t = load bo m q t"
  using rd_apart [of m p "as_vec bo v" m' q "ir_bytes t"]
  by (simp add: store_def load_def length_as_vec)

lemma copy_reads:
  "rd m src n = Some bs \<Longrightarrow> wr m dst bs = Some m' \<Longrightarrow> rd m' dst n = Some bs"
  using rd_wr [of m dst bs m'] rd_length [of m src n bs] by simp

end

record local_pointer =
  stack_index :: nat
  stack_id :: nat
  allocation_index :: nat
  allocation_offset :: nat

datatype mem_pointer = PGlobal nat | PLocal local_pointer

record stack_frame =
  fr_id :: nat
  fr_return_address :: nat
  fr_return_place :: "ir_var option"
  fr_allocations :: "byte list list"

record memory =
  mem_id_counter :: nat
  mem_stack :: "stack_frame list"
  mem_pointers :: "mem_pointer list"

text \<open>What \<open>Memory::get\<close> hands to Rust code: a raw address.\<close>

datatype raw_pointer = RawGlobal nat | RawLocal nat nat nat

section \<open>Allocations and frames\<close>

definition alloc_write :: "byte list \<Rightarrow> nat \<Rightarrow> byte list \<Rightarrow> byte list option" where
  "alloc_write a off val =
     (if \<not> off + length val \<le> length a then None
      else if \<not> length val dvd off then None
      else Some (take off a @ val @ drop (off + length val) a))"

definition alloc_read :: "byte list \<Rightarrow> nat \<Rightarrow> nat \<Rightarrow> byte list option" where
  "alloc_read a off n =
     (if \<not> off + n \<le> length a then None
      else if \<not> n dvd off then None
      else Some (take n (drop off a)))"

definition frame_write :: "stack_frame \<Rightarrow> local_pointer \<Rightarrow> byte list \<Rightarrow> stack_frame option" where
  "frame_write f p val = do {
     a \<leftarrow> index (fr_allocations f) (allocation_index p);
     a' \<leftarrow> alloc_write a (allocation_offset p) val;
     Some (f\<lparr>fr_allocations := (fr_allocations f)[allocation_index p := a']\<rparr>) }"

definition frame_read :: "stack_frame \<Rightarrow> local_pointer \<Rightarrow> nat \<Rightarrow> byte list option" where
  "frame_read f p n = do {
     a \<leftarrow> index (fr_allocations f) (allocation_index p);
     alloc_read a (allocation_offset p) n }"

section \<open>Memory\<close>

definition mem_new :: memory where
  "mem_new = \<lparr>mem_id_counter = 1,
     mem_stack = [\<lparr>fr_id = 0, fr_return_address = 0, fr_return_place = None, fr_allocations = []\<rparr>],
     mem_pointers = []\<rparr>"

definition mem_write :: "memory \<Rightarrow> nat \<Rightarrow> byte list \<Rightarrow> memory option" where
  "mem_write m p val = do {
     ptr \<leftarrow> index (mem_pointers m) p;
     (case ptr of
        PLocal lp \<Rightarrow> do {
          f \<leftarrow> index (mem_stack m) (stack_index lp);
          (if fr_id f \<noteq> stack_id lp then None
           else do {
             f' \<leftarrow> frame_write f lp val;
             Some (m\<lparr>mem_stack := (mem_stack m)[stack_index lp := f']\<rparr>) }) }
      | PGlobal _ \<Rightarrow> None) }"

definition mem_read_slice :: "(nat \<Rightarrow> byte) \<Rightarrow> memory \<Rightarrow> nat \<Rightarrow> nat \<Rightarrow> byte list option" where
  "mem_read_slice ext m p n = do {
     ptr \<leftarrow> index (mem_pointers m) p;
     (case ptr of
        PLocal lp \<Rightarrow> do {
          f \<leftarrow> index (mem_stack m) (stack_index lp);
          (if fr_id f \<noteq> stack_id lp then None else frame_read f lp n) }
      | PGlobal addr \<Rightarrow> Some (map (\<lambda>i. ext (addr + i)) [0..<n])) }"

definition mem_copy :: "(nat \<Rightarrow> byte) \<Rightarrow> memory \<Rightarrow> nat \<Rightarrow> nat \<Rightarrow> nat \<Rightarrow> memory option" where
  "mem_copy ext m dst src n = do {
     data \<leftarrow> mem_read_slice ext m src n;
     mem_write m dst data }"

definition mem_push_frame :: "memory \<Rightarrow> nat \<Rightarrow> ir_var option \<Rightarrow> memory" where
  "mem_push_frame m return_address return_place =
     (let i = mem_id_counter m
      in m\<lparr>mem_id_counter := mem_id_counter m + 1,
           mem_stack := mem_stack m @
             [\<lparr>fr_id = i, fr_return_address = return_address, fr_return_place = return_place,
               fr_allocations = []\<rparr>]\<rparr>)"

definition mem_pop_frame :: "memory \<Rightarrow> memory \<times> stack_frame option" where
  "mem_pop_frame m =
     (if length (mem_stack m) = 1 then (m, None)
      else if mem_stack m = [] then (m, None)
      else (m\<lparr>mem_stack := butlast (mem_stack m)\<rparr>, Some (last (mem_stack m))))"

definition mem_offset_by :: "memory \<Rightarrow> nat \<Rightarrow> nat \<Rightarrow> (memory \<times> nat) option" where
  "mem_offset_by m p off = do {
     ptr \<leftarrow> index (mem_pointers m) p;
     (case ptr of
        PLocal lp \<Rightarrow> do {
          off' \<leftarrow> usize (allocation_offset lp + off);
          Some (m\<lparr>mem_pointers := mem_pointers m @ [PLocal (lp\<lparr>allocation_offset := off'\<rparr>)]\<rparr>,
                length (mem_pointers m)) }
      | PGlobal _ \<Rightarrow> None) }"

definition mem_allocate :: "memory \<Rightarrow> nat \<Rightarrow> (memory \<times> nat) option" where
  "mem_allocate m bytes =
     (if mem_stack m = [] then None
      else let i = length (mem_stack m) - 1; f = mem_stack m ! i;
               f' = f\<lparr>fr_allocations := fr_allocations f @ [replicate bytes 0]\<rparr>;
               lp = \<lparr>stack_index = i, stack_id = fr_id f,
                     allocation_index = length (fr_allocations f), allocation_offset = 0\<rparr>
           in Some (m\<lparr>mem_stack := (mem_stack m)[i := f'], mem_pointers := mem_pointers m @ [PLocal lp]\<rparr>,
                    length (mem_pointers m)))"

definition mem_push_global :: "memory \<Rightarrow> nat \<Rightarrow> memory \<times> nat" where
  "mem_push_global m addr = (m\<lparr>mem_pointers := mem_pointers m @ [PGlobal addr]\<rparr>, length (mem_pointers m))"

definition mem_get :: "memory \<Rightarrow> nat \<Rightarrow> raw_pointer option" where
  "mem_get m p = do {
     ptr \<leftarrow> index (mem_pointers m) p;
     (case ptr of
        PLocal lp \<Rightarrow> do {
          f \<leftarrow> index (mem_stack m) (stack_index lp);
          a \<leftarrow> index (fr_allocations f) (allocation_index lp);
          _ \<leftarrow> index a (allocation_offset lp);
          Some (RawLocal (stack_index lp) (allocation_index lp) (allocation_offset lp)) }
      | PGlobal addr \<Rightarrow> Some (RawGlobal addr)) }"

section \<open>The invariant\<close>

text \<open>Frame identifiers increase towards the top of the stack and are below the counter; so are those in pointers.\<close>

definition frame_ids :: "memory \<Rightarrow> nat list" where
  "frame_ids m = map fr_id (mem_stack m)"

definition memory_ok :: "memory \<Rightarrow> bool" where
  "memory_ok m \<longleftrightarrow> mem_stack m \<noteq> [] \<and> sorted_wrt (<) (frame_ids m) \<and>
     (\<forall>i \<in> set (frame_ids m). i < mem_id_counter m) \<and>
     (\<forall>lp. PLocal lp \<in> set (mem_pointers m) \<longrightarrow> stack_id lp < mem_id_counter m)"

text \<open>How an operation may change memory: the counter grows, pointers are only added, frames keep their identity.\<close>

datatype mem_op =
  MWrite nat "byte list"
| MCopy nat nat nat
| MPush nat "ir_var option"
| MPop
| MOffset nat nat
| MAllocate nat
| MGlobal nat

fun mem_step :: "(nat \<Rightarrow> byte) \<Rightarrow> memory \<Rightarrow> mem_op \<Rightarrow> memory option" where
  "mem_step ext m (MWrite p val) = mem_write m p val"
| "mem_step ext m (MCopy dst src n) = mem_copy ext m dst src n"
| "mem_step ext m (MPush ra rp) = Some (mem_push_frame m ra rp)"
| "mem_step ext m MPop = Some (fst (mem_pop_frame m))"
| "mem_step ext m (MOffset p off) = map_option fst (mem_offset_by m p off)"
| "mem_step ext m (MAllocate n) = map_option fst (mem_allocate m n)"
| "mem_step ext m (MGlobal addr) = Some (fst (mem_push_global m addr))"

fun mem_run :: "(nat \<Rightarrow> byte) \<Rightarrow> memory \<Rightarrow> mem_op list \<Rightarrow> memory option" where
  "mem_run ext m [] = Some m"
| "mem_run ext m (op # ops) = do { m' \<leftarrow> mem_step ext m op; mem_run ext m' ops }"

lemma mem_write_cases:
  assumes "mem_write m p val = Some m'"
  obtains lp f f' where "index (mem_pointers m) p = Some (PLocal lp)"
    "index (mem_stack m) (stack_index lp) = Some f" "fr_id f = stack_id lp"
    "frame_write f lp val = Some f'" "m' = m\<lparr>mem_stack := (mem_stack m)[stack_index lp := f']\<rparr>"
    "fr_id f' = fr_id f"
proof -
  from assms obtain ptr where ptr: "index (mem_pointers m) p = Some ptr"
    by (auto simp: mem_write_def bind_eq_Some_conv)
  show thesis
  proof (cases ptr)
    case (PGlobal a)
    with assms ptr show thesis by (simp add: mem_write_def)
  next
    case (PLocal lp)
    with assms ptr obtain f f' where "index (mem_stack m) (stack_index lp) = Some f" "fr_id f = stack_id lp"
      "frame_write f lp val = Some f'" "m' = m\<lparr>mem_stack := (mem_stack m)[stack_index lp := f']\<rparr>"
      by (auto simp: mem_write_def bind_eq_Some_conv split: if_splits)
    moreover from this(3) have "fr_id f' = fr_id f" by (auto simp: frame_write_def bind_eq_Some_conv)
    ultimately show thesis using that ptr PLocal by blast
  qed
qed

lemma frame_ids_update:
  "index (mem_stack m) i = Some f \<Longrightarrow> fr_id f' = fr_id f \<Longrightarrow>
    map fr_id ((mem_stack m)[i := f']) = frame_ids m"
  by (auto simp: frame_ids_def index_Some_iff map_update list_update_same_conv)

text \<open>Every operation keeps the invariant, and a frame identifier that is gone stays gone.\<close>

lemma mem_write_ids:
  assumes "mem_write m p val = Some m'"
  shows "frame_ids m' = frame_ids m \<and> mem_pointers m' = mem_pointers m \<and> mem_id_counter m' = mem_id_counter m"
  using assms by (elim mem_write_cases) (simp add: frame_ids_def frame_ids_update [unfolded frame_ids_def])

lemma mem_step_ids:
  assumes "mem_step ext m op = Some m'" and "memory_ok m"
  shows "memory_ok m' \<and> (\<exists>ps. mem_pointers m' = mem_pointers m @ ps) \<and>
    mem_id_counter m \<le> mem_id_counter m' \<and>
    (\<forall>i \<in> set (frame_ids m'). i \<in> set (frame_ids m) \<or> mem_id_counter m \<le> i)"
proof (cases op)
  case (MWrite p val)
  with assms mem_write_ids [of m p val m'] show ?thesis
    by (auto simp: memory_ok_def frame_ids_def)
next
  case (MCopy dst src n)
  with assms obtain data where "mem_write m dst data = Some m'"
    by (auto simp: mem_copy_def bind_eq_Some_conv)
  with assms(2) mem_write_ids [of m dst data m'] show ?thesis
    by (auto simp: memory_ok_def frame_ids_def)
next
  case (MPush ra rp)
  with assms have m': "m' = mem_push_frame m ra rp" by simp
  have ids: "frame_ids m' = frame_ids m @ [mem_id_counter m]"
    by (simp add: m' frame_ids_def mem_push_frame_def Let_def)
  have "mem_stack m' \<noteq> []" "mem_pointers m' = mem_pointers m" "mem_id_counter m' = Suc (mem_id_counter m)"
    by (simp_all add: m' mem_push_frame_def Let_def)
  with ids assms(2) show ?thesis by (auto simp: memory_ok_def sorted_wrt_append less_Suc_eq)
next
  case MPop
  show ?thesis
  proof (cases "length (mem_stack m) = 1")
    case True
    with MPop assms show ?thesis by (auto simp: mem_pop_frame_def)
  next
    case False
    with assms(2) obtain fs f where fs: "mem_stack m = fs @ [f]" "fs \<noteq> []"
      by (cases "mem_stack m" rule: rev_cases) (auto simp: memory_ok_def)
    with MPop assms(1) have "m' = m\<lparr>mem_stack := fs\<rparr>" by (simp add: mem_pop_frame_def)
    with fs assms(2) show ?thesis by (auto simp: memory_ok_def frame_ids_def sorted_wrt_append)
  qed
next
  case (MOffset p off)
  with assms(1) obtain ptr where ptr: "index (mem_pointers m) p = Some ptr"
    by (auto simp: mem_offset_by_def bind_eq_Some_conv)
  show ?thesis
  proof (cases ptr)
    case (PGlobal a)
    with MOffset assms(1) ptr show ?thesis by (simp add: mem_offset_by_def)
  next
    case (PLocal lp)
    with MOffset assms(1) ptr obtain o' where
      m': "m' = m\<lparr>mem_pointers := mem_pointers m @ [PLocal (lp\<lparr>allocation_offset := o'\<rparr>)]\<rparr>"
      by (auto simp: mem_offset_by_def bind_eq_Some_conv)
    have "PLocal lp \<in> set (mem_pointers m)"
      using ptr PLocal nth_mem [of p "mem_pointers m"] by (auto simp: index_Some_iff)
    then have "stack_id lp < mem_id_counter m" using assms(2) by (simp add: memory_ok_def)
    with assms(2) show ?thesis by (auto simp: m' memory_ok_def frame_ids_def)
  qed
next
  case (MAllocate n)
  let ?i = "length (mem_stack m) - 1"
  let ?f = "mem_stack m ! ?i"
  let ?f' = "?f\<lparr>fr_allocations := fr_allocations ?f @ [replicate n 0]\<rparr>"
  have ne: "mem_stack m \<noteq> []" using assms(2) by (simp add: memory_ok_def)
  then have at: "index (mem_stack m) ?i = Some ?f" by (simp add: index_def)
  have ids: "map fr_id ((mem_stack m)[?i := ?f']) = frame_ids m" by (rule frame_ids_update [OF at]) simp
  have "fr_id ?f \<in> set (frame_ids m)" using ne by (simp add: frame_ids_def)
  then have "fr_id ?f < mem_id_counter m" using assms(2) by (simp add: memory_ok_def)
  let ?lp = "\<lparr>stack_index = ?i, stack_id = fr_id ?f, allocation_index = length (fr_allocations ?f),
    allocation_offset = 0\<rparr>"
  have m': "m' = m\<lparr>mem_stack := (mem_stack m)[?i := ?f'], mem_pointers := mem_pointers m @ [PLocal ?lp]\<rparr>"
    using MAllocate assms(1) ne by (simp add: mem_allocate_def Let_def)
  have "frame_ids m' = frame_ids m" unfolding m' using ids by (simp add: frame_ids_def)
  with assms(2) \<open>fr_id ?f < mem_id_counter m\<close> ne show ?thesis
    by (auto simp: memory_ok_def m')
next
  case (MGlobal addr)
  with assms show ?thesis by (auto simp: mem_push_global_def memory_ok_def frame_ids_def)
qed

lemma mem_run_ids:
  "mem_run ext m ops = Some m' \<Longrightarrow> memory_ok m \<Longrightarrow>
    memory_ok m' \<and> (\<exists>ps. mem_pointers m' = mem_pointers m @ ps) \<and>
    mem_id_counter m \<le> mem_id_counter m' \<and>
    (\<forall>i \<in> set (frame_ids m'). i \<in> set (frame_ids m) \<or> mem_id_counter m \<le> i)"
proof (induction ops arbitrary: m)
  case (Cons op ops)
  from Cons.prems(1) obtain m1 where m1: "mem_step ext m op = Some m1" "mem_run ext m1 ops = Some m'"
    by (auto simp: bind_eq_Some_conv)
  note s = mem_step_ids [OF m1(1) Cons.prems(2)]
  then have "memory_ok m1" by simp
  from Cons.IH [OF m1(2) this] s show ?case by fastforce
qed simp

lemma mem_new_ok [inv_intros]: "memory_ok mem_new"
  by (simp add: memory_ok_def mem_new_def frame_ids_def)

lemma dead_access:
  assumes "index (mem_pointers m) p = Some (PLocal lp)" and "stack_id lp \<notin> set (frame_ids m)"
  shows "mem_read_slice ext m p n = None" and "mem_write m p val = None"
proof -
  have "fr_id f \<noteq> stack_id lp" if "index (mem_stack m) (stack_index lp) = Some f" for f
  proof -
    have "f \<in> set (mem_stack m)" using that by (auto simp: index_Some_iff)
    then have "fr_id f \<in> set (frame_ids m)" by (simp add: frame_ids_def)
    with assms(2) show ?thesis by auto
  qed
  with assms(1) show "mem_read_slice ext m p n = None" and "mem_write m p val = None"
    by (cases "index (mem_stack m) (stack_index lp)"; simp add: mem_read_slice_def mem_write_def)+
qed

text \<open>
  C20. No use after free: once a frame has been popped, every read and every write through a pointer
  into it panics, whatever is allocated, pushed, popped or written afterwards, also when a new frame
  occupies the same place of the stack.
\<close>

theorem no_use_after_free:
  assumes "memory_ok m" and "mem_pop_frame m = (m1, Some f)"
    and "index (mem_pointers m) p = Some (PLocal lp)" and "stack_id lp = fr_id f"
    and "mem_run ext m1 ops = Some m2"
  shows "mem_read_slice ext m2 p n = None \<and> mem_write m2 p val = None"
proof -
  from assms(2) have stack: "mem_stack m = butlast (mem_stack m) @ [f]"
    and m1: "m1 = m\<lparr>mem_stack := butlast (mem_stack m)\<rparr>"
    by (auto simp: mem_pop_frame_def split: if_splits)
  have "mem_step ext m MPop = Some m1" using assms(2) by simp
  with assms(1) have ok1: "memory_ok m1" using mem_step_ids by blast
  have "sorted_wrt (<) (map fr_id (butlast (mem_stack m) @ [f]))"
    using assms(1) stack by (simp add: memory_ok_def frame_ids_def)
  then have gone: "fr_id f \<notin> set (frame_ids m1)" by (auto simp: m1 frame_ids_def sorted_wrt_append)
  have "f \<in> set (mem_stack m)" using stack by (metis in_set_conv_decomp)
  then have lt: "fr_id f < mem_id_counter m1" using assms(1) by (simp add: memory_ok_def frame_ids_def m1)
  note run = mem_run_ids [OF assms(5) ok1]
  with gone lt have "stack_id lp \<notin> set (frame_ids m2)" using assms(4) by auto
  moreover have "index (mem_pointers m2) p = Some (PLocal lp)"
    using run assms(3) by (auto simp: m1 index_Some_iff nth_append)
  ultimately show ?thesis using dead_access by blast
qed

definition sample_memory :: memory where
  "sample_memory = \<lparr>mem_id_counter = 2,
     mem_stack =
       [\<lparr>fr_id = 0, fr_return_address = 0, fr_return_place = None, fr_allocations = []\<rparr>,
        \<lparr>fr_id = 1, fr_return_address = 4, fr_return_place = None, fr_allocations = [[1, 2, 3, 4]]\<rparr>],
     mem_pointers = [PLocal \<lparr>stack_index = 1, stack_id = 1, allocation_index = 0, allocation_offset = 2\<rparr>]\<rparr>"

theorem no_use_after_free_witness:
  "\<exists>m1 f m2. mem_pop_frame sample_memory = (m1, Some f) \<and>
     mem_run (\<lambda>_. 0) m1 [MPush 0 None, MAllocate 4] = Some m2 \<and> mem_read_slice (\<lambda>_. 0) m2 0 2 = None"
proof -
  have ok: "memory_ok sample_memory" by (simp add: memory_ok_def sample_memory_def frame_ids_def)
  obtain m1 f where pop: "mem_pop_frame sample_memory = (m1, Some f)" and f: "fr_id f = 1"
    by (simp add: mem_pop_frame_def sample_memory_def)
  have p: "index (mem_pointers sample_memory) 0 =
      Some (PLocal \<lparr>stack_index = 1, stack_id = 1, allocation_index = 0, allocation_offset = 2\<rparr>)"
    by (simp add: sample_memory_def index_def)
  obtain m2 where run: "mem_run (\<lambda>_. 0) m1 [MPush 0 None, MAllocate 4] = Some m2"
    using pop by (auto simp: mem_allocate_def mem_push_frame_def Let_def)
  from no_use_after_free [OF ok pop p _ run] f pop run show ?thesis by fastforce
qed

section \<open>Reading what was written\<close>

lemma alloc_write_Some:
  assumes "alloc_write a off val = Some a'"
  shows "length a' = length a" and "alloc_read a' off (length val) = Some val"
    and "off2 + n \<le> off \<or> off + length val \<le> off2 \<Longrightarrow> alloc_read a' off2 n = alloc_read a off2 n"
proof -
  have b: "off + length val \<le> length a" "length val dvd off"
    and a': "a' = take off a @ val @ drop (off + length val) a"
    using assms by (auto simp: alloc_write_def split: if_splits)
  show len: "length a' = length a" using b(1) by (simp add: a')
  show "alloc_read a' off (length val) = Some val"
    using b len by (simp add: alloc_read_def) (simp add: a')
  show "alloc_read a' off2 n = alloc_read a off2 n" if d: "off2 + n \<le> off \<or> off + length val \<le> off2"
  proof -
    have "take n (drop off2 a') = take n (drop off2 a)" if fits: "off2 + n \<le> length a"
    proof (rule nth_equalityI)
      fix i assume "i < length (take n (drop off2 a'))"
      then have i: "i < n" by simp
      have "a' ! (off2 + i) = a ! (off2 + i)"
      proof (cases "off2 + n \<le> off")
        case True
        with i b(1) show ?thesis by (simp add: a' nth_append)
      next
        case False
        with d have "off + length val \<le> off2 + i" by simp
        then obtain k where k: "off2 + i = off + length val + k" using le_Suc_ex by blast
        show ?thesis using b(1) i fits unfolding k by (simp add: a' nth_append)
      qed
      then show "take n (drop off2 a') ! i = take n (drop off2 a) ! i" using i fits len by simp
    qed (use len in simp)
    then show ?thesis by (simp add: alloc_read_def len)
  qed
qed

lemma frame_write_Some:
  assumes "frame_write f lp val = Some f'"
  shows "frame_read f' lp (length val) = Some val"
    and "allocation_index lq \<noteq> allocation_index lp \<or>
      allocation_offset lq + n \<le> allocation_offset lp \<or>
      allocation_offset lp + length val \<le> allocation_offset lq \<Longrightarrow>
      frame_read f' lq n = frame_read f lq n"
proof -
  from assms obtain a a' where a: "index (fr_allocations f) (allocation_index lp) = Some a"
    and w: "alloc_write a (allocation_offset lp) val = Some a'"
    and f': "f' = f\<lparr>fr_allocations := (fr_allocations f)[allocation_index lp := a']\<rparr>"
    by (auto simp: frame_write_def bind_eq_Some_conv)
  have i: "allocation_index lp < length (fr_allocations f)" using a by (simp add: index_Some_iff)
  show "frame_read f' lp (length val) = Some val"
    using i alloc_write_Some(2) [OF w] by (simp add: frame_read_def f')
  show "frame_read f' lq n = frame_read f lq n"
    if "allocation_index lq \<noteq> allocation_index lp \<or>
      allocation_offset lq + n \<le> allocation_offset lp \<or>
      allocation_offset lp + length val \<le> allocation_offset lq"
    using that i a alloc_write_Some(3) [OF w] by (auto simp: frame_read_def f')
qed

text \<open>Two accesses that cannot touch the same byte: different frames or allocations, or disjoint ranges.\<close>

definition apart_local :: "local_pointer \<Rightarrow> nat \<Rightarrow> local_pointer \<Rightarrow> nat \<Rightarrow> bool" where
  "apart_local lp n lq k \<longleftrightarrow> stack_index lp \<noteq> stack_index lq \<or>
     allocation_index lq \<noteq> allocation_index lp \<or>
     allocation_offset lq + k \<le> allocation_offset lp \<or> allocation_offset lp + n \<le> allocation_offset lq"

definition mem_apart :: "memory \<Rightarrow> nat \<Rightarrow> nat \<Rightarrow> nat \<Rightarrow> nat \<Rightarrow> bool" where
  "mem_apart m p n q k \<longleftrightarrow>
     (case (index (mem_pointers m) p, index (mem_pointers m) q) of
        (Some (PLocal lp), Some (PLocal lq)) \<Rightarrow> apart_local lp n lq k
      | _ \<Rightarrow> True)"

lemma mem_read_length: "mem_read_slice ext m p n = Some bs \<Longrightarrow> length bs = n"
proof -
  assume r: "mem_read_slice ext m p n = Some bs"
  then obtain ptr where ptr: "index (mem_pointers m) p = Some ptr"
    by (auto simp: mem_read_slice_def bind_eq_Some_conv)
  show "length bs = n"
  proof (cases ptr)
    case (PGlobal a)
    with r ptr show ?thesis by (auto simp: mem_read_slice_def)
  next
    case (PLocal lp)
    with r ptr show ?thesis
      by (auto simp: mem_read_slice_def bind_eq_Some_conv frame_read_def alloc_read_def split: if_splits)
  qed
qed

lemma mem_read_write:
  assumes "mem_write m p bs = Some m'"
  shows "mem_read_slice ext m' p (length bs) = Some bs"
  using assms
proof (elim mem_write_cases)
  fix lp f f'
  assume h: "index (mem_pointers m) p = Some (PLocal lp)" "index (mem_stack m) (stack_index lp) = Some f"
    "fr_id f = stack_id lp" "frame_write f lp bs = Some f'"
    "m' = m\<lparr>mem_stack := (mem_stack m)[stack_index lp := f']\<rparr>" "fr_id f' = fr_id f"
  then have "stack_index lp < length (mem_stack m)" by (simp add: index_Some_iff)
  with h frame_write_Some(1) [OF h(4)] show ?thesis by (simp add: mem_read_slice_def)
qed

lemma mem_read_apart:
  assumes "mem_write m p bs = Some m'" and "mem_apart m p (length bs) q n"
  shows "mem_read_slice ext m' q n = mem_read_slice ext m q n"
  using assms(1)
proof (elim mem_write_cases)
  fix lp f f'
  assume h: "index (mem_pointers m) p = Some (PLocal lp)" "index (mem_stack m) (stack_index lp) = Some f"
    "fr_id f = stack_id lp" "frame_write f lp bs = Some f'"
    "m' = m\<lparr>mem_stack := (mem_stack m)[stack_index lp := f']\<rparr>" "fr_id f' = fr_id f"
  have s: "stack_index lp < length (mem_stack m)" using h(2) by (simp add: index_Some_iff)
  show ?thesis
  proof (cases "index (mem_pointers m) q")
    case None
    then show ?thesis by (simp add: mem_read_slice_def h(5))
  next
    case (Some ptr)
    show ?thesis
    proof (cases ptr)
      case (PGlobal a)
      with Some show ?thesis by (simp add: mem_read_slice_def h(5))
    next
      case (PLocal lq)
      with Some h(1) assms(2) have "apart_local lp (length bs) lq n" by (simp add: mem_apart_def)
      with PLocal Some h s frame_write_Some(2) [OF h(4), of lq n] show ?thesis
        by (auto simp: mem_read_slice_def apart_local_def)
    qed
  qed
qed

interpretation mem_store: byte_store "mem_read_slice ext" mem_write mem_apart for ext
  by unfold_locales (blast intro: mem_read_length mem_read_write mem_read_apart)+

text \<open>
  C28. A value written through a pointer is what the pointer reads back at the value's type, and a
  write changes nothing that an access to other bytes can see.
\<close>

theorem write_then_read:
  assumes "mem_write m p (as_vec bo v) = Some m'" and "ir_valid v"
  shows "Option.bind (mem_read_slice ext m' p (ir_bytes (variant_type v))) (from_slice bo (variant_type v)) = Some v \<and>
    (\<forall>q n. mem_apart m p (ir_bytes (variant_type v)) q n \<longrightarrow>
       mem_read_slice ext m' q n = mem_read_slice ext m q n)"
  using mem_store.load_store [of bo m p v m' ext] mem_read_apart [OF assms(1)] assms
  by (simp add: mem_store.store_def mem_store.load_def length_as_vec)

theorem write_then_read_witness:
  "\<exists>m'. mem_write sample_memory 0 (as_vec LittleEndian (VU16 0x102)) = Some m' \<and>
     Option.bind (mem_read_slice (\<lambda>_. 0) m' 0 2) (from_slice LittleEndian ItU16) = Some (VU16 0x102)"
proof -
  obtain m' where w: "mem_write sample_memory 0 (as_vec LittleEndian (VU16 0x102)) = Some m'"
    by (simp add: mem_write_def sample_memory_def index_def frame_write_def alloc_write_def)
  from write_then_read [OF w, of "\<lambda>_. 0"] w show ?thesis by auto
qed

lemma frame_access:
  assumes "index (mem_pointers m) p = Some (PLocal lp)"
  shows "mem_read_slice ext m p n \<noteq> None \<longleftrightarrow>
      (\<exists>f a. index (mem_stack m) (stack_index lp) = Some f \<and> fr_id f = stack_id lp \<and>
         index (fr_allocations f) (allocation_index lp) = Some a \<and>
         allocation_offset lp + n \<le> length a \<and> n dvd allocation_offset lp)"
    and "mem_write m p val \<noteq> None \<longleftrightarrow> mem_read_slice ext m p (length val) \<noteq> None"
proof -
  have rd: "mem_read_slice ext m p n = Option.bind (index (mem_stack m) (stack_index lp))
      (\<lambda>f. if fr_id f \<noteq> stack_id lp then None else frame_read f lp n)" for n
    using assms by (simp add: mem_read_slice_def)
  have wr: "mem_write m p val = Option.bind (index (mem_stack m) (stack_index lp))
      (\<lambda>f. if fr_id f \<noteq> stack_id lp then None
        else Option.bind (frame_write f lp val) (\<lambda>f'. Some (m\<lparr>mem_stack := (mem_stack m)[stack_index lp := f']\<rparr>)))"
    using assms by (simp add: mem_write_def)
  have frame: "frame_write f lp val \<noteq> None \<longleftrightarrow> frame_read f lp (length val) \<noteq> None" for f
    by (cases "index (fr_allocations f) (allocation_index lp)")
      (simp_all add: frame_write_def frame_read_def alloc_write_def alloc_read_def)
  show "mem_read_slice ext m p n \<noteq> None \<longleftrightarrow>
      (\<exists>f a. index (mem_stack m) (stack_index lp) = Some f \<and> fr_id f = stack_id lp \<and>
         index (fr_allocations f) (allocation_index lp) = Some a \<and>
         allocation_offset lp + n \<le> length a \<and> n dvd allocation_offset lp)"
  proof (cases "index (mem_stack m) (stack_index lp)")
    case (Some f)
    then show ?thesis
      by (cases "index (fr_allocations f) (allocation_index lp)")
        (auto simp: rd frame_read_def alloc_read_def split: if_splits)
  qed (simp add: rd)
  show "mem_write m p val \<noteq> None \<longleftrightarrow> mem_read_slice ext m p (length val) \<noteq> None"
  proof (cases "index (mem_stack m) (stack_index lp)")
    case (Some f)
    with frame [of f] show ?thesis
      by (cases "frame_write f lp val") (auto simp: rd wr)
  qed (simp add: rd wr)
qed

end
