(* ===== verification/Ir_Eval.thy ===== *)
theory Ir_Eval
  imports Ir_Memory "HOL-Library.Signed_Division"
begin

text \<open>
  The evaluator of the low-level representation, \<open>src/src/lir/eval.rs\<close>.  One iteration of its loop is
  \<open>eval_step\<close>; \<open>None\<close> is a panic.  Whether integer arithmetic is checked for overflow, as in a debug
  build, or wraps is a field of the environment, which also holds what the code takes from the host: the constants,
  the runtime functions, the clone, drop and equality functions, the representation of a string, and
  the arithmetic of floats.
\<close>

record eval_env =
  en_byte_order :: byte_order
  en_overflow_checks :: bool
  en_ext :: "nat \<Rightarrow> byte"
  en_constants :: "resolved_name \<Rightarrow> nat option"
  en_runtime :: "nat \<Rightarrow> (nat \<times> (memory \<Rightarrow> ir_value list \<Rightarrow> memory option)) option"
  en_clone :: "clone_fn \<Rightarrow> memory \<Rightarrow> raw_pointer \<Rightarrow> raw_pointer \<Rightarrow> memory option"
  en_drop :: "drop_fn \<Rightarrow> memory \<Rightarrow> raw_pointer \<Rightarrow> memory option"
  en_eq :: "eq_fn \<Rightarrow> memory \<Rightarrow> raw_pointer \<Rightarrow> raw_pointer \<Rightarrow> bool option"
  en_string_layout :: layout
  en_init_string :: "str \<Rightarrow> memory \<Rightarrow> raw_pointer \<Rightarrow> memory option"
  en_f32_to_f64 :: "32 word \<Rightarrow> 64 word"
  en_f32_div :: "32 word \<Rightarrow> 32 word \<Rightarrow> 32 word"
  en_f64_div :: "64 word \<Rightarrow> 64 word \<Rightarrow> 64 word"
  en_f64_lt :: "64 word \<Rightarrow> 64 word \<Rightarrow> bool"
  en_f64_le :: "64 word \<Rightarrow> 64 word \<Rightarrow> bool"

type_synonym vars = "ir_var \<Rightarrow> ir_value option"

record eval_state =
  es_pc :: nat
  es_vars :: vars
  es_mem :: memory

datatype eval_outcome = Running eval_state | Finished "ir_value option" eval_state

section \<open>Operands\<close>

definition eval_operand :: "vars \<Rightarrow> operand \<Rightarrow> ir_value option" where
  "eval_operand vars op = (case op of OpPlace p \<Rightarrow> vars p | OpValue v \<Rightarrow> Some v)"

fun as_pointer :: "ir_value \<Rightarrow> nat option" where
  "as_pointer (VPointer p) = Some (unat p)"
| "as_pointer _ = None"

definition eval_pointer :: "vars \<Rightarrow> operand \<Rightarrow> nat option" where
  "eval_pointer vars op = Option.bind (eval_operand vars op) as_pointer"

definition pointer_value :: "nat \<Rightarrow> ir_value" where
  "pointer_value p = VPointer (word_of_nat p)"

fun as_f64 :: "eval_env \<Rightarrow> ir_value \<Rightarrow> 64 word option" where
  "as_f64 env (VF32 x) = Some (en_f32_to_f64 env x)"
| "as_f64 env (VF64 x) = Some x"
| "as_f64 env _ = None"

section \<open>Arithmetic\<close>

text \<open>
  Integer arithmetic as Rust compiles it: with overflow checks, as in a debug build, a result out of range is a panic;
  without them it wraps.
\<close>

definition arith_u :: "bool \<Rightarrow> (int \<Rightarrow> int \<Rightarrow> int option) \<Rightarrow> 'a::len word \<Rightarrow> 'a word \<Rightarrow> 'a word option" where
  "arith_u checks f x y = do {
     r \<leftarrow> f (uint x) (uint y);
     (if checks \<and> \<not> (0 \<le> r \<and> r < 2 ^ LENGTH('a)) then None else Some (word_of_int r)) }"

definition arith_s :: "bool \<Rightarrow> (int \<Rightarrow> int \<Rightarrow> int option) \<Rightarrow> 'a::len word \<Rightarrow> 'a word \<Rightarrow> 'a word option" where
  "arith_s checks f x y = do {
     r \<leftarrow> f (sint x) (sint y);
     (if checks \<and> \<not> (- (2 ^ (LENGTH('a) - 1)) \<le> r \<and> r < 2 ^ (LENGTH('a) - 1)) then None
      else Some (word_of_int r)) }"

definition ir_arith :: "bool \<Rightarrow> (int \<Rightarrow> int \<Rightarrow> int option) \<Rightarrow> ir_value \<Rightarrow> ir_value \<Rightarrow> ir_value option" where
  "ir_arith checks f left right =
     (case (left, right) of
        (VU8 l, VU8 r) \<Rightarrow> map_option VU8 (arith_u checks f l r)
      | (VU16 l, VU16 r) \<Rightarrow> map_option VU16 (arith_u checks f l r)
      | (VU32 l, VU32 r) \<Rightarrow> map_option VU32 (arith_u checks f l r)
      | (VU64 l, VU64 r) \<Rightarrow> map_option VU64 (arith_u checks f l r)
      | (VI8 l, VI8 r) \<Rightarrow> map_option VI8 (arith_s checks f l r)
      | (VI16 l, VI16 r) \<Rightarrow> map_option VI16 (arith_s checks f l r)
      | (VI32 l, VI32 r) \<Rightarrow> map_option VI32 (arith_s checks f l r)
      | (VI64 l, VI64 r) \<Rightarrow> map_option VI64 (arith_s checks f l r)
      | _ \<Rightarrow> None)"

definition ir_add :: "bool \<Rightarrow> ir_value \<Rightarrow> ir_value \<Rightarrow> ir_value option" where
  "ir_add checks = ir_arith checks (\<lambda>a b. Some (a + b))"

definition ir_sub :: "bool \<Rightarrow> ir_value \<Rightarrow> ir_value \<Rightarrow> ir_value option" where
  "ir_sub checks = ir_arith checks (\<lambda>a b. Some (a - b))"

definition ir_mul :: "bool \<Rightarrow> ir_value \<Rightarrow> ir_value \<Rightarrow> ir_value option" where
  "ir_mul checks = ir_arith checks (\<lambda>a b. Some (a * b))"

text \<open>
  Division truncates towards zero; a zero divisor panics, and so does a quotient that overflows, in every build.
\<close>

definition ir_div :: "ir_value \<Rightarrow> ir_value \<Rightarrow> ir_value option" where
  "ir_div = ir_arith True (\<lambda>a b. if b = 0 then None else Some (a sdiv b))"

text \<open>The remainder panics wherever the quotient does (\<open>MIN % -1\<close> too).\<close>

definition ir_mod :: "ir_value \<Rightarrow> ir_value \<Rightarrow> ir_value option" where
  "ir_mod left right = do {
     _ \<leftarrow> ir_div left right;
     ir_arith True (\<lambda>a b. Some (a smod b)) left right }"

definition ir_fdiv :: "eval_env \<Rightarrow> ir_value \<Rightarrow> ir_value \<Rightarrow> ir_value option" where
  "ir_fdiv env left right =
     (case (left, right) of
        (VF32 l, VF32 r) \<Rightarrow> Some (VF32 (en_f32_div env l r))
      | (VF64 l, VF64 r) \<Rightarrow> Some (VF64 (en_f64_div env l r))
      | _ \<Rightarrow> None)"

fun ir_negate :: "bool \<Rightarrow> ir_value \<Rightarrow> ir_value option" where
  "ir_negate checks (VI8 x) = map_option VI8 (arith_s checks (\<lambda>a b. Some (- b)) x x)"
| "ir_negate checks (VI16 x) = map_option VI16 (arith_s checks (\<lambda>a b. Some (- b)) x x)"
| "ir_negate checks (VI32 x) = map_option VI32 (arith_s checks (\<lambda>a b. Some (- b)) x x)"
| "ir_negate checks (VI64 x) = map_option VI64 (arith_s checks (\<lambda>a b. Some (- b)) x x)"
| "ir_negate checks (VF32 x) = Some (VF32 (x XOR push_bit 31 1))"
| "ir_negate checks (VF64 x) = Some (VF64 (x XOR push_bit 63 1))"
| "ir_negate checks _ = None"

definition ir_u64_cmp :: "(64 word \<Rightarrow> 64 word \<Rightarrow> bool) \<Rightarrow> ir_value \<Rightarrow> ir_value \<Rightarrow> bool option" where
  "ir_u64_cmp f left right = do { l \<leftarrow> as_u64 left; r \<leftarrow> as_u64 right; Some (f l r) }"

definition ir_i64_cmp :: "(64 word \<Rightarrow> 64 word \<Rightarrow> bool) \<Rightarrow> ir_value \<Rightarrow> ir_value \<Rightarrow> bool option" where
  "ir_i64_cmp f left right = do { l \<leftarrow> as_i64 left; r \<leftarrow> as_i64 right; Some (f l r) }"

fun ir_int_cmp :: "int_cmp \<Rightarrow> ir_value \<Rightarrow> ir_value \<Rightarrow> bool option" where
  "ir_int_cmp IEq l r = ir_eq l r"
| "ir_int_cmp INe l r = map_option Not (ir_eq l r)"
| "ir_int_cmp IULt l r = ir_u64_cmp (\<lambda>a b. a < b) l r"
| "ir_int_cmp IULe l r = ir_u64_cmp (\<lambda>a b. a \<le> b) l r"
| "ir_int_cmp IUGt l r = ir_u64_cmp (\<lambda>a b. a > b) l r"
| "ir_int_cmp IUGe l r = ir_u64_cmp (\<lambda>a b. a \<ge> b) l r"
| "ir_int_cmp ISLt l r = ir_i64_cmp (\<lambda>a b. sint a < sint b) l r"
| "ir_int_cmp ISLe l r = ir_i64_cmp (\<lambda>a b. sint a \<le> sint b) l r"
| "ir_int_cmp ISGt l r = ir_i64_cmp (\<lambda>a b. sint a > sint b) l r"
| "ir_int_cmp ISGe l r = ir_i64_cmp (\<lambda>a b. sint a \<ge> sint b) l r"

definition ir_f64_cmp ::
  "eval_env \<Rightarrow> (64 word \<Rightarrow> 64 word \<Rightarrow> bool) \<Rightarrow> ir_value \<Rightarrow> ir_value \<Rightarrow> bool option" where
  "ir_f64_cmp env f left right = do { l \<leftarrow> as_f64 env left; r \<leftarrow> as_f64 env right; Some (f l r) }"

fun ir_float_cmp :: "eval_env \<Rightarrow> float_cmp \<Rightarrow> ir_value \<Rightarrow> ir_value \<Rightarrow> bool option" where
  "ir_float_cmp env FEq l r = ir_eq l r"
| "ir_float_cmp env FNe l r = map_option Not (ir_eq l r)"
| "ir_float_cmp env FLt l r = ir_f64_cmp env (en_f64_lt env) l r"
| "ir_float_cmp env FLe l r = ir_f64_cmp env (en_f64_le env) l r"
| "ir_float_cmp env FGt l r = ir_f64_cmp env (\<lambda>a b. en_f64_lt env b a) l r"
| "ir_float_cmp env FGe l r = ir_f64_cmp env (\<lambda>a b. en_f64_le env b a) l r"

section \<open>The program\<close>

definition program_blocks :: "lir \<Rightarrow> ir_block list" where
  "program_blocks p = concat (map ii_blocks p)"

fun collect_blocks ::
  "(label_ref \<Rightarrow> nat option) \<Rightarrow> ir_instr list \<Rightarrow> ir_block list \<Rightarrow> (label_ref \<Rightarrow> nat option) \<times> ir_instr list" where
  "collect_blocks bm is [] = (bm, is)"
| "collect_blocks bm is (b # bs) =
     collect_blocks (bm(ib_label b \<mapsto> length is)) (is @ ib_instructions b) bs"

definition item_parameters :: "ir_item \<Rightarrow> (ident \<times> ir_type) list" where
  "item_parameters item = (case ii_kind item of
     IkConstant _ _ _ _ \<Rightarrow> [] | IkFunction _ sg \<Rightarrow> is_parameters sg)"

definition item_return_ptr :: "ir_item \<Rightarrow> bool" where
  "item_return_ptr item = (case ii_kind item of
     IkConstant _ _ _ _ \<Rightarrow> True | IkFunction _ sg \<Rightarrow> is_return_ptr sg)"

fun alloc_slots :: "memory \<Rightarrow> vars \<Rightarrow> (ir_var \<times> value_or_slot) list \<Rightarrow> (memory \<times> vars) option" where
  "alloc_slots m vars [] = Some (m, vars)"
| "alloc_slots m vars ((v, VsVal _) # vs) = alloc_slots m vars vs"
| "alloc_slots m vars ((v, VsStackSlot l) # vs) = do {
     (m', ptr) \<leftarrow> mem_allocate m (lsize l);
     alloc_slots m' (vars(v \<mapsto> pointer_value ptr)) vs }"

text \<open>The arguments are evaluated and bound one after the other, in the variables they are read from.\<close>

fun bind_arguments :: "scope_ref \<Rightarrow> vars \<Rightarrow> (ident \<times> operand) list \<Rightarrow> vars option" where
  "bind_arguments s vars [] = Some vars"
| "bind_arguments s vars ((name, arg) # args) = do {
     val \<leftarrow> eval_operand vars arg;
     bind_arguments s (vars(\<lparr>iv_scope = s, iv_kind = IvExplicit name\<rparr> \<mapsto> val)) args }"

section \<open>One instruction\<close>

definition set_var :: "eval_state \<Rightarrow> ir_var \<Rightarrow> ir_value \<Rightarrow> eval_outcome" where
  "set_var st to v = Running (st\<lparr>es_vars := (es_vars st)(to \<mapsto> v), es_pc := es_pc st + 1\<rparr>)"

definition set_mem :: "eval_state \<Rightarrow> memory \<Rightarrow> eval_outcome" where
  "set_mem st m = Running (st\<lparr>es_mem := m, es_pc := es_pc st + 1\<rparr>)"

definition eval_binary ::
  "(ir_value \<Rightarrow> ir_value \<Rightarrow> ir_value option) \<Rightarrow> eval_state \<Rightarrow> ir_var \<Rightarrow> operand \<Rightarrow> operand \<Rightarrow> eval_outcome option" where
  "eval_binary f st to left right = do {
     l \<leftarrow> eval_operand (es_vars st) left;
     r \<leftarrow> eval_operand (es_vars st) right;
     v \<leftarrow> f l r;
     Some (set_var st to v) }"

definition eval_switch ::
  "(label_ref \<Rightarrow> nat option) \<Rightarrow> eval_state \<Rightarrow> operand \<Rightarrow> (nat \<times> label_ref) list \<Rightarrow> label_ref \<Rightarrow> eval_outcome option" where
  "eval_switch bm st examinee branches default_lbl = do {
     val \<leftarrow> eval_operand (es_vars st) examinee;
     x \<leftarrow> switch_on val;
     let lbl = (case find (\<lambda>(i, _). i = unat x) branches of Some (_, b) \<Rightarrow> b | None \<Rightarrow> default_lbl) in do {
     pc \<leftarrow> bm lbl;
     Some (Running (st\<lparr>es_pc := pc\<rparr>)) } }"

definition eval_call ::
  "lir \<Rightarrow> (label_ref \<Rightarrow> nat option) \<Rightarrow> eval_state \<Rightarrow> (ir_var \<times> ir_type) option \<Rightarrow> operand option \<Rightarrow> ident
     \<Rightarrow> operand list \<Rightarrow> ir_var option \<Rightarrow> eval_outcome option" where
  "eval_call p bm st to ctx func args return_ptr = do {
     f \<leftarrow> find (\<lambda>f. ii_name f = func) p;
     let m1 = mem_push_frame (es_mem st) (es_pc st) (map_option fst to) in do {
     (m2, vars2) \<leftarrow> alloc_slots m1 (es_vars st) (ii_variables f);
     vars3 \<leftarrow> (case return_ptr of
        None \<Rightarrow> Some vars2
      | Some rp \<Rightarrow> map_option (\<lambda>v. vars2(\<lparr>iv_scope = ii_scope f, iv_kind = IvReturn\<rparr> \<mapsto> v))
                     (eval_operand vars2 (OpPlace rp)));
     vars4 \<leftarrow> (case ctx of
        None \<Rightarrow> Some vars3
      | Some c \<Rightarrow> map_option (\<lambda>v. vars3(\<lparr>iv_scope = ii_scope f, iv_kind = IvContext\<rparr> \<mapsto> v))
                    (eval_operand vars3 c));
     vars5 \<leftarrow> (case ii_kind f of
        IkFunction _ sg \<Rightarrow> bind_arguments (ii_scope f) vars4 (zip (map fst (is_parameters sg)) args)
      | IkConstant _ _ _ _ \<Rightarrow> Some vars4);
     pc \<leftarrow> bm (ii_entry_block f);
     Some (Running \<lparr>es_pc = pc, es_vars = vars5, es_mem = m2\<rparr>) } }"

definition eval_return :: "eval_state \<Rightarrow> operand option \<Rightarrow> eval_outcome option" where
  "eval_return st ret = do {
     val \<leftarrow> (case ret of None \<Rightarrow> Some None | Some r \<Rightarrow> map_option Some (eval_operand (es_vars st) r));
     let (m', frame) = mem_pop_frame (es_mem st) in
     (case frame of
        Some f \<Rightarrow> do {
          vars' \<leftarrow> (case val of
             None \<Rightarrow> Some (es_vars st)
           | Some v \<Rightarrow> map_option (\<lambda>place. (es_vars st)(place \<mapsto> v)) (fr_return_place f));
          Some (Running \<lparr>es_pc = fr_return_address f + 1, es_vars = vars', es_mem = m'\<rparr>) }
      | None \<Rightarrow> Some (Finished val (st\<lparr>es_mem := m'\<rparr>))) }"

fun eval_operands :: "vars \<Rightarrow> operand list \<Rightarrow> ir_value list option" where
  "eval_operands vars [] = Some []"
| "eval_operands vars (a # as) = do { v \<leftarrow> eval_operand vars a; vs \<leftarrow> eval_operands vars as; Some (v # vs) }"

definition call_runtime_function :: "eval_env \<Rightarrow> memory \<Rightarrow> nat \<Rightarrow> ir_value list \<Rightarrow> memory option" where
  "call_runtime_function env m func args = do {
     (arity, f) \<leftarrow> en_runtime env func;
     (if arity + 1 \<noteq> length args then None else f m args) }"

text \<open>The body of the loop, instruction by instruction.\<close>

fun eval_step ::
  "eval_env \<Rightarrow> lir \<Rightarrow> (label_ref \<Rightarrow> nat option) \<Rightarrow> eval_state \<Rightarrow> ir_instr \<Rightarrow> eval_outcome option" where
  "eval_step env p bm st (LJump b) = do { pc \<leftarrow> bm b; Some (Running (st\<lparr>es_pc := pc\<rparr>)) }"
| "eval_step env p bm st (LSwitch examinee branches d) = eval_switch bm st examinee branches d"
| "eval_step env p bm st (LAssign to val _) = do {
     v \<leftarrow> eval_operand (es_vars st) val; Some (set_var st to v) }"
| "eval_step env p bm st (LFunctionAddress _ _) = None"
| "eval_step env p bm st (LConstantAddress to name) = do {
     x \<leftarrow> en_constants env name;
     let (m', ptr) = mem_push_global (es_mem st) x in
     Some (set_var (st\<lparr>es_mem := m'\<rparr>) to (pointer_value ptr)) }"
| "eval_step env p bm st (LCall to ctx func args return_ptr) = eval_call p bm st to ctx func args return_ptr"
| "eval_step env p bm st (LCallRuntime func args) = do {
     vs \<leftarrow> eval_operands (es_vars st) args;
     m' \<leftarrow> call_runtime_function env (es_mem st) func vs;
     Some (set_mem st m') }"
| "eval_step env p bm st (LReturn ret) = eval_return st ret"
| "eval_step env p bm st (LIntCmp to cmp left right) =
     eval_binary (\<lambda>l r. map_option VBool (ir_int_cmp cmp l r)) st to left right"
| "eval_step env p bm st (LFloatCmp to cmp left right) =
     eval_binary (\<lambda>l r. map_option VBool (ir_float_cmp env cmp l r)) st to left right"
| "eval_step env p bm st (LNot to val) = do {
     v \<leftarrow> eval_operand (es_vars st) val;
     b \<leftarrow> as_bool v;
     Some (set_var st to (VBool b)) }"
| "eval_step env p bm st (LNegate to val) = do {
     v \<leftarrow> eval_operand (es_vars st) val;
     r \<leftarrow> ir_negate (en_overflow_checks env) v;
     Some (set_var st to r) }"
| "eval_step env p bm st (LAdd to left right) = eval_binary (ir_add (en_overflow_checks env)) st to left right"
| "eval_step env p bm st (LSub to left right) = eval_binary (ir_sub (en_overflow_checks env)) st to left right"
| "eval_step env p bm st (LMul to left right) = eval_binary (ir_mul (en_overflow_checks env)) st to left right"
| "eval_step env p bm st (LDiv to _ left right) = eval_binary ir_div st to left right"
| "eval_step env p bm st (LFDiv to left right) = eval_binary (ir_fdiv env) st to left right"
| "eval_step env p bm st (LMod to _ left right) = eval_binary ir_mod st to left right"
| "eval_step env p bm st (LOffset to src off) = do {
     ptr \<leftarrow> eval_pointer (es_vars st) src;
     (m', new) \<leftarrow> mem_offset_by (es_mem st) ptr off;
     Some (set_var (st\<lparr>es_mem := m'\<rparr>) to (pointer_value new)) }"
| "eval_step env p bm st (LInitialize to bytes l) =
     (if \<not> length bytes \<le> lsize l then None
      else do {
        (m1, ptr) \<leftarrow> mem_allocate (es_mem st) (lsize l);
        m2 \<leftarrow> mem_write m1 ptr bytes;
        Some (set_var (st\<lparr>es_mem := m2\<rparr>) to (pointer_value ptr)) })"
| "eval_step env p bm st (LWrite to val) = do {
     ptr \<leftarrow> eval_pointer (es_vars st) to;
     v \<leftarrow> eval_operand (es_vars st) val;
     m' \<leftarrow> mem_write (es_mem st) ptr (as_vec (en_byte_order env) v);
     Some (set_mem st m') }"
| "eval_step env p bm st (LRead to src ty) = do {
     ptr \<leftarrow> eval_pointer (es_vars st) src;
     res \<leftarrow> mem_read_slice (en_ext env) (es_mem st) ptr (ir_bytes ty);
     v \<leftarrow> from_slice (en_byte_order env) ty res;
     Some (set_var st to v) }"
| "eval_step env p bm st (LCopy to src n) = do {
     dst \<leftarrow> eval_pointer (es_vars st) to;
     ptr \<leftarrow> eval_pointer (es_vars st) src;
     m' \<leftarrow> mem_copy (en_ext env) (es_mem st) dst ptr n;
     Some (set_mem st m') }"
| "eval_step env p bm st (LClone to src clone) = do {
     dst \<leftarrow> eval_pointer (es_vars st) to;
     ptr \<leftarrow> eval_pointer (es_vars st) src;
     dst' \<leftarrow> mem_get (es_mem st) dst;
     ptr' \<leftarrow> mem_get (es_mem st) ptr;
     m' \<leftarrow> en_clone env clone (es_mem st) dst' ptr';
     Some (set_mem st m') }"
| "eval_step env p bm st (LDrop var None) = Some (set_mem st (es_mem st))"
| "eval_step env p bm st (LDrop var (Some drp)) = do {
     val \<leftarrow> eval_pointer (es_vars st) var;
     ptr \<leftarrow> mem_get (es_mem st) val;
     m' \<leftarrow> en_drop env drp (es_mem st) ptr;
     Some (set_mem st m') }"
| "eval_step env p bm st (LEq to left right f) = do {
     l \<leftarrow> eval_pointer (es_vars st) left;
     r \<leftarrow> eval_pointer (es_vars st) right;
     l' \<leftarrow> mem_get (es_mem st) l;
     r' \<leftarrow> mem_get (es_mem st) r;
     b \<leftarrow> en_eq env f (es_mem st) l' r';
     Some (set_var st to (VBool b)) }"
| "eval_step env p bm st (LInitString to string _) = do {
     (m1, ptr) \<leftarrow> mem_allocate (es_mem st) (lsize (en_string_layout env));
     ptr' \<leftarrow> mem_get m1 ptr;
     m2 \<leftarrow> en_init_string env string m1 ptr';
     Some (set_var (st\<lparr>es_mem := m2\<rparr>) to (pointer_value ptr)) }"

section \<open>The loop and the entry point\<close>

text \<open>The outer \<open>None\<close> is a program that does not return, the inner one a panic.\<close>

partial_function (option) eval_loop ::
  "eval_env \<Rightarrow> lir \<Rightarrow> (label_ref \<Rightarrow> nat option) \<Rightarrow> ir_instr list \<Rightarrow> eval_state \<Rightarrow> (ir_value option \<times> memory) option option" where
  "eval_loop env p bm is st =
     (case index is (es_pc st) of
        None \<Rightarrow> Some None
      | Some i \<Rightarrow>
          (case eval_step env p bm st i of
             None \<Rightarrow> Some None
           | Some (Finished v st') \<Rightarrow> Some (Some (v, es_mem st'))
           | Some (Running st') \<Rightarrow> eval_loop env p bm is st'))"

text \<open>\<open>eval\<close>: find the function, bind context and arguments, allocate its slots, run.\<close>

definition eval_init ::
  "lir \<Rightarrow> string \<Rightarrow> memory \<Rightarrow> ir_value \<Rightarrow> ir_value list \<Rightarrow> ((label_ref \<Rightarrow> nat option) \<times> ir_instr list \<times> eval_state) option" where
  "eval_init p filter_map m ctx args = do {
     item \<leftarrow> find (\<lambda>f. ii_name f = ''pkg.'' @ filter_map) p;
     let parameters = item_parameters item;
         (bm, is) = collect_blocks Map.empty [] (program_blocks p);
         s = ii_scope item;
         vars0 = [\<lparr>iv_scope = s, iv_kind = IvContext\<rparr> \<mapsto> ctx] in do {
     (vars1, vals) \<leftarrow>
       (if item_return_ptr item then
          (case args of
             [] \<Rightarrow> None
           | a # as \<Rightarrow> if length parameters \<noteq> length as then None
                       else Some (vars0(\<lparr>iv_scope = s, iv_kind = IvReturn\<rparr> \<mapsto> a), as))
        else if length parameters \<noteq> length args then None
        else Some (vars0, args));
     let vars2 = fold (\<lambda>((x, _), v) vars. vars(\<lparr>iv_scope = s, iv_kind = IvExplicit x\<rparr> \<mapsto> v))
                   (zip parameters vals) vars1 in do {
     (m', vars3) \<leftarrow> alloc_slots m vars2 (ii_variables item);
     pc \<leftarrow> bm (ii_entry_block item);
     Some (bm, is, \<lparr>es_pc = pc, es_vars = vars3, es_mem = m'\<rparr>) } } }"

definition eval ::
  "eval_env \<Rightarrow> lir \<Rightarrow> string \<Rightarrow> memory \<Rightarrow> ir_value \<Rightarrow> ir_value list \<Rightarrow> (ir_value option \<times> memory) option option" where
  "eval env p filter_map m ctx args =
     (case eval_init p filter_map m ctx args of
        None \<Rightarrow> Some None
      | Some (bm, is, st) \<Rightarrow> eval_loop env p bm is st)"

section \<open>Steps keep memory well-formed\<close>

text \<open>What the host functions must not do: disturb the frames. (Stated of the documented contract:
  they read and write through the pointers they are given.)\<close>

definition env_ok :: "eval_env \<Rightarrow> bool" where
  "env_ok env \<longleftrightarrow>
     (\<forall>c m a b m'. en_clone env c m a b = Some m' \<longrightarrow> memory_ok m \<longrightarrow> memory_ok m') \<and>
     (\<forall>d m a m'. en_drop env d m a = Some m' \<longrightarrow> memory_ok m \<longrightarrow> memory_ok m') \<and>
     (\<forall>s m a m'. en_init_string env s m a = Some m' \<longrightarrow> memory_ok m \<longrightarrow> memory_ok m') \<and>
     (\<forall>i n f m vs m'. en_runtime env i = Some (n, f) \<longrightarrow> f m vs = Some m' \<longrightarrow> memory_ok m \<longrightarrow> memory_ok m')"

fun outcome_mem :: "eval_outcome \<Rightarrow> memory" where
  "outcome_mem (Running st) = es_mem st"
| "outcome_mem (Finished v st) = es_mem st"

lemma step_mem_ok:
  assumes "memory_ok m"
  shows "mem_write m p bs = Some m' \<Longrightarrow> memory_ok m'"
    and "mem_copy ext m d q n = Some m' \<Longrightarrow> memory_ok m'"
    and "memory_ok (mem_push_frame m ra rp)"
    and "mem_pop_frame m = (m', f) \<Longrightarrow> memory_ok m'"
    and "mem_offset_by m p off = Some (m', r) \<Longrightarrow> memory_ok m'"
    and "mem_allocate m n = Some (m', r) \<Longrightarrow> memory_ok m'"
    and "memory_ok (fst (mem_push_global m addr))"
  using assms mem_step_ids [of ext m _ _, OF _ assms]
    mem_step_ids [of ext m "MWrite p bs" m'] mem_step_ids [of ext m "MCopy d q n" m']
    mem_step_ids [of ext m "MPush ra rp" "mem_push_frame m ra rp"] mem_step_ids [of ext m MPop m']
    mem_step_ids [of ext m "MOffset p off" m'] mem_step_ids [of ext m "MAllocate n" m']
    mem_step_ids [of ext m "MGlobal addr" "fst (mem_push_global m addr)"]
  by simp_all

lemma alloc_slots_ok: "alloc_slots m vars vs = Some (m', vars') \<Longrightarrow> memory_ok m \<Longrightarrow> memory_ok m'"
proof (induction vs arbitrary: m vars)
  case (Cons v vs)
  obtain x s where v: "v = (x, s)" by (cases v)
  show ?case
  proof (cases s)
    case (VsStackSlot l)
    with Cons.prems(1) v obtain m1 ptr where a: "mem_allocate m (lsize l) = Some (m1, ptr)"
      and rest: "alloc_slots m1 (vars(x \<mapsto> pointer_value ptr)) vs = Some (m', vars')"
      by (auto simp: bind_eq_Some_conv)
    from Cons.IH [OF rest step_mem_ok(6) [OF Cons.prems(2) a]] show ?thesis .
  qed (use Cons v in auto)
qed simp

lemma eval_call_ok:
  assumes "eval_call p bm st to ctx func args rp = Some r" and "memory_ok (es_mem st)"
  shows "memory_ok (outcome_mem r)"
proof -
  let ?m = "mem_push_frame (es_mem st) (es_pc st) (map_option fst to)"
  from assms(1) obtain f where f: "find (\<lambda>f. ii_name f = func) p = Some f"
    by (cases "find (\<lambda>f. ii_name f = func) p") (simp_all add: eval_call_def)
  from assms(1) f obtain m2 vars2 where s: "alloc_slots ?m (es_vars st) (ii_variables f) = Some (m2, vars2)"
    by (cases "alloc_slots ?m (es_vars st) (ii_variables f)") (auto simp: eval_call_def)
  have "outcome_mem r = m2"
    using assms(1) by (auto simp: eval_call_def f s bind_eq_Some_conv)
  with alloc_slots_ok [OF s step_mem_ok(3) [OF assms(2)]] show ?thesis by simp
qed

lemma eval_return_ok:
  assumes "eval_return st ret = Some r" and "memory_ok (es_mem st)"
  shows "memory_ok (outcome_mem r)"
proof -
  obtain m' f where pop: "mem_pop_frame (es_mem st) = (m', f)" by (cases "mem_pop_frame (es_mem st)")
  then have "memory_ok m'" by (rule step_mem_ok(4) [OF assms(2)])
  with assms(1) pop show ?thesis
    by (cases f) (auto simp: eval_return_def bind_eq_Some_conv)
qed

lemma eval_step_mem_ok:
  assumes "eval_step env p bm st i = Some r" and "env_ok env" and "memory_ok (es_mem st)"
  shows "memory_ok (outcome_mem r)"
proof (cases i)
  case (LCall to ctx func args rp)
  with assms eval_call_ok show ?thesis by simp
next
  case (LReturn ret)
  with assms eval_return_ok show ?thesis by simp
next
  case (LDrop v d)
  with assms show ?thesis
    by (cases d) (auto simp: bind_eq_Some_conv set_mem_def env_ok_def)
next
  case (LConstantAddress to name)
  with assms step_mem_ok(7) [OF assms(3)] show ?thesis
    by (auto simp: bind_eq_Some_conv set_var_def split_beta)
next
  case (LInitialize to bytes l)
  with assms(1) obtain m1 ptr m2 where a: "mem_allocate (es_mem st) (lsize l) = Some (m1, ptr)"
    and w: "mem_write m1 ptr bytes = Some m2" and r: "outcome_mem r = m2"
    by (auto simp: bind_eq_Some_conv set_var_def split: if_splits)
  from step_mem_ok(1) [OF step_mem_ok(6) [OF assms(3) a] w] r show ?thesis by simp
next
  case (LInitString to string g)
  with assms(1) obtain m1 ptr q m2 where a: "mem_allocate (es_mem st) (lsize (en_string_layout env)) = Some (m1, ptr)"
    and i: "en_init_string env string m1 q = Some m2" and r: "outcome_mem r = m2"
    by (auto simp: bind_eq_Some_conv set_var_def)
  from step_mem_ok(6) [OF assms(3) a] i assms(2) have "memory_ok m2" unfolding env_ok_def by blast
  with r show ?thesis by simp
next
  case (LCallRuntime func args)
  with assms show ?thesis
    by (auto simp: bind_eq_Some_conv set_mem_def call_runtime_function_def env_ok_def split: if_splits)
next
  case (LWrite to val)
  with assms step_mem_ok(1) [OF assms(3)] show ?thesis by (auto simp: bind_eq_Some_conv set_mem_def)
next
  case (LCopy to src n)
  with assms step_mem_ok(2) [OF assms(3)] show ?thesis by (auto simp: bind_eq_Some_conv set_mem_def)
next
  case (LClone to src c)
  with assms show ?thesis by (auto simp: bind_eq_Some_conv set_mem_def env_ok_def)
next
  case (LOffset to src off)
  with assms step_mem_ok(5) [OF assms(3)] show ?thesis by (auto simp: bind_eq_Some_conv set_var_def)
next
  case (LSwitch e bs d)
  with assms show ?thesis by (auto simp: bind_eq_Some_conv eval_switch_def)
qed (use assms in \<open>auto simp: bind_eq_Some_conv set_var_def eval_binary_def\<close>)

lemma eval_loop_ok:
  "eval_loop env p bm is st = Some r \<Longrightarrow> env_ok env \<Longrightarrow> memory_ok (es_mem st) \<Longrightarrow>
    (\<forall>v m. r = Some (v, m) \<longrightarrow> memory_ok m \<and> length (mem_stack m) = 1)"
proof (induction env p bm "is" st r rule: eval_loop.raw_induct [rotated, consumes 1])
  case (1 g env p bm "is" st r)
  show ?case
  proof (cases "index is (es_pc st)")
    case None
    with 1(2) show ?thesis by simp
  next
    case (Some i)
    show ?thesis
    proof (cases "eval_step env p bm st i")
      case None
      with Some 1(2) show ?thesis by simp
    next
      case step: (Some out)
      note ok = eval_step_mem_ok [OF step 1(3,4)]
      show ?thesis
      proof (cases out)
        case (Running st')
        with Some step 1(2) have "g env p bm is st' = Some r" by simp
        from 1(1) [OF this 1(3)] ok Running show ?thesis by simp
      next
        case (Finished v st')
        with Some step 1(2) have r: "r = Some (v, es_mem st')" by simp
        have "length (mem_stack (es_mem st')) = 1"
        proof (cases i)
          case (LReturn ret)
          with step Finished have "eval_return st ret = Some (Finished v st')" by simp
          then have "mem_pop_frame (es_mem st) = (es_mem st', None)"
            by (cases "mem_pop_frame (es_mem st)"; cases "snd (mem_pop_frame (es_mem st))")
              (auto simp: eval_return_def bind_eq_Some_conv)
          moreover have "mem_stack (es_mem st) \<noteq> []" using 1(4) by (simp add: memory_ok_def)
          ultimately show ?thesis by (auto simp: mem_pop_frame_def split: if_splits)
        next
          case (LDrop var d)
          with step Finished show ?thesis by (cases d) (auto simp: bind_eq_Some_conv set_mem_def)
        qed (use step Finished in \<open>auto simp: bind_eq_Some_conv set_var_def set_mem_def eval_binary_def
            eval_switch_def eval_call_def Let_def split: if_splits prod.splits\<close>)
        with r ok Finished show ?thesis by simp
      qed
    qed
  qed
qed

lemma eval_init_mem:
  assumes "eval_init p name m ctx args = Some (bm, is, st)"
  obtains vars vs vars' where "alloc_slots m vars vs = Some (es_mem st, vars')"
proof -
  obtain bm1 is1 where c: "collect_blocks Map.empty [] (program_blocks p) = (bm1, is1)"
    by (cases "collect_blocks Map.empty [] (program_blocks p)")
  from assms c that show thesis
    by (auto simp: eval_init_def Let_def bind_eq_Some_conv split: if_splits list.splits)
qed

section \<open>A program to run\<close>

text \<open>
  An environment without constants and host functions, and the recursive program
  \<open>fn f(a: u32, b: u32) -> u32 { if a == 0 { b } else { f(b, a) } }\<close> as the compiler lowers it.
\<close>

definition plain_env :: eval_env where
  "plain_env = \<lparr>en_byte_order = LittleEndian, en_overflow_checks = True, en_ext = \<lambda>_. 0, en_constants = \<lambda>_. None,
     en_runtime = \<lambda>_. None, en_clone = \<lambda>_ _ _ _. None, en_drop = \<lambda>_ _ _. None, en_eq = \<lambda>_ _ _ _. None,
     en_string_layout = \<lparr>lsize = 24, lalign = 8\<rparr>, en_init_string = \<lambda>_ _ _. None,
     en_f32_to_f64 = ucast, en_f32_div = (\<lambda>x y. x), en_f64_div = (\<lambda>x y. x),
     en_f64_lt = (\<lambda>x y. False), en_f64_le = (\<lambda>x y. False)\<rparr>"

definition local_var :: "ident \<Rightarrow> ir_var" where
  "local_var x = \<lparr>iv_scope = 1, iv_kind = IvExplicit x\<rparr>"

definition swap_item :: ir_item where
  "swap_item = \<lparr>ii_name = ''pkg.f'', ii_scope = 1,
     ii_kind = IkFunction None \<lparr>is_parameters = [(''a'', ItU32), (''b'', ItU32)], is_context = False,
        is_return_ptr = False, is_return_type = Some ItU32\<rparr>,
     ii_entry_block = 0,
     ii_variables = [],
     ii_blocks =
       [\<lparr>ib_label = 0, ib_instructions = [LSwitch (OpPlace (local_var ''a'')) [(0, 1)] 2]\<rparr>,
        \<lparr>ib_label = 1, ib_instructions = [LReturn (Some (OpPlace (local_var ''b'')))]\<rparr>,
        \<lparr>ib_label = 2, ib_instructions =
          [LCall (Some (local_var ''r'', ItU32)) None ''pkg.f''
             [OpPlace (local_var ''b''), OpPlace (local_var ''a'')] None,
           LReturn (Some (OpPlace (local_var ''r'')))]\<rparr>],
     ii_public = True\<rparr>"

lemmas run_simps = eval_init_def eval_def plain_env_def swap_item_def program_blocks_def item_parameters_def
  item_return_ptr_def eval_loop.simps index_def eval_switch_def eval_operand_def eval_call_def
  eval_return_def mem_push_frame_def mem_pop_frame_def mem_new_def local_var_def Let_def

lemma swap_runs:
  "eval plain_env [swap_item] ''f'' mem_new (VPointer 0) [VU32 0, VU32 7] = Some (Some (Some (VU32 7), mem_new))"
  by (simp add: run_simps)

text \<open>
  C26. A program that returns leaves the memory well-formed and every frame it pushed popped: only the
  root frame is left, provided the host functions it calls keep the memory well-formed.
\<close>

theorem eval_balances_frames:
  assumes "eval env p name m ctx args = Some (Some (v, m'))" and "env_ok env" and "memory_ok m"
  shows "memory_ok m' \<and> length (mem_stack m') = 1"
proof -
  from assms(1) obtain bm "is" st where init: "eval_init p name m ctx args = Some (bm, is, st)"
    and loop: "eval_loop env p bm is st = Some (Some (v, m'))"
    by (auto simp: eval_def split: option.splits)
  obtain vars vs vars' where "alloc_slots m vars vs = Some (es_mem st, vars')"
    using init by (rule eval_init_mem)
  then have "memory_ok (es_mem st)" using alloc_slots_ok assms(3) by blast
  from eval_loop_ok [OF loop assms(2) this] show ?thesis by simp
qed

theorem eval_balances_frames_witness:
  "\<exists>v m'. eval plain_env [swap_item] ''f'' mem_new (VPointer 0) [VU32 0, VU32 7] = Some (Some (v, m')) \<and>
     memory_ok m' \<and> length (mem_stack m') = 1"
proof -
  have "env_ok plain_env" by (simp add: env_ok_def plain_env_def)
  moreover have "memory_ok mem_new" by (simp add: memory_ok_def mem_new_def frame_ids_def)
  ultimately show ?thesis using eval_balances_frames [OF swap_runs] swap_runs by blast
qed

section \<open>Calls\<close>

text \<open>An operand that does not read a variable of the given scope.\<close>

fun reads_outside :: "scope_ref \<Rightarrow> operand \<Rightarrow> bool" where
  "reads_outside s (OpPlace v) \<longleftrightarrow> iv_scope v \<noteq> s"
| "reads_outside s (OpValue _) \<longleftrightarrow> True"

definition same_outside :: "scope_ref \<Rightarrow> vars \<Rightarrow> vars \<Rightarrow> bool" where
  "same_outside s a b \<longleftrightarrow> (\<forall>v. iv_scope v \<noteq> s \<longrightarrow> a v = b v)"

lemma same_outside_upd [simp]:
  "iv_scope v = s \<Longrightarrow> same_outside s a (b(v \<mapsto> x)) \<longleftrightarrow> same_outside s a b"
  by (auto simp: same_outside_def)

lemma same_outside_operand:
  "same_outside s a b \<Longrightarrow> reads_outside s op \<Longrightarrow> eval_operand b op = eval_operand a op"
  by (cases op) (auto simp: same_outside_def eval_operand_def)

lemma alloc_slots_outside:
  "alloc_slots m vars vs = Some (m', vars') \<Longrightarrow> \<forall>(v, k) \<in> set vs. iv_scope v = s \<Longrightarrow> same_outside s vars vars'"
proof (induction m vars vs arbitrary: m' vars' rule: alloc_slots.induct)
  case (1 m vars)
  then show ?case by (simp add: same_outside_def)
next
  case (3 m vars v l vs)
  from 3(2) obtain m1 ptr where a: "mem_allocate m (lsize l) = Some (m1, ptr)"
    and r: "alloc_slots m1 (vars(v \<mapsto> pointer_value ptr)) vs = Some (m', vars')"
    by (auto simp: bind_eq_Some_conv)
  from 3(3) have "\<forall>(v, k) \<in> set vs. iv_scope v = s" by simp
  from 3(1) [OF a refl r this] have "same_outside s (vars(v \<mapsto> pointer_value ptr)) vars'" .
  with 3(3) show ?case by (simp add: same_outside_def fun_upd_apply) metis
qed simp

lemma bind_arguments_outside:
  "bind_arguments s vars args = Some vars' \<Longrightarrow> same_outside s vars vars'"
proof (induction args arbitrary: vars)
  case (Cons a args)
  obtain x e where "a = (x, e)" by (cases a)
  with Cons show ?case by (force simp: bind_eq_Some_conv same_outside_def)
qed (simp add: same_outside_def)

lemma bind_arguments_keeps:
  "bind_arguments s vars args = Some vars' \<Longrightarrow> x \<notin> fst ` set args \<Longrightarrow>
    vars' \<lparr>iv_scope = s, iv_kind = IvExplicit x\<rparr> = vars \<lparr>iv_scope = s, iv_kind = IvExplicit x\<rparr>"
  by (induction s vars args rule: bind_arguments.induct) (auto simp: bind_eq_Some_conv)

lemma bind_arguments_binds:
  assumes "bind_arguments s vars args = Some vars'" and "distinct (map fst args)"
    and "(x, e) \<in> set args" and "\<forall>(y, op) \<in> set args. reads_outside s op"
  shows "vars' \<lparr>iv_scope = s, iv_kind = IvExplicit x\<rparr> = eval_operand vars e \<and> eval_operand vars e \<noteq> None"
  using assms
proof (induction args arbitrary: vars)
  case (Cons a args)
  obtain y op where a: "a = (y, op)" by (cases a)
  with Cons(2) obtain val where val: "eval_operand vars op = Some val"
    and rest: "bind_arguments s (vars(\<lparr>iv_scope = s, iv_kind = IvExplicit y\<rparr> \<mapsto> val)) args = Some vars'"
    by (auto simp: bind_eq_Some_conv)
  show ?case
  proof (cases "(x, e) = a")
    case True
    with a Cons(3) have "x \<notin> fst ` set args" by auto
    from bind_arguments_keeps [OF rest this] True a val show ?thesis by simp
  next
    case False
    with Cons(4) have m: "(x, e) \<in> set args" by auto
    have "same_outside s vars (vars(\<lparr>iv_scope = s, iv_kind = IvExplicit y\<rparr> \<mapsto> val))"
      by (simp add: same_outside_def)
    moreover have "reads_outside s e" using Cons(5) m by auto
    ultimately have "eval_operand (vars(\<lparr>iv_scope = s, iv_kind = IvExplicit y\<rparr> \<mapsto> val)) e = eval_operand vars e"
      by (rule same_outside_operand)
    moreover have "distinct (map fst args)" and "\<forall>(y, op) \<in> set args. reads_outside s op"
      using Cons(3,5) by simp_all
    ultimately show ?thesis using Cons(1) [OF rest _ m] by metis
  qed
qed simp

lemma eval_call_inv:
  assumes "eval_call p bm st to ctx func args rp = Some r" and "find (\<lambda>f. ii_name f = func) p = Some f"
    and "ii_kind f = IkFunction sg0 sg"
  obtains m2 vars2 vars3 vars4 vars5 pc where
    "alloc_slots (mem_push_frame (es_mem st) (es_pc st) (map_option fst to)) (es_vars st) (ii_variables f)
      = Some (m2, vars2)"
    "same_outside (ii_scope f) vars2 vars3" "same_outside (ii_scope f) vars3 vars4"
    "bind_arguments (ii_scope f) vars4 (zip (map fst (is_parameters sg)) args) = Some vars5"
    "r = Running \<lparr>es_pc = pc, es_vars = vars5, es_mem = m2\<rparr>" "bm (ii_entry_block f) = Some pc"
proof -
  from assms obtain m2 vars2 vars3 vars4 vars5 pc where
    a: "alloc_slots (mem_push_frame (es_mem st) (es_pc st) (map_option fst to)) (es_vars st) (ii_variables f)
      = Some (m2, vars2)"
    and b: "(case rp of None \<Rightarrow> Some vars2
      | Some rp \<Rightarrow> map_option (\<lambda>v. vars2(\<lparr>iv_scope = ii_scope f, iv_kind = IvReturn\<rparr> \<mapsto> v))
                     (eval_operand vars2 (OpPlace rp))) = Some vars3"
    and c: "(case ctx of None \<Rightarrow> Some vars3
      | Some c \<Rightarrow> map_option (\<lambda>v. vars3(\<lparr>iv_scope = ii_scope f, iv_kind = IvContext\<rparr> \<mapsto> v))
                    (eval_operand vars3 c)) = Some vars4"
    and d: "bind_arguments (ii_scope f) vars4 (zip (map fst (is_parameters sg)) args) = Some vars5"
      "r = Running \<lparr>es_pc = pc, es_vars = vars5, es_mem = m2\<rparr>" "bm (ii_entry_block f) = Some pc"
    by (simp add: eval_call_def bind_eq_Some_conv Let_def) blast
  have "same_outside (ii_scope f) vars2 vars3" "same_outside (ii_scope f) vars3 vars4"
    using b c by (auto simp: same_outside_def split: option.splits)
  from that [OF a this d] show thesis .
qed

lemma same_outside_trans: "same_outside s a b \<Longrightarrow> same_outside s b c \<Longrightarrow> same_outside s a c"
  by (simp add: same_outside_def)

text \<open>
  C25. A call of a function binds every parameter to the value of its argument in the caller, enters the function at its
  entry block, and leaves every variable of the other scopes as it was: when the variables of the function are in its
  own scope, the parameters have different names, there are as many arguments, and no argument reads a
  variable of the function's scope.  The last condition is what a recursive call violates
  (\<open>recursive_arguments_overwritten\<close>).
\<close>

theorem call_binds_arguments:
  assumes "eval_call p bm st to ctx func args rp = Some r"
    and "find (\<lambda>f. ii_name f = func) p = Some f" and "ii_kind f = IkFunction sg0 sg"
    and "distinct (map fst (is_parameters sg))" and "length args = length (is_parameters sg)"
    and "\<forall>(v, k) \<in> set (ii_variables f). iv_scope v = ii_scope f"
    and "\<forall>a \<in> set args. reads_outside (ii_scope f) a"
  shows "\<exists>st'. r = Running st' \<and> Some (es_pc st') = bm (ii_entry_block f) \<and>
      (\<forall>i < length args. es_vars st' \<lparr>iv_scope = ii_scope f, iv_kind = IvExplicit (fst (is_parameters sg ! i))\<rparr>
          = eval_operand (es_vars st) (args ! i)) \<and>
      (\<forall>v. iv_scope v \<noteq> ii_scope f \<longrightarrow> es_vars st' v = es_vars st v)"
proof -
  let ?s = "ii_scope f" and ?z = "zip (map fst (is_parameters sg)) args"
  from assms(1-3) obtain m2 vars2 vars3 vars4 vars5 pc where
    slots: "alloc_slots (mem_push_frame (es_mem st) (es_pc st) (map_option fst to)) (es_vars st) (ii_variables f)
      = Some (m2, vars2)"
    and o: "same_outside ?s vars2 vars3" "same_outside ?s vars3 vars4"
    and b: "bind_arguments ?s vars4 ?z = Some vars5"
    and r: "r = Running \<lparr>es_pc = pc, es_vars = vars5, es_mem = m2\<rparr>" and pc: "bm (ii_entry_block f) = Some pc"
    by (rule eval_call_inv)
  have o4: "same_outside ?s (es_vars st) vars4"
    using alloc_slots_outside [OF slots assms(6)] o by (blast intro: same_outside_trans)
  have o5: "same_outside ?s (es_vars st) vars5"
    using same_outside_trans [OF o4 bind_arguments_outside [OF b]] .
  have "vars5 \<lparr>iv_scope = ?s, iv_kind = IvExplicit (fst (is_parameters sg ! i))\<rparr>
      = eval_operand (es_vars st) (args ! i)" if i: "i < length args" for i
  proof -
    from i assms(5) have m: "(fst (is_parameters sg ! i), args ! i) \<in> set ?z"
      unfolding in_set_zip by (intro exI [of _ i]) simp
    have d: "distinct (map fst ?z)" using assms(4,5) by simp
    have o: "\<forall>(y, op) \<in> set ?z. reads_outside ?s op" using assms(7) by (auto dest: set_zip_rightD)
    from bind_arguments_binds [OF b d m o] same_outside_operand [OF o4] assms(7) i show ?thesis by simp
  qed
  with o5 pc r show ?thesis by (simp add: same_outside_def)
qed

theorem call_binds_arguments_witness:
  "\<exists>st'. eval_call [swap_item] [0 \<mapsto> 5] \<lparr>es_pc = 0, es_vars = [\<lparr>iv_scope = 2, iv_kind = IvTmp 0\<rparr> \<mapsto> VU32 9], es_mem = mem_new\<rparr>
       None None ''pkg.f'' [OpPlace \<lparr>iv_scope = 2, iv_kind = IvTmp 0\<rparr>, OpValue (VU32 3)] None = Some (Running st') \<and>
     es_vars st' (local_var ''a'') = Some (VU32 9)"
proof -
  let ?st = "\<lparr>es_pc = 0, es_vars = [\<lparr>iv_scope = 2, iv_kind = IvTmp 0\<rparr> \<mapsto> VU32 9], es_mem = mem_new\<rparr>"
  let ?args = "[OpPlace \<lparr>iv_scope = 2, iv_kind = IvTmp 0\<rparr>, OpValue (VU32 3)]"
  obtain r where r: "eval_call [swap_item] [0 \<mapsto> 5] ?st None None ''pkg.f'' ?args None = Some r"
    by (simp add: run_simps)
  have f: "find (\<lambda>f. ii_name f = ''pkg.f'') [swap_item] = Some swap_item" by (simp add: swap_item_def)
  have k: "ii_kind swap_item = IkFunction None \<lparr>is_parameters = [(''a'', ItU32), (''b'', ItU32)], is_context = False,
        is_return_ptr = False, is_return_type = Some ItU32\<rparr>" by (simp add: swap_item_def)
  from call_binds_arguments [OF r f k]
  obtain st' where "r = Running st'" and "\<forall>i < 2. es_vars st' \<lparr>iv_scope = ii_scope swap_item,
      iv_kind = IvExplicit (fst ([(''a'', ItU32), (''b'', ItU32)] ! i))\<rparr> = eval_operand (es_vars ?st) (?args ! i)"
    by (auto simp: swap_item_def)
  with r show ?thesis by (auto simp: swap_item_def local_var_def eval_operand_def dest: spec [of _ 0])
qed

lemma bind_arguments_reads:
  assumes "bind_arguments s vars args = Some vars'" and "distinct (map fst args)" and "x \<notin> fst ` set args"
    and "(y, OpPlace \<lparr>iv_scope = s, iv_kind = IvExplicit x\<rparr>) \<in> set args"
  shows "vars' \<lparr>iv_scope = s, iv_kind = IvExplicit y\<rparr> = vars \<lparr>iv_scope = s, iv_kind = IvExplicit x\<rparr>"
  using assms
proof (induction s vars args rule: bind_arguments.induct)
  case (2 s vars name arg args)
  then obtain val where val: "eval_operand vars arg = Some val"
    and rest: "bind_arguments s (vars(\<lparr>iv_scope = s, iv_kind = IvExplicit name\<rparr> \<mapsto> val)) args = Some vars'"
    by (auto simp: bind_eq_Some_conv)
  show ?case
  proof (cases "y = name")
    case True
    with 2(3,5) have "arg = OpPlace \<lparr>iv_scope = s, iv_kind = IvExplicit x\<rparr>" by force
    with val bind_arguments_keeps [OF rest, of name] 2(3) True show ?thesis by (simp add: eval_operand_def)
  next
    case False
    with 2(1) [OF val rest] 2(3-5) show ?thesis by auto
  qed
qed simp

lemma bind_arguments_overwrites:
  assumes "bind_arguments s vars args = Some vars'" and "distinct (map fst args)" and "i < j" and "j < length args"
    and "snd (args ! j) = OpPlace \<lparr>iv_scope = s, iv_kind = IvExplicit (fst (args ! i))\<rparr>"
  shows "vars' \<lparr>iv_scope = s, iv_kind = IvExplicit (fst (args ! j))\<rparr> =
    vars' \<lparr>iv_scope = s, iv_kind = IvExplicit (fst (args ! i))\<rparr>"
  using assms
proof (induction s vars args arbitrary: i j rule: bind_arguments.induct)
  case (2 s vars name arg args)
  then obtain val where val: "eval_operand vars arg = Some val"
    and rest: "bind_arguments s (vars(\<lparr>iv_scope = s, iv_kind = IvExplicit name\<rparr> \<mapsto> val)) args = Some vars'"
    by (auto simp: bind_eq_Some_conv)
  obtain k where j: "j = Suc k" "k < length args" using 2(4,5) by (cases j) auto
  show ?case
  proof (cases i)
    case 0
    have m: "(fst (args ! k), OpPlace \<lparr>iv_scope = s, iv_kind = IvExplicit name\<rparr>) \<in> set args"
      using 2(6) j 0 nth_mem [OF j(2)] by (metis fst_conv nth_Cons_0 nth_Cons_Suc prod.collapse)
    have "name \<notin> fst ` set args" using 2(3) by simp
    with bind_arguments_reads [OF rest _ this m] bind_arguments_keeps [OF rest this] 2(3) 0 j show ?thesis by simp
  next
    case (Suc l)
    with 2(1) [OF val rest, of l k] 2(3-6) j show ?thesis by simp
  qed
qed simp

text \<open>
  C40. A recursive call does not pass its arguments on: an argument that reads one of the function's own parameters,
  at a position before it, gives its parameter the new value of that parameter instead of the caller's.
\<close>

theorem recursive_arguments_overwritten:
  assumes "eval_call p bm st to ctx func args rp = Some r"
    and "find (\<lambda>f. ii_name f = func) p = Some f" and "ii_kind f = IkFunction sg0 sg"
    and "distinct (map fst (is_parameters sg))" and "length args = length (is_parameters sg)"
    and "i < j" and "j < length args"
    and "args ! j = OpPlace \<lparr>iv_scope = ii_scope f, iv_kind = IvExplicit (fst (is_parameters sg ! i))\<rparr>"
  shows "\<exists>st'. r = Running st' \<and>
    es_vars st' \<lparr>iv_scope = ii_scope f, iv_kind = IvExplicit (fst (is_parameters sg ! j))\<rparr> =
    es_vars st' \<lparr>iv_scope = ii_scope f, iv_kind = IvExplicit (fst (is_parameters sg ! i))\<rparr>"
proof -
  let ?z = "zip (map fst (is_parameters sg)) args"
  from assms(1-3) obtain m2 vars4 vars5 pc where
    b: "bind_arguments (ii_scope f) vars4 ?z = Some vars5"
    and r: "r = Running \<lparr>es_pc = pc, es_vars = vars5, es_mem = m2\<rparr>"
    by (rule eval_call_inv)
  have "distinct (map fst ?z)" and "j < length ?z" using assms(4,5,7) by simp_all
  from bind_arguments_overwrites [OF b this(1) assms(6) this(2)] assms(5-8) r show ?thesis by simp
qed

theorem recursive_arguments_overwritten_witness:
  "\<exists>st'. eval_call [swap_item] [0 \<mapsto> 5] \<lparr>es_pc = 2, es_vars = [local_var ''a'' \<mapsto> VU32 1, local_var ''b'' \<mapsto> VU32 0], es_mem = mem_new\<rparr>
       None None ''pkg.f'' [OpPlace (local_var ''b''), OpPlace (local_var ''a'')] None = Some (Running st') \<and>
     es_vars st' (local_var ''b'') = Some (VU32 0)"
proof -
  let ?st = "\<lparr>es_pc = 2, es_vars = [local_var ''a'' \<mapsto> VU32 1, local_var ''b'' \<mapsto> VU32 0], es_mem = mem_new\<rparr>"
  let ?args = "[OpPlace (local_var ''b''), OpPlace (local_var ''a'')]"
  obtain st' where r: "eval_call [swap_item] [0 \<mapsto> 5] ?st None None ''pkg.f'' ?args None = Some (Running st')"
    and a: "es_vars st' (local_var ''a'') = Some (VU32 0)"
    by (simp add: run_simps)
  have f: "find (\<lambda>f. ii_name f = ''pkg.f'') [swap_item] = Some swap_item" by (simp add: swap_item_def)
  have k: "ii_kind swap_item = IkFunction None \<lparr>is_parameters = [(''a'', ItU32), (''b'', ItU32)], is_context = False,
        is_return_ptr = False, is_return_type = Some ItU32\<rparr>" by (simp add: swap_item_def)
  from recursive_arguments_overwritten [OF r f k, of 0 1] a r show ?thesis
    by (auto simp: swap_item_def local_var_def)
qed

end
