(* ===== verification/Token.thy ===== *)
theory Token
  imports Source_Text
begin

text \<open>The tokens of the lexer and their spelling, from \<open>src/src/parser/token.rs\<close>.\<close>

datatype keyword =
  KwAccept
| KwConst
| KwDep
| KwElse
| KwEnum
| KwFilter
| KwFilterMap
| KwFor
| KwFn
| KwIf
| KwImport
| KwIn
| KwLet
| KwMatch
| KwPkg
| KwRecord
| KwReject
| KwReturn
| KwStd
| KwSuper
| KwTest
| KwWhile

datatype token =
  TIdent str
| TAmpAmp
| TAngleLeftEq
| TAngleRightEq
| TArrow
| TBang
| TBangEq
| TColon
| TComma
| TEq
| TEqEq
| TFatArrow
| THash
| THyphen
| THyphenHyphen
| TPeriod
| TPipe
| TPipePipe
| TPlus
| TQuestionMark
| TSemiColon
| TSlash
| TSlashStar
| TStar
| TPercent
| TPlusEq
| TMinusEq
| TStarEq
| TSlashEq
| TPercentEq
| TAngleLeft
| TAngleRight
| TCurlyLeft
| TCurlyRight
| TRoundLeft
| TRoundRight
| TSquareLeft
| TSquareRight
| TKeyword keyword
| TString str
| TChar str
| TInteger str str
| TFloat str str
| THex str
| TAsn str
| TIpV4 str
| TIpV6 str
| TBool bool
| TFStringStart

datatype fstring_token = StringEnd str | StringIntermediate str

fun keyword_as_str :: "keyword \<Rightarrow> string" where
  "keyword_as_str KwAccept = ''accept''"
| "keyword_as_str KwConst = ''const''"
| "keyword_as_str KwDep = ''dep''"
| "keyword_as_str KwElse = ''else''"
| "keyword_as_str KwEnum = ''enum''"
| "keyword_as_str KwFilter = ''filter''"
| "keyword_as_str KwFilterMap = ''filtermap''"
| "keyword_as_str KwFor = ''for''"
| "keyword_as_str KwFn = ''fn''"
| "keyword_as_str KwIf = ''if''"
| "keyword_as_str KwImport = ''import''"
| "keyword_as_str KwIn = ''in''"
| "keyword_as_str KwLet = ''let''"
| "keyword_as_str KwMatch = ''match''"
| "keyword_as_str KwPkg = ''pkg''"
| "keyword_as_str KwRecord = ''record''"
| "keyword_as_str KwReject = ''reject''"
| "keyword_as_str KwReturn = ''return''"
| "keyword_as_str KwStd = ''std''"
| "keyword_as_str KwSuper = ''super''"
| "keyword_as_str KwTest = ''test''"
| "keyword_as_str KwWhile = ''while''"

text \<open>\<open>Display for Token\<close>.\<close>

fun show_token :: "token \<Rightarrow> str" where
  "show_token (TIdent s) = s"
| "show_token TAmpAmp = lit ''&&''"
| "show_token TAngleLeftEq = lit ''<=''"
| "show_token TAngleRightEq = lit ''>=''"
| "show_token TArrow = lit ''->''"
| "show_token TBang = lit ''!''"
| "show_token TBangEq = lit ''!=''"
| "show_token TColon = lit '':''"
| "show_token TComma = lit '',''"
| "show_token TEq = lit ''=''"
| "show_token TEqEq = lit ''==''"
| "show_token TFatArrow = lit ''=>''"
| "show_token THash = lit ''#''"
| "show_token THyphen = lit ''-''"
| "show_token THyphenHyphen = lit ''--''"
| "show_token TPeriod = lit ''.''"
| "show_token TPipe = lit ''|''"
| "show_token TPipePipe = lit ''||''"
| "show_token TPlus = lit ''+''"
| "show_token TQuestionMark = lit ''?''"
| "show_token TSemiColon = lit '';''"
| "show_token TSlash = lit ''/''"
| "show_token TSlashStar = lit ''/*''"
| "show_token TStar = lit ''*''"
| "show_token TPercent = lit ''%''"
| "show_token TPlusEq = lit ''+=''"
| "show_token TMinusEq = lit ''-=''"
| "show_token TStarEq = lit ''*=''"
| "show_token TSlashEq = lit ''/=''"
| "show_token TPercentEq = lit ''%=''"
| "show_token TAngleLeft = lit ''<''"
| "show_token TAngleRight = lit ''>''"
| "show_token TCurlyLeft = lit ''{''"
| "show_token TCurlyRight = lit ''}''"
| "show_token TRoundLeft = lit ''(''"
| "show_token TRoundRight = lit '')''"
| "show_token TSquareLeft = lit ''[''"
| "show_token TSquareRight = lit '']''"
| "show_token (TKeyword k) = lit (keyword_as_str k)"
| "show_token (TString s) = s"
| "show_token (TChar s) = s"
| "show_token (TInteger s suffix) = s @ suffix"
| "show_token (TFloat s suffix) = s @ suffix"
| "show_token (THex s) = s"
| "show_token (TAsn s) = s"
| "show_token (TIpV4 s) = s"
| "show_token (TIpV6 s) = s"
| "show_token (TBool True) = lit ''true''"
| "show_token (TBool False) = lit ''false''"
| "show_token TFStringStart = lit ''f\"''"

end
