(* ===== verification/Lexer.thy ===== *)
theory Lexer
  imports Token "HOL-Library.Monad_Syntax" "HOL-Library.Sublist"
begin

text \<open>
  The lexer, \<open>src/src/parser/lexer.rs\<close>.  The state is the rest of the input, the length of the whole
  input (positions are differences of byte lengths), the queue of peeked tokens and the last
  identifier that looks like a keyword.  A lexing function gives a token and its range
  (\<open>ControlFlow::Break\<close>) or nothing (\<open>Continue\<close>); the outer \<open>None\<close> is a panic.  The tables of the
  \<open>unicode_ident\<close> crate are a parameter.
\<close>

type_synonym range = "nat \<times> nat"

record unicode =
  xid_start :: "rchar \<Rightarrow> bool"
  xid_continue :: "rchar \<Rightarrow> bool"

record lexer =
  lx_input :: str
  lx_original_length :: nat
  lx_peeked :: "(token option \<times> range) list"
  lx_almost_keyword :: "(str \<times> range \<times> string option) option"

type_synonym lexed = "((token \<times> range) option \<times> lexer) option"

section \<open>Characters\<close>

abbreviation ch :: "char \<Rightarrow> rchar" where "ch c \<equiv> of_char c"

text \<open>\<open>char::is_whitespace\<close>: the Unicode property \<open>White_Space\<close>.\<close>

definition is_whitespace :: "rchar \<Rightarrow> bool" where
  "is_whitespace c \<longleftrightarrow> (9 \<le> c \<and> c \<le> 13) \<or>
     c \<in> {0x20, 0x85, 0xA0, 0x1680, 0x2028, 0x2029, 0x202F, 0x205F, 0x3000} \<or> (0x2000 \<le> c \<and> c \<le> 0x200A)"

definition is_ascii_digit :: "rchar \<Rightarrow> bool" where
  "is_ascii_digit c \<longleftrightarrow> ch CHR ''0'' \<le> c \<and> c \<le> ch CHR ''9''"

definition is_ascii_hexdigit :: "rchar \<Rightarrow> bool" where
  "is_ascii_hexdigit c \<longleftrightarrow> is_ascii_digit c \<or>
     (ch CHR ''a'' \<le> c \<and> c \<le> ch CHR ''f'') \<or> (ch CHR ''A'' \<le> c \<and> c \<le> ch CHR ''F'')"

definition is_roto_digit :: "rchar \<Rightarrow> bool" where
  "is_roto_digit c \<longleftrightarrow> is_ascii_digit c \<or> c = ch CHR ''_''"

section \<open>The methods of \<open>StrExt\<close>\<close>

fun eat_char :: "rchar \<Rightarrow> str \<Rightarrow> bool \<times> str" where
  "eat_char c [] = (False, [])"
| "eat_char c (d # s) = (if d = c then (True, s) else (False, d # s))"

fun strip_prefix :: "str \<Rightarrow> str \<Rightarrow> str option" where
  "strip_prefix [] s = Some s"
| "strip_prefix (c # p) [] = None"
| "strip_prefix (c # p) (d # s) = (if c = d then strip_prefix p s else None)"

definition eat_str :: "string \<Rightarrow> str \<Rightarrow> bool \<times> str" where
  "eat_str p s = (case strip_prefix (lit p) s of Some t \<Rightarrow> (True, t) | None \<Rightarrow> (False, s))"

fun eat_one_of :: "rchar list \<Rightarrow> str \<Rightarrow> bool \<times> str" where
  "eat_one_of cs [] = (False, [])"
| "eat_one_of cs (d # s) = (if d \<in> set cs then (True, s) else (False, d # s))"

text \<open>The closure of \<open>eat_until_fn\<close> carries a state.\<close>

fun eat_until_fn :: "('s \<Rightarrow> rchar \<Rightarrow> bool \<times> 's) \<Rightarrow> 's \<Rightarrow> str \<Rightarrow> str" where
  "eat_until_fn f s [] = []"
| "eat_until_fn f s (c # cs) = (case f s c of (True, _) \<Rightarrow> cs | (False, s') \<Rightarrow> eat_until_fn f s' cs)"

definition eat_until :: "rchar \<Rightarrow> str \<Rightarrow> str" where
  "eat_until c = eat_until_fn (\<lambda>_ d. (d = c, ())) ()"

definition eat_while :: "(rchar \<Rightarrow> bool) \<Rightarrow> str \<Rightarrow> bool \<times> str" where
  "eat_while p s = (let t = dropWhile p s in (length s \<noteq> length t, t))"

definition eat_whitespace :: "str \<Rightarrow> str" where
  "eat_whitespace = dropWhile is_whitespace"

section \<open>Moving in the input\<close>

definition checked_sub :: "nat \<Rightarrow> nat \<Rightarrow> nat option" where
  "checked_sub a b = (if b \<le> a then Some (a - b) else None)"

definition lexer_new :: "str \<Rightarrow> lexer" where
  "lexer_new s = \<lparr>lx_input = s, lx_original_length = byte_len s, lx_peeked = [], lx_almost_keyword = None\<rparr>"

definition bump :: "nat \<Rightarrow> lexer \<Rightarrow> (str \<times> range \<times> lexer) option" where
  "bump n lx = do {
     start \<leftarrow> checked_sub (lx_original_length lx) (byte_len (lx_input lx));
     (a, b) \<leftarrow> split_at n (lx_input lx);
     end \<leftarrow> checked_sub (lx_original_length lx) (byte_len b);
     Some (a, (start, end), lx\<lparr>lx_input := b\<rparr>) }"

definition bump_to :: "str \<Rightarrow> lexer \<Rightarrow> (str \<times> range \<times> lexer) option" where
  "bump_to tail lx = do {
     n \<leftarrow> checked_sub (byte_len (lx_input lx)) (byte_len tail);
     bump n lx }"

text \<open>\<open>let (tok, span) = self.bump_to(tail); ControlFlow::Break((mk(tok), span))\<close>.\<close>

definition emit :: "str \<Rightarrow> (str \<Rightarrow> token) \<Rightarrow> lexer \<Rightarrow> lexed" where
  "emit tail mk lx = do { (tok, span, lx') \<leftarrow> bump_to tail lx; Some (Some (mk tok, span), lx') }"

definition skip_shebang :: "lexer \<Rightarrow> lexer option" where
  "skip_shebang lx = (case eat_str ''#!'' (lx_input lx) of
     (True, c # tail) \<Rightarrow>
       if \<not> is_whitespace c
       then map_option (\<lambda>(_, _, lx'). lx') (bump_to (eat_until (ch CHR 0x0A) (c # tail)) lx) else Some lx
   | _ \<Rightarrow> Some lx)"

text \<open>The loop of \<open>skip_whitespace\<close>: each round shortens the rest.\<close>

function skip_trivia :: "str \<Rightarrow> str" where
  "skip_trivia s = (let t = eat_whitespace s in
     case eat_str ''//'' t of
       (True, u) \<Rightarrow> skip_trivia (eat_until (ch CHR 0x0A) u)
     | (False, _) \<Rightarrow> t)"
  by auto

lemma length_eat_until: "length (eat_until_fn f s t) \<le> length t"
  by (induction f s t rule: eat_until_fn.induct) (auto split: prod.splits bool.splits intro: le_SucI)

lemma strip_prefix_Some_iff: "strip_prefix p s = Some t \<longleftrightarrow> s = p @ t"
  by (induction p s rule: strip_prefix.induct) auto

lemma strip_prefix_append [simp]: "strip_prefix p (p @ t) = Some t"
  by (simp add: strip_prefix_Some_iff)

lemma eat_str_True_iff: "eat_str p s = (True, t) \<longleftrightarrow> s = lit p @ t"
  by (auto simp: eat_str_def strip_prefix_Some_iff split: option.splits)

termination skip_trivia
proof (relation "measure length"; clarsimp)
  fix s u assume "(True, u) = eat_str ''//'' (eat_whitespace s)"
  then have "eat_whitespace s = lit ''//'' @ u" by (simp add: eat_str_True_iff flip: eat_str_True_iff)
  moreover have "length (eat_whitespace s) \<le> length s" by (simp add: eat_whitespace_def length_dropWhile_le)
  moreover have "length (eat_until 10 u) \<le> length u" by (simp add: eat_until_def length_eat_until)
  ultimately show "length (eat_until 10 u) < length s" by (simp add: lit_def)
qed

declare skip_trivia.simps [simp del]

definition skip_whitespace :: "lexer \<Rightarrow> lexer option" where
  "skip_whitespace lx = (let tail = skip_trivia (lx_input lx) in
     if byte_len tail < byte_len (lx_input lx)
     then map_option (\<lambda>(_, _, lx'). lx') (bump_to tail lx) else Some lx)"

section \<open>The token forms\<close>

text \<open>The bytes compared are ASCII, so the first two bytes match when the first two characters do.\<close>

definition two_chars :: "(str \<times> token) list" where
  "two_chars = [(lit ''=='', TEqEq), (lit ''!='', TBangEq), (lit ''&&'', TAmpAmp), (lit ''||'', TPipePipe),
      (lit ''>='', TAngleRightEq), (lit ''<='', TAngleLeftEq), (lit ''->'', TArrow), (lit ''=>'', TFatArrow),
      (lit ''+='', TPlusEq), (lit ''-='', TMinusEq), (lit ''*='', TStarEq), (lit ''/='', TSlashEq),
      (lit ''%='', TPercentEq), (lit ''/*'', TSlashStar), (lit ''--'', THyphenHyphen)]"

definition two_char_punctuation :: "lexer \<Rightarrow> lexed" where
  "two_char_punctuation lx = (case map_of two_chars (take 2 (lx_input lx)) of
     None \<Rightarrow> Some (None, lx)
   | Some tok \<Rightarrow> do { (_, span, lx') \<leftarrow> bump 2 lx; Some (Some (tok, span), lx') })"

definition one_chars :: "(str \<times> token) list" where
  "one_chars = [(lit ''='', TEq), (lit ''|'', TPipe), (lit ''-'', THyphen), (lit '':'', TColon),
      (lit '';'', TSemiColon), (lit '','', TComma), (lit ''.'', TPeriod), (lit ''+'', TPlus),
      (lit ''*'', TStar), (lit ''/'', TSlash), (lit ''!'', TBang), (lit ''{'', TCurlyLeft),
      (lit ''}'', TCurlyRight), (lit ''?'', TQuestionMark), (lit ''['', TSquareLeft), (lit '']'', TSquareRight),
      (lit ''('', TRoundLeft), (lit '')'', TRoundRight), (lit ''<'', TAngleLeft), (lit ''>'', TAngleRight),
      (lit ''%'', TPercent), (lit ''#'', THash)]"

definition one_char_punctuation :: "lexer \<Rightarrow> lexed" where
  "one_char_punctuation lx = (case map_of one_chars (take 1 (lx_input lx)) of
     None \<Rightarrow> Some (None, lx)
   | Some tok \<Rightarrow> do { (_, span, lx') \<leftarrow> bump 1 lx; Some (Some (tok, span), lx') })"

fun eat_hex_groups :: "nat \<Rightarrow> str \<Rightarrow> str option" where
  "eat_hex_groups 0 s = Some s"
| "eat_hex_groups (Suc n) s = (let (_, t) = eat_while is_ascii_hexdigit s in
     case eat_char (ch CHR '':'') t of (True, u) \<Rightarrow> eat_hex_groups n u | (False, _) \<Rightarrow> None)"

definition ipv6 :: "lexer \<Rightarrow> lexed" where
  "ipv6 lx = (case eat_hex_groups 2 (lx_input lx) of
     None \<Rightarrow> Some (None, lx)
   | Some tail \<Rightarrow>
       emit (snd (eat_while (\<lambda>c. is_ascii_hexdigit c \<or> c = ch CHR '':'') tail)) TIpV6 lx)"

fun eat_digit_groups :: "nat \<Rightarrow> str \<Rightarrow> str option" where
  "eat_digit_groups 0 s = Some s"
| "eat_digit_groups (Suc n) s = (case eat_while is_ascii_digit s of
     (False, _) \<Rightarrow> None
   | (True, t) \<Rightarrow>
       (case eat_char (ch CHR ''.'') t of (True, u) \<Rightarrow> eat_digit_groups n u | (False, _) \<Rightarrow> None))"

definition ipv4 :: "lexer \<Rightarrow> lexed" where
  "ipv4 lx = (case eat_digit_groups 3 (lx_input lx) of
     None \<Rightarrow> Some (None, lx)
   | Some tail \<Rightarrow> emit (snd (eat_while is_ascii_digit tail)) TIpV4 lx)"

definition as_number :: "lexer \<Rightarrow> lexed" where
  "as_number lx = (case eat_str ''AS'' (lx_input lx) of
     (False, _) \<Rightarrow> Some (None, lx)
   | (True, tail) \<Rightarrow>
       (case eat_while is_ascii_digit tail of
          (False, _) \<Rightarrow> Some (None, lx)
        | (True, tail') \<Rightarrow> emit tail' TAsn lx))"

definition hex_number :: "lexer \<Rightarrow> lexed" where
  "hex_number lx = (case eat_str ''0x'' (lx_input lx) of
     (False, _) \<Rightarrow> Some (None, lx)
   | (True, tail) \<Rightarrow> emit (snd (eat_while is_ascii_hexdigit tail)) THex lx)"

definition number_exponent :: "bool \<Rightarrow> str \<Rightarrow> bool \<times> str" where
  "number_exponent is_float s = (case eat_one_of [ch CHR ''e'', ch CHR ''E''] s of
     (True, t) \<Rightarrow>
       (True, snd (eat_while is_roto_digit (snd (eat_one_of [ch CHR ''+'', ch CHR ''-''] t))))
   | (False, _) \<Rightarrow> (is_float, s))"

text \<open>The block \<open>'float\<close>: after the point of \<open>10..\<close>, \<open>10._x\<close> or \<open>10.x\<close> the literal is an integer.\<close>

fun number_fraction :: "unicode \<Rightarrow> str \<Rightarrow> bool \<times> str" where
  "number_fraction uni [] = number_exponent False []"
| "number_fraction uni (d # s) =
     (if d \<noteq> ch CHR ''.'' then number_exponent False (d # s)
      else if (case s of c # _ \<Rightarrow> xid_start uni c \<or> c = ch CHR ''.'' \<or> c = ch CHR ''_'' | [] \<Rightarrow> False)
      then (False, d # s)
      else number_exponent True (snd (eat_while is_roto_digit s)))"

definition number :: "unicode \<Rightarrow> lexer \<Rightarrow> lexed" where
  "number uni lx =
     (if \<not> (lx_input lx \<noteq> [] \<and> is_ascii_digit (hd (lx_input lx))) then Some (None, lx)
      else
        let (is_float, tail) = number_fraction uni (snd (eat_while is_roto_digit (lx_input lx))) in do {
        len \<leftarrow> checked_sub (byte_len (lx_input lx)) (byte_len tail);
        (tok, span, lx') \<leftarrow> bump_to (snd (eat_while (\<lambda>c. xid_continue uni c \<or> c = ch CHR ''_'') tail)) lx;
        (num, suffix) \<leftarrow> split_at len tok;
        Some (Some (if is_float then TFloat num suffix else TInteger num suffix, span), lx') })"

definition f_string :: "lexer \<Rightarrow> lexed" where
  "f_string lx = (case eat_str ''f\"'' (lx_input lx) of
     (False, _) \<Rightarrow> Some (None, lx)
   | (True, tail) \<Rightarrow> emit tail (\<lambda>_. TFStringStart) lx)"

text \<open>The closure that finds the quote that is not escaped; its state is \<open>last_is_backslash\<close>.\<close>

definition find_quote :: "rchar \<Rightarrow> bool \<Rightarrow> rchar \<Rightarrow> bool \<times> bool" where
  "find_quote q esc c =
     (if esc then (False, False)
      else if c = q then (True, False)
      else (False, c = ch CHR 0x5C))"

definition lex_char :: "lexer \<Rightarrow> lexed" where
  "lex_char lx = (case eat_char (ch CHR 0x27) (lx_input lx) of
     (False, _) \<Rightarrow> Some (None, lx)
   | (True, tail) \<Rightarrow> (let tail' = eat_until_fn (find_quote (ch CHR 0x27)) False tail in
       if tail' = [] then Some (None, lx) else emit tail' TChar lx))"

definition lex_string :: "lexer \<Rightarrow> lexed" where
  "lex_string lx = (case eat_char (ch CHR 0x22) (lx_input lx) of
     (False, _) \<Rightarrow> Some (None, lx)
   | (True, tail) \<Rightarrow> (let tail' = eat_until_fn (find_quote (ch CHR 0x22)) False tail in
       if tail' = [] then Some (None, lx) else emit tail' TString lx))"

definition all_keywords :: "keyword list" where
  "all_keywords = [KwAccept, KwConst, KwDep, KwElse, KwEnum, KwFilter, KwFilterMap, KwFor, KwFn, KwIf, KwImport, KwIn, KwLet, KwMatch, KwPkg, KwRecord, KwReject, KwReturn, KwStd, KwSuper, KwTest, KwWhile]"

definition keyword_of :: "str \<Rightarrow> keyword option" where
  "keyword_of s = find (\<lambda>k. lit (keyword_as_str k) = s) all_keywords"

definition suggestions :: "(str \<times> string option) list" where
  "suggestions = [(lit ''loop'', None),
      (lit ''struct'', Some ''record''),
      (lit ''class'', Some ''record''),
      (lit ''data'', Some ''record''),
      (lit ''use'', Some ''import''),
      (lit ''switch'', Some ''match''),
      (lit ''var'', Some ''let''),
      (lit ''local'', Some ''let''),
      (lit ''function'', Some ''fn''),
      (lit ''fun'', Some ''fn''),
      (lit ''func'', Some ''fn''),
      (lit ''def'', Some ''fn'')]"

definition record_almost_keyword :: "str \<Rightarrow> range \<Rightarrow> lexer \<Rightarrow> lexer" where
  "record_almost_keyword x span lx = (case map_of suggestions x of
     None \<Rightarrow> lx
   | Some suggestion \<Rightarrow> lx\<lparr>lx_almost_keyword := Some (x, span, suggestion)\<rparr>)"

text \<open>\<open>&tail[1..]\<close> skips one byte: it panics when the first character is longer.\<close>

definition keyword_or_ident :: "unicode \<Rightarrow> lexer \<Rightarrow> lexed" where
  "keyword_or_ident uni lx = (case lx_input lx of
     [] \<Rightarrow> Some (None, lx)
   | c # _ \<Rightarrow>
       if \<not> (xid_start uni c \<or> c = ch CHR ''_'') then Some (None, lx)
       else do {
         (_, tail) \<leftarrow> split_at 1 (lx_input lx);
         (ident, span, lx') \<leftarrow> bump_to (snd (eat_while (xid_continue uni) tail)) lx;
         Some (case keyword_of ident of
             Some kw \<Rightarrow> (Some (TKeyword kw, span), lx')
           | None \<Rightarrow>
               if ident = lit ''true'' then (Some (TBool True, span), lx')
               else if ident = lit ''false'' then (Some (TBool False, span), lx')
               else (Some (TIdent ident, span), record_almost_keyword ident span lx')) })"

section \<open>The token stream\<close>

text \<open>\<open>f()?; g()\<close>.\<close>

definition or_else :: "(lexer \<Rightarrow> lexed) \<Rightarrow> (lexer \<Rightarrow> lexed) \<Rightarrow> lexer \<Rightarrow> lexed" where
  "or_else f g lx = do {
     (r, lx') \<leftarrow> f lx;
     (case r of Some t \<Rightarrow> Some (Some t, lx') | None \<Rightarrow> g lx') }"

definition next_token :: "unicode \<Rightarrow> lexer \<Rightarrow> lexed" where
  "next_token uni lx = do {
     lx1 \<leftarrow> skip_whitespace lx;
     (if lx_input lx1 = [] then Some (None, lx1)
      else foldr or_else
        [ipv6, ipv4, two_char_punctuation, one_char_punctuation, as_number, hex_number, number uni,
         f_string, lex_string, lex_char, keyword_or_ident uni]
        (\<lambda>lx. Some (None, lx)) lx1) }"

definition next_inner :: "unicode \<Rightarrow> lexer \<Rightarrow> ((token option \<times> range) option \<times> lexer) option" where
  "next_inner uni lx = do {
     (r, lx') \<leftarrow> next_token uni lx;
     (case r of
        Some (tok, span) \<Rightarrow> Some (Some (Some tok, span), lx')
      | None \<Rightarrow>
          if lx_input lx' = [] then Some (None, lx')
          else do {
            start \<leftarrow> checked_sub (lx_original_length lx') (byte_len (lx_input lx'));
            Some (Some (None, (start, start + 1)), lx') }) }"

definition lexer_next :: "unicode \<Rightarrow> lexer \<Rightarrow> ((token option \<times> range) option \<times> lexer) option" where
  "lexer_next uni lx = (case lx_peeked lx of
     t # ts \<Rightarrow> Some (Some t, lx\<lparr>lx_peeked := ts\<rparr>)
   | [] \<Rightarrow> next_inner uni lx)"

definition lexer_peek :: "unicode \<Rightarrow> lexer \<Rightarrow> ((token option \<times> range) option \<times> lexer) option" where
  "lexer_peek uni lx = (case lx_peeked lx of
     t # ts \<Rightarrow> Some (Some t, lx)
   | [] \<Rightarrow> do {
       (r, lx') \<leftarrow> next_inner uni lx;
       (case r of
          None \<Rightarrow> Some (None, lx')
        | Some t \<Rightarrow> Some (Some t, lx'\<lparr>lx_peeked := lx_peeked lx' @ [t]\<rparr>)) })"

fun fill_peeked :: "unicode \<Rightarrow> nat \<Rightarrow> lexer \<Rightarrow> (bool \<times> lexer) option" where
  "fill_peeked uni 0 lx = Some (True, lx)"
| "fill_peeked uni (Suc n) lx = do {
     (r, lx') \<leftarrow> next_inner uni lx;
     (case r of
        None \<Rightarrow> Some (False, lx')
      | Some t \<Rightarrow> fill_peeked uni n (lx'\<lparr>lx_peeked := lx_peeked lx' @ [t]\<rparr>)) }"

definition peek_many :: "unicode \<Rightarrow> nat \<Rightarrow> lexer \<Rightarrow> (token list option \<times> lexer) option" where
  "peek_many uni n lx = do {
     k \<leftarrow> checked_sub n (length (lx_peeked lx));
     (ok, lx') \<leftarrow> fill_peeked uni k lx;
     (if \<not> ok then Some (None, lx')
      else
        let toks = map fst (take n (lx_peeked lx')) in
        Some (if None \<in> set toks then None else Some (map the toks), lx')) }"

section \<open>F-strings\<close>

text \<open>How the scan of \<open>f_string_part\<close> stops, at an index counted in characters.\<close>

datatype fs_stop = FsEnd nat | FsOpen nat | FsInvalid

fun fs_close :: "nat \<Rightarrow> str \<Rightarrow> (nat \<times> str) option" where
  "fs_close i [] = None"
| "fs_close i (c # cs) = (if c = ch CHR ''}'' then Some (i + 1, cs) else fs_close (i + 1) cs)"

lemma fs_close_shorter: "fs_close i s = Some (j, t) \<Longrightarrow> length t < length s"
  by (induction i s rule: fs_close.induct) (auto split: if_splits)

function fs_scan :: "nat \<Rightarrow> str \<Rightarrow> fs_stop" where
  "fs_scan i [] = FsInvalid"
| "fs_scan i (c # s) =
     (if c = ch CHR 0x5C then
        (case s of
           [] \<Rightarrow> FsInvalid
         | d # s' \<Rightarrow>
             if d = ch CHR ''u'' \<or> d = ch CHR ''U'' then
               (case s' of
                  [] \<Rightarrow> FsInvalid
                | e # s'' \<Rightarrow>
                    if e \<noteq> ch CHR ''{'' then FsInvalid
                    else (case fs_close (i + 3) s'' of None \<Rightarrow> FsInvalid | Some (j, t) \<Rightarrow> fs_scan j t))
             else fs_scan (i + 2) s')
      else if c = ch CHR ''{'' then
        (case s of
           [] \<Rightarrow> FsInvalid
         | d # s' \<Rightarrow> if d = ch CHR ''{'' then fs_scan (i + 2) s' else FsOpen i)
      else if c = ch CHR 0x22 then FsEnd i
      else fs_scan (i + 1) s)"
  by pat_completeness auto
termination
  by (relation "measure (\<lambda>(i, s). length s)") (auto dest: fs_close_shorter)

definition f_string_part :: "lexer \<Rightarrow> ((fstring_token \<times> range) option \<times> lexer) option" where
  "f_string_part lx = (case fs_scan 0 (lx_input lx) of
     FsInvalid \<Rightarrow> Some (None, lx)
   | FsOpen i \<Rightarrow> do {
       (tok, span, lx') \<leftarrow> bump i lx;
       Some (Some (StringIntermediate tok, span), lx') }
   | FsEnd i \<Rightarrow> do {
       (tok, span, lx') \<leftarrow> bump i lx;
       (_, _, lx'') \<leftarrow> bump 1 lx';
       Some (Some (StringEnd tok, span), lx'') })"

section \<open>Every form lexes a prefix of the input\<close>

definition in_source :: "lexer \<Rightarrow> bool" where
  "in_source lx \<longleftrightarrow> byte_len (lx_input lx) \<le> lx_original_length lx"

text \<open>
  A form that looked at the state \<open>lx\<close> either changed nothing, or took a token that is spelled as the
  part of the input it removed, with the positions of that part.
\<close>

definition takes :: "lexer \<Rightarrow> token \<Rightarrow> range \<Rightarrow> lexer \<Rightarrow> bool" where
  "takes lx tok span lx' \<longleftrightarrow>
     lx_input lx = show_token tok @ lx_input lx' \<and> show_token tok \<noteq> [] \<and>
     span = (lx_original_length lx - byte_len (lx_input lx), lx_original_length lx - byte_len (lx_input lx')) \<and>
     lx_original_length lx' = lx_original_length lx \<and> lx_peeked lx' = lx_peeked lx"

definition lexes_ok :: "(lexer \<Rightarrow> lexed) \<Rightarrow> lexer \<Rightarrow> bool" where
  "lexes_ok f lx \<longleftrightarrow> f lx = Some (None, lx) \<or>
     (\<exists>tok span lx'. f lx = Some (Some (tok, span), lx') \<and> takes lx tok span lx')"

lemma bump_append:
  assumes "lx_input lx = a @ b" and "in_source lx"
  shows "bump (byte_len a) lx =
    Some (a, (lx_original_length lx - byte_len (lx_input lx), lx_original_length lx - byte_len b), lx\<lparr>lx_input := b\<rparr>)"
  using assms by (simp add: bump_def checked_sub_def in_source_def)

lemma bump_to_append:
  assumes "lx_input lx = a @ b" and "in_source lx"
  shows "bump_to b lx =
    Some (a, (lx_original_length lx - byte_len (lx_input lx), lx_original_length lx - byte_len b), lx\<lparr>lx_input := b\<rparr>)"
  using bump_append [OF assms] assms(1) by (simp add: bump_to_def checked_sub_def)

lemma emit_ok:
  assumes "lx_input lx = a @ b" and "a \<noteq> []" and "show_token (mk a) = a" and "in_source lx"
  shows "\<exists>tok span lx'. emit b mk lx = Some (Some (tok, span), lx') \<and> takes lx tok span lx'"
  using assms by (simp add: emit_def bump_to_append takes_def)

lemma emit_suffix:
  assumes "strict_suffix b (lx_input lx)" and "\<And>a. show_token (mk a) = a" and "in_source lx"
  shows "\<exists>tok span lx'. emit b mk lx = Some (Some (tok, span), lx') \<and> takes lx tok span lx'"
proof -
  obtain a where "lx_input lx = a @ b" and "a \<noteq> []"
    using assms(1) by (auto simp: strict_suffix_def suffix_def)
  then show ?thesis using assms(2,3) by (intro emit_ok)
qed

section \<open>The scanning methods leave a suffix\<close>

lemma suffix_eat_while: "suffix (snd (eat_while p s)) s"
  by (simp add: eat_while_def Let_def suffix_dropWhile)

lemma strict_suffix_eat_while: "eat_while p s = (True, t) \<Longrightarrow> strict_suffix t s"
  by (auto simp: eat_while_def Let_def strict_suffix_def suffix_dropWhile)

lemma eat_char_True_iff [simp]: "eat_char c s = (True, t) \<longleftrightarrow> s = c # t"
  by (cases s) auto

lemma suffix_eat_one_of: "suffix (snd (eat_one_of cs s)) s"
  by (cases s) (auto simp: suffix_def)

lemma suffix_eat_until_fn: "suffix (eat_until_fn f s t) t"
  by (induction f s t rule: eat_until_fn.induct)
    (auto split: prod.splits bool.splits intro: suffix_ConsI suffix_Cons)

lemma eat_str_strict: "eat_str p s = (True, t) \<Longrightarrow> p \<noteq> [] \<Longrightarrow> strict_suffix t s"
  by (auto simp: eat_str_True_iff lit_def strict_suffix_def suffix_def)

lemma eat_hex_groups_suffix: "eat_hex_groups n s = Some t \<Longrightarrow> 0 < n \<Longrightarrow> strict_suffix t s"
proof (induction n s arbitrary: t rule: eat_hex_groups.induct)
  case (2 n s)
  obtain d w where e: "eat_while is_ascii_hexdigit s = (d, w)" by (cases "eat_while is_ascii_hexdigit s")
  with 2(2) obtain u where u: "eat_char (ch CHR '':'') w = (True, u)" and r: "eat_hex_groups n u = Some t"
    by (auto simp: Let_def split: prod.splits bool.splits)
  have su: "strict_suffix u s"
    using suffix_eat_while [of is_ascii_hexdigit s] u e by (auto simp: suffix_def strict_suffix_def)
  show ?case
  proof (cases n)
    case 0
    with r su show ?thesis by simp
  next
    case (Suc k)
    from 2(1) [OF refl e [symmetric] u [symmetric] refl r] Suc have "strict_suffix t u" by simp
    with su show ?thesis by (metis suffix_order.less_trans)
  qed
qed simp

lemma eat_digit_groups_suffix: "eat_digit_groups n s = Some t \<Longrightarrow> 0 < n \<Longrightarrow> strict_suffix t s"
proof (induction n s arbitrary: t rule: eat_digit_groups.induct)
  case (2 n s)
  obtain w where e: "eat_while is_ascii_digit s = (True, w)"
    using 2(2) by (cases "eat_while is_ascii_digit s"; cases "fst (eat_while is_ascii_digit s)") auto
  with 2(2) obtain u where u: "eat_char (ch CHR ''.'') w = (True, u)" and r: "eat_digit_groups n u = Some t"
    by (auto split: prod.splits bool.splits)
  have su: "strict_suffix u s"
    using suffix_eat_while [of is_ascii_digit s] u e by (auto simp: suffix_def strict_suffix_def)
  show ?case
  proof (cases n)
    case 0
    with r su show ?thesis by simp
  next
    case (Suc k)
    from 2(1) [OF e [symmetric] refl u [symmetric] refl r] Suc have "strict_suffix t u" by simp
    with su show ?thesis by (metis suffix_order.less_trans)
  qed
qed simp

lemma number_exponent_suffix: "suffix (snd (number_exponent b s)) s"
proof (cases "eat_one_of [ch CHR ''e'', ch CHR ''E''] s")
  case (Pair f t)
  then have t: "suffix t s" using suffix_eat_one_of [of "[ch CHR ''e'', ch CHR ''E'']" s] by simp
  let ?u = "snd (eat_one_of [ch CHR ''+'', ch CHR ''-''] t)"
  have "suffix (snd (eat_while is_roto_digit ?u)) ?u" and "suffix ?u t"
    by (rule suffix_eat_while, rule suffix_eat_one_of)
  with t have "suffix (snd (eat_while is_roto_digit ?u)) s" by (meson suffix_order.trans)
  with Pair show ?thesis by (cases f) (simp_all add: number_exponent_def)
qed

lemma number_fraction_suffix: "suffix (snd (number_fraction uni s)) s"
proof (cases s)
  case (Cons d t)
  have "suffix (snd (number_exponent True (snd (eat_while is_roto_digit t)))) t"
    using number_exponent_suffix suffix_eat_while by (rule suffix_order.trans)
  with Cons number_exponent_suffix [of False s] show ?thesis
    by (auto intro: suffix_ConsI simp: suffix_Cons)
qed (use number_exponent_suffix [of False "[]"] in simp)

section \<open>The forms\<close>

lemma map_of_spelled: "map_of t k = Some tok \<Longrightarrow> \<forall>(s, x) \<in> set t. show_token x = s \<Longrightarrow> show_token tok = k"
  by (drule map_of_SomeD) auto

lemma punctuation_ok:
  assumes "map_of t (take n (lx_input lx)) = Some tok" and "\<forall>(s, x) \<in> set t. show_token x = s \<and> s \<noteq> [] \<and>
      length s = n \<and> (\<forall>c \<in> set s. c < 128)" and "in_source lx"
  shows "\<exists>span lx'. (do { (_, span, lx') \<leftarrow> bump n lx; Some (Some (tok, span), lx') }) = Some (Some (tok, span), lx') \<and>
    takes lx tok span lx'"
proof -
  from map_of_SomeD [OF assms(1)] assms(2) have k: "show_token tok = take n (lx_input lx)"
    "take n (lx_input lx) \<noteq> []" "length (take n (lx_input lx)) = n" "\<forall>c \<in> set (take n (lx_input lx)). c < 128"
    by fastforce+
  then have "byte_len (take n (lx_input lx)) = n" by (simp add: byte_len_ascii)
  with bump_append [of lx "take n (lx_input lx)" "drop n (lx_input lx)"] assms(3) k show ?thesis
    by (simp add: takes_def)
qed

lemma two_char_ok: "in_source lx \<Longrightarrow> lexes_ok two_char_punctuation lx"
proof (cases "map_of two_chars (take 2 (lx_input lx))")
  case (Some tok)
  assume "in_source lx"
  have "\<forall>(s, x) \<in> set two_chars. show_token x = s \<and> s \<noteq> [] \<and> length s = 2 \<and> (\<forall>c \<in> set s. c < 128)"
    by (simp add: two_chars_def lit_def)
  from punctuation_ok [OF Some this \<open>in_source lx\<close>] Some show ?thesis
    by (fastforce simp: lexes_ok_def two_char_punctuation_def)
qed (simp add: lexes_ok_def two_char_punctuation_def)

lemma one_char_ok: "in_source lx \<Longrightarrow> lexes_ok one_char_punctuation lx"
proof (cases "map_of one_chars (take 1 (lx_input lx))")
  case (Some tok)
  assume "in_source lx"
  have "\<forall>(s, x) \<in> set one_chars. show_token x = s \<and> s \<noteq> [] \<and> length s = 1 \<and> (\<forall>c \<in> set s. c < 128)"
    by (simp add: one_chars_def lit_def)
  from punctuation_ok [OF Some this \<open>in_source lx\<close>] Some show ?thesis
    by (fastforce simp: lexes_ok_def one_char_punctuation_def)
qed (simp add: lexes_ok_def one_char_punctuation_def)

lemma lexes_emit: "f lx = emit b mk lx \<Longrightarrow> strict_suffix b (lx_input lx) \<Longrightarrow> (\<And>a. show_token (mk a) = a) \<Longrightarrow>
    in_source lx \<Longrightarrow> lexes_ok f lx"
  unfolding lexes_ok_def using emit_suffix by metis

lemma suffix_strict_trans: "suffix a b \<Longrightarrow> strict_suffix b c \<Longrightarrow> strict_suffix a c"
  by (rule suffix_order.le_less_trans)

lemma ipv6_ok: "in_source lx \<Longrightarrow> lexes_ok ipv6 lx"
proof (cases "eat_hex_groups 2 (lx_input lx)")
  case (Some t)
  assume "in_source lx"
  with Some show ?thesis
    by (intro lexes_emit [where mk = TIpV6, OF _ suffix_strict_trans [OF suffix_eat_while eat_hex_groups_suffix [OF Some]]])
      (simp_all add: ipv6_def)
qed (simp add: lexes_ok_def ipv6_def)

lemma ipv4_ok: "in_source lx \<Longrightarrow> lexes_ok ipv4 lx"
proof (cases "eat_digit_groups 3 (lx_input lx)")
  case (Some t)
  assume "in_source lx"
  with Some show ?thesis
    by (intro lexes_emit [where mk = TIpV4, OF _ suffix_strict_trans [OF suffix_eat_while eat_digit_groups_suffix [OF Some]]])
      (simp_all add: ipv4_def)
qed (simp add: lexes_ok_def ipv4_def)

lemma as_number_ok: "in_source lx \<Longrightarrow> lexes_ok as_number lx"
proof (cases "eat_str ''AS'' (lx_input lx)")
  case (Pair b t)
  assume ok: "in_source lx"
  obtain d u where e: "eat_while is_ascii_digit t = (d, u)" by (cases "eat_while is_ascii_digit t")
  show ?thesis
  proof (cases "b \<and> d")
    case True
    with Pair have s: "strict_suffix t (lx_input lx)" by (simp add: eat_str_strict)
    from True e strict_suffix_eat_while [of is_ascii_digit t u] have "strict_suffix u t" by simp
    with s have "strict_suffix u (lx_input lx)" by (rule suffix_order.less_trans [rotated])
    with True Pair e ok show ?thesis by (intro lexes_emit [where mk = TAsn]) (simp_all add: as_number_def)
  next
    case False
    with Pair e show ?thesis by (cases b) (auto simp: lexes_ok_def as_number_def)
  qed
qed

lemma hex_number_ok: "in_source lx \<Longrightarrow> lexes_ok hex_number lx"
proof (cases "eat_str ''0x'' (lx_input lx)")
  case (Pair b t)
  assume ok: "in_source lx"
  show ?thesis
  proof (cases b)
    case True
    with Pair have s: "strict_suffix t (lx_input lx)" by (simp add: eat_str_strict)
    show ?thesis using True Pair ok
      by (intro lexes_emit [where mk = THex, OF _ suffix_strict_trans [OF suffix_eat_while s]]) (simp_all add: hex_number_def)
  qed (use Pair in \<open>simp add: lexes_ok_def hex_number_def\<close>)
qed

lemma f_string_ok: "in_source lx \<Longrightarrow> lexes_ok f_string lx"
proof (cases "eat_str [CHR ''f'', CHR 0x22] (lx_input lx)")
  case (Pair b t)
  assume ok: "in_source lx"
  show ?thesis
  proof (cases b)
    case True
    with Pair have "lx_input lx = lit [CHR ''f'', CHR 0x22] @ t" by (simp add: eat_str_True_iff)
    from emit_ok [of lx "lit [CHR ''f'', CHR 0x22]" t "\<lambda>_. TFStringStart", OF this _ _ ok] True Pair show ?thesis
      by (auto simp: lexes_ok_def f_string_def lit_def)
  qed (use Pair in \<open>simp add: lexes_ok_def f_string_def\<close>)
qed

lemma suffix_strict_Cons: "suffix t s \<Longrightarrow> strict_suffix t (c # s)"
  by (auto simp: strict_suffix_def intro: suffix_ConsI dest: suffix_length_le)

lemma eat_while_first:
  assumes "s \<noteq> []" and "p (hd s)"
  shows "strict_suffix (snd (eat_while p s)) s"
  using assms by (cases s) (simp_all add: eat_while_def Let_def suffix_dropWhile suffix_strict_Cons)

lemma number_ok:
  assumes ok: "in_source lx"
  shows "lexes_ok (number uni) lx"
proof (cases "lx_input lx \<noteq> [] \<and> is_ascii_digit (hd (lx_input lx))")
  case False
  then show ?thesis by (auto simp: lexes_ok_def number_def)
next
  case True
  let ?d = "snd (eat_while is_roto_digit (lx_input lx))"
  obtain is_float tail where f: "number_fraction uni ?d = (is_float, tail)" by (cases "number_fraction uni ?d")
  have "strict_suffix ?d (lx_input lx)"
    using True by (intro eat_while_first) (simp_all add: is_roto_digit_def)
  moreover have "suffix tail ?d" using number_fraction_suffix [of uni ?d] f by simp
  ultimately have s: "strict_suffix tail (lx_input lx)" by (metis suffix_strict_trans)
  then obtain num where num: "lx_input lx = num @ tail" "num \<noteq> []" by (auto simp: strict_suffix_def suffix_def)
  let ?t = "snd (eat_while (\<lambda>c. xid_continue uni c \<or> c = ch CHR ''_'') tail)"
  obtain suf where suf: "tail = suf @ ?t" using suffix_eat_while unfolding suffix_def by blast
  have bump: "bump_to ?t lx = Some (num @ suf, (lx_original_length lx - byte_len (lx_input lx),
      lx_original_length lx - byte_len ?t), lx\<lparr>lx_input := ?t\<rparr>)"
    using num suf by (intro bump_to_append ok) simp
  let ?tok = "if is_float then TFloat num suf else TInteger num suf"
  have "byte_len (lx_input lx) = byte_len num + byte_len tail" using num by simp
  then have r: "number uni lx = Some (Some (?tok, lx_original_length lx - byte_len (lx_input lx),
      lx_original_length lx - byte_len ?t), lx\<lparr>lx_input := ?t\<rparr>)"
    using True f bump by (simp add: number_def checked_sub_def)
  moreover have "takes lx ?tok (lx_original_length lx - byte_len (lx_input lx),
      lx_original_length lx - byte_len ?t) (lx\<lparr>lx_input := ?t\<rparr>)"
    using num suf by (simp add: takes_def)
  ultimately show ?thesis unfolding lexes_ok_def by blast
qed

lemma quoted_ok:
  assumes "f lx = (case eat_char q (lx_input lx) of
     (False, _) \<Rightarrow> Some (None, lx)
   | (True, tail) \<Rightarrow> (let tail' = eat_until_fn g False tail in
       if tail' = [] then Some (None, lx) else emit tail' mk lx))"
    and "\<And>a. show_token (mk a) = a" and "in_source lx"
  shows "lexes_ok f lx"
proof (cases "eat_char q (lx_input lx)")
  case (Pair b t)
  let ?t = "eat_until_fn g False t"
  show ?thesis
  proof (cases "b \<and> ?t \<noteq> []")
    case True
    with Pair have "lx_input lx = q # t" by simp
    moreover have "suffix ?t t" by (rule suffix_eat_until_fn)
    ultimately have "strict_suffix ?t (lx_input lx)" by (simp add: suffix_strict_Cons)
    with True Pair assms show ?thesis by (intro lexes_emit [where mk = mk]) simp_all
  next
    case False
    with Pair assms(1) show ?thesis by (cases b) (simp_all add: lexes_ok_def)
  qed
qed

lemma lex_string_ok: "in_source lx \<Longrightarrow> lexes_ok lex_string lx"
  by (rule quoted_ok [where mk = TString]) (simp_all add: lex_string_def)

lemma lex_char_ok: "in_source lx \<Longrightarrow> lexes_ok lex_char lx"
  by (rule quoted_ok [where mk = TChar]) (simp_all add: lex_char_def)

lemma keyword_of_spelled: "keyword_of s = Some k \<Longrightarrow> lit (keyword_as_str k) = s"
  by (auto simp: keyword_of_def find_Some_iff)

lemma record_almost_keyword_simps [simp]:
  "lx_input (record_almost_keyword x sp lx) = lx_input lx"
  "lx_original_length (record_almost_keyword x sp lx) = lx_original_length lx"
  "lx_peeked (record_almost_keyword x sp lx) = lx_peeked lx"
  by (simp_all add: record_almost_keyword_def split: option.splits)

text \<open>The first character of an identifier, when it is one byte long, can be skipped.\<close>

definition wide_start :: "unicode \<Rightarrow> lexer \<Rightarrow> bool" where
  "wide_start uni lx \<longleftrightarrow> (\<exists>c s. lx_input lx = c # s \<and> xid_start uni c \<and> 128 \<le> c)"

lemma split_at_one: "split_at 1 (c # s) = (if c < 128 then Some ([c], s) else None)"
  by (simp add: utf8_len_def)

lemma keyword_or_ident_ok:
  assumes ok: "in_source lx" and "\<not> wide_start uni lx"
  shows "lexes_ok (keyword_or_ident uni) lx"
proof (cases "lx_input lx")
  case Nil
  then show ?thesis by (simp add: lexes_ok_def keyword_or_ident_def)
next
  case (Cons c s)
  show ?thesis
  proof (cases "xid_start uni c \<or> c = ch CHR ''_''")
    case False
    with Cons show ?thesis by (simp add: lexes_ok_def keyword_or_ident_def)
  next
    case True
    with assms(2) Cons have c: "c < 128" by (auto simp: wide_start_def)
    let ?t = "snd (eat_while (xid_continue uni) s)"
    obtain a where a: "s = a @ ?t" using suffix_eat_while unfolding suffix_def by blast
    let ?sp = "(lx_original_length lx - byte_len (lx_input lx), lx_original_length lx - byte_len ?t)"
    have b: "bump_to ?t lx = Some (c # a, ?sp, lx\<lparr>lx_input := ?t\<rparr>)"
      using Cons a by (intro bump_to_append ok) simp
    have "\<exists>tok lx'. keyword_or_ident uni lx = Some (Some (tok, ?sp), lx') \<and> show_token tok = c # a \<and>
        lx_input lx' = ?t \<and> lx_original_length lx' = lx_original_length lx \<and> lx_peeked lx' = lx_peeked lx"
      using True Cons b c split_at_one [of c s]
      by (auto simp: keyword_or_ident_def dest: keyword_of_spelled split: option.splits)
    with Cons a show ?thesis by (fastforce simp: lexes_ok_def takes_def)
  qed
qed

lemma keyword_or_ident_wide: "wide_start uni lx \<Longrightarrow> keyword_or_ident uni lx = None"
  using split_at_one by (auto simp: wide_start_def keyword_or_ident_def)

section \<open>The next token\<close>

text \<open>What may stand between tokens: white space and line comments.\<close>

inductive trivia :: "str \<Rightarrow> bool" where
  trivia_nil: "trivia []"
| trivia_space: "is_whitespace c \<Longrightarrow> trivia s \<Longrightarrow> trivia (c # s)"
| trivia_line: "10 \<notin> set body \<Longrightarrow> trivia s \<Longrightarrow> trivia (lit ''//'' @ body @ 10 # s)"
| trivia_last: "10 \<notin> set body \<Longrightarrow> trivia (lit ''//'' @ body)"

lemma trivia_spaces: "\<forall>c \<in> set a. is_whitespace c \<Longrightarrow> trivia s \<Longrightarrow> trivia (a @ s)"
  by (induction a) (auto intro: trivia.intros)

lemma eat_until_split:
  "(eat_until c s = [] \<and> c \<notin> set s) \<or> (\<exists>body. s = body @ c # eat_until c s \<and> c \<notin> set body)"
proof (induction s)
  case (Cons d s)
  show ?case
  proof (cases "d = c")
    case True
    then show ?thesis by (intro disjI2 exI [of _ "[]"]) (simp add: eat_until_def)
  next
    case False
    then have "eat_until c (d # s) = eat_until c s" by (simp add: eat_until_def)
    with Cons False show ?thesis by (auto intro: exI [of _ "d # _"])
  qed
qed (simp add: eat_until_def)

lemma skip_trivia_split: "\<exists>gap. trivia gap \<and> s = gap @ skip_trivia s"
proof (induction s rule: skip_trivia.induct)
  case step: (1 s)
  let ?a = "takeWhile is_whitespace s" and ?t = "eat_whitespace s"
  have s: "s = ?a @ ?t" and a: "\<forall>c \<in> set ?a. is_whitespace c"
    by (auto simp: eat_whitespace_def dest: set_takeWhileD)
  obtain b u where e: "eat_str ''//'' ?t = (b, u)" by (cases "eat_str ''//'' ?t")
  show ?case
  proof (cases b)
    case False
    with e have "skip_trivia s = ?t" by (subst skip_trivia.simps) (simp add: Let_def)
    with s trivia_spaces [OF a trivia_nil] show ?thesis by auto
  next
    case True
    let ?v = "eat_until 10 u"
    from e True have r: "skip_trivia s = skip_trivia ?v" by (subst skip_trivia.simps) (simp add: Let_def)
    from e True have e': "(True, u) = eat_str ''//'' ?t" by simp
    from step [OF refl e' refl] obtain gap where gap: "trivia gap" "?v = gap @ skip_trivia ?v" by auto
    have t: "?t = lit ''//'' @ u" using e True by (simp add: eat_str_True_iff)
    have "\<exists>g. trivia g \<and> ?t = g @ skip_trivia ?v"
      using eat_until_split [of 10 u]
    proof (elim disjE exE conjE)
      assume "?v = []" "10 \<notin> set u"
      with gap t trivia_last [of u] show ?thesis by auto
    next
      fix body assume "u = body @ 10 # ?v" "10 \<notin> set body"
      with gap t trivia_line [of body gap] show ?thesis
        by (intro exI [of _ "lit ''//'' @ body @ 10 # gap"]) (metis append_Cons append_assoc)
    qed
    then obtain g where g: "trivia g" "?t = g @ skip_trivia ?v" by blast
    with s r trivia_spaces [OF a g(1)] show ?thesis by (intro exI [of _ "?a @ g"]) simp
  qed
qed

lemma skip_whitespace_eq:
  assumes "in_source lx"
  shows "skip_whitespace lx = Some (lx\<lparr>lx_input := skip_trivia (lx_input lx)\<rparr>)"
proof -
  obtain gap where gap: "lx_input lx = gap @ skip_trivia (lx_input lx)" using skip_trivia_split by blast
  show ?thesis
  proof (cases "gap = []")
    case True
    with gap have "skip_trivia (lx_input lx) = lx_input lx" by simp
    then show ?thesis by (simp add: skip_whitespace_def)
  next
    case False
    then have "0 < byte_len gap" by (cases gap) auto
    moreover have "byte_len (lx_input lx) = byte_len gap + byte_len (skip_trivia (lx_input lx))" by (subst gap) simp
    ultimately have "byte_len (skip_trivia (lx_input lx)) < byte_len (lx_input lx)" by simp
    with bump_to_append [OF gap assms] show ?thesis by (simp add: skip_whitespace_def)
  qed
qed

lemma or_else_ok:
  assumes "lexes_ok f lx" and "lexes_ok g lx"
  shows "lexes_ok (or_else f g) lx"
  using assms unfolding lexes_ok_def or_else_def by auto

lemma or_else_skip: "f lx = Some (None, lx) \<Longrightarrow> or_else f g lx = g lx"
  by (simp add: or_else_def)

lemmas form_oks = ipv6_ok ipv4_ok two_char_ok one_char_ok as_number_ok hex_number_ok number_ok f_string_ok
  lex_string_ok lex_char_ok keyword_or_ident_ok

lemma forms_ok:
  assumes "in_source lx" and "\<not> wide_start uni lx"
  shows "lexes_ok (foldr or_else
        [ipv6, ipv4, two_char_punctuation, one_char_punctuation, as_number, hex_number, number uni,
         f_string, lex_string, lex_char, keyword_or_ident uni]
        (\<lambda>lx. Some (None, lx))) lx"
  using assms by (simp only: foldr.simps comp_apply id_apply) (intro or_else_ok form_oks, simp_all add: lexes_ok_def)

lemma wide_skips:
  assumes "lx_input lx = c # s" and "128 \<le> c"
  shows "ipv6 lx = Some (None, lx)" "ipv4 lx = Some (None, lx)" "two_char_punctuation lx = Some (None, lx)"
    "one_char_punctuation lx = Some (None, lx)" "as_number lx = Some (None, lx)"
    "hex_number lx = Some (None, lx)" "number uni lx = Some (None, lx)" "f_string lx = Some (None, lx)"
    "lex_string lx = Some (None, lx)" "lex_char lx = Some (None, lx)"
  using assms
  by (auto simp: ipv6_def ipv4_def two_char_punctuation_def one_char_punctuation_def as_number_def
      hex_number_def number_def f_string_def lex_string_def lex_char_def numeral_2_eq_2 numeral_3_eq_3
      eat_while_def is_ascii_hexdigit_def is_ascii_digit_def eat_str_def lit_def two_chars_def one_chars_def)

lemma forms_wide:
  assumes "wide_start uni lx"
  shows "foldr or_else
        [ipv6, ipv4, two_char_punctuation, one_char_punctuation, as_number, hex_number, number uni,
         f_string, lex_string, lex_char, keyword_or_ident uni]
        (\<lambda>lx. Some (None, lx)) lx = None"
proof -
  from assms obtain c s where "lx_input lx = c # s" "128 \<le> c" by (auto simp: wide_start_def)
  note w = wide_skips [OF this]
  show ?thesis
    by (simp add: or_else_skip w) (simp add: or_else_def keyword_or_ident_wide [OF assms])
qed

lemma next_token_eq:
  assumes "in_source lx"
  shows "next_token uni lx = (let lx1 = lx\<lparr>lx_input := skip_trivia (lx_input lx)\<rparr> in
     if lx_input lx1 = [] then Some (None, lx1)
     else foldr or_else
        [ipv6, ipv4, two_char_punctuation, one_char_punctuation, as_number, hex_number, number uni,
         f_string, lex_string, lex_char, keyword_or_ident uni]
        (\<lambda>lx. Some (None, lx)) lx1)"
  using assms by (simp add: next_token_def skip_whitespace_eq Let_def)

lemma in_source_skip: "in_source lx \<Longrightarrow> in_source (lx\<lparr>lx_input := skip_trivia (lx_input lx)\<rparr>)"
proof -
  obtain gap where gap: "lx_input lx = gap @ skip_trivia (lx_input lx)" using skip_trivia_split by blast
  have "byte_len (lx_input lx) = byte_len gap + byte_len (skip_trivia (lx_input lx))" by (subst gap) simp
  then show "in_source lx \<Longrightarrow> ?thesis" by (simp add: in_source_def)
qed

lemma next_token_panics_iff:
  assumes "in_source lx"
  shows "next_token uni lx = None \<longleftrightarrow> wide_start uni (lx\<lparr>lx_input := skip_trivia (lx_input lx)\<rparr>)"
proof (cases "wide_start uni (lx\<lparr>lx_input := skip_trivia (lx_input lx)\<rparr>)")
  case True
  from forms_wide [OF True] True show ?thesis
    by (simp only: next_token_eq [OF assms] Let_def) (auto simp: wide_start_def)
next
  case False
  from forms_ok [OF in_source_skip [OF assms] False] False show ?thesis
    by (simp only: next_token_eq [OF assms] Let_def lexes_ok_def) auto
qed

lemma next_token_takes:
  assumes "in_source lx" and "next_token uni lx = Some (r, lx')"
  shows "case r of Some (tok, span) \<Rightarrow> takes (lx\<lparr>lx_input := skip_trivia (lx_input lx)\<rparr>) tok span lx'
     | None \<Rightarrow> lx' = lx\<lparr>lx_input := skip_trivia (lx_input lx)\<rparr>"
proof -
  have "\<not> wide_start uni (lx\<lparr>lx_input := skip_trivia (lx_input lx)\<rparr>)"
    using next_token_panics_iff [OF assms(1), of uni] assms(2) by auto
  from forms_ok [OF in_source_skip [OF assms(1)] this] assms(2) show ?thesis
    by (simp only: next_token_eq [OF assms(1)] Let_def lexes_ok_def) (auto split: if_splits)
qed

text \<open>
  C18. A token the lexer takes is spelled by the source text of its range: the input is a gap of white
  space and comments, then the spelling of the token (never empty), then what is left, and slicing the
  source at the range gives that spelling.
\<close>

theorem tokens_spell_source:
  assumes "next_inner uni lx = Some (Some (Some tok, (a, b)), lx')"
    and "lx_original_length lx = byte_len (past @ lx_input lx)"
  shows "\<exists>gap. trivia gap \<and> lx_input lx = gap @ show_token tok @ lx_input lx' \<and> show_token tok \<noteq> [] \<and>
      slice (past @ lx_input lx) a b = Some (show_token tok) \<and>
      lx_original_length lx' = byte_len (past @ gap @ show_token tok @ lx_input lx')"
proof -
  have ok: "in_source lx" using assms(2) by (simp add: in_source_def)
  obtain r lx1 where n: "next_token uni lx = Some (r, lx1)" and r: "r = Some (tok, (a, b))" and lx1: "lx1 = lx'"
    using assms(1) by (auto simp: next_inner_def bind_eq_Some_conv split: option.splits if_splits)
  obtain gap where gap: "trivia gap" "lx_input lx = gap @ skip_trivia (lx_input lx)" using skip_trivia_split by blast
  from next_token_takes [OF ok n] r lx1
  have t: "takes (lx\<lparr>lx_input := skip_trivia (lx_input lx)\<rparr>) tok (a, b) lx'" by simp
  then have s: "lx_input lx = gap @ show_token tok @ lx_input lx'" and ne: "show_token tok \<noteq> []"
    and len: "lx_original_length lx' = lx_original_length lx"
    and a: "a = lx_original_length lx - byte_len (skip_trivia (lx_input lx))"
    and b: "b = lx_original_length lx - byte_len (lx_input lx')"
    and sk: "skip_trivia (lx_input lx) = show_token tok @ lx_input lx'"
    using gap(2) by (auto simp: takes_def)
  have "lx_original_length lx = byte_len past + byte_len gap + byte_len (show_token tok) + byte_len (lx_input lx')"
    using assms(2) s by simp
  then have ab: "a = byte_len (past @ gap)" "b - a = byte_len (show_token tok)" "a \<le> b" using a b sk by simp_all
  have "slice (past @ lx_input lx) a b = Some (show_token tok)"
    using ab split_at_byte_len [of "past @ gap" "show_token tok @ lx_input lx'"] s by (simp add: slice_def)
  with gap(1) s ne len assms(2) show ?thesis by auto
qed

text \<open>A sample table: the ASCII letters and one accented letter.\<close>

definition sample_unicode :: unicode where
  "sample_unicode = \<lparr>xid_start = \<lambda>c. (97 \<le> c \<and> c \<le> 122) \<or> (65 \<le> c \<and> c \<le> 90) \<or> c = 0xE9,
     xid_continue = \<lambda>c. (97 \<le> c \<and> c \<le> 122) \<or> (65 \<le> c \<and> c \<le> 90) \<or> (48 \<le> c \<and> c \<le> 57) \<or> c = 95 \<or> c = 0xE9\<rparr>"

text \<open>The source \<open>// x\n 0x1f+10u8\<close>.\<close>

definition sample_source :: str where
  "sample_source = lit ''// x'' @ [10] @ lit '' 0x1f+10u8''"

lemma sample_lexes:
  "next_inner sample_unicode (lexer_new sample_source) =
     Some (Some (Some (THex (lit ''0x1f'')), (6, 10)), (lexer_new sample_source)\<lparr>lx_input := lit ''+10u8''\<rparr>)"
proof -
  have s: "skip_trivia sample_source = lit ''0x1f+10u8''"
    by (simp add: sample_source_def lit_def eat_whitespace_def is_whitespace_def eat_str_def
        eat_until_def skip_trivia.simps Let_def)
  show ?thesis
    by (simp add: next_inner_def next_token_eq in_source_def lexer_new_def s Let_def)
      (simp add: or_else_def lit_def ipv6_def ipv4_def two_char_punctuation_def one_char_punctuation_def
        as_number_def hex_number_def numeral_2_eq_2 numeral_3_eq_3 eat_while_def is_ascii_hexdigit_def
        is_ascii_digit_def eat_str_def two_chars_def one_chars_def emit_def bump_to_def bump_def checked_sub_def
        utf8_len_def sample_source_def Let_def)
qed

theorem tokens_spell_source_witness:
  "slice sample_source 6 10 = Some (show_token (THex (lit ''0x1f'')))"
  using tokens_spell_source [OF sample_lexes, of "[]"] by (auto simp: lexer_new_def)

text \<open>
  C35. The lexer panics exactly when the next token begins with a character that starts an identifier
  and is longer than one byte (\<open>tail[1..]\<close> cuts it); every other input gives a token, an error or the
  end of the input.
\<close>

theorem lexer_panics_iff:
  assumes "byte_len (lx_input lx) \<le> lx_original_length lx"
  shows "next_inner uni lx = None \<longleftrightarrow>
    (\<exists>c s. skip_trivia (lx_input lx) = c # s \<and> xid_start uni c \<and> 128 \<le> c)"
proof -
  have ok: "in_source lx" using assms by (simp add: in_source_def)
  have "next_inner uni lx = None \<longleftrightarrow> next_token uni lx = None"
  proof (cases "next_token uni lx")
    case (Some p)
    obtain r lx1 where p: "p = (r, lx1)" by (cases p)
    with Some next_token_takes [OF ok] have "r = None \<Longrightarrow> in_source lx1" using in_source_skip [OF ok] by fastforce
    with Some p show ?thesis by (auto simp: next_inner_def in_source_def checked_sub_def split: option.splits)
  qed (simp add: next_inner_def)
  with next_token_panics_iff [OF ok, of uni] show ?thesis by (simp add: wide_start_def)
qed

theorem lexer_panics_iff_witness: "next_inner sample_unicode (lexer_new [32, 0xE9, 97]) = None"
  using lexer_panics_iff [of "lexer_new [32, 0xE9, 97]" sample_unicode]
  by (simp add: lexer_new_def sample_unicode_def skip_trivia.simps Let_def eat_whitespace_def
      is_whitespace_def eat_str_def lit_def)

section \<open>The parts of an f-string\<close>

text \<open>Text without an interpolation and without an unescaped quote.\<close>

inductive fs_plain :: "str \<Rightarrow> bool" where
  fs_nil: "fs_plain []"
| fs_char: "c \<notin> {0x5C, 0x7B, 0x22} \<Longrightarrow> fs_plain s \<Longrightarrow> fs_plain (c # s)"
| fs_curly: "fs_plain s \<Longrightarrow> fs_plain (0x7B # 0x7B # s)"
| fs_escape: "d \<notin> {ch CHR ''u'', ch CHR ''U''} \<Longrightarrow> fs_plain s \<Longrightarrow> fs_plain (0x5C # d # s)"
| fs_unicode: "d \<in> {ch CHR ''u'', ch CHR ''U''} \<Longrightarrow> 0x7D \<notin> set body \<Longrightarrow> fs_plain s \<Longrightarrow>
    fs_plain (0x5C # d # 0x7B # body @ 0x7D # s)"

lemma fs_close_append: "0x7D \<notin> set body \<Longrightarrow> fs_close i (body @ 0x7D # s) = Some (i + length body + 1, s)"
  by (induction body arbitrary: i) auto

lemma fs_scan_plain: "fs_plain p \<Longrightarrow> fs_scan i (p @ 0x22 # s) = FsEnd (i + length p)"
  by (induction arbitrary: i rule: fs_plain.induct) (auto simp: fs_close_append)

lemma byte_len_eq_length: "byte_len s = length s \<longleftrightarrow> (\<forall>c \<in> set s. c < 128)"
proof
  show "byte_len s = length s \<Longrightarrow> \<forall>c \<in> set s. c < 128"
  proof (induction s)
    case (Cons c s)
    have "length s \<le> byte_len s" by (rule byte_len_ge_length)
    with Cons(2) have "utf8_len c = 1" using utf8_len_pos [of c] by (simp del: utf8_len_pos)
    then have "c < 128" by (simp add: utf8_len_def split: if_splits)
    with Cons show ?case by simp
  qed simp
qed (rule byte_len_ascii)

text \<open>
  C36. The text up to the closing quote of an f-string is returned, and the quote consumed, exactly when
  the text is ASCII: the scan counts characters and the cut counts bytes, so after any longer
  character the part is cut short or the lexer panics.
\<close>

theorem f_string_part_exact_iff:
  assumes "fs_plain p" and "lx_input lx = p @ 0x22 # rest" and "byte_len (lx_input lx) \<le> lx_original_length lx"
  shows "(\<exists>span lx'. f_string_part lx = Some (Some (StringEnd p, span), lx') \<and> lx_input lx' = rest)
     \<longleftrightarrow> (\<forall>c \<in> set p. c < 128)"
proof
  have sc: "fs_scan 0 (lx_input lx) = FsEnd (length p)" using fs_scan_plain [OF assms(1), of 0 rest] assms(2) by simp
  show "\<exists>span lx'. f_string_part lx = Some (Some (StringEnd p, span), lx') \<and> lx_input lx' = rest"
    if "\<forall>c \<in> set p. c < 128"
  proof -
    have ok: "in_source lx" using assms(3) by (simp add: in_source_def)
    from byte_len_ascii [OF that] have len: "byte_len p = length p" .
    let ?lx1 = "lx\<lparr>lx_input := 0x22 # rest\<rparr>"
    from bump_append [OF assms(2) ok] have 1: "\<exists>span. bump (length p) lx = Some (p, span, ?lx1)"
      by (simp add: len)
    have "in_source ?lx1" using ok assms(2) by (simp add: in_source_def)
    from bump_append [of ?lx1 "[0x22]" rest, OF _ this]
    have "\<exists>x span. bump 1 ?lx1 = Some (x, span, lx\<lparr>lx_input := rest\<rparr>)" by simp
    with 1 sc show ?thesis by (auto simp: f_string_part_def)
  qed
  show "\<forall>c \<in> set p. c < 128"
    if "\<exists>span lx'. f_string_part lx = Some (Some (StringEnd p, span), lx') \<and> lx_input lx' = rest"
  proof -
    from that sc obtain span lx1 where "bump (length p) lx = Some (p, span, lx1)"
      by (auto simp: f_string_part_def bind_eq_Some_conv)
    then have "byte_len p = length p" by (auto simp: bump_def bind_eq_Some_conv split_at_Some_iff)
    then show ?thesis by (simp add: byte_len_eq_length)
  qed
qed

theorem f_string_part_exact_iff_witness:
  "(\<nexists>span lx'. f_string_part (lexer_new [0xE9, 97, 0x22]) = Some (Some (StringEnd [0xE9, 97], span), lx') \<and>
      lx_input lx' = []) \<and>
   (\<exists>span lx'. f_string_part (lexer_new [97, 0x22]) = Some (Some (StringEnd [97], span), lx') \<and> lx_input lx' = [])"
proof -
  have "fs_plain [0xE9, 97]" and "fs_plain [97]" by (auto intro!: fs_plain.intros)
  from f_string_part_exact_iff [OF this(1), of "lexer_new [0xE9, 97, 0x22]" "[]"]
    f_string_part_exact_iff [OF this(2), of "lexer_new [97, 0x22]" "[]"]
  show ?thesis by (simp add: lexer_new_def)
qed

end
