(* ===== verification/Precedence.thy ===== *)
theory Precedence
  imports Ast
begin

text \<open>
  Precedence and associativity of the binary operators, from \<open>src/src/parser/precedence.rs\<close>, and the
  grouping they prescribe: which trees over a sequence of operands and operators are grouped right.
\<close>

datatype precedence = PrLogical | PrComparison | PrAddSub | PrMulDiv

datatype associativity = AssocLeft | AssocRight | AssocNot

text \<open>The derived order: the order of the variants.\<close>

fun precedence_rank :: "precedence \<Rightarrow> nat" where
  "precedence_rank PrLogical = 0"
| "precedence_rank PrComparison = 1"
| "precedence_rank PrAddSub = 2"
| "precedence_rank PrMulDiv = 3"

lemma precedence_rank_inject [simp]: "precedence_rank a = precedence_rank b \<longleftrightarrow> a = b"
  by (cases a; cases b) simp_all

instantiation precedence :: linorder
begin

definition less_eq_precedence :: "precedence \<Rightarrow> precedence \<Rightarrow> bool" where
  "less_eq_precedence a b \<longleftrightarrow> precedence_rank a \<le> precedence_rank b"

definition less_precedence :: "precedence \<Rightarrow> precedence \<Rightarrow> bool" where
  "less_precedence a b \<longleftrightarrow> precedence_rank a < precedence_rank b"

instance
  by standard (auto simp: less_eq_precedence_def less_precedence_def simp flip: precedence_rank_inject)

end

fun precedence_of :: "bin_op \<Rightarrow> precedence" where
  "precedence_of BOr = PrLogical"
| "precedence_of BAnd = PrLogical"
| "precedence_of BEq = PrComparison"
| "precedence_of BNe = PrComparison"
| "precedence_of BLt = PrComparison"
| "precedence_of BLe = PrComparison"
| "precedence_of BGt = PrComparison"
| "precedence_of BGe = PrComparison"
| "precedence_of BMul = PrMulDiv"
| "precedence_of BDiv = PrMulDiv"
| "precedence_of BMod = PrMulDiv"
| "precedence_of BAdd = PrAddSub"
| "precedence_of BSub = PrAddSub"

definition associativity_of :: "bin_op \<Rightarrow> associativity" where
  "associativity_of op = (case precedence_of op of
     PrAddSub \<Rightarrow> AssocLeft | PrMulDiv \<Rightarrow> AssocLeft | PrLogical \<Rightarrow> AssocLeft | PrComparison \<Rightarrow> AssocNot)"

definition relative_associativity :: "bin_op \<Rightarrow> bin_op \<Rightarrow> associativity" where
  "relative_associativity a b =
     (if (a = BOr \<and> b = BAnd) \<or> (a = BAnd \<and> b = BOr) then AssocNot
      else if precedence_of a < precedence_of b then AssocRight
      else if precedence_of a > precedence_of b then AssocLeft
      else associativity_of a)"

section \<open>How two operators in sequence relate\<close>

lemma relative_right_iff: "relative_associativity a b = AssocRight \<longleftrightarrow> precedence_of a < precedence_of b"
  by (auto simp: relative_associativity_def associativity_of_def less_precedence_def split: precedence.splits)

lemma relative_left_le: "relative_associativity a b = AssocLeft \<Longrightarrow> precedence_of b \<le> precedence_of a"
  by (auto simp: relative_associativity_def split: if_splits)

lemma relative_not_iff:
  "relative_associativity a b = AssocNot \<longleftrightarrow>
     precedence_of a = precedence_of b \<and> (precedence_of a = PrComparison \<or> {a, b} = {BAnd, BOr})"
  by (cases a; cases b) (simp_all add: relative_associativity_def associativity_of_def less_precedence_def
      doubleton_eq_iff)

text \<open>The relation of the outer pair follows from the two inner ones.\<close>

lemma left_then_left:
  "relative_associativity a b = AssocLeft \<Longrightarrow> relative_associativity b c = AssocLeft \<Longrightarrow>
    precedence_of c \<le> precedence_of a"
  using relative_left_le order_trans by blast

lemma right_then_left:
  "relative_associativity a b = AssocRight \<Longrightarrow> relative_associativity b c \<noteq> AssocRight \<Longrightarrow>
    precedence_of c \<le> precedence_of b"
  by (simp add: relative_right_iff not_less)

section \<open>Grouped trees\<close>

text \<open>
  A tree over operands \<open>'a\<close> is grouped when at every node the operator of the left child lets this one
  follow it on its left, and the operator of the right child binds more tightly.
\<close>

datatype 'a op_tree = Operand 'a | Node "'a op_tree" bin_op "'a op_tree"

fun root_op :: "'a op_tree \<Rightarrow> bin_op option" where
  "root_op (Operand x) = None"
| "root_op (Node l op r) = Some op"

fun operands :: "'a op_tree \<Rightarrow> 'a list" where
  "operands (Operand x) = [x]"
| "operands (Node l op r) = operands l @ operands r"

fun operators :: "'a op_tree \<Rightarrow> bin_op list" where
  "operators (Operand x) = []"
| "operators (Node l op r) = operators l @ op # operators r"

definition goes_left :: "bin_op option \<Rightarrow> bin_op \<Rightarrow> bool" where
  "goes_left p op \<longleftrightarrow> (\<forall>q. p = Some q \<longrightarrow> relative_associativity q op = AssocLeft)"

definition goes_right :: "bin_op \<Rightarrow> bin_op option \<Rightarrow> bool" where
  "goes_right op p \<longleftrightarrow> (\<forall>q. p = Some q \<longrightarrow> relative_associativity op q = AssocRight)"

fun grouped :: "'a op_tree \<Rightarrow> bool" where
  "grouped (Operand x) \<longleftrightarrow> True"
| "grouped (Node l op r) \<longleftrightarrow>
     grouped l \<and> grouped r \<and> goes_left (root_op l) op \<and> goes_right op (root_op r)"

lemma length_operands: "length (operands t) = Suc (length (operators t))"
  by (induction t) auto

end
