(* ===== verification/Parse_Error.thy ===== *)
theory Parse_Error
  imports Lexer Precedence
begin

text \<open>
  Parse errors and their texts, from \<open>src/src/parser/error.rs\<close>.  The constructors of \<open>escape_error\<close> are those
  of the \<open>rustc_literal_escaper\<close> crate that the code matches on.
\<close>

datatype parse_error_kind =
  EndOfInput
| FailedToParseEntireInput
| InvalidToken
| Expected str str
| InvalidLiteral str str str
| CustomError str str

record hint =
  hint_location :: span
  hint_text :: str

record parse_error =
  pe_location :: span
  pe_kind :: parse_error_kind
  pe_note :: "str option"
  pe_hints :: "hint list"

definition plain_error :: "parse_error_kind \<Rightarrow> span \<Rightarrow> parse_error" where
  "plain_error k sp = \<lparr>pe_location = sp, pe_kind = k, pe_note = None, pe_hints = []\<rparr>"

definition err_expected :: "str \<Rightarrow> str \<Rightarrow> span \<Rightarrow> parse_error" where
  "err_expected expected got sp = plain_error (Expected expected got) sp"

definition err_invalid_literal :: "str \<Rightarrow> str \<Rightarrow> str \<Rightarrow> span \<Rightarrow> parse_error" where
  "err_invalid_literal description tok inner sp = plain_error (InvalidLiteral description tok inner) sp"

definition err_custom :: "str \<Rightarrow> str \<Rightarrow> span \<Rightarrow> parse_error" where
  "err_custom description label sp = plain_error (CustomError description label) sp"

definition with_note :: "parse_error \<Rightarrow> str \<Rightarrow> parse_error" where
  "with_note e note = e\<lparr>pe_note := Some note\<rparr>"

datatype escape_mode = ModeStr | ModeByte | ModeByteStr

datatype escape_error =
  ZeroChars | MoreThanOneChar | LoneSlash | InvalidEscape | BareCarriageReturn
| BareCarriageReturnInRawString | EscapeOnlyChar | TooShortHexEscape | InvalidCharInHexEscape
| OutOfRangeHexEscape | NoBraceInUnicodeEscape | InvalidCharInUnicodeEscape | EmptyUnicodeEscape
| UnclosedUnicodeEscape | LeadingUnderscoreUnicodeEscape | OverlongUnicodeEscape
| LoneSurrogateUnicodeEscape | OutOfRangeUnicodeEscape | UnicodeEscapeInByte | NonAsciiCharInByte
| NulInCStr | UnskippedWhitespaceWarning | MultipleSkippedLinesWarning

definition escape_error_to_msg :: "escape_error \<Rightarrow> escape_mode \<Rightarrow> string" where
  "escape_error_to_msg e mode = (case e of
     ZeroChars \<Rightarrow> ''empty character literal''
   | MoreThanOneChar \<Rightarrow> ''character literal may only contain one codepoint''
   | LoneSlash \<Rightarrow> ''''
   | InvalidEscape \<Rightarrow>
       if mode = ModeByte \<or> mode = ModeByteStr then ''unknown byte escape'' else ''unknown character escape''
   | BareCarriageReturn \<Rightarrow> ''bare carriage return found without '' @ [CHR 0x27, CHR 0x5C, CHR ''n'', CHR 0x27]
   | BareCarriageReturnInRawString \<Rightarrow>
       ''bare carriage return found in raw string without '' @ [CHR 0x27, CHR 0x5C, CHR ''n'', CHR 0x27]
   | EscapeOnlyChar \<Rightarrow>
       if mode = ModeByte then ''byte constant must be escaped'' else ''character constant must be escaped''
   | TooShortHexEscape \<Rightarrow> ''numeric character escape is too short''
   | InvalidCharInHexEscape \<Rightarrow> ''invalid character in numeric character escape''
   | OutOfRangeHexEscape \<Rightarrow> ''out of range hex escape''
   | NoBraceInUnicodeEscape \<Rightarrow> ''incorrect unicode escape sequence''
   | InvalidCharInUnicodeEscape \<Rightarrow> ''invalid character in unicode escape''
   | EmptyUnicodeEscape \<Rightarrow> ''empty unicode escape''
   | UnclosedUnicodeEscape \<Rightarrow> ''unterminated unicode escape''
   | LeadingUnderscoreUnicodeEscape \<Rightarrow> ''invalid start of unicode escape''
   | OverlongUnicodeEscape \<Rightarrow> ''overlong unicode escape''
   | LoneSurrogateUnicodeEscape \<Rightarrow> ''invalid unicode character escape''
   | OutOfRangeUnicodeEscape \<Rightarrow> ''invalid unicode character escape''
   | UnicodeEscapeInByte \<Rightarrow> ''unicode escape in byte string''
   | NonAsciiCharInByte \<Rightarrow>
       if mode = ModeByte then ''non-ASCII character in byte literal''
       else if mode = ModeByteStr then ''non-ASCII character in byte string literal''
       else ''non-ASCII character in raw byte string literal''
   | NulInCStr \<Rightarrow> ''null character in C string literal''
   | UnskippedWhitespaceWarning \<Rightarrow> ''''
   | MultipleSkippedLinesWarning \<Rightarrow> '''')"

definition err_escape :: "escape_error \<Rightarrow> span \<Rightarrow> parse_error" where
  "err_escape e sp = (let description = lit (escape_error_to_msg e ModeStr)
     in plain_error (CustomError description description) sp)"

fun error_label :: "parse_error_kind \<Rightarrow> str" where
  "error_label EndOfInput = lit ''reached end of input''"
| "error_label FailedToParseEntireInput = lit ''parser got stuck here''"
| "error_label InvalidToken = lit ''invalid token''"
| "error_label (Expected expected _) = lit ''expected '' @ expected"
| "error_label (InvalidLiteral description _ _) = lit ''invalid '' @ description"
| "error_label (CustomError _ label) = label"

fun error_hint :: "parse_error_kind \<Rightarrow> str option" where
  "error_hint (Expected _ got) =
     (if got = lit ''#'' \<or> got = lit ''/*'' \<or> got = lit ''--''
      then Some (lit ''`Use `//` for comments instead of `'' @ got @ lit ''`'') else None)"
| "error_hint _ = None"

fun show_error_kind :: "parse_error_kind \<Rightarrow> str" where
  "show_error_kind EndOfInput = lit ''unexpected end of input''"
| "show_error_kind FailedToParseEntireInput = lit ''failed to parse entire input''"
| "show_error_kind InvalidToken = lit ''invalid token''"
| "show_error_kind (Expected expected got) =
     lit ''expected '' @ expected @ lit '' but got '' @ [0x27] @ got @ [0x27]"
| "show_error_kind (InvalidLiteral description tok inner) =
     lit ''found an invalid '' @ description @ lit '' literal '' @ [0x27] @ tok @ [0x27] @ lit '': '' @ inner"
| "show_error_kind (CustomError description _) = description"

end
