(* ===== verification/Parser.thy ===== *)
theory Parser
  imports Parse_Error
begin

text \<open>
  The parser's state and its helpers, from \<open>src/src/parser/mod.rs\<close>.  A parser is a function on the state.
  Its outcome is a value and the next state, a reported error with the state it was found in, a
  panic, or the end of the fuel that bounds the recursion (theory \<open>Parser_Total\<close> shows how much is
  enough).  \<open>on m f\<close> is \<open>let x = m?; f(x)\<close>.
\<close>

text \<open>What the parser takes from other crates: identifier tables, string escapes and float parsing.\<close>

record extern =
  ex_unicode :: unicode
  ex_unescape_str :: "str \<Rightarrow> (range \<times> (escape_error + rchar)) list"
  ex_unescape_char :: "str \<Rightarrow> escape_error + rchar"
  ex_is_fatal :: "escape_error \<Rightarrow> bool"
  ex_parse_f64 :: "str \<Rightarrow> str + 64 word"

record parser =
  p_file :: nat
  p_file_length :: nat
  p_lexer :: lexer
  p_spans :: spans

datatype 'a parsed = Parsed 'a parser | Failed parse_error parser | Panicked | OutOfFuel

type_synonym 'a parse = "parser \<Rightarrow> 'a parsed"

definition ret :: "'a \<Rightarrow> 'a parse" where
  "ret x p = Parsed x p"

definition fail :: "parse_error \<Rightarrow> 'a parse" where
  "fail e p = Failed e p"

definition panic :: "'a parse" where
  "panic p = Panicked"

definition on :: "'a parse \<Rightarrow> ('a \<Rightarrow> 'b parse) \<Rightarrow> 'b parse" where
  "on m f p = (case m p of
     Parsed x p' \<Rightarrow> f x p'
   | Failed e p' \<Rightarrow> Failed e p'
   | Panicked \<Rightarrow> Panicked
   | OutOfFuel \<Rightarrow> OutOfFuel)"

definition the_parser :: "parser parse" where
  "the_parser p = Parsed p p"

text \<open>A result that is missing is a panic.\<close>

definition unwrap :: "'a option \<Rightarrow> 'a parse" where
  "unwrap x = (case x of Some v \<Rightarrow> ret v | None \<Rightarrow> panic)"

text \<open>An error that is reported.\<close>

definition lift_result :: "parse_error + 'a \<Rightarrow> 'a parse" where
  "lift_result r = (case r of Inl e \<Rightarrow> fail e | Inr x \<Rightarrow> ret x)"

definition lex :: "(lexer \<Rightarrow> ('a \<times> lexer) option) \<Rightarrow> 'a parse" where
  "lex f p = (case f (p_lexer p) of None \<Rightarrow> Panicked | Some (x, lx) \<Rightarrow> Parsed x (p\<lparr>p_lexer := lx\<rparr>))"

section \<open>Spans\<close>

definition add_span :: "span \<Rightarrow> 'a \<Rightarrow> 'a meta parse" where
  "add_span sp x p = (case spans_add (p_spans p) sp x of (s, m) \<Rightarrow> Parsed m (p\<lparr>p_spans := s\<rparr>))"

definition span_of_id :: "meta_id \<Rightarrow> span parse" where
  "span_of_id i = on the_parser (\<lambda>p. unwrap (spans_get (p_spans p) i))"

definition get_span :: "'a meta \<Rightarrow> span parse" where
  "get_span x = span_of_id (meta_id x)"

definition merge_spans :: "'a meta \<Rightarrow> 'b meta \<Rightarrow> span parse" where
  "merge_spans x y = on the_parser (\<lambda>p. unwrap (spans_merge (p_spans p) (meta_id x) (meta_id y)))"

text \<open>\<open>Span::merge\<close> asserts that both spans are of one file.\<close>

definition merge :: "span \<Rightarrow> span \<Rightarrow> span parse" where
  "merge x y = unwrap (span_merge x y)"

section \<open>Tokens\<close>

definition end_of_input :: "parser \<Rightarrow> parse_error" where
  "end_of_input p = plain_error EndOfInput (span_new (p_file p) (p_file_length p, p_file_length p))"

definition p_next :: "extern \<Rightarrow> (token \<times> span) parse" where
  "p_next ex = on (lex (lexer_next (ex_unicode ex))) (\<lambda>r. on the_parser (\<lambda>p.
     case r of
       None \<Rightarrow> fail (end_of_input p)
     | Some (None, sp) \<Rightarrow> fail (plain_error InvalidToken (span_new (p_file p) sp))
     | Some (Some t, sp) \<Rightarrow> ret (t, span_new (p_file p) sp)))"

definition p_peek :: "extern \<Rightarrow> token option parse" where
  "p_peek ex = on (lex (lexer_peek (ex_unicode ex))) (\<lambda>r.
     ret (case r of Some (Some t, _) \<Rightarrow> Some t | _ \<Rightarrow> None))"

definition p_peek_many :: "extern \<Rightarrow> nat \<Rightarrow> token list option parse" where
  "p_peek_many ex n = lex (peek_many (ex_unicode ex) n)"

definition peek_is :: "extern \<Rightarrow> token \<Rightarrow> bool parse" where
  "peek_is ex t = on (p_peek ex) (\<lambda>r. ret (r = Some t))"

text \<open>\<open>self.next().unwrap()\<close>.\<close>

definition unwrap_result :: "'a parse \<Rightarrow> 'a parse" where
  "unwrap_result m p = (case m p of Failed _ _ \<Rightarrow> Panicked | r \<Rightarrow> r)"

definition next_is :: "extern \<Rightarrow> token \<Rightarrow> bool parse" where
  "next_is ex t = on (peek_is ex t) (\<lambda>b.
     if b then on (unwrap_result (p_next ex)) (\<lambda>_. ret True) else ret False)"

definition take_token :: "extern \<Rightarrow> token \<Rightarrow> span parse" where
  "take_token ex t = on (p_next ex) (\<lambda>(t', sp).
     if t' = t then ret sp else fail (err_expected (show_token t) (show_token t') sp))"

text \<open>\<open>separated\<close>: the loop after the first item, then the whole.\<close>

fun separated_loop :: "nat \<Rightarrow> extern \<Rightarrow> token \<Rightarrow> token \<Rightarrow> 'a parse \<Rightarrow> 'a list \<Rightarrow> 'a list parse" where
  "separated_loop 0 ex close sep item items = (\<lambda>_. OutOfFuel)"
| "separated_loop (Suc n) ex close sep item items =
     on (next_is ex sep) (\<lambda>b. if \<not> b then ret items else
     on (peek_is ex close) (\<lambda>c. if c then ret items else
     on item (\<lambda>x. separated_loop n ex close sep item (items @ [x]))))"

definition separated :: "nat \<Rightarrow> extern \<Rightarrow> token \<Rightarrow> token \<Rightarrow> token \<Rightarrow> 'a parse \<Rightarrow> 'a list meta parse" where
  "separated n ex open close sep item =
     on (take_token ex open) (\<lambda>start_span.
     on (peek_is ex close) (\<lambda>empty.
       if empty then
         on (take_token ex close) (\<lambda>end_span.
         on (merge start_span end_span) (\<lambda>sp. add_span sp []))
       else
         on item (\<lambda>x.
         on (separated_loop n ex close sep item [x]) (\<lambda>items.
         on (take_token ex close) (\<lambda>end_span.
         on (merge start_span end_span) (\<lambda>sp. add_span sp items))))))"

section \<open>Identifiers\<close>

definition keyword_note :: "token \<Rightarrow> str" where
  "keyword_note t = lit ''`'' @ show_token t @ lit ''` is a keyword and cannot be used as an identifier.''"

definition identifier_of :: "token \<Rightarrow> span \<Rightarrow> parse_error + name" where
  "identifier_of t sp = (case t of
     TIdent s \<Rightarrow> Inr s
   | TKeyword _ \<Rightarrow> Inl (with_note (err_expected (lit ''an identifier'') (show_token t) sp) (keyword_note t))
   | _ \<Rightarrow> Inl (err_expected (lit ''an identifier'') (show_token t) sp))"

definition identifier_p :: "extern \<Rightarrow> name meta parse" where
  "identifier_p ex = on (p_next ex) (\<lambda>(t, sp).
     on (lift_result (identifier_of t sp)) (\<lambda>s. add_span sp s))"

section \<open>Running a parser\<close>

definition keyword_hint :: "nat \<Rightarrow> str \<times> range \<times> string option \<Rightarrow> hint" where
  "keyword_hint file k = (case k of (ident, r, suggestion) \<Rightarrow>
     \<lparr>hint_location = span_new file r,
      hint_text = (case suggestion of
          Some s \<Rightarrow> lit ''`'' @ ident @ lit ''` is not a valid keyword. You probably meant `'' @ lit s @ lit ''`.''
        | None \<Rightarrow> lit ''`'' @ ident @ lit ''` is not a valid keyword.'')\<rparr>)"

definition run_parser :: "extern \<Rightarrow> 'a parse \<Rightarrow> nat \<Rightarrow> spans \<Rightarrow> str \<Rightarrow> 'a parsed" where
  "run_parser ex m file s input =
     (case m \<lparr>p_file = file, p_file_length = byte_len input, p_lexer = lexer_new input, p_spans = s\<rparr> of
        Parsed out p \<Rightarrow>
          (case lexer_next (ex_unicode ex) (p_lexer p) of
             None \<Rightarrow> Panicked
           | Some (Some (_, sp), lx) \<Rightarrow>
               Failed (plain_error FailedToParseEntireInput (span_new file sp)) (p\<lparr>p_lexer := lx\<rparr>)
           | Some (None, lx) \<Rightarrow> Parsed out (p\<lparr>p_lexer := lx\<rparr>))
      | Failed e p \<Rightarrow>
          Failed (case lx_almost_keyword (p_lexer p) of
              Some k \<Rightarrow> e\<lparr>pe_hints := pe_hints e @ [keyword_hint file k]\<rparr>
            | None \<Rightarrow> e) p
      | Panicked \<Rightarrow> Panicked
      | OutOfFuel \<Rightarrow> OutOfFuel)"

end
