(* ===== verification/Literal_Parser.thy ===== *)
theory Literal_Parser
  imports Parser
begin

text \<open>
  Parsing of literals, from \<open>src/src/parser/expr.rs\<close> (\<open>literal\<close>, \<open>ip_address\<close>, \<open>simple_literal\<close> and the
  unescaping functions).  The standard library's integer and IPv4/IPv6 parsers are written out for the
  texts the lexer's tokens have: digits, and for IPv6 hexadecimal digits and colons.
\<close>

section \<open>Numbers of the standard library\<close>

definition digit_value :: "rchar \<Rightarrow> nat" where
  "digit_value c = (if is_ascii_digit c then c - ch CHR ''0''
     else if ch CHR ''a'' \<le> c then c - ch CHR ''a'' + 10 else c - ch CHR ''A'' + 10)"

definition digits_value :: "nat \<Rightarrow> str \<Rightarrow> nat" where
  "digits_value base s = foldl (\<lambda>n c. n * base + digit_value c) 0 s"

definition parse_number :: "nat \<Rightarrow> nat \<Rightarrow> str \<Rightarrow> str + nat" where
  "parse_number base bound s =
     (if s = [] then Inl (lit ''cannot parse integer from empty string'')
      else if \<not> (\<forall>c \<in> set s. if base = 16 then is_ascii_hexdigit c else is_ascii_digit c)
      then Inl (lit ''invalid digit found in string'')
      else if digits_value base s < bound then Inr (digits_value base s)
      else Inl (lit ''number too large to fit in target type''))"

fun split_on :: "rchar \<Rightarrow> str \<Rightarrow> str list" where
  "split_on d [] = [[]]"
| "split_on d (c # s) =
     (if c = d then [] # split_on d s
      else case split_on d s of g # gs \<Rightarrow> (c # g) # gs | [] \<Rightarrow> [[c]])"

text \<open>\<open>Ipv4Addr::from_str\<close>: four decimal octets without leading zeros.\<close>

definition octet :: "str \<Rightarrow> nat option" where
  "octet s = (if s \<noteq> [] \<and> length s \<le> 3 \<and> (\<forall>c \<in> set s. is_ascii_digit c) \<and>
       (hd s = ch CHR ''0'' \<longrightarrow> length s = 1) \<and> digits_value 10 s < 256
     then Some (digits_value 10 s) else None)"

fun parse_groups :: "(str \<Rightarrow> nat option) \<Rightarrow> str list \<Rightarrow> nat list option" where
  "parse_groups f [] = Some []"
| "parse_groups f (g # gs) = do { x \<leftarrow> f g; xs \<leftarrow> parse_groups f gs; Some (x # xs) }"

definition parse_ipv4 :: "str \<Rightarrow> str + 32 word" where
  "parse_ipv4 s = (case parse_groups octet (split_on (ch CHR ''.'') s) of
     Some [a, b, c, d] \<Rightarrow> Inr (word_of_nat (((a * 256 + b) * 256 + c) * 256 + d))
   | _ \<Rightarrow> Inl (lit ''invalid IPv4 address syntax''))"

text \<open>
  \<open>Ipv6Addr::from_str\<close>: eight groups of one to four hexadecimal digits, where one double colon may stand
  for one or more groups of zeros.
\<close>

definition hextet :: "str \<Rightarrow> nat option" where
  "hextet s = (if s \<noteq> [] \<and> length s \<le> 4 \<and> (\<forall>c \<in> set s. is_ascii_hexdigit c)
     then Some (digits_value 16 s) else None)"

fun find_double_colon :: "str \<Rightarrow> (str \<times> str) option" where
  "find_double_colon (c # d # s) =
     (if c = ch CHR '':'' \<and> d = ch CHR '':'' then Some ([], s)
      else map_option (\<lambda>(a, b). (c # a, b)) (find_double_colon (d # s)))"
| "find_double_colon _ = None"

definition hextets :: "str \<Rightarrow> nat list option" where
  "hextets s = (if s = [] then Some [] else parse_groups hextet (split_on (ch CHR '':'') s))"

definition parse_ipv6_groups :: "str \<Rightarrow> nat list option" where
  "parse_ipv6_groups s = (case find_double_colon s of
     None \<Rightarrow> (case parse_groups hextet (split_on (ch CHR '':'') s) of
         Some xs \<Rightarrow> if length xs = 8 then Some xs else None
       | None \<Rightarrow> None)
   | Some (a, b) \<Rightarrow> (case (hextets a, hextets b) of
         (Some xs, Some ys) \<Rightarrow>
           if length xs + length ys < 8 then Some (xs @ replicate (8 - length xs - length ys) 0 @ ys) else None
       | _ \<Rightarrow> None))"

definition parse_ipv6 :: "str \<Rightarrow> str + 128 word" where
  "parse_ipv6 s = (case parse_ipv6_groups s of
     Some xs \<Rightarrow> Inr (word_of_nat (foldl (\<lambda>n x. n * 65536 + x) 0 xs))
   | None \<Rightarrow> Inl (lit ''invalid IPv6 address syntax''))"

section \<open>Unescaping\<close>

text \<open>\<open>self[a..]\<close> on a string literal's text.\<close>

definition slice_from :: "str \<Rightarrow> nat \<Rightarrow> str option" where
  "slice_from s a = Source_Text.slice s a (byte_len s)"

fun rights :: "('a + 'b) list \<Rightarrow> 'b list" where
  "rights [] = []"
| "rights (Inl _ # xs) = rights xs"
| "rights (Inr x # xs) = x # rights xs"

definition unescape_str :: "extern \<Rightarrow> str \<Rightarrow> span \<Rightarrow> parse_error + str" where
  "unescape_str ex s sp =
     (let res = ex_unescape_str ex s;
          errors = filter (\<lambda>(r, x). case x of Inl e \<Rightarrow> ex_is_fatal ex e | Inr _ \<Rightarrow> False) res in
      case errors of
        (r, Inl e) # _ \<Rightarrow>
          Inl (err_escape e (span_new (span_file sp) (span_start sp + fst r, span_start sp + snd r)))
      | _ \<Rightarrow> Inr (rights (map snd res)))"

definition unescape_char :: "extern \<Rightarrow> str \<Rightarrow> span \<Rightarrow> parse_error + rchar" where
  "unescape_char ex s sp = (case ex_unescape_char ex s of
     Inl e \<Rightarrow> Inl (err_escape e sp) | Inr c \<Rightarrow> Inr c)"

section \<open>Literals\<close>

definition map_error :: "('a \<Rightarrow> 'c) \<Rightarrow> 'a + 'b \<Rightarrow> 'c + 'b" where
  "map_error f r = (case r of Inl e \<Rightarrow> Inl (f e) | Inr x \<Rightarrow> Inr x)"

definition ip_address :: "extern \<Rightarrow> ip_addr meta parse" where
  "ip_address ex = on (p_next ex) (\<lambda>(t, sp).
     on (lift_result (case t of
         TIpV4 s \<Rightarrow> (case parse_ipv4 s of
             Inl e \<Rightarrow> Inl (err_invalid_literal (lit ''Ipv4 addresses'') s e sp)
           | Inr a \<Rightarrow> Inr (IpV4 a))
       | TIpV6 s \<Rightarrow> (case parse_ipv6 s of
             Inl e \<Rightarrow> Inl (err_invalid_literal (lit ''Ipv6 addresses'') s e sp)
           | Inr a \<Rightarrow> Inr (IpV6 a))
       | _ \<Rightarrow> Inl (err_expected (lit ''an IP address'') (show_token t) sp)))
     (\<lambda>addr. add_span sp addr))"

text \<open>The text between the quotes, and the span moved behind the opening quote.\<close>

definition quoted_text :: "str \<Rightarrow> str option" where
  "quoted_text s = Source_Text.slice s 1 (byte_len s - 1)"

definition after_quote :: "span \<Rightarrow> span" where
  "after_quote sp = sp\<lparr>span_start := span_start sp + 1\<rparr>"

definition without_underscores :: "str \<Rightarrow> str" where
  "without_underscores = filter (\<lambda>c. c \<noteq> ch CHR ''_'')"

definition int_suffixes :: "(str \<times> int_type option) list" where
  "int_suffixes =
     [(lit ''i8'', Some IntI8), (lit ''i16'', Some IntI16), (lit ''i32'', Some IntI32), (lit ''i64'', Some IntI64),
      (lit ''u8'', Some IntU8), (lit ''u16'', Some IntU16), (lit ''u32'', Some IntU32), (lit ''u64'', Some IntU64),
      ([], None)]"

definition float_suffixes :: "(str \<times> float_type option) list" where
  "float_suffixes = [(lit ''f32'', Some FloatF32), (lit ''f64'', Some FloatF64), ([], None)]"

definition float_literal :: "extern \<Rightarrow> token \<Rightarrow> str \<Rightarrow> span \<Rightarrow> parse_error + 64 word" where
  "float_literal ex t s sp =
     map_error (\<lambda>e. err_invalid_literal (lit ''float'') (show_token t) e sp) (ex_parse_f64 ex s)"

definition integer_literal :: "extern \<Rightarrow> token \<Rightarrow> str \<Rightarrow> str \<Rightarrow> span \<Rightarrow> parse_error + literal" where
  "integer_literal ex t s0 int_ty sp =
     (let s = without_underscores s0 in
      if int_ty = lit ''f32'' then map_sum id (\<lambda>f. LitFloat f (Some FloatF32)) (float_literal ex t s sp)
      else if int_ty = lit ''f64'' then map_sum id (\<lambda>f. LitFloat f (Some FloatF64)) (float_literal ex t s sp)
      else case parse_number 10 (2 ^ 63) s of
          Inl e \<Rightarrow> Inl (err_invalid_literal (lit ''integer'') (show_token t) e sp)
        | Inr n \<Rightarrow> (case map_of int_suffixes int_ty of
              None \<Rightarrow> Inl (err_invalid_literal (lit ''integer'') (show_token t)
                  (lit ''invalid suffix `'' @ int_ty @ lit ''`'') sp)
            | Some ty \<Rightarrow> Inr (LitInteger (word_of_nat n) ty)))"

definition decimal_literal :: "extern \<Rightarrow> token \<Rightarrow> str \<Rightarrow> str \<Rightarrow> span \<Rightarrow> parse_error + literal" where
  "decimal_literal ex t s float_ty sp =
     (case float_literal ex t (without_underscores s) sp of
        Inl e \<Rightarrow> Inl e
      | Inr f \<Rightarrow> (case map_of float_suffixes float_ty of
            None \<Rightarrow> Inl (err_invalid_literal (lit ''float'') (show_token t)
                (lit ''invalid suffix `'' @ float_ty @ lit ''`'') sp)
          | Some ty \<Rightarrow> Inr (LitFloat f ty)))"

definition simple_literal :: "extern \<Rightarrow> literal meta parse" where
  "simple_literal ex = on (p_next ex) (\<lambda>(t, sp).
     on (case t of
         TString s \<Rightarrow> on (unwrap (quoted_text s)) (\<lambda>trimmed.
           lift_result (map_sum id LitString (unescape_str ex trimmed (after_quote sp))))
       | TChar s \<Rightarrow> on (unwrap (quoted_text s)) (\<lambda>trimmed.
           lift_result (map_sum id LitChar (unescape_char ex trimmed (after_quote sp))))
       | TInteger s int_ty \<Rightarrow> lift_result (integer_literal ex t s int_ty sp)
       | TFloat s float_ty \<Rightarrow> lift_result (decimal_literal ex t s float_ty sp)
       | THex s \<Rightarrow> on (unwrap (slice_from s 2)) (\<lambda>digits.
           lift_result (case parse_number 16 (2 ^ 63) digits of
             Inl e \<Rightarrow> Inl (err_invalid_literal (lit ''hexadecimal integer'') (show_token t) e sp)
           | Inr n \<Rightarrow> Inr (LitInteger (word_of_nat n) None)))
       | TAsn s \<Rightarrow> on (unwrap (slice_from s 2)) (\<lambda>digits.
           lift_result (case parse_number 10 (2 ^ 32) digits of
             Inl e \<Rightarrow> Inl (err_invalid_literal (lit ''AS number'') (show_token t) e sp)
           | Inr n \<Rightarrow> Inr (LitAsn (word_of_nat n))))
       | TBool b \<Rightarrow> ret (LitBool b)
       | _ \<Rightarrow> fail (err_expected (lit ''a literal'') (show_token t) sp))
     (\<lambda>l. add_span sp l))"

definition parse_literal :: "extern \<Rightarrow> literal meta parse" where
  "parse_literal ex = on (p_peek ex) (\<lambda>t.
     case t of
       Some (TIpV4 _) \<Rightarrow> on (ip_address ex) (\<lambda>addr. ret (Meta (LitIpAddress (node addr)) (meta_id addr)))
     | Some (TIpV6 _) \<Rightarrow> on (ip_address ex) (\<lambda>addr. ret (Meta (LitIpAddress (node addr)) (meta_id addr)))
     | _ \<Rightarrow> simple_literal ex)"

end
