(* ===== verification/Expr_Parser.thy ===== *)
theory Expr_Parser
  imports Literal_Parser
begin

text \<open>
  The parser of expressions, blocks, paths and type expressions, from \<open>src/src/parser/expr.rs\<close>.  The code
  is mutually recursive through \<open>expr\<close> and \<open>block\<close>: the functions here take these two as arguments
  (\<open>e\<close>, which is given whether record literals are forbidden, and \<open>blk\<close>), and \<open>expr_at\<close> and \<open>block_at\<close>
  tie the knot with fuel.  A loop takes the same fuel as the function around it.
\<close>

type_synonym expr_parser = "bool \<Rightarrow> expr meta parse"

section \<open>Paths\<close>

definition path_item_of :: "token \<Rightarrow> span \<Rightarrow> parse_error + name" where
  "path_item_of t sp =
     (if t = TKeyword KwPkg then Inr (lit ''pkg'')
      else if t = TKeyword KwDep then Inr (lit ''dep'')
      else if t = TKeyword KwSuper then Inr (lit ''super'')
      else case t of
          TIdent s \<Rightarrow> Inr s
        | _ \<Rightarrow> Inl (with_note (err_expected (lit ''an identifier, `super`, `pkg` or `dep`'') (show_token t) sp)
                  (keyword_note t)))"

definition path_item :: "extern \<Rightarrow> name meta parse" where
  "path_item ex = on (p_next ex) (\<lambda>(t, sp).
     on (lift_result (path_item_of t sp)) (\<lambda>s. add_span sp s))"

fun path_loop :: "nat \<Rightarrow> extern \<Rightarrow> name meta list \<Rightarrow> name meta list parse" where
  "path_loop 0 ex idents = (\<lambda>_. OutOfFuel)"
| "path_loop (Suc n) ex idents =
     on (next_is ex TPeriod) (\<lambda>b. if \<not> b then ret idents else
     on (path_item ex) (\<lambda>i. path_loop n ex (idents @ [i])))"

text \<open>The span from the first to the last identifier.\<close>

definition add_path :: "name meta list \<Rightarrow> path meta parse" where
  "add_path idents = on (merge_spans (hd idents) (last idents)) (\<lambda>sp. add_span sp (Path idents))"

definition path_p :: "nat \<Rightarrow> extern \<Rightarrow> path meta parse" where
  "path_p n ex = on (path_item ex) (\<lambda>i. on (path_loop n ex [i]) add_path)"

fun path_list_loop :: "nat \<Rightarrow> extern \<Rightarrow> path meta list parse \<Rightarrow> path meta list \<Rightarrow> path meta list parse" where
  "path_list_loop 0 ex pe paths = (\<lambda>_. OutOfFuel)"
| "path_list_loop (Suc n) ex pe paths =
     on pe (\<lambda>ps. on (next_is ex TComma) (\<lambda>b.
       if b then path_list_loop n ex pe (paths @ ps) else ret (paths @ ps)))"

definition path_list :: "nat \<Rightarrow> extern \<Rightarrow> path meta list parse \<Rightarrow> path meta list parse" where
  "path_list n ex pe = on (take_token ex TCurlyLeft) (\<lambda>_.
     on (path_list_loop n ex pe []) (\<lambda>ps.
     on (take_token ex TCurlyRight) (\<lambda>_. ret ps)))"

fun path_expr_loop :: "nat \<Rightarrow> extern \<Rightarrow> name meta list \<Rightarrow> path meta list parse" where
  "path_expr_loop 0 ex root = (\<lambda>_. OutOfFuel)"
| "path_expr_loop (Suc n) ex root =
     on (peek_is ex TCurlyLeft) (\<lambda>c.
       if c then
         on (path_list n ex (path_expr_loop n ex [])) (\<lambda>sub_paths.
           ret (map (\<lambda>sp. Meta (Path (root @ path_idents (node sp))) (meta_id sp)) sub_paths))
       else
         on (path_item ex) (\<lambda>ident.
         on (next_is ex TPeriod) (\<lambda>b.
           if b then path_expr_loop n ex (root @ [ident])
           else on (add_path (root @ [ident])) (\<lambda>p. ret [p]))))"

definition path_expr :: "nat \<Rightarrow> extern \<Rightarrow> path meta list parse" where
  "path_expr n ex = path_expr_loop n ex []"

text \<open>\<open>import\<close>, from \<open>mod.rs\<close>.\<close>

definition import_p :: "nat \<Rightarrow> extern \<Rightarrow> path meta list parse" where
  "import_p n ex = on (take_token ex (TKeyword KwImport)) (\<lambda>_.
     on (path_expr n ex) (\<lambda>ps.
     on (take_token ex TSemiColon) (\<lambda>_. ret ps)))"

section \<open>Type expressions\<close>

definition record_field :: "extern \<Rightarrow> type_expr meta parse \<Rightarrow> (name meta \<times> type_expr meta) parse" where
  "record_field ex te = on (identifier_p ex) (\<lambda>key.
     on (take_token ex TColon) (\<lambda>_.
     on te (\<lambda>t. ret (key, t))))"

definition record_type_p :: "nat \<Rightarrow> extern \<Rightarrow> type_expr meta parse \<Rightarrow> record_ty parse" where
  "record_type_p n ex te = separated n ex TCurlyLeft TCurlyRight TComma (record_field ex te)"

definition type_expr_atom :: "nat \<Rightarrow> extern \<Rightarrow> type_expr meta parse \<Rightarrow> type_expr meta parse" where
  "type_expr_atom n ex te =
     on (peek_is ex TBang) (\<lambda>bang. if bang then on (take_token ex TBang) (\<lambda>sp. add_span sp TeNever) else
     on (peek_is ex TRoundLeft) (\<lambda>round.
       if round then
         on (take_token ex TRoundLeft) (\<lambda>span_left.
         on (take_token ex TRoundRight) (\<lambda>span_right.
         on (merge span_left span_right) (\<lambda>sp. add_span sp TeUnit)))
       else
     on (peek_is ex TCurlyLeft) (\<lambda>curly.
       if curly then
         on (record_type_p n ex te) (\<lambda>fs.
         on (get_span fs) (\<lambda>sp. add_span sp (TeRecord fs)))
       else
     on (path_p n ex) (\<lambda>path.
     on (get_span path) (\<lambda>path_span.
     on (peek_is ex TSquareLeft) (\<lambda>square.
       if square then
         on (separated n ex TSquareLeft TSquareRight TComma te) (\<lambda>params.
         on (get_span params) (\<lambda>sp2.
         on (merge path_span sp2) (\<lambda>sp. add_span sp (TePath path (Some params)))))
       else add_span path_span (TePath path None)))))))"

fun type_option_loop :: "nat \<Rightarrow> extern \<Rightarrow> type_expr meta \<Rightarrow> type_expr meta parse" where
  "type_option_loop 0 ex t = (\<lambda>_. OutOfFuel)"
| "type_option_loop (Suc n) ex t =
     on (peek_is ex TQuestionMark) (\<lambda>b. if \<not> b then ret t else
     on (get_span t) (\<lambda>sp.
     on (unwrap_result (take_token ex TQuestionMark)) (\<lambda>sp2.
     on (merge sp sp2) (\<lambda>sp.
     on (add_span sp (TeOption t)) (\<lambda>t'. type_option_loop n ex t')))))"

fun type_expr_p :: "nat \<Rightarrow> extern \<Rightarrow> type_expr meta parse" where
  "type_expr_p 0 ex = (\<lambda>_. OutOfFuel)"
| "type_expr_p (Suc n) ex = on (type_expr_atom n ex (type_expr_p n ex)) (type_option_loop n ex)"

section \<open>Records and arguments\<close>

definition record_entry :: "extern \<Rightarrow> expr_parser \<Rightarrow> (name meta \<times> expr meta) parse" where
  "record_entry ex e = on (identifier_p ex) (\<lambda>key.
     on (take_token ex TColon) (\<lambda>_.
     on (e False) (\<lambda>v. ret (key, v))))"

definition record_p :: "nat \<Rightarrow> extern \<Rightarrow> expr_parser \<Rightarrow> (name meta \<times> expr meta) list meta parse" where
  "record_p n ex e = separated n ex TCurlyLeft TCurlyRight TComma (record_entry ex e)"

definition args_p :: "nat \<Rightarrow> extern \<Rightarrow> expr_parser \<Rightarrow> expr meta list meta parse" where
  "args_p n ex e = separated n ex TRoundLeft TRoundRight TComma (e False)"

section \<open>Control flow\<close>

text \<open>A block that holds just an expression, with the expression's id.\<close>

definition block_of_expr :: "expr meta \<Rightarrow> block meta" where
  "block_of_expr x = Meta (Block [] [] (Some x)) (meta_id x)"

fun if_else :: "nat \<Rightarrow> extern \<Rightarrow> expr_parser \<Rightarrow> block meta parse \<Rightarrow> expr meta parse" where
  "if_else 0 ex e blk = (\<lambda>_. OutOfFuel)"
| "if_else (Suc n) ex e blk =
     on (take_token ex (TKeyword KwIf)) (\<lambda>start.
     on (e True) (\<lambda>cond.
     on blk (\<lambda>then_block.
     on (next_is ex (TKeyword KwElse)) (\<lambda>has_else.
       if has_else then
         on (peek_is ex (TKeyword KwIf)) (\<lambda>chained.
         on (if chained then on (if_else n ex e blk) (\<lambda>x. ret (block_of_expr x)) else blk) (\<lambda>else_block.
         on (get_span else_block) (\<lambda>sp2.
         on (merge start sp2) (\<lambda>sp. add_span sp (EIfElse cond then_block (Some else_block))))))
       else
         on (get_span then_block) (\<lambda>sp2.
         on (merge start sp2) (\<lambda>sp. add_span sp (EIfElse cond then_block None)))))))"

definition while_expr :: "extern \<Rightarrow> expr_parser \<Rightarrow> block meta parse \<Rightarrow> expr meta parse" where
  "while_expr ex e blk =
     on (take_token ex (TKeyword KwWhile)) (\<lambda>start.
     on (e True) (\<lambda>cond.
     on blk (\<lambda>b.
     on (get_span b) (\<lambda>sp2.
     on (merge start sp2) (\<lambda>sp. add_span sp (EWhile cond b))))))"

definition for_expr :: "extern \<Rightarrow> expr_parser \<Rightarrow> block meta parse \<Rightarrow> expr meta parse" where
  "for_expr ex e blk =
     on (take_token ex (TKeyword KwFor)) (\<lambda>start.
     on (identifier_p ex) (\<lambda>ident.
     on (take_token ex (TKeyword KwIn)) (\<lambda>_.
     on (e True) (\<lambda>cond.
     on blk (\<lambda>b.
     on (get_span b) (\<lambda>sp2.
     on (merge start sp2) (\<lambda>sp. add_span sp (EFor ident cond b))))))))"

definition match_pattern :: "nat \<Rightarrow> extern \<Rightarrow> pattern meta parse" where
  "match_pattern n ex =
     on (identifier_p ex) (\<lambda>variant.
     on (get_span variant) (\<lambda>sp.
       if node variant = lit ''_'' then add_span sp Underscore
       else on (peek_is ex TRoundLeft) (\<lambda>round.
         if round then
           on (separated n ex TRoundLeft TRoundRight TComma (identifier_p ex)) (\<lambda>fs.
           on (merge_spans variant fs) (\<lambda>sp. add_span sp (EnumVariantPattern variant (Some fs))))
         else add_span sp (EnumVariantPattern variant None))))"

definition match_guard :: "extern \<Rightarrow> expr_parser \<Rightarrow> expr meta option parse" where
  "match_guard ex e = on (next_is ex (TKeyword KwIf)) (\<lambda>b.
     if b then on (e False) (\<lambda>x. ret (Some x)) else ret None)"

definition match_body :: "extern \<Rightarrow> expr_parser \<Rightarrow> block meta parse \<Rightarrow> block meta parse" where
  "match_body ex e blk = on (peek_is ex TCurlyLeft) (\<lambda>curly.
     if curly then on blk (\<lambda>b. on (next_is ex TComma) (\<lambda>_. ret b))
     else on (e False) (\<lambda>x.
       on (peek_is ex TCurlyRight) (\<lambda>last_arm.
       on (if last_arm then ret () else on (take_token ex TComma) (\<lambda>_. ret ())) (\<lambda>_.
       ret (block_of_expr x)))))"

fun match_loop :: "nat \<Rightarrow> extern \<Rightarrow> expr_parser \<Rightarrow> block meta parse \<Rightarrow> match_arm list \<Rightarrow> match_arm list parse" where
  "match_loop 0 ex e blk arms = (\<lambda>_. OutOfFuel)"
| "match_loop (Suc n) ex e blk arms =
     on (peek_is ex TCurlyRight) (\<lambda>end. if end then ret arms else
     on (match_pattern n ex) (\<lambda>pat.
     on (match_guard ex e) (\<lambda>guard.
     on (take_token ex TFatArrow) (\<lambda>_.
     on (match_body ex e blk) (\<lambda>body.
     match_loop n ex e blk (arms @ [MatchArm pat guard body]))))))"

definition match_expr :: "nat \<Rightarrow> extern \<Rightarrow> expr_parser \<Rightarrow> block meta parse \<Rightarrow> expr meta parse" where
  "match_expr n ex e blk =
     on (take_token ex (TKeyword KwMatch)) (\<lambda>start.
     on (e True) (\<lambda>x.
     on (take_token ex TCurlyLeft) (\<lambda>_.
     on (match_loop n ex e blk []) (\<lambda>arms.
     on (take_token ex TCurlyRight) (\<lambda>end.
     on (merge start end) (\<lambda>sp.
     on (add_span sp (x, arms)) (\<lambda>m. add_span sp (EMatch m))))))))"

section \<open>F-strings\<close>

text \<open>\<open>str::replace\<close> of a doubled character by the single one, from left to right.\<close>

fun undouble :: "rchar \<Rightarrow> str \<Rightarrow> str" where
  "undouble c (a # b # s) = (if a = c \<and> b = c then c # undouble c s else a # undouble c (b # s))"
| "undouble c s = s"

definition add_fstring_text :: "extern \<Rightarrow> str \<Rightarrow> span \<Rightarrow> fstring_part meta list \<Rightarrow> fstring_part meta list parse" where
  "add_fstring_text ex s sp parts =
     (if s = [] then ret parts
      else on (lift_result (unescape_str ex s sp)) (\<lambda>t.
        on (add_span sp (FsString (undouble (ch CHR ''}'') (undouble (ch CHR ''{'') t)))) (\<lambda>m. ret (parts @ [m]))))"

fun f_string_loop :: "nat \<Rightarrow> extern \<Rightarrow> expr_parser \<Rightarrow> span \<Rightarrow> fstring_part meta list \<Rightarrow> expr meta parse" where
  "f_string_loop 0 ex e start_span parts = (\<lambda>_. OutOfFuel)"
| "f_string_loop (Suc n) ex e start_span parts =
     on (lex f_string_part) (\<lambda>r. on the_parser (\<lambda>p.
       case r of
         None \<Rightarrow> fail (end_of_input p)
       | Some (StringEnd s, r) \<Rightarrow>
           on (add_fstring_text ex s (span_new (p_file p) r) parts) (\<lambda>parts.
           on (merge start_span (span_new (p_file p) r)) (\<lambda>sp. add_span sp (EFString parts)))
       | Some (StringIntermediate s, r) \<Rightarrow>
           on (add_fstring_text ex s (span_new (p_file p) r) parts) (\<lambda>parts.
           on (take_token ex TCurlyLeft) (\<lambda>_.
           on (e False) (\<lambda>x.
           on (get_span x) (\<lambda>sp.
           on (add_span sp (FsExpr x)) (\<lambda>m.
           on (take_token ex TCurlyRight) (\<lambda>_.
           f_string_loop n ex e start_span (parts @ [m])))))))))"

definition f_string_p :: "nat \<Rightarrow> extern \<Rightarrow> expr_parser \<Rightarrow> expr meta parse" where
  "f_string_p n ex e = on (take_token ex TFStringStart) (\<lambda>start_span. f_string_loop n ex e start_span [])"

section \<open>Atoms\<close>

definition can_start_expression :: "token \<Rightarrow> bool" where
  "can_start_expression t = (case t of
     TRoundLeft \<Rightarrow> True | TCurlyLeft \<Rightarrow> True | TSquareLeft \<Rightarrow> True | TIdent _ \<Rightarrow> True | TBang \<Rightarrow> True
   | TBool _ \<Rightarrow> True | TInteger _ _ \<Rightarrow> True | TFloat _ _ \<Rightarrow> True | THyphen \<Rightarrow> True | TIpV4 _ \<Rightarrow> True
   | TIpV6 _ \<Rightarrow> True | TAsn _ \<Rightarrow> True | TString _ \<Rightarrow> True | _ \<Rightarrow> False)"

definition parenthesized :: "extern \<Rightarrow> expr_parser \<Rightarrow> expr meta parse" where
  "parenthesized ex e =
     on (take_token ex TRoundLeft) (\<lambda>span_left.
     on (peek_is ex TRoundRight) (\<lambda>empty.
       if empty then
         on (take_token ex TRoundRight) (\<lambda>span_right.
         on (merge span_left span_right) (\<lambda>sp.
         on (add_span sp LitUnit) (\<lambda>l. ret (Meta (ELiteral l) (meta_id l)))))
       else
         on (e False) (\<lambda>x. on (take_token ex TRoundRight) (\<lambda>_. ret x))))"

definition list_expr :: "nat \<Rightarrow> extern \<Rightarrow> expr_parser \<Rightarrow> expr meta parse" where
  "list_expr n ex e = on (separated n ex TSquareLeft TSquareRight TComma (e False)) (\<lambda>vs.
     ret (Meta (EList (node vs)) (meta_id vs)))"

definition is_anonymous_record :: "extern \<Rightarrow> bool parse" where
  "is_anonymous_record ex = on (p_peek_many ex 2) (\<lambda>two.
     if two = Some [TCurlyLeft, TCurlyRight] then ret True
     else on (p_peek_many ex 3) (\<lambda>three.
       ret (case three of Some [TCurlyLeft, TIdent _, TColon] \<Rightarrow> True | _ \<Rightarrow> False)))"

definition curly_expr :: "nat \<Rightarrow> extern \<Rightarrow> expr_parser \<Rightarrow> block meta parse \<Rightarrow> expr meta parse" where
  "curly_expr n ex e blk = on (is_anonymous_record ex) (\<lambda>r.
     if r then on (record_p n ex e) (\<lambda>kv. on (get_span kv) (\<lambda>sp. add_span sp (ERecord kv)))
     else on blk (\<lambda>b. on (get_span b) (\<lambda>sp. add_span sp (EBlock b))))"

fun return_kind_of :: "token \<Rightarrow> return_kind option" where
  "return_kind_of (TKeyword KwAccept) = Some RkAccept"
| "return_kind_of (TKeyword KwReject) = Some RkReject"
| "return_kind_of (TKeyword KwReturn) = Some RkReturn"
| "return_kind_of _ = None"

definition return_expr :: "extern \<Rightarrow> expr_parser \<Rightarrow> expr meta parse" where
  "return_expr ex e = on (p_next ex) (\<lambda>(t, sp).
     on (unwrap (return_kind_of t)) (\<lambda>kind.
     on (p_peek ex) (\<lambda>next.
       case next of
         Some tok \<Rightarrow>
           if can_start_expression tok then
             on (e False) (\<lambda>x. on (get_span x) (\<lambda>sp2. on (merge sp sp2) (\<lambda>sp. add_span sp (EReturn kind (Some x)))))
           else add_span sp (EReturn kind None)
       | None \<Rightarrow> add_span sp (EReturn kind None))))"

definition path_or_record :: "nat \<Rightarrow> extern \<Rightarrow> expr_parser \<Rightarrow> bool \<Rightarrow> expr meta parse" where
  "path_or_record n ex e forbid_records = on (path_p n ex) (\<lambda>path.
     on (if forbid_records then ret False else peek_is ex TCurlyLeft) (\<lambda>r.
       if r then
         on (record_p n ex e) (\<lambda>kv.
         on (merge_spans path kv) (\<lambda>sp. add_span sp (ETypedRecord path kv)))
       else ret (Meta (EPath path) (meta_id path))))"

fun starts_path :: "token \<Rightarrow> bool" where
  "starts_path (TIdent _) = True"
| "starts_path (TKeyword KwSuper) = True"
| "starts_path (TKeyword KwPkg) = True"
| "starts_path (TKeyword KwDep) = True"
| "starts_path (TKeyword KwStd) = True"
| "starts_path _ = False"

text \<open>The guards of \<open>atom\<close> all look at the next token, without consuming it.\<close>

definition atom :: "nat \<Rightarrow> extern \<Rightarrow> expr_parser \<Rightarrow> block meta parse \<Rightarrow> bool \<Rightarrow> expr meta parse" where
  "atom n ex e blk forbid_records = on (p_peek ex) (\<lambda>t.
     if t = Some TRoundLeft then parenthesized ex e
     else if t = Some TSquareLeft then list_expr n ex e
     else if t = Some TCurlyLeft then curly_expr n ex e blk
     else if Option.bind t return_kind_of \<noteq> None then return_expr ex e
     else if t = Some (TKeyword KwIf) then if_else n ex e blk
     else if t = Some (TKeyword KwMatch) then match_expr n ex e blk
     else if t = Some (TKeyword KwWhile) then while_expr ex e blk
     else if t = Some (TKeyword KwFor) then for_expr ex e blk
     else if map_option starts_path t = Some True then path_or_record n ex e forbid_records
     else if t = Some TFStringStart then f_string_p n ex e
     else on (parse_literal ex) (\<lambda>l. ret (Meta (ELiteral l) (meta_id l))))"

section \<open>Access, negation and operators\<close>

fun access_loop :: "nat \<Rightarrow> extern \<Rightarrow> expr_parser \<Rightarrow> expr meta \<Rightarrow> expr meta parse" where
  "access_loop 0 ex e x = (\<lambda>_. OutOfFuel)"
| "access_loop (Suc n) ex e x =
     on (peek_is ex TQuestionMark) (\<lambda>q.
       if q then
         on (take_token ex TQuestionMark) (\<lambda>sp.
         on (get_span x) (\<lambda>sp2.
         on (merge sp sp2) (\<lambda>sp.
         on (add_span sp (EQuestionMark x)) (access_loop n ex e))))
       else
     on (peek_is ex TRoundLeft) (\<lambda>round.
       if round then
         on (args_p n ex e) (\<lambda>args.
         on (merge_spans x args) (\<lambda>sp.
         on (add_span sp (EFunctionCall x args)) (access_loop n ex e)))
       else
     on (next_is ex TPeriod) (\<lambda>period.
       if period then
         on (identifier_p ex) (\<lambda>ident.
         on (merge_spans x ident) (\<lambda>sp.
         on (add_span sp (EAccess x ident)) (access_loop n ex e)))
       else ret x)))"

definition access :: "nat \<Rightarrow> extern \<Rightarrow> expr_parser \<Rightarrow> block meta parse \<Rightarrow> bool \<Rightarrow> expr meta parse" where
  "access n ex e blk forbid_records = on (atom n ex e blk forbid_records) (access_loop n ex e)"

fun negation :: "nat \<Rightarrow> extern \<Rightarrow> expr meta parse \<Rightarrow> expr meta parse" where
  "negation 0 ex acc = (\<lambda>_. OutOfFuel)"
| "negation (Suc n) ex acc =
     on (peek_is ex TBang) (\<lambda>bang.
       if bang then
         on (take_token ex TBang) (\<lambda>sp.
         on (negation n ex acc) (\<lambda>x.
         on (get_span x) (\<lambda>sp2.
         on (merge sp sp2) (\<lambda>sp. add_span sp (ENot x)))))
       else
     on (peek_is ex THyphen) (\<lambda>hyphen.
       if hyphen then
         on (take_token ex THyphen) (\<lambda>sp.
         on (negation n ex acc) (\<lambda>x.
         on (get_span x) (\<lambda>sp2.
         on (merge sp sp2) (\<lambda>sp. add_span sp (ENegate x)))))
       else acc))"

fun binop_of_token :: "token \<Rightarrow> bin_op option" where
  "binop_of_token TAmpAmp = Some BAnd"
| "binop_of_token TPipePipe = Some BOr"
| "binop_of_token TEqEq = Some BEq"
| "binop_of_token TBangEq = Some BNe"
| "binop_of_token TAngleLeftEq = Some BLe"
| "binop_of_token TAngleRightEq = Some BGe"
| "binop_of_token TAngleLeft = Some BLt"
| "binop_of_token TAngleRight = Some BGt"
| "binop_of_token TPlus = Some BAdd"
| "binop_of_token THyphen = Some BSub"
| "binop_of_token TStar = Some BMul"
| "binop_of_token TSlash = Some BDiv"
| "binop_of_token TPercent = Some BMod"
| "binop_of_token _ = None"

definition peek_binop :: "extern \<Rightarrow> bin_op option parse" where
  "peek_binop ex = on (p_peek ex) (\<lambda>t. ret (Option.bind t binop_of_token))"

definition chain_error :: "bin_op \<Rightarrow> bin_op \<Rightarrow> span \<Rightarrow> parse_error" where
  "chain_error op prev sp = with_note
     (err_custom (lit (''`'' @ show_bin_op op @ ''` cannot be chained with `'' @ show_bin_op prev @ ''`''))
        (lit (''cannot be chained with `'' @ show_bin_op prev @ ''`'')) sp)
     (lit ''Try to disambiguate the expression with parentheses.'')"

text \<open>\<open>binop_expr\<close> and its loop, over the parser of operands.\<close>

fun binop_expr :: "nat \<Rightarrow> extern \<Rightarrow> expr meta parse \<Rightarrow> bin_op option \<Rightarrow> expr meta parse"
  and binop_loop :: "nat \<Rightarrow> extern \<Rightarrow> expr meta parse \<Rightarrow> bin_op option \<Rightarrow> expr meta \<Rightarrow> expr meta parse" where
  "binop_expr 0 ex neg prev = (\<lambda>_. OutOfFuel)"
| "binop_expr (Suc n) ex neg prev = on neg (\<lambda>lhs. binop_loop n ex neg prev lhs)"
| "binop_loop 0 ex neg prev lhs = (\<lambda>_. OutOfFuel)"
| "binop_loop (Suc n) ex neg prev lhs =
     on (peek_binop ex) (\<lambda>operator.
       case operator of
         None \<Rightarrow> ret lhs
       | Some op \<Rightarrow>
           (case map_option (\<lambda>p. relative_associativity p op) prev of
              Some AssocLeft \<Rightarrow> ret lhs
            | Some AssocNot \<Rightarrow> on (p_next ex) (\<lambda>(_, sp). fail (chain_error op (the prev) sp))
            | _ \<Rightarrow>
                on (p_next ex) (\<lambda>_.
                on (binop_expr n ex neg (Some op)) (\<lambda>rhs.
                on (merge_spans lhs rhs) (\<lambda>sp.
                on (add_span sp (EBinOp lhs op rhs)) (\<lambda>lhs'. binop_loop n ex neg prev lhs'))))))"

section \<open>Assignment\<close>

definition assign_error :: "span \<Rightarrow> parse_error" where
  "assign_error sp = err_custom (lit ''left-hand side of an assignment must be a single identifier'')
     (lit ''cannot assign to this expression'') sp"

definition compound_assign_expr :: "extern \<Rightarrow> expr meta parse \<Rightarrow> expr meta \<Rightarrow> compound_assign_op \<Rightarrow> expr meta parse" where
  "compound_assign_expr ex operand left op =
     on operand (\<lambda>right.
     on (merge_spans left right) (\<lambda>sp.
       case node left of
         EPath path \<Rightarrow>
           on (add_span sp ()) (\<lambda>u.
           add_span sp (ECompoundAssign \<lparr>ca_binop_id = meta_id u, ca_path_expr_id = meta_id left,
              ca_path = path, ca_op = op\<rparr> right))
       | _ \<Rightarrow> on (get_span left) (\<lambda>sp. fail (assign_error sp))))"

definition assign_expr :: "extern \<Rightarrow> expr meta parse \<Rightarrow> expr meta parse" where
  "assign_expr ex operand =
     on operand (\<lambda>left.
     on (next_is ex TEq) (\<lambda>eq.
       if eq then
         (case node left of
            EPath path \<Rightarrow>
              on operand (\<lambda>right.
              on (merge_spans left right) (\<lambda>sp. add_span sp (EAssign path right)))
          | _ \<Rightarrow> on (get_span left) (\<lambda>sp. fail (assign_error sp)))
       else
     on (next_is ex TPlusEq) (\<lambda>b. if b then compound_assign_expr ex operand left CAdd else
     on (next_is ex TMinusEq) (\<lambda>b. if b then compound_assign_expr ex operand left CSub else
     on (next_is ex TStarEq) (\<lambda>b. if b then compound_assign_expr ex operand left CMul else
     on (next_is ex TSlashEq) (\<lambda>b. if b then compound_assign_expr ex operand left CDiv else
     on (next_is ex TPercentEq) (\<lambda>b. if b then compound_assign_expr ex operand left CMod else
     ret left)))))))"

section \<open>Blocks\<close>

definition end_block ::
  "extern \<Rightarrow> span \<Rightarrow> path meta list \<Rightarrow> stmt meta list \<Rightarrow> expr meta option \<Rightarrow> block meta parse" where
  "end_block ex start imports stmts last_expr =
     on (take_token ex TCurlyRight) (\<lambda>end.
     on (merge start end) (\<lambda>sp. add_span sp (Block imports stmts last_expr)))"

definition expr_stmt :: "expr meta \<Rightarrow> stmt meta" where
  "expr_stmt x = Meta (SExpr x) (meta_id x)"

text \<open>An \<open>if\<close>, \<open>match\<close>, \<open>while\<close> or \<open>for\<close> ends the block, or is a statement with an optional semicolon.\<close>

definition block_like_stmt ::
  "extern \<Rightarrow> span \<Rightarrow> path meta list \<Rightarrow> stmt meta list \<Rightarrow> (stmt meta list \<Rightarrow> block meta parse) \<Rightarrow> expr meta parse
     \<Rightarrow> block meta parse" where
  "block_like_stmt ex start imports stmts continue m =
     on m (\<lambda>x.
     on (peek_is ex TCurlyRight) (\<lambda>b.
       if b then end_block ex start imports stmts (Some x)
       else on (next_is ex TSemiColon) (\<lambda>_. continue (stmts @ [expr_stmt x]))))"

definition let_stmt :: "nat \<Rightarrow> extern \<Rightarrow> expr_parser \<Rightarrow> stmt meta parse" where
  "let_stmt n ex e =
     on (take_token ex (TKeyword KwLet)) (\<lambda>start.
     on (identifier_p ex) (\<lambda>ident.
     on (peek_is ex TColon) (\<lambda>colon.
     on (if colon then on (take_token ex TColon) (\<lambda>_. on (type_expr_p n ex) (\<lambda>t. ret (Some t))) else ret None) (\<lambda>ty.
     on (take_token ex TEq) (\<lambda>_.
     on (e False) (\<lambda>x.
     on (take_token ex TSemiColon) (\<lambda>end.
     on (merge start end) (\<lambda>sp. add_span sp (SLet ident ty x)))))))))"

fun block_loop ::
  "nat \<Rightarrow> extern \<Rightarrow> expr_parser \<Rightarrow> block meta parse \<Rightarrow> span \<Rightarrow> path meta list \<Rightarrow> stmt meta list \<Rightarrow> block meta parse" where
  "block_loop 0 ex e blk start imports stmts = (\<lambda>_. OutOfFuel)"
| "block_loop (Suc n) ex e blk start imports stmts =
     (let continue = block_loop n ex e blk start imports;
          block_like = block_like_stmt ex start imports stmts continue in
     on (p_peek ex) (\<lambda>t.
       if t = Some TCurlyRight then end_block ex start imports stmts None
       else if t = Some (TKeyword KwImport) then
         on (import_p n ex) (\<lambda>paths. block_loop n ex e blk start (imports @ paths) stmts)
       else if t = Some (TKeyword KwLet) then on (let_stmt n ex e) (\<lambda>s. continue (stmts @ [s]))
       else if t = Some (TKeyword KwIf) then block_like (if_else n ex e blk)
       else if t = Some (TKeyword KwMatch) then block_like (match_expr n ex e blk)
       else if t = Some (TKeyword KwWhile) then block_like (while_expr ex e blk)
       else if t = Some (TKeyword KwFor) then block_like (for_expr ex e blk)
       else
         on (e False) (\<lambda>x.
         on (next_is ex TSemiColon) (\<lambda>semi.
           if semi then continue (stmts @ [expr_stmt x])
           else end_block ex start imports stmts (Some x)))))"

definition block_body :: "nat \<Rightarrow> extern \<Rightarrow> expr_parser \<Rightarrow> block meta parse \<Rightarrow> block meta parse" where
  "block_body n ex e blk = on (take_token ex TCurlyLeft) (\<lambda>start. block_loop n ex e blk start [] [])"

section \<open>Tying the knot\<close>

text \<open>\<open>expr_inner\<close> with its operand parser: \<open>binop_expr(None, r)\<close> over \<open>negation\<close> over \<open>access\<close>.\<close>

definition operand_parser ::
  "nat \<Rightarrow> extern \<Rightarrow> expr_parser \<Rightarrow> block meta parse \<Rightarrow> bool \<Rightarrow> expr meta parse" where
  "operand_parser n ex e blk forbid_records =
     binop_expr n ex (negation n ex (access n ex e blk forbid_records)) None"

fun expr_at :: "nat \<Rightarrow> extern \<Rightarrow> expr_parser"
  and block_at :: "nat \<Rightarrow> extern \<Rightarrow> block meta parse" where
  "expr_at 0 ex r = (\<lambda>_. OutOfFuel)"
| "expr_at (Suc n) ex r = assign_expr ex (operand_parser n ex (expr_at n ex) (block_at n ex) r)"
| "block_at 0 ex = (\<lambda>_. OutOfFuel)"
| "block_at (Suc n) ex = block_body n ex (expr_at n ex) (block_at n ex)"

end
