(* ===== verification/Item_Parser.thy ===== *)
theory Item_Parser
  imports Expr_Parser
begin

text \<open>
  The items of a script and the whole parser: \<open>src/src/parser/filter_map.rs\<close>, \<open>src/src/parser/signature.rs\<close>
  and the syntax tree part of \<open>src/src/parser/mod.rs\<close>.  The fuel \<open>n\<close> bounds loops and nesting.
\<close>

section \<open>Parameters and types\<close>

definition type_ident_field :: "nat \<Rightarrow> extern \<Rightarrow> (name meta \<times> type_expr meta) parse" where
  "type_ident_field n ex =
     on (identifier_p ex) (\<lambda>field_name.
     on (take_token ex TColon) (\<lambda>_.
     on (type_expr_p n ex) (\<lambda>ty. ret (field_name, ty))))"

definition params_p :: "nat \<Rightarrow> extern \<Rightarrow> params meta parse" where
  "params_p n ex = on (separated n ex TRoundLeft TRoundRight TComma (type_ident_field n ex)) (\<lambda>m.
     ret (Meta (node m) (meta_id m)))"

definition type_parameters :: "nat \<Rightarrow> extern \<Rightarrow> name meta list parse" where
  "type_parameters n ex = on (peek_is ex TSquareLeft) (\<lambda>b.
     if b then on (separated n ex TSquareLeft TSquareRight TComma (identifier_p ex)) (\<lambda>m. ret (node m))
     else ret [])"

definition filter_type_of :: "token \<Rightarrow> span \<Rightarrow> parse_error + filter_type" where
  "filter_type_of t sp =
     (if t = TKeyword KwFilterMap then Inr FtFilterMap
      else if t = TKeyword KwFilter then Inr FtFilter
      else Inl (err_expected (lit ''`filtermap` or `filter`'') (show_token t) sp))"

definition filter_map_p :: "nat \<Rightarrow> extern \<Rightarrow> declaration_item parse" where
  "filter_map_p n ex =
     on (p_next ex) (\<lambda>(t, sp).
     on (lift_result (filter_type_of t sp)) (\<lambda>filter_type.
     on (identifier_p ex) (\<lambda>ident.
     on (params_p n ex) (\<lambda>params.
     on (block_at n ex) (\<lambda>body. ret (DeFilterMap filter_type ident params body))))))"

definition record_type_assignment :: "nat \<Rightarrow> extern \<Rightarrow> declaration_item parse" where
  "record_type_assignment n ex =
     on (take_token ex (TKeyword KwRecord)) (\<lambda>_.
     on (identifier_p ex) (\<lambda>ident.
     on (type_parameters n ex) (\<lambda>type_params.
     on (record_type_p n ex (type_expr_p n ex)) (\<lambda>record_type.
       ret (DeRecord ident type_params record_type)))))"

definition enum_variant_p :: "nat \<Rightarrow> extern \<Rightarrow> variant_decl parse" where
  "enum_variant_p n ex =
     on (identifier_p ex) (\<lambda>ident.
     on (peek_is ex TRoundLeft) (\<lambda>b.
     on (if b then on (separated n ex TRoundLeft TRoundRight TComma (type_expr_p n ex)) (\<lambda>m. ret (node m))
         else ret []) (\<lambda>fs. ret (VariantDecl ident fs))))"

definition enum_declaration :: "nat \<Rightarrow> extern \<Rightarrow> declaration_item parse" where
  "enum_declaration n ex =
     on (take_token ex (TKeyword KwEnum)) (\<lambda>_.
     on (identifier_p ex) (\<lambda>ident.
     on (type_parameters n ex) (\<lambda>type_params.
     on (separated n ex TCurlyLeft TCurlyRight TComma (enum_variant_p n ex)) (\<lambda>variants.
       ret (DeEnum ident type_params variants)))))"

section \<open>Items\<close>

definition constant_p :: "nat \<Rightarrow> extern \<Rightarrow> declaration_item parse" where
  "constant_p n ex =
     on (take_token ex (TKeyword KwConst)) (\<lambda>_.
     on (identifier_p ex) (\<lambda>ident.
     on (take_token ex TColon) (\<lambda>_.
     on (type_expr_p n ex) (\<lambda>ty.
     on (take_token ex TEq) (\<lambda>_.
     on (expr_at n ex False) (\<lambda>x.
     on (take_token ex TSemiColon) (\<lambda>_. ret (DeConst ident ty x))))))))"

text \<open>An optional return type after an arrow.\<close>

definition return_type :: "nat \<Rightarrow> extern \<Rightarrow> type_expr meta option parse" where
  "return_type n ex = on (next_is ex TArrow) (\<lambda>b.
     if b then on (type_expr_p n ex) (\<lambda>t. ret (Some t)) else ret None)"

definition function_p :: "nat \<Rightarrow> extern \<Rightarrow> declaration_item parse" where
  "function_p n ex =
     on (take_token ex (TKeyword KwFn)) (\<lambda>_.
     on (identifier_p ex) (\<lambda>ident.
     on (params_p n ex) (\<lambda>params.
     on (return_type n ex) (\<lambda>r.
     on (block_at n ex) (\<lambda>body. ret (DeFunction ident params r body))))))"

definition test_p :: "nat \<Rightarrow> extern \<Rightarrow> declaration_item parse" where
  "test_p n ex =
     on (take_token ex (TKeyword KwTest)) (\<lambda>_.
     on (identifier_p ex) (\<lambda>ident.
     on (block_at n ex) (\<lambda>body. ret (DeTest ident body))))"

definition root :: "nat \<Rightarrow> extern \<Rightarrow> declaration_item parse" where
  "root n ex = on the_parser (\<lambda>p. on (p_peek ex) (\<lambda>t.
     case t of
       None \<Rightarrow> fail (end_of_input p)
     | Some (TKeyword KwFilterMap) \<Rightarrow> filter_map_p n ex
     | Some (TKeyword KwFilter) \<Rightarrow> filter_map_p n ex
     | Some (TKeyword KwConst) \<Rightarrow> constant_p n ex
     | Some (TKeyword KwRecord) \<Rightarrow> record_type_assignment n ex
     | Some (TKeyword KwEnum) \<Rightarrow> enum_declaration n ex
     | Some (TKeyword KwFn) \<Rightarrow> function_p n ex
     | Some (TKeyword KwTest) \<Rightarrow> test_p n ex
     | Some (TKeyword KwImport) \<Rightarrow> on (import_p n ex) (\<lambda>ps. ret (DeImport ps))
     | _ \<Rightarrow> on (p_next ex) (\<lambda>(t, sp).
         fail (err_expected (lit ''a function, filter, filtermap or import'') (show_token t) sp))))"

fun tree_loop :: "nat \<Rightarrow> extern \<Rightarrow> declaration_item list \<Rightarrow> syntax_tree parse" where
  "tree_loop 0 ex declarations = (\<lambda>_. OutOfFuel)"
| "tree_loop (Suc n) ex declarations =
     on (p_peek ex) (\<lambda>t. if t = None then ret declarations
     else on (root n ex) (\<lambda>d. tree_loop n ex (declarations @ [d])))"

definition tree :: "nat \<Rightarrow> extern \<Rightarrow> syntax_tree parse" where
  "tree n ex = on (lex (\<lambda>lx. map_option (\<lambda>lx'. ((), lx')) (skip_shebang lx))) (\<lambda>_. tree_loop n ex [])"

definition parse_tree :: "nat \<Rightarrow> extern \<Rightarrow> nat \<Rightarrow> spans \<Rightarrow> str \<Rightarrow> syntax_tree parsed" where
  "parse_tree n ex file s input = run_parser ex (tree n ex) file s input"

section \<open>Signatures of host functions\<close>

definition signature_p :: "nat \<Rightarrow> extern \<Rightarrow> signature_decl parse" where
  "signature_p n ex =
     on (take_token ex (TKeyword KwFn)) (\<lambda>_.
     on (type_parameters n ex) (\<lambda>type_params.
     on (separated n ex TRoundLeft TRoundRight TComma (type_expr_p n ex)) (\<lambda>params.
     on (return_type n ex) (\<lambda>r.
       ret \<lparr>sd_type_params = type_params, sd_params = node params, sd_ret = r\<rparr>))))"

definition parse_signature :: "nat \<Rightarrow> extern \<Rightarrow> spans \<Rightarrow> str \<Rightarrow> signature_decl parsed" where
  "parse_signature n ex s input = run_parser ex (signature_p n ex) 0 s input"

end
