(* ===== verification/Parser_Logic.thy ===== *)
theory Parser_Logic
  imports Item_Parser
begin

text \<open>
  A small logic for the parser, for sources of ASCII characters.  \<open>wp m Q p\<close> says that \<open>m\<close> does not panic
  and does not run out of fuel from \<open>p\<close>, and that \<open>Q\<close> holds of its value and final state.  What each
  parser keeps is stated in four numbers (tokens left, tokens peeked, spans in the table, and the
  first span of this run), so that the steps compose by linear arithmetic.
\<close>

section \<open>Tokens of an ASCII source\<close>

abbreviation ascii :: "str \<Rightarrow> bool" where
  "ascii s \<equiv> \<forall>c \<in> set s. c < 128"

fun token_long :: "token \<Rightarrow> bool" where
  "token_long (TString s) \<longleftrightarrow> 2 \<le> length s"
| "token_long (TChar s) \<longleftrightarrow> 2 \<le> length s"
| "token_long (THex s) \<longleftrightarrow> 2 \<le> length s"
| "token_long (TAsn s) \<longleftrightarrow> 2 \<le> length s"
| "token_long _ \<longleftrightarrow> True"

definition token_ok :: "token \<Rightarrow> bool" where
  "token_ok t \<longleftrightarrow> token_long t \<and> ascii (show_token t)"

lemma emit_Some_iff:
  "emit tail mk lx = Some r \<longleftrightarrow>
    (\<exists>tok span lx'. bump_to tail lx = Some (tok, span, lx') \<and> r = (Some (mk tok, span), lx'))"
  by (auto simp: emit_def bind_eq_Some_conv)

lemma bump_to_text:
  "bump_to tail lx = Some (tok, span, lx') \<Longrightarrow> lx_input lx = a @ tail \<Longrightarrow> tok = a"
proof -
  assume b: "bump_to tail lx = Some (tok, span, lx')" and i: "lx_input lx = a @ tail"
  then have "split_at (byte_len a) (lx_input lx) = Some (tok, lx_input lx')"
    by (auto simp: bump_to_def bump_def checked_sub_def bind_eq_Some_conv split: if_splits)
  with i show "tok = a" by simp
qed

lemma eat_until_fn_strict: "t \<noteq> [] \<Longrightarrow> strict_suffix (eat_until_fn f s t) t"
proof (cases t)
  case (Cons c cs)
  obtain b s' where f: "f s c = (b, s')" by (cases "f s c")
  have "suffix (eat_until_fn f s t) cs" using Cons f suffix_eat_until_fn by (cases b) simp_all
  with Cons show ?thesis by (simp add: suffix_strict_Cons)
qed simp

lemma quoted_long:
  assumes "(case eat_char q (lx_input lx) of
     (False, _) \<Rightarrow> Some (None, lx)
   | (True, tail) \<Rightarrow> (let tail' = eat_until_fn g False tail in
       if tail' = [] then Some (None, lx) else emit tail' mk lx)) = Some (Some (tok, span), lx')"
  shows "\<exists>s. tok = mk s \<and> 2 \<le> length s"
proof -
  obtain b t where e: "eat_char q (lx_input lx) = (b, t)" by (cases "eat_char q (lx_input lx)")
  with assms have b: "b" and ne: "eat_until_fn g False t \<noteq> []"
    and em: "emit (eat_until_fn g False t) mk lx = Some (Some (tok, span), lx')"
    by (auto simp: Let_def split: bool.splits if_splits)
  from ne have "t \<noteq> []" by auto
  from eat_until_fn_strict [OF this, of g False] have st: "strict_suffix (eat_until_fn g False t) t" .
  then obtain a where a: "t = a @ eat_until_fn g False t" by (auto simp: strict_suffix_def suffix_def)
  with st have "a \<noteq> []" by (metis append_Nil strict_suffix_def)
  from e b have "lx_input lx = (q # a) @ eat_until_fn g False t" using a by simp
  moreover obtain s where "bump_to (eat_until_fn g False t) lx = Some (s, span, lx')" and "tok = mk s"
    using em by (auto simp: emit_Some_iff)
  ultimately have "tok = mk (q # a)" using bump_to_text by blast
  with \<open>a \<noteq> []\<close> show ?thesis by (cases a) auto
qed

lemma eat_str_long:
  assumes "eat_str p (lx_input lx) = (True, t)" and "suffix tail t" and "bump_to tail lx = Some (tok, span, lx')"
  shows "length p \<le> length tok"
proof -
  obtain a where "t = a @ tail" using assms(2) by (auto simp: suffix_def)
  with assms(1) have "lx_input lx = (lit p @ a) @ tail" by (simp add: eat_str_True_iff)
  from bump_to_text [OF assms(3) this] show ?thesis by (simp add: lit_def)
qed

definition long_form :: "(lexer \<Rightarrow> lexed) \<Rightarrow> bool" where
  "long_form f \<longleftrightarrow> (\<forall>lx tok span lx'. f lx = Some (Some (tok, span), lx') \<longrightarrow> token_long tok)"

lemma long_form_or_else: "long_form f \<Longrightarrow> long_form g \<Longrightarrow> long_form (or_else f g)"
  unfolding long_form_def or_else_def by (fastforce simp: bind_eq_Some_conv split: option.splits)

lemma token_long_table:
  "map_of t k = Some tok \<Longrightarrow> \<forall>(s, x) \<in> set t. token_long x \<Longrightarrow> token_long tok"
  by (drule map_of_SomeD) auto

lemma long_ipv6: "long_form ipv6"
  by (auto simp: long_form_def ipv6_def emit_Some_iff split: option.splits)

lemma long_ipv4: "long_form ipv4"
  by (auto simp: long_form_def ipv4_def emit_Some_iff split: option.splits)

lemma long_two_char: "long_form two_char_punctuation"
proof -
  have "\<forall>(s, x) \<in> set two_chars. token_long x" by (simp add: two_chars_def)
  from token_long_table [OF _ this] show ?thesis
    by (auto simp: long_form_def two_char_punctuation_def bind_eq_Some_conv split: option.splits)
qed

lemma long_one_char: "long_form one_char_punctuation"
proof -
  have "\<forall>(s, x) \<in> set one_chars. token_long x" by (simp add: one_chars_def)
  from token_long_table [OF _ this] show ?thesis
    by (auto simp: long_form_def one_char_punctuation_def bind_eq_Some_conv split: option.splits)
qed

lemma long_f_string: "long_form f_string"
  unfolding long_form_def f_string_def
  by (auto simp: emit_Some_iff split: prod.splits bool.splits)

lemma long_string: "long_form lex_string"
  unfolding long_form_def lex_string_def by (auto dest!: quoted_long)

lemma long_char: "long_form lex_char"
  unfolding long_form_def lex_char_def by (auto dest!: quoted_long)

lemma long_number: "long_form (number uni)"
  unfolding long_form_def
proof (intro allI impI)
  fix lx tok span lx' assume a: "number uni lx = Some (Some (tok, span), lx')"
  obtain is_float tail where f: "number_fraction uni (snd (eat_while is_roto_digit (lx_input lx))) = (is_float, tail)"
    by (cases "number_fraction uni (snd (eat_while is_roto_digit (lx_input lx)))")
  from a f obtain num suffix where "tok = (if is_float then TFloat num suffix else TInteger num suffix)"
    by (auto simp: number_def bind_eq_Some_conv simp del: split_at.simps split: if_splits)
  then show "token_long tok" by simp
qed

lemma long_keyword: "long_form (keyword_or_ident uni)"
  unfolding long_form_def
proof (intro allI impI)
  fix lx tok span lx' assume a: "keyword_or_ident uni lx = Some (Some (tok, span), lx')"
  then obtain c s where c: "lx_input lx = c # s" and st: "xid_start uni c \<or> c = ch CHR ''_''"
    by (auto simp: keyword_or_ident_def split: list.splits if_splits)
  with a obtain ident sp lx1 where r: "(Some (tok, span), lx') = (case keyword_of ident of
       Some kw \<Rightarrow> (Some (TKeyword kw, sp), lx1)
     | None \<Rightarrow>
         if ident = lit ''true'' then (Some (TBool True, sp), lx1)
         else if ident = lit ''false'' then (Some (TBool False, sp), lx1)
         else (Some (TIdent ident, sp), record_almost_keyword ident sp lx1))"
    unfolding keyword_or_ident_def by (auto simp: bind_eq_Some_conv simp del: split_at.simps) metis+
  show "token_long tok"
  proof (cases "keyword_of ident")
    case None
    with r show ?thesis by (cases "ident = lit ''true''"; cases "ident = lit ''false''") simp_all
  qed (use r in simp)
qed

lemma long_hex: "long_form hex_number"
  unfolding long_form_def
proof (intro allI impI)
  fix lx tok span lx' assume a: "hex_number lx = Some (Some (tok, span), lx')"
  obtain b t where b: "eat_str ''0x'' (lx_input lx) = (b, t)" by (cases "eat_str ''0x'' (lx_input lx)")
  let ?u = "snd (eat_while is_ascii_hexdigit t)"
  from a b obtain s where "b" and s: "bump_to ?u lx = Some (s, span, lx')" "tok = THex s"
    by (auto simp: hex_number_def emit_Some_iff split: bool.splits)
  with b eat_str_long [of "''0x''", OF _ suffix_eat_while s(1)] show "token_long tok" by simp
qed

lemma long_as_number: "long_form as_number"
  unfolding long_form_def
proof (intro allI impI)
  fix lx tok span lx' assume a: "as_number lx = Some (Some (tok, span), lx')"
  obtain b t where b: "eat_str ''AS'' (lx_input lx) = (b, t)" by (cases "eat_str ''AS'' (lx_input lx)")
  obtain d u where d: "eat_while is_ascii_digit t = (d, u)" by (cases "eat_while is_ascii_digit t")
  from a b d obtain s where "b" and s: "bump_to u lx = Some (s, span, lx')" "tok = TAsn s"
    by (auto simp: as_number_def emit_Some_iff split: bool.splits)
  moreover have "suffix u t" using suffix_eat_while [of is_ascii_digit t] d by simp
  ultimately show "token_long tok" using eat_str_long [of "''AS''" lx t u s span lx'] b by simp
qed

lemmas long_forms = long_ipv6 long_ipv4 long_two_char long_one_char long_as_number long_hex long_number
  long_f_string long_string long_char long_keyword

lemma next_token_long:
  assumes "next_token uni lx = Some (Some (tok, span), lx')"
  shows "token_long tok"
proof -
  have "long_form (foldr or_else
        [ipv6, ipv4, two_char_punctuation, one_char_punctuation, as_number, hex_number, number uni,
         f_string, lex_string, lex_char, keyword_or_ident uni]
        (\<lambda>lx. Some (None, lx)))"
    by (simp only: foldr.simps comp_apply id_apply)
      (intro long_form_or_else long_forms, simp add: long_form_def)
  then have "\<And>lx1. (foldr or_else
        [ipv6, ipv4, two_char_punctuation, one_char_punctuation, as_number, hex_number, number uni,
         f_string, lex_string, lex_char, keyword_or_ident uni]
        (\<lambda>lx. Some (None, lx))) lx1 = Some (Some (tok, span), lx') \<Longrightarrow> token_long tok"
    unfolding long_form_def by blast
  with assms show ?thesis
    unfolding next_token_def bind_eq_Some_conv by (auto simp del: foldr.simps split: if_splits)
qed

section \<open>The lexer on an ASCII source\<close>

definition real_tokens :: "(token option \<times> range) list \<Rightarrow> nat" where
  "real_tokens ts = length (filter (\<lambda>(t, _). t \<noteq> None) ts)"

lemma real_tokens_simps [simp]:
  "real_tokens [] = 0"
  "real_tokens ((None, r) # ts) = real_tokens ts"
  "real_tokens ((Some t, r) # ts) = Suc (real_tokens ts)"
  "real_tokens (xs @ ys) = real_tokens xs + real_tokens ys"
  by (simp_all add: real_tokens_def)

definition lexer_left :: "lexer \<Rightarrow> nat" where
  "lexer_left lx = byte_len (lx_input lx) + real_tokens (lx_peeked lx)"

definition lexer_good :: "lexer \<Rightarrow> bool" where
  "lexer_good lx \<longleftrightarrow> in_source lx \<and> ascii (lx_input lx) \<and>
     (\<forall>(t, r) \<in> set (lx_peeked lx). \<forall>tok. t = Some tok \<longrightarrow> token_ok tok)"

lemma next_inner_ascii:
  assumes "lexer_good lx"
  shows "\<exists>r lx'. next_inner uni lx = Some (r, lx') \<and> lexer_good lx' \<and> lx_peeked lx' = lx_peeked lx \<and>
    byte_len (lx_input lx') + (case r of Some (Some t, _) \<Rightarrow> 1 | _ \<Rightarrow> 0) \<le> byte_len (lx_input lx) \<and>
    (\<forall>t sp. r = Some (Some t, sp) \<longrightarrow> token_ok t)"
proof -
  have ok: "in_source lx" and asc: "ascii (lx_input lx)" using assms by (simp_all add: lexer_good_def)
  obtain gap where gap: "lx_input lx = gap @ skip_trivia (lx_input lx)" using skip_trivia_split by blast
  have len: "byte_len (skip_trivia (lx_input lx)) \<le> byte_len (lx_input lx)" by (subst (2) gap) simp
  have asc': "ascii (skip_trivia (lx_input lx))" using asc by (subst (asm) gap) simp
  then have "\<not> wide_start uni (lx\<lparr>lx_input := skip_trivia (lx_input lx)\<rparr>)" by (auto simp: wide_start_def)
  then obtain r lx1 where n: "next_token uni lx = Some (r, lx1)"
    using next_token_panics_iff [OF ok, of uni] by (cases "next_token uni lx") auto
  note t = next_token_takes [OF ok n]
  show ?thesis
  proof (cases r)
    case None
    with t have lx1: "lx1 = lx\<lparr>lx_input := skip_trivia (lx_input lx)\<rparr>" by simp
    with assms asc' in_source_skip [OF ok] have "lexer_good lx1" by (simp add: lexer_good_def)
    moreover have "\<exists>r'. next_inner uni lx = Some (r', lx1) \<and> (\<forall>t sp. r' \<noteq> Some (Some t, sp))"
      using n None lx1 in_source_skip [OF ok] by (auto simp: next_inner_def in_source_def checked_sub_def)
    ultimately show ?thesis using len lx1 by (auto split: option.splits)
  next
    case (Some ts)
    obtain tok span where ts: "ts = (tok, span)" by (cases ts)
    with t Some have tk: "takes (lx\<lparr>lx_input := skip_trivia (lx_input lx)\<rparr>) tok span lx1" by simp
    then have sk: "skip_trivia (lx_input lx) = show_token tok @ lx_input lx1" and ne: "show_token tok \<noteq> []"
      by (auto simp: takes_def)
    have "0 < byte_len (show_token tok)" using ne by (cases "show_token tok") auto
    moreover have "ascii (show_token tok)" "ascii (lx_input lx1)" using asc' sk by auto
    moreover have "token_long tok" using next_token_long n Some ts by blast
    moreover have "in_source lx1" "lx_peeked lx1 = lx_peeked lx"
      using tk sk len ok by (auto simp: takes_def in_source_def)
    ultimately have "lexer_good lx1" "token_ok tok" "byte_len (lx_input lx1) < byte_len (skip_trivia (lx_input lx))"
      using assms sk by (simp_all add: lexer_good_def token_ok_def)
    moreover have "next_inner uni lx = Some (Some (Some tok, span), lx1)"
      using n Some ts by (simp add: next_inner_def)
    ultimately show ?thesis using len \<open>lx_peeked lx1 = lx_peeked lx\<close> by simp
  qed
qed

lemma lexer_next_ascii:
  assumes "lexer_good lx"
  shows "\<exists>r lx'. lexer_next uni lx = Some (r, lx') \<and> lexer_good lx' \<and>
    length (lx_peeked lx') \<le> length (lx_peeked lx) - 1 \<and>
    lexer_left lx' + (case r of Some (Some t, _) \<Rightarrow> 1 | _ \<Rightarrow> 0) \<le> lexer_left lx \<and>
    (\<forall>t sp. r = Some (Some t, sp) \<longrightarrow> token_ok t)"
proof (cases "lx_peeked lx")
  case Nil
  with next_inner_ascii [OF assms, of uni] show ?thesis by (auto simp: lexer_next_def lexer_left_def)
next
  case (Cons t ts)
  obtain tk r where t: "t = (tk, r)" by (cases t)
  with Cons assms show ?thesis
    by (cases tk) (auto simp: lexer_next_def lexer_left_def lexer_good_def in_source_def)
qed

lemma lexer_peek_ascii:
  assumes "lexer_good lx"
  shows "\<exists>r lx'. lexer_peek uni lx = Some (r, lx') \<and> lexer_good lx' \<and>
    length (lx_peeked lx') \<le> max 1 (length (lx_peeked lx)) \<and> lexer_left lx' \<le> lexer_left lx"
proof (cases "lx_peeked lx")
  case Nil
  obtain r lx' where n: "next_inner uni lx = Some (r, lx')" "lexer_good lx'" "lx_peeked lx' = []"
    "byte_len (lx_input lx') + (case r of Some (Some t, _) \<Rightarrow> 1 | _ \<Rightarrow> 0) \<le> byte_len (lx_input lx)"
    "\<forall>t sp. r = Some (Some t, sp) \<longrightarrow> token_ok t"
    using next_inner_ascii [OF assms, of uni] Nil by auto
  show ?thesis
  proof (cases r)
    case None
    with n Nil show ?thesis by (auto simp: lexer_peek_def lexer_left_def)
  next
    case (Some t)
    obtain tk sp where t: "t = (tk, sp)" by (cases t)
    with Some n Nil show ?thesis
      by (cases tk) (auto simp: lexer_peek_def lexer_left_def lexer_good_def in_source_def)
  qed
next
  case (Cons t ts)
  with assms show ?thesis by (auto simp: lexer_peek_def)
qed

lemma fill_peeked_ascii:
  "lexer_good lx \<Longrightarrow> \<exists>b lx'. fill_peeked uni k lx = Some (b, lx') \<and> lexer_good lx' \<and>
    length (lx_peeked lx') \<le> length (lx_peeked lx) + k \<and> lexer_left lx' \<le> lexer_left lx"
proof (induction k arbitrary: lx)
  case (Suc k)
  obtain r lx' where n: "next_inner uni lx = Some (r, lx')" "lexer_good lx'" "lx_peeked lx' = lx_peeked lx"
    "byte_len (lx_input lx') + (case r of Some (Some t, _) \<Rightarrow> 1 | _ \<Rightarrow> 0) \<le> byte_len (lx_input lx)"
    "\<forall>t sp. r = Some (Some t, sp) \<longrightarrow> token_ok t"
    using next_inner_ascii [OF Suc.prems, of uni] by auto
  show ?case
  proof (cases r)
    case None
    with n show ?thesis by (auto simp: lexer_left_def)
  next
    case (Some t)
    let ?lx = "lx'\<lparr>lx_peeked := lx_peeked lx' @ [t]\<rparr>"
    obtain tk sp where t: "t = (tk, sp)" by (cases t)
    with Some n have "lexer_good ?lx" "lexer_left ?lx \<le> lexer_left lx"
      by (cases tk; auto simp: lexer_left_def lexer_good_def in_source_def)+
    with Suc.IH [of ?lx] Some n show ?thesis by fastforce
  qed
qed auto

lemma peek_many_ascii:
  assumes "lexer_good lx" and "length (lx_peeked lx) \<le> k"
  shows "\<exists>r lx'. peek_many uni k lx = Some (r, lx') \<and> lexer_good lx' \<and>
    length (lx_peeked lx') \<le> k \<and> lexer_left lx' \<le> lexer_left lx"
proof -
  obtain b lx' where "fill_peeked uni (k - length (lx_peeked lx)) lx = Some (b, lx')" "lexer_good lx'"
    "length (lx_peeked lx') \<le> k" "lexer_left lx' \<le> lexer_left lx"
    using fill_peeked_ascii [OF assms(1), of uni "k - length (lx_peeked lx)"] assms(2) by fastforce
  with assms(2) show ?thesis by (auto simp: peek_many_def checked_sub_def Let_def)
qed

text \<open>The scan for the end of an f-string part stops inside the input.\<close>

lemma fs_close_index: "fs_close i s = Some (j, t) \<Longrightarrow> i < j \<and> j + length t = i + length s"
  by (induction i s rule: fs_close.induct) (auto split: if_splits)

lemma fs_scan_index:
  "(fs_scan i s = FsEnd j \<or> fs_scan i s = FsOpen j) \<Longrightarrow> i \<le> j \<and> j < i + length s"
proof (induction i s rule: fs_scan.induct)
  case (2 i c s)
  show ?case
  proof (cases "c = ch CHR 0x5C")
    case False
    with 2 show ?thesis by (auto split: if_splits list.splits)
  next
    case True
    then obtain d s' where s: "s = d # s'" using 2(5) by (cases s) auto
    show ?thesis
    proof (cases "d = ch CHR ''u'' \<or> d = ch CHR ''U''")
      case False
      with 2 True s show ?thesis by auto
    next
      case u: True
      with 2(5) True s obtain s'' j' t where "s' = ch CHR ''{'' # s''"
        and cl: "fs_close (i + 3) s'' = Some (j', t)" and sc: "fs_scan j' t = FsEnd j \<or> fs_scan j' t = FsOpen j"
        by (auto split: list.splits if_splits option.splits)
      with 2(1) [OF True s u _ _ cl refl] fs_close_index [OF cl] s show ?thesis by auto
    qed
  qed
qed simp

lemma f_string_part_ascii:
  assumes "lexer_good lx"
  shows "\<exists>r lx'. f_string_part lx = Some (r, lx') \<and> lexer_good lx' \<and>
    lx_peeked lx' = lx_peeked lx \<and> lexer_left lx' \<le> lexer_left lx"
proof -
  have ok: "in_source lx" and asc: "ascii (lx_input lx)" using assms by (simp_all add: lexer_good_def)
  have b: "\<exists>sp. bump k lx1 = Some (take k (lx_input lx1), sp, lx1\<lparr>lx_input := drop k (lx_input lx1)\<rparr>) \<and>
      lexer_good (lx1\<lparr>lx_input := drop k (lx_input lx1)\<rparr>) \<and>
      lexer_left (lx1\<lparr>lx_input := drop k (lx_input lx1)\<rparr>) \<le> lexer_left lx1"
    if "lexer_good lx1" and "k \<le> length (lx_input lx1)" for k lx1
  proof -
    have "ascii (lx_input lx1)" "in_source lx1" using that(1) by (simp_all add: lexer_good_def)
    then have l: "byte_len (take k (lx_input lx1)) = k" using that(2)
      by (subst byte_len_ascii) (auto dest: in_set_takeD)
    have "byte_len (lx_input lx1) = byte_len (take k (lx_input lx1)) + byte_len (drop k (lx_input lx1))"
      by (metis append_take_drop_id byte_len_simps(3))
    then have "byte_len (drop k (lx_input lx1)) \<le> byte_len (lx_input lx1)" by simp
    with that(1) have "lexer_good (lx1\<lparr>lx_input := drop k (lx_input lx1)\<rparr>)"
      "lexer_left (lx1\<lparr>lx_input := drop k (lx_input lx1)\<rparr>) \<le> lexer_left lx1"
      by (auto simp: lexer_good_def lexer_left_def in_source_def dest: in_set_dropD)
    moreover have "\<exists>sp. bump k lx1 = Some (take k (lx_input lx1), sp, lx1\<lparr>lx_input := drop k (lx_input lx1)\<rparr>)"
      using bump_append [of lx1 "take k (lx_input lx1)" "drop k (lx_input lx1)"] l \<open>in_source lx1\<close> by simp
    ultimately show ?thesis by blast
  qed
  show ?thesis
  proof (cases "fs_scan 0 (lx_input lx)")
    case (FsEnd i)
    then have i: "i < length (lx_input lx)" using fs_scan_index [of 0 "lx_input lx" i] by simp
    let ?lx1 = "lx\<lparr>lx_input := drop i (lx_input lx)\<rparr>"
    obtain sp where 1: "bump i lx = Some (take i (lx_input lx), sp, ?lx1)" "lexer_good ?lx1"
      "lexer_left ?lx1 \<le> lexer_left lx"
      using b [OF assms, of i] i by auto
    obtain sp2 where 2: "bump 1 ?lx1 = Some (take 1 (lx_input ?lx1), sp2, ?lx1\<lparr>lx_input := drop 1 (lx_input ?lx1)\<rparr>)"
      "lexer_good (?lx1\<lparr>lx_input := drop 1 (lx_input ?lx1)\<rparr>)"
      "lexer_left (?lx1\<lparr>lx_input := drop 1 (lx_input ?lx1)\<rparr>) \<le> lexer_left ?lx1"
    proof -
      have "1 \<le> length (lx_input ?lx1)" using i by simp
      from b [OF 1(2) this] show ?thesis using that by blast
    qed
    from FsEnd 1 2 show ?thesis by (auto simp: f_string_part_def)
  next
    case (FsOpen i)
    then have "i \<le> length (lx_input lx)" using fs_scan_index [of 0 "lx_input lx" i] by simp
    with b [OF assms, of i] FsOpen show ?thesis by (auto simp: f_string_part_def)
  next
    case FsInvalid
    with assms show ?thesis by (auto simp: f_string_part_def)
  qed
qed

section \<open>Weakest preconditions\<close>

definition wp :: "'a parse \<Rightarrow> ('a \<Rightarrow> parser \<Rightarrow> bool) \<Rightarrow> parser \<Rightarrow> bool" where
  "wp m Q p \<longleftrightarrow> (case m p of Parsed x p' \<Rightarrow> Q x p' | Failed _ _ \<Rightarrow> True | Panicked \<Rightarrow> False | OutOfFuel \<Rightarrow> False)"

lemma wp_on [simp]: "wp (on m f) Q p \<longleftrightarrow> wp m (\<lambda>x p'. wp (f x) Q p') p"
  by (simp add: wp_def on_def split: parsed.splits)

lemma wp_ret [simp]: "wp (ret x) Q p \<longleftrightarrow> Q x p"
  by (simp add: wp_def ret_def)

lemma wp_fail [simp]: "wp (fail e) Q p"
  by (simp add: wp_def fail_def)

lemma wp_the_parser [simp]: "wp the_parser Q p \<longleftrightarrow> Q p p"
  by (simp add: wp_def the_parser_def)

lemma wp_unwrap: "x = Some v \<Longrightarrow> Q v p \<Longrightarrow> wp (unwrap x) Q p"
  by (simp add: unwrap_def)

lemma wp_lift_result: "(\<And>x. r = Inr x \<Longrightarrow> Q x p) \<Longrightarrow> wp (lift_result r) Q p"
  by (cases r) (simp_all add: lift_result_def)

lemma wp_mono: "wp m P p \<Longrightarrow> (\<And>x p'. P x p' \<Longrightarrow> Q x p') \<Longrightarrow> wp m Q p"
  by (auto simp: wp_def split: parsed.splits)

text \<open>The numbers a run is followed by, and the invariant of the state in a run on file \<open>f\<close> whose first
  span is \<open>b\<close>.\<close>

abbreviation left :: "parser \<Rightarrow> nat" where "left p \<equiv> lexer_left (p_lexer p)"
abbreviation peeked :: "parser \<Rightarrow> nat" where "peeked p \<equiv> length (lx_peeked (p_lexer p))"
abbreviation spanned :: "parser \<Rightarrow> nat" where "spanned p \<equiv> length (span_table (p_spans p))"

definition good :: "nat \<Rightarrow> nat \<Rightarrow> parser \<Rightarrow> bool" where
  "good b f p \<longleftrightarrow> p_file p = f \<and> lexer_good (p_lexer p) \<and> b \<le> spanned p \<and>
     (\<forall>i. b \<le> i \<longrightarrow> i < spanned p \<longrightarrow> span_file (span_table (p_spans p) ! i) = f)"

text \<open>
  From a good state with at most \<open>d\<close> peeked and fewer than \<open>n\<close> tokens left, the parser ends in a good
  state, with at most two peeked tokens and at least \<open>c\<close> tokens fewer, and \<open>R\<close> holds of its value and
  of the number of spans.
\<close>

definition spec :: "nat \<Rightarrow> nat \<Rightarrow> nat \<Rightarrow> nat \<Rightarrow> nat \<Rightarrow> ('a \<Rightarrow> nat \<Rightarrow> bool) \<Rightarrow> 'a parse \<Rightarrow> bool" where
  "spec b f d n c R m \<longleftrightarrow> (\<forall>p. good b f p \<longrightarrow> peeked p \<le> d \<longrightarrow> left p < n \<longrightarrow>
     wp m (\<lambda>x p'. good b f p' \<and> peeked p' \<le> 2 \<and> spanned p \<le> spanned p' \<and> left p' + c \<le> left p \<and>
       R x (spanned p')) p)"

lemma specI:
  "(\<And>p. good b f p \<Longrightarrow> peeked p \<le> d \<Longrightarrow> left p < n \<Longrightarrow>
     wp m (\<lambda>x p'. good b f p' \<and> peeked p' \<le> 2 \<and> spanned p \<le> spanned p' \<and> left p' + c \<le> left p \<and>
       R x (spanned p')) p) \<Longrightarrow> spec b f d n c R m"
  by (simp add: spec_def)

lemma spec_wp:
  assumes "spec b f d n c R m" and "good b f p" and "peeked p \<le> d" and "left p < n"
    and "\<And>x p'. good b f p' \<Longrightarrow> peeked p' \<le> 2 \<Longrightarrow> spanned p \<le> spanned p' \<Longrightarrow> left p' + c \<le> left p \<Longrightarrow>
       R x (spanned p') \<Longrightarrow> Q x p'"
  shows "wp m Q p"
proof -
  from assms(1-4) have "wp m (\<lambda>x p'. good b f p' \<and> peeked p' \<le> 2 \<and> spanned p \<le> spanned p' \<and>
      left p' + c \<le> left p \<and> R x (spanned p')) p" by (simp add: spec_def)
  then show ?thesis by (rule wp_mono) (use assms(5) in auto)
qed

text \<open>A result that was added in this run.\<close>

definition mine :: "nat \<Rightarrow> 'a meta \<Rightarrow> nat \<Rightarrow> bool" where
  "mine b x k \<longleftrightarrow> b \<le> meta_id x \<and> meta_id x < k"

lemma mine_mono: "mine b x k \<Longrightarrow> k \<le> l \<Longrightarrow> mine b x l"
  by (simp add: mine_def)

section \<open>The helpers\<close>

lemma good_lexer:
  "good b f p \<Longrightarrow> lexer_good lx \<Longrightarrow> good b f (p\<lparr>p_lexer := lx\<rparr>)"
  by (simp add: good_def)

lemma wp_lex:
  assumes "\<exists>r lx'. g (p_lexer p) = Some (r, lx') \<and> P r lx'"
    and "\<And>r lx'. P r lx' \<Longrightarrow> Q r (p\<lparr>p_lexer := lx'\<rparr>)"
  shows "wp (lex g) Q p"
  using assms by (auto simp: wp_def lex_def)

lemma wp_next:
  assumes "good b f p"
    and "\<And>t sp p'. good b f p' \<Longrightarrow> peeked p' \<le> peeked p - 1 \<Longrightarrow> spanned p' = spanned p \<Longrightarrow>
      left p' < left p \<Longrightarrow> token_ok t \<Longrightarrow> span_file sp = f \<Longrightarrow> Q (t, sp) p'"
  shows "wp (p_next ex) Q p"
proof -
  have g: "lexer_good (p_lexer p)" and f: "p_file p = f" using assms(1) by (simp_all add: good_def)
  obtain r lx' where n: "lexer_next (ex_unicode ex) (p_lexer p) = Some (r, lx')" "lexer_good lx'"
    "length (lx_peeked lx') \<le> peeked p - 1"
    "lexer_left lx' + (case r of Some (Some t, _) \<Rightarrow> 1 | _ \<Rightarrow> 0) \<le> left p"
    "\<forall>t sp. r = Some (Some t, sp) \<longrightarrow> token_ok t"
    using lexer_next_ascii [OF g, of "ex_unicode ex"] by blast
  have "good b f (p\<lparr>p_lexer := lx'\<rparr>)" using good_lexer [OF assms(1) n(2)] .
  with n f assms(2) [of "p\<lparr>p_lexer := lx'\<rparr>"] show ?thesis
    by (auto simp: p_next_def wp_def on_def lex_def the_parser_def fail_def ret_def span_new_def split: option.splits)
qed

lemma wp_peek:
  assumes "good b f p" and "peeked p \<le> 2"
    and "\<And>t p'. good b f p' \<Longrightarrow> peeked p' \<le> 2 \<Longrightarrow> spanned p' = spanned p \<Longrightarrow> left p' \<le> left p \<Longrightarrow> Q t p'"
  shows "wp (p_peek ex) Q p"
proof -
  have g: "lexer_good (p_lexer p)" using assms(1) by (simp add: good_def)
  obtain r lx' where n: "lexer_peek (ex_unicode ex) (p_lexer p) = Some (r, lx')" "lexer_good lx'"
    "length (lx_peeked lx') \<le> max 1 (peeked p)" "lexer_left lx' \<le> left p"
    using lexer_peek_ascii [OF g, of "ex_unicode ex"] by blast
  have "good b f (p\<lparr>p_lexer := lx'\<rparr>)" using good_lexer [OF assms(1) n(2)] .
  with n assms(2) assms(3) [of "p\<lparr>p_lexer := lx'\<rparr>"] show ?thesis
    by (auto simp: p_peek_def wp_def on_def lex_def ret_def)
qed

lemma wp_peek_many:
  assumes "good b f p" and "peeked p \<le> k"
    and "\<And>t p'. good b f p' \<Longrightarrow> peeked p' \<le> k \<Longrightarrow> spanned p' = spanned p \<Longrightarrow> left p' \<le> left p \<Longrightarrow> Q t p'"
  shows "wp (p_peek_many ex k) Q p"
proof -
  have g: "lexer_good (p_lexer p)" using assms(1) by (simp add: good_def)
  obtain r lx' where n: "peek_many (ex_unicode ex) k (p_lexer p) = Some (r, lx')" "lexer_good lx'"
    "length (lx_peeked lx') \<le> k" "lexer_left lx' \<le> left p"
    using peek_many_ascii [OF g assms(2), of "ex_unicode ex"] by blast
  have "good b f (p\<lparr>p_lexer := lx'\<rparr>)" using good_lexer [OF assms(1) n(2)] .
  with n assms(3) [of "p\<lparr>p_lexer := lx'\<rparr>"] show ?thesis
    by (auto simp: p_peek_many_def wp_def lex_def)
qed

lemma wp_f_string_part:
  assumes "good b f p" and "peeked p \<le> 2"
    and "\<And>r p'. good b f p' \<Longrightarrow> peeked p' \<le> 2 \<Longrightarrow> spanned p' = spanned p \<Longrightarrow> left p' \<le> left p \<Longrightarrow> Q r p'"
  shows "wp (lex f_string_part) Q p"
proof -
  have g: "lexer_good (p_lexer p)" using assms(1) by (simp add: good_def)
  obtain r lx' where n: "f_string_part (p_lexer p) = Some (r, lx')" "lexer_good lx'"
    "lx_peeked lx' = lx_peeked (p_lexer p)" "lexer_left lx' \<le> left p"
    using f_string_part_ascii [OF g] by blast
  have "good b f (p\<lparr>p_lexer := lx'\<rparr>)" using good_lexer [OF assms(1) n(2)] .
  with n assms(2) assms(3) [of "p\<lparr>p_lexer := lx'\<rparr>"] show ?thesis
    by (auto simp: wp_def lex_def)
qed

lemma wp_take:
  assumes "good b f p" and "peeked p \<le> 3"
    and "\<And>sp p'. good b f p' \<Longrightarrow> peeked p' \<le> 2 \<Longrightarrow> spanned p' = spanned p \<Longrightarrow> left p' < left p \<Longrightarrow>
      span_file sp = f \<Longrightarrow> Q sp p'"
  shows "wp (take_token ex t) Q p"
  unfolding take_token_def by simp (rule wp_next [OF assms(1)], use assms(2,3) in auto)

lemma wp_peek_is:
  assumes "good b f p" and "peeked p \<le> 2"
    and "\<And>t p'. good b f p' \<Longrightarrow> peeked p' \<le> 2 \<Longrightarrow> spanned p' = spanned p \<Longrightarrow> left p' \<le> left p \<Longrightarrow> Q t p'"
  shows "wp (peek_is ex t) Q p"
  unfolding peek_is_def by simp (rule wp_peek [OF assms(1,2)], use assms(3) in auto)

text \<open>After a successful \<open>peek_is\<close> the next token is there, so \<open>unwrap\<close> does not panic.\<close>

lemma peek_then_next:
  assumes "p_peek ex p = Parsed (Some t) p'" and "good b f p"
  shows "\<exists>sp p''. p_next ex p' = Parsed (t, sp) p''"
proof -
  obtain r lx' where k: "lexer_peek (ex_unicode ex) (p_lexer p) = Some (r, lx')" and p': "p' = p\<lparr>p_lexer := lx'\<rparr>"
    and r: "(case r of Some (Some t, _) \<Rightarrow> Some t | _ \<Rightarrow> None) = Some t"
    using assms(1) by (auto simp: p_peek_def on_def lex_def ret_def split: option.splits)
  from r obtain sp where r': "r = Some (Some t, sp)" by (auto split: option.splits prod.splits)
  have "\<exists>ts. lx_peeked lx' = (Some t, sp) # ts"
  proof (cases "lx_peeked (p_lexer p)")
    case (Cons x ts)
    with k r' show ?thesis by (auto simp: lexer_peek_def)
  next
    case Nil
    with k r' obtain lx1 where n: "next_inner (ex_unicode ex) (p_lexer p) = Some (Some (Some t, sp), lx1)"
      and lx': "lx' = lx1\<lparr>lx_peeked := lx_peeked lx1 @ [(Some t, sp)]\<rparr>"
      by (auto simp: lexer_peek_def bind_eq_Some_conv split: option.splits)
    from assms(2) have "lexer_good (p_lexer p)" by (simp add: good_def)
    from next_inner_ascii [OF this, of "ex_unicode ex"] n Nil have "lx_peeked lx1 = []" by simp
    with lx' show ?thesis by simp
  qed
  then show ?thesis using p'
    by (auto simp: p_next_def on_def lex_def lexer_next_def the_parser_def ret_def)
qed

lemma wp_Parsed: "m p = Parsed x p' \<Longrightarrow> wp m Q p \<Longrightarrow> Q x p'"
  by (simp add: wp_def)

lemma peek_Parsed:
  assumes "good b f p" and "peeked p \<le> 2"
  obtains t p' where "p_peek ex p = Parsed t p'" "good b f p'" "peeked p' \<le> 2" "spanned p' = spanned p"
    "left p' \<le> left p"
proof -
  have "wp (p_peek ex) (\<lambda>t p'. good b f p' \<and> peeked p' \<le> 2 \<and> spanned p' = spanned p \<and> left p' \<le> left p) p"
    by (rule wp_peek [OF assms]) simp
  moreover have "\<nexists>e p'. p_peek ex p = Failed e p'"
    by (auto simp: p_peek_def on_def lex_def ret_def split: option.splits)
  ultimately show thesis using that unfolding wp_def by (cases "p_peek ex p") auto
qed

lemma next_Parsed:
  assumes "p_next ex p = Parsed (t, sp) p'" and "good b f p"
  shows "good b f p' \<and> peeked p' \<le> peeked p - 1 \<and> spanned p' = spanned p \<and> left p' < left p \<and>
    token_ok t \<and> span_file sp = f"
proof -
  have "wp (p_next ex) (\<lambda>(t, sp) p'. good b f p' \<and> peeked p' \<le> peeked p - 1 \<and> spanned p' = spanned p \<and>
      left p' < left p \<and> token_ok t \<and> span_file sp = f) p"
    by (rule wp_next [OF assms(2)]) simp
  with assms(1) show ?thesis by (simp add: wp_def)
qed

lemma wp_next_is:
  assumes "good b f p" and "peeked p \<le> 2"
    and "\<And>t p'. good b f p' \<Longrightarrow> peeked p' \<le> 2 \<Longrightarrow> spanned p' = spanned p \<Longrightarrow>
      left p' + (if t then 1 else 0) \<le> left p \<Longrightarrow> Q t p'"
  shows "wp (next_is ex t) Q p"
proof -
  obtain r p1 where k: "p_peek ex p = Parsed r p1" and g: "good b f p1" "peeked p1 \<le> 2" "spanned p1 = spanned p"
    "left p1 \<le> left p"
    using peek_Parsed [OF assms(1,2)] by blast
  show ?thesis
  proof (cases "r = Some t")
    case False
    with k g assms(3) [of p1 False] show ?thesis
      by (simp add: wp_def next_is_def peek_is_def on_def ret_def)
  next
    case True
    with k obtain sp p2 where n: "p_next ex p1 = Parsed (t, sp) p2"
      using peek_then_next assms(1) by blast
    have "good b f p2 \<and> peeked p2 \<le> 2 \<and> spanned p2 = spanned p \<and> left p2 < left p"
      using next_Parsed [OF n g(1)] g by auto
    with True k n assms(3) [of p2 True] show ?thesis
      by (simp add: wp_def next_is_def peek_is_def on_def ret_def unwrap_result_def)
  qed
qed

text \<open>Taking the token that was peeked.\<close>

definition ahead :: "extern \<Rightarrow> token \<Rightarrow> parser \<Rightarrow> bool" where
  "ahead ex t p \<longleftrightarrow> (\<exists>sp p'. p_next ex p = Parsed (t, sp) p')"

lemma wp_peek_ahead:
  assumes "good b f p" and "peeked p \<le> 2"
    and "\<And>t p'. good b f p' \<Longrightarrow> peeked p' \<le> 2 \<Longrightarrow> spanned p' = spanned p \<Longrightarrow> left p' \<le> left p \<Longrightarrow>
      \<forall>k. t = Some k \<longrightarrow> ahead ex k p' \<Longrightarrow> Q t p'"
  shows "wp (p_peek ex) Q p"
proof -
  obtain r p1 where k: "p_peek ex p = Parsed r p1" and g: "good b f p1" "peeked p1 \<le> 2" "spanned p1 = spanned p"
    "left p1 \<le> left p"
    using peek_Parsed [OF assms(1,2)] by blast
  have "\<forall>k. r = Some k \<longrightarrow> ahead ex k p1" using k peek_then_next assms(1) unfolding ahead_def by blast
  with k g assms(3) [of p1 r] show ?thesis by (simp add: wp_def)
qed

lemma wp_peek_is_ahead:
  assumes "good b f p" and "peeked p \<le> 2"
    and "\<And>c p'. good b f p' \<Longrightarrow> peeked p' \<le> 2 \<Longrightarrow> spanned p' = spanned p \<Longrightarrow> left p' \<le> left p \<Longrightarrow>
      c \<longrightarrow> ahead ex t p' \<Longrightarrow> Q c p'"
  shows "wp (peek_is ex t) Q p"
  unfolding peek_is_def by simp (rule wp_peek_ahead [OF assms(1,2)], use assms(3) in auto)

lemma wp_next_ahead:
  assumes "ahead ex t p" and "good b f p" and "peeked p \<le> 3"
    and "\<And>sp p'. good b f p' \<Longrightarrow> peeked p' \<le> 2 \<Longrightarrow> spanned p' = spanned p \<Longrightarrow> left p' < left p \<Longrightarrow>
      span_file sp = f \<Longrightarrow> Q (t, sp) p'"
  shows "wp (p_next ex) Q p"
proof -
  obtain sp p1 where n: "p_next ex p = Parsed (t, sp) p1" using assms(1) by (auto simp: ahead_def)
  from next_Parsed [OF n assms(2)] have "good b f p1 \<and> peeked p1 \<le> peeked p - 1 \<and> spanned p1 = spanned p \<and>
    left p1 < left p \<and> span_file sp = f" by simp
  moreover from this assms(3) have "peeked p1 \<le> 2" by linarith
  ultimately show ?thesis using n assms(4) [of p1 sp] by (simp add: wp_def)
qed

lemma wp_unwrap_take:
  assumes "ahead ex t p" and "good b f p" and "peeked p \<le> 3"
    and "\<And>sp p'. good b f p' \<Longrightarrow> peeked p' \<le> 2 \<Longrightarrow> spanned p' = spanned p \<Longrightarrow> left p' < left p \<Longrightarrow>
      span_file sp = f \<Longrightarrow> Q sp p'"
  shows "wp (unwrap_result (take_token ex t)) Q p"
proof -
  obtain sp p1 where n: "p_next ex p = Parsed (t, sp) p1" using assms(1) by (auto simp: ahead_def)
  have "wp (p_next ex) (\<lambda>(t, sp). Q sp) p" by (rule wp_next_ahead [OF assms(1-3)]) (use assms(4) in auto)
  with n show ?thesis by (simp add: wp_def unwrap_result_def take_token_def on_def ret_def)
qed

section \<open>Spans of this run\<close>

lemma wp_add_span:
  assumes "good b f p" and "span_file sp = f"
    and "\<And>m p'. good b f p' \<Longrightarrow> peeked p' = peeked p \<Longrightarrow> spanned p' = Suc (spanned p) \<Longrightarrow> left p' = left p \<Longrightarrow>
      mine b m (spanned p') \<Longrightarrow> Q m p'"
  shows "wp (add_span sp x) Q p"
proof -
  let ?p = "p\<lparr>p_spans := p_spans p\<lparr>span_table := span_table (p_spans p) @ [sp]\<rparr>\<rparr>"
  have "good b f ?p" using assms(1,2) by (auto simp: good_def nth_append less_Suc_eq)
  moreover have "mine b (Meta x (spanned p)) (spanned ?p)" using assms(1) by (simp add: mine_def good_def)
  ultimately show ?thesis using assms(3) [of ?p "Meta x (spanned p)"]
    by (simp add: wp_def add_span_def spans_add_def)
qed

lemma spans_get_mine:
  assumes "good b f p" and "mine b x (spanned p)"
  shows "\<exists>sp. spans_get (p_spans p) (meta_id x) = Some sp \<and> span_file sp = f"
  using assms by (auto simp: spans_get_def index_def good_def mine_def)

lemma wp_get_span:
  assumes "good b f p" and "mine b x (spanned p)" and "\<And>sp. span_file sp = f \<Longrightarrow> Q sp p"
  shows "wp (get_span x) Q p"
  using spans_get_mine [OF assms(1,2)] assms(3) by (auto simp: get_span_def span_of_id_def intro: wp_unwrap)

lemma wp_merge_spans:
  assumes "good b f p" and "mine b x (spanned p)" and "mine b y (spanned p)" and "\<And>sp. span_file sp = f \<Longrightarrow> Q sp p"
  shows "wp (merge_spans x y) Q p"
proof -
  obtain s t where "spans_get (p_spans p) (meta_id x) = Some s" "span_file s = f"
    "spans_get (p_spans p) (meta_id y) = Some t" "span_file t = f"
    using spans_get_mine [OF assms(1,2)] spans_get_mine [OF assms(1,3)] by blast
  then show ?thesis using assms(4)
    by (auto simp: merge_spans_def spans_merge_def span_merge_def intro!: wp_unwrap)
qed

lemma wp_merge:
  assumes "span_file x = f" and "span_file y = f" and "\<And>sp. span_file sp = f \<Longrightarrow> Q sp p"
  shows "wp (merge x y) Q p"
  using assms by (auto simp: merge_def span_merge_def intro!: wp_unwrap)

lemma wp_identifier_of:
  assumes "\<And>s. Q s p"
  shows "wp (lift_result (identifier_of t sp)) Q p"
  using assms by (auto intro: wp_lift_result)

lemma wp_if [simp]:
  "wp (if c then m else m') Q p \<longleftrightarrow> (c \<longrightarrow> wp m Q p) \<and> (\<not> c \<longrightarrow> wp m' Q p)"
  by simp

lemma good_file: "good b f p \<Longrightarrow> p_file p = f"
  by (simp add: good_def)

lemmas wp_rules = wp_take wp_next_is wp_add_span wp_get_span wp_merge_spans wp_merge wp_lift_result wp_f_string_part

end
