(* ===== verification/Expr_Grouping.thy ===== *)
theory Expr_Grouping
  imports Expr_Parser
begin

text \<open>
  What \<open>binop_expr\<close> of \<open>src/src/parser/expr.rs\<close> makes of a sequence of operands and operators: the one tree
  over them that is grouped as \<open>src/src/parser/precedence.rs\<close> prescribes.  A sequence it rejects because
  two operators cannot be chained has no grouped tree at all.
\<close>

section \<open>Grouped trees are unique\<close>

lemma grouped_root_least:
  "grouped t \<Longrightarrow> root_op t = Some r \<Longrightarrow> o1 \<in> set (operators t) \<Longrightarrow> precedence_of r \<le> precedence_of o1"
proof (induction t arbitrary: r o1)
  case (Node l op t')
  have l: "precedence_of op \<le> precedence_of o2" if "o2 \<in> set (operators l)" for o2
  proof (cases "root_op l")
    case None
    then show ?thesis using that by (cases l) auto
  next
    case (Some q)
    with Node.prems have "precedence_of op \<le> precedence_of q" by (auto simp: goes_left_def dest: relative_left_le)
    with Node.IH(1) [of q o2] Node.prems Some that show ?thesis by auto
  qed
  have r: "precedence_of op \<le> precedence_of o2" if "o2 \<in> set (operators t')" for o2
  proof (cases "root_op t'")
    case None
    then show ?thesis using that by (cases t') auto
  next
    case (Some q)
    with Node.prems have "precedence_of op < precedence_of q" by (auto simp: goes_right_def relative_right_iff)
    with Node.IH(2) [of q o2] Node.prems Some that show ?thesis by auto
  qed
  from l r Node.prems show ?case by auto
qed simp

lemma grouped_right:
  assumes "grouped (Node l op r)" and "o1 \<in> set (operators r)"
  shows "precedence_of op < precedence_of o1"
proof (cases "root_op r")
  case None
  then show ?thesis using assms by (cases r) auto
next
  case (Some q)
  with assms have "precedence_of op < precedence_of q" by (auto simp: goes_right_def relative_right_iff)
  with grouped_root_least [of r q o1] Some assms show ?thesis by auto
qed

lemma grouped_left:
  assumes "grouped (Node l op r)" and "o1 \<in> set (operators l)"
  shows "precedence_of op \<le> precedence_of o1"
  using grouped_root_least [OF assms(1), of op o1] assms(2) by simp

text \<open>The root is the last operator of the least precedence.\<close>

lemma last_least_unique:
  assumes "a @ x # b = a' @ y # b'"
    and "\<forall>z \<in> set a. precedence_of x \<le> precedence_of z" and "\<forall>z \<in> set b. precedence_of x < precedence_of z"
    and "\<forall>z \<in> set a'. precedence_of y \<le> precedence_of z" and "\<forall>z \<in> set b'. precedence_of y < precedence_of z"
  shows "a = a' \<and> x = y \<and> b = b'"
proof -
  from assms(1) obtain us where
    "a = a' @ us \<and> us @ x # b = y # b' \<or> a @ us = a' \<and> x # b = us @ y # b'"
    by (auto simp: append_eq_append_conv2)
  then show ?thesis using assms(2-) by (cases us) (auto simp: not_le [symmetric])
qed

lemma grouped_unique:
  "grouped t \<Longrightarrow> grouped u \<Longrightarrow> operands t = operands u \<Longrightarrow> operators t = operators u \<Longrightarrow> t = u"
proof (induction t arbitrary: u)
  case (Operand x)
  then show ?case by (cases u) auto
next
  case (Node l op r)
  from Node.prems(4) obtain l' op' r' where u: "u = Node l' op' r'" by (cases u) auto
  have split: "operators l = operators l' \<and> op = op' \<and> operators r = operators r'"
    using Node.prems u grouped_left grouped_right
    by (intro last_least_unique) (simp, blast+)
  moreover from this have "length (operands l) = length (operands l')" by (simp add: length_operands)
  with Node.prems(3) u have "operands l = operands l'" "operands r = operands r'" by simp_all
  ultimately show ?case using Node.IH Node.prems u by simp
qed

text \<open>Two operators of one precedence with only tighter ones between them meet in a grouped tree.\<close>

lemma grouped_chained:
  "grouped t \<Longrightarrow> operators t = a @ x # m @ y # b \<Longrightarrow> precedence_of x = precedence_of y \<Longrightarrow>
    \<forall>z \<in> set m. precedence_of x < precedence_of z \<Longrightarrow> relative_associativity x y = AssocLeft"
proof (induction t arbitrary: a b)
  case (Node l op r)
  have ops: "operators l @ op # operators r = (a @ x # m) @ y # b" using Node.prems(2) by simp
  then consider us where "operators l = (a @ x # m) @ y # us" | "op = y" "operators l = a @ x # m"
    | us where "a @ x # m = operators l @ op # us" "operators r = us @ y # b"
    by (auto simp: append_eq_append_conv2 append_eq_Cons_conv Cons_eq_append_conv)
  then show ?case
  proof cases
    case 1
    with Node.IH(1) [of a us] Node.prems show ?thesis by simp
  next
    case 2
    then obtain q l1 l2 where l: "l = Node l1 q l2" by (cases l) auto
    then have gl: "grouped (Node l1 q l2)" and left: "relative_associativity q y = AssocLeft"
      using Node.prems(1) 2 by (auto simp: goes_left_def)
    have "x \<in> set (operators l)" unfolding 2(2) by simp
    then have qx: "precedence_of q \<le> precedence_of x"
      using grouped_root_least [OF gl, of q x] l by simp
    have yq: "precedence_of y \<le> precedence_of q" using left by (rule relative_left_le)
    have same: "precedence_of q = precedence_of x" using qx yq Node.prems(3) by simp
    have "operators l1 = a \<and> q = x \<and> operators l2 = m"
    proof (rule last_least_unique)
      show "operators l1 @ q # operators l2 = a @ x # m" using 2 l by simp
      show "\<forall>z \<in> set a. precedence_of x \<le> precedence_of z"
      proof
        fix z assume "z \<in> set a"
        then have "z \<in> set (operators l)" unfolding 2(2) by simp
        then show "precedence_of x \<le> precedence_of z" using grouped_root_least [OF gl, of q z] l same by simp
      qed
    qed (use gl grouped_left grouped_right Node.prems(4) in blast)+
    with left show ?thesis by simp
  next
    case 3
    show ?thesis
    proof (cases "\<exists>vs. us = vs @ x # m")
      case True
      then obtain vs where "us = vs @ x # m" by blast
      with Node.IH(2) [of vs b] Node.prems 3 show ?thesis by simp
    next
      case False
      with 3(1) have "op = x \<or> op \<in> set m"
        by (auto simp: append_eq_append_conv2 append_eq_Cons_conv Cons_eq_append_conv)
      moreover have "precedence_of op < precedence_of y"
        using grouped_right [OF Node.prems(1), of y] 3(2) by simp
      ultimately show ?thesis using Node.prems(3,4) by (auto simp: less_precedence_def)
    qed
  qed
qed simp

section \<open>Peeking twice\<close>

definition keeps_peeked :: "(lexer \<Rightarrow> lexed) \<Rightarrow> bool" where
  "keeps_peeked f \<longleftrightarrow> (\<forall>lx r lx'. f lx = Some (r, lx') \<longrightarrow> lx_peeked lx' = lx_peeked lx)"

lemma keeps_or_else: "keeps_peeked f \<Longrightarrow> keeps_peeked g \<Longrightarrow> keeps_peeked (or_else f g)"
  unfolding keeps_peeked_def or_else_def by (fastforce simp: bind_eq_Some_conv split: option.splits)

lemma bump_peeked: "bump n lx = Some (a, r, lx') \<Longrightarrow> lx_peeked lx' = lx_peeked lx"
  by (auto simp: bump_def bind_eq_Some_conv)

lemma bump_to_peeked: "bump_to t lx = Some (a, r, lx') \<Longrightarrow> lx_peeked lx' = lx_peeked lx"
  by (auto simp: bump_to_def bind_eq_Some_conv dest: bump_peeked)

lemma emit_peeked: "emit t mk lx = Some (r, lx') \<Longrightarrow> lx_peeked lx' = lx_peeked lx"
  by (auto simp: emit_def bind_eq_Some_conv dest: bump_to_peeked)

lemmas peeked_dests = bump_peeked bump_to_peeked emit_peeked

lemma keeps_forms:
  "keeps_peeked ipv6" "keeps_peeked ipv4" "keeps_peeked two_char_punctuation" "keeps_peeked one_char_punctuation"
  "keeps_peeked as_number" "keeps_peeked hex_number" "keeps_peeked f_string"
  "keeps_peeked lex_string" "keeps_peeked lex_char"
  unfolding keeps_peeked_def ipv6_def ipv4_def two_char_punctuation_def one_char_punctuation_def as_number_def
    hex_number_def f_string_def lex_string_def lex_char_def Let_def
  by (auto simp: bind_eq_Some_conv dest!: peeked_dests split: option.splits prod.splits bool.splits if_splits)

lemma keeps_number: "keeps_peeked (number uni)"
  unfolding keeps_peeked_def number_def Let_def
  by (auto simp: bind_eq_Some_conv dest!: peeked_dests split: option.splits prod.splits bool.splits if_splits)

lemma keeps_keyword: "keeps_peeked (keyword_or_ident uni)"
  unfolding keeps_peeked_def
proof (intro allI impI)
  fix lx r lx' assume a: "keyword_or_ident uni lx = Some (r, lx')"
  show "lx_peeked lx' = lx_peeked lx"
  proof (cases "lx_input lx = [] \<or> \<not> (xid_start uni (hd (lx_input lx)) \<or> hd (lx_input lx) = ch CHR ''_'')")
    case True
    with a show ?thesis by (auto simp: keyword_or_ident_def split: list.splits)
  next
    case False
    with a obtain tail ident sp lx1 where b: "bump_to tail lx = Some (ident, sp, lx1)"
      and r: "lx' = lx1 \<or> lx' = record_almost_keyword ident sp lx1"
      by (cases "lx_input lx")
        (simp_all add: keyword_or_ident_def bind_eq_Some_conv split: option.splits if_splits, blast+)
    from bump_to_peeked [OF b] r show ?thesis by auto
  qed
qed

lemma keeps_next_token: "keeps_peeked (next_token uni)"
proof -
  have "keeps_peeked (foldr or_else
        [ipv6, ipv4, two_char_punctuation, one_char_punctuation, as_number, hex_number, number uni,
         f_string, lex_string, lex_char, keyword_or_ident uni]
        (\<lambda>lx. Some (None, lx)))"
    by (simp only: foldr.simps comp_apply id_apply)
      (intro keeps_or_else keeps_forms keeps_number keeps_keyword, simp add: keeps_peeked_def)
  moreover have "lx_peeked lx1 = lx_peeked lx" if "skip_whitespace lx = Some lx1" for lx lx1
    using that by (auto simp: skip_whitespace_def Let_def dest: bump_to_peeked split: if_splits)
  ultimately show ?thesis
    unfolding keeps_peeked_def next_token_def bind_eq_Some_conv by (fastforce simp del: foldr.simps split: if_splits)
qed

lemma next_inner_peeked:
  assumes "next_inner uni lx = Some (r, lx')"
  shows "lx_peeked lx' = lx_peeked lx \<and> (r = None \<longrightarrow> lx_input lx' = [])"
  using assms keeps_next_token [of uni] unfolding keeps_peeked_def next_inner_def
  by (fastforce simp: bind_eq_Some_conv split: option.splits prod.splits if_splits)

lemma next_inner_end:
  assumes "lx_input lx = []"
  shows "next_inner uni lx = Some (None, lx)"
proof -
  have "skip_trivia [] = []" by (subst skip_trivia.simps) (simp add: eat_whitespace_def eat_str_def lit_def)
  with assms show ?thesis by (simp add: next_inner_def next_token_def skip_whitespace_def)
qed

lemma lexer_peek_twice:
  assumes "lexer_peek uni lx = Some (r, lx')"
  shows "lexer_peek uni lx' = Some (r, lx')"
proof (cases "lx_peeked lx")
  case Nil
  with assms obtain r1 lx1 where n: "next_inner uni lx = Some (r1, lx1)"
    and res: "(case r1 of None \<Rightarrow> Some (None, lx1) | Some t \<Rightarrow> Some (Some t, lx1\<lparr>lx_peeked := lx_peeked lx1 @ [t]\<rparr>)) = Some (r, lx')"
    by (auto simp: lexer_peek_def bind_eq_Some_conv)
  from next_inner_peeked [OF n] Nil have 1: "lx_peeked lx1 = []" "r1 = None \<longrightarrow> lx_input lx1 = []" by simp_all
  show ?thesis
  proof (cases r1)
    case None
    with 1 res next_inner_end [of lx1 uni] show ?thesis by (simp add: lexer_peek_def)
  next
    case (Some t)
    with 1 res show ?thesis by (auto simp: lexer_peek_def)
  qed
qed (use assms in \<open>auto simp: lexer_peek_def\<close>)

lemma peek_binop_twice:
  assumes "peek_binop ex p = Parsed r p1"
  shows "peek_binop ex (p1\<lparr>p_spans := s\<rparr>) = Parsed r (p1\<lparr>p_spans := s\<rparr>)"
proof -
  obtain t lx where l: "lexer_peek (ex_unicode ex) (p_lexer p) = Some (t, lx)" and p1: "p1 = p\<lparr>p_lexer := lx\<rparr>"
    and r: "r = Option.bind (case t of Some (Some t, _) \<Rightarrow> Some t | _ \<Rightarrow> None) binop_of_token"
    using assms by (auto simp: peek_binop_def p_peek_def on_def lex_def ret_def split: option.splits)
  from lexer_peek_twice [OF l] p1 r show ?thesis
    by (simp add: peek_binop_def p_peek_def on_def lex_def ret_def)
qed

section \<open>The run of \<open>binop_expr\<close>\<close>

lemma peek_binop_spans:
  "peek_binop ex (p\<lparr>p_spans := s\<rparr>) = Parsed r q \<longleftrightarrow>
    (\<exists>p1. peek_binop ex p = Parsed r p1 \<and> q = p1\<lparr>p_spans := s\<rparr>)"
  by (auto simp: peek_binop_def p_peek_def on_def lex_def ret_def split: option.splits)

text \<open>
  The operands and operators a run reads: an operand, and then any number of operators with an operand
  behind each.  Between two of these steps the run only adds spans and looks at the next token.
\<close>

definition same_input :: "extern \<Rightarrow> parser \<Rightarrow> parser \<Rightarrow> bool" where
  "same_input ex p q \<longleftrightarrow> (\<exists>s p1. (p1 = p \<or> (\<exists>r. peek_binop ex p = Parsed r p1)) \<and> q = p1\<lparr>p_spans := s\<rparr>)"

lemma same_input_refl [simp]: "same_input ex p p"
  unfolding same_input_def by (intro exI [of _ "p_spans p"] exI [of _ p]) simp

lemma same_input_spans: "same_input ex p (p\<lparr>p_spans := s\<rparr>)"
  unfolding same_input_def by blast

lemma same_input_peek:
  assumes "peek_binop ex p = Parsed r q"
  shows "same_input ex p q"
  unfolding same_input_def by (intro exI [of _ "p_spans q"] exI [of _ q]) (use assms in auto)

lemma peek_binop_again: "peek_binop ex p = Parsed r p1 \<Longrightarrow> peek_binop ex p1 = Parsed r p1"
  using peek_binop_twice [of ex p r p1 "p_spans p1"] by simp

lemma same_input_trans:
  assumes "same_input ex p q" and "same_input ex q r"
  shows "same_input ex p r"
proof -
  obtain s p1 where p1: "p1 = p \<or> (\<exists>x. peek_binop ex p = Parsed x p1)" and q: "q = p1\<lparr>p_spans := s\<rparr>"
    using assms(1) by (auto simp: same_input_def)
  obtain s' q1 where q1: "q1 = q \<or> (\<exists>x. peek_binop ex q = Parsed x q1)" and r: "r = q1\<lparr>p_spans := s'\<rparr>"
    using assms(2) by (auto simp: same_input_def)
  have "\<exists>p2. (p2 = p1 \<or> (\<exists>x. peek_binop ex p1 = Parsed x p2)) \<and> r = p2\<lparr>p_spans := s'\<rparr>"
  proof (cases "q1 = q")
    case True
    then show ?thesis using q r by (intro exI [of _ p1]) simp
  next
    case False
    with q1 q obtain x where "peek_binop ex (p1\<lparr>p_spans := s\<rparr>) = Parsed x q1" by blast
    then obtain p2 where "peek_binop ex p1 = Parsed x p2" "q1 = p2\<lparr>p_spans := s\<rparr>"
      unfolding peek_binop_spans by blast
    then show ?thesis using r by (intro exI [of _ p2]) simp
  qed
  then obtain p2 where "p2 = p1 \<or> (\<exists>x. peek_binop ex p1 = Parsed x p2)" and r': "r = p2\<lparr>p_spans := s'\<rparr>" by blast
  with p1 have "p2 = p \<or> (\<exists>x. peek_binop ex p = Parsed x p2)" using peek_binop_again by fastforce
  with r' show ?thesis by (auto simp: same_input_def)
qed

inductive operand_chain :: "extern \<Rightarrow> expr meta parse \<Rightarrow> parser \<Rightarrow> expr meta list \<Rightarrow> bin_op list \<Rightarrow> parser \<Rightarrow> bool"
  for ex neg where
  first: "neg p = Parsed x q \<Longrightarrow> operand_chain ex neg p [x] [] q"
| operator: "operand_chain ex neg p xs ops q \<Longrightarrow> same_input ex q q1 \<Longrightarrow>
    peek_binop ex q1 = Parsed (Some op) q2 \<Longrightarrow> p_next ex q2 = Parsed t q3 \<Longrightarrow>
    operand_chain ex neg q3 ys ops' q4 \<Longrightarrow> operand_chain ex neg p (xs @ ys) (ops @ op # ops') q4"

text \<open>The tree of an expression, down to the operands.\<close>

fun tree_of :: "expr meta op_tree \<Rightarrow> expr meta \<Rightarrow> bool" where
  "tree_of (Operand y) x \<longleftrightarrow> x = y"
| "tree_of (Node l op r) x \<longleftrightarrow>
     (case node x of EBinOp a op' b \<Rightarrow> op' = op \<and> tree_of l a \<and> tree_of r b | _ \<Rightarrow> False)"

definition stops :: "extern \<Rightarrow> bin_op option \<Rightarrow> parser \<Rightarrow> bool" where
  "stops ex prev p \<longleftrightarrow> (\<exists>r p0. peek_binop ex p0 = Parsed r p \<and>
     (\<forall>op. r = Some op \<longrightarrow> (\<exists>a. prev = Some a \<and> relative_associativity a op = AssocLeft)))"

lemma stops_again: "stops ex prev p \<Longrightarrow> \<exists>r. peek_binop ex p = Parsed r p \<and>
     (\<forall>op. r = Some op \<longrightarrow> (\<exists>a. prev = Some a \<and> relative_associativity a op = AssocLeft))"
  by (auto simp: stops_def dest: peek_binop_again)

lemma stops_peek:
  assumes "stops ex prev p" and "peek_binop ex p = Parsed (Some op) q"
  shows "goes_left prev op \<and> prev \<noteq> None"
  using stops_again [OF assms(1)] assms(2) by (auto simp: goes_left_def)

lemma stops_same:
  assumes "stops ex prev p" and "same_input ex p q"
  shows "stops ex prev q"
proof -
  obtain r where r: "peek_binop ex p = Parsed r p" and l: "\<forall>op. r = Some op \<longrightarrow> (\<exists>a. prev = Some a \<and> relative_associativity a op = AssocLeft)"
    using stops_again [OF assms(1)] by blast
  from assms(2) r obtain s where q: "q = p\<lparr>p_spans := s\<rparr>" by (auto simp: same_input_def)
  from peek_binop_twice [OF r, of s] q have "peek_binop ex q = Parsed r q" by simp
  with l show ?thesis unfolding stops_def by blast
qed

lemma on_Parsed: "on m f p = Parsed x p' \<Longrightarrow> \<exists>y q. m p = Parsed y q \<and> f y q = Parsed x p'"
  by (auto simp: on_def split: parsed.splits)

lemma add_span_same: "add_span sp x p = Parsed y q \<Longrightarrow> same_input ex p q \<and> node y = x"
  by (auto simp: add_span_def spans_add_def same_input_spans)

lemma merge_spans_same: "merge_spans x y p = Parsed sp q \<Longrightarrow> q = p"
  by (auto simp: merge_spans_def on_def the_parser_def unwrap_def panic_def ret_def split: option.splits)

text \<open>The loop has read a grouped tree whose operators all bind tighter than \<open>prev\<close>.\<close>

definition read_so_far :: "extern \<Rightarrow> expr meta parse \<Rightarrow> bin_op option \<Rightarrow> parser \<Rightarrow> expr meta \<Rightarrow> expr meta op_tree
    \<Rightarrow> parser \<Rightarrow> bool" where
  "read_so_far ex neg prev p0 x t p \<longleftrightarrow>
     (\<exists>q. operand_chain ex neg p0 (operands t) (operators t) q \<and> same_input ex q p) \<and>
     tree_of t x \<and> grouped t \<and> (\<forall>a. prev = Some a \<longrightarrow> goes_right a (root_op t)) \<and>
     (t = Operand x \<or> stops ex (root_op t) p)"

text \<open>One round of the loop.\<close>

lemma binop_loop_round:
  "binop_loop (Suc n) ex neg prev lhs = on (peek_binop ex) (\<lambda>r. case r of
       None \<Rightarrow> ret lhs
     | Some op \<Rightarrow>
         if \<exists>a. prev = Some a \<and> relative_associativity a op = AssocLeft then ret lhs
         else if \<exists>a. prev = Some a \<and> relative_associativity a op = AssocNot
         then on (p_next ex) (\<lambda>(_, sp). fail (chain_error op (the prev) sp))
         else on (p_next ex) (\<lambda>_. on (binop_expr n ex neg (Some op)) (\<lambda>rhs.
           on (merge_spans lhs rhs) (\<lambda>sp.
           on (add_span sp (EBinOp lhs op rhs)) (\<lambda>lhs'. binop_loop n ex neg prev lhs')))))"
  unfolding binop_loop.simps
  by (rule arg_cong [of _ _ "on (peek_binop ex)"])
    (auto simp: fun_eq_iff split: option.splits associativity.splits)

lemma binop_loop_Parsed:
  assumes "binop_loop (Suc n) ex neg prev lhs p = Parsed x p'"
  obtains (stop) "x = lhs" and "stops ex prev p'" and "same_input ex p p'"
  | (go) op p1 t p2 rhs p3 lhs' p4 where "peek_binop ex p = Parsed (Some op) p1"
      and "\<forall>a. prev = Some a \<longrightarrow> goes_right a (Some op)"
      and "p_next ex p1 = Parsed t p2" and "binop_expr n ex neg (Some op) p2 = Parsed rhs p3"
      and "same_input ex p3 p4" and "node lhs' = EBinOp lhs op rhs" and "binop_loop n ex neg prev lhs' p4 = Parsed x p'"
proof -
  obtain r p1 where k: "peek_binop ex p = Parsed r p1" and c: "(case r of
       None \<Rightarrow> ret lhs
     | Some op \<Rightarrow>
         if \<exists>a. prev = Some a \<and> relative_associativity a op = AssocLeft then ret lhs
         else if \<exists>a. prev = Some a \<and> relative_associativity a op = AssocNot
         then on (p_next ex) (\<lambda>(_, sp). fail (chain_error op (the prev) sp))
         else on (p_next ex) (\<lambda>_. on (binop_expr n ex neg (Some op)) (\<lambda>rhs.
           on (merge_spans lhs rhs) (\<lambda>sp.
           on (add_span sp (EBinOp lhs op rhs)) (\<lambda>lhs'. binop_loop n ex neg prev lhs'))))) p1 = Parsed x p'"
    using on_Parsed [OF assms [unfolded binop_loop_round]] by blast
  show thesis
  proof (cases "r = None \<or> (\<exists>op a. r = Some op \<and> prev = Some a \<and> relative_associativity a op = AssocLeft)")
    case True
    with c have "x = lhs" "p' = p1" by (auto simp: ret_def)
    moreover have "stops ex prev p1" using k True by (auto simp: stops_def)
    ultimately show thesis using stop same_input_peek [OF k] by simp
  next
    case False
    then obtain op where op: "r = Some op" "\<not> (\<exists>a. prev = Some a \<and> relative_associativity a op = AssocLeft)" by auto
    have right: "\<not> (\<exists>a. prev = Some a \<and> relative_associativity a op = AssocNot)"
      using c op by (auto simp: fail_def dest!: on_Parsed)
    with c op have "on (p_next ex) (\<lambda>_. on (binop_expr n ex neg (Some op)) (\<lambda>rhs.
           on (merge_spans lhs rhs) (\<lambda>sp.
           on (add_span sp (EBinOp lhs op rhs)) (\<lambda>lhs'. binop_loop n ex neg prev lhs')))) p1 = Parsed x p'" by simp
    from on_Parsed [OF this] obtain t p2 where t: "p_next ex p1 = Parsed t p2"
      and c1: "on (binop_expr n ex neg (Some op)) (\<lambda>rhs. on (merge_spans lhs rhs) (\<lambda>sp.
           on (add_span sp (EBinOp lhs op rhs)) (\<lambda>lhs'. binop_loop n ex neg prev lhs'))) p2 = Parsed x p'" by blast
    from on_Parsed [OF c1] obtain rhs p3 where rhs: "binop_expr n ex neg (Some op) p2 = Parsed rhs p3"
      and c2: "on (merge_spans lhs rhs) (\<lambda>sp.
           on (add_span sp (EBinOp lhs op rhs)) (\<lambda>lhs'. binop_loop n ex neg prev lhs')) p3 = Parsed x p'" by blast
    from on_Parsed [OF c2] obtain sp where
      c3: "on (add_span sp (EBinOp lhs op rhs)) (\<lambda>lhs'. binop_loop n ex neg prev lhs') p3 = Parsed x p'"
      using merge_spans_same by blast
    from on_Parsed [OF c3] obtain lhs' p4 where steps: "add_span sp (EBinOp lhs op rhs) p3 = Parsed lhs' p4"
      "binop_loop n ex neg prev lhs' p4 = Parsed x p'" by blast
    have "\<forall>a. prev = Some a \<longrightarrow> goes_right a (Some op)"
      using right op(2) associativity.exhaust by (auto simp: goes_right_def)
    with add_span_same [OF steps(1)] show thesis using go k op(1) t rhs steps(2) by blast
  qed
qed

lemma read_so_far_step:
  assumes r: "read_so_far ex neg prev p0 lhs t p" and pk: "peek_binop ex p = Parsed (Some op) p1"
    and right: "\<forall>a. prev = Some a \<longrightarrow> goes_right a (Some op)" and nx: "p_next ex p1 = Parsed tok p2"
    and rhs: "read_so_far ex neg (Some op) p2 rhs u p3" "stops ex (Some op) p3"
    and p4: "same_input ex p3 p4" "node lhs' = EBinOp lhs op rhs"
  shows "read_so_far ex neg prev p0 lhs' (Node t op u) p4"
proof -
  have gl: "goes_left (root_op t) op"
    using r stops_peek [OF _ pk] by (auto simp: read_so_far_def goes_left_def)
  obtain q where q: "operand_chain ex neg p0 (operands t) (operators t) q" "same_input ex q p"
    using r by (auto simp: read_so_far_def)
  obtain q' where q': "operand_chain ex neg p2 (operands u) (operators u) q'" "same_input ex q' p3"
    using rhs by (auto simp: read_so_far_def)
  from operand_chain.operator [OF q pk nx q'(1)] same_input_trans [OF q'(2) p4(1)]
  have "\<exists>q. operand_chain ex neg p0 (operands (Node t op u)) (operators (Node t op u)) q \<and> same_input ex q p4" by auto
  then show ?thesis
    using r rhs p4 right gl stops_same [OF rhs(2) p4(1)] by (simp add: read_so_far_def)
qed

lemma binop_reads:
  shows "binop_expr n ex neg prev p0 = Parsed x p' \<Longrightarrow> \<exists>t. read_so_far ex neg prev p0 x t p' \<and> stops ex prev p'"
    and "binop_loop n ex neg prev lhs p = Parsed x p' \<Longrightarrow> read_so_far ex neg prev p0 lhs t p \<Longrightarrow>
      \<exists>t. read_so_far ex neg prev p0 x t p' \<and> stops ex prev p'"
proof (induction n arbitrary: prev p0 p p' x lhs t)
  case (Suc n)
  {
    case 1
    then obtain lhs p where n: "neg p0 = Parsed lhs p" and l: "binop_loop n ex neg prev lhs p = Parsed x p'"
      by (auto dest!: on_Parsed)
    have "read_so_far ex neg prev p0 lhs (Operand lhs) p"
      using n by (auto simp: read_so_far_def goes_right_def intro: operand_chain.first)
    from Suc.IH(2) [OF l this] show ?case .
  next
    case 2
    from 2(1) show ?case
    proof (cases rule: binop_loop_Parsed)
      case stop
      with 2(2) show ?thesis using same_input_trans stops_same unfolding read_so_far_def by blast
    next
      case (go op p1 tok p2 rhs p3 lhs' p4)
      from Suc.IH(1) [OF go(4)] obtain u where "read_so_far ex neg (Some op) p2 rhs u p3" "stops ex (Some op) p3" by blast
      from Suc.IH(2) [OF go(7) read_so_far_step [OF 2(2) go(1,2,3) this go(5,6)]] show ?thesis .
    qed

  }
qed (auto)

section \<open>Why it fails\<close>

lemma on_Failed: "on m f p = Failed e p' \<Longrightarrow> m p = Failed e p' \<or> (\<exists>y q. m p = Parsed y q \<and> f y q = Failed e p')"
  by (auto simp: on_def split: parsed.splits)

lemma never_fails:
  "peek_binop ex p \<noteq> Failed e q" "merge_spans x y p \<noteq> Failed e q" "add_span sp z p \<noteq> Failed e q"
  by (auto simp: peek_binop_def p_peek_def on_def lex_def ret_def merge_spans_def the_parser_def unwrap_def panic_def
      add_span_def spans_add_def split: option.splits)

lemma lexer_peek_next:
  assumes "lexer_peek uni lx = Some (Some t, lx')"
  shows "\<exists>lx2. lexer_next uni lx' = Some (Some t, lx2)"
proof (cases "lx_peeked lx'")
  case Nil
  with lexer_peek_twice [OF assms] obtain r lx1 where
    "(case r of None \<Rightarrow> Some (None, lx1) | Some t \<Rightarrow> Some (Some t, lx1\<lparr>lx_peeked := lx_peeked lx1 @ [t]\<rparr>)) = Some (Some t, lx')"
    by (auto simp: lexer_peek_def bind_eq_Some_conv)
  with Nil show ?thesis by (cases r) auto
next
  case (Cons u us)
  with lexer_peek_twice [OF assms] show ?thesis by (simp add: lexer_peek_def lexer_next_def)
qed

lemma peek_binop_next:
  assumes "peek_binop ex p = Parsed (Some op) p1"
  shows "\<exists>t p2. p_next ex p1 = Parsed t p2"
proof -
  obtain r lx where l: "lexer_peek (ex_unicode ex) (p_lexer p) = Some (r, lx)" and p1: "p1 = p\<lparr>p_lexer := lx\<rparr>"
    and r: "Option.bind (case r of Some (Some t, _) \<Rightarrow> Some t | _ \<Rightarrow> None) binop_of_token = Some op"
    using assms by (auto simp: peek_binop_def p_peek_def on_def lex_def ret_def split: option.splits)
  from r obtain t rg where "r = Some (Some t, rg)"
    by (cases r; cases "the r"; cases "fst (the r)") auto
  with l have "lexer_peek (ex_unicode ex) (p_lexer p) = Some (Some (Some t, rg), lx)" by simp
  from lexer_peek_next [OF this] p1 show ?thesis
    by (auto simp: p_next_def on_def lex_def the_parser_def ret_def)
qed

lemma binop_loop_Failed:
  assumes "binop_loop (Suc n) ex neg prev lhs p = Failed e p'"
  obtains (chain) op a p1 tok sp where "peek_binop ex p = Parsed (Some op) p1" and "prev = Some a"
      and "relative_associativity a op = AssocNot" and "p_next ex p1 = Parsed (tok, sp) p'" and "e = chain_error op a sp"
  | (rhs) op p1 t p2 where "peek_binop ex p = Parsed (Some op) p1" and "\<forall>a. prev = Some a \<longrightarrow> goes_right a (Some op)"
      and "p_next ex p1 = Parsed t p2" and "binop_expr n ex neg (Some op) p2 = Failed e p'"
  | (rest) op p1 t p2 rhs p3 lhs' p4 where "peek_binop ex p = Parsed (Some op) p1"
      and "\<forall>a. prev = Some a \<longrightarrow> goes_right a (Some op)"
      and "p_next ex p1 = Parsed t p2" and "binop_expr n ex neg (Some op) p2 = Parsed rhs p3"
      and "same_input ex p3 p4" and "node lhs' = EBinOp lhs op rhs" and "binop_loop n ex neg prev lhs' p4 = Failed e p'"
proof -
  obtain r p1 where k: "peek_binop ex p = Parsed r p1" and c: "(case r of
       None \<Rightarrow> ret lhs
     | Some op \<Rightarrow>
         if \<exists>a. prev = Some a \<and> relative_associativity a op = AssocLeft then ret lhs
         else if \<exists>a. prev = Some a \<and> relative_associativity a op = AssocNot
         then on (p_next ex) (\<lambda>(_, sp). fail (chain_error op (the prev) sp))
         else on (p_next ex) (\<lambda>_. on (binop_expr n ex neg (Some op)) (\<lambda>rhs.
           on (merge_spans lhs rhs) (\<lambda>sp.
           on (add_span sp (EBinOp lhs op rhs)) (\<lambda>lhs'. binop_loop n ex neg prev lhs'))))) p1 = Failed e p'"
    using on_Failed [OF assms [unfolded binop_loop_round]] never_fails by blast
  have "r \<noteq> None" using c by (intro notI) (simp add: ret_def)
  then obtain op where r: "r = Some op" by blast
  have "\<not> (\<exists>a. prev = Some a \<and> relative_associativity a op = AssocLeft)"
    using c r by (intro notI) (simp add: ret_def)
  note op = r this
  obtain t p2 where t: "p_next ex p1 = Parsed t p2" using peek_binop_next k op(1) by blast
  show thesis
  proof (cases "\<exists>a. prev = Some a \<and> relative_associativity a op = AssocNot")
    case True
    then obtain a where "prev = Some a" "relative_associativity a op = AssocNot" by blast
    moreover have "p2 = p'" "e = chain_error op (the prev) (snd t)"
      using c op True t by (simp_all add: on_def fail_def split: prod.splits)
    ultimately show thesis using chain [of op p1 a "fst t" "snd t"] k t op(1) by simp
  next
    case False
    with op(2) have right: "\<forall>a. prev = Some a \<longrightarrow> goes_right a (Some op)"
      using associativity.exhaust by (auto simp: goes_right_def)
    from c op False t have c1: "on (binop_expr n ex neg (Some op)) (\<lambda>rhs. on (merge_spans lhs rhs) (\<lambda>sp.
           on (add_span sp (EBinOp lhs op rhs)) (\<lambda>lhs'. binop_loop n ex neg prev lhs'))) p2 = Failed e p'"
      by (simp add: on_def)
    show thesis
    proof (cases "binop_expr n ex neg (Some op) p2 = Failed e p'")
      case True
      then show thesis using rhs k op(1) right t by blast
    next
      case False
      with on_Failed [OF c1] obtain y p3 where y: "binop_expr n ex neg (Some op) p2 = Parsed y p3" and
        c2: "on (merge_spans lhs y) (\<lambda>sp.
           on (add_span sp (EBinOp lhs op y)) (\<lambda>lhs'. binop_loop n ex neg prev lhs')) p3 = Failed e p'" by blast
      from on_Failed [OF c2] never_fails(2) obtain sp q where m: "merge_spans lhs y p3 = Parsed sp q"
        and "on (add_span sp (EBinOp lhs op y)) (\<lambda>lhs'. binop_loop n ex neg prev lhs') q = Failed e p'" by blast
      then have c3: "on (add_span sp (EBinOp lhs op y)) (\<lambda>lhs'. binop_loop n ex neg prev lhs') p3 = Failed e p'"
        using merge_spans_same [OF m] by simp
      from on_Failed [OF c3] obtain lhs' p4 where s: "add_span sp (EBinOp lhs op y) p3 = Parsed lhs' p4"
        "binop_loop n ex neg prev lhs' p4 = Failed e p'" by (auto simp: never_fails)
      with add_span_same [OF s(1)] show thesis using rest k op(1) right t y by blast
    qed
  qed
qed

text \<open>
  The operator \<open>op\<close> behind \<open>ops\<close> meets an operator \<open>a\<close> that it cannot be chained with: all operators between
  the two bind more tightly.
\<close>

definition clash :: "bin_op option \<Rightarrow> bin_op list \<Rightarrow> bin_op \<Rightarrow> bin_op \<Rightarrow> bool" where
  "clash prev ops a op \<longleftrightarrow> (\<exists>before m. (case prev of None \<Rightarrow> ops | Some q \<Rightarrow> q # ops) = before @ a # m \<and>
     (\<forall>z \<in> set m. precedence_of a < precedence_of z) \<and> relative_associativity a op = AssocNot)"

lemma clash_extend: "clash (Some op1) ops a op \<Longrightarrow> clash prev (ops0 @ op1 # ops) a op"
  unfolding clash_def
  by (cases prev) (auto, metis append_assoc, metis append_Cons append_assoc)

definition rejected :: "extern \<Rightarrow> expr meta parse \<Rightarrow> bin_op option \<Rightarrow> parser \<Rightarrow> parse_error \<Rightarrow> parser \<Rightarrow> bool" where
  "rejected ex neg prev p e p' \<longleftrightarrow>
     neg p = Failed e p' \<or>
     (\<exists>xs ops q q1 op q2 tok sp q3. operand_chain ex neg p xs ops q \<and> same_input ex q q1 \<and>
        peek_binop ex q1 = Parsed (Some op) q2 \<and> p_next ex q2 = Parsed (tok, sp) q3 \<and>
        (neg q3 = Failed e p' \<or> (\<exists>a. clash prev ops a op \<and> e = chain_error op a sp \<and> p' = q3)))"

lemma rejected_behind:
  assumes "read_so_far ex neg prev p0 lhs u p" and "peek_binop ex p = Parsed (Some op) p1"
    and "p_next ex p1 = Parsed t p2" and "rejected ex neg (Some op) p2 e p'"
  shows "rejected ex neg prev p0 e p'"
proof -
  obtain q where q: "operand_chain ex neg p0 (operands u) (operators u) q" "same_input ex q p"
    using assms(1) by (auto simp: read_so_far_def)
  note before = q assms(2,3)
  show ?thesis using assms(4) unfolding rejected_def [of _ _ "Some op"]
proof (elim disjE exE conjE)
  assume "neg p2 = Failed e p'"
  with before show ?thesis unfolding rejected_def by (cases t) blast
next
  fix xs' ops' q' q1 op' q2 tok sp q3
  assume c: "operand_chain ex neg p2 xs' ops' q'" "same_input ex q' q1" "peek_binop ex q1 = Parsed (Some op') q2"
    "p_next ex q2 = Parsed (tok, sp) q3"
  note chain = operand_chain.operator [OF before c(1)]
  {
    assume "neg q3 = Failed e p'"
    with chain c(2-4) show ?thesis unfolding rejected_def by blast
  next
    fix a assume "clash (Some op) ops' a op'" "e = chain_error op' a sp" "p' = q3"
    with chain c(2-4) clash_extend show ?thesis unfolding rejected_def by blast
  }
qed
qed

lemma read_so_far_clash:
  assumes "read_so_far ex neg (Some a) p0 x t p" and "relative_associativity a op = AssocNot"
  shows "clash (Some a) (operators t) a op"
proof -
  have "grouped (Node (Operand x) a t)" using assms(1) by (simp add: read_so_far_def goes_left_def)
  from grouped_right [OF this] assms(2) show ?thesis unfolding clash_def
    by (intro exI [of _ "[]"] exI [of _ "operators t"]) simp
qed

lemma rejected_here:
  assumes "read_so_far ex neg prev p0 x t p" and "peek_binop ex p = Parsed (Some op) p1" and "prev = Some a"
    and "relative_associativity a op = AssocNot" and "p_next ex p1 = Parsed (tok, sp) p'" and "e = chain_error op a sp"
  shows "rejected ex neg prev p0 e p'"
proof -
  obtain q where q: "operand_chain ex neg p0 (operands t) (operators t) q" "same_input ex q p"
    using assms(1) by (auto simp: read_so_far_def)
  with read_so_far_clash assms show ?thesis unfolding rejected_def by blast
qed

lemma binop_rejected:
  shows "binop_expr n ex neg prev p0 = Failed e p' \<Longrightarrow> rejected ex neg prev p0 e p'"
    and "binop_loop n ex neg prev lhs p = Failed e p' \<Longrightarrow> read_so_far ex neg prev p0 lhs t p \<Longrightarrow>
      rejected ex neg prev p0 e p'"
proof (induction n arbitrary: prev p0 p p' lhs t)
  case (Suc n)
  {
    case 1
    then consider "neg p0 = Failed e p'"
      | lhs p where "neg p0 = Parsed lhs p" "binop_loop n ex neg prev lhs p = Failed e p'"
      by (auto dest!: on_Failed)
    then show ?case
    proof cases
      case 2
      then have "read_so_far ex neg prev p0 lhs (Operand lhs) p"
        by (auto simp: read_so_far_def goes_right_def intro: operand_chain.first)
      from Suc.IH(2) [OF 2(2) this] show ?thesis .
    qed (simp add: rejected_def)
  next
    case 2
    from 2(1) show ?case
    proof (cases rule: binop_loop_Failed)
      case (chain op a p1 tok sp)
      with rejected_here 2(2) show ?thesis by blast
    next
      case (rhs op p1 tok p2)
      from rejected_behind [OF 2(2) rhs(1,3) Suc.IH(1) [OF rhs(4)]] show ?thesis .
    next
      case (rest op p1 tok p2 rhs p3 lhs' p4)
      from binop_reads(1) [OF rest(4)] obtain u where "read_so_far ex neg (Some op) p2 rhs u p3" "stops ex (Some op) p3" by blast
      from Suc.IH(2) [OF rest(7) read_so_far_step [OF 2(2) rest(1,2,3) this rest(5,6)]] show ?thesis .
    qed
  }
qed (auto)

section \<open>Samples\<close>

definition sample_extern :: extern where
  "sample_extern = \<lparr>ex_unicode = sample_unicode, ex_unescape_str = (\<lambda>s. map (\<lambda>c. ((0, 0), Inr c)) s),
     ex_unescape_char = (\<lambda>s. Inr (hd s)), ex_is_fatal = (\<lambda>_. True), ex_parse_f64 = (\<lambda>_. Inr 0)\<rparr>"

text \<open>Operands that are identifiers, and a parser whose lexer has read the tokens ahead.\<close>

definition sample_operand :: "expr meta parse" where
  "sample_operand = on (identifier_p sample_extern) (\<lambda>i.
     ret (Meta (EPath (Meta (Path [i]) (meta_id i))) (meta_id i)))"

definition sample_parser :: "token list \<Rightarrow> parser" where
  "sample_parser ts = \<lparr>p_file = 0, p_file_length = length ts,
     p_lexer = (lexer_new [])\<lparr>lx_peeked := map (\<lambda>(t, i). (Some t, (i, i + 1))) (zip ts [0..<length ts])\<rparr>,
     p_spans = \<lparr>span_table = []\<rparr>\<rparr>"

text \<open>The shape of a result: the operators with their operands' names.\<close>

fun shape :: "nat \<Rightarrow> expr meta \<Rightarrow> str" where
  "shape 0 x = []"
| "shape (Suc n) x = (case node x of
     EPath p \<Rightarrow> concat (map node (path_idents (node p)))
   | EBinOp l op r \<Rightarrow> lit ''('' @ shape n l @ lit (show_bin_op op) @ shape n r @ lit '')''
   | _ \<Rightarrow> [])"

fun outcome :: "expr meta parsed \<Rightarrow> (str + str) option" where
  "outcome (Parsed x p) = Some (Inr (shape 9 x))"
| "outcome (Failed e p) = Some (Inl (case pe_kind e of CustomError s _ \<Rightarrow> s | _ \<Rightarrow> []))"
| "outcome _ = None"

text \<open>\<open>a + b * c - d\<close> and \<open>a == b + c == d\<close>.\<close>

definition sample_sum :: "expr meta parsed" where
  "sample_sum = binop_expr 12 sample_extern sample_operand None
     (sample_parser [TIdent [97], TPlus, TIdent [98], TStar, TIdent [99], THyphen, TIdent [100]])"

definition sample_compare :: "expr meta parsed" where
  "sample_compare = binop_expr 12 sample_extern sample_operand None
     (sample_parser [TIdent [97], TEqEq, TIdent [98], TPlus, TIdent [99], TEqEq, TIdent [100]])"

lemma sample_sum_shape: "outcome sample_sum = Some (Inr (lit ''((a+(b*c))-d)''))"
  by code_simp

lemma sample_compare_shape: "outcome sample_compare = Some (Inl (lit ''`==` cannot be chained with `==`''))"
  by code_simp

section \<open>The properties\<close>

text \<open>
  C13. \<open>binop_expr\<close> reads operands and operators until no operator follows, and the expression it gives is
  the one tree over them that is grouped by the operators' relative associativity.
\<close>

theorem binop_expr_grouped:
  assumes "binop_expr n ex neg None p = Parsed x p'"
  shows "\<exists>t q. operand_chain ex neg p (operands t) (operators t) q \<and> same_input ex q p' \<and> tree_of t x \<and>
    peek_binop ex p' = Parsed None p' \<and> grouped t \<and>
    (\<forall>u. grouped u \<and> operands u = operands t \<and> operators u = operators t \<longrightarrow> u = t)"
proof -
  from binop_reads(1) [OF assms] obtain t where t: "read_so_far ex neg None p x t p'" "stops ex None p'" by blast
  have "peek_binop ex p' = Parsed None p'" using stops_again [OF t(2)] by auto
  with t(1) grouped_unique show ?thesis unfolding read_so_far_def by blast
qed

theorem binop_expr_grouped_witness:
  "\<exists>x t p' q. sample_sum = Parsed x p' \<and>
     operand_chain sample_extern sample_operand
       (sample_parser [TIdent [97], TPlus, TIdent [98], TStar, TIdent [99], THyphen, TIdent [100]])
       (operands t) (operators t) q \<and> tree_of t x \<and> grouped t"
proof -
  obtain x p' where r: "sample_sum = Parsed x p'"
    using outcome.elims [OF sample_sum_shape] by blast
  from binop_expr_grouped [OF r [unfolded sample_sum_def]] r show ?thesis by blast
qed

text \<open>
  C19. When \<open>binop_expr\<close> fails, an operand behind the operands and operators it has read fails, or the next
  operator cannot be chained with one of them, and then no grouped tree begins with these operators.
\<close>

theorem binop_expr_rejects:
  assumes "binop_expr n ex neg None p = Failed e p'"
  shows "neg p = Failed e p' \<or>
    (\<exists>xs ops q q1 op q2 tok sp q3. operand_chain ex neg p xs ops q \<and> same_input ex q q1 \<and>
       peek_binop ex q1 = Parsed (Some op) q2 \<and> p_next ex q2 = Parsed (tok, sp) q3 \<and>
       (neg q3 = Failed e p' \<or>
        (\<exists>a. e = chain_error op a sp \<and> p' = q3 \<and>
           (\<forall>t more. grouped (t :: expr meta op_tree) \<longrightarrow> operators t \<noteq> ops @ op # more))))"
proof -
  have "\<not> clash None ops a op" if "grouped t" "operators t = ops @ op # more"
    for ops a op more and t :: "expr meta op_tree"
  proof
    assume "clash None ops a op"
    then obtain before m where ops: "ops = before @ a # m" "\<forall>z \<in> set m. precedence_of a < precedence_of z"
      and no: "relative_associativity a op = AssocNot" by (auto simp: clash_def)
    from no have "precedence_of a = precedence_of op" by (simp add: relative_not_iff)
    from grouped_chained [OF that(1) _ this ops(2), of before more] ops(1) that(2) no show False by simp
  qed
  with binop_rejected(1) [OF assms] show ?thesis unfolding rejected_def by blast
qed

theorem binop_expr_rejects_witness:
  "\<exists>e p' xs ops q. sample_compare = Failed e p' \<and>
     operand_chain sample_extern sample_operand
       (sample_parser [TIdent [97], TEqEq, TIdent [98], TPlus, TIdent [99], TEqEq, TIdent [100]]) xs ops q"
proof -
  obtain e p' where r: "sample_compare = Failed e p'"
    using outcome.elims [OF sample_compare_shape] by blast
  have "case sample_operand (sample_parser [TIdent [97], TEqEq, TIdent [98], TPlus, TIdent [99], TEqEq, TIdent [100]]) of
      Failed _ _ \<Rightarrow> False | _ \<Rightarrow> True" by code_simp
  then have "sample_operand (sample_parser [TIdent [97], TEqEq, TIdent [98], TPlus, TIdent [99], TEqEq, TIdent [100]])
      \<noteq> Failed e p'" by auto
  with binop_expr_rejects [OF r [unfolded sample_compare_def]] r show ?thesis by blast
qed

end
