(* ===== verification/Parser_Total.thy ===== *)
theory Parser_Total
  imports Parser_Logic Expr_Grouping
begin

text \<open>
  The parser is total on ASCII sources: with two units of fuel for every byte it ends, and it ends with a tree
  or a reported error, never with a panic.  Every parser gets a \<open>spec\<close> in the logic of
  \<open>Parser_Logic\<close>; the functions that take the parsers of expressions and blocks as arguments are
  specified in a locale over these two, which is interpreted on \<open>expr_at\<close> and \<open>block_at\<close>.
\<close>

section \<open>Names, lists and paths\<close>

lemma spec_identifier: "spec b f 3 n 1 (mine b) (identifier_p ex)"
  by (rule specI) (auto simp: identifier_p_def intro!: wp_next wp_rules)

lemma spec_path_item: "spec b f 3 n 1 (mine b) (path_item ex)"
  by (rule specI) (auto simp: path_item_def intro!: wp_next wp_rules)

lemma spec_separated_loop:
  assumes "spec b f 2 k 1 R item"
  shows "spec b f 2 (min n (Suc k)) 0 (\<lambda>_ _. True) (separated_loop n ex cl sep item items)"
proof (induction n arbitrary: items)
  case 0
  then show ?case by (simp add: spec_def)
next
  case (Suc n)
  show ?case
    by (rule specI) (auto intro!: wp_rules wp_peek_is spec_wp [OF assms] spec_wp [OF Suc.IH])
qed

lemma spec_separated:
  assumes "spec b f 2 k 1 R item" and "k \<le> n"
  shows "spec b f 3 (Suc k) 1 (mine b) (separated n ex op cl sep item)"
  by (rule specI) (auto simp: separated_def intro!: wp_rules wp_peek_is spec_wp [OF assms(1)]
     spec_wp [OF spec_separated_loop [OF assms(1)]], use assms(2) in auto)

text \<open>A list of results of this run.\<close>

definition all_mine :: "nat \<Rightarrow> 'a meta list \<Rightarrow> nat \<Rightarrow> bool" where
  "all_mine b xs k \<longleftrightarrow> (\<forall>x \<in> set xs. mine b x k)"

lemma all_mine_simps [simp]:
  "all_mine b [] k"
  "all_mine b (x # xs) k \<longleftrightarrow> mine b x k \<and> all_mine b xs k"
  "all_mine b (xs @ ys) k \<longleftrightarrow> all_mine b xs k \<and> all_mine b ys k"
  by (auto simp: all_mine_def)

lemma all_mine_mono: "all_mine b xs k \<Longrightarrow> k \<le> l \<Longrightarrow> all_mine b xs l"
  by (auto simp: all_mine_def intro: mine_mono)

lemma all_mine_ends: "all_mine b xs k \<Longrightarrow> xs \<noteq> [] \<Longrightarrow> mine b (hd xs) k \<and> mine b (last xs) k"
  by (simp add: all_mine_def)

lemma wp_path_loop:
  assumes "good b f p" and "peeked p \<le> 2" and "left p < n" and "all_mine b xs (spanned p)" and "xs \<noteq> []"
    and "\<And>ys p'. good b f p' \<Longrightarrow> peeked p' \<le> 2 \<Longrightarrow> spanned p \<le> spanned p' \<Longrightarrow> left p' \<le> left p \<Longrightarrow>
      all_mine b ys (spanned p') \<Longrightarrow> ys \<noteq> [] \<Longrightarrow> Q ys p'"
  shows "wp (path_loop n ex xs) Q p"
  using assms
proof (induction n arbitrary: xs p)
  case (Suc n)
  show ?case
    by (auto intro!: wp_rules spec_wp [OF spec_path_item [of b f "Suc (left p)"]] Suc.IH Suc.prems
      elim: mine_mono all_mine_mono)
      (use Suc.prems in \<open>auto elim: all_mine_mono\<close>)
qed simp

lemma wp_add_path:
  assumes "good b f p" and "all_mine b xs (spanned p)" and "xs \<noteq> []"
    and "\<And>m p'. good b f p' \<Longrightarrow> peeked p' = peeked p \<Longrightarrow> spanned p' = Suc (spanned p) \<Longrightarrow> left p' = left p \<Longrightarrow>
      mine b m (spanned p') \<Longrightarrow> Q m p'"
  shows "wp (add_path xs) Q p"
  using all_mine_ends [OF assms(2,3)] assms by (auto simp: add_path_def intro!: wp_rules)

lemma spec_path: "spec b f 3 (Suc n) 1 (mine b) (path_p n ex)"
  by (rule specI) (auto simp: path_p_def intro!: wp_path_loop wp_add_path spec_wp [OF spec_path_item])

lemma spec_path_list_loop:
  assumes "spec b f 2 k 1 R pe"
  shows "spec b f 2 (min n k) 1 (\<lambda>_ _. True) (path_list_loop n ex pe ps)"
proof (induction n arbitrary: ps)
  case (Suc n)
  show ?case by (rule specI) (auto intro!: wp_rules spec_wp [OF assms] spec_wp [OF Suc.IH])
qed (simp add: spec_def)

lemma spec_path_list:
  assumes "spec b f 2 k 1 R pe" and "k \<le> n"
  shows "spec b f 3 (Suc k) 1 (\<lambda>_ _. True) (path_list n ex pe)"
  by (rule specI) (auto simp: path_list_def intro!: wp_rules spec_wp [OF spec_path_list_loop [OF assms(1)]],
    use assms(2) in auto)

lemma wp_path_expr_loop:
  assumes "good b f p" and "peeked p \<le> 2" and "left p < n" and "all_mine b xs (spanned p)"
    and "\<And>ps p'. good b f p' \<Longrightarrow> peeked p' \<le> 2 \<Longrightarrow> spanned p \<le> spanned p' \<Longrightarrow> left p' < left p \<Longrightarrow> Q ps p'"
  shows "wp (path_expr_loop n ex xs) Q p"
  using assms
proof (induction n arbitrary: xs p Q)
  case (Suc n)
  have "spec b f 2 n 1 (\<lambda>_ _. True) (path_expr_loop n ex [])"
    by (rule specI) (rule Suc.IH, auto)
  note sub = spec_path_list [OF this order_refl]
  show ?case
    by (auto intro!: wp_rules wp_peek_is spec_wp [OF sub] spec_wp [OF spec_path_item [of b f "Suc (left p)"]]
        wp_add_path Suc.IH Suc.prems)
      (use Suc.prems in \<open>auto elim: all_mine_mono\<close>)
qed simp

lemma spec_import: "spec b f 3 (Suc n) 1 (\<lambda>_ _. True) (import_p n ex)"
  by (rule specI) (auto simp: import_p_def path_expr_def intro!: wp_path_expr_loop wp_rules)

section \<open>Type expressions\<close>

lemma spec_record_field:
  assumes "spec b f 2 k 1 R te"
  shows "spec b f 2 k 1 (\<lambda>_ _. True) (record_field ex te)"
  by (rule specI) (auto simp: record_field_def intro!: wp_rules spec_wp [OF spec_identifier] spec_wp [OF assms])

lemma spec_record_type:
  assumes "spec b f 2 k 1 R te" and "k \<le> n"
  shows "spec b f 3 (Suc k) 1 (mine b) (record_type_p n ex te)"
  unfolding record_type_p_def by (rule spec_separated [OF spec_record_field [OF assms(1)] assms(2)])

lemma spec_type_expr_atom:
  assumes "spec b f 2 n 1 (mine b) te"
  shows "spec b f 2 (Suc n) 1 (mine b) (type_expr_atom n ex te)"
  by (rule specI) (auto simp: type_expr_atom_def intro!: wp_rules wp_peek_is spec_wp [OF assms]
    spec_wp [OF spec_path] spec_wp [OF spec_separated [OF assms order_refl]]
    spec_wp [OF spec_record_type [OF assms order_refl]])


lemma wp_type_option_loop:
  assumes "good b f p" and "peeked p \<le> 2" and "left p < n" and "mine b t (spanned p)"
    and "\<And>x p'. good b f p' \<Longrightarrow> peeked p' \<le> 2 \<Longrightarrow> spanned p \<le> spanned p' \<Longrightarrow> left p' \<le> left p \<Longrightarrow>
      mine b x (spanned p') \<Longrightarrow> Q x p'"
  shows "wp (type_option_loop n ex t) Q p"
  using assms
proof (induction n arbitrary: t p)
  case (Suc n)
  show ?case
    by (auto intro!: wp_rules wp_peek_is_ahead wp_unwrap_take Suc.IH Suc.prems)
      (use Suc.prems in \<open>auto elim: mine_mono\<close>)
qed simp

lemma spec_type_expr: "spec b f 2 n 1 (mine b) (type_expr_p n ex)"
proof (induction n)
  case (Suc n)
  show ?case
    by (rule specI) (auto intro!: wp_type_option_loop spec_wp [OF spec_type_expr_atom [OF Suc.IH]])
qed (simp add: spec_def)

section \<open>Literals\<close>

lemma slice_ascii:
  assumes "ascii s" and "a \<le> b" and "b \<le> length s"
  shows "\<exists>t. Source_Text.slice s a b = Some t"
proof -
  have "split_at a s = Some (take a s, drop a s)" using assms by (simp add: split_at_ascii)
  moreover have "split_at (b - a) (drop a s) = Some (take (b - a) (drop a s), drop (b - a) (drop a s))"
    using assms by (intro split_at_ascii) (auto dest: in_set_dropD)
  ultimately show ?thesis using assms(2) by (simp add: Source_Text.slice_def)
qed

lemma wp_quoted_text:
  assumes "ascii s" and "2 \<le> length s" and "\<And>t. Q t p"
  shows "wp (unwrap (quoted_text s)) Q p"
proof -
  have "1 \<le> length s - 1" "length s - 1 \<le> length s" using assms(2) by simp_all
  from slice_ascii [OF assms(1) this] show ?thesis using assms(1,3)
    by (auto simp: quoted_text_def byte_len_ascii intro: wp_unwrap)
qed

lemma wp_slice_from:
  assumes "ascii s" and "2 \<le> length s" and "\<And>t. Q t p"
  shows "wp (unwrap (slice_from s 2)) Q p"
  using slice_ascii [OF assms(1), of 2 "length s"] assms
  by (auto simp: slice_from_def byte_len_ascii intro: wp_unwrap)

lemma wp_literal_of_token:
  assumes "token_ok t" and "\<And>l. Q l p"
  shows "wp (case t of
         TString s \<Rightarrow> on (unwrap (quoted_text s)) (\<lambda>trimmed.
           lift_result (map_sum id LitString (unescape_str ex trimmed (after_quote sp))))
       | TChar s \<Rightarrow> on (unwrap (quoted_text s)) (\<lambda>trimmed.
           lift_result (map_sum id LitChar (unescape_char ex trimmed (after_quote sp))))
       | TInteger s int_ty \<Rightarrow> lift_result (integer_literal ex t s int_ty sp)
       | TFloat s float_ty \<Rightarrow> lift_result (decimal_literal ex t s float_ty sp)
       | THex s \<Rightarrow> on (unwrap (slice_from s 2)) (\<lambda>digits.
           lift_result (case parse_number 16 (2 ^ 63) digits of
             Inl e \<Rightarrow> Inl (err_invalid_literal (lit ''hexadecimal integer'') (show_token t) e sp)
           | Inr n \<Rightarrow> Inr (LitInteger (word_of_nat n) None)))
       | TAsn s \<Rightarrow> on (unwrap (slice_from s 2)) (\<lambda>digits.
           lift_result (case parse_number 10 (2 ^ 32) digits of
             Inl e \<Rightarrow> Inl (err_invalid_literal (lit ''AS number'') (show_token t) e sp)
           | Inr n \<Rightarrow> Inr (LitAsn (word_of_nat n))))
       | TBool b \<Rightarrow> ret (LitBool b)
       | _ \<Rightarrow> fail (err_expected (lit ''a literal'') (show_token t) sp)) Q p"
  using assms
  by (cases t) (auto simp: token_ok_def intro!: wp_quoted_text wp_slice_from wp_lift_result)

lemma spec_simple_literal: "spec b f 2 n 1 (mine b) (simple_literal ex)"
  by (rule specI) (auto simp: simple_literal_def intro!: wp_next wp_literal_of_token wp_rules)

lemma spec_ip_address: "spec b f 2 n 1 (mine b) (ip_address ex)"
  by (rule specI) (auto simp: ip_address_def intro!: wp_next wp_rules)

lemma mine_meta_id: "mine b (Meta x (meta_id m)) k \<longleftrightarrow> mine b m k"
  by (simp add: mine_def)

lemma spec_literal: "spec b f 2 n 1 (mine b) (parse_literal ex)"
proof -
  have "wp (case t of
       Some (TIpV4 _) \<Rightarrow> on (ip_address ex) (\<lambda>addr. ret (Meta (LitIpAddress (node addr)) (meta_id addr)))
     | Some (TIpV6 _) \<Rightarrow> on (ip_address ex) (\<lambda>addr. ret (Meta (LitIpAddress (node addr)) (meta_id addr)))
     | _ \<Rightarrow> simple_literal ex) Q p"
    if "wp (ip_address ex) (\<lambda>addr. Q (Meta (LitIpAddress (node addr)) (meta_id addr))) p"
      and "wp (simple_literal ex) Q p" for t Q p
    using that by (auto split: option.splits token.splits)
  note cases = this
  show ?thesis
    by (rule specI) (auto simp: parse_literal_def mine_meta_id intro!: wp_peek cases
      spec_wp [OF spec_ip_address] spec_wp [OF spec_simple_literal])
qed

section \<open>Patterns\<close>

lemma spec_identifier_item: "spec b f 2 n 1 (mine b) (identifier_p ex)"
  using spec_identifier by (simp add: spec_def)

lemma spec_match_pattern: "spec b f 3 (Suc n) 1 (\<lambda>_ _. True) (match_pattern n ex)"
  by (rule specI) (auto simp: match_pattern_def mine_def intro!: wp_rules wp_peek_is spec_wp [OF spec_identifier]
    spec_wp [OF spec_separated [OF spec_identifier_item order_refl]])

section \<open>Expressions over the parsers of expressions and blocks\<close>

text \<open>
  \<open>e\<close> and \<open>blk\<close> are good for fewer than \<open>k\<close> tokens, and the fuel \<open>n\<close> is at least \<open>k\<close>.
\<close>

locale sub_parsers =
  fixes b f k n :: nat and ex :: extern and e :: expr_parser and blk :: "block meta parse"
  assumes fuel: "k \<le> n"
    and e_spec: "spec b f 2 k 1 (mine b) (e r)"
    and blk_spec: "spec b f 3 k 1 (mine b) blk"
begin

lemmas sub_rules = wp_rules spec_wp [OF e_spec] spec_wp [OF blk_spec] spec_wp [OF spec_identifier]

lemma spec_record_entry: "spec b f 2 k 1 (\<lambda>_ _. True) (record_entry ex e)"
  by (rule specI) (auto simp: record_entry_def intro!: sub_rules)

lemma spec_record: "spec b f 3 (Suc k) 1 (mine b) (record_p n ex e)"
  unfolding record_p_def by (rule spec_separated [OF spec_record_entry fuel])

lemma spec_args: "spec b f 3 (Suc k) 1 (mine b) (args_p n ex e)"
  unfolding args_p_def by (rule spec_separated [OF e_spec fuel])

lemma spec_if_else: "spec b f 3 (min (2 * m) (Suc k)) 1 (mine b) (if_else m ex e blk)"
proof (induction m)
  case (Suc m)
  show ?case
    by (rule specI) (auto simp: block_of_expr_def mine_def intro!: sub_rules wp_peek_is spec_wp [OF Suc.IH])
qed (simp add: spec_def)

lemma spec_while: "spec b f 3 (Suc k) 1 (mine b) (while_expr ex e blk)"
  by (rule specI) (auto simp: while_expr_def intro!: sub_rules)

lemma spec_for: "spec b f 3 (Suc k) 1 (mine b) (for_expr ex e blk)"
  by (rule specI) (auto simp: for_expr_def intro!: sub_rules)

lemma spec_match_guard: "spec b f 2 k 0 (\<lambda>_ _. True) (match_guard ex e)"
  by (rule specI) (auto simp: match_guard_def intro!: sub_rules)

lemma spec_match_body: "spec b f 2 k 1 (\<lambda>_ _. True) (match_body ex e blk)"
  by (rule specI) (auto simp: match_body_def intro!: sub_rules wp_peek_is)

lemma spec_match_loop: "spec b f 2 (min m k) 0 (\<lambda>_ _. True) (match_loop m ex e blk arms)"
proof (induction m arbitrary: arms)
  case (Suc m)
  show ?case
    by (rule specI) (auto intro!: sub_rules wp_peek_is spec_wp [OF spec_match_pattern]
      spec_wp [OF spec_match_guard] spec_wp [OF spec_match_body] spec_wp [OF Suc.IH])
qed (simp add: spec_def)

lemma spec_match: "spec b f 3 (Suc k) 1 (mine b) (match_expr n ex e blk)"
  by (rule specI) (auto simp: match_expr_def intro!: sub_rules spec_wp [OF spec_match_loop], use fuel in auto)

lemma wp_add_fstring_text:
  assumes "good b f p" and "peeked p \<le> 2" and "span_file sp = f"
    and "\<And>ps p'. good b f p' \<Longrightarrow> peeked p' \<le> 2 \<Longrightarrow> spanned p \<le> spanned p' \<Longrightarrow> left p' \<le> left p \<Longrightarrow> Q ps p'"
  shows "wp (add_fstring_text ex s sp parts) Q p"
  using assms by (auto simp: add_fstring_text_def intro!: sub_rules)

lemma spec_f_string_loop:
  assumes "span_file st = f"
  shows "spec b f 2 (min m (Suc k)) 0 (mine b) (f_string_loop m ex e st parts)"
proof (induction m arbitrary: parts)
  case (Suc m)
  have split: "wp (case r of None \<Rightarrow> M | Some (StringEnd s, r) \<Rightarrow> M1 s r | Some (StringIntermediate s, r) \<Rightarrow> M2 s r) Q p"
    if "wp M Q p" "\<And>s r. wp (M1 s r) Q p" "\<And>s r. wp (M2 s r) Q p" for r M M1 M2 Q p
    using that by (auto split: option.splits fstring_token.splits)
  show ?case
    by (rule specI) (auto simp: good_file span_new_def assms less_Suc_eq_le intro!: split sub_rules wp_add_fstring_text spec_wp [OF Suc.IH])
qed (simp add: spec_def)

lemma spec_f_string: "spec b f 3 (Suc k) 1 (mine b) (f_string_p n ex e)"
  by (rule specI) (auto simp: f_string_p_def intro!: sub_rules spec_wp [OF spec_f_string_loop], use fuel in auto)

lemma spec_parenthesized: "spec b f 3 (Suc k) 1 (mine b) (parenthesized ex e)"
  by (rule specI) (auto simp: parenthesized_def mine_meta_id intro!: sub_rules wp_peek_is)

lemma spec_list: "spec b f 3 (Suc k) 1 (mine b) (list_expr n ex e)"
  by (rule specI) (auto simp: list_expr_def mine_meta_id intro!: spec_wp [OF spec_separated [OF e_spec fuel]])

lemma spec_path_or_record: "spec b f 3 (Suc k) 1 (mine b) (path_or_record n ex e r)"
  by (rule specI) (auto simp: path_or_record_def mine_meta_id intro!: sub_rules wp_peek_is
    spec_wp [OF spec_path] spec_wp [OF spec_record], use fuel in \<open>auto elim: mine_mono\<close>)

lemma wp_return_expr:
  assumes "good b f p" and "peeked p \<le> 2" and "left p \<le> k" and "ahead ex t p" and "return_kind_of t \<noteq> None"
    and "\<And>x p'. good b f p' \<Longrightarrow> peeked p' \<le> 2 \<Longrightarrow> spanned p \<le> spanned p' \<Longrightarrow> left p' < left p \<Longrightarrow>
      mine b x (spanned p') \<Longrightarrow> Q x p'"
  shows "wp (return_expr ex e) Q p"
proof -
  obtain kind where kind: "return_kind_of t = Some kind" using assms(5) by auto
  have split: "wp (case nxt of Some tok \<Rightarrow> M tok | None \<Rightarrow> M1) Q p"
    if "wp M1 Q p" "\<And>tok. wp (M tok) Q p" for nxt M M1 p
    using that by (auto split: option.splits)
  show ?thesis
    unfolding return_expr_def
    by (auto simp: kind intro!: wp_next_ahead [OF assms(4)] wp_unwrap [OF refl] wp_peek split sub_rules assms(6))
      (use assms(1-3) in \<open>auto elim: mine_mono\<close>)
qed

text \<open>\<open>access_loop\<close> after a value of this run.\<close>

lemma wp_access_loop:
  assumes "good b f p" and "peeked p \<le> 2" and "left p < m" and "left p < k" and "mine b x (spanned p)"
    and "\<And>y p'. good b f p' \<Longrightarrow> peeked p' \<le> 2 \<Longrightarrow> spanned p \<le> spanned p' \<Longrightarrow> left p' \<le> left p \<Longrightarrow>
      mine b y (spanned p') \<Longrightarrow> Q y p'"
  shows "wp (access_loop m ex e x) Q p"
  using assms
proof (induction m arbitrary: x p)
  case (Suc m)
  have "spec b f 2 (min m k) 1 (mine b) (e False)" using e_spec [of False] by (simp add: spec_def)
  then have "spec b f 3 (Suc (min m k)) 1 (mine b) (args_p m ex e)"
    unfolding args_p_def by (rule spec_separated) simp
  note args = spec_wp [OF this]
  show ?case
    by (auto intro!: sub_rules wp_peek_is args Suc.IH Suc.prems) (use Suc.prems in \<open>auto elim: mine_mono\<close>)
qed simp

end

text \<open>An expression may begin with a block, so the block parser is good for one more token.\<close>

locale expr_level = sub_parsers +
  assumes blk_first: "spec b f 3 (Suc k) 1 (mine b) blk" and positive: "Suc k \<le> n"
begin

lemma wp_is_anonymous_record:
  assumes "good b f p" and "peeked p \<le> 2"
    and "\<And>r p'. good b f p' \<Longrightarrow> peeked p' \<le> 3 \<Longrightarrow> spanned p' = spanned p \<Longrightarrow> left p' \<le> left p \<Longrightarrow> Q r p'"
  shows "wp (is_anonymous_record ex) Q p"
  unfolding is_anonymous_record_def
  by (auto intro!: wp_peek_many assms(3)) (use assms(1,2) in auto)

lemma spec_curly: "spec b f 2 (Suc k) 1 (mine b) (curly_expr n ex e blk)"
  by (rule specI) (auto simp: curly_expr_def intro!: wp_is_anonymous_record spec_wp [OF spec_record]
    spec_wp [OF blk_first] wp_rules)

lemma spec_if_else_level: "spec b f 3 (Suc k) 1 (mine b) (if_else n ex e blk)"
  using spec_if_else [of n] positive by (simp add: min_absorb2)

lemmas level_rules = spec_wp [OF spec_parenthesized] spec_wp [OF spec_list] spec_wp [OF spec_curly]
  spec_wp [OF spec_if_else_level] spec_wp [OF spec_match] spec_wp [OF spec_while] spec_wp [OF spec_for]
  spec_wp [OF spec_path_or_record] spec_wp [OF spec_f_string] spec_wp [OF spec_literal]

lemma spec_atom: "spec b f 2 (Suc k) 1 (mine b) (atom n ex e blk r)"
  by (rule specI) (auto simp: atom_def mine_meta_id bind_eq_Some_conv intro!: wp_peek_ahead wp_return_expr level_rules)

lemma spec_access: "spec b f 2 (Suc k) 1 (mine b) (access n ex e blk r)"
  by (rule specI) (auto simp: access_def intro!: spec_wp [OF spec_atom] wp_access_loop, use fuel in auto)

lemma spec_negation: "spec b f 2 (min m (Suc k)) 1 (mine b) (negation m ex (access n ex e blk r))"
proof (induction m)
  case (Suc m)
  show ?case
    by (rule specI) (auto intro!: wp_peek_is wp_rules spec_wp [OF Suc.IH] spec_wp [OF spec_access])
qed (simp add: spec_def)

end

section \<open>Operators and assignment\<close>

lemma wp_operator:
  assumes "good b f p" and "peeked p \<le> 2"
    and "\<And>r p'. good b f p' \<Longrightarrow> peeked p' \<le> 2 \<Longrightarrow> spanned p' = spanned p \<Longrightarrow> left p' \<le> left p \<Longrightarrow>
      Q r p'"
  shows "wp (peek_binop ex) Q p"
  using assms by (auto simp: peek_binop_def intro!: wp_peek)

lemma wp_relative:
  assumes "wp m1 Q p" and "wp m2 Q p" and "wp m3 Q p"
  shows "wp (case a of AssocLeft \<Rightarrow> m1 | AssocRight \<Rightarrow> m2 | AssocNot \<Rightarrow> m3) Q p"
  using assms by (cases a) auto

lemma wp_binop:
  assumes neg: "spec b f 2 k 1 (mine b) neg"
  shows "good b f p \<Longrightarrow> peeked p \<le> 2 \<Longrightarrow> left p < m \<Longrightarrow> left p < k \<Longrightarrow>
      (\<And>x p'. good b f p' \<Longrightarrow> peeked p' \<le> 2 \<Longrightarrow> spanned p \<le> spanned p' \<Longrightarrow> left p' < left p \<Longrightarrow>
        mine b x (spanned p') \<Longrightarrow> Q x p') \<Longrightarrow> wp (binop_expr m ex neg prev) Q p"
    and "good b f p \<Longrightarrow> peeked p \<le> 2 \<Longrightarrow> left p < m \<Longrightarrow> left p < k \<Longrightarrow> mine b lhs (spanned p) \<Longrightarrow>
      (\<And>x p'. good b f p' \<Longrightarrow> peeked p' \<le> 2 \<Longrightarrow> spanned p \<le> spanned p' \<Longrightarrow> left p' \<le> left p \<Longrightarrow>
        mine b x (spanned p') \<Longrightarrow> Q x p') \<Longrightarrow> wp (binop_loop m ex neg prev lhs) Q p"
proof (induction m arbitrary: p Q prev lhs)
  case (Suc m)
  {
    case 1
    show ?case by (auto intro!: spec_wp [OF neg] Suc.IH 1) (use 1 in auto)
  next
    case 2
    have split: "wp (case c of None \<Rightarrow> M | Some c \<Rightarrow> N c) R q"
      if "wp M R q" "\<And>c. wp (N c) R q" for M :: "expr meta parse" and N :: "bin_op \<Rightarrow> expr meta parse" and c R q
      using that by (auto split: option.splits)
    show ?case
      by (auto intro!: wp_operator split wp_relative Suc.IH wp_next wp_rules 2) (use 2 in \<open>auto elim: mine_mono intro: wp_relative\<close>)
  }
qed simp_all

lemma spec_binop:
  assumes "spec b f 2 k 1 (mine b) neg" and "k \<le> n"
  shows "spec b f 2 k 1 (mine b) (binop_expr n ex neg prev)"
  by (rule specI) (auto intro!: wp_binop [OF assms(1)], use assms(2) in auto)

lemma wp_assign_target:
  assumes "\<And>path. wp (M path) Q p" and "wp N Q p"
  shows "wp (case node lhs of EPath path \<Rightarrow> M path | _ \<Rightarrow> N) Q p"
  using assms by (cases "node lhs") auto

lemma spec_assign:
  assumes "spec b f 2 (Suc k) 1 (mine b) operand"
  shows "spec b f 2 (Suc k) 1 (mine b) (assign_expr ex operand)"
proof -
  have compound: "wp (compound_assign_expr ex operand lhs op) Q p"
    if "good b f p" "peeked p \<le> 2" "left p < Suc k" "mine b lhs (spanned p)"
      and "\<And>x p'. good b f p' \<Longrightarrow> peeked p' \<le> 2 \<Longrightarrow> spanned p \<le> spanned p' \<Longrightarrow> left p' < left p \<Longrightarrow>
        mine b x (spanned p') \<Longrightarrow> Q x p'" for lhs op Q p
    unfolding compound_assign_expr_def
    by (auto intro!: spec_wp [OF assms] wp_rules wp_assign_target that) (use that in \<open>auto elim: mine_mono\<close>)
  show ?thesis
    by (rule specI) (auto simp: assign_expr_def intro!: spec_wp [OF assms] wp_rules wp_assign_target compound,
      auto elim: mine_mono)
qed

section \<open>Blocks\<close>

lemma wp_peek_some:
  assumes "good b f p" and "peeked p \<le> 2"
    and "\<And>t p'. good b f p' \<Longrightarrow> peeked p' \<le> 2 \<Longrightarrow> spanned p' = spanned p \<Longrightarrow> left p' \<le> left p \<Longrightarrow>
      t \<noteq> None \<longrightarrow> 0 < left p' \<Longrightarrow> Q t p'"
  shows "wp (p_peek ex) Q p"
proof (rule wp_peek_ahead [OF assms(1,2)])
  fix t p' assume p': "good b f p'" "peeked p' \<le> 2" "spanned p' = spanned p" "left p' \<le> left p"
    and a: "\<forall>k. t = Some k \<longrightarrow> ahead ex k p'"
  have "0 < left p'" if "t = Some k" for k
    using a that next_Parsed [OF _ p'(1)] by (fastforce simp: ahead_def)
  with p' assms(3) show "Q t p'" by blast
qed

context sub_parsers
begin

lemma spec_let: "spec b f 3 (Suc k) 1 (mine b) (let_stmt n ex e)"
  by (rule specI) (auto simp: let_stmt_def intro!: sub_rules wp_peek_is_ahead spec_wp [OF spec_type_expr],
    use fuel in auto)

lemma wp_end_block:
  assumes "good b f p" and "peeked p \<le> 2" and "span_file st = f"
    and "\<And>x p'. good b f p' \<Longrightarrow> peeked p' \<le> 2 \<Longrightarrow> spanned p \<le> spanned p' \<Longrightarrow> left p' < left p \<Longrightarrow>
        mine b x (spanned p') \<Longrightarrow> Q x p'"
  shows "wp (end_block ex st imports stmts last_expr) Q p"
  unfolding end_block_def by (auto intro!: wp_rules assms(4)) (use assms(1-3) in auto)

lemma wp_block_like:
  assumes m: "spec b f 2 c 1 (mine b) m" and p: "good b f p" "peeked p \<le> 2" "left p < c" "span_file st = f"
    and c: "\<And>stmts p'. good b f p' \<Longrightarrow> peeked p' \<le> 2 \<Longrightarrow> spanned p \<le> spanned p' \<Longrightarrow> left p' < left p \<Longrightarrow>
        wp (continue stmts) Q p'"
    and q: "\<And>x p'. good b f p' \<Longrightarrow> peeked p' \<le> 2 \<Longrightarrow> spanned p \<le> spanned p' \<Longrightarrow> left p' < left p \<Longrightarrow>
        mine b x (spanned p') \<Longrightarrow> Q x p'"
  shows "wp (block_like_stmt ex st imports stmts continue m) Q p"
  unfolding block_like_stmt_def
  by (auto intro!: spec_wp [OF m] wp_peek_is wp_end_block wp_rules c q) (use p in auto)

lemma spec_peeked:
  assumes "spec b f 3 c d R m"
  shows "spec b f 2 c d R m"
  using assms by (auto simp: spec_def)

text \<open>A loop of the block passes its own fuel on.\<close>

lemma smaller: "sub_parsers b f (min m k) m e blk"
  using e_spec blk_spec by unfold_locales (auto simp: spec_def)

lemmas block_rules = spec_wp [OF sub_parsers.spec_let [OF smaller]] spec_wp [OF spec_import]

lemmas block_like_rules =
  wp_block_like [OF spec_peeked [OF spec_if_else]]
  wp_block_like [OF spec_peeked [OF sub_parsers.spec_match [OF smaller]]]
  wp_block_like [OF spec_peeked [OF spec_while]]
  wp_block_like [OF spec_peeked [OF spec_for]]

lemma spec_block_loop:
  assumes "span_file st = f"
  shows "spec b f 2 (min m k) 1 (mine b) (block_loop m ex e blk st ims stmts)"
proof (induction m arbitrary: ims stmts)
  case (Suc m)
  note IH = spec_wp [OF Suc.IH]
  show ?case
    by (rule specI) (auto simp: less_Suc_eq_le Let_def assms intro!: wp_peek_some wp_end_block block_rules block_like_rules sub_rules IH)
qed (simp add: spec_def)

lemma spec_block_body: "spec b f 3 (Suc k) 1 (mine b) (block_body n ex e blk)"
  by (rule specI) (auto simp: block_body_def intro!: wp_take spec_wp [OF spec_block_loop], use fuel in auto)

end

section \<open>Expressions and blocks with their fuel\<close>

context expr_level
begin

lemma spec_expr: "spec b f 2 (Suc k) 1 (mine b) (assign_expr ex (operand_parser n ex e blk r))"
proof -
  have "spec b f 2 (Suc k) 1 (mine b) (negation n ex (access n ex e blk r))"
    using spec_negation [of n r] positive by (simp add: min_absorb2)
  from spec_binop [OF this positive] show ?thesis unfolding operand_parser_def by (rule spec_assign)
qed

end

lemma spec_fewer:
  assumes "spec b f d n c R m" and "n' \<le> n"
  shows "spec b f d n' c R m"
  using assms by (auto simp: spec_def)

lemma spec_expr_block:
  shows "spec b f 2 (n div 2) 1 (mine b) (expr_at n ex r)"
    and "spec b f 3 (Suc n div 2) 1 (mine b) (block_at n ex)"
proof (induction n arbitrary: r)
  case (Suc n)
  {
    case 1
    show ?case
    proof (cases n)
      case (Suc m)
      have "expr_level b f (m div 2) n (expr_at n ex) (block_at n ex)"
        using Suc.IH Suc spec_fewer [OF Suc.IH(1), of "m div 2"] spec_fewer [OF Suc.IH(2), of "m div 2"]
        by unfold_locales simp_all
      from expr_level.spec_expr [OF this] Suc show ?thesis by simp
    qed (simp add: spec_def)
  next
    case 2
    have "sub_parsers b f (n div 2) n (expr_at n ex) (block_at n ex)"
      using Suc.IH(1) spec_fewer [OF Suc.IH(2), of "n div 2"] by unfold_locales auto
    from sub_parsers.spec_block_body [OF this] show ?case by simp
  }
qed (simp_all add: spec_def)

interpretation exprs: expr_level b f "n div 2" "Suc n" ex "expr_at (Suc n) ex" "block_at (Suc n) ex" for b f n ex
  using spec_fewer [OF spec_expr_block(1), of "n div 2" "Suc n"] spec_fewer [OF spec_expr_block(2), of "n div 2" "Suc n"]
    spec_expr_block(2) [of b f "Suc n"]
  by unfold_locales simp_all

section \<open>Items\<close>

lemmas item_rules = wp_rules spec_wp [OF spec_identifier] spec_wp [OF spec_type_expr]
  spec_wp [OF spec_expr_block(1)] spec_wp [OF spec_expr_block(2)]

lemma spec_type_ident_field: "spec b f 2 n 1 (\<lambda>_ _. True) (type_ident_field n ex)"
  by (rule specI) (auto simp: type_ident_field_def intro!: item_rules)

lemma spec_params: "spec b f 3 (Suc n) 1 (mine b) (params_p n ex)"
  by (rule specI) (auto simp: params_p_def mine_meta_id
    intro!: spec_wp [OF spec_separated [OF spec_type_ident_field order_refl]])

lemma spec_type_parameters: "spec b f 2 (Suc n) 0 (\<lambda>_ _. True) (type_parameters n ex)"
  by (rule specI) (auto simp: type_parameters_def
    intro!: wp_peek_is spec_wp [OF spec_separated [OF spec_identifier_item order_refl]])

lemma spec_return_type: "spec b f 2 (Suc n) 0 (\<lambda>_ _. True) (return_type n ex)"
  by (rule specI) (auto simp: return_type_def intro!: item_rules)

lemma spec_filter_map: "spec b f 3 (Suc (n div 2)) 1 (\<lambda>_ _. True) (filter_map_p n ex)"
  by (rule specI) (auto simp: filter_map_p_def intro!: wp_next item_rules spec_wp [OF spec_params])

lemma spec_enum_variant: "spec b f 2 n 1 (\<lambda>_ _. True) (enum_variant_p n ex)"
  by (rule specI) (auto simp: enum_variant_p_def
    intro!: item_rules wp_peek_is spec_wp [OF spec_separated [OF spec_type_expr order_refl]])

lemma spec_record_item: "spec b f 3 (Suc n) 1 (\<lambda>_ _. True) (record_type_assignment n ex)"
  by (rule specI) (auto simp: record_type_assignment_def
    intro!: item_rules spec_wp [OF spec_type_parameters] spec_wp [OF spec_record_type [OF spec_type_expr order_refl]])

lemma spec_enum: "spec b f 3 (Suc n) 1 (\<lambda>_ _. True) (enum_declaration n ex)"
  by (rule specI) (auto simp: enum_declaration_def
    intro!: item_rules spec_wp [OF spec_type_parameters] spec_wp [OF spec_separated [OF spec_enum_variant order_refl]])

lemma spec_constant: "spec b f 3 (Suc (n div 2)) 1 (\<lambda>_ _. True) (constant_p n ex)"
  by (rule specI) (auto simp: constant_p_def intro!: item_rules)

lemma spec_function: "spec b f 3 (Suc (n div 2)) 1 (\<lambda>_ _. True) (function_p n ex)"
  by (rule specI) (auto simp: function_p_def intro!: item_rules spec_wp [OF spec_params] spec_wp [OF spec_return_type])

lemma spec_test: "spec b f 3 (Suc (n div 2)) 1 (\<lambda>_ _. True) (test_p n ex)"
  by (rule specI) (auto simp: test_p_def intro!: item_rules)

lemma spec_root: "spec b f 2 (Suc (n div 2)) 1 (\<lambda>_ _. True) (root n ex)"
proof -
  have split: "wp (case t of
       None \<Rightarrow> M
     | Some (TKeyword KwFilterMap) \<Rightarrow> M1
     | Some (TKeyword KwFilter) \<Rightarrow> M1
     | Some (TKeyword KwConst) \<Rightarrow> M2
     | Some (TKeyword KwRecord) \<Rightarrow> M3
     | Some (TKeyword KwEnum) \<Rightarrow> M4
     | Some (TKeyword KwFn) \<Rightarrow> M5
     | Some (TKeyword KwTest) \<Rightarrow> M6
     | Some (TKeyword KwImport) \<Rightarrow> M7
     | _ \<Rightarrow> M8) Q p"
    if "wp M Q p" "wp M1 Q p" "wp M2 Q p" "wp M3 Q p" "wp M4 Q p" "wp M5 Q p" "wp M6 Q p" "wp M7 Q p" "wp M8 Q p"
    for t and M M1 M2 M3 M4 M5 M6 M7 M8 :: "declaration_item parse" and Q p
    using that by (auto split: option.splits token.splits keyword.splits)
  show ?thesis
    unfolding root_def
    by (intro specI) (auto intro!: wp_peek split wp_next spec_wp [OF spec_filter_map] spec_wp [OF spec_constant]
      spec_wp [OF spec_record_item] spec_wp [OF spec_enum] spec_wp [OF spec_function] spec_wp [OF spec_test]
      spec_wp [OF spec_import])
qed

lemma spec_tree_loop: "spec b f 2 (n div 2) 0 (\<lambda>_ _. True) (tree_loop n ex ds)"
proof (induction n arbitrary: ds)
  case (Suc n)
  show ?case
    by (rule specI) (auto intro!: wp_peek spec_wp [OF spec_root] spec_wp [OF Suc.IH])
qed (simp add: spec_def)

section \<open>The whole parser\<close>

lemma skip_shebang_ascii:
  assumes "lexer_good lx"
  shows "\<exists>lx'. skip_shebang lx = Some lx' \<and> lexer_good lx' \<and> lx_peeked lx' = lx_peeked lx \<and> lexer_left lx' \<le> lexer_left lx"
proof -
  obtain b t where b: "eat_str ''#!'' (lx_input lx) = (b, t)" by (cases "eat_str ''#!'' (lx_input lx)")
  show ?thesis
  proof (cases "\<exists>c u. b \<and> t = c # u \<and> \<not> is_whitespace c")
    case True
    then obtain c u where c: "b" "t = c # u" "\<not> is_whitespace c" by blast
    let ?v = "eat_until (ch CHR 0x0A) (c # u)"
    have "suffix ?v t" unfolding c(2) eat_until_def by (rule suffix_eat_until_fn)
    then obtain a where "t = a @ ?v" by (auto simp: suffix_def)
    then have input: "lx_input lx = (lit ''#!'' @ a) @ ?v" using b c by (simp add: eat_str_True_iff)
    have good: "in_source lx" using assms by (simp add: lexer_good_def)
    have "skip_shebang lx = Some (lx\<lparr>lx_input := ?v\<rparr>)"
      using bump_to_append [OF input good] b c by (simp add: skip_shebang_def)
    moreover have "lexer_good (lx\<lparr>lx_input := ?v\<rparr>)"
      using assms input by (auto simp: lexer_good_def in_source_def)
    moreover have "byte_len ?v \<le> byte_len (lx_input lx)" by (subst input) simp
    ultimately show ?thesis by (simp add: lexer_left_def)
  next
    case False
    with b assms show ?thesis by (auto simp: skip_shebang_def split: list.splits bool.splits)
  qed
qed

lemma spec_tree: "spec b f 2 (n div 2) 0 (\<lambda>_ _. True) (tree n ex)"
proof (rule specI)
  fix p assume p: "good b f p" "peeked p \<le> 2" "left p < n div 2"
  then have "lexer_good (p_lexer p)" by (simp add: good_def)
  from skip_shebang_ascii [OF this] obtain lx where lx: "skip_shebang (p_lexer p) = Some lx" "lexer_good lx"
    "lx_peeked lx = lx_peeked (p_lexer p)" "lexer_left lx \<le> left p" by blast
  show "wp (tree n ex) (\<lambda>x p'. good b f p' \<and> peeked p' \<le> 2 \<and> spanned p \<le> spanned p' \<and> left p' + 0 \<le> left p \<and> True) p"
    unfolding tree_def
    by simp (rule wp_lex [where P = "\<lambda>_ lx'. lx' = lx"], use lx in simp,
      use lx p good_lexer [OF p(1) lx(2)] in \<open>auto intro!: spec_wp [OF spec_tree_loop]\<close>)
qed

lemma good_start:
  assumes "ascii input"
  shows "good (length (span_table s)) file
    \<lparr>p_file = file, p_file_length = byte_len input, p_lexer = lexer_new input, p_spans = s\<rparr>"
  using assms by (simp add: good_def lexer_good_def in_source_def lexer_new_def)

text \<open>What a run ends with: a value whose new spans all lie in the file, or a reported error.\<close>

fun returns :: "nat \<Rightarrow> nat \<Rightarrow> 'a parsed \<Rightarrow> bool" where
  "returns b file (Parsed x p) \<longleftrightarrow>
     b \<le> length (span_table (p_spans p)) \<and> (\<forall>sp \<in> set (drop b (span_table (p_spans p))). span_file sp = file)"
| "returns b file (Failed e p) \<longleftrightarrow> True"
| "returns b file Panicked \<longleftrightarrow> False"
| "returns b file OutOfFuel \<longleftrightarrow> False"

lemma run_parser_returns:
  assumes "spec (length (span_table s)) file 2 k 0 R m" and "ascii input" and "length input < k"
  shows "returns (length (span_table s)) file (run_parser ex m file s input)"
proof -
  let ?b = "length (span_table s)"
  let ?p = "\<lparr>p_file = file, p_file_length = byte_len input, p_lexer = lexer_new input, p_spans = s\<rparr>"
  have "wp m (\<lambda>x p'. good ?b file p') ?p"
    by (rule spec_wp [OF assms(1) good_start [OF assms(2)]])
      (use assms(2,3) in \<open>simp_all add: lexer_new_def lexer_left_def byte_len_ascii\<close>)
  moreover have "returns ?b file (case lexer_next (ex_unicode ex) (p_lexer p) of
             None \<Rightarrow> Panicked
           | Some (Some (_, sp), lx) \<Rightarrow>
               Failed (plain_error FailedToParseEntireInput (span_new file sp)) (p\<lparr>p_lexer := lx\<rparr>)
           | Some (None, lx) \<Rightarrow> Parsed x (p\<lparr>p_lexer := lx\<rparr>))"
    if g: "good ?b file p" for x p
  proof -
    from g have "lexer_good (p_lexer p)" by (simp add: good_def)
    from lexer_next_ascii [OF this, of "ex_unicode ex"] obtain r lx
      where "lexer_next (ex_unicode ex) (p_lexer p) = Some (r, lx)" by blast
    moreover have "\<forall>sp \<in> set (drop ?b (span_table (p_spans p))). span_file sp = file"
      using g by (auto simp: good_def in_set_conv_nth)
    ultimately show ?thesis using g by (auto simp: good_def split: option.splits)
  qed
  ultimately show ?thesis unfolding run_parser_def wp_def by (auto split: parsed.splits)
qed

lemma spec_signature: "spec b f 2 (Suc n) 0 (\<lambda>_ _. True) (signature_p n ex)"
  by (rule specI) (auto simp: signature_p_def
    intro!: item_rules spec_wp [OF spec_type_parameters] spec_wp [OF spec_return_type]
      spec_wp [OF spec_separated [OF spec_type_expr order_refl]])

text \<open>
  C12. Parsing an ASCII source is total and never panics: with two units of fuel for every byte (and two more)
  \<open>SyntaxTree::parse\<close> gives a syntax tree, all of whose spans lie in the parsed file, or a reported error.
  None of the \<open>unwrap\<close>, slicing, span-merging and position operations on the way can fail.
\<close>

theorem parse_tree_total:
  assumes "\<forall>c \<in> set input. c < 128" and "2 * length input + 2 \<le> n"
  shows "returns (length (span_table s)) file (parse_tree n ex file s input)"
  unfolding parse_tree_def by (rule run_parser_returns [OF spec_tree assms(1)]) (use assms(2) in linarith)

theorem parse_tree_total_witness:
  "returns 1 4 (parse_tree 40 sample_extern 4 \<lparr>span_table = [span_new 0 (0, 1)]\<rparr> (lit ''fn f() { f( }''))"
  using parse_tree_total [of "lit ''fn f() { f( }''" 40 "\<lparr>span_table = [span_new 0 (0, 1)]\<rparr>" 4 sample_extern]
  by (simp add: lit_def)

text \<open>
  The same for the signatures of host functions that a library writes as text.
\<close>

lemma parse_signature_total:
  assumes "\<forall>c \<in> set input. c < 128" and "length input \<le> n"
  shows "returns (length (span_table s)) 0 (parse_signature n ex s input)"
  unfolding parse_signature_def by (rule run_parser_returns [OF spec_signature assms(1)]) (use assms(2) in simp)

section \<open>A block that begins with an f-string\<close>

lemma lexer_next_cons:
  "lx_peeked (p_lexer p) = (Some t, r) # ts \<Longrightarrow>
    p_next ex p = Parsed (t, span_new (p_file p) r) (p\<lparr>p_lexer := (p_lexer p)\<lparr>lx_peeked := ts\<rparr>\<rparr>)"
  by (simp add: p_next_def on_def lex_def lexer_next_def the_parser_def ret_def)

text \<open>
  C37. Deciding whether a brace opens a record or a block makes the lexer read three tokens, also when the
  second one is the start of an f-string.  The third is then lexed inside the text of the f-string: the
  text that \<open>f_string_part\<close> reads begins behind this token, and the token itself is still to be
  read after it.  So a block expression cannot begin with an f-string whose text begins with a token.
\<close>

theorem block_loses_fstring_text:
  assumes "lx_peeked (p_lexer p) = [(Some TCurlyLeft, r1), (Some TFStringStart, r2)]"
    and "next_inner (ex_unicode ex) (p_lexer p) = Some (Some (Some tok, r3), lx)"
  shows "on (is_anonymous_record ex) (\<lambda>is_record. on (take_token ex TCurlyLeft) (\<lambda>_.
      on (take_token ex TFStringStart) (\<lambda>_. on (lex f_string_part) (\<lambda>part. ret (is_record, part))))) p =
    (case f_string_part (lx\<lparr>lx_peeked := [(Some tok, r3)]\<rparr>) of
       None \<Rightarrow> Panicked
     | Some (part, lx') \<Rightarrow> Parsed (False, part) (p\<lparr>p_lexer := lx'\<rparr>))"
proof -
  let ?q = "p\<lparr>p_lexer := lx\<lparr>lx_peeked := [(Some TCurlyLeft, r1), (Some TFStringStart, r2), (Some tok, r3)]\<rparr>\<rparr>"
  have k: "lx_peeked lx = [(Some TCurlyLeft, r1), (Some TFStringStart, r2)]"
    using next_inner_peeked [OF assms(2)] assms(1) by simp
  have two: "p_peek_many ex 2 p = Parsed (Some [TCurlyLeft, TFStringStart]) p"
    using assms(1) by (simp add: p_peek_many_def lex_def peek_many_def checked_sub_def numeral_2_eq_2)
  have three: "p_peek_many ex 3 p = Parsed (Some [TCurlyLeft, TFStringStart, tok]) ?q"
    using assms k by (simp add: p_peek_many_def lex_def peek_many_def checked_sub_def numeral_3_eq_3 numeral_2_eq_2)
  have rec: "is_anonymous_record ex p = Parsed False ?q"
    using two three by (simp add: is_anonymous_record_def on_def ret_def)
  show ?thesis
    by (simp add: on_def rec take_token_def lexer_next_cons ret_def lex_def split: option.splits)
qed

text \<open>The source \<open>{f"+"\<close>, with the brace and the start of the f-string peeked: the f-string read is empty.\<close>

definition sample_block :: parser where
  "sample_block = \<lparr>p_file = 0, p_file_length = 5,
     p_lexer = \<lparr>lx_input = [43, 34], lx_original_length = 5,
       lx_peeked = [(Some TCurlyLeft, (0, 1)), (Some TFStringStart, (1, 3))], lx_almost_keyword = None\<rparr>,
     p_spans = \<lparr>span_table = []\<rparr>\<rparr>"

lemma sample_block_lexes:
  "next_inner sample_unicode (p_lexer sample_block) =
     Some (Some (Some TPlus, (3, 4)), (p_lexer sample_block)\<lparr>lx_input := [34]\<rparr>)"
proof -
  have s: "skip_trivia [43, 34] = [43, 34]"
    by (simp add: lit_def eat_whitespace_def is_whitespace_def eat_str_def skip_trivia.simps Let_def)
  show ?thesis
    by (simp add: next_inner_def next_token_eq in_source_def sample_block_def s Let_def)
      (simp add: or_else_def lit_def ipv6_def ipv4_def two_char_punctuation_def one_char_punctuation_def
        numeral_2_eq_2 numeral_3_eq_3 eat_while_def is_ascii_hexdigit_def
        is_ascii_digit_def eat_str_def two_chars_def one_chars_def emit_def bump_to_def bump_def checked_sub_def
        utf8_len_def Let_def)
qed

lemma sample_block_part:
  "f_string_part ((p_lexer sample_block)\<lparr>lx_input := [34], lx_peeked := [(Some TPlus, (3, 4))]\<rparr>) =
     Some (Some (StringEnd [], (4, 4)), (p_lexer sample_block)\<lparr>lx_input := [], lx_peeked := [(Some TPlus, (3, 4))]\<rparr>)"
  by (simp add: f_string_part_def sample_block_def bump_def checked_sub_def utf8_len_def)

theorem block_loses_fstring_text_witness:
  "\<exists>p'. on (is_anonymous_record sample_extern) (\<lambda>is_record. on (take_token sample_extern TCurlyLeft) (\<lambda>_.
      on (take_token sample_extern TFStringStart) (\<lambda>_. on (lex f_string_part) (\<lambda>part. ret (is_record, part)))))
      sample_block = Parsed (False, Some (StringEnd [], (4, 4))) p'"
proof -
  have 1: "lx_peeked (p_lexer sample_block) = [(Some TCurlyLeft, (0, 1)), (Some TFStringStart, (1, 3))]"
    by (simp add: sample_block_def)
  have 2: "ex_unicode sample_extern = sample_unicode" by (simp add: sample_extern_def)
  from block_loses_fstring_text [OF 1 sample_block_lexes [folded 2]] sample_block_part show ?thesis by simp
qed

end
