(* ===== verification/Tarjan.thy ===== *)
theory Tarjan
  imports Prelude
begin

text \<open>
  The search for strongly connected components in \<open>src/src/typechecker/value_cycle.rs\<close>.  The map of
  references is an association list, so the theorems hold for every order of its keys and of the
  referenced names.  A stack is a list with its top first.  The recursion takes fuel; a missing vertex,
  where the code would panic, is \<open>None\<close> as well.
\<close>

section \<open>The algorithm\<close>

type_synonym 'v ref_map = "('v \<times> 'v list) list"

record vertex_state =
  vs_index :: nat
  vs_lowlink :: nat

record 'v tarjan_state =
  ts_stack :: "'v list"
  ts_vertices :: "'v \<Rightarrow> vertex_state option"
  ts_next :: nat
  ts_components :: "'v list list"

definition state_new :: "'v tarjan_state" where
  "state_new = \<lparr>ts_stack = [], ts_vertices = Map.empty, ts_next = 0, ts_components = []\<rparr>"

definition update_lowlink :: "'v tarjan_state \<Rightarrow> 'v \<Rightarrow> nat \<Rightarrow> 'v tarjan_state option" where
  "update_lowlink st v new = (case ts_vertices st v of
     None \<Rightarrow> None
   | Some x \<Rightarrow> Some (st\<lparr>ts_vertices := (ts_vertices st)(v \<mapsto> x\<lparr>vs_lowlink := min (vs_lowlink x) new\<rparr>)\<rparr>))"

definition successors :: "'v ref_map \<Rightarrow> 'v \<Rightarrow> 'v list" where
  "successors references v = (case map_of references v of None \<Rightarrow> [] | Some ws \<Rightarrow> ws)"

text \<open>The vertices popped up to and with \<open>v\<close>, and the rest of the stack.\<close>

fun pop_component :: "'v \<Rightarrow> 'v list \<Rightarrow> 'v list \<times> 'v list" where
  "pop_component v [] = ([], [])"
| "pop_component v (w # s) =
     (if w = v then ([w], s) else case pop_component v s of (c, r) \<Rightarrow> (w # c, r))"

definition close_component :: "'v tarjan_state \<Rightarrow> 'v \<Rightarrow> 'v tarjan_state option" where
  "close_component st v = (case ts_vertices st v of
     None \<Rightarrow> None
   | Some x \<Rightarrow>
       if vs_index x = vs_lowlink x
       then (case pop_component v (ts_stack st) of
               (c, r) \<Rightarrow> Some (st\<lparr>ts_stack := r, ts_components := ts_components st @ [c]\<rparr>))
       else Some st)"

definition open_vertex :: "'v tarjan_state \<Rightarrow> 'v \<Rightarrow> 'v tarjan_state" where
  "open_vertex st v = st\<lparr>ts_next := ts_next st + 1,
     ts_vertices := (ts_vertices st)(v \<mapsto> \<lparr>vs_index = ts_next st, vs_lowlink = ts_next st\<rparr>),
     ts_stack := v # ts_stack st\<rparr>"

fun strongly_connect :: "nat \<Rightarrow> 'v ref_map \<Rightarrow> 'v tarjan_state \<Rightarrow> 'v \<Rightarrow> 'v tarjan_state option"
  and connect_all :: "nat \<Rightarrow> 'v ref_map \<Rightarrow> 'v \<Rightarrow> 'v list \<Rightarrow> 'v tarjan_state \<Rightarrow> 'v tarjan_state option" where
  "strongly_connect 0 references st v = None"
| "strongly_connect (Suc n) references st v = do {
     st' \<leftarrow> connect_all n references v (successors references v) (open_vertex st v);
     close_component st' v }"
| "connect_all n references v [] st = Some st"
| "connect_all n references v (w # ws) st = do {
     st' \<leftarrow> (case ts_vertices st w of
         None \<Rightarrow> do {
           st1 \<leftarrow> strongly_connect n references st w;
           x \<leftarrow> ts_vertices st1 w;
           update_lowlink st1 v (vs_lowlink x) }
       | Some x \<Rightarrow> if w \<in> set (ts_stack st) then update_lowlink st v (vs_index x) else Some st);
     connect_all n references v ws st' }"

fun tarjan_loop :: "nat \<Rightarrow> 'v ref_map \<Rightarrow> 'v list \<Rightarrow> 'v tarjan_state \<Rightarrow> 'v tarjan_state option" where
  "tarjan_loop n references [] st = Some st"
| "tarjan_loop n references (v # vs) st = do {
     st' \<leftarrow> (if ts_vertices st v = None then strongly_connect n references st v else Some st);
     tarjan_loop n references vs st' }"

definition tarjan :: "nat \<Rightarrow> 'v ref_map \<Rightarrow> 'v list list option" where
  "tarjan n references = map_option ts_components (tarjan_loop n references (map fst references) state_new)"

section \<open>The specification\<close>

definition edge :: "'v ref_map \<Rightarrow> 'v \<Rightarrow> 'v \<Rightarrow> bool" where
  "edge references v w \<longleftrightarrow> w \<in> set (successors references v)"

abbreviation reach :: "'v ref_map \<Rightarrow> 'v \<Rightarrow> 'v \<Rightarrow> bool" where
  "reach references \<equiv> (edge references)\<^sup>*\<^sup>*"

definition vertices :: "'v ref_map \<Rightarrow> 'v set" where
  "vertices references = fst ` set references \<union> (\<Union>(v, ws) \<in> set references. set ws)"

text \<open>A strongly connected component: the vertices that reach one of them and are reached by it.\<close>

definition is_component :: "'v ref_map \<Rightarrow> 'v set \<Rightarrow> bool" where
  "is_component references c \<longleftrightarrow> c \<noteq> {} \<and> (\<forall>x \<in> c. \<forall>y. y \<in> c \<longleftrightarrow> reach references x y \<and> reach references y x)"

lemma crossing:
  assumes "reach g x z" and "x \<in> c" and "z \<notin> c"
  shows "\<exists>a b. a \<in> c \<and> b \<notin> c \<and> edge g a b \<and> reach g b z"
  using assms by (induction rule: converse_rtranclp_induct) auto

section \<open>The invariant\<close>

abbreviation visited :: "'v tarjan_state \<Rightarrow> 'v set" where
  "visited st \<equiv> dom (ts_vertices st)"

definition num :: "'v tarjan_state \<Rightarrow> 'v \<Rightarrow> nat" where
  "num st v = vs_index (the (ts_vertices st v))"

definition low :: "'v tarjan_state \<Rightarrow> 'v \<Rightarrow> nat" where
  "low st v = vs_lowlink (the (ts_vertices st v))"

abbreviation closed_set :: "'v tarjan_state \<Rightarrow> 'v set" where
  "closed_set st \<equiv> set (concat (ts_components st))"

abbreviation open_set :: "'v tarjan_state \<Rightarrow> 'v set" where
  "open_set st \<equiv> set (ts_stack st)"

text \<open>The finished components, in the order they were finished: each refers to itself and earlier ones.\<close>

fun ordered :: "'v ref_map \<Rightarrow> 'v list list \<Rightarrow> 'v set \<Rightarrow> bool" where
  "ordered g [] before \<longleftrightarrow> True"
| "ordered g (c # cs) before \<longleftrightarrow>
     is_component g (set c) \<and> distinct c \<and> set c \<inter> before = {} \<and>
     (\<forall>x y. x \<in> set c \<longrightarrow> edge g x y \<longrightarrow> y \<in> set c \<union> before) \<and> ordered g cs (before \<union> set c)"

text \<open>\<open>active\<close> are the vertices whose calls have not returned.\<close>

definition stack_ok :: "'v tarjan_state \<Rightarrow> bool" where
  "stack_ok st \<longleftrightarrow> sorted_wrt (\<lambda>x y. num st y < num st x) (ts_stack st) \<and>
     visited st = open_set st \<union> closed_set st \<and> open_set st \<inter> closed_set st = {} \<and>
     (\<forall>x \<in> visited st. num st x < ts_next st)"

definition search_ok :: "'v ref_map \<Rightarrow> 'v set \<Rightarrow> 'v tarjan_state \<Rightarrow> bool" where
  "search_ok g active st \<longleftrightarrow> stack_ok st \<and> active \<subseteq> open_set st \<and>
     (\<forall>x \<in> visited st - active. \<forall>y. edge g x y \<longrightarrow> y \<in> visited st) \<and>
     (\<forall>x \<in> open_set st. \<exists>y \<in> active. num st y \<le> num st x \<and> reach g x y) \<and>
     (\<forall>x \<in> open_set st. \<forall>y \<in> open_set st. num st x \<le> num st y \<longrightarrow> reach g x y) \<and>
     ordered g (ts_components st) {}"

lemma ordered_append:
  "ordered g (cs @ [c]) before \<longleftrightarrow> ordered g cs before \<and> is_component g (set c) \<and> distinct c \<and>
     set c \<inter> (before \<union> set (concat cs)) = {} \<and>
     (\<forall>x y. x \<in> set c \<longrightarrow> edge g x y \<longrightarrow> y \<in> set c \<union> (before \<union> set (concat cs)))"
  by (induction cs arbitrary: before) (auto simp: Un_assoc)

lemma ordered_closed:
  "ordered g cs before \<Longrightarrow> x \<in> set (concat cs) \<Longrightarrow> edge g x y \<Longrightarrow> y \<in> set (concat cs) \<union> before"
  by (induction cs arbitrary: before) (simp, fastforce)

lemma closed_reach:
  "ordered g cs {} \<Longrightarrow> x \<in> set (concat cs) \<Longrightarrow> reach g x y \<Longrightarrow> y \<in> set (concat cs)"
  by (rotate_tac 2, induction rule: rtranclp_induct) (use ordered_closed in fastforce)+

lemma pop_component_split: "v \<notin> set new \<Longrightarrow> pop_component v (new @ v # old) = (new @ [v], old)"
  by (induction new) auto

lemma search_ok_cong:
  assumes "ts_stack st' = ts_stack st" and "visited st' = visited st" and "\<And>x. num st' x = num st x"
    and "ts_next st' = ts_next st" and "ts_components st' = ts_components st"
  shows "search_ok g active st' \<longleftrightarrow> search_ok g active st"
  using assms by (simp add: search_ok_def stack_ok_def)

lemma update_lowlink_ok:
  assumes "v \<in> visited st"
  obtains st' where "update_lowlink st v n = Some st'" "ts_stack st' = ts_stack st" "visited st' = visited st"
    "ts_next st' = ts_next st" "ts_components st' = ts_components st" "\<And>x. num st' x = num st x"
    "low st' v = min (low st v) n" "\<And>x. x \<noteq> v \<Longrightarrow> ts_vertices st' x = ts_vertices st x"
proof -
  obtain x where "ts_vertices st v = Some x" using assms by blast
  with that [of "st\<lparr>ts_vertices := (ts_vertices st)(v \<mapsto> x\<lparr>vs_lowlink := min (vs_lowlink x) n\<rparr>)\<rparr>"]
  show thesis by (auto simp: update_lowlink_def num_def low_def insert_absorb [OF assms] split: if_splits)
qed

section \<open>One call\<close>

text \<open>What has changed from \<open>s\<close> to \<open>st\<close> when a call has returned.\<close>

definition extends :: "'v tarjan_state \<Rightarrow> 'v tarjan_state \<Rightarrow> bool" where
  "extends s st \<longleftrightarrow> (\<exists>new. ts_stack st = new @ ts_stack s) \<and>
     (\<forall>x \<in> visited s. ts_vertices st x = ts_vertices s x) \<and> ts_next s \<le> ts_next st \<and>
     (\<forall>x \<in> visited st - visited s. ts_next s \<le> num st x) \<and> (\<exists>cs. ts_components st = ts_components s @ cs)"

text \<open>The result for the vertex the call was for.\<close>

definition finished :: "'v ref_map \<Rightarrow> 'v tarjan_state \<Rightarrow> 'v \<Rightarrow> 'v tarjan_state \<Rightarrow> bool" where
  "finished g s v st \<longleftrightarrow> v \<in> visited st \<and>
     (if v \<in> open_set st then \<exists>y \<in> open_set s. num st y = low st v \<and> reach g v y else low st v = num st v) \<and>
     (\<forall>x \<in> open_set st - open_set s. \<forall>y \<in> open_set s. edge g x y \<longrightarrow> low st v \<le> num st y)"

text \<open>The state of the loop in a call for \<open>v\<close> from \<open>s\<close>, when the successors in \<open>seen\<close> have been looked at.\<close>

definition grown :: "'v tarjan_state \<Rightarrow> 'v \<Rightarrow> 'v tarjan_state \<Rightarrow> bool" where
  "grown s v st \<longleftrightarrow> (\<exists>new. ts_stack st = new @ v # ts_stack s) \<and>
     (\<forall>x \<in> visited s. ts_vertices st x = ts_vertices s x) \<and>
     (\<forall>x \<in> visited st - visited s. ts_next s \<le> num st x) \<and> (\<exists>cs. ts_components st = ts_components s @ cs) \<and>
     v \<in> visited st - visited s \<and> num st v = ts_next s \<and> ts_next s < ts_next st"

definition low_real :: "'v ref_map \<Rightarrow> 'v tarjan_state \<Rightarrow> 'v \<Rightarrow> 'v tarjan_state \<Rightarrow> nat \<Rightarrow> bool" where
  "low_real g s v st n \<longleftrightarrow> num st v \<le> n \<or> (\<exists>y \<in> open_set s. num st y = n \<and> reach g v y)"

definition low_least :: "'v ref_map \<Rightarrow> 'v tarjan_state \<Rightarrow> 'v \<Rightarrow> 'v tarjan_state \<Rightarrow> bool" where
  "low_least g s v st \<longleftrightarrow> low st v \<le> num st v \<and>
     (\<forall>x \<in> open_set st - insert v (open_set s). \<forall>y \<in> open_set s. edge g x y \<longrightarrow> low st v \<le> num st y)"

definition looked_at :: "'v tarjan_state \<Rightarrow> 'v \<Rightarrow> 'v tarjan_state \<Rightarrow> 'v \<Rightarrow> bool" where
  "looked_at s v st w \<longleftrightarrow> w \<in> visited st \<and> (w \<in> open_set s \<longrightarrow> low st v \<le> num st w)"

definition in_call :: "'v ref_map \<Rightarrow> 'v tarjan_state \<Rightarrow> 'v \<Rightarrow> 'v set \<Rightarrow> 'v tarjan_state \<Rightarrow> bool" where
  "in_call g s v seen st \<longleftrightarrow> grown s v st \<and> low_real g s v st (low st v) \<and> low_least g s v st \<and>
     (\<forall>w \<in> seen. looked_at s v st w)"

lemma num_extends: "\<forall>x \<in> visited s. ts_vertices st x = ts_vertices s x \<Longrightarrow> x \<in> visited s \<Longrightarrow> num st x = num s x"
  by (simp add: num_def)

lemma search_ok_edge:
  "search_ok g a st \<Longrightarrow> x \<in> visited st - a \<Longrightarrow> edge g x y \<Longrightarrow> y \<in> visited st"
  unfolding search_ok_def by blast

lemma open_visited: "search_ok g a st \<Longrightarrow> open_set st \<subseteq> visited st"
  by (auto simp: search_ok_def stack_ok_def)

lemma open_below_next: "search_ok g a st \<Longrightarrow> x \<in> open_set st \<Longrightarrow> num st x < ts_next st"
  using open_visited by (fastforce simp: search_ok_def stack_ok_def)

lemma call_starts:
  assumes ok: "search_ok g active s" and v: "v \<notin> visited s" and to: "\<forall>x \<in> active. reach g x v"
  shows "search_ok g (insert v active) (open_vertex s v) \<and> in_call g s v {} (open_vertex s v)"
proof -
  let ?st = "open_vertex s v"
  have fields: "ts_stack ?st = v # ts_stack s" "visited ?st = insert v (visited s)" "ts_next ?st = ts_next s + 1"
    "ts_components ?st = ts_components s" "num ?st v = ts_next s" "low ?st v = ts_next s"
    by (auto simp: open_vertex_def num_def low_def)
  have num: "num ?st x = num s x" if "x \<noteq> v" for x using that by (simp add: open_vertex_def num_def)
  have open_v: "v \<notin> open_set s" using open_visited [OF ok] v by blast
  have below: "\<forall>x \<in> open_set s. num s x < ts_next s" using open_below_next [OF ok] by blast
  have stack: "stack_ok ?st"
  proof -
    have "sorted_wrt (\<lambda>x y. num ?st y < num ?st x) (ts_stack s)"
    proof (rule sorted_wrt_mono_rel)
      show "sorted_wrt (\<lambda>x y. num s y < num s x) (ts_stack s)" using ok by (simp add: search_ok_def stack_ok_def)
    qed (metis num open_v)
    moreover have "\<forall>x \<in> open_set s. num ?st x < ts_next s" using below num open_v by metis
    moreover have "\<forall>x \<in> visited s. num ?st x < ts_next s" using ok num v by (metis search_ok_def stack_ok_def)
    moreover have "visited s = open_set s \<union> closed_set s" "open_set s \<inter> closed_set s = {}"
      using ok by (auto simp: search_ok_def stack_ok_def)
    ultimately show ?thesis using v unfolding stack_ok_def fields
      by (intro conjI) (simp_all add: fields less_Suc_eq)
  qed
  have "search_ok g (insert v active) ?st"
  proof -
    have up: "reach g x v" if "x \<in> open_set s" for x
      using ok that to by (meson rtranclp_trans search_ok_def)
    have "\<forall>x \<in> open_set ?st. \<exists>y \<in> insert v active. num ?st y \<le> num ?st x \<and> reach g x y"
    proof
      fix x assume x: "x \<in> open_set ?st"
      show "\<exists>y \<in> insert v active. num ?st y \<le> num ?st x \<and> reach g x y"
      proof (cases "x = v")
        case False
        with x have xs: "x \<in> open_set s" by (simp add: fields)
        with ok obtain y where y: "y \<in> active" "num s y \<le> num s x" "reach g x y" by (auto simp: search_ok_def)
        then have "y \<noteq> v" using ok open_v by (auto simp: search_ok_def)
        with y False num show ?thesis by auto
      qed auto
    qed
    moreover have "\<forall>x \<in> open_set ?st. \<forall>y \<in> open_set ?st. num ?st x \<le> num ?st y \<longrightarrow> reach g x y"
    proof (intro ballI impI)
      fix x y assume xy: "x \<in> open_set ?st" "y \<in> open_set ?st" "num ?st x \<le> num ?st y"
      show "reach g x y"
      proof (cases "y = v")
        case True
        with xy(1) up show ?thesis by (auto simp: fields)
      next
        case False
        then have ys: "y \<in> open_set s" using xy(2) by (simp add: fields)
        have "x \<noteq> v" using xy(3) False below ys num fields(5) by fastforce
        with xy False ys ok num show ?thesis by (simp add: search_ok_def fields)
      qed
    qed
    ultimately show ?thesis using stack ok open_v by (auto simp: search_ok_def fields)
  qed
  moreover have "in_call g s v {} ?st"
    using v by (auto simp: in_call_def grown_def low_real_def low_least_def fields) (auto simp: open_vertex_def num_def)
  ultimately show ?thesis ..
qed

text \<open>\<open>update_lowlink\<close> with a value that belongs to a vertex of the stack below, or one that changes nothing.\<close>

lemma in_call_update:
  assumes grown: "grown s v st" and real: "low_real g s v st (low st v)" and le: "low st v \<le> num st v"
    and cross: "\<forall>x \<in> open_set st - insert v (open_set s). \<forall>y \<in> open_set s.
      edge g x y \<longrightarrow> low st v \<le> num st y \<or> n \<le> num st y"
    and looked: "\<forall>u \<in> seen. looked_at s v st u" and ok: "search_ok g (insert v active) st"
    and n: "low_real g s v st n" and w: "w \<in> visited st" "w \<in> open_set s \<longrightarrow> n \<le> num st w"
  obtains st' where "update_lowlink st v n = Some st'" and "search_ok g (insert v active) st'"
    and "in_call g s v (insert w seen) st'" and "visited st' = visited st"
proof -
  have v: "v \<in> visited st" "v \<notin> visited s" using grown by (auto simp: grown_def)
  obtain st' where st': "update_lowlink st v n = Some st'" "ts_stack st' = ts_stack st" "visited st' = visited st"
    "ts_next st' = ts_next st" "ts_components st' = ts_components st" "\<And>x. num st' x = num st x"
    "low st' v = min (low st v) n" "\<And>x. x \<noteq> v \<Longrightarrow> ts_vertices st' x = ts_vertices st x"
    using update_lowlink_ok [OF v(1)] by metis
  have below: "low st' v \<le> low st v" "low st' v \<le> n" by (simp_all add: st'(7))
  have "search_ok g (insert v active) st'" using ok search_ok_cong [of st' st] st' by blast
  moreover have "grown s v st'"
  proof -
    have "\<forall>x \<in> visited s. ts_vertices st' x = ts_vertices s x"
      using grown v st'(8) unfolding grown_def by metis
    then show ?thesis using grown unfolding grown_def st'(2,3,4,5,6) by blast
  qed
  moreover have "low_real g s v st' (low st' v)"
    using real n unfolding low_real_def st'(6) by (cases "low st v \<le> n") (simp_all add: st'(7))
  moreover have "low_least g s v st'"
    using cross le below unfolding low_least_def st'(2,6) by (meson order_trans)
  moreover have "looked_at s v st' w" using w below(2) unfolding looked_at_def st'(3,6) by auto
  moreover have "\<forall>u \<in> seen. looked_at s v st' u"
    using looked below(1) unfolding looked_at_def st'(3,6) by (meson order_trans)
  ultimately show thesis using that st'(1,3) by (simp add: in_call_def)
qed

text \<open>A successor that has been visited.\<close>

lemma grown_num:
  assumes "grown s v st" and "w \<in> visited st" and "w \<notin> visited s"
  shows "num st v \<le> num st w"
  using assms by (auto simp: grown_def)

lemma grown_fresh:
  assumes "grown s v st" and "search_ok g a st" and "search_ok g a' s" and "w \<in> open_set st" and "w \<notin> open_set s"
  shows "w \<in> visited st \<and> w \<notin> visited s"
proof -
  have "w \<notin> closed_set st" "w \<in> visited st" using assms(2,4) by (auto simp: search_ok_def stack_ok_def)
  moreover have "closed_set s \<subseteq> closed_set st" using assms(1) by (auto simp: grown_def)
  ultimately show ?thesis using assms(3,5) by (auto simp: search_ok_def stack_ok_def)
qed

lemma call_known:
  assumes call: "in_call g s v seen st" and ok: "search_ok g (insert v active) st" and e: "edge g v w"
    and w: "ts_vertices st w = Some x" "w \<in> open_set st" and s: "search_ok g active s"
  obtains st' where "update_lowlink st v (vs_index x) = Some st'" and "search_ok g (insert v active) st'"
    and "in_call g s v (insert w seen) st'" and "visited st' = visited st"
proof -
  have n: "vs_index x = num st w" using w by (simp add: num_def)
  have wv: "w \<in> visited st" using w(1) by blast
  have "low_real g s v st (num st w)"
  proof (cases "w \<in> open_set s")
    case True
    with e show ?thesis by (auto simp: low_real_def)
  next
    case False
    have g: "grown s v st" using call by (simp add: in_call_def)
    from grown_num [OF g wv] grown_fresh [OF g ok s w(2) False] show ?thesis by (auto simp: in_call_def low_real_def)
  qed
  then show thesis
    using in_call_update [of s v st g "num st w" seen active w] call ok wv n that
    by (auto simp: in_call_def low_least_def)
qed

lemma call_closed:
  assumes call: "in_call g s v seen st" and w: "w \<in> visited st" "w \<notin> open_set st"
  shows "in_call g s v (insert w seen) st"
proof -
  have "w \<notin> open_set s" using call w(2) by (auto simp: in_call_def grown_def)
  with call w show ?thesis by (simp add: in_call_def looked_at_def)
qed

text \<open>A successor for which a call has returned.\<close>

lemma call_returned:
  assumes call: "in_call g s v seen st" and ok: "search_ok g (insert v active) st1" and e: "edge g v w"
    and w: "w \<notin> visited st" and ext: "extends st st1" and fin: "finished g st w st1" and s: "search_ok g active s"
    and ok0: "search_ok g (insert v active) st"
  obtains st' where "update_lowlink st1 v (low st1 w) = Some st'" and "search_ok g (insert v active) st'"
    and "in_call g s v (insert w seen) st'" and "visited st' = visited st1"
proof -
  have g: "grown s v st" using call by (simp add: in_call_def)
  have v: "v \<in> visited st" "v \<notin> visited s" using g by (auto simp: grown_def)
  have same: "\<forall>x \<in> visited st. ts_vertices st1 x = ts_vertices st x" using ext by (simp add: extends_def)
  obtain new where new: "ts_stack st = new @ v # ts_stack s" using g by (auto simp: grown_def)
  obtain nw where nw: "ts_stack st1 = nw @ new @ v # ts_stack s" using ext new by (auto simp: extends_def)
  have old: "visited s \<subseteq> visited st" using g unfolding grown_def by (metis domIff subsetI)
  have more: "visited st \<subseteq> visited st1" using same by (metis domIff subsetI)
  have lowv: "low st1 v = low st v" "num st1 v = num st v" using same v by (simp_all add: low_def num_def)
  have nums: "num st1 x = num st x" if "x \<in> visited st" for x using same that by (simp add: num_def)
  have opens: "open_set s \<subseteq> visited st" using old s open_visited by blast
  have next_s: "ts_next s < ts_next st" using g by (simp add: grown_def)
  have fresh: "num st v \<le> num st1 x" if "x \<in> visited st1" "x \<notin> visited st" for x
  proof -
    have "ts_next st \<le> num st1 x" using ext that by (auto simp: extends_def)
    with next_s g show ?thesis by (simp add: grown_def)
  qed
  have "grown s v st1" unfolding grown_def
  proof (intro conjI)
    show "\<exists>new. ts_stack st1 = new @ v # ts_stack s" using nw by (intro exI [of _ "nw @ new"]) simp
    show "\<forall>x \<in> visited s. ts_vertices st1 x = ts_vertices s x"
      using same old g unfolding grown_def by (metis subsetD)
    show "\<forall>x \<in> visited st1 - visited s. ts_next s \<le> num st1 x"
    proof
      fix x assume x: "x \<in> visited st1 - visited s"
      show "ts_next s \<le> num st1 x"
      proof (cases "x \<in> visited st")
        case True
        with x g nums show ?thesis by (auto simp: grown_def)
      next
        case False
        with x fresh [of x] g show ?thesis by (simp add: grown_def)
      qed
    qed
    show "\<exists>cs. ts_components st1 = ts_components s @ cs" using ext g by (auto simp: grown_def extends_def)
    show "v \<in> visited st1 - visited s" using v more by blast
    show "num st1 v = ts_next s" using lowv g by (simp add: grown_def)
    show "ts_next s < ts_next st1" using next_s ext by (simp add: extends_def)
  qed
  moreover have "low_real g s v st1 (low st1 v)"
    using call nums opens unfolding in_call_def low_real_def lowv by (metis subsetD)
  moreover have "low st1 v \<le> num st1 v" using call by (simp add: in_call_def low_least_def lowv)
  moreover have "\<forall>x \<in> open_set st1 - insert v (open_set s). \<forall>y \<in> open_set s.
      edge g x y \<longrightarrow> low st1 v \<le> num st1 y \<or> low st1 w \<le> num st1 y"
  proof (intro ballI impI)
    fix x y assume xy: "x \<in> open_set st1 - insert v (open_set s)" "y \<in> open_set s" "edge g x y"
    show "low st1 v \<le> num st1 y \<or> low st1 w \<le> num st1 y"
    proof (cases "x \<in> open_set st")
      case True
      with xy call have "low st v \<le> num st y" unfolding in_call_def low_least_def by blast
      moreover have "num st1 y = num st y" using nums opens xy(2) by blast
      ultimately show ?thesis by (simp add: lowv)
    next
      case False
      with xy fin new show ?thesis by (auto simp: finished_def)
    qed
  qed
  moreover have "\<forall>u \<in> seen. looked_at s v st1 u"
    using call nums more unfolding in_call_def looked_at_def lowv by (metis subsetD)
  moreover have "low_real g s v st1 (low st1 w)"
  proof (cases "w \<in> open_set st1")
    case True
    with fin obtain y where y: "y \<in> open_set st" "num st1 y = low st1 w" "reach g w y"
      by (auto simp: finished_def)
    show ?thesis
    proof (cases "y \<in> open_set s")
      case True
      with y e show ?thesis by (auto simp: low_real_def intro: converse_rtranclp_into_rtranclp)
    next
      case False
      have new_y: "y \<in> visited st" "y \<notin> visited s" using grown_fresh [OF g ok0 s y(1) False] by simp_all
      from grown_num [OF g this] nums [OF new_y(1)] y lowv show ?thesis by (simp add: low_real_def)
    qed
  next
    case False
    with fin have "low st1 w = num st1 w" "w \<in> visited st1" by (auto simp: finished_def)
    with fresh [of w] w lowv show ?thesis by (simp add: low_real_def)
  qed
  moreover have "w \<in> visited st1" using fin by (simp add: finished_def)
  moreover have "w \<in> open_set s \<longrightarrow> low st1 w \<le> num st1 w" using w opens by blast
  ultimately show thesis using in_call_update [of s v st1 g "low st1 w" seen active w] ok that by blast
qed

text \<open>The end of a call: the vertex stays on the stack, or its component is complete.\<close>

lemma seen_visited: "in_call g s v seen st \<Longrightarrow> y \<in> seen \<Longrightarrow> y \<in> visited st"
  by (simp add: in_call_def looked_at_def)

lemma call_cross:
  assumes call: "in_call g s v seen st" and all: "\<forall>w. edge g v w \<longrightarrow> w \<in> seen"
    and x: "x \<in> open_set st - open_set s" and y: "y \<in> open_set s" and e: "edge g x y"
  shows "low st v \<le> num st y"
proof (cases "x = v")
  case True
  with all e have "y \<in> seen" by blast
  with call y show ?thesis by (simp add: in_call_def looked_at_def)
next
  case False
  with call x y e show ?thesis unfolding in_call_def low_least_def by blast
qed

lemma call_stays:
  assumes call: "in_call g s v seen st" and ok: "search_ok g (insert v active) st" and s: "search_ok g active s"
    and all: "\<forall>w. edge g v w \<longrightarrow> w \<in> seen" and lower: "low st v \<noteq> num st v"
  shows "search_ok g active st \<and> extends s st \<and> finished g s v st"
proof -
  have g: "grown s v st" using call by (simp add: in_call_def)
  then obtain new where new: "ts_stack st = new @ v # ts_stack s" by (auto simp: grown_def)
  have less: "low st v < num st v" using call lower by (auto simp: in_call_def low_least_def)
  then obtain y where y: "y \<in> open_set s" "num st y = low st v" "reach g v y"
    using call by (auto simp: in_call_def low_real_def)
  have yo: "y \<in> open_set st" using y(1) new by simp
  have below: "\<exists>z \<in> active. num st z \<le> num st v \<and> reach g v z"
  proof -
    from ok yo obtain z where z: "z \<in> insert v active" "num st z \<le> num st y" "reach g y z"
      unfolding search_ok_def by blast
    with less y have "z \<noteq> v" by auto
    have "num st z \<le> num st v" using z(2) y(2) less by linarith
    moreover have "reach g v z" using y(3) z(3) by (rule rtranclp_trans)
    ultimately show ?thesis using z(1) \<open>z \<noteq> v\<close> by blast
  qed
  have "search_ok g active st" unfolding search_ok_def
  proof (intro conjI)
    show "\<forall>x \<in> visited st - active. \<forall>y. edge g x y \<longrightarrow> y \<in> visited st"
    proof (intro ballI allI impI)
      fix x y assume x: "x \<in> visited st - active" and e: "edge g x y"
      show "y \<in> visited st"
      proof (cases "x = v")
        case True
        with e all call show ?thesis by (auto simp: in_call_def looked_at_def)
      next
        case False
        with x e ok show ?thesis unfolding search_ok_def by blast
      qed
    qed
    show "\<forall>x \<in> open_set st. \<exists>y \<in> active. num st y \<le> num st x \<and> reach g x y"
    proof
      fix x assume x: "x \<in> open_set st"
      with ok obtain z where z: "z \<in> insert v active" "num st z \<le> num st x" "reach g x z"
        unfolding search_ok_def by blast
      show "\<exists>y \<in> active. num st y \<le> num st x \<and> reach g x y"
      proof (cases "z = v")
        case True
        with below obtain u where "u \<in> active" "num st u \<le> num st z" "reach g z u" by blast
        with z show ?thesis by (intro bexI [of _ u]) auto
      next
        case False
        with z show ?thesis by blast
      qed
    qed
    show "stack_ok st" "ordered g (ts_components st) {}"
      "\<forall>x \<in> open_set st. \<forall>y \<in> open_set st. num st x \<le> num st y \<longrightarrow> reach g x y" "active \<subseteq> open_set st"
      using ok by (simp_all add: search_ok_def)
  qed
  moreover have "extends s st" unfolding extends_def
  proof (intro conjI)
    show "\<exists>new. ts_stack st = new @ ts_stack s" using new by (intro exI [of _ "new @ [v]"]) simp
  qed (use g in \<open>auto simp: grown_def\<close>)
  moreover have "finished g s v st" unfolding finished_def
  proof (intro conjI ballI impI)
    show "v \<in> visited st" using g by (auto simp: grown_def)
    show "if v \<in> open_set st then \<exists>y \<in> open_set s. num st y = low st v \<and> reach g v y else low st v = num st v"
      using y new by auto
    show "low st v \<le> num st z" if "x \<in> open_set st - open_set s" "z \<in> open_set s" "edge g x z" for x z
      using call_cross [OF call all] that by blast
  qed
  ultimately show ?thesis by blast
qed

lemma sorted_stack_distinct: "sorted_wrt (\<lambda>x y. f y < (f x :: nat)) xs \<Longrightarrow> distinct xs"
  by (induction xs) auto

lemma call_component:
  assumes call: "in_call g s v seen st" and ok: "search_ok g (insert v active) st" and s: "search_ok g active s"
    and all: "\<forall>w. edge g v w \<longrightarrow> w \<in> seen" and same: "low st v = num st v" and new: "ts_stack st = new @ v # ts_stack s"
  shows "is_component g (set (new @ [v]))"
    and "x \<in> set (new @ [v]) \<Longrightarrow> edge g x y \<Longrightarrow> y \<in> set (new @ [v]) \<union> closed_set st"
proof -
  let ?c = "set (new @ [v])"
  have g: "grown s v st" using call by (simp add: in_call_def)
  have sorted: "sorted_wrt (\<lambda>x y. num st y < num st x) (ts_stack st)" using ok by (simp add: search_ok_def stack_ok_def)
  have dist: "distinct (new @ v # ts_stack s)" using sorted_stack_distinct [OF sorted] new by simp
  have olds: "num st y < num st v" if "y \<in> open_set s" for y
    using sorted that unfolding new by (simp add: sorted_wrt_append)
  have high: "num st v \<le> num st x" if "x \<in> ?c" for x
    using sorted that unfolding new by (auto simp: sorted_wrt_append)
  have cs: "?c \<subseteq> open_set st" "open_set st = ?c \<union> open_set s" "?c \<inter> open_set s = {}"
    using new dist by auto
  have vis: "visited st = open_set st \<union> closed_set st" "open_set st \<inter> closed_set st = {}"
    using ok by (auto simp: search_ok_def stack_ok_def)
  have inactive: "?c - {v} \<subseteq> visited st - insert v active"
  proof -
    have "active \<subseteq> open_set s" using s by (simp add: search_ok_def)
    with cs vis show ?thesis by auto
  qed
  have succ: "y \<in> ?c \<union> closed_set st" if "x \<in> ?c" "edge g x y" for x y
  proof -
    have "y \<in> visited st"
    proof (cases "x = v")
      case True
      with that(2) have "edge g v y" by simp
      with all have "y \<in> seen" by simp
      with call show ?thesis by (rule seen_visited)
    next
      case False
      with that(1) inactive have "x \<in> visited st - insert v active" by blast
      from search_ok_edge [OF ok this that(2)] show ?thesis .
    qed
    moreover have "y \<notin> open_set s"
    proof
      assume y: "y \<in> open_set s"
      from call_cross [OF call all _ y that(2)] that(1) cs have "low st v \<le> num st y" by blast
      with olds [OF y] same show False by simp
    qed
    ultimately show ?thesis using vis(1) cs(2) by blast
  qed
  then show "x \<in> ?c \<Longrightarrow> edge g x y \<Longrightarrow> y \<in> ?c \<union> closed_set st" by blast
  have closed: "z \<in> closed_set st" if "y \<in> closed_set st" "reach g y z" for y z
    using closed_reach [OF _ that] ok by (simp add: search_ok_def)
  have leave: "z \<in> ?c \<union> closed_set st" if "x \<in> ?c" "reach g x z" for x z
    using crossing [OF that(2,1)] succ closed by blast
  have down: "reach g v x" if "x \<in> ?c" for x
    using ok cs high [OF that] that unfolding search_ok_def by auto
  have up: "reach g x v" if x: "x \<in> ?c" for x
  proof -
    from ok x cs obtain z where z: "z \<in> insert v active" "reach g x z" unfolding search_ok_def by blast
    have "z \<in> open_set st" using z(1) ok by (auto simp: search_ok_def)
    with leave [OF x z(2)] vis have "z \<in> ?c" by blast
    then have "z = v" using z(1) s cs(3) by (auto simp: search_ok_def)
    with z(2) show ?thesis by simp
  qed
  show "is_component g ?c" unfolding is_component_def
  proof (intro conjI ballI allI iffI)
    fix x y assume x: "x \<in> ?c"
    {
      assume y: "y \<in> ?c"
      show "reach g x y" "reach g y x" using up [OF x] down [OF y] up [OF y] down [OF x] by (auto intro: rtranclp_trans)
    }
    assume "reach g x y \<and> reach g y x"
    with leave [OF x] closed [of y x] x cs vis show "y \<in> ?c" by blast
  qed simp
qed

lemma call_closes:
  assumes call: "in_call g s v seen st" and ok: "search_ok g (insert v active) st" and s: "search_ok g active s"
    and all: "\<forall>w. edge g v w \<longrightarrow> w \<in> seen" and same: "low st v = num st v"
    and new: "ts_stack st = new @ v # ts_stack s"
    and st': "st' = st\<lparr>ts_stack := ts_stack s, ts_components := ts_components st @ [new @ [v]]\<rparr>"
  shows "search_ok g active st' \<and> extends s st' \<and> finished g s v st'"
proof -
  have g: "grown s v st" using call by (simp add: in_call_def)
  have sorted: "sorted_wrt (\<lambda>x y. num st y < num st x) (ts_stack st)" using ok by (simp add: search_ok_def stack_ok_def)
  have dist: "distinct (new @ v # ts_stack s)" using sorted_stack_distinct [OF sorted] new by simp
  have nums: "num st' x = num st x" "low st' x = low st x" for x by (simp_all add: st' num_def low_def)
  have olds: "num st x = num s x" if "x \<in> visited s" for x using g that by (simp add: grown_def num_def)
  note comp = call_component [OF call ok s all same new]
  have vis: "visited st = open_set st \<union> closed_set st" "open_set st \<inter> closed_set st = {}"
    using ok by (auto simp: search_ok_def stack_ok_def)
  have sets: "visited st' = visited st" "open_set st' = open_set s" "closed_set st' = closed_set st \<union> set (new @ [v])"
    by (auto simp: st')
  have opens: "open_set st = set (new @ [v]) \<union> open_set s" "set (new @ [v]) \<inter> open_set s = {}" using new dist by auto
  have "stack_ok st'" unfolding stack_ok_def sets nums
  proof (intro conjI)
    show "sorted_wrt (\<lambda>x y. num st y < num st x) (ts_stack st')"
      using sorted unfolding new by (simp add: st' sorted_wrt_append)
    show "visited st = open_set s \<union> (closed_set st \<union> set (new @ [v]))" using vis(1) opens(1) by blast
    show "open_set s \<inter> (closed_set st \<union> set (new @ [v])) = {}" using vis(2) opens by blast
    show "\<forall>x \<in> visited st. num st x < ts_next st'" using ok by (simp add: st' search_ok_def stack_ok_def)
  qed
  moreover have "ordered g (ts_components st') {}"
  proof -
    have "distinct (new @ [v])" using dist by auto
    moreover have "set (new @ [v]) \<inter> closed_set st = {}" using vis(2) opens(1) by blast
    ultimately show ?thesis using ok comp by (simp add: st' search_ok_def ordered_append)
  qed
  moreover have "\<forall>x \<in> visited st' - active. \<forall>y. edge g x y \<longrightarrow> y \<in> visited st'"
  proof (intro ballI allI impI)
    fix x y assume x: "x \<in> visited st' - active" and e: "edge g x y"
    show "y \<in> visited st'"
    proof (cases "x = v")
      case True
      with e all call show ?thesis by (auto simp: in_call_def looked_at_def sets)
    next
      case False
      with x e ok show ?thesis unfolding search_ok_def sets by blast
    qed
  qed
  moreover have "\<forall>x \<in> open_set s. num st x = num s x" using olds open_visited [OF s] by blast
  ultimately have "search_ok g active st'"
    using s unfolding search_ok_def sets nums by (intro conjI) (simp_all, metis subsetD)
  moreover have "extends s st'"
    using g unfolding extends_def grown_def sets nums by (auto simp: st')
  moreover have "finished g s v st'"
  proof -
    have "v \<in> visited st" "v \<notin> open_set s" using g opens(2) by (auto simp: grown_def)
    with same show ?thesis by (auto simp: finished_def sets nums)
  qed
  ultimately show ?thesis by blast
qed

section \<open>All calls\<close>

text \<open>With fuel for every vertex that has not been visited, a call returns and does what it should.\<close>

definition call_ok :: "'v ref_map \<Rightarrow> 'v set \<Rightarrow> nat \<Rightarrow> bool" where
  "call_ok g V n \<longleftrightarrow> (\<forall>active s v. search_ok g active s \<and> v \<notin> visited s \<and> v \<in> V \<and> (\<forall>x \<in> active. reach g x v) \<and>
     visited s \<subseteq> V \<and> card (V - visited s) \<le> n \<longrightarrow>
     (\<exists>st. strongly_connect n g s v = Some st \<and> search_ok g active st \<and> extends s st \<and> finished g s v st \<and>
        visited st \<subseteq> V))"

lemma extends_visited: "extends s st \<Longrightarrow> visited s \<subseteq> visited st"
  unfolding extends_def by (metis domIff subsetI)

lemma connect_all_ok:
  assumes calls: "call_ok g V n" and V: "finite V" "\<forall>x \<in> V. \<forall>y. edge g x y \<longrightarrow> y \<in> V"
    and s: "search_ok g active s" and v: "v \<in> V" "\<forall>x \<in> active. reach g x v"
  shows "in_call g s v seen st \<Longrightarrow> search_ok g (insert v active) st \<Longrightarrow> \<forall>w \<in> set ws. edge g v w \<Longrightarrow>
    visited st \<subseteq> V \<Longrightarrow> card (V - visited st) \<le> n \<Longrightarrow>
    \<exists>st'. connect_all n g v ws st = Some st' \<and> in_call g s v (seen \<union> set ws) st' \<and>
      search_ok g (insert v active) st' \<and> visited st' \<subseteq> V"
proof (induction ws arbitrary: seen st)
  case (Cons w ws)
  have e: "edge g v w" using Cons.prems(3) by simp
  have "\<exists>st'. (case ts_vertices st w of
         None \<Rightarrow> do {
           st1 \<leftarrow> strongly_connect n g st w;
           x \<leftarrow> ts_vertices st1 w;
           update_lowlink st1 v (vs_lowlink x) }
       | Some x \<Rightarrow> if w \<in> set (ts_stack st) then update_lowlink st v (vs_index x) else Some st) = Some st' \<and>
      search_ok g (insert v active) st' \<and> in_call g s v (insert w seen) st' \<and> visited st \<subseteq> visited st' \<and> visited st' \<subseteq> V"
  proof (cases "ts_vertices st w")
    case None
    then have w: "w \<notin> visited st" by auto
    have "\<forall>x \<in> insert v active. reach g x w" using v(2) e by (auto intro: rtranclp.rtrancl_into_rtrancl)
    moreover have "w \<in> V" using V(2) v(1) e by blast
    ultimately obtain st1 where st1: "strongly_connect n g st w = Some st1"
      "search_ok g (insert v active) st1" "extends st st1" "finished g st w st1" "visited st1 \<subseteq> V"
      using calls w Cons.prems unfolding call_ok_def by blast
    obtain x where x: "ts_vertices st1 w = Some x" using st1(4) by (auto simp: finished_def)
    then have low: "vs_lowlink x = low st1 w" by (simp add: low_def)
    obtain st' where "update_lowlink st1 v (low st1 w) = Some st'" "search_ok g (insert v active) st'"
      "in_call g s v (insert w seen) st'" "visited st' = visited st1"
      using call_returned [OF Cons.prems(1) st1(2) e w st1(3,4) s Cons.prems(2)] by blast
    with None st1 x low extends_visited [OF st1(3)] show ?thesis by auto
  next
    case (Some x)
    show ?thesis
    proof (cases "w \<in> open_set st")
      case True
      obtain st' where "update_lowlink st v (vs_index x) = Some st'" "search_ok g (insert v active) st'"
        "in_call g s v (insert w seen) st'" "visited st' = visited st"
        using call_known [OF Cons.prems(1,2) e Some True s] by blast
      with Some True Cons.prems(4) show ?thesis by auto
    next
      case False
      then have "in_call g s v (insert w seen) st" using call_closed [OF Cons.prems(1)] Some by blast
      with Some False Cons.prems show ?thesis by auto
    qed
  qed
  then obtain st' where st': "connect_all n g v (w # ws) st = connect_all n g v ws st'"
    "search_ok g (insert v active) st'" "in_call g s v (insert w seen) st'" "visited st \<subseteq> visited st'" "visited st' \<subseteq> V"
    by (auto simp: bind_eq_Some_conv)
  have "card (V - visited st') \<le> card (V - visited st)" using st'(4) V(1) by (intro card_mono) auto
  with Cons.prems(5) have "card (V - visited st') \<le> n" by simp
  from Cons.IH [OF st'(3,2) _ st'(5) this] Cons.prems(3) st'(1) show ?case by simp
qed (simp)

lemma strongly_connect_ok:
  assumes V: "finite V" "\<forall>x \<in> V. \<forall>y. edge g x y \<longrightarrow> y \<in> V"
  shows "call_ok g V n"
proof (induction n)
  case 0
  have "card (V - visited s) \<noteq> 0" if "v \<in> V" "v \<notin> visited s" for v and s :: "'a tarjan_state"
    using that V(1) by auto
  then show ?case unfolding call_ok_def by fastforce
next
  case (Suc n)
  show ?case unfolding call_ok_def
  proof (intro allI impI, elim conjE)
    fix active s v
    assume s: "search_ok g active s" and v: "v \<notin> visited s" "v \<in> V" and to: "\<forall>x \<in> active. reach g x v"
      and sub: "visited s \<subseteq> V" and fuel: "card (V - visited s) \<le> Suc n"
    let ?st = "open_vertex s v"
    have vis: "visited ?st = insert v (visited s)" by (auto simp: open_vertex_def)
    have "card (V - visited ?st) < card (V - visited s)"
      using V(1) v by (intro psubset_card_mono) (auto simp: vis)
    with fuel have n: "card (V - visited ?st) \<le> n" by simp
    have start: "search_ok g (insert v active) ?st" "in_call g s v {} ?st" using call_starts [OF s v(1) to] by auto
    have sub': "visited ?st \<subseteq> V" using sub v(2) vis by simp
    have succs: "\<forall>w \<in> set (successors g v). edge g v w" by (simp add: edge_def)
    obtain st where st: "connect_all n g v (successors g v) ?st = Some st" "in_call g s v ({} \<union> set (successors g v)) st"
      "search_ok g (insert v active) st" "visited st \<subseteq> V"
      using connect_all_ok [OF Suc.IH V s v(2) to start(2,1) succs sub' n] by blast
    have all: "\<forall>w. edge g v w \<longrightarrow> w \<in> {} \<union> set (successors g v)" by (simp add: edge_def)
    have vst: "v \<in> visited st" using st(2) by (auto simp: in_call_def grown_def)
    then obtain x where x: "ts_vertices st v = Some x" by blast
    then have xs: "vs_index x = num st v" "vs_lowlink x = low st v" by (simp_all add: num_def low_def)
    show "\<exists>st. strongly_connect (Suc n) g s v = Some st \<and> search_ok g active st \<and> extends s st \<and> finished g s v st \<and>
        visited st \<subseteq> V"
    proof (cases "low st v = num st v")
      case False
      with x xs st(1) have "strongly_connect (Suc n) g s v = Some st" by (simp add: close_component_def)
      with call_stays [OF st(2,3) s all False] st(4) show ?thesis by blast
    next
      case True
      obtain new where new: "ts_stack st = new @ v # ts_stack s" using st(2) by (auto simp: in_call_def grown_def)
      let ?st' = "st\<lparr>ts_stack := ts_stack s, ts_components := ts_components st @ [new @ [v]]\<rparr>"
      have "distinct (ts_stack st)" using st(3) sorted_stack_distinct by (auto simp: search_ok_def stack_ok_def)
      with new have "pop_component v (ts_stack st) = (new @ [v], ts_stack s)" by (simp add: pop_component_split)
      with x xs True st(1) have "strongly_connect (Suc n) g s v = Some ?st'" by (simp add: close_component_def)
      moreover have "visited ?st' \<subseteq> V" using st(4) by simp
      ultimately show ?thesis using call_closes [OF st(2,3) s all True new refl] by blast
    qed
  qed
qed

section \<open>The whole search\<close>

lemma vertices_closed:
  assumes "edge g x y"
  shows "y \<in> vertices g"
proof (cases "map_of g x")
  case None
  with assms show ?thesis by (simp add: edge_def successors_def)
next
  case (Some ws)
  then have "(x, ws) \<in> set g" by (rule map_of_SomeD)
  moreover have "y \<in> set ws" using assms Some by (simp add: edge_def successors_def)
  ultimately show ?thesis by (force simp: vertices_def)
qed

lemma finite_vertices: "finite (vertices g)"
  by (simp add: vertices_def split_beta)

lemma tarjan_loop_ok:
  assumes "card (vertices g) \<le> n"
  shows "search_ok g {} st \<Longrightarrow> visited st \<subseteq> vertices g \<Longrightarrow> set vs \<subseteq> vertices g \<Longrightarrow>
    \<exists>st'. tarjan_loop n g vs st = Some st' \<and> search_ok g {} st' \<and> visited st \<subseteq> visited st' \<and>
      visited st' \<subseteq> vertices g \<and> set vs \<subseteq> visited st'"
proof (induction vs arbitrary: st)
  case (Cons v vs)
  have calls: "call_ok g (vertices g) n"
    using finite_vertices vertices_closed by (intro strongly_connect_ok) auto
  have "card (vertices g - visited st) \<le> n"
    using assms by (rule order_trans [rotated]) (auto intro: card_mono finite_vertices)
  then have "\<exists>st1. (if ts_vertices st v = None then strongly_connect n g st v else Some st) = Some st1 \<and>
      search_ok g {} st1 \<and> visited st \<subseteq> visited st1 \<and> visited st1 \<subseteq> vertices g \<and> v \<in> visited st1"
  proof (cases "ts_vertices st v = None")
    case True
    then have v: "v \<notin> visited st" by auto
    have "v \<in> vertices g" using Cons.prems(3) by simp
    with v calls Cons.prems(1,2) \<open>card (vertices g - visited st) \<le> n\<close> obtain st1 where
      st1: "strongly_connect n g st v = Some st1" "search_ok g {} st1" "extends st st1" "finished g st v st1"
      "visited st1 \<subseteq> vertices g"
      unfolding call_ok_def by (metis empty_iff)
    have "v \<in> visited st1" using st1(4) by (simp add: finished_def)
    with True st1 extends_visited [OF st1(3)] show ?thesis by auto
  qed (use Cons.prems in auto)
  then obtain st1 where step: "(if ts_vertices st v = None then strongly_connect n g st v else Some st) = Some st1"
    and st1': "search_ok g {} st1" "visited st \<subseteq> visited st1" "visited st1 \<subseteq> vertices g" "v \<in> visited st1"
    by blast
  have "tarjan_loop n g (v # vs) st = tarjan_loop n g vs st1" by (simp add: step)
  note st1 = this st1'
  from Cons.IH [OF st1(2,4)] Cons.prems(3) obtain st' where "tarjan_loop n g vs st1 = Some st'" "search_ok g {} st'"
    "visited st1 \<subseteq> visited st'" "visited st' \<subseteq> vertices g" "set vs \<subseteq> visited st'" by auto
  moreover from this st1(3,5) have "visited st \<subseteq> visited st'" "set (v # vs) \<subseteq> visited st'"
    by (blast, simp add: subset_iff)
  ultimately show ?case using st1(1) by simp
qed simp

lemma ordered_distinct: "ordered g cs before \<Longrightarrow> distinct (concat cs) \<and> set (concat cs) \<inter> before = {}"
  by (induction cs arbitrary: before) (simp, fastforce)

lemma ordered_take: "ordered g cs before \<Longrightarrow> ordered g (take k cs) before"
  by (induction cs arbitrary: before k) (auto simp: take_Cons split: nat.splits)

lemma ordered_components: "ordered g cs before \<Longrightarrow> c \<in> set cs \<Longrightarrow> is_component g (set c)"
  by (induction cs arbitrary: before) auto

lemma concat_nth_unique:
  "distinct (concat cs) \<Longrightarrow> i < length cs \<Longrightarrow> j < length cs \<Longrightarrow> y \<in> set (cs ! i) \<Longrightarrow> y \<in> set (cs ! j) \<Longrightarrow> i = j"
proof (induction cs arbitrary: i j)
  case (Cons c cs)
  have "y \<in> set (concat cs)" if "k < length cs" "y \<in> set (cs ! k)" for k
    using that by auto
  with Cons show ?case by (cases i; cases j) (auto 0 3)
qed simp

lemma ordered_reach:
  assumes "ordered g cs {}" and "i < length cs" and "j < length cs" and "x \<in> set (cs ! i)" and "y \<in> set (cs ! j)"
    and "reach g x y"
  shows "j \<le> i"
proof -
  have "x \<in> set (concat (take (Suc i) cs))" using assms(2,4) by (auto simp: take_Suc_conv_app_nth)
  from closed_reach [OF ordered_take [OF assms(1)] this assms(6)]
  obtain c where "c \<in> set (take (Suc i) cs)" "y \<in> set c" by auto
  then obtain k where k: "k < length cs" "k \<le> i" "y \<in> set (cs ! k)"
    by (metis in_set_conv_nth length_take less_Suc_eq_le min_less_iff_conj nth_take)
  moreover have "k = j" using concat_nth_unique [OF _ k(1) assms(3) k(3) assms(5)] ordered_distinct [OF assms(1)] by blast
  ultimately show ?thesis by simp
qed

lemma tarjan_components:
  assumes "distinct (map fst references)" and "card (vertices references) \<le> n"
  shows "\<exists>cs. tarjan n references = Some cs \<and> distinct (concat cs) \<and> set (concat cs) = vertices references \<and>
    (\<forall>c \<in> set cs. is_component references (set c)) \<and>
    (\<forall>i < length cs. \<forall>j < length cs. \<forall>x \<in> set (cs ! i). \<forall>y \<in> set (cs ! j). reach references x y \<longrightarrow> j \<le> i)"
proof -
  let ?g = references
  have "search_ok ?g {} state_new" by (auto simp: search_ok_def stack_ok_def state_new_def)
  moreover have "visited (state_new :: 'a tarjan_state) \<subseteq> vertices ?g" by (simp add: state_new_def)
  moreover have "set (map fst ?g) \<subseteq> vertices ?g" by (auto simp: vertices_def)
  ultimately obtain st where st: "tarjan_loop n ?g (map fst ?g) state_new = Some st" "search_ok ?g {} st"
    "visited st \<subseteq> vertices ?g" "set (map fst ?g) \<subseteq> visited st"
    using tarjan_loop_ok [OF assms(2)] by blast
  have "open_set st = {}" using st(2) by (auto simp: search_ok_def)
  then have vis: "visited st = set (concat (ts_components st))" using st(2) by (auto simp: search_ok_def stack_ok_def)
  have ord: "ordered ?g (ts_components st) {}" using st(2) by (simp add: search_ok_def)
  have "vertices ?g \<subseteq> visited st"
  proof
    fix y assume "y \<in> vertices ?g"
    then consider "y \<in> set (map fst ?g)" | v ws where "(v, ws) \<in> set ?g" "y \<in> set ws" by (auto simp: vertices_def)
    then show "y \<in> visited st"
    proof cases
      case 2
      then have "edge ?g v y" using assms(1) by (simp add: edge_def successors_def)
      moreover have "v \<in> visited st" using st(4) 2 by force
      ultimately show ?thesis using search_ok_edge [OF st(2)] by blast
    qed (use st(4) in blast)
  qed
  with st(3) vis have "set (concat (ts_components st)) = vertices ?g" by auto
  moreover have "tarjan n ?g = Some (ts_components st)" using st(1) by (simp add: tarjan_def)
  ultimately show ?thesis
    using ordered_distinct [OF ord] ordered_components [OF ord] ordered_reach [OF ord] by blast
qed

text \<open>
  C15. \<open>tarjan\<close> returns, never misses a vertex, and gives every vertex in exactly one component; its components
  are exactly the strongly connected components of the references, and each comes behind the ones
  it refers to.
\<close>

theorem tarjan_correct:
  assumes "distinct (map fst references)" and "card (vertices references) \<le> n"
  shows "\<exists>cs. tarjan n references = Some cs \<and> distinct (concat cs) \<and> set (concat cs) = vertices references \<and>
    (\<forall>c \<in> set cs. is_component references (set c)) \<and>
    (\<forall>i < length cs. \<forall>j < length cs. \<forall>x \<in> set (cs ! i). \<forall>y \<in> set (cs ! j). reach references x y \<longrightarrow> j \<le> i)"
  using assms by (rule tarjan_components)

text \<open>The first example of the tests in the source, with its result.\<close>

definition sample_references :: "nat ref_map" where
  "sample_references = [(1, [2]), (2, [3, 4]), (3, [2, 4]), (4, [])]"

theorem tarjan_correct_witness:
  "tarjan 4 sample_references = Some [[4], [3, 2], [1]] \<and> is_component sample_references {2, 3}"
proof -
  have 1: "tarjan 4 sample_references = Some [[4], [3, 2], [1]]" by code_simp
  have 2: "card (vertices sample_references) \<le> 4"
  proof -
    have "vertices sample_references = {1, 2, 3, 4}" by (auto simp: vertices_def sample_references_def)
    then show ?thesis by simp
  qed
  from tarjan_correct [OF _ 2] 1 have "is_component sample_references (set [3, 2])"
    by (auto simp: sample_references_def)
  then show ?thesis using 1 by (simp add: insert_commute)
qed

end
