(* ===== verification/Value_Cycle.thy ===== *)
theory Value_Cycle
  imports Tarjan Scope_Graph
begin

text \<open>
  The order in which constants and functions are compiled, from \<open>src/src/typechecker/value_cycle.rs\<close>: the
  graph of references, the check for recursive constants, the check for constants that depend on a
  context variable, and their composition \<open>find_compilation_order\<close>.  \<open>None\<close> is a panic (a name without a
  declaration) or the end of the fuel.
\<close>

section \<open>The graph of references\<close>

text \<open>A \<open>BTreeMap\<close> and its \<open>BTreeSet\<close>s are kept in ascending order.\<close>

definition add_node :: "'v::linorder ref_map \<Rightarrow> 'v \<Rightarrow> 'v ref_map" where
  "add_node references from_node =
     (if map_of references from_node = None then insort_key fst (from_node, []) references else references)"

definition add_edge :: "'v::linorder ref_map \<Rightarrow> 'v \<Rightarrow> 'v \<Rightarrow> 'v ref_map" where
  "add_edge references from_node to_node =
     map (\<lambda>(v, ws). (v, if v = from_node \<and> to_node \<notin> set ws then insort to_node ws else ws))
       (add_node references from_node)"

section \<open>The checks\<close>

datatype order_error =
  RecursiveConstant ident meta_id
| ConstantUsesContext ident meta_id

definition is_constant :: "decl \<Rightarrow> bool" where
  "is_constant dec \<longleftrightarrow> (case dec_kind dec of DkValue VkConstant _ \<Rightarrow> True | _ \<Rightarrow> False)"

definition is_context :: "decl \<Rightarrow> bool" where
  "is_context dec \<longleftrightarrow> (case dec_kind dec of DkValue (VkContext _) _ \<Rightarrow> True | _ \<Rightarrow> False)"

fun check_own_references :: "scope_graph \<Rightarrow> resolved_name ref_map \<Rightarrow> (order_error + unit) option" where
  "check_own_references g [] = Some (Inr ())"
| "check_own_references g ((name, refs) # rest) = do {
     dec \<leftarrow> get_declaration g name;
     (if is_constant dec \<and> name \<in> set refs
      then Some (Inl (RecursiveConstant (rn_ident (dec_name dec)) (dec_id dec)))
      else check_own_references g rest) }"

fun check_component :: "scope_graph \<Rightarrow> resolved_name list \<Rightarrow> (order_error + unit) option" where
  "check_component g [] = Some (Inr ())"
| "check_component g (name # rest) = do {
     dec \<leftarrow> get_declaration g name;
     (if is_constant dec
      then Some (Inl (RecursiveConstant (rn_ident (dec_name dec)) (dec_id dec)))
      else check_component g rest) }"

fun check_components :: "scope_graph \<Rightarrow> resolved_name list list \<Rightarrow> (order_error + unit) option" where
  "check_components g [] = Some (Inr ())"
| "check_components g (c # cs) =
     (if length c > 1
      then do {
        r \<leftarrow> check_component g c;
        (case r of Inl e \<Rightarrow> Some (Inl e) | Inr _ \<Rightarrow> check_components g cs) }
      else check_components g cs)"

record context_state =
  cs_uses_context :: "resolved_name \<Rightarrow> bool option"
  cs_visited :: "resolved_name set"

fun determine_uses_context ::
    "nat \<Rightarrow> scope_graph \<Rightarrow> resolved_name ref_map \<Rightarrow> context_state \<Rightarrow> resolved_name \<Rightarrow> (context_state \<times> bool) option"
  and any_uses_context ::
    "nat \<Rightarrow> scope_graph \<Rightarrow> resolved_name ref_map \<Rightarrow> resolved_name \<Rightarrow> resolved_name list \<Rightarrow> context_state
       \<Rightarrow> (context_state \<times> bool) option" where
  "determine_uses_context 0 g references st name = None"
| "determine_uses_context (Suc n) g references st name =
     (case cs_uses_context st name of
        Some b \<Rightarrow> Some (st, b)
      | None \<Rightarrow>
          if name \<in> cs_visited st then Some (st, False)
          else do {
            dec \<leftarrow> get_declaration g name;
            (if is_context dec
             then Some (st\<lparr>cs_uses_context := (cs_uses_context st)(name \<mapsto> True)\<rparr>, True)
             else any_uses_context n g references name (successors references name)
               (st\<lparr>cs_visited := insert name (cs_visited st)\<rparr>)) })"
| "any_uses_context n g references name [] st =
     Some (st\<lparr>cs_uses_context := (cs_uses_context st)(name \<mapsto> False)\<rparr>, False)"
| "any_uses_context n g references name (reference # rest) st = do {
     (st', b) \<leftarrow> determine_uses_context n g references st reference;
     (if b then Some (st'\<lparr>cs_uses_context := (cs_uses_context st')(name \<mapsto> True)\<rparr>, True)
      else any_uses_context n g references name rest st') }"

fun context_check_loop ::
  "nat \<Rightarrow> scope_graph \<Rightarrow> resolved_name ref_map \<Rightarrow> resolved_name list \<Rightarrow> context_state \<Rightarrow> (order_error + unit) option" where
  "context_check_loop n g references [] st = Some (Inr ())"
| "context_check_loop n g references (name # rest) st = do {
     dec \<leftarrow> get_declaration g name;
     (if is_constant dec
      then do {
        (st', b) \<leftarrow> determine_uses_context n g references st name;
        (if b then Some (Inl (ConstantUsesContext (rn_ident (dec_name dec)) (dec_id dec)))
         else context_check_loop n g references rest st') }
      else context_check_loop n g references rest st) }"

definition context_check :: "nat \<Rightarrow> scope_graph \<Rightarrow> resolved_name ref_map \<Rightarrow> (order_error + unit) option" where
  "context_check n g references =
     context_check_loop n g references (map fst references) \<lparr>cs_uses_context = Map.empty, cs_visited = {}\<rparr>"

definition find_compilation_order ::
  "nat \<Rightarrow> scope_graph \<Rightarrow> resolved_name ref_map \<Rightarrow> (order_error + resolved_name list) option" where
  "find_compilation_order n g references = do {
     r1 \<leftarrow> check_own_references g references;
     (case r1 of Inl e \<Rightarrow> Some (Inl e) | Inr _ \<Rightarrow> do {
        components \<leftarrow> tarjan n references;
        r2 \<leftarrow> check_components g components;
        (case r2 of Inl e \<Rightarrow> Some (Inl e) | Inr _ \<Rightarrow> do {
           r3 \<leftarrow> context_check n g references;
           (case r3 of Inl e \<Rightarrow> Some (Inl e) | Inr _ \<Rightarrow> Some (Inr (concat components))) }) }) }"

section \<open>The graph keeps its keys apart and gains the edge\<close>

lemma add_node_keys: "distinct (map fst r) \<Longrightarrow> distinct (map fst (add_node r v))"
proof (induction r)
  case (Cons x r)
  then show ?case
    by (auto simp: add_node_def map_of_eq_None_iff set_insort_key distinct_insort split: if_splits)
qed (simp add: add_node_def)

lemma add_node_sorted: "sorted (map fst r) \<Longrightarrow> sorted (map fst (add_node r v))"
  by (simp add: add_node_def sorted_insort_key)

lemma map_of_insort: "map_of r v = None \<Longrightarrow> map_of (insort_key fst (v, x) r) = (map_of r)(v \<mapsto> x)"
  by (induction r) (auto simp: fun_eq_iff split: if_splits)

lemma successors_add_node: "successors (add_node r v) w = successors r w"
  by (auto simp: add_node_def successors_def map_of_insort split: option.splits)

lemma map_of_map_snd: "map_of (map (\<lambda>(v, ws). (v, f v ws)) r) x = map_option (f x) (map_of r x)"
  by (induction r) auto

lemma add_edge_keys: "distinct (map fst r) \<Longrightarrow> distinct (map fst (add_edge r v w))"
  using add_node_keys [of r v] by (simp add: add_edge_def comp_def split_beta)

lemma edge_add_edge: "edge (add_edge r v w) x y \<longleftrightarrow> edge r x y \<or> (x = v \<and> y = w)"
proof -
  have "map_of (add_node r v) v \<noteq> None" by (auto simp: add_node_def map_of_insort)
  then have "successors (add_edge r v w) x =
    (if x = v \<and> w \<notin> set (successors (add_node r v) x) then insort w (successors (add_node r v) x) else successors (add_node r v) x)"
    by (cases "x = v"; cases "map_of (add_node r v) x") (simp_all add: successors_def add_edge_def map_of_map_snd)
  then show ?thesis by (auto simp: edge_def successors_add_node set_insort_key)
qed

section \<open>The context check\<close>

definition constant_name :: "scope_graph \<Rightarrow> resolved_name \<Rightarrow> bool" where
  "constant_name g x \<longleftrightarrow> (\<exists>dec. get_declaration g x = Some dec \<and> is_constant dec)"

definition context_name :: "scope_graph \<Rightarrow> resolved_name \<Rightarrow> bool" where
  "context_name g x \<longleftrightarrow> (\<exists>dec. get_declaration g x = Some dec \<and> is_context dec)"

definition declared :: "scope_graph \<Rightarrow> resolved_name ref_map \<Rightarrow> bool" where
  "declared g references \<longleftrightarrow> (\<forall>x \<in> vertices references. get_declaration g x \<noteq> None)"

text \<open>
  The state while the names in \<open>active\<close> are being looked at and nothing has been found: a name is
  settled as not using the context only when its references are settled or active.
\<close>

definition nothing_found :: "scope_graph \<Rightarrow> resolved_name ref_map \<Rightarrow> resolved_name set \<Rightarrow> context_state \<Rightarrow> bool" where
  "nothing_found g r active st \<longleftrightarrow>
     (\<forall>x \<in> cs_visited st. cs_uses_context st x = Some False \<or> x \<in> active) \<and>
     (\<forall>x. cs_uses_context st x \<noteq> Some True) \<and>
     (\<forall>x. cs_uses_context st x = Some False \<longrightarrow> \<not> context_name g x \<and>
        (\<forall>y. edge r x y \<longrightarrow> cs_uses_context st y = Some False \<or> y \<in> active)) \<and>
     active \<subseteq> cs_visited st \<and> (\<forall>x \<in> active. \<not> context_name g x)"

definition reaches_context :: "scope_graph \<Rightarrow> resolved_name ref_map \<Rightarrow> resolved_name \<Rightarrow> bool" where
  "reaches_context g r x \<longleftrightarrow> (\<exists>y. reach r x y \<and> context_name g y)"

definition not_using :: "scope_graph \<Rightarrow> resolved_name ref_map \<Rightarrow> resolved_name set \<Rightarrow> context_state \<Rightarrow> resolved_name
    \<Rightarrow> context_state \<Rightarrow> bool" where
  "not_using g r active st x st' \<longleftrightarrow> nothing_found g r active st' \<and>
     (cs_uses_context st' x = Some False \<or> x \<in> active) \<and> cs_visited st \<subseteq> cs_visited st' \<and>
     (\<forall>y. cs_uses_context st y = Some False \<longrightarrow> cs_uses_context st' y = Some False)"

lemma not_using_trans: "not_using g r a st y st1 \<Longrightarrow> not_using g r b st1 x st' \<Longrightarrow> not_using g r b st x st'"
  unfolding not_using_def by blast

text \<open>What the search for a name answers.\<close>

definition search_answers :: "scope_graph \<Rightarrow> resolved_name ref_map \<Rightarrow> nat \<Rightarrow> bool" where
  "search_answers g r n \<longleftrightarrow> (\<forall>active st x. nothing_found g r active st \<and> x \<in> vertices r \<and>
     card (vertices r - cs_visited st) < n \<longrightarrow>
     (\<exists>st' b. determine_uses_context n g r st x = Some (st', b) \<and>
        (if b then reaches_context g r x else not_using g r active st x st')))"

lemma any_uses_context_ok:
  assumes calls: "search_answers g r n" and x: "x \<notin> active"
  shows "nothing_found g r (insert x active) st \<Longrightarrow> \<forall>y \<in> set ys. edge r x y \<Longrightarrow>
    \<forall>y. edge r x y \<longrightarrow> y \<in> set ys \<or> cs_uses_context st y = Some False \<or> y \<in> insert x active \<Longrightarrow>
    card (vertices r - cs_visited st) < n \<Longrightarrow>
    \<exists>st' b. any_uses_context n g r x ys st = Some (st', b) \<and>
      (if b then reaches_context g r x else not_using g r active st x st')"
proof (induction ys arbitrary: st)
  case Nil
  let ?st' = "st\<lparr>cs_uses_context := (cs_uses_context st)(x \<mapsto> False)\<rparr>"
  have "nothing_found g r active ?st'"
    using Nil.prems(1,3) x unfolding nothing_found_def by auto
  then show ?case by (auto simp: not_using_def)
next
  case (Cons y ys)
  have e: "edge r x y" using Cons.prems(2) by simp
  have "y \<in> vertices r" using vertices_closed [OF e] .
  with calls Cons.prems(1,4) obtain st1 b where c: "determine_uses_context n g r st y = Some (st1, b)"
    "if b then reaches_context g r y else not_using g r (insert x active) st y st1"
    unfolding search_answers_def by blast
  show ?case
  proof (cases b)
    case True
    with c e have "reaches_context g r x" by (auto simp: reaches_context_def intro: converse_rtranclp_into_rtranclp)
    with c True show ?thesis by auto
  next
    case False
    with c have st1: "not_using g r (insert x active) st y st1" by simp
    have "card (vertices r - cs_visited st1) \<le> card (vertices r - cs_visited st)"
      using st1 finite_vertices by (intro card_mono) (auto simp: not_using_def)
    with Cons.prems(4) have n: "card (vertices r - cs_visited st1) < n" by simp
    have rest: "\<forall>z. edge r x z \<longrightarrow> z \<in> set ys \<or> cs_uses_context st1 z = Some False \<or> z \<in> insert x active"
      using Cons.prems(3) st1 unfolding not_using_def by (metis set_ConsD)
    from st1 have "nothing_found g r (insert x active) st1" by (simp add: not_using_def)
    from Cons.IH [OF this _ rest n] Cons.prems(2) obtain st' b' where
      "any_uses_context n g r x ys st1 = Some (st', b')"
      "if b' then reaches_context g r x else not_using g r active st1 x st'" by auto
    with not_using_trans [OF st1] c False show ?thesis by (cases b') auto
  qed
qed

lemma determine_uses_context_ok:
  assumes "declared g r"
  shows "search_answers g r n"
proof (induction n)
  case 0
  then show ?case by (simp add: search_answers_def)
next
  case (Suc n)
  show ?case unfolding search_answers_def
  proof (intro allI impI, elim conjE)
    fix active st x
    assume ok: "nothing_found g r active st" and x: "x \<in> vertices r" and fuel: "card (vertices r - cs_visited st) < Suc n"
    obtain dec where dec: "get_declaration g x = Some dec" using assms x by (auto simp: declared_def)
    consider b where "cs_uses_context st x = Some b" | "cs_uses_context st x = None" "x \<in> cs_visited st"
      | "cs_uses_context st x = None" "x \<notin> cs_visited st" "is_context dec"
      | "cs_uses_context st x = None" "x \<notin> cs_visited st" "\<not> is_context dec"
      by blast
    then show "\<exists>st' b. determine_uses_context (Suc n) g r st x = Some (st', b) \<and>
        (if b then reaches_context g r x else not_using g r active st x st')"
    proof cases
      case 1
      with ok have "\<not> b" by (auto simp: nothing_found_def)
      with 1 ok show ?thesis by (auto simp: not_using_def)
    next
      case 2
      with ok have "x \<in> active" by (auto simp: nothing_found_def)
      with 2 ok show ?thesis by (auto simp: not_using_def)
    next
      case 3
      with dec have "reaches_context g r x" by (auto simp: reaches_context_def context_name_def)
      with 3 dec show ?thesis by auto
    next
      case 4
      let ?st = "st\<lparr>cs_visited := insert x (cs_visited st)\<rparr>"
      have "\<not> context_name g x" using dec 4 by (simp add: context_name_def)
      with ok have ok': "nothing_found g r (insert x active) ?st" by (auto simp: nothing_found_def)
      have "x \<notin> active" using ok 4 by (auto simp: nothing_found_def)
      have "card (vertices r - cs_visited ?st) < card (vertices r - cs_visited st)"
        using x 4 finite_vertices by (intro psubset_card_mono) auto
      with fuel have n: "card (vertices r - cs_visited ?st) < n" by simp
      from any_uses_context_ok [OF Suc.IH \<open>x \<notin> active\<close> ok' _ _ n, of "successors r x"] obtain st' b where
        "any_uses_context n g r x (successors r x) ?st = Some (st', b)"
        "if b then reaches_context g r x else not_using g r active ?st x st'"
        by (auto simp: edge_def)
      with 4 dec show ?thesis by (auto simp: not_using_def)
    qed
  qed
qed

text \<open>When nothing is being looked at, a settled name does not reach the context.\<close>

lemma settled_not_reaching:
  assumes "nothing_found g r {} st" and "cs_uses_context st x = Some False"
  shows "\<not> reaches_context g r x"
proof -
  have "cs_uses_context st y = Some False" if "reach r x y" for y
    using that assms by (induction rule: rtranclp_induct) (auto simp: nothing_found_def)
  with assms(1) show ?thesis by (auto simp: reaches_context_def nothing_found_def)
qed

lemma constant_not_context: "is_constant dec \<Longrightarrow> \<not> is_context dec"
  by (cases "dec_kind dec"; cases "case dec_kind dec of DkValue k _ \<Rightarrow> k | _ \<Rightarrow> VkLocal")
    (auto simp: is_constant_def is_context_def)

lemma context_check_loop_ok:
  assumes "declared g r" and "card (vertices r) < n"
  shows "nothing_found g r {} st \<Longrightarrow> set names \<subseteq> vertices r \<Longrightarrow>
    \<exists>res. context_check_loop n g r names st = Some res \<and>
      (res = Inr () \<longleftrightarrow> (\<forall>x \<in> set names. constant_name g x \<longrightarrow> \<not> reaches_context g r x))"
proof (induction names arbitrary: st)
  case (Cons x names)
  obtain dec where dec: "get_declaration g x = Some dec" using assms(1) Cons.prems(2) by (auto simp: declared_def)
  show ?case
  proof (cases "is_constant dec")
    case False
    with dec have "\<not> constant_name g x" by (simp add: constant_name_def)
    with Cons.IH [OF Cons.prems(1)] Cons.prems(2) dec False show ?thesis by auto
  next
    case True
    have "card (vertices r - cs_visited st) < n"
      using assms(2) by (rule le_less_trans [rotated]) (auto intro: card_mono finite_vertices)
    with determine_uses_context_ok [OF assms(1), of n] Cons.prems obtain st' b where
      d: "determine_uses_context n g r st x = Some (st', b)" "if b then reaches_context g r x else not_using g r {} st x st'"
      unfolding search_answers_def by (metis list.set_intros(1) subsetD)
    have c: "constant_name g x" using dec True by (simp add: constant_name_def)
    show ?thesis
    proof (cases b)
      case True
      with d dec c \<open>is_constant dec\<close> show ?thesis by auto
    next
      case False
      with d have ok: "nothing_found g r {} st'" "cs_uses_context st' x = Some False" by (auto simp: not_using_def)
      from Cons.IH [OF ok(1)] Cons.prems(2) settled_not_reaching [OF ok] d dec False True c show ?thesis by auto
    qed
  qed
qed simp

lemma context_check_ok:
  assumes "declared g r" and "card (vertices r) < n"
  shows "\<exists>res. context_check n g r = Some res \<and>
    (res = Inr () \<longleftrightarrow> (\<forall>x. constant_name g x \<longrightarrow> \<not> reaches_context g r x))"
proof -
  have "nothing_found g r {} \<lparr>cs_uses_context = Map.empty, cs_visited = {}\<rparr>" by (simp add: nothing_found_def)
  from context_check_loop_ok [OF assms this, of "map fst r"] obtain res where
    res: "context_check n g r = Some res"
    "res = Inr () \<longleftrightarrow> (\<forall>x \<in> set (map fst r). constant_name g x \<longrightarrow> \<not> reaches_context g r x)"
    by (auto simp: context_check_def vertices_def)
  have "x \<in> set (map fst r)" if x: "constant_name g x" "reaches_context g r x" for x
  proof (rule ccontr)
    assume "x \<notin> set (map fst r)"
    then have "map_of r x = None" by (simp add: map_of_eq_None_iff)
    then have "\<not> edge r x y" for y by (simp add: edge_def successors_def)
    with x have "context_name g x" by (auto simp: reaches_context_def elim: converse_rtranclpE)
    with x(1) constant_not_context show False by (auto simp: constant_name_def context_name_def)
  qed
  with res show ?thesis by blast
qed

section \<open>The recursion check\<close>

abbreviation self_reaching :: "resolved_name ref_map \<Rightarrow> resolved_name \<Rightarrow> bool" where
  "self_reaching r x \<equiv> (edge r)\<^sup>+\<^sup>+ x x"

lemma check_own_references_ok:
  "\<forall>(x, ws) \<in> set rest. get_declaration g x \<noteq> None \<Longrightarrow>
    \<exists>res. check_own_references g rest = Some res \<and>
      (res = Inr () \<longleftrightarrow> (\<forall>(x, ws) \<in> set rest. constant_name g x \<longrightarrow> x \<notin> set ws))"
proof (induction rest)
  case (Cons p rest)
  obtain x ws where p: "p = (x, ws)" by (cases p)
  with Cons.prems obtain dec where dec: "get_declaration g x = Some dec" by auto
  from Cons obtain res where "check_own_references g rest = Some res"
    "res = Inr () \<longleftrightarrow> (\<forall>(x, ws) \<in> set rest. constant_name g x \<longrightarrow> x \<notin> set ws)" by auto
  with p dec show ?case by (cases "is_constant dec \<and> x \<in> set ws") (auto simp: constant_name_def)
qed simp

lemma check_component_ok:
  "\<forall>x \<in> set c. get_declaration g x \<noteq> None \<Longrightarrow>
    \<exists>res. check_component g c = Some res \<and> (res = Inr () \<longleftrightarrow> (\<forall>x \<in> set c. \<not> constant_name g x))"
proof (induction c)
  case (Cons x c)
  then obtain dec where dec: "get_declaration g x = Some dec" by auto
  from Cons obtain res where "check_component g c = Some res" "res = Inr () \<longleftrightarrow> (\<forall>x \<in> set c. \<not> constant_name g x)" by auto
  with dec show ?case by (cases "is_constant dec") (auto simp: constant_name_def)
qed simp

lemma check_components_ok:
  "\<forall>x \<in> set (concat cs). get_declaration g x \<noteq> None \<Longrightarrow>
    \<exists>res. check_components g cs = Some res \<and>
      (res = Inr () \<longleftrightarrow> (\<forall>c \<in> set cs. 1 < length c \<longrightarrow> (\<forall>x \<in> set c. \<not> constant_name g x)))"
proof (induction cs)
  case (Cons c cs)
  then obtain res where res: "check_components g cs = Some res"
    "res = Inr () \<longleftrightarrow> (\<forall>c \<in> set cs. 1 < length c \<longrightarrow> (\<forall>x \<in> set c. \<not> constant_name g x))" by auto
  obtain r1 where r1: "check_component g c = Some r1" "r1 = Inr () \<longleftrightarrow> (\<forall>x \<in> set c. \<not> constant_name g x)"
    using check_component_ok [of c g] Cons.prems by auto
  show ?case
  proof (cases r1)
    case (Inl e)
    with r1 res show ?thesis by (cases "1 < length c") auto
  next
    case (Inr u)
    with r1 res show ?thesis by (cases "1 < length c") auto
  qed
qed simp

text \<open>A vertex reaches itself exactly when it refers to itself or shares its component.\<close>

lemma self_reaching_iff:
  assumes "is_component r (set c)" and "distinct c" and "x \<in> set c"
  shows "self_reaching r x \<longleftrightarrow> edge r x x \<or> 1 < length c"
proof
  assume "self_reaching r x"
  then obtain y where y: "edge r x y" "reach r y x" by (auto dest: tranclpD)
  show "edge r x x \<or> 1 < length c"
  proof (cases "y = x")
    case False
    have "y \<in> set c" using assms(1,3) y unfolding is_component_def by blast
    with False assms(3) have "card {x, y} \<le> card (set c)" by (intro card_mono) auto
    with False assms(2) show ?thesis by (simp add: distinct_card)
  qed (use y in blast)
next
  assume "edge r x x \<or> 1 < length c"
  then show "self_reaching r x"
  proof
    assume "1 < length c"
    then have "\<exists>y \<in> set c. y \<noteq> x"
    proof (rule_tac ccontr)
      assume "\<not> (\<exists>y \<in> set c. y \<noteq> x)"
      then have "card (set c) \<le> card {x}" by (intro card_mono) auto
      with \<open>1 < length c\<close> assms(2) show False by (simp add: distinct_card)
    qed
    then obtain y where "y \<noteq> x" "reach r x y" "reach r y x" using assms(1,3) unfolding is_component_def by blast
    then show ?thesis by (metis rtranclpD rtranclp_tranclp_tranclp tranclp_rtranclp_tranclp)
  qed blast
qed

section \<open>The compilation order\<close>

definition precedes :: "'a list \<Rightarrow> 'a \<Rightarrow> 'a \<Rightarrow> bool" where
  "precedes xs y x \<longleftrightarrow> (\<exists>before behind. xs = before @ behind \<and> y \<in> set before \<and> x \<in> set behind)"

lemma edge_from_vertex: "edge r x y \<Longrightarrow> x \<in> vertices r"
  by (cases "map_of r x") (force simp: edge_def successors_def vertices_def dest: map_of_SomeD)+

text \<open>A constant the code has to reject: it depends on itself or on a context variable.\<close>

definition bad_constant :: "scope_graph \<Rightarrow> resolved_name ref_map \<Rightarrow> resolved_name \<Rightarrow> bool" where
  "bad_constant g r x \<longleftrightarrow> constant_name g x \<and> (self_reaching r x \<or> reaches_context g r x)"

lemma components_precede:
  assumes order: "\<forall>i < length cs. \<forall>j < length cs. \<forall>x \<in> set (cs ! i). \<forall>y \<in> set (cs ! j). reach r x y \<longrightarrow> j \<le> i"
    and comps: "\<forall>c \<in> set cs. is_component r (set c)"
    and xy: "x \<in> set (concat cs)" "y \<in> set (concat cs)" "reach r x y" "\<not> reach r y x"
  shows "precedes (concat cs) y x"
proof -
  obtain c d where c: "c \<in> set cs" "x \<in> set c" and d: "d \<in> set cs" "y \<in> set d" using xy(1,2) by auto
  then obtain i j where i: "i < length cs" "cs ! i = c" and j: "j < length cs" "cs ! j = d"
    by (auto simp: in_set_conv_nth)
  have "j \<le> i" using order i j c d xy(3) by blast
  moreover have "j \<noteq> i"
  proof
    assume "j = i"
    then have "y \<in> set c" using d i j by simp
    then have "reach r y x" using comps c unfolding is_component_def by blast
    with xy(4) show False by simp
  qed
  ultimately have "j < i" by simp
  have "y \<in> set (concat (take i cs))"
  proof -
    have "take i cs ! j = d" "j < length (take i cs)" using \<open>j < i\<close> i j by auto
    then have "d \<in> set (take i cs)" by (metis nth_mem)
    with d show ?thesis by auto
  qed
  moreover have "x \<in> set (concat (drop i cs))"
  proof -
    have "c \<in> set (drop i cs)" using i by (metis Cons_nth_drop_Suc list.set_intros(1))
    with c show ?thesis by auto
  qed
  moreover have "concat cs = concat (take i cs) @ concat (drop i cs)" by (metis append_take_drop_id concat_append)
  ultimately show ?thesis unfolding precedes_def by blast
qed

text \<open>
  C14. With a declaration for every name, the compilation order is computed without a panic.  It is an error
  exactly when a constant depends on itself or on a context variable, and then the functions may
  still refer to each other in any way.  Otherwise it lists every name once, what a name depends on
  before it unless the two depend on each other, and everything a constant depends on before it.
\<close>

theorem find_compilation_order_exact:
  assumes "declared g references" and "distinct (map fst references)" and "card (vertices references) < n"
  shows "\<exists>res. find_compilation_order n g references = Some res \<and>
    ((\<exists>e. res = Inl e) \<longleftrightarrow> (\<exists>x \<in> vertices references. bad_constant g references x)) \<and>
    (\<forall>order. res = Inr order \<longrightarrow> distinct order \<and> set order = vertices references \<and>
       (\<forall>x \<in> vertices references. \<forall>y. reach references x y \<and> \<not> reach references y x \<longrightarrow> precedes order y x) \<and>
       (\<forall>x \<in> vertices references. \<forall>y. constant_name g x \<and> (edge references)\<^sup>+\<^sup>+ x y \<longrightarrow> precedes order y x))"
proof -
  let ?r = references
  obtain cs where cs: "tarjan n ?r = Some cs" "distinct (concat cs)" "set (concat cs) = vertices ?r"
    "\<forall>c \<in> set cs. is_component ?r (set c)"
    "\<forall>i < length cs. \<forall>j < length cs. \<forall>x \<in> set (cs ! i). \<forall>y \<in> set (cs ! j). reach ?r x y \<longrightarrow> j \<le> i"
    using tarjan_components [OF assms(2) less_imp_le [OF assms(3)]] by blast
  have "\<forall>(x, ws) \<in> set ?r. get_declaration g x \<noteq> None" using assms(1) by (force simp: declared_def vertices_def)
  from check_own_references_ok [OF this] obtain r1 where r1: "check_own_references g ?r = Some r1"
    "r1 = Inr () \<longleftrightarrow> (\<forall>(x, ws) \<in> set ?r. constant_name g x \<longrightarrow> x \<notin> set ws)" by blast
  have "\<forall>x \<in> set (concat cs). get_declaration g x \<noteq> None" using assms(1) cs(3) by (simp only: declared_def)
  from check_components_ok [OF this] obtain r2 where r2: "check_components g cs = Some r2"
    "r2 = Inr () \<longleftrightarrow> (\<forall>c \<in> set cs. 1 < length c \<longrightarrow> (\<forall>x \<in> set c. \<not> constant_name g x))" by blast
  obtain r3 where r3: "context_check n g ?r = Some r3"
    "r3 = Inr () \<longleftrightarrow> (\<forall>x. constant_name g x \<longrightarrow> \<not> reaches_context g ?r x)"
    using context_check_ok [OF assms(1,3)] by blast
  let ?ok = "r1 = Inr () \<and> r2 = Inr () \<and> r3 = Inr ()"
  let ?res = "case r1 of Inl e \<Rightarrow> Inl e | Inr _ \<Rightarrow> (case r2 of Inl e \<Rightarrow> Inl e | Inr _ \<Rightarrow>
      (case r3 of Inl e \<Rightarrow> Inl e | Inr _ \<Rightarrow> Inr (concat cs)))"
  have run: "find_compilation_order n g ?r = Some ?res"
    using cs(1) r1(1) r2(1) r3(1) by (auto simp: find_compilation_order_def split: sum.splits)
  have own: "(\<forall>(x, ws) \<in> set ?r. constant_name g x \<longrightarrow> x \<notin> set ws) \<longleftrightarrow> (\<forall>x. constant_name g x \<longrightarrow> \<not> edge ?r x x)"
    using assms(2) by (force simp: edge_def successors_def dest: map_of_SomeD split: option.splits)
  have rec: "r1 = Inr () \<and> r2 = Inr () \<longleftrightarrow> (\<forall>x \<in> vertices ?r. constant_name g x \<longrightarrow> \<not> self_reaching ?r x)"
  proof -
    have c: "self_reaching ?r x \<longleftrightarrow> edge ?r x x \<or> 1 < length c" if "c \<in> set cs" "x \<in> set c" for c x
      using self_reaching_iff [of ?r c x] cs(2,4) that by (simp add: distinct_concat_iff)
    have v: "x \<in> vertices ?r \<longleftrightarrow> (\<exists>c \<in> set cs. x \<in> set c)" for x using cs(3) by auto
    have "x \<in> vertices ?r" if "edge ?r x x" for x using vertices_closed [OF that] .
    with c v show ?thesis unfolding r1(2) r2(2) own by blast
  qed
  have ok_iff: "?ok \<longleftrightarrow> \<not> (\<exists>x \<in> vertices ?r. bad_constant g ?r x)"
  proof -
    have "x \<in> vertices ?r" if "constant_name g x" "reaches_context g ?r x" for x
    proof -
      from that(2) obtain y where y: "reach ?r x y" "context_name g y" by (auto simp: reaches_context_def)
      with that(1) constant_not_context have "x \<noteq> y" by (auto simp: constant_name_def context_name_def)
      with y(1) obtain z where "edge ?r x z" by (auto elim: converse_rtranclpE)
      then show ?thesis by (rule edge_from_vertex)
    qed
    with rec r3(2) show ?thesis unfolding bad_constant_def by blast
  qed
  have res: "(\<exists>e. ?res = Inl e) \<longleftrightarrow> \<not> ?ok" "?res = Inr order \<Longrightarrow> ?ok \<and> order = concat cs" for order
    by (auto split: sum.splits)
  have before: "precedes (concat cs) y x" if "x \<in> vertices ?r" "reach ?r x y" "\<not> reach ?r y x" for x y
  proof -
    have "y \<in> vertices ?r" using that(2,1) by (induction rule: rtranclp_induct) (auto intro: vertices_closed)
    with that(1) have "x \<in> set (concat cs)" "y \<in> set (concat cs)" by (simp_all only: cs(3))
    from components_precede [OF cs(5,4) this that(2,3)] show ?thesis .
  qed
  have constants: "precedes (concat cs) y x" if ok: ?ok and x: "x \<in> vertices ?r" "constant_name g x" "(edge ?r)\<^sup>+\<^sup>+ x y" for x y
  proof -
    have "\<not> self_reaching ?r x" using ok rec x by blast
    then have "\<not> reach ?r y x" using x(3) by (auto intro: tranclp_rtranclp_tranclp)
    with before x(1) x(3) show ?thesis by (blast intro: tranclp_into_rtranclp)
  qed
  show ?thesis
  proof (intro exI [of _ ?res] conjI allI impI)
    show "find_compilation_order n g ?r = Some ?res" by (rule run)
    show "(\<exists>e. ?res = Inl e) \<longleftrightarrow> (\<exists>x \<in> vertices ?r. bad_constant g ?r x)" using res(1) ok_iff by blast
  next
    fix order assume o: "?res = Inr order"
    from res(2) [OF o] have ok: ?ok and ord: "order = concat cs" by auto
    show "distinct order" "set order = vertices ?r" using cs(2,3) ord by auto
    show "\<forall>x \<in> vertices ?r. \<forall>y. reach ?r x y \<and> \<not> reach ?r y x \<longrightarrow> precedes order y x"
      using before ord by blast
    show "\<forall>x \<in> vertices ?r. \<forall>y. constant_name g x \<and> (edge ?r)\<^sup>+\<^sup>+ x y \<longrightarrow> precedes order y x"
      using constants [OF ok] ord by blast
  qed
qed

text \<open>A constant \<open>A\<close> that calls \<open>f\<close>, and two functions that call each other.\<close>

abbreviation rname :: "ident \<Rightarrow> resolved_name" where
  "rname \<equiv> ResolvedName 1"

definition sample_decl :: "ident \<Rightarrow> declaration_kind \<Rightarrow> decl" where
  "sample_decl i k = \<lparr>dec_name = rname i, dec_kind = k, dec_id = 0, dec_scope = None, dec_doc = []\<rparr>"

definition sample_scopes :: scope_graph where
  "sample_scopes = \<lparr>sg_declarations =
     [rname ''A'' \<mapsto> sample_decl ''A'' (DkValue VkConstant None),
      rname ''f'' \<mapsto> sample_decl ''f'' (DkFunction None),
      rname ''h'' \<mapsto> sample_decl ''h'' (DkFunction None)],
     sg_scopes = []\<rparr>"

definition sample_calls :: "resolved_name ref_map" where
  "sample_calls = [(rname ''A'', [rname ''f'']), (rname ''f'', [rname ''h'']), (rname ''h'', [rname ''f''])]"

theorem find_compilation_order_exact_witness:
  "\<exists>order. find_compilation_order 4 sample_scopes sample_calls = Some (Inr order) \<and>
     precedes order (rname ''f'') (rname ''A'') \<and> length order = 3"
proof -
  have run: "find_compilation_order 4 sample_scopes sample_calls =
      Some (Inr [rname ''h'', rname ''f'', rname ''A''])"
    by code_simp
  have v: "vertices sample_calls = {rname ''A'', rname ''f'', rname ''h''}"
    by (auto simp: vertices_def sample_calls_def)
  have "declared sample_scopes sample_calls"
    by (simp add: declared_def v get_declaration_def sample_scopes_def)
  moreover have "distinct (map fst sample_calls)" by (simp add: sample_calls_def)
  moreover have "card (vertices sample_calls) < 4" by (simp add: v)
  ultimately have o: "\<forall>x \<in> vertices sample_calls. \<forall>y. constant_name sample_scopes x \<and> (edge sample_calls)\<^sup>+\<^sup>+ x y \<longrightarrow>
      precedes [rname ''h'', rname ''f'', rname ''A''] y x"
    using find_compilation_order_exact [of sample_scopes sample_calls 4] run by auto
  have "constant_name sample_scopes (rname ''A'')"
    by (simp add: constant_name_def get_declaration_def sample_scopes_def sample_decl_def is_constant_def)
  moreover have "(edge sample_calls)\<^sup>+\<^sup>+ (rname ''A'') (rname ''f'')"
    by (rule tranclp.r_into_trancl) (simp add: edge_def successors_def sample_calls_def)
  ultimately have "precedes [rname ''h'', rname ''f'', rname ''A''] (rname ''f'') (rname ''A'')" using o v by blast
  with run show ?thesis by auto
qed

end
