(* ===== verification/Checked_Info.thy ===== *)
theory Checked_Info
  imports Type_Info Scope_Graph
begin

text \<open>
  What the type checker hands to the lowering: the tables of \<open>TypeInfo\<close> and the queries on them
  (\<open>src/src/typechecker/info.rs\<close>), with the resolved paths of \<open>src/src/typechecker/expr.rs\<close>.  The tables are
  keyed by the id of a node of the syntax tree.  A missing key is a panic.  The union-find and the type pool,
  which the queries change, are the \<open>convert_state\<close>.
\<close>

section \<open>Paths and functions\<close>

record path_value =
  pv_name :: resolved_name
  pv_kind :: value_kind
  pv_root_ty :: rtype
  pv_fields :: "(ident \<times> rtype) list"

definition final_type :: "path_value \<Rightarrow> rtype" where
  "final_type p = (if pv_fields p = [] then pv_root_ty p else snd (last (pv_fields p)))"

datatype resolved_path =
  RpFunction resolved_name function_definition signature
| RpMethod path_value resolved_name function_definition signature
| RpValue path_value
| RpStaticMethod resolved_name function_definition signature
| RpEnumConstructor type_definition enum_variant

record checked_function =
  cf_signature :: signature
  cf_name :: resolved_name
  cf_vars :: "ident list"
  cf_definition :: function_definition

section \<open>The tables\<close>

record type_tables =
  tt_scope_graph :: scope_graph
  tt_expr_types :: "meta_id \<Rightarrow> rtype option"
  tt_resolved_names :: "meta_id \<Rightarrow> resolved_name option"
  tt_function_scopes :: "meta_id \<Rightarrow> scope_ref option"
  tt_function_calls :: "meta_id \<Rightarrow> checked_function option"
  tt_function_signatures :: "meta_id \<Rightarrow> signature option"
  tt_path_kinds :: "meta_id \<Rightarrow> resolved_path option"
  tt_diverges :: "meta_id \<Rightarrow> bool option"

definition type_of_id :: "type_tables \<Rightarrow> convert_state \<Rightarrow> meta_id \<Rightarrow> rtype converted" where
  "type_of_id tt s i = do {
     ty \<leftarrow> tt_expr_types tt i;
     (uf, ty') \<leftarrow> resolve_type (cs_unionfind s) ty;
     Some (s\<lparr>cs_unionfind := uf\<rparr>, ty') }"

definition full_name :: "type_tables \<Rightarrow> resolved_name \<Rightarrow> ident option" where
  "full_name tt name = do {
     s \<leftarrow> print_scope (tt_scope_graph tt) (rn_scope name);
     Some (s @ ''.'' @ rn_ident name) }"

text \<open>The declaration of a name has to be that of a type which is no stub.\<close>

definition resolve_type_name :: "scope_graph \<Rightarrow> type_map" where
  "resolve_type_name g name = do {
     dec \<leftarrow> get_declaration g name;
     (case dec_kind dec of DkType (TsType ty) \<Rightarrow> Some ty | _ \<Rightarrow> None) }"

definition convert_type :: "nat \<Rightarrow> type_tables \<Rightarrow> convert_state \<Rightarrow> rtype \<Rightarrow> ty_ref converted" where
  "convert_type fuel tt s ty = convert fuel (resolve_type_name (tt_scope_graph tt)) s ty"

definition is_list :: "type_tables \<Rightarrow> convert_state \<Rightarrow> rtype \<Rightarrow> bool converted" where
  "is_list tt s ty = do {
     (uf, b) \<leftarrow> is_list_type (resolve_type_name (tt_scope_graph tt)) (cs_unionfind s) ty;
     Some (s\<lparr>cs_unionfind := uf\<rparr>, b) }"

end
