(* ===== verification/Mir_Build.thy ===== *)
theory Mir_Build
  imports Checked_Info Mir
begin

text \<open>
  The state of the lowering to MIR and its helpers, from \<open>src/src/mir/lower.rs\<close>: labels and blocks, temporaries,
  the variables that are live in each scope, and the emitters.  A \<open>lowerer\<close> is the struct \<open>Lowerer\<close>; its
  blocks are in the order of the \<open>Vec\<close>, its stack slots with the current scope first.  The outcome of a
  step is a value and the next state, a panic, the end of the fuel that bounds the recursion, or a question to
  the tables of the type checker without an answer.
  Panics carry their reason: a variable that is not live, an empty stack of slots or blocks, and \<open>Ice\<close> for
  all others.  \<open>andthen m f\<close> is \<open>let x = m; f(x)\<close>.
\<close>

section \<open>State and outcome\<close>

record lowerer =
  lw_function_scope :: scope_ref
  lw_tmp_idx :: nat
  lw_blocks :: "mir_block list"
  lw_return_type :: ty_ref
  lw_stack_slots :: "(mir_var \<times> ty_ref) list list"
  lw_vars :: "(mir_var \<times> ty_ref) list"
  lw_labels :: label_store
  lw_info :: convert_state

datatype lower_panic = NotLive mir_var | NoSlot | NoBlock | Ice

text \<open>
  The questions to the tables of the type checker.  The code behind them can panic, but it can also fail to end: the
  conversion of a recursive type, or the look-up of a type variable that is bound to itself.  So a question without
  an answer is an outcome of its own, which holds the question.
\<close>

datatype info_query = AskType meta_id | AskConvert rtype | AskList rtype

datatype unanswered = Unanswered type_tables nat convert_state info_query

fun no_answer :: "unanswered \<Rightarrow> bool" where
  "no_answer (Unanswered tt k s (AskType i)) = (type_of_id tt s i = None)"
| "no_answer (Unanswered tt k s (AskConvert t)) = (convert_type k tt s t = None)"
| "no_answer (Unanswered tt k s (AskList t)) = (is_list tt s t = None)"

datatype 'a lowered = Lowered 'a lowerer | LowerPanic lower_panic | LowerFuel | LowerNoAnswer unanswered

type_synonym 'a lower = "lowerer \<Rightarrow> 'a lowered"

text \<open>
  What stays fixed while a function is lowered: the tables of the type checker, the registered types and the
  vtable parameters of the registered functions, the identities of three host types, the
  orders in which the hash tables of a match are iterated, and the fuel of type conversion.
\<close>

record lower_env =
  le_tables :: type_tables
  le_types :: rt
  le_vtables :: "nat list list"
  le_list_id :: type_id
  le_string_id :: type_id
  le_prefix_id :: type_id
  le_set_order :: "label_ref \<Rightarrow> nat list \<Rightarrow> nat list"
  le_map_order :: "(nat \<times> label_ref) list \<Rightarrow> (nat \<times> label_ref) list"
  le_fuel :: nat

definition give :: "'a \<Rightarrow> 'a lower" where
  "give x st = Lowered x st"

definition lower_panic :: "lower_panic \<Rightarrow> 'a lower" where
  "lower_panic e st = LowerPanic e"

definition andthen :: "'a lower \<Rightarrow> ('a \<Rightarrow> 'b lower) \<Rightarrow> 'b lower" where
  "andthen m f st = (case m st of
     Lowered x st' \<Rightarrow> f x st'
   | LowerPanic e \<Rightarrow> LowerPanic e
   | LowerFuel \<Rightarrow> LowerFuel
   | LowerNoAnswer q \<Rightarrow> LowerNoAnswer q)"

definition expect :: "lower_panic \<Rightarrow> 'a option \<Rightarrow> 'a lower" where
  "expect e x = (case x of Some v \<Rightarrow> give v | None \<Rightarrow> lower_panic e)"

definition the_lowerer :: "lowerer lower" where
  "the_lowerer st = Lowered st st"

definition set_lowerer :: "lowerer \<Rightarrow> unit lower" where
  "set_lowerer st' st = Lowered () st'"

fun each :: "('a \<Rightarrow> unit lower) \<Rightarrow> 'a list \<Rightarrow> unit lower" where
  "each f [] = give ()"
| "each f (x # xs) = andthen (f x) (\<lambda>_. each f xs)"

fun collect :: "('a \<Rightarrow> 'b lower) \<Rightarrow> 'a list \<Rightarrow> 'b list lower" where
  "collect f [] = give []"
| "collect f (x # xs) = andthen (f x) (\<lambda>y. andthen (collect f xs) (\<lambda>ys. give (y # ys)))"

section \<open>Labels and blocks\<close>

definition next_label :: "label_ref \<Rightarrow> label_ref lower" where
  "next_label l = andthen the_lowerer (\<lambda>st. andthen (expect Ice (label_next (lw_labels st) l)) (\<lambda>(s, r).
     andthen (set_lowerer (st\<lparr>lw_labels := s\<rparr>)) (\<lambda>_. give r)))"

definition wrap_label :: "label_ref \<Rightarrow> ident \<Rightarrow> label_ref lower" where
  "wrap_label l i st = (case wrap_internal (lw_labels st) l i of (s, r) \<Rightarrow> Lowered r (st\<lparr>lw_labels := s\<rparr>))"

definition fresh_label :: "ident \<Rightarrow> label_ref lower" where
  "fresh_label i st = (case new_label (lw_labels st) i of (s, r) \<Rightarrow> Lowered r (st\<lparr>lw_labels := s\<rparr>))"

definition new_block :: "label_ref \<Rightarrow> unit lower" where
  "new_block l st = Lowered () (st\<lparr>lw_blocks := lw_blocks st @ [\<lparr>mb_label = l, mb_instructions = []\<rparr>]\<rparr>)"

definition current_label :: "label_ref lower" where
  "current_label st = (if lw_blocks st = [] then LowerPanic NoBlock
     else Lowered (mb_label (last (lw_blocks st))) st)"

section \<open>Emitters\<close>

definition emit :: "mir_instr \<Rightarrow> unit lower" where
  "emit i st = (if lw_blocks st = [] then LowerPanic NoBlock
     else let b = last (lw_blocks st)
          in Lowered () (st\<lparr>lw_blocks := butlast (lw_blocks st) @
               [b\<lparr>mb_instructions := mb_instructions b @ [i]\<rparr>]\<rparr>))"

definition emit_assign :: "mir_place \<Rightarrow> ty_ref \<Rightarrow> mir_value \<Rightarrow> unit lower" where
  "emit_assign to t v = emit (MiAssign to t v)"

definition emit_set_discriminant :: "mir_var \<Rightarrow> ty_ref \<Rightarrow> ident \<Rightarrow> unit lower" where
  "emit_set_discriminant to t variant = emit (MiSetDiscriminant to t variant)"

definition emit_return :: "mir_var \<Rightarrow> unit lower" where
  "emit_return v = emit (MiReturn v)"

definition emit_jump :: "label_ref \<Rightarrow> unit lower" where
  "emit_jump l = emit (MiJump l)"

definition emit_switch :: "mir_var \<Rightarrow> (nat \<times> label_ref) list \<Rightarrow> label_ref option \<Rightarrow> unit lower" where
  "emit_switch examinee branches dflt = emit (MiSwitch examinee branches dflt)"

definition emit_drop :: "mir_place \<Rightarrow> ty_ref \<Rightarrow> unit lower" where
  "emit_drop p t = emit (MiDrop p t)"

text \<open>\<open>for (var, ty) in to_drop.into_iter().rev()\<close>.\<close>

definition emit_drops :: "(mir_var \<times> ty_ref) list \<Rightarrow> unit lower" where
  "emit_drops to_drop = each (\<lambda>(v, t). emit_drop (place_new v t) t) (rev to_drop)"

section \<open>Live variables\<close>

definition push_slot :: "unit lower" where
  "push_slot st = Lowered () (st\<lparr>lw_stack_slots := [] # lw_stack_slots st\<rparr>)"

definition pop_slot :: "(mir_var \<times> ty_ref) list lower" where
  "pop_slot st = (case lw_stack_slots st of
     [] \<Rightarrow> LowerPanic NoSlot
   | slot # rest \<Rightarrow> Lowered slot (st\<lparr>lw_stack_slots := rest\<rparr>))"

definition add_slot :: "mir_var \<Rightarrow> ty_ref \<Rightarrow> unit lower" where
  "add_slot v t st = (case lw_stack_slots st of
     [] \<Rightarrow> LowerPanic NoSlot
   | slot # rest \<Rightarrow> Lowered () (st\<lparr>lw_stack_slots := (slot @ [(v, t)]) # rest\<rparr>))"

definition add_var :: "mir_var \<Rightarrow> ty_ref \<Rightarrow> unit lower" where
  "add_var v t st = Lowered () (st\<lparr>lw_vars := lw_vars st @ [(v, t)]\<rparr>)"

definition add_live_variable :: "mir_var \<Rightarrow> ty_ref \<Rightarrow> unit lower" where
  "add_live_variable v t = andthen (add_var v t) (\<lambda>_. add_slot v t)"

definition remove_live_variable :: "mir_var \<Rightarrow> ty_ref lower" where
  "remove_live_variable v st = (case lw_stack_slots st of
     [] \<Rightarrow> LowerPanic NoSlot
   | slot # rest \<Rightarrow>
       (case position (\<lambda>x. fst x = v) slot of
          None \<Rightarrow> LowerPanic (NotLive v)
        | Some i \<Rightarrow> Lowered (snd (slot ! i)) (st\<lparr>lw_stack_slots := (take i slot @ drop (Suc i) slot) # rest\<rparr>)))"

definition undropped_tmp :: "mir_var lower" where
  "undropped_tmp = andthen the_lowerer (\<lambda>st. andthen (expect Ice (usize (lw_tmp_idx st + 1))) (\<lambda>i.
     andthen (set_lowerer (st\<lparr>lw_tmp_idx := i\<rparr>)) (\<lambda>_.
       give \<lparr>mv_scope = lw_function_scope st, mv_kind = MvTmp (lw_tmp_idx st)\<rparr>)))"

definition tmp :: "ty_ref \<Rightarrow> mir_var lower" where
  "tmp t = andthen undropped_tmp (\<lambda>v. andthen (add_live_variable v t) (\<lambda>_. give v))"

definition do_assign :: "mir_place \<Rightarrow> ty_ref \<Rightarrow> mir_value \<Rightarrow> unit lower" where
  "do_assign to t val =
     andthen (case val of VMove v \<Rightarrow> andthen (remove_live_variable v) (\<lambda>_. give ()) | _ \<Rightarrow> give ()) (\<lambda>_.
       emit_assign to t val)"

definition assign_to_var :: "mir_value \<Rightarrow> ty_ref \<Rightarrow> mir_var lower" where
  "assign_to_var val t =
     (case val of
        VMove x \<Rightarrow> give x
      | _ \<Rightarrow> andthen (tmp t) (\<lambda>to. andthen (do_assign (place_new to t) t val) (\<lambda>_. give to)))"

definition drop_var :: "mir_var \<Rightarrow> unit lower" where
  "drop_var v = andthen (remove_live_variable v) (\<lambda>t. emit_drop (place_new v t) t)"

text \<open>\<open>pop_slot\<close>, then the drops.\<close>

definition close_slot :: "unit lower" where
  "close_slot = andthen pop_slot emit_drops"

section \<open>The tables of the type checker\<close>

definition on_info :: "lower_env \<Rightarrow> info_query \<Rightarrow> (convert_state \<Rightarrow> 'a converted) \<Rightarrow> 'a lower" where
  "on_info en q f st = (case f (lw_info st) of
     None \<Rightarrow> LowerNoAnswer (Unanswered (le_tables en) (le_fuel en) (lw_info st) q)
   | Some (s, x) \<Rightarrow> Lowered x (st\<lparr>lw_info := s\<rparr>))"

definition type_of :: "lower_env \<Rightarrow> meta_id \<Rightarrow> rtype lower" where
  "type_of en i = on_info en (AskType i) (\<lambda>s. type_of_id (le_tables en) s i)"

definition convert_ty :: "lower_env \<Rightarrow> rtype \<Rightarrow> ty_ref lower" where
  "convert_ty en t = on_info en (AskConvert t) (\<lambda>s. convert_type (le_fuel en) (le_tables en) s t)"

definition list_type :: "lower_env \<Rightarrow> rtype \<Rightarrow> bool lower" where
  "list_type en t = on_info en (AskList t) (\<lambda>s. is_list (le_tables en) s t)"

text \<open>The two calls that follow each other almost everywhere.\<close>

definition type_ref :: "lower_env \<Rightarrow> meta_id \<Rightarrow> ty_ref lower" where
  "type_ref en i = andthen (type_of en i) (convert_ty en)"

definition pool_type :: "ty_ref \<Rightarrow> ty lower" where
  "pool_type r = andthen the_lowerer (\<lambda>st. expect Ice (pool_get (cs_pool (lw_info st)) r))"

definition table :: "(type_tables \<Rightarrow> meta_id \<Rightarrow> 'a option) \<Rightarrow> lower_env \<Rightarrow> meta_id \<Rightarrow> 'a lower" where
  "table f en i = expect Ice (f (le_tables en) i)"

definition return_ty :: "ty_ref lower" where
  "return_ty = andthen the_lowerer (\<lambda>st. give (lw_return_type st))"

definition explicit_var :: "resolved_name \<Rightarrow> mir_var" where
  "explicit_var n = \<lparr>mv_scope = rn_scope n, mv_kind = MvExplicit (rn_ident n)\<rparr>"

definition find_method :: "lower_env \<Rightarrow> type_id \<Rightarrow> ident \<Rightarrow> runtime_function_ref lower" where
  "find_method en i method = expect Ice (do {
     t \<leftarrow> get_runtime_type (le_types en) i;
     dec \<leftarrow> get_declaration (tt_scope_graph (le_tables en)) (rt_name t);
     s \<leftarrow> dec_scope dec;
     m \<leftarrow> get_declaration (tt_scope_graph (le_tables en)) (ResolvedName s method);
     (case dec_kind m of
        DkMethod (Some f) \<Rightarrow> (case fd_definition f of FdRuntime r \<Rightarrow> Some r | FdRoto \<Rightarrow> None)
      | _ \<Rightarrow> None) })"

end
