(* ===== verification/Mir_Lower.thy ===== *)
theory Mir_Lower
  imports Mir_Build
begin

text \<open>
  The lowering of expressions, statements and blocks, from \<open>src/src/mir/lower.rs\<close>.  One function for each
  method of \<open>Lowerer\<close>, in the order of the file; those that lower a part of an expression take the lowering of
  expressions as their argument \<open>ex\<close>.  The lowering of a match is in \<open>Mir_Match\<close>, the knot is tied in
  \<open>Mir_Items\<close>.
\<close>

type_synonym lower_expression = "expr meta \<Rightarrow> mir_value lower"

definition unit_value :: mir_value where
  "unit_value = VConst LitUnit REF_UNIT"

section \<open>Blocks and statements\<close>

definition stmt :: "lower_expression \<Rightarrow> lower_env \<Rightarrow> stmt meta \<Rightarrow> unit lower" where
  "stmt ex en s = (case node s of
     SLet i _ e \<Rightarrow>
       andthen (ex e) (\<lambda>val.
       andthen (table tt_resolved_names en (meta_id i)) (\<lambda>name.
       andthen (type_ref en (meta_id i)) (\<lambda>ty.
       let to = \<lparr>mv_scope = rn_scope name, mv_kind = MvExplicit (ident_of (node i))\<rparr> in
       andthen (add_live_variable to ty) (\<lambda>_.
       do_assign (place_new to ty) ty val))))
   | SExpr e \<Rightarrow>
       andthen (ex e) (\<lambda>val.
       andthen (type_ref en (meta_id e)) (\<lambda>ty.
       andthen (assign_to_var val ty) drop_var)))"

definition lower_block :: "lower_expression \<Rightarrow> lower_env \<Rightarrow> block meta \<Rightarrow> mir_value lower" where
  "lower_block ex en b =
     andthen push_slot (\<lambda>_.
     andthen (each (stmt ex en) (blk_stmts (node b))) (\<lambda>_.
     andthen (case blk_last (node b) of Some e \<Rightarrow> ex e | None \<Rightarrow> give unit_value) (\<lambda>op.
     andthen (type_ref en (meta_id b)) (\<lambda>ty.
     andthen (assign_to_var op ty) (\<lambda>final_var.
     andthen (remove_live_variable final_var) (\<lambda>_.
     andthen pop_slot (\<lambda>to_drop.
     andthen (table tt_diverges en (meta_id b)) (\<lambda>diverges.
     andthen (if diverges then give () else emit_drops to_drop) (\<lambda>_.
     give (VMove final_var))))))))))"

definition block_expr :: "lower_expression \<Rightarrow> lower_env \<Rightarrow> block meta \<Rightarrow> mir_value lower" where
  "block_expr ex en b =
     andthen (lower_block ex en b) (\<lambda>val.
     andthen (type_ref en (meta_id b)) (\<lambda>ty.
     andthen undropped_tmp (\<lambda>res.
     andthen (emit_assign (place_new res ty) ty val) (\<lambda>_.
     andthen (add_live_variable res ty) (\<lambda>_.
     give (VMove res))))))"

section \<open>Enum values, returns and the question mark\<close>

fun assign_variant_fields :: "mir_var \<Rightarrow> ty_ref \<Rightarrow> ident \<Rightarrow> nat \<Rightarrow> (mir_value \<times> ty_ref) list \<Rightarrow> unit lower" where
  "assign_variant_fields to ty variant i [] = give ()"
| "assign_variant_fields to ty variant i ((val, field_ty) # rest) =
     andthen (do_assign \<lparr>pl_var = to, pl_root_ty = ty, pl_projection = [PrVariantField variant i]\<rparr> field_ty val) (\<lambda>_.
     assign_variant_fields to ty variant (Suc i) rest)"

definition make_enum :: "ty_ref \<Rightarrow> ident \<Rightarrow> (mir_value \<times> ty_ref) list \<Rightarrow> mir_value lower" where
  "make_enum ty variant args =
     andthen (pool_type ty) (\<lambda>t. case t of
       MEnum variants \<Rightarrow>
         andthen (expect Ice (find (\<lambda>v. fst v = variant) variants)) (\<lambda>v.
         andthen (tmp ty) (\<lambda>to.
         andthen (emit_set_discriminant to ty (fst v)) (\<lambda>_.
         andthen (assign_variant_fields to ty (fst v) 0 args) (\<lambda>_.
         give (VMove to)))))
     | _ \<Rightarrow> lower_panic Ice)"

definition return_value :: "mir_value \<Rightarrow> mir_value lower" where
  "return_value val =
     andthen return_ty (\<lambda>rt.
     andthen (assign_to_var val rt) (\<lambda>v.
     andthen (remove_live_variable v) (\<lambda>_.
     andthen the_lowerer (\<lambda>st.
     andthen (each emit_drops (lw_stack_slots st)) (\<lambda>_.
     andthen (emit_return v) (\<lambda>_.
     give unit_value))))))"

definition return_expr :: "lower_expression \<Rightarrow> lower_env \<Rightarrow> return_kind \<Rightarrow> expr meta option \<Rightarrow> mir_value lower" where
  "return_expr ex en kind e =
     andthen (case e of
         Some e \<Rightarrow> andthen (type_ref en (meta_id e)) (\<lambda>ty. andthen (ex e) (\<lambda>v. give (v, ty)))
       | None \<Rightarrow> give (unit_value, REF_UNIT)) (\<lambda>val.
     case kind of
       RkReturn \<Rightarrow> return_value (fst val)
     | RkAccept \<Rightarrow> andthen return_ty (\<lambda>ty. andthen (make_enum ty ''Accept'' [val]) return_value)
     | RkReject \<Rightarrow> andthen return_ty (\<lambda>ty. andthen (make_enum ty ''Reject'' [val]) return_value))"

definition question_mark :: "lower_expression \<Rightarrow> lower_env \<Rightarrow> expr meta \<Rightarrow> mir_value lower" where
  "question_mark ex en e =
     andthen current_label (\<lambda>cur.
     andthen (wrap_label cur ''return-none'') (\<lambda>lbl_return_none.
     andthen (next_label cur) (\<lambda>continue_lbl.
     andthen (ex e) (\<lambda>examinee.
     andthen (type_ref en (meta_id e)) (\<lambda>examinee_ty.
     andthen (assign_to_var examinee examinee_ty) (\<lambda>examinee.
     andthen undropped_tmp (\<lambda>discriminant.
     andthen (emit_assign (place_new discriminant REF_U8) REF_U8 (VDiscriminant examinee)) (\<lambda>_.
     andthen (emit_switch discriminant [(0, continue_lbl)] (Some lbl_return_none)) (\<lambda>_.
     andthen (new_block lbl_return_none) (\<lambda>_.
     andthen return_ty (\<lambda>ty.
     andthen (make_enum ty ''None'' []) (\<lambda>val.
     andthen (return_value val) (\<lambda>_.
     andthen (new_block continue_lbl) (\<lambda>_.
     andthen (type_ref en (meta_id e)) (\<lambda>ty.
     give (VClone \<lparr>pl_var = examinee, pl_root_ty = ty, pl_projection = [PrVariantField ''Some'' 0]\<rparr>))))))))))))))))"

definition literal :: "lower_env \<Rightarrow> literal meta \<Rightarrow> mir_value lower" where
  "literal en l = andthen (type_ref en (meta_id l)) (\<lambda>ty. give (VConst (node l) ty))"

section \<open>Calls\<close>

text \<open>A temporary that the callee drops.\<close>

definition pass_value :: "ty_ref \<Rightarrow> mir_value \<Rightarrow> mir_var lower" where
  "pass_value ty val =
     andthen undropped_tmp (\<lambda>t.
     andthen (add_var t ty) (\<lambda>_.
     andthen (do_assign (place_new t ty) ty val) (\<lambda>_.
     give t)))"

definition pass_argument :: "lower_expression \<Rightarrow> lower_env \<Rightarrow> expr meta \<Rightarrow> mir_var lower" where
  "pass_argument ex en a =
     andthen (type_ref en (meta_id a)) (\<lambda>ty. andthen (ex a) (pass_value ty))"

definition normalized_function_call ::
  "lower_expression \<Rightarrow> lower_env \<Rightarrow> checked_function \<Rightarrow> (mir_value \<times> rtype) option \<Rightarrow> expr meta list \<Rightarrow> mir_value lower" where
  "normalized_function_call ex en func receiver arguments =
     andthen (case receiver of
         None \<Rightarrow> give []
       | Some (r, ty) \<Rightarrow> andthen (convert_ty en ty) (\<lambda>ty. andthen (pass_value ty r) (\<lambda>t. give [t]))) (\<lambda>first.
     andthen (collect (pass_argument ex en) arguments) (\<lambda>others.
     andthen (collect (convert_ty en) (parameter_types (cf_signature func))) (\<lambda>ptys.
     andthen (convert_ty en (return_type (cf_signature func))) (\<lambda>rty.
     let args = first @ others; sg = \<lparr>ms_parameter_types = ptys, ms_return_type = rty\<rparr> in
     case cf_definition func of
       FdRuntime func_ref \<Rightarrow>
         andthen (expect Ice (index (le_vtables en) func_ref)) (\<lambda>indices.
         andthen (collect (\<lambda>i. andthen (expect Ice (index (sig_types (cf_signature func)) i)) (convert_ty en)) indices)
           (\<lambda>vtables. give (VCallRuntime func_ref args vtables sg)))
     | FdRoto \<Rightarrow> give (VCall (cf_name func) args sg)))))"

definition enum_constructor :: "lower_expression \<Rightarrow> lower_env \<Rightarrow> ty_ref \<Rightarrow> ident \<Rightarrow> expr meta list \<Rightarrow> mir_value lower" where
  "enum_constructor ex en ty variant arguments =
     andthen (collect (\<lambda>a. andthen (type_ref en (meta_id a)) (\<lambda>ty. andthen (ex a) (\<lambda>v. give (v, ty)))) arguments)
       (make_enum ty variant)"

section \<open>Paths, fields, records and lists\<close>

definition path_value :: "lower_env \<Rightarrow> path_value \<Rightarrow> mir_value lower" where
  "path_value en pv =
     andthen (convert_ty en (pv_root_ty pv)) (\<lambda>root_ty.
     case pv_kind pv of
       VkLocal \<Rightarrow> give (VClone \<lparr>pl_var = explicit_var (pv_name pv), pl_root_ty = root_ty,
         pl_projection = map (\<lambda>f. PrField (fst f)) (pv_fields pv)\<rparr>)
     | VkConstant \<Rightarrow> if pv_fields pv \<noteq> [] then lower_panic Ice else give (VConstant (pv_name pv) root_ty)
     | VkContext x \<Rightarrow> give (VContext x))"

definition path :: "lower_env \<Rightarrow> meta_id \<Rightarrow> path meta \<Rightarrow> mir_value lower" where
  "path en i p =
     andthen (table tt_path_kinds en (meta_id p)) (\<lambda>kind. case kind of
       RpValue v \<Rightarrow> path_value en v
     | RpEnumConstructor _ variant \<Rightarrow>
         andthen (type_ref en i) (\<lambda>ty.
         andthen (tmp ty) (\<lambda>to.
         andthen (emit_set_discriminant to ty (ev_name variant)) (\<lambda>_.
         give (VMove to))))
     | _ \<Rightarrow> lower_panic Ice)"

definition function_call ::
  "lower_expression \<Rightarrow> lower_env \<Rightarrow> meta_id \<Rightarrow> expr meta \<Rightarrow> expr meta list meta \<Rightarrow> mir_value lower" where
  "function_call ex en i function arguments =
     (case node function of
        EPath p \<Rightarrow>
          andthen (table tt_path_kinds en (meta_id p)) (\<lambda>kind. case kind of
            RpMethod v _ _ sg \<Rightarrow>
              andthen (path_value en v) (\<lambda>op.
              andthen (expect Ice (index (parameter_types sg) 0)) (\<lambda>ty.
              andthen (table tt_function_calls en i) (\<lambda>func.
              normalized_function_call ex en func (Some (op, ty)) (node arguments))))
          | RpFunction _ _ _ \<Rightarrow>
              andthen (table tt_function_calls en i) (\<lambda>func.
              normalized_function_call ex en func None (node arguments))
          | RpStaticMethod _ _ _ \<Rightarrow>
              andthen (table tt_function_calls en i) (\<lambda>func.
              normalized_function_call ex en func None (node arguments))
          | RpEnumConstructor _ variant \<Rightarrow>
              andthen (type_ref en i) (\<lambda>ty.
              enum_constructor ex en ty (ev_name variant) (node arguments))
          | RpValue _ \<Rightarrow> lower_panic Ice)
      | EAccess e _ \<Rightarrow>
          andthen (ex e) (\<lambda>v.
          andthen (type_of en (meta_id e)) (\<lambda>ty.
          andthen (table tt_function_calls en i) (\<lambda>func.
          normalized_function_call ex en func (Some (v, ty)) (node arguments))))
      | _ \<Rightarrow> lower_panic Ice)"

definition access :: "lower_expression \<Rightarrow> lower_env \<Rightarrow> expr meta \<Rightarrow> name meta \<Rightarrow> mir_value lower" where
  "access ex en e field =
     andthen (ex e) (\<lambda>op.
     andthen (type_ref en (meta_id e)) (\<lambda>ty.
     andthen (assign_to_var op ty) (\<lambda>v.
     give (VClone \<lparr>pl_var = v, pl_root_ty = ty, pl_projection = [PrField (ident_of (node field))]\<rparr>))))"

definition record_expr :: "lower_expression \<Rightarrow> lower_env \<Rightarrow> meta_id \<Rightarrow> (name meta \<times> expr meta) list \<Rightarrow> mir_value lower" where
  "record_expr ex en i fs =
     andthen (type_ref en i) (\<lambda>ty.
     andthen (tmp ty) (\<lambda>to.
     andthen (each (\<lambda>(s, e).
         andthen (ex e) (\<lambda>op.
         andthen (type_ref en (meta_id e)) (\<lambda>field_ty.
         do_assign \<lparr>pl_var = to, pl_root_ty = ty, pl_projection = [PrField (ident_of (node s))]\<rparr> field_ty op))) fs) (\<lambda>_.
     give (VMove to))))"

definition not_expr :: "lower_expression \<Rightarrow> expr meta \<Rightarrow> mir_value lower" where
  "not_expr ex e = andthen (ex e) (\<lambda>val. andthen (assign_to_var val REF_BOOL) (\<lambda>v. give (VNot v)))"

definition negate :: "lower_expression \<Rightarrow> lower_env \<Rightarrow> expr meta \<Rightarrow> mir_value lower" where
  "negate ex en e =
     andthen (type_ref en (meta_id e)) (\<lambda>ty.
     andthen (ex e) (\<lambda>val.
     andthen (assign_to_var val ty) (\<lambda>v.
     give (VNegate v ty))))"

definition list_element :: "lower_expression \<Rightarrow> lower_env \<Rightarrow> ty_ref \<Rightarrow> ty_ref \<Rightarrow> mir_var \<Rightarrow> mir_var \<Rightarrow> expr meta \<Rightarrow> unit lower" where
  "list_element ex en ty inner list_tmp unit_tmp e =
     andthen (assign_to_var (VClone (place_new list_tmp ty)) ty) (\<lambda>list_var.
     andthen (remove_live_variable list_var) (\<lambda>_.
     andthen (ex e) (\<lambda>elem.
     andthen (type_ref en (meta_id e)) (\<lambda>elem_ty.
     andthen (pass_value elem_ty elem) (\<lambda>elem_var.
     andthen (find_method en (le_list_id en) ''push'') (\<lambda>func_ref.
     emit (MiAssign (place_new unit_tmp REF_UNIT) REF_UNIT
       (VCallRuntime func_ref [list_var, elem_var] []
         \<lparr>ms_parameter_types = [ty, inner], ms_return_type = REF_UNIT\<rparr>))))))))"

definition list_expr :: "lower_expression \<Rightarrow> lower_env \<Rightarrow> meta_id \<Rightarrow> expr meta list \<Rightarrow> mir_value lower" where
  "list_expr ex en i es =
     andthen (type_ref en i) (\<lambda>ty.
     andthen (pool_type ty) (\<lambda>t. case t of
       MList inner \<Rightarrow>
         andthen (tmp ty) (\<lambda>list_tmp.
         andthen (find_method en (le_list_id en) ''new'') (\<lambda>func_ref.
         andthen (emit (MiAssign (place_new list_tmp ty) ty
           (VCallRuntime func_ref [] [inner] \<lparr>ms_parameter_types = [], ms_return_type = ty\<rparr>))) (\<lambda>_.
         andthen (tmp REF_UNIT) (\<lambda>unit_tmp.
         andthen (each (list_element ex en ty inner list_tmp unit_tmp) es) (\<lambda>_.
         give (VMove list_tmp))))))
     | _ \<Rightarrow> lower_panic Ice))"

section \<open>Assignment and operators\<close>

definition assign :: "lower_expression \<Rightarrow> lower_env \<Rightarrow> path meta \<Rightarrow> expr meta \<Rightarrow> mir_value lower" where
  "assign ex en p e =
     andthen (table tt_path_kinds en (meta_id p)) (\<lambda>kind. case kind of
       RpValue pv \<Rightarrow>
         andthen (convert_ty en (pv_root_ty pv)) (\<lambda>root_ty.
         andthen (type_ref en (meta_id e)) (\<lambda>ty.
         let place = \<lparr>pl_var = explicit_var (pv_name pv), pl_root_ty = root_ty,
               pl_projection = map (\<lambda>f. PrField (fst f)) (pv_fields pv)\<rparr> in
         andthen (ex e) (\<lambda>val.
         andthen (tmp ty) (\<lambda>t.
         andthen (do_assign (place_new t ty) ty val) (\<lambda>_.
         andthen (emit_drop place ty) (\<lambda>_.
         andthen (do_assign place ty (VMove t)) (\<lambda>_.
         give unit_value)))))))
     | _ \<Rightarrow> lower_panic Ice)"

fun compound_op :: "compound_assign_op \<Rightarrow> bin_op" where
  "compound_op CAdd = BAdd"
| "compound_op CSub = BSub"
| "compound_op CMul = BMul"
| "compound_op CDiv = BDiv"
| "compound_op CMod = BMod"

definition compound_assign :: "lower_expression \<Rightarrow> lower_env \<Rightarrow> compound_head \<Rightarrow> expr meta \<Rightarrow> mir_value lower" where
  "compound_assign ex en c e =
     assign ex en (ca_path c)
       (Meta (EBinOp (Meta (EPath (ca_path c)) (ca_path_expr_id c)) (compound_op (ca_op c)) e) (ca_binop_id c))"

definition call_runtime ::
  "runtime_function_ref \<Rightarrow> ty_ref list \<Rightarrow> mir_signature \<Rightarrow> mir_var list \<Rightarrow> mir_value lower" where
  "call_runtime func_ref vtables sg args =
     andthen (each (\<lambda>v. andthen (remove_live_variable v) (\<lambda>_. give ())) args) (\<lambda>_.
     give (VCallRuntime func_ref args vtables sg))"

definition desugared_binop ::
  "lower_expression \<Rightarrow> lower_env \<Rightarrow> type_id \<Rightarrow> ident \<Rightarrow> rtype \<Rightarrow> expr meta \<times> rtype \<Rightarrow> expr meta \<times> rtype \<Rightarrow> mir_value lower" where
  "desugared_binop ex en kind method ret_ty l r =
     andthen (find_method en kind method) (\<lambda>func_ref.
     andthen (ex (fst l)) (\<lambda>lv.
     andthen (convert_ty en (snd l)) (\<lambda>l_ty.
     andthen (assign_to_var lv l_ty) (\<lambda>lv.
     andthen (ex (fst r)) (\<lambda>rv.
     andthen (convert_ty en (snd r)) (\<lambda>r_ty.
     andthen (assign_to_var rv r_ty) (\<lambda>rv.
     andthen (convert_ty en ret_ty) (\<lambda>ret.
     andthen (tmp ret) (\<lambda>t.
     andthen (call_runtime func_ref [] \<lparr>ms_parameter_types = [l_ty, r_ty], ms_return_type = ret\<rparr> [lv, rv]) (\<lambda>val.
     andthen (do_assign (place_new t ret) ret val) (\<lambda>_.
     give (VMove t))))))))))))"

definition binop_str :: "lower_expression \<Rightarrow> lower_env \<Rightarrow> expr meta \<Rightarrow> bin_op \<Rightarrow> expr meta \<Rightarrow> mir_value lower" where
  "binop_str ex en l binop r = (case binop of
     BAdd \<Rightarrow> desugared_binop ex en (le_string_id en) ''append'' t_string (l, t_string) (r, t_string)
   | _ \<Rightarrow> lower_panic Ice)"

definition binop_ip_addr :: "lower_expression \<Rightarrow> lower_env \<Rightarrow> expr meta \<Rightarrow> bin_op \<Rightarrow> expr meta \<Rightarrow> mir_value lower" where
  "binop_ip_addr ex en l binop r = (case binop of
     BDiv \<Rightarrow> desugared_binop ex en (le_prefix_id en) ''new'' (named ''Prefix'' []) (l, named ''IpAddr'' []) (r, t_u8)
   | _ \<Rightarrow> lower_panic Ice)"

definition binop_list ::
  "lower_expression \<Rightarrow> lower_env \<Rightarrow> rtype \<Rightarrow> expr meta \<Rightarrow> bin_op \<Rightarrow> expr meta \<Rightarrow> mir_value lower" where
  "binop_list ex en ty l binop r = (case binop of
     BAdd \<Rightarrow> desugared_binop ex en (le_list_id en) ''concat'' ty (l, ty) (r, ty)
   | _ \<Rightarrow> lower_panic Ice)"

definition shortcircuit_binop ::
  "lower_expression \<Rightarrow> expr meta \<Rightarrow> expr meta \<Rightarrow> ident \<Rightarrow> nat \<Rightarrow> mir_value lower" where
  "shortcircuit_binop ex l r other other_if =
     andthen current_label (\<lambda>cur.
     andthen (next_label cur) (\<lambda>lbl_cont.
     andthen (wrap_label cur other) (\<lambda>lbl_other.
     andthen undropped_tmp (\<lambda>t.
     andthen push_slot (\<lambda>_.
     andthen (ex l) (\<lambda>val.
     andthen (do_assign (place_new t REF_BOOL) REF_BOOL val) (\<lambda>_.
     andthen close_slot (\<lambda>_.
     andthen (emit_switch t [(other_if, lbl_other)] (Some lbl_cont)) (\<lambda>_.
     andthen (new_block lbl_other) (\<lambda>_.
     andthen push_slot (\<lambda>_.
     andthen (ex r) (\<lambda>val.
     andthen (do_assign (place_new t REF_BOOL) REF_BOOL val) (\<lambda>_.
     andthen close_slot (\<lambda>_.
     andthen (add_live_variable t REF_BOOL) (\<lambda>_.
     andthen (emit_jump lbl_cont) (\<lambda>_.
     andthen (new_block lbl_cont) (\<lambda>_.
     give (VMove t))))))))))))))))))"

text \<open>Both operands into variables, the right one after the left one.\<close>

definition plain_binop ::
  "lower_expression \<Rightarrow> lower_env \<Rightarrow> rtype \<Rightarrow> rtype \<Rightarrow> expr meta \<Rightarrow> bin_op \<Rightarrow> expr meta \<Rightarrow> mir_value lower" where
  "plain_binop ex en l_ty r_ty l binop r =
     andthen (convert_ty en l_ty) (\<lambda>l_ty.
     andthen (convert_ty en r_ty) (\<lambda>r_ty.
     andthen (ex l) (\<lambda>lv.
     andthen (assign_to_var lv l_ty) (\<lambda>lv.
     andthen (ex r) (\<lambda>rv.
     andthen (assign_to_var rv r_ty) (\<lambda>rv.
     give (VBinOp lv binop l_ty rv)))))))"

definition binop_expr :: "lower_expression \<Rightarrow> lower_env \<Rightarrow> expr meta \<Rightarrow> bin_op \<Rightarrow> expr meta \<Rightarrow> mir_value lower" where
  "binop_expr ex en l binop r =
     andthen (type_of en (meta_id l)) (\<lambda>l_ty.
     andthen (type_of en (meta_id r)) (\<lambda>r_ty.
     if binop = BEq \<or> binop = BNe then plain_binop ex en l_ty r_ty l binop r
     else if l_ty = t_string then binop_str ex en l binop r
     else if l_ty = named ''IpAddr'' [] then binop_ip_addr ex en l binop r
     else andthen (list_type en l_ty) (\<lambda>is_list.
       if is_list then binop_list ex en l_ty l binop r
       else if binop = BAnd then shortcircuit_binop ex l r ''and_other'' 1
       else if binop = BOr then shortcircuit_binop ex l r ''or_other'' 0
       else plain_binop ex en l_ty r_ty l binop r)))"

section \<open>Control flow\<close>

definition if_else ::
  "lower_expression \<Rightarrow> lower_env \<Rightarrow> meta_id \<Rightarrow> expr meta \<Rightarrow> block meta \<Rightarrow> block meta option \<Rightarrow> mir_value lower" where
  "if_else ex en i condition then_block else_block =
     andthen (ex condition) (\<lambda>examinee.
     andthen (assign_to_var examinee REF_BOOL) (\<lambda>examinee.
     andthen current_label (\<lambda>cur.
     andthen (next_label cur) (\<lambda>lbl_cont.
     andthen (wrap_label cur ''if-then'') (\<lambda>lbl_then.
     andthen (wrap_label cur ''if-else'') (\<lambda>lbl_else.
     andthen (emit_switch examinee [(1, lbl_then)] (Some (if else_block \<noteq> None then lbl_else else lbl_cont))) (\<lambda>_.
     andthen (new_block lbl_then) (\<lambda>_.
     andthen (lower_block ex en then_block) (\<lambda>op.
     andthen (type_ref en i) (\<lambda>ty.
     andthen undropped_tmp (\<lambda>res.
     andthen (emit_assign (place_new res ty) ty op) (\<lambda>_.
     andthen (emit_jump lbl_cont) (\<lambda>_.
     andthen (case else_block of
         None \<Rightarrow> give ()
       | Some b \<Rightarrow>
           andthen (new_block lbl_else) (\<lambda>_.
           andthen (lower_block ex en b) (\<lambda>op.
           andthen (emit_assign (place_new res ty) ty op) (\<lambda>_.
           emit_jump lbl_cont)))) (\<lambda>_.
     andthen (new_block lbl_cont) (\<lambda>_.
     andthen (add_live_variable res ty) (\<lambda>_.
     give (VMove res)))))))))))))))))"

definition while_loop :: "lower_expression \<Rightarrow> lower_env \<Rightarrow> expr meta \<Rightarrow> block meta \<Rightarrow> mir_value lower" where
  "while_loop ex en condition body =
     andthen current_label (\<lambda>cur.
     andthen (next_label cur) (\<lambda>lbl_cont.
     andthen (wrap_label cur ''while-condition'') (\<lambda>lbl_condition.
     andthen (wrap_label cur ''while-body'') (\<lambda>lbl_body.
     andthen (emit_jump lbl_condition) (\<lambda>_.
     andthen (new_block lbl_condition) (\<lambda>_.
     andthen (ex condition) (\<lambda>examinee.
     andthen (assign_to_var examinee REF_BOOL) (\<lambda>examinee.
     andthen (emit_switch examinee [(1, lbl_body)] (Some lbl_cont)) (\<lambda>_.
     andthen (new_block lbl_body) (\<lambda>_.
     andthen (lower_block ex en body) (\<lambda>val.
     andthen (assign_to_var val REF_UNIT) (\<lambda>_.
     andthen (emit_jump lbl_condition) (\<lambda>_.
     andthen (new_block lbl_cont) (\<lambda>_.
     give unit_value))))))))))))))"

definition for_increment :: "mir_var \<Rightarrow> label_ref \<Rightarrow> label_ref \<Rightarrow> unit lower" where
  "for_increment index_var lbl_increment lbl_condition =
     andthen (new_block lbl_increment) (\<lambda>_.
     andthen (assign_to_var (VConst (LitInteger 1 (Some IntU64)) REF_U64) REF_U64) (\<lambda>one_var.
     andthen (emit_assign (place_new index_var REF_U64) REF_U64 (VBinOp index_var BAdd REF_U64 one_var)) (\<lambda>_.
     emit_jump lbl_condition)))"

definition for_condition ::
  "lower_env \<Rightarrow> mir_var \<Rightarrow> ty_ref \<Rightarrow> mir_var \<Rightarrow> mir_var \<Rightarrow> ty_ref \<Rightarrow> label_ref \<Rightarrow> label_ref \<Rightarrow> label_ref \<Rightarrow> unit lower" where
  "for_condition en list_var list_ty index_var opt_elem_var opt_elem_ty lbl_condition lbl_body lbl_cont =
     andthen (new_block lbl_condition) (\<lambda>_.
     andthen (find_method en (le_list_id en) ''get'') (\<lambda>func_ref.
     andthen (assign_to_var (VClone (place_new list_var list_ty)) list_ty) (\<lambda>new_list_var.
     andthen (remove_live_variable new_list_var) (\<lambda>_.
     andthen (emit (MiAssign (place_new opt_elem_var opt_elem_ty) opt_elem_ty
       (VCallRuntime func_ref [new_list_var, index_var] []
         \<lparr>ms_parameter_types = [list_ty, REF_U64], ms_return_type = opt_elem_ty\<rparr>))) (\<lambda>_.
     andthen undropped_tmp (\<lambda>discriminant.
     andthen (emit_assign (place_new discriminant REF_U8) REF_U8 (VDiscriminant opt_elem_var)) (\<lambda>_.
     emit_switch discriminant [(0, lbl_body)] (Some lbl_cont))))))))"

definition for_body ::
  "lower_expression \<Rightarrow> lower_env \<Rightarrow> meta_id \<Rightarrow> mir_var \<Rightarrow> ty_ref \<Rightarrow> ty_ref \<Rightarrow> block meta \<Rightarrow> label_ref \<Rightarrow> label_ref \<Rightarrow> unit lower" where
  "for_body ex en i opt_elem_var opt_elem_ty elem_ty body lbl_body lbl_increment =
     andthen (new_block lbl_body) (\<lambda>_.
     andthen push_slot (\<lambda>_.
     andthen (table tt_resolved_names en i) (\<lambda>name.
     let elem_var = explicit_var name in
     andthen (add_var elem_var elem_ty) (\<lambda>_.
     andthen (add_slot opt_elem_var opt_elem_ty) (\<lambda>_.
     andthen (add_slot elem_var elem_ty) (\<lambda>_.
     andthen (do_assign (place_new elem_var elem_ty) elem_ty
       (VClone \<lparr>pl_var = opt_elem_var, pl_root_ty = opt_elem_ty, pl_projection = [PrVariantField ''Some'' 0]\<rparr>)) (\<lambda>_.
     andthen (lower_block ex en body) (\<lambda>val.
     andthen (assign_to_var val REF_UNIT) (\<lambda>_.
     andthen close_slot (\<lambda>_.
     emit_jump lbl_increment))))))))))"

definition for_loop :: "lower_expression \<Rightarrow> lower_env \<Rightarrow> name meta \<Rightarrow> expr meta \<Rightarrow> block meta \<Rightarrow> mir_value lower" where
  "for_loop ex en i e body =
     andthen current_label (\<lambda>cur.
     andthen (next_label cur) (\<lambda>lbl_cont.
     andthen (wrap_label cur ''for-increment'') (\<lambda>lbl_increment.
     andthen (wrap_label cur ''for-condition'') (\<lambda>lbl_condition.
     andthen (wrap_label cur ''for-body'') (\<lambda>lbl_body.
     andthen (type_of en (meta_id i)) (\<lambda>elem_ty0.
     andthen (convert_ty en elem_ty0) (\<lambda>elem_ty.
     andthen (convert_ty en (t_option elem_ty0)) (\<lambda>opt_elem_ty.
     andthen undropped_tmp (\<lambda>opt_elem_var.
     andthen (add_var opt_elem_var opt_elem_ty) (\<lambda>_.
     andthen (type_ref en (meta_id e)) (\<lambda>list_ty.
     andthen (ex e) (\<lambda>list_value.
     andthen (assign_to_var list_value list_ty) (\<lambda>list_var.
     andthen (assign_to_var (VConst (LitInteger 0 (Some IntU64)) REF_U64) REF_U64) (\<lambda>index_var.
     andthen (emit_jump lbl_condition) (\<lambda>_.
     andthen (for_increment index_var lbl_increment lbl_condition) (\<lambda>_.
     andthen (for_condition en list_var list_ty index_var opt_elem_var opt_elem_ty lbl_condition lbl_body lbl_cont) (\<lambda>_.
     andthen (for_body ex en (meta_id i) opt_elem_var opt_elem_ty elem_ty body lbl_body lbl_increment) (\<lambda>_.
     andthen (new_block lbl_cont) (\<lambda>_.
     give unit_value)))))))))))))))))))"

section \<open>F-strings\<close>

definition f_string_part_value :: "lower_expression \<Rightarrow> lower_env \<Rightarrow> fstring_part meta \<Rightarrow> mir_value lower" where
  "f_string_part_value ex en part = (case node part of
     FsString s \<Rightarrow> give (VConst (LitString s) REF_STRING)
   | FsExpr e \<Rightarrow>
       andthen (ex e) (\<lambda>val.
       andthen (type_of en (meta_id e)) (\<lambda>ty.
       andthen (table tt_function_calls en (meta_id part)) (\<lambda>func.
       normalized_function_call ex en func (Some (val, ty)) []))))"

definition f_string_append ::
  "lower_expression \<Rightarrow> lower_env \<Rightarrow> runtime_function_ref \<Rightarrow> mir_var \<Rightarrow> fstring_part meta \<Rightarrow> unit lower" where
  "f_string_append ex en func_ref string part =
     andthen (f_string_part_value ex en part) (\<lambda>new_string.
     andthen (assign_to_var new_string REF_STRING) (\<lambda>new_string.
     andthen (call_runtime func_ref []
       \<lparr>ms_parameter_types = [REF_STRING, REF_STRING], ms_return_type = REF_STRING\<rparr> [string, new_string]) (\<lambda>val.
     andthen (add_slot string REF_STRING) (\<lambda>_.
     do_assign (place_new string REF_STRING) REF_STRING val))))"

definition f_string_expr :: "lower_expression \<Rightarrow> lower_env \<Rightarrow> fstring_part meta list \<Rightarrow> mir_value lower" where
  "f_string_expr ex en parts =
     andthen (assign_to_var (VConst (LitString []) REF_STRING) REF_STRING) (\<lambda>string.
     andthen (find_method en (le_string_id en) ''append'') (\<lambda>func_ref.
     andthen (each (f_string_append ex en func_ref string) parts) (\<lambda>_.
     give (VMove string))))"

end
