(* ===== verification/Mir_Match.thy ===== *)
theory Mir_Match
  imports Mir_Lower
begin

text \<open>
  The lowering of a match, from \<open>src/src/mir/lower/match_expr.rs\<close>: a switch on the discriminant, for every
  discriminant a chain of guards over the arms that can match it, and a block for every arm.
\<close>

type_synonym branch = "nat option \<times> match_arm \<times> nat"

text \<open>The branches: the discriminant of the pattern, the arm and its number.\<close>

definition branch_of :: "(ident \<times> ty_ref list) list \<Rightarrow> match_arm \<times> nat \<Rightarrow> branch lower" where
  "branch_of variants a =
     (case a of (MatchArm pat guard body, i) \<Rightarrow>
        (case node pat of
           EnumVariantPattern v _ \<Rightarrow>
             andthen (expect Ice (position (\<lambda>s. fst s = ident_of (node v)) variants)) (\<lambda>d.
             give (Some d, MatchArm pat guard body, i))
         | Underscore \<Rightarrow> give (None, MatchArm pat guard body, i)))"

definition branches_of :: "(ident \<times> ty_ref list) list \<Rightarrow> match_arm list \<Rightarrow> branch list lower" where
  "branches_of variants arms = collect (branch_of variants) (zip arms [0..<length arms])"

definition discriminants :: "branch list \<Rightarrow> nat list" where
  "discriminants bs = remdups (List.map_filter fst bs)"

definition case_label :: "label_ref \<Rightarrow> nat \<Rightarrow> (nat \<times> label_ref) lower" where
  "case_label prefix d = andthen (wrap_label prefix (''case_'' @ show_nat d)) (\<lambda>l. give (d, l))"

definition arm_label :: "label_ref \<Rightarrow> branch \<Rightarrow> (nat \<times> label_ref) lower" where
  "arm_label prefix b =
     andthen (wrap_label prefix (''arm_'' @ show_nat (snd (snd b)))) (\<lambda>l. give (snd (snd b), l))"

text \<open>The bindings of a pattern with the types of the fields of its variant.\<close>

definition pattern_fields :: "match_arm \<Rightarrow> name meta list option" where
  "pattern_fields a = (case a of MatchArm pat _ _ \<Rightarrow>
     (case node pat of EnumVariantPattern _ (Some fs) \<Rightarrow> Some (node fs) | _ \<Rightarrow> None))"

definition bind_field :: "lower_env \<Rightarrow> mir_var \<Rightarrow> ty_ref \<Rightarrow> ident \<Rightarrow> nat \<times> name meta \<times> ty_ref \<Rightarrow> unit lower" where
  "bind_field en examinee examinee_ty variant f = (case f of (i, field, field_ty) \<Rightarrow>
     andthen (table tt_resolved_names en (meta_id field)) (\<lambda>name.
     let v = explicit_var name in
     andthen (add_live_variable v field_ty) (\<lambda>_.
     do_assign (place_new v field_ty) field_ty
       (VClone \<lparr>pl_var = examinee, pl_root_ty = examinee_ty, pl_projection = [PrVariantField variant i]\<rparr>))))"

definition bind_fields :: "lower_env \<Rightarrow> mir_var \<Rightarrow> ty_ref \<Rightarrow> (ident \<times> ty_ref list) option \<Rightarrow> match_arm \<Rightarrow> unit lower" where
  "bind_fields en examinee examinee_ty variant a = (case pattern_fields a of
     None \<Rightarrow> give ()
   | Some fs \<Rightarrow>
       andthen (expect Ice variant) (\<lambda>v.
       each (bind_field en examinee examinee_ty (fst v)) (zip [0..<length fs] (zip fs (snd v)))))"

fun guard_of :: "match_arm \<Rightarrow> expr meta option" where
  "guard_of (MatchArm _ guard _) = guard"

fun body_of :: "match_arm \<Rightarrow> block meta" where
  "body_of (MatchArm _ _ body) = body"

text \<open>One chain of guards.  \<open>i\<close> numbers the guards, \<open>next_lbl\<close> is the label of the next one.\<close>

fun guard_chain ::
  "lower_expression \<Rightarrow> lower_env \<Rightarrow> mir_var \<Rightarrow> ty_ref \<Rightarrow> (ident \<times> ty_ref list) option \<Rightarrow> label_ref
     \<Rightarrow> (nat \<times> label_ref) list \<Rightarrow> nat \<Rightarrow> label_ref \<Rightarrow> branch list \<Rightarrow> unit lower" where
  "guard_chain ex en examinee examinee_ty variant lbl arm_labels i next_lbl [] = give ()"
| "guard_chain ex en examinee examinee_ty variant lbl arm_labels i next_lbl ((d, arm, arm_index) # rest) =
     andthen (new_block next_lbl) (\<lambda>_.
     andthen push_slot (\<lambda>_.
     andthen (bind_fields en examinee examinee_ty variant arm) (\<lambda>_.
     andthen (wrap_label lbl (''guard_'' @ show_nat (i + 1))) (\<lambda>next_lbl.
     andthen (expect Ice (map_of arm_labels arm_index)) (\<lambda>arm_lbl.
     andthen pop_slot (\<lambda>to_drop.
     andthen (case guard_of arm of
         Some guard \<Rightarrow>
           andthen (ex guard) (\<lambda>op.
           andthen (assign_to_var op REF_BOOL) (\<lambda>op.
           andthen (wrap_label lbl (''guard_'' @ show_nat i @ ''_drop'')) (\<lambda>intermediate_lbl.
           andthen (emit_switch op [(1, arm_lbl)] (Some intermediate_lbl)) (\<lambda>_.
           andthen (new_block intermediate_lbl) (\<lambda>_.
           andthen (emit_drops to_drop) (\<lambda>_.
           emit_jump next_lbl))))))
       | None \<Rightarrow> emit_jump arm_lbl) (\<lambda>_.
     guard_chain ex en examinee examinee_ty variant lbl arm_labels (i + 1) next_lbl rest)))))))"

definition match_case ::
  "lower_expression \<Rightarrow> lower_env \<Rightarrow> mir_var \<Rightarrow> ty_ref \<Rightarrow> (ident \<times> ty_ref list) option \<Rightarrow> label_ref \<Rightarrow> branch list
     \<Rightarrow> (nat \<times> label_ref) list \<Rightarrow> unit lower" where
  "match_case ex en examinee examinee_ty variant lbl branches arm_labels =
     andthen (new_block lbl) (\<lambda>_.
     andthen (wrap_label lbl (''guard_'' @ show_nat 0)) (\<lambda>guard_lbl.
     andthen (emit_jump guard_lbl) (\<lambda>_.
     guard_chain ex en examinee examinee_ty variant lbl arm_labels 0 guard_lbl branches)))"

text \<open>The bindings of an arm are live again in its block.\<close>

definition readd_field :: "lower_env \<Rightarrow> name meta \<times> ty_ref \<Rightarrow> unit lower" where
  "readd_field en f =
     andthen (table tt_resolved_names en (meta_id (fst f))) (\<lambda>name. add_slot (explicit_var name) (snd f))"

definition readd_fields :: "lower_env \<Rightarrow> (ident \<times> ty_ref list) list \<Rightarrow> branch \<Rightarrow> unit lower" where
  "readd_fields en variants b = (case b of (d, arm, _) \<Rightarrow>
     (case pattern_fields arm of
        None \<Rightarrow> give ()
      | Some fs \<Rightarrow>
          andthen (expect Ice (Option.bind d (index variants))) (\<lambda>v.
          each (readd_field en) (zip fs (snd v)))))"

definition match_arm_block ::
  "lower_expression \<Rightarrow> lower_env \<Rightarrow> (ident \<times> ty_ref list) list \<Rightarrow> mir_var \<Rightarrow> ty_ref \<Rightarrow> (nat \<times> label_ref) list
     \<Rightarrow> label_ref \<Rightarrow> branch \<Rightarrow> unit lower" where
  "match_arm_block ex en variants out ty arm_labels continue_lbl b =
     andthen push_slot (\<lambda>_.
     andthen (readd_fields en variants b) (\<lambda>_.
     andthen (expect Ice (map_of arm_labels (snd (snd b)))) (\<lambda>lbl.
     andthen (new_block lbl) (\<lambda>_.
     andthen (lower_block ex en (body_of (fst (snd b)))) (\<lambda>val.
     andthen (emit_assign (place_new out ty) ty val) (\<lambda>_.
     andthen close_slot (\<lambda>_.
     emit_jump continue_lbl)))))))"

text \<open>The branches that can match a discriminant, and those that match every one.\<close>

definition branches_for :: "nat \<Rightarrow> branch list \<Rightarrow> branch list" where
  "branches_for d bs = filter (\<lambda>b. fst b = Some d \<or> fst b = None) bs"

definition default_branches :: "branch list \<Rightarrow> branch list" where
  "default_branches bs = filter (\<lambda>b. fst b = None) bs"

definition discriminant_case ::
  "lower_expression \<Rightarrow> lower_env \<Rightarrow> mir_var \<Rightarrow> ty_ref \<Rightarrow> (ident \<times> ty_ref list) list \<Rightarrow> branch list
     \<Rightarrow> (nat \<times> label_ref) list \<Rightarrow> nat \<times> label_ref \<Rightarrow> unit lower" where
  "discriminant_case ex en examinee examinee_ty variants branches arm_labels c =
     andthen (expect Ice (index variants (fst c))) (\<lambda>v.
     match_case ex en examinee examinee_ty (Some v) (snd c) (branches_for (fst c) branches) arm_labels)"

definition match_expr ::
  "lower_expression \<Rightarrow> lower_env \<Rightarrow> meta_id \<Rightarrow> (expr meta \<times> match_arm list) meta \<Rightarrow> mir_value lower" where
  "match_expr ex en i m = (case node m of (e, arms) \<Rightarrow>
     andthen (type_ref en (meta_id e)) (\<lambda>examinee_ty.
     andthen (pool_type examinee_ty) (\<lambda>t. case t of
       MEnum variants \<Rightarrow>
         andthen current_label (\<lambda>cur.
         andthen (wrap_label cur ''match'') (\<lambda>prefix.
         andthen (wrap_label prefix ''default'') (\<lambda>default_lbl.
         andthen (next_label cur) (\<lambda>continue_lbl.
         andthen (branches_of variants arms) (\<lambda>branches.
         andthen (collect (case_label prefix) (le_set_order en prefix (discriminants branches))) (\<lambda>case_labels.
         let cases = le_map_order en case_labels; defaults = default_branches branches in
         andthen (ex e) (\<lambda>examinee.
         andthen (assign_to_var examinee examinee_ty) (\<lambda>examinee.
         andthen undropped_tmp (\<lambda>discriminant.
         andthen (emit_assign (place_new discriminant REF_U8) REF_U8 (VDiscriminant examinee)) (\<lambda>_.
         andthen (emit_switch discriminant cases (if defaults \<noteq> [] then Some default_lbl else None)) (\<lambda>_.
         andthen (collect (arm_label prefix) branches) (\<lambda>arm_labels.
         andthen (each (discriminant_case ex en examinee examinee_ty variants branches arm_labels) cases) (\<lambda>_.
         andthen (if defaults \<noteq> []
             then match_case ex en examinee examinee_ty None default_lbl defaults arm_labels
             else give ()) (\<lambda>_.
         andthen (type_ref en i) (\<lambda>ty.
         andthen undropped_tmp (\<lambda>out.
         andthen (each (match_arm_block ex en variants out ty arm_labels continue_lbl) branches) (\<lambda>_.
         andthen (new_block continue_lbl) (\<lambda>_.
         andthen (add_live_variable out ty) (\<lambda>_.
         give (VMove out))))))))))))))))))))
     | _ \<Rightarrow> lower_panic Ice)))"

end
