(* ===== verification/Mir_Items.thy ===== *)
theory Mir_Items
  imports Mir_Match Mir_Dead_Code
begin

text \<open>
  The lowering of expressions as a whole, of the items of a script and of the script, from
  \<open>src/src/mir/lower.rs\<close>.  The recursion into an expression takes fuel, one unit for every level.
\<close>

section \<open>Expressions\<close>

definition expr_step :: "lower_expression \<Rightarrow> lower_env \<Rightarrow> expr meta \<Rightarrow> mir_value lower" where
  "expr_step ex en e = (let i = meta_id e in case node e of
     EReturn kind e \<Rightarrow> return_expr ex en kind e
   | ELiteral l \<Rightarrow> literal en l
   | EBlock b \<Rightarrow> block_expr ex en b
   | EMatch m \<Rightarrow> match_expr ex en i m
   | EFunctionCall f args \<Rightarrow> function_call ex en i f args
   | EAccess e field \<Rightarrow> access ex en e field
   | EPath p \<Rightarrow> path en i p
   | ERecord r \<Rightarrow> record_expr ex en i (node r)
   | ETypedRecord _ r \<Rightarrow> record_expr ex en i (node r)
   | EList es \<Rightarrow> list_expr ex en i es
   | ENot e \<Rightarrow> not_expr ex e
   | ENegate e \<Rightarrow> negate ex en e
   | EAssign p e \<Rightarrow> assign ex en p e
   | ECompoundAssign c e \<Rightarrow> compound_assign ex en c e
   | EBinOp l op r \<Rightarrow> binop_expr ex en l op r
   | EIfElse c t e \<Rightarrow> if_else ex en i c t e
   | EWhile c b \<Rightarrow> while_loop ex en c b
   | EFor n e b \<Rightarrow> for_loop ex en n e b
   | EQuestionMark e \<Rightarrow> question_mark ex en e
   | EFString parts \<Rightarrow> f_string_expr ex en parts)"

fun lower_expr :: "nat \<Rightarrow> lower_env \<Rightarrow> expr meta \<Rightarrow> mir_value lower" where
  "lower_expr 0 en e = (\<lambda>_. LowerFuel)"
| "lower_expr (Suc n) en e = expr_step (lower_expr n en) en e"

section \<open>Items\<close>

text \<open>\<open>Lowerer::new\<close>, from the type information and the labels that the lowerings share.\<close>

type_synonym shared = "convert_state \<times> label_store"

definition lowerer_new :: "lower_env \<Rightarrow> meta_id \<Rightarrow> bool \<Rightarrow> shared \<Rightarrow> lowerer option" where
  "lowerer_new en function_name is_constant sh = do {
     let tt = le_tables en;
     function_scope \<leftarrow> tt_function_scopes tt function_name;
     (s, ty) \<leftarrow> (if is_constant then type_of_id tt (fst sh) function_name
        else do { sg \<leftarrow> tt_function_signatures tt function_name; Some (fst sh, return_type sg) });
     (s', rt) \<leftarrow> convert_type (le_fuel en) tt s ty;
     Some \<lparr>lw_function_scope = function_scope, lw_tmp_idx = 0, lw_blocks = [], lw_return_type = rt,
       lw_stack_slots = [], lw_vars = [], lw_labels = snd sh, lw_info = s'\<rparr> }"

definition add_parameter :: "lower_env \<Rightarrow> resolved_name \<times> rtype \<Rightarrow> (mir_var \<times> ty_ref) lower" where
  "add_parameter en p =
     andthen (convert_ty en (snd p)) (\<lambda>ty.
     andthen (add_live_variable (explicit_var (fst p)) ty) (\<lambda>_.
     give (explicit_var (fst p), ty)))"

definition finish_item :: "lower_env \<Rightarrow> meta_id \<Rightarrow> scope_ref \<Rightarrow> mir_item_kind \<Rightarrow> mir_item lower" where
  "finish_item en i s kind =
     andthen (table tt_resolved_names en i) (\<lambda>name.
     andthen (expect Ice (full_name (le_tables en) name)) (\<lambda>full.
     andthen the_lowerer (\<lambda>st.
     give \<lparr>mi_ty = kind, mi_name = full, mi_scope = s, mi_variables = lw_vars st, mi_blocks = lw_blocks st,
       mi_tmp_idx = lw_tmp_idx st\<rparr>)))"

definition lower_constant :: "nat \<Rightarrow> lower_env \<Rightarrow> meta_id \<Rightarrow> expr meta \<Rightarrow> mir_item lower" where
  "lower_constant n en i e =
     andthen (table tt_function_scopes en i) (\<lambda>s.
     andthen (fresh_label ''$entry'') (\<lambda>l.
     andthen (new_block l) (\<lambda>_.
     andthen push_slot (\<lambda>_.
     andthen push_slot (\<lambda>_.
     andthen (lower_expr n en e) (\<lambda>val.
     andthen (type_of en i) (\<lambda>ty.
     andthen (convert_ty en ty) (\<lambda>mir_ty.
     andthen (assign_to_var val mir_ty) (\<lambda>t.
     andthen (remove_live_variable t) (\<lambda>_.
     andthen close_slot (\<lambda>_.
     andthen (emit_return t) (\<lambda>_.
     andthen (table tt_resolved_names en i) (\<lambda>name.
     finish_item en i s (MkConstant ty mir_ty name))))))))))))))"

definition function_like ::
  "nat \<Rightarrow> lower_env \<Rightarrow> meta_id \<Rightarrow> params \<Rightarrow> rtype \<Rightarrow> block meta \<Rightarrow> mir_item lower" where
  "function_like n en i ps ret_ty body =
     andthen (table tt_function_scopes en i) (\<lambda>s.
     andthen (fresh_label ''$entry'') (\<lambda>l.
     andthen (new_block l) (\<lambda>_.
     andthen (collect (\<lambda>p. andthen (type_of en (meta_id (fst p))) (\<lambda>ty.
         andthen (table tt_resolved_names en (meta_id (fst p))) (\<lambda>name. give (name, ty)))) ps) (\<lambda>parameter_types.
     andthen push_slot (\<lambda>_.
     andthen (collect (add_parameter en) parameter_types) (\<lambda>parameters.
     andthen (lower_block (lower_expr n en) en body) (\<lambda>val.
     andthen (convert_ty en ret_ty) (\<lambda>mir_ret.
     andthen (assign_to_var val mir_ret) (\<lambda>t.
     andthen close_slot (\<lambda>_.
     andthen (emit_return t) (\<lambda>_.
     finish_item en i s (MkFunction (map fst parameters)
       \<lparr>sig_types = [], parameter_types = map snd parameter_types, return_type = ret_ty\<rparr>
       \<lparr>ms_parameter_types = map snd parameters, ms_return_type = mir_ret\<rparr>))))))))))))"

text \<open>The identifiers of tests and constants are renamed, but only their ids are looked up.\<close>

definition lower_function :: "nat \<Rightarrow> lower_env \<Rightarrow> meta_id \<Rightarrow> params \<Rightarrow> block meta \<Rightarrow> mir_item lower" where
  "lower_function n en i ps body =
     andthen (table tt_resolved_names en i) (\<lambda>name.
     andthen (expect Ice (get_declaration (tt_scope_graph (le_tables en)) name)) (\<lambda>dec.
     case dec_kind dec of
       DkFunction (Some f) \<Rightarrow> function_like n en i ps (return_type (fd_signature f)) body
     | _ \<Rightarrow> lower_panic Ice))"

definition lower_filter_map :: "nat \<Rightarrow> lower_env \<Rightarrow> meta_id \<Rightarrow> params \<Rightarrow> block meta \<Rightarrow> mir_item lower" where
  "lower_filter_map n en i ps body =
     andthen (table tt_function_signatures en i) (\<lambda>sg. function_like n en i ps (return_type sg) body)"

definition lower_test :: "nat \<Rightarrow> lower_env \<Rightarrow> meta_id \<Rightarrow> block meta \<Rightarrow> mir_item lower" where
  "lower_test n en i body = function_like n en i [] (t_verdict TUnit TUnit) body"

section \<open>Scripts\<close>

text \<open>The id of the name of a lowered declaration, whether it is a constant, and its lowering.\<close>

fun lowering_of :: "nat \<Rightarrow> lower_env \<Rightarrow> declaration_item \<Rightarrow> (meta_id \<times> bool \<times> mir_item lower) option" where
  "lowering_of n en (DeFilterMap _ i ps body) =
     Some (meta_id i, False, lower_filter_map n en (meta_id i) (node ps) body)"
| "lowering_of n en (DeFunction i ps _ body) =
     Some (meta_id i, False, lower_function n en (meta_id i) (node ps) body)"
| "lowering_of n en (DeTest i body) = Some (meta_id i, False, lower_test n en (meta_id i) body)"
| "lowering_of n en (DeConst i _ e) = Some (meta_id i, True, lower_constant n en (meta_id i) e)"
| "lowering_of n en _ = None"

text \<open>The items lowered so far by name, with the shared state; \<open>None\<close> is a declaration that is ignored.\<close>

datatype 'a tree_result = TreeOk 'a | TreePanic lower_panic | TreeFuel | TreeNoAnswer unanswered

definition lower_declaration ::
  "nat \<Rightarrow> lower_env \<Rightarrow> declaration_item \<Rightarrow> shared \<times> (resolved_name \<Rightarrow> mir_item option)
     \<Rightarrow> (shared \<times> (resolved_name \<Rightarrow> mir_item option)) tree_result" where
  "lower_declaration n en d s = (case lowering_of n en d of
     None \<Rightarrow> TreeOk s
   | Some (i, is_constant, m) \<Rightarrow>
       (case tt_resolved_names (le_tables en) i of
          None \<Rightarrow> TreePanic Ice
        | Some name \<Rightarrow>
            (case lowerer_new en i is_constant (fst s) of
               None \<Rightarrow> TreePanic Ice
             | Some st \<Rightarrow>
                 (case m st of
                    Lowered item st' \<Rightarrow> TreeOk ((lw_info st', lw_labels st'), (snd s)(name \<mapsto> item))
                  | LowerPanic e \<Rightarrow> TreePanic e
                  | LowerFuel \<Rightarrow> TreeFuel
                  | LowerNoAnswer q \<Rightarrow> TreeNoAnswer q))))"

fun lower_declarations ::
  "nat \<Rightarrow> lower_env \<Rightarrow> declaration_item list \<Rightarrow> shared \<times> (resolved_name \<Rightarrow> mir_item option)
     \<Rightarrow> (shared \<times> (resolved_name \<Rightarrow> mir_item option)) tree_result" where
  "lower_declarations n en [] s = TreeOk s"
| "lower_declarations n en (d # ds) s = (case lower_declaration n en d s of
     TreeOk s' \<Rightarrow> lower_declarations n en ds s'
   | TreePanic e \<Rightarrow> TreePanic e
   | TreeFuel \<Rightarrow> TreeFuel
   | TreeNoAnswer q \<Rightarrow> TreeNoAnswer q)"

text \<open>\<open>order.iter().flat_map(|n| items.remove(n))\<close>.\<close>

fun take_items :: "(resolved_name \<Rightarrow> mir_item option) \<Rightarrow> resolved_name list \<Rightarrow> mir" where
  "take_items items [] = []"
| "take_items items (x # xs) = (case items x of
     None \<Rightarrow> take_items items xs
   | Some item \<Rightarrow> item # take_items (items(x := None)) xs)"

definition lower_tree ::
  "nat \<Rightarrow> lower_env \<Rightarrow> syntax_tree list \<Rightarrow> resolved_name list \<Rightarrow> shared \<Rightarrow> (shared \<times> mir) tree_result" where
  "lower_tree n en modules order sh =
     (case lower_declarations n en (concat modules) (sh, Map.empty) of
        TreeOk (sh', items) \<Rightarrow> TreeOk (sh', take_items items order)
      | TreePanic e \<Rightarrow> TreePanic e
      | TreeFuel \<Rightarrow> TreeFuel
      | TreeNoAnswer q \<Rightarrow> TreeNoAnswer q)"

text \<open>
  The outer \<open>None\<close> is dead-code elimination without end.
\<close>

definition lower_to_mir ::
  "nat \<Rightarrow> lower_env \<Rightarrow> syntax_tree list \<Rightarrow> resolved_name list \<Rightarrow> shared \<Rightarrow> (shared \<times> mir) tree_result option" where
  "lower_to_mir n en modules order sh =
     (case lower_tree n en modules order sh of
        TreeOk (sh', m) \<Rightarrow>
          (case eliminate_dead_code m of
             None \<Rightarrow> None
           | Some None \<Rightarrow> Some (TreePanic Ice)
           | Some (Some m') \<Rightarrow> Some (TreeOk (sh', m')))
      | TreePanic e \<Rightarrow> Some (TreePanic e)
      | TreeFuel \<Rightarrow> Some TreeFuel
      | TreeNoAnswer q \<Rightarrow> Some (TreeNoAnswer q))"

end
