(* ===== verification/Mir_Lower_Logic.thy ===== *)
theory Mir_Lower_Logic
  imports Mir_Items
begin

text \<open>
  A logic for the lowering.  \<open>run f m Q st\<close> says that \<open>m\<close> can only panic with \<open>Ice\<close> from \<open>st\<close> (never because a
  variable is not live, a slot or a block is missing), that it has fuel when \<open>f\<close> holds, and that \<open>Q\<close> holds of
  its value and final state.  The invariant \<open>lower_inv c P U Xs\<close> speaks of the blocks and slots built so far: \<open>P\<close> are the labels
  promised a block, \<open>U\<close> the temporaries that are not in a slot yet, \<open>Xs\<close> says for every slot which
  temporaries it holds at least, and \<open>c\<close> says whether the targets of jumps are followed.
\<close>

definition run :: "bool \<Rightarrow> 'a lower \<Rightarrow> ('a \<Rightarrow> lowerer \<Rightarrow> bool) \<Rightarrow> lowerer \<Rightarrow> bool" where
  "run f m Q st \<longleftrightarrow> (case m st of
     Lowered x st' \<Rightarrow> Q x st' | LowerPanic e \<Rightarrow> e = Ice | LowerFuel \<Rightarrow> \<not> f
   | LowerNoAnswer q \<Rightarrow> no_answer q)"

lemma run_andthen [simp]: "run f (andthen m g) Q st \<longleftrightarrow> run f m (\<lambda>x st'. run f (g x) Q st') st"
  by (simp add: run_def andthen_def split: lowered.splits)

lemma run_give [simp]: "run f (give x) Q st \<longleftrightarrow> Q x st"
  by (simp add: run_def give_def)

lemma run_ice [simp]: "run f (lower_panic Ice) Q st"
  by (simp add: run_def lower_panic_def)

lemma run_the_lowerer [simp]: "run f the_lowerer Q st \<longleftrightarrow> Q st st"
  by (simp add: run_def the_lowerer_def)

lemma run_set_lowerer [simp]: "run f (set_lowerer st') Q st \<longleftrightarrow> Q () st'"
  by (simp add: run_def set_lowerer_def)

lemma run_expect: "(\<And>v. x = Some v \<Longrightarrow> Q v st) \<Longrightarrow> run f (expect Ice x) Q st"
  by (cases x) (simp_all add: expect_def)

lemma run_table: "(\<And>v. Q v st) \<Longrightarrow> run f (table t en i) Q st"
  by (simp add: table_def run_expect)

lemma run_return_ty [simp]: "run f return_ty Q st \<longleftrightarrow> Q (lw_return_type st) st"
  by (simp add: return_ty_def)

lemma run_pool_type: "(\<And>t. Q t st) \<Longrightarrow> run f (pool_type r) Q st"
  by (simp add: pool_type_def run_expect)

lemma run_find_method: "(\<And>r. Q r st) \<Longrightarrow> run f (find_method en i m) Q st"
  unfolding find_method_def by (rule run_expect)

lemma run_mono: "run f m Q st \<Longrightarrow> (\<And>x st'. Q x st' \<Longrightarrow> R x st') \<Longrightarrow> run f m R st"
  by (auto simp: run_def split: lowered.splits)

lemma run_if [simp]: "run f (if b then m else m') Q st \<longleftrightarrow> (if b then run f m Q st else run f m' Q st)"
  by simp

section \<open>What is seen of a state\<close>

abbreviation slots :: "lowerer \<Rightarrow> (mir_var \<times> ty_ref) list list" where
  "slots \<equiv> lw_stack_slots"

definition lab :: "lowerer \<Rightarrow> label_ref set" where
  "lab st = mb_label ` set (lw_blocks st)"

definition nlab :: "lowerer \<Rightarrow> nat" where
  "nlab st = length (labels (lw_labels st))"

definition ended_block :: "mir_block \<Rightarrow> bool" where
  "ended_block b \<longleftrightarrow> mb_instructions b \<noteq> [] \<and> is_terminator (last (mb_instructions b))"

definition ended :: "lowerer \<Rightarrow> bool" where
  "ended st \<longleftrightarrow> ended_block (last (lw_blocks st))"

definition same_end :: "lowerer \<Rightarrow> lowerer \<Rightarrow> bool" where
  "same_end st st' \<longleftrightarrow> (ended st' \<longleftrightarrow> ended st)"

lemma same_end_trans: "same_end a b \<Longrightarrow> same_end b d \<Longrightarrow> same_end a d"
  by (simp add: same_end_def)

lemma same_endD: "same_end st st' \<Longrightarrow> ended st \<Longrightarrow> ended st'"
  by (simp add: same_end_def)

definition block_targets :: "mir_block list \<Rightarrow> label_ref set" where
  "block_targets bs = (\<Union>b \<in> set bs. \<Union>i \<in> set (mb_instructions b). set (successors i))"

definition blocks_ok :: "bool \<Rightarrow> label_ref set \<Rightarrow> lowerer \<Rightarrow> bool" where
  "blocks_ok c P st \<longleftrightarrow> lw_blocks st \<noteq> [] \<and> distinct (map mb_label (lw_blocks st)) \<and>
     (\<forall>l \<in> lab st \<union> P. l < nlab st) \<and> P \<inter> lab st = {} \<and>
     (\<forall>b \<in> set (butlast (lw_blocks st)). ended_block b) \<and>
     (c \<longrightarrow> block_targets (lw_blocks st) \<subseteq> lab st \<union> P)"

definition is_tmp :: "mir_var \<Rightarrow> bool" where
  "is_tmp v \<longleftrightarrow> (case mv_kind v of MvTmp _ \<Rightarrow> True | MvExplicit _ \<Rightarrow> False)"

lemma is_tmp_simps [simp]:
  "is_tmp \<lparr>mv_scope = s, mv_kind = MvTmp i\<rparr>" "\<not> is_tmp \<lparr>mv_scope = s, mv_kind = MvExplicit x\<rparr>"
  "\<not> is_tmp (explicit_var n)"
  by (simp_all add: is_tmp_def explicit_var_def)

lemma is_tmpI: "mv_kind v = MvTmp i \<Longrightarrow> is_tmp v"
  by (simp add: is_tmp_def)

definition in_slots :: "lowerer \<Rightarrow> mir_var set" where
  "in_slots st = fst ` set (concat (slots st))"

definition holds :: "mir_var set \<Rightarrow> (mir_var \<times> ty_ref) list \<Rightarrow> bool" where
  "holds X s \<longleftrightarrow> X \<subseteq> fst ` set s \<and> (\<forall>v \<in> X. is_tmp v)"

definition slots_ok :: "mir_var set \<Rightarrow> mir_var set list \<Rightarrow> lowerer \<Rightarrow> bool" where
  "slots_ok U Xs st \<longleftrightarrow> list_all2 holds Xs (slots st) \<and>
     distinct (filter is_tmp (map fst (concat (slots st)))) \<and>
     (\<forall>v \<in> in_slots st \<union> U. \<forall>i. mv_kind v = MvTmp i \<longrightarrow> i < lw_tmp_idx st) \<and>
     (\<forall>v \<in> U. is_tmp v) \<and> U \<inter> in_slots st = {}"

definition lower_inv :: "bool \<Rightarrow> label_ref set \<Rightarrow> mir_var set \<Rightarrow> mir_var set list \<Rightarrow> lowerer \<Rightarrow> bool" where
  "lower_inv c P U Xs st \<longleftrightarrow> blocks_ok c P st \<and> slots_ok U Xs st"

fun moved :: "mir_value \<Rightarrow> mir_var set" where
  "moved (VMove v) = {v}"
| "moved _ = {}"

lemma holds_less: "holds X s \<Longrightarrow> Y \<subseteq> X \<Longrightarrow> holds Y s"
  unfolding holds_def by blast

lemma inv_less:
  "lower_inv c P U Xs st \<Longrightarrow> V \<subseteq> U \<Longrightarrow> lower_inv c P V Xs st"
  unfolding lower_inv_def slots_ok_def by blast

lemma inv_drop: "lower_inv c P (insert v U) Xs st \<Longrightarrow> lower_inv c P U Xs st"
  by (erule inv_less) blast

lemma inv_less_top:
  "lower_inv c P U (X # Xs) st \<Longrightarrow> Y \<subseteq> X \<Longrightarrow> lower_inv c P U (Y # Xs) st"
  using holds_less by (auto simp: lower_inv_def slots_ok_def list_all2_Cons1)

lemma inv_final:
  assumes "lower_inv c P' U' (X' # Xs) st" and "P' = P" and "U \<subseteq> U'" and "X \<subseteq> X'"
  shows "lower_inv c P U (X # Xs) st"
  using inv_less_top [OF inv_less [OF assms(1,3)] assms(4)] assms(2) by simp

section \<open>Blocks and labels\<close>

lemma butlast_last_ended:
  "\<forall>b \<in> set (butlast bs). ended_block b \<Longrightarrow> bs \<noteq> [] \<Longrightarrow> ended_block (last bs) \<Longrightarrow> b \<in> set bs \<Longrightarrow> ended_block b"
  by (cases bs rule: rev_cases) auto

lemma run_new_block:
  assumes "lower_inv c P U Xs st" and "l \<in> P" and "ended st"
    and "\<And>st'. lower_inv c (P - {l}) U Xs st' \<Longrightarrow> lab st' = insert l (lab st) \<Longrightarrow> Q () st'"
  shows "run f (new_block l) Q st"
proof -
  let ?b = "\<lparr>mb_label = l, mb_instructions = []\<rparr>"
  let ?st = "st\<lparr>lw_blocks := lw_blocks st @ [?b]\<rparr>"
  from assms(1) have ok: "blocks_ok c P st" by (simp add: lower_inv_def)
  have l: "lab ?st = insert l (lab st)" and n: "nlab ?st = nlab st" by (simp_all add: lab_def nlab_def)
  have t: "block_targets (lw_blocks ?st) = block_targets (lw_blocks st)" by (simp add: block_targets_def)
  have e: "\<forall>b \<in> set (lw_blocks st). ended_block b"
    using ok assms(3) butlast_last_ended [of "lw_blocks st"] by (simp add: blocks_ok_def ended_def same_end_def)
  have d: "distinct (map mb_label (lw_blocks ?st))"
    using ok assms(2) by (auto simp: blocks_ok_def lab_def)
  have "blocks_ok c (P - {l}) ?st"
    unfolding blocks_ok_def l n t using ok assms(2) e d by (auto simp: blocks_ok_def)
  then have "lower_inv c (P - {l}) U Xs ?st" using assms(1) by (simp add: lower_inv_def slots_ok_def in_slots_def)
  then have "Q () ?st" by (rule assms(4)) (auto simp: lab_def)
  then show ?thesis by (simp add: run_def new_block_def)
qed

lemma run_current_label:
  assumes "lower_inv c P U Xs st" and "\<And>l. Q l st"
  shows "run f current_label Q st"
  using assms by (auto simp: run_def current_label_def lower_inv_def blocks_ok_def)

lemma run_emit:
  assumes inv: "lower_inv c P U Xs st" and succ: "c \<Longrightarrow> set (successors i) \<subseteq> lab st \<union> P"
    and post: "\<And>st'. lower_inv c P U Xs st' \<Longrightarrow> lab st' = lab st \<Longrightarrow>
      ended st' = is_terminator i \<Longrightarrow> Q () st'"
  shows "run f (emit i) Q st"
proof -
  let ?b = "last (lw_blocks st)"
  let ?st = "st\<lparr>lw_blocks := butlast (lw_blocks st) @ [?b\<lparr>mb_instructions := mb_instructions ?b @ [i]\<rparr>]\<rparr>"
  from inv have ok: "blocks_ok c P st" by (simp add: lower_inv_def)
  then obtain bs b where bs: "lw_blocks st = bs @ [b]"
    by (cases "lw_blocks st" rule: rev_cases) (auto simp: blocks_ok_def)
  have l: "lab ?st = lab st" and n: "nlab ?st = nlab st" by (simp_all add: lab_def bs nlab_def)
  have t: "block_targets (lw_blocks ?st) = block_targets (lw_blocks st) \<union> set (successors i)"
    by (auto simp: block_targets_def bs)
  have "blocks_ok c P ?st"
    unfolding blocks_ok_def l n t using ok succ by (auto simp: blocks_ok_def bs)
  then have "lower_inv c P U Xs ?st" using inv by (simp add: lower_inv_def slots_ok_def in_slots_def)
  then have "Q () ?st" by (rule post) (auto simp: l ended_def ended_block_def)
  with bs show ?thesis by (simp add: run_def emit_def Let_def)
qed

lemma inv_labels:
  assumes "lower_inv c P U Xs st" and "labels s = labels (lw_labels st) @ [x]"
  shows "lower_inv c (insert (nlab st) P) U Xs (st\<lparr>lw_labels := s\<rparr>) \<and> lower_inv c P U Xs (st\<lparr>lw_labels := s\<rparr>) \<and>
    nlab st \<notin> P \<and> nlab st \<notin> lab st"
proof -
  let ?st = "st\<lparr>lw_labels := s\<rparr>"
  have l: "lab ?st = lab st" and n: "nlab ?st = Suc (nlab st)" by (simp_all add: lab_def nlab_def assms(2))
  from assms(1) have ok: "blocks_ok c P st" by (simp add: lower_inv_def)
  then have new: "nlab st \<notin> P" "nlab st \<notin> lab st" by (auto simp: blocks_ok_def)
  have "blocks_ok c (insert (nlab st) P) ?st" and "blocks_ok c P ?st"
    unfolding blocks_ok_def l n using ok new by (auto simp: blocks_ok_def less_Suc_eq)
  moreover have "slots_ok U Xs ?st" using assms(1) by (simp add: lower_inv_def slots_ok_def in_slots_def)
  ultimately show ?thesis using new by (simp add: lower_inv_def)
qed

text \<open>A new label may be promised a block or not.\<close>

definition label_step :: "label_ref lower \<Rightarrow> bool" where
  "label_step m \<longleftrightarrow> (\<forall>st. m st = LowerPanic Ice \<or>
     (\<exists>s x. m st = Lowered (nlab st) (st\<lparr>lw_labels := s\<rparr>) \<and> labels s = labels (lw_labels st) @ [x]))"

lemma label_step_wrap: "label_step (wrap_label p i)"
  by (auto simp: label_step_def wrap_label_def wrap_internal_def push_label_def nlab_def)

lemma label_step_fresh: "label_step (fresh_label i)"
  by (auto simp: label_step_def fresh_label_def new_label_def push_label_def nlab_def)

lemma label_step_next: "label_step (next_label p)"
proof -
  have "next_label p st = LowerPanic Ice \<or>
     (\<exists>s x. next_label p st = Lowered (nlab st) (st\<lparr>lw_labels := s\<rparr>) \<and> labels s = labels (lw_labels st) @ [x])" for st
  proof (cases "label_next (lw_labels st) p")
    case None
    then show ?thesis by (simp add: next_label_def andthen_def the_lowerer_def expect_def lower_panic_def)
  next
    case (Some r)
    then obtain s' x where "r = (s', nlab st)" and "labels s' = labels (lw_labels st) @ [x]"
      by (auto simp: label_next_def push_label_def bind_eq_Some_conv nlab_def)
    with Some show ?thesis
      by (auto simp: next_label_def andthen_def the_lowerer_def expect_def give_def set_lowerer_def)
  qed
  then show ?thesis by (simp add: label_step_def)
qed

lemmas label_steps = label_step_wrap label_step_fresh label_step_next

lemma run_label:
  assumes "label_step m" and "lower_inv c P U Xs st"
    and "\<And>l st'. lower_inv c (insert l P) U Xs st' \<Longrightarrow> lower_inv c P U Xs st' \<Longrightarrow> l \<notin> P \<Longrightarrow> l \<notin> lab st \<Longrightarrow>
      lab st' = lab st \<Longrightarrow> same_end st st' \<Longrightarrow> Q l st'"
  shows "run f m Q st"
proof -
  from assms(1) consider "m st = LowerPanic Ice"
    | s x where "m st = Lowered (nlab st) (st\<lparr>lw_labels := s\<rparr>)" "labels s = labels (lw_labels st) @ [x]"
    unfolding label_step_def by blast
  then show ?thesis
  proof cases
    case 1
    then show ?thesis by (simp add: run_def)
  next
    case 2
    have "Q (nlab st) (st\<lparr>lw_labels := s\<rparr>)"
      using inv_labels [OF assms(2) 2(2)] by (intro assms(3)) (simp_all add: lab_def ended_def same_end_def)
    with 2(1) show ?thesis by (simp add: run_def)
  qed
qed

lemma run_label_in:
  assumes "label_step m" and "lower_inv c P U Xs st"
    and "\<And>l st'. lower_inv c (insert l P) U Xs st' \<Longrightarrow> l \<notin> P \<Longrightarrow> l \<notin> lab st \<Longrightarrow>
      lab st' = lab st \<Longrightarrow> same_end st st' \<Longrightarrow> Q l st'"
  shows "run f m Q st"
  using run_label [OF assms(1,2)] assms(3) by blast

lemma run_label_out:
  assumes "label_step m" and "lower_inv c P U Xs st"
    and "\<And>l st'. lower_inv c P U Xs st' \<Longrightarrow>
      lab st' = lab st \<Longrightarrow> same_end st st' \<Longrightarrow> Q l st'"
  shows "run f m Q st"
  using run_label [OF assms(1,2)] assms(3) by blast

section \<open>Slots and temporaries\<close>

lemma inv_blocks: "lower_inv c P U Xs st \<Longrightarrow> lw_blocks st' = lw_blocks st \<Longrightarrow> lw_labels st' = lw_labels st \<Longrightarrow>
    blocks_ok c P st'"
  by (simp add: lower_inv_def blocks_ok_def lab_def nlab_def)

lemma run_push_slot:
  assumes "lower_inv c P U Xs st"
    and "\<And>st'. lower_inv c P U ({} # Xs) st' \<Longrightarrow> lab st' = lab st \<Longrightarrow> same_end st st' \<Longrightarrow> Q () st'"
  shows "run f push_slot Q st"
proof -
  let ?st = "st\<lparr>lw_stack_slots := [] # slots st\<rparr>"
  have "blocks_ok c P ?st" using assms(1) by (rule inv_blocks) simp_all
  moreover have "slots_ok U ({} # Xs) ?st"
    using assms(1) by (simp add: lower_inv_def slots_ok_def in_slots_def holds_def)
  ultimately have "Q () ?st" by (intro assms(2)) (simp_all add: lower_inv_def lab_def ended_def same_end_def)
  then show ?thesis by (simp add: run_def push_slot_def)
qed

lemma run_pop_last:
  assumes "lower_inv c P U (X # Xs) st"
    and "\<And>s st'. lower_inv c P U Xs st' \<Longrightarrow> lab st' = lab st \<Longrightarrow> same_end st st' \<Longrightarrow> Q s st'"
  shows "run f pop_slot Q st"
proof -
  from assms(1) have ok: "slots_ok U (X # Xs) st" by (simp add: lower_inv_def)
  then obtain s ss where s: "slots st = s # ss" by (auto simp: slots_ok_def list_all2_Cons1)
  let ?st = "st\<lparr>lw_stack_slots := ss\<rparr>"
  have i: "in_slots st = fst ` set s \<union> in_slots ?st" using s by (simp add: in_slots_def image_Un)
  have "slots_ok U Xs ?st" using ok s unfolding slots_ok_def i by auto
  moreover have "blocks_ok c P ?st" using assms(1) by (rule inv_blocks) simp_all
  ultimately have "Q s ?st" by (intro assms(2)) (simp_all add: lower_inv_def lab_def ended_def same_end_def)
  with s show ?thesis by (simp add: run_def pop_slot_def)
qed

lemma run_pop_slot:
  assumes "lower_inv c P U (X # Xs) st" and "Xs \<noteq> []"
    and "\<And>s st'. lower_inv c P U Xs st' \<Longrightarrow> lab st' = lab st \<Longrightarrow> same_end st st' \<Longrightarrow> Q s st'"
  shows "run f pop_slot Q st"
  using assms(1,3) by (rule run_pop_last)

lemma run_add_var:
  assumes "lower_inv c P U Xs st"
    and "\<And>st'. lower_inv c P U Xs st' \<Longrightarrow> lab st' = lab st \<Longrightarrow> same_end st st' \<Longrightarrow> Q () st'"
  shows "run f (add_var v t) Q st"
proof -
  let ?st = "st\<lparr>lw_vars := lw_vars st @ [(v, t)]\<rparr>"
  have "lower_inv c P U Xs ?st"
    using assms(1) by (simp add: lower_inv_def slots_ok_def blocks_ok_def in_slots_def lab_def nlab_def)
  then have "Q () ?st" by (rule assms(2)) (simp_all add: lab_def ended_def same_end_def)
  then show ?thesis by (simp add: run_def add_var_def)
qed

text \<open>A slot takes a variable with a name, or a temporary that is in no slot yet.\<close>

lemma run_add_slot:
  assumes "lower_inv c P U (X # Xs) st" and "is_tmp v \<Longrightarrow> v \<in> U"
    and "\<And>st'. lower_inv c P (U - {v}) ((if is_tmp v then insert v X else X) # Xs) st' \<Longrightarrow>
      (is_tmp v \<Longrightarrow> v \<notin> X) \<Longrightarrow> lab st' = lab st \<Longrightarrow> same_end st st' \<Longrightarrow> Q () st'"
  shows "run f (add_slot v t) Q st"
proof -
  from assms(1) have ok: "slots_ok U (X # Xs) st" by (simp add: lower_inv_def)
  then obtain s ss where s: "slots st = s # ss" by (auto simp: slots_ok_def list_all2_Cons1)
  let ?st = "st\<lparr>lw_stack_slots := (s @ [(v, t)]) # ss\<rparr>"
  have i: "in_slots ?st = insert v (in_slots st)" using s by (auto simp: in_slots_def)
  have n: "is_tmp v \<Longrightarrow> v \<notin> in_slots st" using ok assms(2) by (auto simp: slots_ok_def)
  then have d: "distinct (filter is_tmp (map fst (concat (slots ?st))))"
    using ok s by (auto simp: slots_ok_def in_slots_def)
  have b: "\<forall>i. mv_kind v = MvTmp i \<longrightarrow> v \<in> U" using assms(2) is_tmpI by blast
  have h: "list_all2 holds ((if is_tmp v then insert v X else X) # Xs) (slots ?st)"
    using ok s by (auto simp: slots_ok_def holds_def)
  have "slots_ok (U - {v}) ((if is_tmp v then insert v X else X) # Xs) ?st"
    unfolding slots_ok_def i using ok d b h s by (auto simp: slots_ok_def)
  moreover have "blocks_ok c P ?st" using assms(1) by (rule inv_blocks) simp_all
  moreover have "is_tmp v \<Longrightarrow> v \<notin> X"
    using n ok s by (auto simp: slots_ok_def holds_def in_slots_def)
  ultimately have "Q () ?st" by (intro assms(3)) (simp_all add: lower_inv_def lab_def ended_def same_end_def)
  with s show ?thesis by (simp add: run_def add_slot_def)
qed

lemma run_add_slot_tmp:
  assumes "lower_inv c P U (X # Xs) st" and "is_tmp v" and "v \<in> U"
    and "\<And>st'. lower_inv c P (U - {v}) (insert v X # Xs) st' \<Longrightarrow> v \<notin> X \<Longrightarrow> lab st' = lab st \<Longrightarrow>
      same_end st st' \<Longrightarrow> Q () st'"
  shows "run f (add_slot v t) Q st"
  by (rule run_add_slot [OF assms(1)]) (use assms in simp_all)

lemma run_add_slot_named:
  assumes "lower_inv c P U (X # Xs) st" and "\<not> is_tmp v"
    and "\<And>st'. lower_inv c P U (X # Xs) st' \<Longrightarrow> lab st' = lab st \<Longrightarrow> same_end st st' \<Longrightarrow> Q () st'"
  shows "run f (add_slot v t) Q st"
proof (rule run_add_slot [OF assms(1)])
  have "v \<notin> U" using assms(1,2) by (auto simp: lower_inv_def slots_ok_def)
  then show "Q () st'"
    if "lower_inv c P (U - {v}) ((if is_tmp v then insert v X else X) # Xs) st'" "lab st' = lab st" "same_end st st'"
    for st' using that assms(2) by (intro assms(3)) simp_all
qed (use assms(2) in simp)

lemma run_live_tmp:
  assumes "lower_inv c P U (X # Xs) st" and "is_tmp v" and "v \<in> U"
    and "\<And>st'. lower_inv c P (U - {v}) (insert v X # Xs) st' \<Longrightarrow> v \<notin> X \<Longrightarrow> lab st' = lab st \<Longrightarrow>
      same_end st st' \<Longrightarrow> Q () st'"
  shows "run f (add_live_variable v t) Q st"
  unfolding add_live_variable_def run_andthen
  by (rule run_add_var [OF assms(1)], rule run_add_slot_tmp) (use assms in \<open>auto intro: same_end_trans\<close>)

lemma run_live_named:
  assumes "lower_inv c P U (X # Xs) st" and "\<not> is_tmp v"
    and "\<And>st'. lower_inv c P U (X # Xs) st' \<Longrightarrow> lab st' = lab st \<Longrightarrow> same_end st st' \<Longrightarrow> Q () st'"
  shows "run f (add_live_variable v t) Q st"
  unfolding add_live_variable_def run_andthen
  by (rule run_add_var [OF assms(1)], rule run_add_slot_named) (use assms in \<open>auto intro: same_end_trans\<close>)

lemma run_undropped_tmp:
  assumes "lower_inv c P U Xs st"
    and "\<And>v st'. lower_inv c P (insert v U) Xs st' \<Longrightarrow> v \<notin> U \<Longrightarrow> is_tmp v \<Longrightarrow>
      lab st' = lab st \<Longrightarrow> same_end st st' \<Longrightarrow> Q v st'"
  shows "run f undropped_tmp Q st"
proof -
  let ?st = "st\<lparr>lw_tmp_idx := lw_tmp_idx st + 1\<rparr>"
  let ?v = "\<lparr>mv_scope = lw_function_scope st, mv_kind = MvTmp (lw_tmp_idx st)\<rparr>"
  from assms(1) have ok: "slots_ok U Xs st" by (simp add: lower_inv_def)
  then have new: "?v \<notin> in_slots st \<union> U" unfolding slots_ok_def by force
  have "slots_ok (insert ?v U) Xs ?st"
    using ok new by (auto simp: slots_ok_def in_slots_def less_Suc_eq)
  moreover have "blocks_ok c P ?st" using assms(1) by (rule inv_blocks) simp_all
  ultimately have "Q ?v ?st" using new by (intro assms(2)) (simp_all add: lower_inv_def lab_def ended_def same_end_def)
  then show ?thesis by (auto simp: undropped_tmp_def intro!: run_expect)
qed

lemma run_tmp:
  assumes "lower_inv c P U (X # Xs) st"
    and "\<And>v st'. lower_inv c P U (insert v X # Xs) st' \<Longrightarrow> v \<notin> X \<Longrightarrow> v \<notin> U \<Longrightarrow> is_tmp v \<Longrightarrow> lab st' = lab st \<Longrightarrow>
      same_end st st' \<Longrightarrow> Q v st'"
  shows "run f (tmp t) Q st"
  unfolding tmp_def run_andthen run_give
proof (rule run_undropped_tmp [OF assms(1)], rule run_live_tmp)
  fix v st1 st2
  assume "lab st1 = lab st" "same_end st st1" "lab st2 = lab st1" "same_end st1 st2" "v \<notin> U" "v \<notin> X" "is_tmp v"
    and "lower_inv c P (insert v U - {v}) (insert v X # Xs) st2"
  then show "Q v st2" by (intro assms(2)) (auto intro: same_end_trans)
qed auto

text \<open>A temporary known to be in the current slot can be removed; it is then in no slot.\<close>

lemma run_remove:
  assumes "lower_inv c P U (X # Xs) st" and "v \<in> X"
    and "\<And>t st'. lower_inv c P (insert v U) ((X - {v}) # Xs) st' \<Longrightarrow> lab st' = lab st \<Longrightarrow> same_end st st' \<Longrightarrow>
      v \<notin> U \<Longrightarrow> Q t st'"
  shows "run f (remove_live_variable v) Q st"
proof -
  from assms(1) have ok: "slots_ok U (X # Xs) st" by (simp add: lower_inv_def)
  then obtain s ss where s: "slots st = s # ss" by (auto simp: slots_ok_def list_all2_Cons1)
  with ok have h: "holds X s" by (simp add: slots_ok_def)
  with assms(2) have v: "v \<in> fst ` set s" "is_tmp v" by (auto simp: holds_def)
  then have "position (\<lambda>x. fst x = v) s \<noteq> None" by (auto simp: position_None)
  then obtain i where i: "position (\<lambda>x. fst x = v) s = Some i" by blast
  then have il: "i < length s" and fi: "fst (s ! i) = v" by (auto dest: position_Some)
  let ?s = "take i s @ drop (Suc i) s"
  let ?st = "st\<lparr>lw_stack_slots := ?s # ss\<rparr>"
  have split: "s = take i s @ (s ! i) # drop (Suc i) s" using il by (rule id_take_nth_drop)
  have d: "distinct (filter is_tmp (map fst (concat (s # ss))))" using ok s by (simp add: slots_ok_def)
  have "distinct (filter is_tmp (map fst (concat (?s # ss)))) \<and> v \<notin> fst ` set (concat (?s # ss))"
    using d v(2) fi by (subst (asm) split) auto
  then have d': "distinct (filter is_tmp (map fst (concat (?s # ss))))" and n: "v \<notin> in_slots ?st"
    by (simp_all add: in_slots_def)
  have "set s = insert (s ! i) (set ?s)" by (subst split) auto
  then have fs: "fst ` set s = insert v (fst ` set ?s)" using fi by auto
  have is_in: "in_slots st = insert v (in_slots ?st)" using s fs by (simp add: in_slots_def image_Un Un_assoc)
  have vi: "\<forall>i. mv_kind v = MvTmp i \<longrightarrow> i < lw_tmp_idx st" "v \<notin> U"
    using ok v s by (auto simp: slots_ok_def in_slots_def)
  have "holds (X - {v}) ?s" using h fs by (auto simp: holds_def)
  moreover have "insert v U \<inter> in_slots ?st = {}" using ok n is_in by (auto simp: slots_ok_def)
  moreover have "\<forall>u \<in> in_slots ?st \<union> insert v U. \<forall>i. mv_kind u = MvTmp i \<longrightarrow> i < lw_tmp_idx st"
    using ok vi is_in by (auto simp: slots_ok_def)
  ultimately have "slots_ok (insert v U) ((X - {v}) # Xs) ?st"
    using ok s d' v(2) by (auto simp: slots_ok_def)
  moreover have "blocks_ok c P ?st" using assms(1) by (rule inv_blocks) simp_all
  ultimately have "Q (snd (s ! i)) ?st"
    using vi by (intro assms(3)) (simp_all add: lower_inv_def lab_def ended_def same_end_def)
  with s i show ?thesis by (simp add: run_def remove_live_variable_def)
qed

lemma run_do_assign:
  assumes "lower_inv c P U (X # Xs) st" and "moved val \<subseteq> X"
    and "\<And>st'. lower_inv c P U ((X - moved val) # Xs) st' \<Longrightarrow> lab st' = lab st \<Longrightarrow> Q () st'"
  shows "run f (do_assign to t val) Q st"
proof (cases "\<exists>v. val = VMove v")
  case True
  then obtain v where v: "val = VMove v" by blast
  show ?thesis
    unfolding do_assign_def v mir_value.case run_andthen emit_assign_def
  proof (rule run_remove [OF assms(1)])
    show "v \<in> X" using assms(2) v by simp
  next
    fix t' st1
    assume "lower_inv c P (insert v U) ((X - {v}) # Xs) st1" and "lab st1 = lab st"
    then show "run f (give ()) (\<lambda>x. run f (emit (MiAssign to t (VMove v))) Q) st1"
      using assms(3) v by (auto intro!: run_emit dest!: inv_drop)
  qed
next
  case False
  then have "do_assign to t val = andthen (give ()) (\<lambda>_. emit_assign to t val)" and "moved val = {}"
    by (cases val; simp add: do_assign_def)+
  with assms show ?thesis by (auto simp: emit_assign_def intro!: run_emit)
qed

text \<open>The variable of a value: the one it was moved from, or a new temporary.\<close>

lemma run_assign_to_var:
  assumes "lower_inv c P U (X # Xs) st" and "moved val \<subseteq> X"
    and "\<And>v st'. lower_inv c P U (insert v X # Xs) st' \<Longrightarrow> lab st' = lab st \<Longrightarrow>
      v \<notin> X - moved val \<Longrightarrow> is_tmp v \<Longrightarrow> Q v st'"
  shows "run f (assign_to_var val t) Q st"
proof (cases "\<exists>v. val = VMove v")
  case True
  then obtain v where v: "val = VMove v" by blast
  have "is_tmp v" using assms(1,2) v by (auto simp: lower_inv_def slots_ok_def list_all2_Cons1 holds_def)
  moreover have "insert v X = X" using assms(2) v by auto
  ultimately show ?thesis using assms(1,3) v by (simp add: assign_to_var_def)
next
  case False
  then have a: "assign_to_var val t = andthen (tmp t) (\<lambda>to. andthen (do_assign (place_new to t) t val) (\<lambda>_. give to))"
    and m: "moved val = {}"
    by (cases val; simp add: assign_to_var_def)+
  show ?thesis
    unfolding a run_andthen
    by (rule run_tmp [OF assms(1)], rule run_do_assign) (use m assms(3) in auto)
qed

lemma run_drop_var:
  assumes "lower_inv c P U (X # Xs) st" and "v \<in> X"
    and "\<And>st'. lower_inv c P U ((X - {v}) # Xs) st' \<Longrightarrow> lab st' = lab st \<Longrightarrow> Q () st'"
  shows "run f (drop_var v) Q st"
  unfolding drop_var_def emit_drop_def run_andthen
  by (rule run_remove [OF assms(1,2)], rule run_emit) (use assms(3) in \<open>auto dest!: inv_drop\<close>)

lemma run_emit_drops:
  assumes "lower_inv c P U Xs st"
    and "\<And>st'. lower_inv c P U Xs st' \<Longrightarrow> lab st' = lab st \<Longrightarrow> Q () st'"
  shows "run f (emit_drops vs) Q st"
proof -
  have "run f (each (\<lambda>(v, t). emit_drop (place_new v t) t) vs) Q st"
    if "lower_inv c P U Xs st" "\<And>st'. lower_inv c P U Xs st' \<Longrightarrow> lab st' = lab st \<Longrightarrow> Q () st'" for vs st
    using that
  proof (induction vs arbitrary: st)
    case (Cons x vs)
    obtain v t where x: "x = (v, t)" by (cases x)
    show ?case
      unfolding x each.simps run_andthen split_conv emit_drop_def
      by (rule run_emit [OF Cons.prems(1)], simp, rule Cons.IH [unfolded emit_drop_def])
        (use Cons.prems(2) in auto)
  qed simp
  with assms show ?thesis by (simp add: emit_drops_def)
qed

lemma run_close_last:
  assumes "lower_inv c P U (X # Xs) st"
    and "\<And>st'. lower_inv c P U Xs st' \<Longrightarrow> lab st' = lab st \<Longrightarrow> Q () st'"
  shows "run f close_slot Q st"
  unfolding close_slot_def run_andthen
  by (rule run_pop_last [OF assms(1)], rule run_emit_drops) (use assms(2) in auto)

lemma run_close_slot:
  assumes "lower_inv c P U (X # Xs) st" and "Xs \<noteq> []"
    and "\<And>st'. lower_inv c P U Xs st' \<Longrightarrow> lab st' = lab st \<Longrightarrow> Q () st'"
  shows "run f close_slot Q st"
  using assms(1,3) by (rule run_close_last)

text \<open>A value that was just evaluated is consumed.\<close>

lemma run_consume:
  assumes "lower_inv c P U ((X \<union> moved val) # Xs) st" and "X \<inter> moved val = {}"
    and "\<And>st'. lower_inv c P U (X # Xs) st' \<Longrightarrow> lab st' = lab st \<Longrightarrow> Q () st'"
  shows "run f (do_assign to t val) Q st"
proof (rule run_do_assign [OF assms(1)])
  have "X \<union> moved val - moved val = X" using assms(2) by blast
  then show "Q () st'" if "lower_inv c P U ((X \<union> moved val - moved val) # Xs) st'" "lab st' = lab st" for st'
    using that by (intro assms(3)) simp_all
qed simp

lemma run_to_var:
  assumes "lower_inv c P U ((X \<union> moved val) # Xs) st" and "X \<inter> moved val = {}"
    and "\<And>v st'. lower_inv c P U (insert v X # Xs) st' \<Longrightarrow> v \<notin> X \<Longrightarrow> is_tmp v \<Longrightarrow> lab st' = lab st \<Longrightarrow> Q v st'"
  shows "run f (assign_to_var val t) Q st"
proof (rule run_assign_to_var [OF assms(1)])
  fix v st'
  assume "lower_inv c P U (insert v (X \<union> moved val) # Xs) st'" "lab st' = lab st"
    "v \<notin> X \<union> moved val - moved val" "is_tmp v"
  with assms(2) show "Q v st'" by (intro assms(3)) (auto elim: inv_less_top)
qed simp

lemma run_to_var_plain:
  assumes "lower_inv c P U (X # Xs) st" and "moved val = {}"
    and "\<And>v st'. lower_inv c P U (insert v X # Xs) st' \<Longrightarrow> v \<notin> X \<Longrightarrow> is_tmp v \<Longrightarrow> lab st' = lab st \<Longrightarrow> Q v st'"
  shows "run f (assign_to_var val t) Q st"
  by (rule run_to_var) (use assms in auto)

section \<open>The tables\<close>

lemma run_on_info:
  assumes "lower_inv c P U Xs st"
    and "g (lw_info st) = None \<Longrightarrow> no_answer (Unanswered (le_tables en) (le_fuel en) (lw_info st) q)"
    and "\<And>x st'. lower_inv c P U Xs st' \<Longrightarrow> lab st' = lab st \<Longrightarrow> same_end st st' \<Longrightarrow> Q x st'"
  shows "run f (on_info en q g) Q st"
proof (cases "g (lw_info st)")
  case (Some r)
  obtain s x where r: "r = (s, x)" by (cases r)
  have "Q x (st\<lparr>lw_info := s\<rparr>)"
    using assms(1)
    by (intro assms(3)) (simp_all add: lower_inv_def slots_ok_def blocks_ok_def in_slots_def lab_def nlab_def ended_def same_end_def)
  with Some r show ?thesis by (simp add: run_def on_info_def)
qed (simp add: run_def on_info_def assms(2))

lemma run_type_of:
  assumes "lower_inv c P U Xs st"
    and "\<And>x st'. lower_inv c P U Xs st' \<Longrightarrow> lab st' = lab st \<Longrightarrow> same_end st st' \<Longrightarrow> Q x st'"
  shows "run f (type_of en i) Q st"
  unfolding type_of_def by (rule run_on_info [OF assms(1) _ assms(2)]) simp_all

lemma run_convert_ty:
  assumes "lower_inv c P U Xs st"
    and "\<And>x st'. lower_inv c P U Xs st' \<Longrightarrow> lab st' = lab st \<Longrightarrow> same_end st st' \<Longrightarrow> Q x st'"
  shows "run f (convert_ty en t) Q st"
  unfolding convert_ty_def by (rule run_on_info [OF assms(1) _ assms(2)]) simp_all

lemma run_list_type:
  assumes "lower_inv c P U Xs st"
    and "\<And>x st'. lower_inv c P U Xs st' \<Longrightarrow> lab st' = lab st \<Longrightarrow> same_end st st' \<Longrightarrow> Q x st'"
  shows "run f (list_type en t) Q st"
  unfolding list_type_def by (rule run_on_info [OF assms(1) _ assms(2)]) simp_all

lemma run_type_ref:
  assumes "lower_inv c P U Xs st"
    and "\<And>x st'. lower_inv c P U Xs st' \<Longrightarrow> lab st' = lab st \<Longrightarrow> same_end st st' \<Longrightarrow> Q x st'"
  shows "run f (type_ref en i) Q st"
  unfolding type_ref_def run_andthen
  by (rule run_type_of [OF assms(1)], rule run_convert_ty, assumption, rule assms(2))
    (assumption | simp | (rule same_end_trans, assumption, assumption))+

lemmas run_tables = run_type_of run_convert_ty run_type_ref run_table run_pool_type run_find_method run_expect

section \<open>What a lowering keeps\<close>

text \<open>
  \<open>keeps c f mv m\<close>: \<open>m\<close> keeps the invariant with everything promised and everything known to be in a slot, and
  adds the temporaries \<open>mv x\<close> of its result \<open>x\<close>, which are new, to the current slot.
\<close>

definition keeps :: "bool \<Rightarrow> bool \<Rightarrow> ('a \<Rightarrow> mir_var set) \<Rightarrow> 'a lower \<Rightarrow> bool" where
  "keeps c f mv m \<longleftrightarrow> (\<forall>P U X Xs st. lower_inv c P U (X # Xs) st \<longrightarrow>
     run f m (\<lambda>x st'. lower_inv c P U ((X \<union> mv x) # Xs) st' \<and> X \<inter> mv x = {} \<and> lab st \<subseteq> lab st') st)"

lemma keepsI:
  assumes "\<And>P U X Xs st. lower_inv c P U (X # Xs) st \<Longrightarrow>
     run f m (\<lambda>x st'. lower_inv c P U ((X \<union> mv x) # Xs) st' \<and> X \<inter> mv x = {} \<and> lab st \<subseteq> lab st') st"
  shows "keeps c f mv m"
  using assms by (simp add: keeps_def)

lemma run_keeps:
  assumes "keeps c f mv m" and "lower_inv c P U (X # Xs) st"
    and "\<And>x st'. lower_inv c P U ((X \<union> mv x) # Xs) st' \<Longrightarrow> X \<inter> mv x = {} \<Longrightarrow> lab st \<subseteq> lab st' \<Longrightarrow> Q x st'"
  shows "run f m Q st"
proof (rule run_mono)
  show "run f m (\<lambda>x st'. lower_inv c P U ((X \<union> mv x) # Xs) st' \<and> X \<inter> mv x = {} \<and> lab st \<subseteq> lab st') st"
    using assms(1,2) unfolding keeps_def by blast
qed (use assms(3) in blast)

text \<open>A step that moves nothing.\<close>

abbreviation nothing :: "'a \<Rightarrow> mir_var set" where
  "nothing \<equiv> \<lambda>_. {}"

lemma run_keeps_unit:
  assumes "keeps c f nothing m" and "lower_inv c P U (X # Xs) st"
    and "\<And>x st'. lower_inv c P U (X # Xs) st' \<Longrightarrow> lab st \<subseteq> lab st' \<Longrightarrow> Q x st'"
  shows "run f m Q st"
  by (rule run_keeps [OF assms(1,2)]) (use assms(3) in simp)

lemma keeps_each:
  assumes "\<And>x. x \<in> set xs \<Longrightarrow> keeps c f nothing (g x)"
  shows "keeps c f nothing (each g xs)"
  using assms
proof (induction xs)
  case Nil
  then show ?case by (simp add: keeps_def)
next
  case (Cons x xs)
  then have x: "keeps c f nothing (g x)" and xs: "keeps c f nothing (each g xs)" by simp_all
  show ?case by (rule keepsI) (auto intro!: run_keeps_unit [OF x] run_keeps_unit [OF xs])
qed

lemma keeps_collect:
  assumes "\<And>x. x \<in> set xs \<Longrightarrow> keeps c f mv (g x)"
  shows "keeps c f (\<lambda>ys. \<Union>(mv ` set ys)) (collect g xs)"
  using assms
proof (induction xs)
  case Nil
  then show ?case by (simp add: keeps_def)
next
  case (Cons x xs)
  then have x: "keeps c f mv (g x)" and xs: "keeps c f (\<lambda>ys. \<Union>(mv ` set ys)) (collect g xs)" by simp_all
  show ?case
    by (rule keepsI) (auto intro!: run_keeps [OF x] run_keeps [OF xs] simp: Un_assoc)
qed

end
