(* ===== verification/Mir_Lower_Safe.thy ===== *)
theory Mir_Lower_Safe
  imports Mir_Lower_Logic
begin

text \<open>
  Every method of the lowering keeps the invariant of \<open>Mir_Lower_Logic\<close>, given that the lowering of the
  expressions in \<open>S\<close> does.
\<close>

lemmas run_rules = run_emit run_new_block run_current_label run_push_slot run_pop_slot run_close_slot
  run_add_var run_undropped_tmp run_tmp run_live_tmp run_consume run_to_var run_emit_drops run_tables

lemmas run_unfold = run_andthen run_give emit_assign_def emit_switch_def emit_jump_def emit_return_def
  emit_set_discriminant_def emit_drop_def

lemmas run_labels_in = run_label_in [OF label_step_wrap] run_label_in [OF label_step_next]
  run_label_in [OF label_step_fresh]

fun stmt_expr :: "stmt \<Rightarrow> expr meta" where
  "stmt_expr (SLet _ _ e) = e"
| "stmt_expr (SExpr e) = e"

definition block_children :: "block \<Rightarrow> expr meta list" where
  "block_children b = map (\<lambda>s. stmt_expr (node s)) (blk_stmts b) @
     (case blk_last b of Some e \<Rightarrow> [e] | None \<Rightarrow> [])"

locale expr_lowering =
  fixes c :: bool and f :: bool and S :: "expr meta set" and ex :: lower_expression and en :: lower_env
  assumes ex: "e \<in> S \<Longrightarrow> keeps c f moved (ex e)"
begin

lemmas run_steps = run_keeps [OF ex] run_rules

section \<open>Blocks and statements\<close>

lemma keeps_stmt:
  assumes "stmt_expr (node s) \<in> S"
  shows "keeps c f nothing (stmt ex en s)"
proof (cases "node s")
  case (SLet i t e)
  with assms have e: "e \<in> S" by simp
  show ?thesis
    unfolding stmt_def SLet stmt.case Let_def
    by (rule keepsI, unfold run_unfold,
      (rule run_steps run_live_named | assumption | rule e | (simp; fail))+)
next
  case (SExpr e)
  with assms have e: "e \<in> S" by simp
  show ?thesis
    unfolding stmt_def SExpr stmt.case
    by (rule keepsI, unfold run_unfold,
      (rule run_steps run_drop_var | assumption | rule e | (simp; fail))+)
qed

lemma run_block:
  assumes ch: "set (block_children (node b)) \<subseteq> S" and inv: "lower_inv c P U (X # Xs) st"
    and post: "\<And>v st'. lower_inv c P U (X # Xs) st' \<Longrightarrow> lab st \<subseteq> lab st' \<Longrightarrow> Q (VMove v) st'"
  shows "run f (lower_block ex en b) Q st"
proof -
  have "stmt_expr (node s) \<in> S" if "s \<in> set (blk_stmts (node b))" for s
    using that ch by (force simp: block_children_def)
  then have stmts: "keeps c f nothing (each (stmt ex en) (blk_stmts (node b)))"
    by (intro keeps_each keeps_stmt)
  have last: "keeps c f moved (case blk_last (node b) of Some e \<Rightarrow> ex e | None \<Rightarrow> give unit_value)"
  proof (cases "blk_last (node b)")
    case None
    then show ?thesis by (auto simp: keeps_def unit_value_def)
  next
    case (Some e)
    then have "e \<in> S" using ch by (simp add: block_children_def)
    with Some show ?thesis by (simp add: ex)
  qed
  show ?thesis
    unfolding lower_block_def run_unfold
    by (rule run_push_slot [OF inv], rule run_keeps_unit [OF stmts], assumption, rule run_keeps [OF last], assumption,
      (rule run_rules run_remove | assumption)+)
     (use post in \<open>auto intro!: run_rules dest!: inv_drop\<close>)
qed

lemma keeps_block_expr: "set (block_children (node b)) \<subseteq> S \<Longrightarrow> keeps c f moved (block_expr ex en b)"
  unfolding block_expr_def
  by (rule keepsI, unfold run_unfold)
    (rule run_block run_rules | assumption | (simp add: insert_Diff_if; fail) | (auto simp: insert_Diff_if; fail)[1])+

section \<open>Enum values, returns and the question mark\<close>

text \<open>The variables that a list of values moves.\<close>

fun moved_list :: "mir_value \<Rightarrow> mir_var list" where
  "moved_list (VMove v) = [v]"
| "moved_list _ = []"

lemma set_moved_list [simp]: "set (moved_list v) = moved v"
  by (cases v) simp_all

definition moves :: "mir_value list \<Rightarrow> mir_var list" where
  "moves vs = concat (map moved_list vs)"

lemma moves_simps [simp]: "moves [] = []" "moves (v # vs) = moved_list v @ moves vs"
  by (simp_all add: moves_def)

lemma run_collect_values:
  fixes g :: "'x \<Rightarrow> (mir_value \<times> 'y) lower"
  assumes "\<And>x. x \<in> set xs \<Longrightarrow> keeps c f (\<lambda>y. moved (fst y)) (g x)" and "lower_inv c P U (X # Xs) st"
    and "\<And>ys st'. lower_inv c P U ((X \<union> set (moves (map fst ys))) # Xs) st' \<Longrightarrow>
      X \<inter> set (moves (map fst ys)) = {} \<Longrightarrow> distinct (moves (map fst ys)) \<Longrightarrow> lab st \<subseteq> lab st' \<Longrightarrow> Q ys st'"
  shows "run f (collect g xs) Q st"
  using assms
proof (induction xs arbitrary: X st Q)
  case Nil
  then show ?case by simp
next
  case (Cons x xs)
  have x: "keeps c f (\<lambda>y. moved (fst y)) (g x)" using Cons.prems(1) by simp
  show ?case
    unfolding collect.simps run_unfold
  proof (rule run_keeps [OF x Cons.prems(2)])
    fix y :: "mir_value \<times> 'y" and st1
    assume y: "lower_inv c P U ((X \<union> moved (fst y)) # Xs) st1" "X \<inter> moved (fst y) = {}" "lab st \<subseteq> lab st1"
    show "run f (collect g xs) (\<lambda>ys. Q (y # ys)) st1"
    proof (rule Cons.IH [OF _ y(1)])
      fix ys :: "(mir_value \<times> 'y) list" and st2
      assume "lower_inv c P U ((X \<union> moved (fst y) \<union> set (moves (map fst ys))) # Xs) st2"
        "(X \<union> moved (fst y)) \<inter> set (moves (map fst ys)) = {}" "distinct (moves (map fst ys))" "lab st1 \<subseteq> lab st2"
      moreover have "distinct (moved_list (fst y))" by (cases "fst y") simp_all
      ultimately show "Q (y # ys) st2"
        using y by (intro Cons.prems(3)) (auto simp: Un_assoc)
    qed (use Cons.prems(1) in simp)
  qed
qed

lemma run_variant_fields:
  assumes "lower_inv c P U ((X \<union> set (moves (map fst args))) # Xs) st"
    and "X \<inter> set (moves (map fst args)) = {}" and "distinct (moves (map fst args))"
    and "\<And>st'. lower_inv c P U (X # Xs) st' \<Longrightarrow> lab st' = lab st \<Longrightarrow> Q () st'"
  shows "run f (assign_variant_fields to ty variant i args) Q st"
  using assms
proof (induction args arbitrary: i st)
  case Nil
  then show ?case by simp
next
  case (Cons a args)
  obtain val t where a: "a = (val, t)" by (cases a)
  have eq: "X \<union> set (moves (map fst (a # args))) - moved val = X \<union> set (moves (map fst args))"
    using Cons.prems(2,3) by (auto simp: a)
  show ?case
    unfolding a assign_variant_fields.simps run_unfold
  proof (rule run_do_assign [OF Cons.prems(1)])
    show "moved val \<subseteq> X \<union> set (moves (map fst (a # args)))" by (auto simp: a)
  next
    fix st1
    assume st1: "lower_inv c P U ((X \<union> set (moves (map fst (a # args))) - moved val) # Xs) st1" "lab st1 = lab st"
    show "run f (assign_variant_fields to ty variant (Suc i) args) Q st1"
      by (rule Cons.IH [OF st1(1) [unfolded eq]]) (use Cons.prems st1 in \<open>auto simp: a\<close>)
  qed
qed

lemma run_make_enum:
  assumes "lower_inv c P U ((X \<union> set (moves (map fst args))) # Xs) st"
    and "X \<inter> set (moves (map fst args)) = {}" and "distinct (moves (map fst args))"
    and "\<And>v st'. lower_inv c P U (insert v X # Xs) st' \<Longrightarrow> v \<notin> X \<Longrightarrow> is_tmp v \<Longrightarrow> lab st' = lab st \<Longrightarrow> Q (VMove v) st'"
  shows "run f (make_enum ty variant args) Q st"
proof -
  have "run f (case t of
       MEnum variants \<Rightarrow>
         andthen (expect Ice (find (\<lambda>v. fst v = variant) variants)) (\<lambda>v.
         andthen (tmp ty) (\<lambda>to.
         andthen (emit_set_discriminant to ty (fst v)) (\<lambda>_.
         andthen (assign_variant_fields to ty (fst v) 0 args) (\<lambda>_.
         give (VMove to)))))
     | _ \<Rightarrow> lower_panic Ice) Q st" for t
  proof (cases "\<exists>vs. t = MEnum vs")
    case True
    then obtain vs where t: "t = MEnum vs" by blast
    show ?thesis
      unfolding t ty.case run_unfold
    proof (rule run_expect, rule run_tmp [OF assms(1)])
      fix v to st1
      assume st1: "lower_inv c P U (insert to (X \<union> set (moves (map fst args))) # Xs) st1" "lab st1 = lab st"
        and to: "to \<notin> X \<union> set (moves (map fst args))" "is_tmp to"
      have eq: "insert to (X \<union> set (moves (map fst args))) = insert to X \<union> set (moves (map fst args))" by simp
      show "run f (emit (MiSetDiscriminant to ty (fst v)))
          (\<lambda>_. run f (assign_variant_fields to ty (fst v) 0 args) (\<lambda>_. Q (VMove to))) st1"
        by (rule run_emit [OF st1(1) [unfolded eq]], simp, erule run_variant_fields)
          (use to st1 assms(2,3,4) in auto)
    qed
  qed (cases t; simp)
  then show ?thesis
    unfolding make_enum_def run_unfold by (intro run_pool_type)
qed

lemma run_make_enum_Nil:
  assumes "lower_inv c P U (X # Xs) st"
    and "\<And>v st'. lower_inv c P U ((X \<union> moved (VMove v)) # Xs) st' \<Longrightarrow> X \<inter> moved (VMove v) = {} \<Longrightarrow>
      lab st' = lab st \<Longrightarrow> Q (VMove v) st'"
  shows "run f (make_enum ty variant []) Q st"
  by (rule run_make_enum [where X = X]) (use assms in auto)

lemma run_return_value:
  assumes "lower_inv c P U ((X \<union> moved val) # Xs) st" and "X \<inter> moved val = {}"
    and "\<And>st'. lower_inv c P U (X # Xs) st' \<Longrightarrow> lab st' = lab st \<Longrightarrow> ended st' \<Longrightarrow> Q unit_value st'"
  shows "run f (return_value val) Q st"
proof -
  have drops: "run f (each emit_drops ss) R st"
    if "lower_inv c P U Xs st" "\<And>st'. lower_inv c P U Xs st' \<Longrightarrow> lab st' = lab st \<Longrightarrow> R () st'" for ss R st Xs
    using that
  proof (induction ss arbitrary: st)
    case (Cons s ss)
    show ?case
      unfolding each.simps run_andthen
      by (rule run_emit_drops [OF Cons.prems(1)], rule Cons.IH) (use Cons.prems(2) in auto)
  qed simp
  show ?thesis
    unfolding return_value_def run_unfold run_return_ty run_the_lowerer
    by (rule run_to_var [OF assms(1,2)], rule run_remove, assumption, simp, drule inv_drop, rule drops, assumption,
      rule run_emit) (use assms(3) in auto)
qed

lemma keeps_return_expr:
  assumes "set_option e \<subseteq> S"
  shows "keeps c f moved (return_expr ex en kind e)"
proof -
  have val: "keeps c f (\<lambda>v. moved (fst v)) (case e of
         Some e \<Rightarrow> andthen (type_ref en (meta_id e)) (\<lambda>ty. andthen (ex e) (\<lambda>v. give (v, ty)))
       | None \<Rightarrow> give (unit_value, REF_UNIT))"
  proof (cases e)
    case None
    then show ?thesis by (auto simp: keeps_def unit_value_def)
  next
    case (Some e')
    with assms have e': "e' \<in> S" by simp
    show ?thesis
      unfolding Some option.case
      by (rule keepsI, unfold run_unfold) (rule run_steps e' | assumption | (simp; fail))+
  qed
  have enum: "run f (make_enum ty variant [val]) (\<lambda>x. run f (return_value x) Q) st"
    if "lower_inv c P U ((X \<union> moved (fst val)) # Xs) st" "X \<inter> moved (fst val) = {}"
      and "\<And>st'. lower_inv c P U (X # Xs) st' \<Longrightarrow> lab st' = lab st \<Longrightarrow> Q unit_value st'"
    for val ty variant P U X Xs st Q
  proof (rule run_make_enum)
    show "lower_inv c P U ((X \<union> set (moves (map fst [val]))) # Xs) st" using that(1) by simp
    show "X \<inter> set (moves (map fst [val])) = {}" using that(2) by simp
    show "distinct (moves (map fst [val]))" by (cases "fst val") simp_all
  next
    fix v st'
    assume "lower_inv c P U (insert v X # Xs) st'" "v \<notin> X" "lab st' = lab st"
    then show "run f (return_value (VMove v)) Q st'" using that(3) by (intro run_return_value [where X = X]) auto
  qed
  show ?thesis
    unfolding return_expr_def
    by (rule keepsI, unfold run_unfold, rule run_keeps [OF val], assumption, cases kind)
      (auto simp: unit_value_def intro!: run_return_value enum)
qed

lemma keeps_question_mark:
  assumes "e \<in> S"
  shows "keeps c f moved (question_mark ex en e)"
  unfolding question_mark_def
  by (rule keepsI, unfold run_unfold run_return_ty)
    (rule run_labels_in run_steps assms run_make_enum_Nil run_return_value conjI | assumption
      | (simp; fail) | (auto; fail)[1] | (rule inv_final, assumption))+

section \<open>Calls\<close>

lemma run_pass_value:
  assumes "lower_inv c P U ((X \<union> moved val) # Xs) st" and "X \<inter> moved val = {}"
    and "\<And>t st'. lower_inv c P U (X # Xs) st' \<Longrightarrow> lab st' = lab st \<Longrightarrow> Q t st'"
  shows "run f (pass_value ty val) Q st"
  unfolding pass_value_def run_unfold
  by (rule run_undropped_tmp [OF assms(1)], rule run_add_var, assumption, rule run_consume, assumption, rule assms(2))
    (use assms(3) in \<open>auto dest!: inv_drop\<close>)

lemma keeps_pass_argument: "a \<in> S \<Longrightarrow> keeps c f nothing (pass_argument ex en a)"
  unfolding pass_argument_def
  by (rule keepsI, unfold run_unfold) (rule run_steps run_pass_value | assumption | (simp; fail))+

lemma keeps_nothing:
  assumes "\<And>P U Xs st Q. lower_inv c P U Xs st \<Longrightarrow>
    (\<And>x st'. lower_inv c P U Xs st' \<Longrightarrow> lab st' = lab st \<Longrightarrow> Q x st') \<Longrightarrow> run f m Q st"
  shows "keeps c f nothing m"
  by (rule keepsI, rule assms) simp_all

lemma keeps_convert: "keeps c f nothing (convert_ty en t)"
  by (rule keeps_nothing) (auto intro: run_convert_ty)

lemma run_collect_unit:
  assumes "\<And>x. x \<in> set xs \<Longrightarrow> keeps c f nothing (g x)" and "lower_inv c P U (X # Xs) st"
    and "\<And>ys st'. lower_inv c P U (X # Xs) st' \<Longrightarrow> lab st \<subseteq> lab st' \<Longrightarrow> Q ys st'"
  shows "run f (collect g xs) Q st"
  by (rule run_keeps [OF keeps_collect [OF assms(1)] assms(2)]) (use assms(3) in auto)

definition receiver_moves :: "(mir_value \<times> rtype) option \<Rightarrow> mir_var set" where
  "receiver_moves r = (case r of None \<Rightarrow> {} | Some (v, _) \<Rightarrow> moved v)"

lemma run_call:
  assumes args: "set arguments \<subseteq> S" and inv: "lower_inv c P U ((X \<union> receiver_moves r) # Xs) st"
    and dis: "X \<inter> receiver_moves r = {}"
    and post: "\<And>v st'. lower_inv c P U (X # Xs) st' \<Longrightarrow> lab st \<subseteq> lab st' \<Longrightarrow> moved v = {} \<Longrightarrow> Q v st'"
  shows "run f (normalized_function_call ex en func r arguments) Q st"
proof -
  have arg: "keeps c f nothing (pass_argument ex en a)" if "a \<in> set arguments" for a
    using that args by (intro keeps_pass_argument) auto
  have first: "run f (case r of
         None \<Rightarrow> give []
       | Some (r, ty) \<Rightarrow> andthen (convert_ty en ty) (\<lambda>ty. andthen (pass_value ty r) (\<lambda>t. give [t]))) R st"
    if "\<And>ts st'. lower_inv c P U (X # Xs) st' \<Longrightarrow> lab st' = lab st \<Longrightarrow> R ts st'" for R
  proof (cases r)
    case None
    with inv that show ?thesis by (simp add: receiver_moves_def)
  next
    case (Some p)
    obtain v ty where p: "p = (v, ty)" by (cases p)
    from inv dis have "lower_inv c P U ((X \<union> moved v) # Xs) st" "X \<inter> moved v = {}"
      by (simp_all add: Some p receiver_moves_def)
    then show ?thesis
      unfolding Some p option.case split_conv run_unfold
      by (intro run_convert_ty run_pass_value that) auto
  qed
  have vt: "keeps c f nothing (andthen (expect Ice (index (sig_types (cf_signature func)) i)) (convert_ty en))" for i
    by (rule keeps_nothing) (auto intro!: run_expect run_convert_ty)
  show ?thesis
    unfolding normalized_function_call_def Let_def run_unfold
    by (rule first, rule run_collect_unit [OF arg], assumption, assumption,
        rule run_collect_unit [OF keeps_convert], assumption, rule run_convert_ty, assumption,
        cases "cf_definition func")
      (auto intro!: run_expect run_collect_unit [OF vt] post, blast+)
qed

lemma keeps_enum_constructor:
  assumes "set arguments \<subseteq> S"
  shows "keeps c f moved (enum_constructor ex en ty variant arguments)"
proof -
  have arg: "keeps c f (\<lambda>y. moved (fst y)) (andthen (type_ref en (meta_id a)) (\<lambda>ty. andthen (ex a) (\<lambda>v. give (v, ty))))"
    if "a \<in> set arguments" for a
  proof -
    have a: "a \<in> S" using that assms by blast
    show ?thesis by (rule keepsI, unfold run_unfold) (rule run_steps a | assumption | (simp; fail))+
  qed
  show ?thesis
    unfolding enum_constructor_def
    by (rule keepsI, unfold run_unfold, rule run_collect_values [OF arg], assumption, assumption,
      rule run_make_enum, assumption, assumption, assumption) auto
qed

section \<open>Paths, fields, records and lists\<close>

lemma run_path_value:
  assumes "lower_inv c P U Xs st"
    and "\<And>v st'. lower_inv c P U Xs st' \<Longrightarrow> lab st' = lab st \<Longrightarrow> moved v = {} \<Longrightarrow> Q v st'"
  shows "run f (path_value en pv) Q st"
  unfolding path_value_def run_unfold
  by (rule run_convert_ty [OF assms(1)], cases "pv_kind pv") (auto intro!: assms(2))

lemma keeps_path: "keeps c f moved (path en i p)"
proof -
  have "run f (case kind of
       RpValue v \<Rightarrow> path_value en v
     | RpEnumConstructor _ variant \<Rightarrow>
         andthen (type_ref en i) (\<lambda>ty.
         andthen (tmp ty) (\<lambda>to.
         andthen (emit_set_discriminant to ty (ev_name variant)) (\<lambda>_.
         give (VMove to))))
     | _ \<Rightarrow> lower_panic Ice) (\<lambda>x st'. lower_inv c P U ((X \<union> moved x) # Xs) st' \<and> X \<inter> moved x = {} \<and> lab st \<subseteq> lab st') st"
    if "lower_inv c P U (X # Xs) st" for kind P U X Xs st
    using that by (cases kind) (auto simp: run_unfold intro!: run_rules run_path_value)
  then show ?thesis
    unfolding path_def by (intro keepsI) (auto intro!: run_table)
qed

lemma keeps_access: "e \<in> S \<Longrightarrow> keeps c f moved (access ex en e field)"
  unfolding access_def
  by (rule keepsI, unfold run_unfold) (rule run_steps conjI | assumption | (simp; fail) | (rule inv_final, assumption) | (auto; fail)[1])+

lemma keeps_record:
  assumes "snd ` set fs \<subseteq> S"
  shows "keeps c f moved (record_expr ex en i fs)"
proof -
  have field: "keeps c f nothing (case x of (s, e) \<Rightarrow> andthen (ex e) (\<lambda>op.
         andthen (type_ref en (meta_id e)) (\<lambda>field_ty.
         do_assign \<lparr>pl_var = to, pl_root_ty = ty, pl_projection = [PrField (ident_of (node s))]\<rparr> field_ty op)))"
    if "x \<in> set fs" for x to ty
  proof -
    obtain s e where x: "x = (s, e)" by (cases x)
    have e: "e \<in> S" using that assms x by auto
    show ?thesis
      unfolding x split_conv
      by (rule keepsI, unfold run_unfold) (rule run_steps e | assumption | (simp; fail))+
  qed
  show ?thesis
    unfolding record_expr_def
    by (rule keepsI, unfold run_unfold)
      (rule run_rules run_keeps_unit [OF keeps_each [OF field]] conjI | assumption | (simp; fail))+
qed

lemma keeps_not: "e \<in> S \<Longrightarrow> keeps c f moved (not_expr ex e)"
  unfolding not_expr_def
  by (rule keepsI, unfold run_unfold) (rule run_steps conjI | assumption | (simp; fail) | (rule inv_final, assumption) | (auto; fail)[1])+

lemma keeps_negate: "e \<in> S \<Longrightarrow> keeps c f moved (negate ex en e)"
  unfolding negate_def
  by (rule keepsI, unfold run_unfold) (rule run_steps conjI | assumption | (simp; fail) | (rule inv_final, assumption) | (auto; fail)[1])+

lemma keeps_list_element:
  assumes "e \<in> S"
  shows "keeps c f nothing (list_element ex en ty inner list_tmp unit_tmp e)"
  unfolding list_element_def
  by (rule keepsI, unfold run_unfold, rule run_to_var_plain, assumption, simp, rule run_remove, assumption, simp, drule inv_drop)
   (rule run_steps run_pass_value assms conjI | assumption | (simp; fail) | (rule inv_final, assumption) | (auto; fail)[1])+

lemma keeps_list:
  assumes "set es \<subseteq> S"
  shows "keeps c f moved (list_expr ex en i es)"
proof -
  have el: "keeps c f nothing (list_element ex en ty inner list_tmp unit_tmp e)" if "e \<in> set es" for ty inner list_tmp unit_tmp e
    using that assms by (intro keeps_list_element) auto
  have list_case: "run f (case t of
       MList inner \<Rightarrow>
         andthen (tmp ty) (\<lambda>list_tmp.
         andthen (find_method en (le_list_id en) ''new'') (\<lambda>func_ref.
         andthen (emit (MiAssign (place_new list_tmp ty) ty
           (VCallRuntime func_ref [] [inner] \<lparr>ms_parameter_types = [], ms_return_type = ty\<rparr>))) (\<lambda>_.
         andthen (tmp REF_UNIT) (\<lambda>unit_tmp.
         andthen (each (list_element ex en ty inner list_tmp unit_tmp) es) (\<lambda>_.
         give (VMove list_tmp))))))
     | _ \<Rightarrow> lower_panic Ice) Q st"
    if "lower_inv c P U (X # Xs) st" and "\<And>v st'. lower_inv c P U (insert v X # Xs) st' \<Longrightarrow> v \<notin> X \<Longrightarrow>
      lab st \<subseteq> lab st' \<Longrightarrow> Q (VMove v) st'" for t ty P U X Xs st Q
  proof (cases "\<exists>inner. t = MList inner")
    case True
    then obtain inner where t: "t = MList inner" by blast
    show ?thesis
      unfolding t ty.case run_unfold
      by (rule run_tmp [OF that(1)], rule run_find_method, rule run_emit, assumption, simp, rule run_tmp, assumption,
        rule run_keeps_unit [OF keeps_each [OF el]], assumption, assumption, rule that(2))
       ((rule inv_final, assumption) | assumption | (simp; fail) | (auto; fail)[1])+
  next
    case False
    then show ?thesis by (cases t) simp_all
  qed
  show ?thesis
    unfolding list_expr_def
    by (intro keepsI, unfold run_unfold, intro run_type_ref, assumption, intro run_pool_type)
      (rule list_case, assumption, auto)
qed

lemma keeps_function_call:
  assumes "set (node args) \<subseteq> S" and "\<And>e field. node g = EAccess e field \<Longrightarrow> e \<in> S"
  shows "keeps c f moved (function_call ex en i g args)"
proof (cases "node g")
  case (EPath p)
  have "run f (case kind of
            RpMethod v _ _ sg \<Rightarrow>
              andthen (path_value en v) (\<lambda>op.
              andthen (expect Ice (index (parameter_types sg) 0)) (\<lambda>ty.
              andthen (table tt_function_calls en i) (\<lambda>func.
              normalized_function_call ex en func (Some (op, ty)) (node args))))
          | RpFunction _ _ _ \<Rightarrow>
              andthen (table tt_function_calls en i) (\<lambda>func.
              normalized_function_call ex en func None (node args))
          | RpStaticMethod _ _ _ \<Rightarrow>
              andthen (table tt_function_calls en i) (\<lambda>func.
              normalized_function_call ex en func None (node args))
          | RpEnumConstructor _ variant \<Rightarrow>
              andthen (type_ref en i) (\<lambda>ty.
              enum_constructor ex en ty (ev_name variant) (node args))
          | RpValue _ \<Rightarrow> lower_panic Ice)
        (\<lambda>x st'. lower_inv c P U ((X \<union> moved x) # Xs) st' \<and> X \<inter> moved x = {} \<and> lab st \<subseteq> lab st') st"
    if "lower_inv c P U (X # Xs) st" for kind P U X Xs st
  proof (cases kind)
    case (RpMethod v n d sg)
    show ?thesis
      unfolding RpMethod resolved_path.case run_unfold
      by (rule run_path_value [OF that], rule run_expect, rule run_table, rule run_call [OF assms(1)])
        (auto simp: receiver_moves_def)
  next
    case (RpEnumConstructor d variant)
    show ?thesis
      unfolding RpEnumConstructor resolved_path.case run_unfold
      by (rule run_type_ref [OF that], rule run_keeps [OF keeps_enum_constructor [OF assms(1)]]) auto
  next
    case (RpFunction n d sg)
    show ?thesis
      unfolding RpFunction resolved_path.case run_unfold
      by (rule run_table, rule run_call [OF assms(1)]) (use that in \<open>auto simp: receiver_moves_def\<close>)
  next
    case (RpStaticMethod n d sg)
    show ?thesis
      unfolding RpStaticMethod resolved_path.case run_unfold
      by (rule run_table, rule run_call [OF assms(1)]) (use that in \<open>auto simp: receiver_moves_def\<close>)
  qed simp
  then show ?thesis
    unfolding function_call_def EPath expr.case by (intro keepsI) (auto intro!: run_table)
next
  case (EAccess e field)
  from assms(2) [OF this] have e: "e \<in> S" .
  show ?thesis
    unfolding function_call_def EAccess expr.case
    by (rule keepsI, unfold run_unfold, rule run_keeps [OF ex [OF e]], assumption, rule run_type_of, assumption,
      rule run_table, rule run_call [OF assms(1)])
     (auto simp: receiver_moves_def)
qed (simp_all add: function_call_def keeps_def)

section \<open>Assignment and operators\<close>

lemma keeps_assign:
  assumes "e \<in> S"
  shows "keeps c f moved (assign ex en p e)"
proof -
  have "run f (case kind of
       RpValue pv \<Rightarrow>
         andthen (convert_ty en (pv_root_ty pv)) (\<lambda>root_ty.
         andthen (type_ref en (meta_id e)) (\<lambda>ty.
         let place = \<lparr>pl_var = explicit_var (pv_name pv), pl_root_ty = root_ty,
               pl_projection = map (\<lambda>f. PrField (fst f)) (pv_fields pv)\<rparr> in
         andthen (ex e) (\<lambda>val.
         andthen (tmp ty) (\<lambda>t.
         andthen (do_assign (place_new t ty) ty val) (\<lambda>_.
         andthen (emit_drop place ty) (\<lambda>_.
         andthen (do_assign place ty (VMove t)) (\<lambda>_.
         give unit_value)))))))
     | _ \<Rightarrow> lower_panic Ice) (\<lambda>x st'. lower_inv c P U ((X \<union> moved x) # Xs) st' \<and> X \<inter> moved x = {} \<and> lab st \<subseteq> lab st') st"
    if inv: "lower_inv c P U (X # Xs) st" for kind P U X Xs st
  proof (cases "\<exists>pv. kind = RpValue pv")
    case True
    then obtain pv where k: "kind = RpValue pv" by blast
    show ?thesis
      unfolding k resolved_path.case Let_def run_unfold
    proof (rule run_convert_ty [OF inv], rule run_type_ref, assumption, rule run_keeps [OF ex [OF assms]], assumption,
        rule run_tmp, assumption)
      fix val t st1 st2 st3 st4 root_ty ty
      assume st: "lower_inv c P U (insert t (X \<union> moved val) # Xs) st4" "t \<notin> X \<union> moved val" "X \<inter> moved val = {}"
        and l: "lab st1 = lab st" "lab st2 = lab st1" "lab st2 \<subseteq> lab st3" "lab st4 = lab st3"
      have eq: "insert t (X \<union> moved val) = insert t X \<union> moved val" by simp
      show "run f (do_assign (place_new t ty) ty val) (\<lambda>x. run f (emit (MiDrop \<lparr>pl_var = explicit_var (pv_name pv),
             pl_root_ty = root_ty, pl_projection = map (\<lambda>f. PrField (fst f)) (pv_fields pv)\<rparr> ty))
          (\<lambda>x. run f (do_assign \<lparr>pl_var = explicit_var (pv_name pv), pl_root_ty = root_ty,
             pl_projection = map (\<lambda>f. PrField (fst f)) (pv_fields pv)\<rparr> ty (VMove t))
          (\<lambda>x st'. lower_inv c P U ((X \<union> moved unit_value) # Xs) st' \<and> X \<inter> moved unit_value = {} \<and> lab st \<subseteq> lab st')))
          st4"
        by (rule run_consume [OF st(1) [unfolded eq]]) (use st l in \<open>auto simp: unit_value_def intro!: run_emit run_do_assign\<close>)
    qed
  next
    case False
    then show ?thesis by (cases kind) simp_all
  qed
  then show ?thesis
    unfolding assign_def by (intro keepsI) (auto intro!: run_table)
qed

lemma keeps_compound_assign:
  "Meta (EBinOp (Meta (EPath (ca_path cp)) (ca_path_expr_id cp)) (compound_op (ca_op cp)) e) (ca_binop_id cp) \<in> S \<Longrightarrow>
    keeps c f moved (compound_assign ex en cp e)"
  unfolding compound_assign_def by (rule keeps_assign)

lemma keeps_plain_binop: "l \<in> S \<Longrightarrow> r \<in> S \<Longrightarrow> keeps c f moved (plain_binop ex en lt rt l op r)"
  unfolding plain_binop_def
  by (rule keepsI, unfold run_unfold)
    (rule run_steps conjI | assumption | (simp; fail) | (rule inv_final, assumption) | (auto; fail)[1])+

lemma run_call_runtime:
  assumes "lower_inv c P U (X # Xs) st" and "set args \<subseteq> X" and "distinct args"
    and "\<And>st'. lower_inv c P (set args \<union> U) ((X - set args) # Xs) st' \<Longrightarrow> lab st' = lab st \<Longrightarrow>
      Q (VCallRuntime func_ref args vtables sg) st'"
  shows "run f (call_runtime func_ref vtables sg args) Q st"
proof -
  have all: "run f (each (\<lambda>v. andthen (remove_live_variable v) (\<lambda>_. give ())) as) R st"
    if "lower_inv c P U (X # Xs) st" "set as \<subseteq> X" "distinct as"
      "\<And>st'. lower_inv c P (set as \<union> U) ((X - set as) # Xs) st' \<Longrightarrow> lab st' = lab st \<Longrightarrow> R () st'" for as R st U X
    using that
  proof (induction as arbitrary: U X st)
    case Nil
    then show ?case by simp
  next
    case (Cons a as)
    show ?case
      unfolding each.simps run_unfold
    proof (rule run_remove [OF Cons.prems(1)])
      show "a \<in> X" using Cons.prems(2) by simp
    next
      fix st1
      assume st1: "lower_inv c P (insert a U) ((X - {a}) # Xs) st1" "lab st1 = lab st"
      have eq: "X - {a} - set as = X - set (a # as)" "set as \<union> insert a U = set (a # as) \<union> U" by auto
      show "run f (each (\<lambda>v. andthen (remove_live_variable v) (\<lambda>_. give ())) as) R st1"
      proof (rule Cons.IH [OF st1(1)])
        show "R () st'" if "lower_inv c P (set as \<union> insert a U) ((X - {a} - set as) # Xs) st'" "lab st' = lab st1" for st'
          by (rule Cons.prems(4)) (use that st1(2) in \<open>simp_all only: eq\<close>)
      qed (use Cons.prems in auto)
    qed
  qed
  show ?thesis
    unfolding call_runtime_def run_unfold by (rule all [OF assms(1-3)], rule assms(4))
qed

lemma keeps_desugared_binop:
  assumes "fst l \<in> S" and "fst r \<in> S"
  shows "keeps c f moved (desugared_binop ex en kind method ret l r)"
proof (rule keepsI)
  fix P U X Xs st
  assume inv: "lower_inv c P U (X # Xs) st"
  show "run f (desugared_binop ex en kind method ret l r)
     (\<lambda>x st'. lower_inv c P U ((X \<union> moved x) # Xs) st' \<and> X \<inter> moved x = {} \<and> lab st \<subseteq> lab st') st"
    unfolding desugared_binop_def run_unfold
  proof (rule run_find_method, rule run_keeps [OF ex [OF assms(1)] inv], rule run_convert_ty, assumption,
      rule run_to_var, assumption, assumption, rule run_keeps [OF ex [OF assms(2)]], assumption,
      rule run_convert_ty, assumption, rule run_to_var, assumption, assumption, rule run_convert_ty, assumption,
      rule run_tmp, assumption)
    fix lv rv t st1 st2 st3 st4 st5 st6 st7 st8 sg ty func_ref
    assume vs: "lv \<notin> X" "rv \<notin> insert lv X" "t \<notin> insert rv (insert lv X)"
      and st: "lower_inv c P U (insert t (insert rv (insert lv X)) # Xs) st8"
      and l: "lab st \<subseteq> lab st1" "lab st2 = lab st1" "lab st3 = lab st2" "lab st3 \<subseteq> lab st4" "lab st5 = lab st4"
        "lab st6 = lab st5" "lab st7 = lab st6" "lab st8 = lab st7"
    have eq: "insert t (insert rv (insert lv X)) - set [lv, rv] = insert t X" using vs by auto
    show "run f (call_runtime func_ref [] sg [lv, rv]) (\<lambda>x. run f (do_assign (place_new t ty) ty x) (\<lambda>x st'.
        lower_inv c P U ((X \<union> moved (VMove t)) # Xs) st' \<and> X \<inter> moved (VMove t) = {} \<and> lab st \<subseteq> lab st')) st8"
    proof (rule run_call_runtime [OF st])
      fix st9
      assume st9: "lower_inv c P (set [lv, rv] \<union> U) ((insert t (insert rv (insert lv X)) - set [lv, rv]) # Xs) st9"
        "lab st9 = lab st8"
      show "run f (do_assign (place_new t ty) ty (VCallRuntime func_ref [lv, rv] [] sg)) (\<lambda>x st'.
        lower_inv c P U ((X \<union> moved (VMove t)) # Xs) st' \<and> X \<inter> moved (VMove t) = {} \<and> lab st \<subseteq> lab st') st9"
        by (rule run_do_assign [OF inv_less [OF st9(1) [unfolded eq]]]) (use vs st9(2) l in auto)
    qed (use vs in auto)
  qed
qed

lemma keeps_panic: "keeps c f mv (lower_panic Ice)"
  by (simp add: keeps_def)

lemma keeps_binop_special:
  assumes "l \<in> S" and "r \<in> S"
  shows "keeps c f moved (binop_str ex en l op r)" and "keeps c f moved (binop_ip_addr ex en l op r)"
    and "keeps c f moved (binop_list ex en ty l op r)"
  using assms
  by (cases op; simp add: binop_str_def binop_ip_addr_def binop_list_def keeps_desugared_binop keeps_panic)+

lemma keeps_shortcircuit:
  assumes "l \<in> S" and "r \<in> S"
  shows "keeps c f moved (shortcircuit_binop ex l r other i)"
  unfolding shortcircuit_binop_def
  by (rule keepsI, unfold run_unfold)
    (rule run_labels_in run_steps assms conjI | assumption | (simp; fail) | (rule inv_final, assumption) | (auto; fail)[1])+

lemma keeps_binop:
  assumes "l \<in> S" and "r \<in> S"
  shows "keeps c f moved (binop_expr ex en l op r)"
proof -
  note specs = keeps_plain_binop [OF assms] keeps_binop_special [OF assms] keeps_shortcircuit [OF assms]
  have rest: "keeps c f moved (if is_list then binop_list ex en lt l op r
       else if op = BAnd then shortcircuit_binop ex l r ''and_other'' 1
       else if op = BOr then shortcircuit_binop ex l r ''or_other'' 0
       else plain_binop ex en lt rt l op r)" for is_list lt rt
    by (simp add: specs)
  have info: "keeps c f moved (andthen (list_type en l_ty) (\<lambda>is_list. if is_list then binop_list ex en lt l op r
       else if op = BAnd then shortcircuit_binop ex l r ''and_other'' 1
       else if op = BOr then shortcircuit_binop ex l r ''or_other'' 0
       else plain_binop ex en lt rt l op r))" for l_ty lt rt
    by (rule keepsI, unfold run_andthen, rule run_list_type, assumption, rule run_keeps [OF rest], assumption) auto
  have all: "keeps c f moved (if op = BEq \<or> op = BNe then plain_binop ex en lt rt l op r
     else if lt = t_string then binop_str ex en l op r
     else if lt = named ''IpAddr'' [] then binop_ip_addr ex en l op r
     else andthen (list_type en l_ty) (\<lambda>is_list. if is_list then binop_list ex en lt l op r
       else if op = BAnd then shortcircuit_binop ex l r ''and_other'' 1
       else if op = BOr then shortcircuit_binop ex l r ''or_other'' 0
       else plain_binop ex en lt rt l op r))" for l_ty lt rt
    by (simp only: specs info split: if_split) simp
  show ?thesis
    unfolding binop_expr_def
    by (rule keepsI, unfold run_andthen, rule run_type_of, assumption, rule run_type_of, assumption,
      rule run_keeps [OF all], assumption) auto
qed

end

end
