(* ===== verification/Mir_Flow_Safe.thy ===== *)
theory Mir_Flow_Safe
  imports Mir_Lower_Safe
begin

text \<open>
  The methods of the lowering that build blocks keep the invariant: conditionals, loops, f-strings and matches.
\<close>

lemma moved_unit [simp]: "moved unit_value = {}"
  by (simp add: unit_value_def)

text \<open>No label is forgotten: one rule for each way a state follows another.\<close>

lemma grow_eq: "lab b = lab a \<Longrightarrow> lab s \<subseteq> lab a \<Longrightarrow> lab s \<subseteq> lab b"
  by simp

lemma grow_block: "lab b = insert l (lab a) \<Longrightarrow> lab s \<subseteq> lab a \<Longrightarrow> lab s \<subseteq> lab b"
  by auto

lemma grow_step: "lab a \<subseteq> lab b \<Longrightarrow> lab s \<subseteq> lab a \<Longrightarrow> lab s \<subseteq> lab b"
  by (rule subset_trans)


text \<open>The targets of a jump: promised a block, or seen as one before.\<close>

lemma target_jump: "l \<in> L \<Longrightarrow> set (successors (MiJump l)) \<subseteq> L"
  by simp

lemma target_switch:
  "l \<in> L \<Longrightarrow> l' \<in> L \<Longrightarrow> set (successors (MiSwitch v [(k, l)] (Some l'))) \<subseteq> L"
  by simp

lemma seen_new: "lab b = insert l (lab a) \<Longrightarrow> l \<in> lab b"
  by simp

lemma seen_eq: "lab b = lab a \<Longrightarrow> l \<in> lab a \<Longrightarrow> l \<in> lab b"
  by simp

lemma seen_block: "lab b = insert k (lab a) \<Longrightarrow> l \<in> lab a \<Longrightarrow> l \<in> lab b"
  by simp

lemma seen_step: "lab a \<subseteq> lab b \<Longrightarrow> l \<in> lab a \<Longrightarrow> l \<in> lab b"
  by auto

lemmas grow = grow_eq grow_block grow_step seen_new seen_eq seen_block seen_step

lemmas flow = conjI target_jump target_switch subset_refl

context expr_lowering begin

section \<open>Control flow\<close>

lemma keeps_if:
  assumes "condition \<in> S" and "set (block_children (node then_block)) \<subseteq> S"
    and "\<And>b. else_block = Some b \<Longrightarrow> set (block_children (node b)) \<subseteq> S"
  shows "keeps c f moved (if_else ex en i condition then_block else_block)"
proof (cases else_block)
  case None
  show ?thesis
    unfolding if_else_def None option.case
    by (rule keepsI, unfold run_unfold)
      (rule run_label_out [OF label_step_wrap [where i = "''if-else''"]]
         run_labels_in run_steps run_block assms flow | assumption | (rule inv_final grow, assumption)
      | (simp add: insert_Diff_if; fail)[1] | (rule UnI1, (rule grow, assumption)+; fail) | (auto; fail)[1])+
next
  case (Some b)
  show ?thesis
    unfolding if_else_def Some option.case
    by (rule keepsI, unfold run_unfold)
      (rule run_labels_in run_steps run_block assms(1,2) assms(3) [OF Some] flow | assumption | (rule inv_final grow, assumption)
      | (simp add: insert_Diff_if; fail)[1] | (rule UnI1, (rule grow, assumption)+; fail) | (auto; fail)[1])+
qed

lemma run_to_var_moved:
  "Q v st \<Longrightarrow> run f (assign_to_var (VMove v) t) Q st"
  by (simp add: assign_to_var_def)

lemma keeps_while:
  assumes "condition \<in> S" and "set (block_children (node b)) \<subseteq> S"
  shows "keeps c f moved (while_loop ex en condition b)"
  unfolding while_loop_def
  by (rule keepsI, unfold run_unfold)
    (rule run_to_var_moved run_labels_in run_steps run_block assms flow | assumption | (rule inv_final grow, assumption)
      | (simp add: insert_Diff_if; fail)[1] | (rule UnI1, (rule grow, assumption)+; fail) | (auto; fail)[1])+

lemma run_assign_plain:
  assumes "lower_inv c P U Xs st" and "moved val = {}"
    and "\<And>st'. lower_inv c P U Xs st' \<Longrightarrow> lab st' = lab st \<Longrightarrow> Q () st'"
  shows "run f (do_assign to t val) Q st"
proof -
  have "do_assign to t val = andthen (give ()) (\<lambda>_. emit_assign to t val)"
    using assms(2) by (cases val) (simp_all add: do_assign_def)
  with assms show ?thesis by (auto simp: emit_assign_def intro!: run_emit)
qed

lemma run_for_increment:
  assumes "lower_inv c P U (X # Xs) st" and "l \<in> P" and "ended st" and "k \<in> P - {l}"
    and "\<And>st'. lower_inv c (P - {l}) U (X # Xs) st' \<Longrightarrow> lab st' = insert l (lab st) \<Longrightarrow> ended st' \<Longrightarrow> Q () st'"
  shows "run f (for_increment v l k) Q st"
  unfolding for_increment_def run_unfold
proof (rule run_new_block [OF assms(1-3)], rule run_to_var_plain, assumption, simp, rule run_emit, assumption, simp,
    rule run_emit, assumption)
  fix st1 st2 st3 st4 one
  assume st4: "lower_inv c (P - {l}) U (insert one X # Xs) st4"
    and l: "lab st1 = insert l (lab st)" "lab st2 = lab st1" "lab st3 = lab st2" "lab st4 = lab st3"
    and e: "ended st4 = is_terminator (MiJump k)"
  show "Q () st4"
    by (rule assms(5)) (use inv_less_top [OF st4, of X] l e in auto)
next
  fix st1 st2 st3
  assume "lab st1 = insert l (lab st)" "lab st2 = lab st1" "lab st3 = lab st2"
  show "set (successors (MiJump k)) \<subseteq> lab st3 \<union> (P - {l})" using assms(4) by simp
qed

lemma run_for_condition:
  assumes "lower_inv c P U (X # Xs) st" and "l \<in> P" and "ended st" and "body \<in> P - {l}" "k \<in> P - {l}"
    and "\<And>st'. lower_inv c (P - {l}) U (X # Xs) st' \<Longrightarrow> lab st' = insert l (lab st) \<Longrightarrow> ended st' \<Longrightarrow> Q () st'"
  shows "run f (for_condition en v t ix e et l body k) Q st"
  unfolding for_condition_def run_unfold
proof (rule run_new_block [OF assms(1-3)], rule run_find_method, rule run_to_var_plain, assumption, simp,
    rule run_remove, assumption, simp, rule run_emit, assumption, simp, rule run_undropped_tmp, assumption,
    rule run_emit, assumption, simp, rule run_emit, assumption)
  fix st1 st2 st3 st4 st5 st6 st7 nl d
  assume st7: "lower_inv c (P - {l}) (insert d (insert nl U)) ((insert nl X - {nl}) # Xs) st7" and nl: "nl \<notin> X"
    and l: "lab st1 = insert l (lab st)" "lab st2 = lab st1" "lab st3 = lab st2" "lab st4 = lab st3"
      "lab st5 = lab st4" "lab st6 = lab st5" "lab st7 = lab st6"
    and e: "ended st7 = is_terminator (MiSwitch d [(0, body)] (Some k))"
  have eq: "insert nl X - {nl} = X" using nl by simp
  have "lower_inv c (P - {l}) U (X # Xs) st7" by (rule inv_less [OF st7 [unfolded eq]]) auto
  then show "Q () st7" by (rule assms(6)) (use l e in auto)
next
  fix st6 :: lowerer and d
  show "set (successors (MiSwitch d [(0, body)] (Some k))) \<subseteq> lab st6 \<union> (P - {l})" using assms(4,5) by simp
qed

lemma run_for_body:
  assumes inv: "lower_inv c P U (X # Xs) st" "l \<in> P" "ended st" and ch: "set (block_children (node body)) \<subseteq> S"
    and v: "v \<in> U" "is_tmp v" and k: "c \<Longrightarrow> k \<in> lab st"
    and post: "\<And>st'. lower_inv c (P - {l}) (U - {v}) (X # Xs) st' \<Longrightarrow> lab st \<subseteq> lab st' \<Longrightarrow> ended st' \<Longrightarrow> Q () st'"
  shows "run f (for_body ex en i v t et body l k) Q st"
  unfolding for_body_def run_unfold Let_def
proof (rule run_new_block [OF inv], rule run_push_slot, assumption, rule run_table, rule run_add_var, assumption,
    rule run_add_slot_tmp, assumption, rule v, rule v, rule run_add_slot_named, assumption, simp,
    rule run_assign_plain, assumption, simp, rule run_block [OF ch], assumption, rule run_to_var_moved,
    rule run_close_slot, assumption, simp, rule run_emit, assumption)
  fix st1 st2 st3 st4 st5 st6 st7 st8 st9
  assume l: "lab st1 = insert l (lab st)" "lab st2 = lab st1" "lab st3 = lab st2" "lab st4 = lab st3"
      "lab st5 = lab st4" "lab st6 = lab st5" "lab st6 \<subseteq> lab st7" "lab st8 = lab st7"
  then have L: "lab st \<subseteq> lab st8" by auto
  show "set (successors (MiJump k)) \<subseteq> lab st8 \<union> (P - {l})" if c using k [OF that] L by auto
  show "Q () st9" if "lower_inv c (P - {l}) (U - {v}) (X # Xs) st9" "lab st9 = lab st8" "ended st9 = is_terminator (MiJump k)"
    by (rule post [OF that(1)]) (use that L in auto)
qed

lemma keeps_for:
  assumes "e \<in> S" and "set (block_children (node body)) \<subseteq> S"
  shows "keeps c f moved (for_loop ex en i e body)"
  unfolding for_loop_def
  by (rule keepsI, unfold run_unfold)
   (rule run_labels_in run_steps run_add_var run_undropped_tmp run_for_increment run_for_condition run_for_body run_to_var_plain assms flow | assumption | (rule inv_final grow, assumption)
      | (simp add: insert_Diff_if; fail)[1] | (rule UnI1, (rule grow, assumption)+; fail) | (auto; fail)[1])+

section \<open>F-strings\<close>

lemma keeps_part_value:
  assumes "\<And>e. node part = FsExpr e \<Longrightarrow> e \<in> S"
  shows "keeps c f moved (f_string_part_value ex en part)"
proof (cases "node part")
  case (FsString s)
  then show ?thesis by (auto simp: f_string_part_value_def keeps_def)
next
  case (FsExpr e)
  from assms [OF this] have e: "e \<in> S" .
  have none: "set [] \<subseteq> S" by simp
  show ?thesis
    unfolding f_string_part_value_def FsExpr fstring_part.case
    by (rule keepsI, unfold run_unfold, rule run_keeps [OF ex [OF e]], assumption, rule run_type_of, assumption,
      rule run_table, rule run_call [OF none]) (auto simp: receiver_moves_def)
qed

lemma inv_top_fresh: "lower_inv c P U (X # Xs) st \<Longrightarrow> X \<inter> U = {}"
proof -
  assume "lower_inv c P U (X # Xs) st"
  then have "U \<inter> in_slots st = {}" and "X \<subseteq> in_slots st"
    by (auto simp: lower_inv_def slots_ok_def list_all2_Cons1 holds_def in_slots_def image_Un)
  then show "X \<inter> U = {}" by blast
qed

lemma run_f_string_append:
  assumes part: "\<And>e. node part = FsExpr e \<Longrightarrow> e \<in> S"
    and inv: "lower_inv c P U (insert string X # Xs) st" and string: "string \<notin> X" "is_tmp string"
    and post: "\<And>st'. lower_inv c P U (insert string X # Xs) st' \<Longrightarrow> lab st \<subseteq> lab st' \<Longrightarrow> Q () st'"
  shows "run f (f_string_append ex en func_ref string part) Q st"
  unfolding f_string_append_def run_unfold
proof (rule run_keeps [OF keeps_part_value [OF part] inv], assumption, rule run_to_var, assumption, assumption)
  fix val new st1 st2 sg
  assume new: "new \<notin> insert string X" and st2: "lower_inv c P U (insert new (insert string X) # Xs) st2"
    and l: "lab st \<subseteq> lab st1" "lab st2 = lab st1"
  have eq: "insert new (insert string X) - set [string, new] = X" using new string by auto
  show "run f (call_runtime func_ref [] sg [string, new]) (\<lambda>x. run f (add_slot string REF_STRING)
      (\<lambda>_. run f (do_assign (place_new string REF_STRING) REF_STRING x) Q)) st2"
  proof (rule run_call_runtime [OF st2])
    fix st3
    assume st3: "lower_inv c P (set [string, new] \<union> U) ((insert new (insert string X) - set [string, new]) # Xs) st3"
      "lab st3 = lab st2"
    have st3': "lower_inv c P (insert string U) (X # Xs) st3"
      by (rule inv_less [OF st3(1) [unfolded eq]]) auto
    have "string \<notin> U" using inv_top_fresh [OF inv] by blast
    then have U: "insert string U - {string} = U" by simp
    show "run f (add_slot string REF_STRING)
        (\<lambda>_. run f (do_assign (place_new string REF_STRING) REF_STRING (VCallRuntime func_ref [string, new] [] sg)) Q) st3"
    proof (rule run_add_slot_tmp [OF st3' string(2)], simp)
      fix st4
      assume st4: "lower_inv c P (insert string U - {string}) (insert string X # Xs) st4" "lab st4 = lab st3"
      show "run f (do_assign (place_new string REF_STRING) REF_STRING (VCallRuntime func_ref [string, new] [] sg)) Q st4"
        by (rule run_assign_plain [OF st4(1) [unfolded U]]) (use post l st3(2) st4(2) in auto)
    qed
  qed (use new in auto)
qed

lemma keeps_f_string:
  assumes "\<And>part e. part \<in> set parts \<Longrightarrow> node part = FsExpr e \<Longrightarrow> e \<in> S"
  shows "keeps c f moved (f_string_expr ex en parts)"
proof -
  have parts: "run f (each (f_string_append ex en func_ref string) ps) Q st"
    if "set ps \<subseteq> set parts" "lower_inv c P U (insert string X # Xs) st" "string \<notin> X" "is_tmp string"
      "\<And>st'. lower_inv c P U (insert string X # Xs) st' \<Longrightarrow> lab st \<subseteq> lab st' \<Longrightarrow> Q () st'"
    for ps func_ref string P U X Xs st Q
    using that
  proof (induction ps arbitrary: st)
    case (Cons p ps)
    have p: "\<And>e. node p = FsExpr e \<Longrightarrow> e \<in> S" using Cons.prems(1) assms by auto
    show ?case
      unfolding each.simps run_unfold
      by (rule run_f_string_append [OF p Cons.prems(2-4)], assumption, rule Cons.IH)
        (use Cons.prems in auto)
  qed simp
  show ?thesis
    unfolding f_string_expr_def
    by (rule keepsI, unfold run_unfold, rule run_to_var_plain, assumption, simp, rule run_find_method,
      rule parts, simp) auto
qed

end

end
