(* ===== verification/Mir_Match_Safe.thy ===== *)
theory Mir_Match_Safe
  imports Mir_Flow_Safe "HOL-Library.Multiset"
begin

text \<open>
  The lowering of a match keeps the invariant.  When jumps are followed, the match has to be covered: in
  every chain of guards, the last arm has no guard.
\<close>

section \<open>Covered matches\<close>

text \<open>The name of the variant that an arm matches; none for the underscore.\<close>

definition arm_variant :: "match_arm \<Rightarrow> ident option" where
  "arm_variant a = (case a of MatchArm pat _ _ \<Rightarrow>
     (case node pat of EnumVariantPattern v _ \<Rightarrow> Some (ident_of (node v)) | Underscore \<Rightarrow> None))"

text \<open>The arms tried for a value with the variant of \<open>a\<close>, or for one that no other arm names.\<close>

definition arms_with :: "match_arm list \<Rightarrow> match_arm \<Rightarrow> match_arm list" where
  "arms_with arms a = filter (\<lambda>b. arm_variant b = arm_variant a \<or> arm_variant b = None) arms"

definition match_covered :: "match_arm list \<Rightarrow> bool" where
  "match_covered arms \<longleftrightarrow> list_all (\<lambda>a. guard_of (last (arms_with arms a)) = None) arms"

text \<open>The expressions of a match.\<close>

definition match_children :: "expr meta \<times> match_arm list \<Rightarrow> expr meta list" where
  "match_children m = fst m # concat (map (\<lambda>a. (case guard_of a of Some g \<Rightarrow> [g] | None \<Rightarrow> []) @
     block_children (node (body_of a))) (snd m))"

text \<open>Hash tables are iterated in some order, every element once.\<close>

definition orders_ok :: "lower_env \<Rightarrow> bool" where
  "orders_ok en \<longleftrightarrow> (\<forall>p xs. mset (le_set_order en p xs) = mset xs) \<and> (\<forall>xs. mset (le_map_order en xs) = mset xs)"

section \<open>Branches\<close>

definition arm_discriminant :: "(ident \<times> ty_ref list) list \<Rightarrow> match_arm \<Rightarrow> nat option" where
  "arm_discriminant variants a = Option.bind (arm_variant a) (\<lambda>v. position (\<lambda>s. fst s = v) variants)"

definition known_arm :: "(ident \<times> ty_ref list) list \<Rightarrow> match_arm \<Rightarrow> bool" where
  "known_arm variants a \<longleftrightarrow> (arm_variant a \<noteq> None \<longrightarrow> arm_discriminant variants a \<noteq> None)"

definition all_branches :: "(ident \<times> ty_ref list) list \<Rightarrow> match_arm list \<Rightarrow> branch list" where
  "all_branches variants arms =
     map (\<lambda>(a, i). (arm_discriminant variants a, a, i)) (zip arms [0..<length arms])"

lemma run_branch_of:
  "(known_arm variants (fst a) \<Longrightarrow> Q (arm_discriminant variants (fst a), a) st) \<Longrightarrow>
     run f (branch_of variants a) Q st"
  by (cases a; cases "fst a")
    (auto simp: branch_of_def arm_discriminant_def arm_variant_def known_arm_def bind_eq_Some_conv
      intro!: run_expect split: pattern.splits)

lemma run_branches_of:
  assumes "list_all (known_arm variants) arms \<Longrightarrow> Q (all_branches variants arms) st"
  shows "run f (branches_of variants arms) Q st"
proof -
  have "run f (collect (branch_of variants) xs) Q st"
    if "list_all (\<lambda>a. known_arm variants (fst a)) xs \<Longrightarrow>
      Q (map (\<lambda>(a, i). (arm_discriminant variants a, a, i)) xs) st" for xs :: "(match_arm \<times> nat) list" and Q
    using that
  proof (induction xs arbitrary: Q)
    case (Cons x xs)
    show ?case
      unfolding collect.simps run_andthen run_give
      by (rule run_branch_of, rule Cons.IH) (use Cons.prems in \<open>auto split: prod.splits\<close>)
  qed simp
  moreover have "Q (map (\<lambda>(a, i). (arm_discriminant variants a, a, i)) (zip arms [0..<length arms])) st"
    if "list_all (\<lambda>a. known_arm variants (fst a)) (zip arms [0..<length arms])"
  proof -
    have "list_all (known_arm variants) (map fst (zip arms [0..<length arms]))"
      unfolding list.pred_map o_def using that .
    then have "list_all (known_arm variants) arms" by simp
    then show ?thesis using assms by (simp add: all_branches_def)
  qed
  ultimately show ?thesis unfolding branches_of_def .
qed

lemma map_snd_all_branches [simp]: "map (\<lambda>b. snd (snd b)) (all_branches variants arms) = [0..<length arms]"
  by (simp add: all_branches_def split_def o_def)

lemma map_arms_all_branches: "map (\<lambda>b. fst (snd b)) (all_branches variants arms) = arms"
  by (simp add: all_branches_def split_def o_def map_fst_zip)

lemma fst_all_branches: "b \<in> set (all_branches variants arms) \<Longrightarrow> fst b = arm_discriminant variants (fst (snd b))"
  by (auto simp: all_branches_def)

lemma arm_of_branch: "b \<in> set (all_branches variants arms) \<Longrightarrow> fst (snd b) \<in> set arms"
  using map_arms_all_branches [of variants arms] by (metis image_eqI list.set_map)

text \<open>A chain of guards: its arms are those of the source, and its last one has no guard when the match is covered.\<close>

lemma position_same: "position (\<lambda>s. fst s = v) xs = Some d \<Longrightarrow> position (\<lambda>s. fst s = w) xs = Some d \<Longrightarrow> v = w"
  by (auto dest!: position_Some)

lemma filter_branches:
  assumes "\<And>b. b \<in> set bs \<Longrightarrow> p b = q (g b)"
  shows "map g (filter p bs) = filter q (map g bs)"
  using assms by (induction bs) auto

definition chain_covered :: "branch list \<Rightarrow> bool" where
  "chain_covered bs \<longleftrightarrow> bs \<noteq> [] \<and> guard_of (fst (snd (last bs))) = None"

lemma chain_coveredI:
  assumes "map (\<lambda>b. fst (snd b)) bs = arms_with arms a" and "match_covered arms" and "a \<in> set arms"
  shows "chain_covered bs"
proof -
  have "a \<in> set (arms_with arms a)" using assms(3) by (simp add: arms_with_def)
  then have ne: "bs \<noteq> []" using assms(1) by auto
  then have "fst (snd (last bs)) = last (arms_with arms a)" by (simp add: last_map flip: assms(1))
  with ne assms(2,3) show ?thesis by (simp add: chain_covered_def match_covered_def list_all_iff)
qed

lemma covered_for:
  assumes "match_covered arms" and "list_all (known_arm variants) arms"
    and "d \<in> set (discriminants (all_branches variants arms))"
  shows "chain_covered (branches_for d (all_branches variants arms))"
proof -
  from assms(3) obtain b where b: "b \<in> set (all_branches variants arms)" "fst b = Some d"
    by (auto simp: discriminants_def List.map_filter_def)
  let ?a = "fst (snd b)"
  from b have d: "arm_discriminant variants ?a = Some d" by (simp add: fst_all_branches)
  have "map (\<lambda>b. fst (snd b)) (branches_for d (all_branches variants arms)) = arms_with arms ?a"
    unfolding branches_for_def arms_with_def
  proof (subst filter_branches [where q = "\<lambda>x. arm_variant x = arm_variant ?a \<or> arm_variant x = None"])
    fix x assume x: "x \<in> set (all_branches variants arms)"
    then have "known_arm variants (fst (snd x))" using assms(2) arm_of_branch by (auto simp: list_all_iff)
    with x d show "(fst x = Some d \<or> fst x = None) =
        (arm_variant (fst (snd x)) = arm_variant ?a \<or> arm_variant (fst (snd x)) = None)"
      by (auto simp: fst_all_branches known_arm_def arm_discriminant_def bind_eq_Some_conv dest: position_same)
  qed (simp add: map_arms_all_branches)
  then show ?thesis by (rule chain_coveredI) (use assms(1) b arm_of_branch in auto)
qed

lemma covered_default:
  assumes "match_covered arms" and "list_all (known_arm variants) arms"
    and "default_branches (all_branches variants arms) \<noteq> []"
  shows "chain_covered (default_branches (all_branches variants arms))"
proof -
  from assms(3) obtain b where b: "b \<in> set (all_branches variants arms)" "fst b = None"
    by (auto simp: default_branches_def filter_empty_conv)
  let ?a = "fst (snd b)"
  have none: "fst x = None \<longleftrightarrow> arm_variant (fst (snd x)) = None" if "x \<in> set (all_branches variants arms)" for x
  proof -
    have "known_arm variants (fst (snd x))" using that assms(2) arm_of_branch by (auto simp: list_all_iff)
    with that show ?thesis by (auto simp: fst_all_branches known_arm_def arm_discriminant_def)
  qed
  have "map (\<lambda>b. fst (snd b)) (default_branches (all_branches variants arms)) = arms_with arms ?a"
    unfolding default_branches_def arms_with_def using none b
    by (subst filter_branches [where q = "\<lambda>x. arm_variant x = arm_variant ?a \<or> arm_variant x = None"])
      (auto simp: map_arms_all_branches)
  then show ?thesis by (rule chain_coveredI) (use assms(1) b arm_of_branch in auto)
qed

section \<open>Labels of a match\<close>

lemma run_collect_labels:
  assumes "\<And>x. x \<in> set xs \<Longrightarrow> \<exists>m. label_step m \<and> g x = andthen m (\<lambda>l. give (k x, l))"
    and "lower_inv c P U Xs st"
    and "\<And>ys st'. lower_inv c (snd ` set ys \<union> P) U Xs st' \<Longrightarrow> map fst ys = map k xs \<Longrightarrow> distinct (map snd ys) \<Longrightarrow>
      snd ` set ys \<inter> P = {} \<Longrightarrow> lab st' = lab st \<Longrightarrow> same_end st st' \<Longrightarrow> Q ys st'"
  shows "run f (collect g xs) Q st"
  using assms
proof (induction xs arbitrary: P st Q)
  case Nil
  then show ?case by (simp add: same_end_def)
next
  case (Cons x xs)
  from Cons.prems(1) obtain m where m: "label_step m" "g x = andthen m (\<lambda>l. give (k x, l))" by auto
  show ?case
    unfolding collect.simps m(2) run_andthen run_give
  proof (rule run_label_in [OF m(1) Cons.prems(2)], rule Cons.IH, rule Cons.prems(1), simp, assumption)
    fix l st1 ys st2
    assume l: "l \<notin> P" "lab st1 = lab st" "same_end st st1" "lab st2 = lab st1" "same_end st1 st2"
      and ys: "map fst ys = map k xs" "distinct (map snd ys)" "snd ` set ys \<inter> insert l P = {}"
      and st2: "lower_inv c (snd ` set ys \<union> insert l P) U Xs st2"
    have eq: "snd ` set ys \<union> insert l P = snd ` set ((k x, l) # ys) \<union> P" by auto
    show "Q ((k x, l) # ys) st2"
      by (rule Cons.prems(3) [OF st2 [unfolded eq]]) (use l ys in \<open>auto intro: same_end_trans\<close>)
  qed
qed

text \<open>A list of steps none of which changes a block.\<close>

lemma run_each_same:
  assumes "\<And>x st Q. x \<in> set xs \<Longrightarrow> lower_inv c P U Xs st \<Longrightarrow>
      (\<And>st'. lower_inv c P U Xs st' \<Longrightarrow> lab st' = lab st \<Longrightarrow> same_end st st' \<Longrightarrow> Q () st') \<Longrightarrow> run f (g x) Q st"
    and "lower_inv c P U Xs st"
    and "\<And>st'. lower_inv c P U Xs st' \<Longrightarrow> lab st' = lab st \<Longrightarrow> same_end st st' \<Longrightarrow> Q () st'"
  shows "run f (each g xs) Q st"
  using assms
proof (induction xs arbitrary: st)
  case Nil
  then show ?case by (simp add: same_end_def)
next
  case (Cons x xs)
  show ?case
    unfolding each.simps run_andthen
  proof (rule Cons.prems(1) [OF _ Cons.prems(2)], simp, rule Cons.IH)
    fix st1 st2
    assume "lab st1 = lab st" "same_end st st1" "lower_inv c P U Xs st2" "lab st2 = lab st1" "same_end st1 st2"
    then show "Q () st2" by (intro Cons.prems(3)) (auto intro: same_end_trans)
  qed (use Cons.prems(1) in auto)
qed

lemma run_each_lab:
  assumes "\<And>x st Q. x \<in> set xs \<Longrightarrow> lower_inv c P U Xs st \<Longrightarrow>
      (\<And>st'. lower_inv c P U Xs st' \<Longrightarrow> lab st' = lab st \<Longrightarrow> Q () st') \<Longrightarrow> run f (g x) Q st"
    and "lower_inv c P U Xs st"
    and "\<And>st'. lower_inv c P U Xs st' \<Longrightarrow> lab st' = lab st \<Longrightarrow> Q () st'"
  shows "run f (each g xs) Q st"
  using assms
proof (induction xs arbitrary: st)
  case (Cons x xs)
  show ?case
    unfolding each.simps run_andthen
    by (rule Cons.prems(1) [OF _ Cons.prems(2)], simp, rule Cons.IH) (use Cons.prems in auto)
qed simp

context expr_lowering begin

section \<open>Bindings\<close>

lemma run_bind_fields:
  assumes "lower_inv c P U (X # Xs) st"
    and "\<And>st'. lower_inv c P U (X # Xs) st' \<Longrightarrow> lab st' = lab st \<Longrightarrow> Q () st'"
  shows "run f (bind_fields en e t variant a) Q st"
proof (cases "pattern_fields a")
  case None
  with assms show ?thesis by (simp add: bind_fields_def)
next
  case (Some fs)
  show ?thesis
    unfolding bind_fields_def Some option.case run_andthen
  proof (rule run_expect, rule run_each_lab [OF _ assms(1)])
    fix v st1 Q and x :: "nat \<times> name meta \<times> ty_ref"
    assume st1: "lower_inv c P U (X # Xs) st1"
      and post: "\<And>st'. lower_inv c P U (X # Xs) st' \<Longrightarrow> lab st' = lab st1 \<Longrightarrow> Q () st'"
    obtain i n ft where x: "x = (i, n, ft)" by (cases x)
    show "run f (bind_field en e t (fst v) x) Q st1"
      unfolding bind_field_def x split_conv run_andthen Let_def
      by (rule run_table, rule run_live_named [OF st1], simp, rule run_assign_plain, assumption, simp) (simp add: post)
  qed (rule assms(2))
qed

lemma run_readd_fields:
  assumes "lower_inv c P U (X # Xs) st"
    and "\<And>st'. lower_inv c P U (X # Xs) st' \<Longrightarrow> lab st' = lab st \<Longrightarrow> same_end st st' \<Longrightarrow> Q () st'"
  shows "run f (readd_fields en variants b) Q st"
proof -
  obtain d arm i where b: "b = (d, arm, i)" by (cases b)
  show ?thesis
  proof (cases "pattern_fields arm")
    case None
    with assms b show ?thesis by (simp add: readd_fields_def same_end_def)
  next
    case (Some fs)
    show ?thesis
      unfolding readd_fields_def b split_conv Some option.case run_andthen
      by (rule run_expect, rule run_each_same [OF _ assms(1)])
        (auto simp: readd_field_def intro!: run_table run_add_slot_named assms(2))
  qed
qed

section \<open>Guards\<close>

lemma arm_label_step: "\<exists>m. label_step m \<and> arm_label prefix b = andthen m (\<lambda>l. give (snd (snd b), l))"
  unfolding arm_label_def using label_step_wrap by blast

lemma case_label_step: "\<exists>m. label_step m \<and> case_label prefix d = andthen m (\<lambda>l. give (d, l))"
  unfolding case_label_def using label_step_wrap by blast

text \<open>One guard: a block that ends in a jump to the next guard, or to the arm.\<close>

lemma run_guard:
  assumes "lower_inv c P U (X # Xs) st" and "set_option g \<subseteq> S" and "c \<Longrightarrow> arm_lbl \<in> P" and "c \<Longrightarrow> g \<noteq> None \<Longrightarrow> next_lbl \<in> P"
    and "\<And>st'. lower_inv c P U (X # Xs) st' \<Longrightarrow> lab st \<subseteq> lab st' \<Longrightarrow> ended st' \<Longrightarrow> Q () st'"
  shows "run f (case g of
         Some guard \<Rightarrow>
           andthen (ex guard) (\<lambda>op.
           andthen (assign_to_var op REF_BOOL) (\<lambda>op.
           andthen (wrap_label lbl name) (\<lambda>intermediate_lbl.
           andthen (emit_switch op [(1, arm_lbl)] (Some intermediate_lbl)) (\<lambda>_.
           andthen (new_block intermediate_lbl) (\<lambda>_.
           andthen (emit_drops to_drop) (\<lambda>_.
           emit_jump next_lbl))))))
       | None \<Rightarrow> emit_jump arm_lbl) Q st"
proof (cases g)
  case None
  show ?thesis
    unfolding None option.case emit_jump_def
    by (rule run_emit [OF assms(1)]) (use assms(3,5) in auto)
next
  case (Some guard)
  have g: "guard \<in> S" using assms(2) Some by simp
  show ?thesis
    unfolding Some option.case run_unfold
  proof (rule run_keeps [OF ex [OF g] assms(1)], rule run_to_var, assumption, assumption,
      rule run_label_in [OF label_step_wrap], assumption, rule run_emit, assumption, simp add: assms(3),
      rule run_new_block, assumption, simp, simp, rule run_emit_drops, assumption, rule run_emit, assumption)
    fix st1 st2 st3 st4 st5 st6 st7 op v l
    assume st7: "lower_inv c (insert l P - {l}) U (insert v X # Xs) st7" and l: "l \<notin> P"
      and lab: "lab st \<subseteq> lab st1" "lab st2 = lab st1" "lab st3 = lab st2" "lab st4 = lab st3"
        "lab st5 = insert l (lab st4)" "lab st6 = lab st5" "lab st7 = lab st6"
      and e: "ended st7 = is_terminator (MiJump next_lbl)"
    have eq: "insert l P - {l} = P" using l by simp
    have "lower_inv c P U (X # Xs) st7" by (rule inv_less_top [OF st7 [unfolded eq]]) auto
    then show "Q () st7" by (rule assms(5)) (use lab e in auto)
  next
    fix st6 :: lowerer and l
    assume "l \<notin> P"
    then have "insert l P - {l} = P" by simp
    then show "set (successors (MiJump next_lbl)) \<subseteq> lab st6 \<union> (insert l P - {l})" if c
      using assms(4) [OF that] Some by simp
  qed
qed

text \<open>What a list of branches needs: guards that can be lowered, and arms that are promised a block.\<close>

definition chain_ready :: "label_ref set \<Rightarrow> (nat \<times> label_ref) list \<Rightarrow> branch list \<Rightarrow> bool" where
  "chain_ready P arm_labels bs \<longleftrightarrow> (\<forall>b \<in> set bs. set_option (guard_of (fst (snd b))) \<subseteq> S \<and>
     (\<forall>l. map_of arm_labels (snd (snd b)) = Some l \<longrightarrow> l \<in> P))"

lemma chain_ready_Cons: "chain_ready P ls (b # bs) \<Longrightarrow> chain_ready P ls bs"
  by (simp add: chain_ready_def)

lemma chain_ready_filter: "chain_ready P ls bs \<Longrightarrow> chain_ready P ls (filter p bs)"
  unfolding chain_ready_def set_filter by blast

lemma chain_ready_mono: "chain_ready P ls bs \<Longrightarrow> P \<subseteq> P' \<Longrightarrow> chain_ready P' ls bs"
  unfolding chain_ready_def by blast

lemma run_chain:
  assumes "lower_inv c (insert n P) U (X # Xs) st" and "n \<notin> P" and "ended st" and "bs \<noteq> []"
    and "chain_ready P ls bs" and "c \<Longrightarrow> chain_covered bs"
    and "\<And>st'. lower_inv c P U (X # Xs) st' \<Longrightarrow> lab st \<subseteq> lab st' \<Longrightarrow> n \<in> lab st' \<Longrightarrow> ended st' \<Longrightarrow> Q () st'"
  shows "run f (guard_chain ex en e t variant lbl ls i n bs) Q st"
  using assms
proof (induction bs arbitrary: i n st)
  case (Cons b bs)
  obtain d arm k where b: "b = (d, arm, k)" by (cases b)
  from Cons.prems(5) have guard: "set_option (guard_of arm) \<subseteq> S"
    and arm: "\<And>l. map_of ls k = Some l \<Longrightarrow> l \<in> P" by (simp_all add: chain_ready_def b)
  have P: "insert n P - {n} = P" using Cons.prems(2) by simp
  show ?case
    unfolding b guard_chain.simps run_andthen
  proof (rule run_new_block [OF Cons.prems(1) _ Cons.prems(3)], simp, unfold P, rule run_push_slot, assumption,
      rule run_bind_fields, assumption)
    fix st1 st2 st3
    assume st3: "lower_inv c P U ({} # X # Xs) st3" and l3: "lab st1 = insert n (lab st)" "lab st2 = lab st1" "lab st3 = lab st2"
    let ?rest = "\<lambda>next. run f (expect Ice (map_of ls k)) (\<lambda>arm_lbl. run f pop_slot (\<lambda>to_drop.
        run f (case guard_of arm of
         Some guard \<Rightarrow>
           andthen (ex guard) (\<lambda>op.
           andthen (assign_to_var op REF_BOOL) (\<lambda>op.
           andthen (wrap_label lbl (''guard_'' @ show_nat i @ ''_drop'')) (\<lambda>intermediate_lbl.
           andthen (emit_switch op [(1, arm_lbl)] (Some intermediate_lbl)) (\<lambda>_.
           andthen (new_block intermediate_lbl) (\<lambda>_.
           andthen (emit_drops to_drop) (\<lambda>_.
           emit_jump next))))))
       | None \<Rightarrow> emit_jump arm_lbl) (\<lambda>_. run f (guard_chain ex en e t variant lbl ls (i + 1) next bs) Q)))"
    show "run f (wrap_label lbl (''guard_'' @ show_nat (i + 1))) ?rest st3"
    proof (cases "bs = []")
      case True
      then have last: "c \<Longrightarrow> guard_of arm = None" using Cons.prems(6) by (simp add: chain_covered_def b)
      show ?thesis
      proof (rule run_label_out [OF label_step_wrap st3], rule run_expect, rule run_pop_slot, assumption, simp,
          rule run_guard [OF _ guard], assumption)
        fix st4 st5 st6
        assume "lower_inv c P U (X # Xs) st6" "lab st4 = lab st3" "lab st5 = lab st4" "lab st5 \<subseteq> lab st6" "ended st6"
        with l3 show "run f (guard_chain ex en e t variant lbl ls (i + 1) l bs) Q st6" for l
          unfolding True guard_chain.simps run_give by (intro Cons.prems(7)) auto
      qed (use last arm in auto)
    next
      case False
      then have cov: "c \<Longrightarrow> chain_covered bs" using Cons.prems(6) by (simp add: chain_covered_def)
      show ?thesis
      proof (rule run_label_in [OF label_step_wrap st3], rule run_expect, rule run_pop_slot, assumption, simp,
          rule run_guard [OF _ guard], assumption)
        fix l st4 st5 st6
        assume st6: "lower_inv c (insert l P) U (X # Xs) st6" "lab st4 = lab st3" "lab st5 = lab st4" "lab st5 \<subseteq> lab st6"
          "ended st6" and l: "l \<notin> P"
        have L: "lab st \<subseteq> lab st6" "n \<in> lab st6" using st6 l3 by auto
        show "run f (guard_chain ex en e t variant lbl ls (i + 1) l bs) Q st6"
        proof (rule Cons.IH [OF st6(1) l st6(5) False chain_ready_Cons [OF Cons.prems(5)] cov])
          show "Q () st'" if "lower_inv c P U (X # Xs) st'" "lab st6 \<subseteq> lab st'" "ended st'" for st'
            by (rule Cons.prems(7) [OF that(1) _ _ that(3)]) (use L that(2) in auto)
        qed
      qed (use arm in auto)
    qed
  qed
qed simp

lemma run_match_case:
  assumes inv: "lower_inv c (insert l P) U (X # Xs) st" and l: "l \<notin> P" and "ended st"
    and ready: "chain_ready P ls bs" and cov: "c \<Longrightarrow> chain_covered bs"
    and post: "\<And>st'. lower_inv c P U (X # Xs) st' \<Longrightarrow> lab st \<subseteq> lab st' \<Longrightarrow> ended st' \<Longrightarrow> Q () st'"
  shows "run f (match_case ex en e t variant l bs ls) Q st"
proof -
  have P: "insert l P - {l} = P" using l by simp
  show ?thesis
    unfolding match_case_def run_andthen
  proof (rule run_new_block [OF inv _ assms(3)], simp, unfold P)
    fix st1 assume st1: "lower_inv c P U (X # Xs) st1" "lab st1 = insert l (lab st)"
    show "run f (wrap_label l (''guard_'' @ show_nat 0))
        (\<lambda>n. run f (emit_jump n) (\<lambda>_. run f (guard_chain ex en e t variant l ls 0 n bs) Q)) st1"
    proof (cases "bs = []")
      case True
      with cov have nc: "\<not> c" by (auto simp: chain_covered_def)
      show ?thesis
        unfolding True guard_chain.simps run_give emit_jump_def
      proof (rule run_label_out [OF label_step_wrap st1(1)], rule run_emit, assumption)
        show "Q () st3" if "lower_inv c P U (X # Xs) st3" "lab st2 = lab st1" "lab st3 = lab st2"
          "ended st3 = is_terminator (MiJump n)" for st2 st3 n
          by (rule post [OF that(1)]) (use that st1 in auto)
      qed (use nc in simp)
    next
      case False
      show ?thesis
        unfolding emit_jump_def
      proof (rule run_label_in [OF label_step_wrap st1(1)], rule run_emit, assumption, simp)
        fix n st2 st3
        assume st3: "lower_inv c (insert n P) U (X # Xs) st3" "n \<notin> P" "lab st2 = lab st1" "lab st3 = lab st2"
          "ended st3 = is_terminator (MiJump n)"
        show "run f (guard_chain ex en e t variant l ls 0 n bs) Q st3"
          by (rule run_chain [OF st3(1,2) _ False ready cov]) (use st3 st1 post in auto)
      qed
    qed
  qed
qed

text \<open>The cases of the switch, one after the other.\<close>

lemma run_cases:
  assumes "lower_inv c (snd ` set cs \<union> P) U (X # Xs) st" and "distinct (map snd cs)" and "snd ` set cs \<inter> P = {}"
    and "ended st" and "chain_ready P ls bs" and "\<And>d. c \<Longrightarrow> d \<in> fst ` set cs \<Longrightarrow> chain_covered (branches_for d bs)"
    and "\<And>st'. lower_inv c P U (X # Xs) st' \<Longrightarrow> lab st \<subseteq> lab st' \<Longrightarrow> ended st' \<Longrightarrow> Q () st'"
  shows "run f (each (discriminant_case ex en e t variants bs ls) cs) Q st"
  using assms
proof (induction cs arbitrary: st)
  case (Cons x cs)
  obtain d l where x: "x = (d, l)" by (cases x)
  let ?P = "snd ` set cs \<union> P"
  have eq: "snd ` set (x # cs) \<union> P = insert l ?P" and l: "l \<notin> ?P" using Cons.prems(2,3) by (auto simp: x)
  have ready: "chain_ready ?P ls (branches_for d bs)"
    unfolding branches_for_def by (rule chain_ready_filter, rule chain_ready_mono [OF Cons.prems(5)]) simp
  show ?case
    unfolding each.simps run_andthen x discriminant_case_def [where c = "(d, l)"] fst_conv snd_conv
  proof (rule run_expect, rule run_match_case [OF Cons.prems(1) [unfolded eq] l Cons.prems(4) ready])
    fix v show "c \<Longrightarrow> chain_covered (branches_for d bs)" using Cons.prems(6) by (simp add: x)
    fix st1
    assume st1: "lower_inv c ?P U (X # Xs) st1" "lab st \<subseteq> lab st1" "ended st1"
    show "run f (each (discriminant_case ex en e t variants bs ls) cs) Q st1"
    proof (rule Cons.IH [OF st1(1) _ _ st1(3) Cons.prems(5)])
      show "Q () st'" if "lower_inv c P U (X # Xs) st'" "lab st1 \<subseteq> lab st'" "ended st'" for st'
        by (rule Cons.prems(7) [OF that(1) _ that(3)]) (use that(2) st1(2) in auto)
    qed (use Cons.prems in auto)
  qed
qed simp

section \<open>Arms\<close>

lemma run_arm:
  assumes inv: "lower_inv c P U (X # Xs) st" and l: "map_of ls (snd (snd b)) = Some l" "l \<in> P" and e: "ended st"
    and ch: "set (block_children (node (body_of (fst (snd b))))) \<subseteq> S" and k: "k \<in> P - {l}"
    and post: "\<And>st'. lower_inv c (P - {l}) U (X # Xs) st' \<Longrightarrow> lab st \<subseteq> lab st' \<Longrightarrow> ended st' \<Longrightarrow> Q () st'"
  shows "run f (match_arm_block ex en variants out t ls k b) Q st"
  unfolding match_arm_block_def run_unfold l(1) expect_def option.case
proof (rule run_push_slot [OF inv], rule run_readd_fields, assumption, rule run_new_block, assumption, rule l(2))
  fix st1 st2 st3
  assume same: "same_end st st1" "same_end st1 st2"
  show "ended st2" using e same same_endD by blast
  assume st3: "lower_inv c (P - {l}) U ({} # X # Xs) st3"
    and l3: "lab st1 = lab st" "lab st2 = lab st1" "lab st3 = insert l (lab st2)"
  show "run f (lower_block ex en (body_of (fst (snd b)))) (\<lambda>val. run f (emit (MiAssign (place_new out t) t val))
      (\<lambda>_. run f close_slot (\<lambda>_. run f (emit (MiJump k)) Q))) st3"
  proof (rule run_block [OF ch st3], rule run_emit, assumption, simp, rule run_close_slot, assumption, simp,
      rule run_emit, assumption)
    show "set (successors (MiJump k)) \<subseteq> lab st6 \<union> (P - {l})" for st6 using k by simp
    fix st4 st5 st6 st7
    assume "lower_inv c (P - {l}) U (X # Xs) st7" "lab st3 \<subseteq> lab st4" "lab st5 = lab st4" "lab st6 = lab st5"
      "lab st7 = lab st6" "ended st7 = is_terminator (MiJump k)"
    then show "Q () st7" using l3 by (intro post) auto
  qed
qed

lemma run_arms:
  assumes "lower_inv c (L ` set bs \<union> P) U (X # Xs) st" and "\<forall>b \<in> set bs. map_of ls (snd (snd b)) = Some (L b)"
    and "distinct (map L bs)" and "L ` set bs \<inter> P = {}" and "ended st" and "k \<in> P"
    and "\<forall>b \<in> set bs. set (block_children (node (body_of (fst (snd b))))) \<subseteq> S"
    and "\<And>st'. lower_inv c P U (X # Xs) st' \<Longrightarrow> lab st \<subseteq> lab st' \<Longrightarrow> ended st' \<Longrightarrow> Q () st'"
  shows "run f (each (match_arm_block ex en variants out t ls k) bs) Q st"
  using assms
proof (induction bs arbitrary: st)
  case (Cons b bs)
  let ?P = "L ` set (b # bs) \<union> P"
  have eq: "?P - {L b} = L ` set bs \<union> P" using Cons.prems(3,4) by auto
  show ?case
    unfolding each.simps run_andthen
  proof (rule run_arm [OF Cons.prems(1), where l = "L b"])
    fix st1
    assume st1: "lower_inv c (?P - {L b}) U (X # Xs) st1" "lab st \<subseteq> lab st1" "ended st1"
    show "run f (each (match_arm_block ex en variants out t ls k) bs) Q st1"
    proof (rule Cons.IH [OF st1(1) [unfolded eq]])
      show "Q () st'" if "lower_inv c P U (X # Xs) st'" "lab st1 \<subseteq> lab st'" "ended st'" for st'
        by (rule Cons.prems(8) [OF that(1) _ that(3)]) (use that(2) st1(2) in auto)
    qed (use Cons.prems st1 in auto)
  next
    show "k \<in> ?P - {L b}" unfolding eq using Cons.prems(6) by simp
  qed (use Cons.prems in auto)
qed simp

section \<open>Matches\<close>

text \<open>A label that is promised a block only when \<open>b\<close> holds.\<close>

abbreviation only_if :: "bool \<Rightarrow> 'a \<Rightarrow> 'a set" where
  "only_if b x \<equiv> (if b then {x} else {})"

lemma run_label_if:
  assumes "label_step m" and "lower_inv c P U Xs st"
    and "\<And>l st'. lower_inv c (only_if b l \<union> P) U Xs st' \<Longrightarrow> l \<notin> P \<Longrightarrow>
      lab st' = lab st \<Longrightarrow> same_end st st' \<Longrightarrow> Q l st'"
  shows "run f m Q st"
  by (rule run_label [OF assms(1,2)]) (use assms(3) in \<open>cases b; simp\<close>)

lemma default_branches_iff:
  assumes "list_all (known_arm variants) arms"
  shows "default_branches (all_branches variants arms) \<noteq> [] \<longleftrightarrow> (\<exists>a \<in> set arms. arm_variant a = None)"
proof -
  have "fst b = None \<longleftrightarrow> arm_variant (fst (snd b)) = None" if "b \<in> set (all_branches variants arms)" for b
  proof -
    have "known_arm variants (fst (snd b))" using that assms arm_of_branch by (auto simp: list_all_iff)
    with that show ?thesis by (auto simp: fst_all_branches known_arm_def arm_discriminant_def)
  qed
  then have "default_branches (all_branches variants arms) \<noteq> [] \<longleftrightarrow>
      (\<exists>b \<in> set (all_branches variants arms). arm_variant (fst (snd b)) = None)"
    by (auto simp: default_branches_def filter_empty_conv)
  also have "\<dots> \<longleftrightarrow> (\<exists>a \<in> (\<lambda>b. fst (snd b)) ` set (all_branches variants arms). arm_variant a = None)" by simp
  also have "(\<lambda>b. fst (snd b)) ` set (all_branches variants arms) = set arms"
    using map_arms_all_branches [of variants arms] by (metis list.set_map)
  finally show ?thesis .
qed

lemma map_of_labels:
  assumes "map fst ls = map k bs" and "distinct (map k bs)"
  shows "\<exists>L. (\<forall>b \<in> set bs. map_of ls (k b) = Some (L b)) \<and> map L bs = map snd ls"
proof -
  let ?L = "\<lambda>b. the (map_of ls (k b))"
  have len: "length ls = length bs" using assms(1) by (metis length_map)
  have nth: "map_of ls (k (bs ! i)) = Some (snd (ls ! i))" if "i < length bs" for i
  proof (rule map_of_is_SomeI)
    show "distinct (map fst ls)" using assms by simp
    have "fst (ls ! i) = k (bs ! i)" using assms(1) that len by (metis nth_map)
    with that len show "(k (bs ! i), snd (ls ! i)) \<in> set ls" by (metis nth_mem prod.collapse)
  qed
  have "\<forall>b \<in> set bs. map_of ls (k b) = Some (?L b)" using nth by (auto simp: in_set_conv_nth)
  moreover have "map ?L bs = map snd ls" using nth len by (auto intro!: nth_equalityI)
  ultimately show ?thesis by (intro exI [of _ ?L] conjI)
qed

lemma match_children_arm:
  assumes "a \<in> set arms"
  shows "set (block_children (node (body_of a))) \<subseteq> set (match_children (e, arms))"
    and "set_option (guard_of a) \<subseteq> set (match_children (e, arms))"
  using assms by (auto simp: match_children_def intro!: bexI [of _ a])

lemma bodies_in:
  "set (match_children (e, arms)) \<subseteq> S \<Longrightarrow>
     \<forall>b \<in> set (all_branches variants arms). set (block_children (node (body_of (fst (snd b))))) \<subseteq> S"
  using match_children_arm(1) [OF arm_of_branch] by blast

lemma guards_in:
  "set (match_children (e, arms)) \<subseteq> S \<Longrightarrow> b \<in> set (all_branches variants arms) \<Longrightarrow>
     set_option (guard_of (fst (snd b))) \<subseteq> S"
  using match_children_arm(2) [OF arm_of_branch] by blast

lemma arms_ready:
  assumes "set (match_children (e, arms)) \<subseteq> S"
  shows "chain_ready (snd ` set ls) ls (all_branches variants arms)"
  unfolding chain_ready_def
proof (intro ballI conjI allI impI)
  fix b l assume "map_of ls (snd (snd b)) = Some l"
  then show "l \<in> snd ` set ls" by (auto dest!: map_of_SomeD intro: rev_image_eqI)
qed (rule guards_in [OF assms])

text \<open>The blocks of the arms, from where their labels are promised.\<close>

lemma run_match_arms:
  assumes ch: "set (match_children (e, arms)) \<subseteq> S" and inv: "lower_inv c (snd ` set ls \<union> insert k P) U (X # Xs) st"
    and ls: "map fst ls = map (\<lambda>b. snd (snd b)) (all_branches variants arms)" "distinct (map snd ls)"
      "snd ` set ls \<inter> insert k P = {}" "k \<notin> P" and "ended st"
    and post: "\<And>v st'. lower_inv c P U ((X \<union> {v}) # Xs) st' \<Longrightarrow> v \<notin> X \<Longrightarrow> lab st \<subseteq> lab st' \<Longrightarrow> Q (VMove v) st'"
  shows "run f (andthen (type_ref en i) (\<lambda>ty.
         andthen undropped_tmp (\<lambda>out.
         andthen (each (match_arm_block ex en variants out ty ls k) (all_branches variants arms)) (\<lambda>_.
         andthen (new_block k) (\<lambda>_.
         andthen (add_live_variable out ty) (\<lambda>_.
         give (VMove out))))))) Q st"
proof -
  have dist: "distinct (map (\<lambda>b. snd (snd b)) (all_branches variants arms))" by simp
  obtain L where L: "\<forall>b \<in> set (all_branches variants arms). map_of ls (snd (snd b)) = Some (L b)"
    "map L (all_branches variants arms) = map snd ls"
    using map_of_labels [OF ls(1) dist] by blast
  have eq: "snd ` set ls = L ` set (all_branches variants arms)" using L(2) by (metis list.set_map)
  have k: "insert k P - {k} = P" using ls(4) by simp
  show ?thesis
    unfolding run_andthen run_give
  proof (rule run_type_ref [OF inv], rule run_undropped_tmp, assumption, unfold eq)
    fix ty st1 st2 out
    assume st2: "lower_inv c (L ` set (all_branches variants arms) \<union> insert k P) (insert out U) (X # Xs) st2"
      and st: "lab st1 = lab st" "same_end st st1" "lab st2 = lab st1" "same_end st1 st2" and out: "out \<notin> U" "is_tmp out"
    have e: "ended st2" using assms(7) st same_endD by blast
    have rest: "run f (new_block k) (\<lambda>_. run f (add_live_variable out ty) (\<lambda>_. Q (VMove out))) st3"
      if st3: "lower_inv c (insert k P) (insert out U) (X # Xs) st3" "lab st2 \<subseteq> lab st3" "ended st3" for st3
    proof (rule run_new_block [OF st3(1) _ st3(3)], simp, unfold k, rule run_live_tmp, assumption, rule out, simp)
      fix st4 st5
      assume st5: "lower_inv c P (insert out U - {out}) (insert out X # Xs) st5" "out \<notin> X"
        and l: "lab st4 = insert k (lab st3)" "lab st5 = lab st4"
      have eq: "insert out U - {out} = U" "insert out X = X \<union> {out}" using out by auto
      show "Q (VMove out) st5" by (rule post [OF st5(1) [unfolded eq] st5(2)]) (use st st3(2) l in auto)
    qed
    show "run f (each (match_arm_block ex en variants out ty ls k) (all_branches variants arms))
        (\<lambda>_. run f (new_block k) (\<lambda>_. run f (add_live_variable out ty) (\<lambda>_. Q (VMove out)))) st2"
      by (rule run_arms [OF st2 L(1) _ _ e _ bodies_in [OF ch] rest]) (use L(2) ls eq in auto)
  qed
qed

lemma orders_okD:
  assumes "orders_ok en"
  shows "set (le_set_order en p xs) = set xs" and "set (le_map_order en ys) = set ys"
    and "distinct (map snd (le_map_order en ys)) \<longleftrightarrow> distinct (map snd ys)"
proof -
  have s: "mset (le_set_order en p xs) = mset xs" and m: "mset (le_map_order en ys) = mset ys"
    using assms by (simp_all add: orders_ok_def)
  show "set (le_set_order en p xs) = set xs" using s by (rule mset_eq_setD)
  show "set (le_map_order en ys) = set ys" using m by (rule mset_eq_setD)
  have "mset (map snd (le_map_order en ys)) = mset (map snd ys)" using m by simp
  then show "distinct (map snd (le_map_order en ys)) \<longleftrightarrow> distinct (map snd ys)" by (rule mset_eq_imp_distinct_iff)
qed

text \<open>The switch, its cases and the default, from where their labels are promised.\<close>

lemma run_match_switch:
  fixes arms variants
  defines "bs \<equiv> all_branches variants arms"
  assumes ch: "set (match_children (e, arms)) \<subseteq> S" and known: "list_all (known_arm variants) arms"
    and cov: "c \<Longrightarrow> match_covered arms"
    and inv: "lower_inv c (snd ` set cs \<union> insert k (only_if (default_branches bs \<noteq> []) dl \<union> P)) U (X # Xs) st"
    and cs: "distinct (map snd cs)" "snd ` set cs \<inter> insert k (only_if (default_branches bs \<noteq> []) dl \<union> P) = {}"
      "fst ` set cs \<subseteq> set (discriminants bs)" "k \<notin> only_if (default_branches bs \<noteq> []) dl \<union> P" "dl \<notin> P"
    and post: "\<And>v st'. lower_inv c P U ((X \<union> {v}) # Xs) st' \<Longrightarrow> v \<notin> X \<Longrightarrow> lab st \<subseteq> lab st' \<Longrightarrow> Q (VMove v) st'"
  shows "run f (andthen undropped_tmp (\<lambda>discriminant.
         andthen (emit_assign (place_new discriminant REF_U8) REF_U8 (VDiscriminant examinee)) (\<lambda>_.
         andthen (emit_switch discriminant cs (if default_branches bs \<noteq> [] then Some dl else None)) (\<lambda>_.
         andthen (collect (arm_label prefix) bs) (\<lambda>ls.
         andthen (each (discriminant_case ex en ev et variants bs ls) cs) (\<lambda>_.
         andthen (if default_branches bs \<noteq> []
             then match_case ex en ev et None dl (default_branches bs) ls
             else give ()) (\<lambda>_.
         andthen (type_ref en i) (\<lambda>ty.
         andthen undropped_tmp (\<lambda>out.
         andthen (each (match_arm_block ex en variants out ty ls k) bs) (\<lambda>_.
         andthen (new_block k) (\<lambda>_.
         andthen (add_live_variable out ty) (\<lambda>_.
         give (VMove out))))))))))))) Q st"
proof -
  let ?hd = "default_branches bs \<noteq> []"
  let ?D = "only_if ?hd dl"
  let ?P0 = "snd ` set cs \<union> insert k (?D \<union> P)"
  let ?arms = "\<lambda>ls. andthen (type_ref en i) (\<lambda>ty.
         andthen undropped_tmp (\<lambda>out.
         andthen (each (match_arm_block ex en variants out ty ls k) bs) (\<lambda>_.
         andthen (new_block k) (\<lambda>_.
         andthen (add_live_variable out ty) (\<lambda>_.
         give (VMove out))))))"
  have "run f (emit_assign (place_new d REF_U8) REF_U8 (VDiscriminant examinee)) (\<lambda>_.
         run f (emit_switch d cs (if ?hd then Some dl else None)) (\<lambda>_.
         run f (collect (arm_label prefix) bs) (\<lambda>ls.
         run f (each (discriminant_case ex en ev et variants bs ls) cs) (\<lambda>_.
         run f (if ?hd then match_case ex en ev et None dl (default_branches bs) ls else give ()) (\<lambda>_.
         run f (?arms ls) Q))))) st1"
    if st1: "lower_inv c ?P0 (insert d U) (X # Xs) st1" "lab st1 = lab st" for d st1
    unfolding emit_assign_def emit_switch_def
  proof (rule run_emit [OF st1(1)], simp, rule run_emit, assumption)
    fix st2 st3
    show "set (successors (MiSwitch d cs (if ?hd then Some dl else None))) \<subseteq> lab st2 \<union> ?P0" by auto
    assume st3: "lower_inv c ?P0 (insert d U) (X # Xs) st3" "lab st2 = lab st1" "lab st3 = lab st2"
      "ended st3 = is_terminator (MiSwitch d cs (if ?hd then Some dl else None))"
    show "run f (collect (arm_label prefix) bs) (\<lambda>ls.
         run f (each (discriminant_case ex en ev et variants bs ls) cs) (\<lambda>_.
         run f (if ?hd then match_case ex en ev et None dl (default_branches bs) ls else give ()) (\<lambda>_.
         run f (?arms ls) Q))) st3"
    proof (rule run_collect_labels [OF arm_label_step st3(1)])
      fix ls st4
      assume st4: "lower_inv c (snd ` set ls \<union> ?P0) (insert d U) (X # Xs) st4" "lab st4 = lab st3" "same_end st3 st4"
        and ls: "map fst ls = map (\<lambda>b. snd (snd b)) bs" "distinct (map snd ls)" "snd ` set ls \<inter> ?P0 = {}"
      let ?P1 = "snd ` set ls \<union> insert k P"
      have eq: "snd ` set ls \<union> ?P0 = snd ` set cs \<union> (?D \<union> ?P1)" by auto
      have e4: "ended st4" using st3(4) st4(3) by (simp add: same_end_def)
      have ready: "chain_ready (snd ` set ls) ls bs" unfolding bs_def by (rule arms_ready [OF ch])
      have L4: "lab st \<subseteq> lab st4" using st1 st3 st4 by simp
      show "run f (each (discriminant_case ex en ev et variants bs ls) cs) (\<lambda>_.
         run f (if ?hd then match_case ex en ev et None dl (default_branches bs) ls else give ()) (\<lambda>_.
         run f (?arms ls) Q)) st4"
      proof (rule run_cases [OF st4(1) [unfolded eq] cs(1) _ e4 chain_ready_mono [OF ready]])
        show "snd ` set cs \<inter> (?D \<union> ?P1) = {}" using cs(2) ls(3) by auto
        show "chain_covered (branches_for x bs)" if c "x \<in> fst ` set cs" for x
          using covered_for [OF cov [OF that(1)] known] that(2) cs(3) by (auto simp: bs_def)
        fix st5
        assume st5: "lower_inv c (?D \<union> ?P1) (insert d U) (X # Xs) st5" "lab st4 \<subseteq> lab st5" "ended st5"
        have last: "run f (?arms ls) Q st6"
          if st6: "lower_inv c ?P1 (insert d U) (X # Xs) st6" "lab st5 \<subseteq> lab st6" "ended st6" for st6
          unfolding bs_def
        proof (rule run_match_arms [OF ch inv_drop [OF st6(1)] ls(1) [unfolded bs_def] ls(2) _ _ st6(3)])
          show "snd ` set ls \<inter> insert k P = {}" "k \<notin> P" using ls(3) cs(4) by auto
          show "Q (VMove v) st7" if "lower_inv c P U ((X \<union> {v}) # Xs) st7" "v \<notin> X" "lab st6 \<subseteq> lab st7" for v st7
            by (rule post [OF that(1,2)]) (use that(3) st6(2) st5(2) L4 in auto)
        qed
        show "run f (if ?hd then match_case ex en ev et None dl (default_branches bs) ls else give ()) (\<lambda>_.
            run f (?arms ls) Q) st5"
        proof (cases ?hd)
          case True
          then have eq: "?D \<union> ?P1 = insert dl ?P1" by auto
          have dl: "dl \<notin> ?P1" using True cs(4,5) ls(3) by auto
          have r: "chain_ready ?P1 ls (default_branches bs)"
            unfolding default_branches_def by (rule chain_ready_filter, rule chain_ready_mono [OF ready]) auto
          have cd: "chain_covered (default_branches bs)" if c
            using covered_default [OF cov [OF that] known] True by (simp add: bs_def)
          from True show ?thesis
            by (simp only: if_True not_False_eq_True)
              (rule run_match_case [OF st5(1) [unfolded eq] dl st5(3) r cd last])
        next
          case False
          then have eq: "?D \<union> ?P1 = ?P1" by simp
          show ?thesis using last [OF st5(1) [unfolded eq] subset_refl st5(3)] False by simp
        qed
      qed auto
    qed
  qed
  then show ?thesis
    unfolding run_andthen by (intro run_undropped_tmp [OF inv]) simp
qed

lemma keeps_match:
  assumes ch: "set (match_children (node m)) \<subseteq> S" and cov: "c \<Longrightarrow> match_covered (snd (node m))" and ord: "orders_ok en"
  shows "keeps c f moved (match_expr ex en i m)"
proof (rule keepsI)
  fix P U X Xs st assume inv: "lower_inv c P U (X # Xs) st"
  obtain e arms where m: "node m = (e, arms)" by (cases "node m")
  have ch': "set (match_children (e, arms)) \<subseteq> S" and e: "e \<in> S" using ch by (simp_all add: m match_children_def)
  have cov': "c \<Longrightarrow> match_covered arms" using cov by (simp add: m)
  let ?Q = "\<lambda>x st'. lower_inv c P U ((X \<union> moved x) # Xs) st' \<and> X \<inter> moved x = {} \<and> lab st \<subseteq> lab st'"
  let ?hd = "\<exists>a \<in> set arms. arm_variant a = None"
  show "run f (match_expr ex en i m) ?Q st"
    unfolding match_expr_def m split_conv run_andthen Let_def
  proof (rule run_type_ref [OF inv], rule run_pool_type)
    fix t st1 ty
    assume st1: "lower_inv c P U (X # Xs) st1" "lab st1 = lab st"
    show "run f (case ty of
       MEnum variants \<Rightarrow>
         andthen current_label (\<lambda>cur.
         andthen (wrap_label cur ''match'') (\<lambda>prefix.
         andthen (wrap_label prefix ''default'') (\<lambda>default_lbl.
         andthen (next_label cur) (\<lambda>continue_lbl.
         andthen (branches_of variants arms) (\<lambda>branches.
         andthen (collect (case_label prefix) (le_set_order en prefix (discriminants branches))) (\<lambda>case_labels.
         andthen (ex e) (\<lambda>examinee.
         andthen (assign_to_var examinee t) (\<lambda>examinee.
         andthen undropped_tmp (\<lambda>discriminant.
         andthen (emit_assign (place_new discriminant REF_U8) REF_U8 (VDiscriminant examinee)) (\<lambda>_.
         andthen (emit_switch discriminant (le_map_order en case_labels)
            (if default_branches branches \<noteq> [] then Some default_lbl else None)) (\<lambda>_.
         andthen (collect (arm_label prefix) branches) (\<lambda>arm_labels.
         andthen (each (discriminant_case ex en examinee t variants branches arm_labels) (le_map_order en case_labels)) (\<lambda>_.
         andthen (if default_branches branches \<noteq> []
             then match_case ex en examinee t None default_lbl (default_branches branches) arm_labels
             else give ()) (\<lambda>_.
         andthen (type_ref en i) (\<lambda>ty.
         andthen undropped_tmp (\<lambda>out.
         andthen (each (match_arm_block ex en variants out ty arm_labels continue_lbl) branches) (\<lambda>_.
         andthen (new_block continue_lbl) (\<lambda>_.
         andthen (add_live_variable out ty) (\<lambda>_.
         give (VMove out))))))))))))))))))))
     | _ \<Rightarrow> lower_panic Ice) ?Q st1"
    proof (cases "\<exists>vs. ty = MEnum vs")
      case True
      then obtain variants where ty: "ty = MEnum variants" by blast
      show ?thesis
        unfolding ty ty.case
      proof (subst run_andthen, rule run_current_label [OF st1(1)], subst run_andthen,
          rule run_label_out [OF label_step_wrap st1(1)], subst run_andthen,
          rule run_label_if [where b = ?hd, OF label_step_wrap], assumption, subst run_andthen,
          rule run_label_in [OF label_step_next], assumption, subst run_andthen, rule run_branches_of, subst run_andthen,
          rule run_collect_labels [OF case_label_step], assumption, subst run_andthen, rule run_keeps [OF ex [OF e]],
          assumption, subst run_andthen, rule run_to_var, assumption, assumption)
        fix dl k st2 st3 st4 cs st5 v st6 x st7 prefix
        assume known: "list_all (known_arm variants) arms"
          and lab: "lab st2 = lab st1" "lab st3 = lab st2" "lab st4 = lab st3" "lab st5 = lab st4" "lab st5 \<subseteq> lab st6"
            "lab st7 = lab st6"
          and new: "dl \<notin> P" "k \<notin> only_if ?hd dl \<union> P" "v \<notin> X"
          and cs: "map fst cs = map (\<lambda>d. d) (le_set_order en prefix (discriminants (all_branches variants arms)))"
            "distinct (map snd cs)" "snd ` set cs \<inter> insert k (only_if ?hd dl \<union> P) = {}"
          and st7: "lower_inv c (snd ` set cs \<union> insert k (only_if ?hd dl \<union> P)) U (insert v X # Xs) st7"
        have hd: "?hd \<longleftrightarrow> default_branches (all_branches variants arms) \<noteq> []"
          by (rule default_branches_iff [OF known, symmetric])
        have "fst ` set cs = set (le_set_order en prefix (discriminants (all_branches variants arms)))"
          using cs(1) by (metis list.map_ident list.set_map)
        then have ds: "fst ` set cs = set (discriminants (all_branches variants arms))"
          by (simp add: orders_okD [OF ord])
        show "run f (andthen undropped_tmp (\<lambda>discriminant.
           andthen (emit_assign (place_new discriminant REF_U8) REF_U8 (VDiscriminant v)) (\<lambda>_.
           andthen (emit_switch discriminant (le_map_order en cs)
              (if default_branches (all_branches variants arms) \<noteq> [] then Some dl else None)) (\<lambda>_.
           andthen (collect (arm_label prefix) (all_branches variants arms)) (\<lambda>ls.
           andthen (each (discriminant_case ex en v t variants (all_branches variants arms) ls) (le_map_order en cs)) (\<lambda>_.
           andthen (if default_branches (all_branches variants arms) \<noteq> []
               then match_case ex en v t None dl (default_branches (all_branches variants arms)) ls
               else give ()) (\<lambda>_.
           andthen (type_ref en i) (\<lambda>ty.
           andthen undropped_tmp (\<lambda>out.
           andthen (each (match_arm_block ex en variants out ty ls k) (all_branches variants arms)) (\<lambda>_.
           andthen (new_block k) (\<lambda>_.
           andthen (add_live_variable out ty) (\<lambda>_.
           give (VMove out))))))))))))) ?Q st7"
        proof (rule run_match_switch [OF ch' known cov'])
          show "lower_inv c (snd ` set (le_map_order en cs) \<union>
              insert k (only_if (default_branches (all_branches variants arms) \<noteq> []) dl \<union> P)) U (insert v X # Xs) st7"
            using st7 unfolding hd by (simp add: orders_okD [OF ord])
          show "?Q (VMove w) st8"
            if st8: "lower_inv c P U ((insert v X \<union> {w}) # Xs) st8" "w \<notin> insert v X" "lab st7 \<subseteq> lab st8" for w st8
            using inv_less_top [OF st8(1), of "X \<union> {w}"] st8(2,3) lab st1(2) by auto
        qed (use cs new ds in \<open>simp_all add: orders_okD [OF ord] hd\<close>)
      qed
    qed (cases ty; simp)
  qed
qed

end

end
