(* ===== verification/Mir_Expr_Safe.thy ===== *)
theory Mir_Expr_Safe
  imports Mir_Match_Safe
begin

text \<open>
  The lowering of expressions as a whole keeps the invariant, with fuel for the depth of the expression, and
  following jumps when every match in it is covered.
\<close>

section \<open>The expressions that a lowering visits\<close>

text \<open>The expressions lowered in one step of the lowering of an expression.\<close>

fun receiver_children :: "expr \<Rightarrow> expr meta list" where
  "receiver_children (EAccess e _) = [e]"
| "receiver_children _ = []"

definition part_children :: "fstring_part \<Rightarrow> expr meta list" where
  "part_children p = (case p of FsExpr e \<Rightarrow> [e] | FsString _ \<Rightarrow> [])"

definition else_children :: "block meta option \<Rightarrow> expr meta list" where
  "else_children b = (case b of Some b \<Rightarrow> block_children (node b) | None \<Rightarrow> [])"

definition option_list :: "'a option \<Rightarrow> 'a list" where
  "option_list x = (case x of Some e \<Rightarrow> [e] | None \<Rightarrow> [])"

fun expr_children :: "expr \<Rightarrow> expr meta list" where
  "expr_children (EReturn _ e) = option_list e"
| "expr_children (ELiteral _) = []"
| "expr_children (EBlock b) = block_children (node b)"
| "expr_children (EMatch m) = match_children (node m)"
| "expr_children (EFunctionCall g args) = receiver_children (node g) @ node args"
| "expr_children (EAccess e _) = [e]"
| "expr_children (EPath _) = []"
| "expr_children (ERecord r) = map snd (node r)"
| "expr_children (ETypedRecord _ r) = map snd (node r)"
| "expr_children (EList es) = es"
| "expr_children (ENot e) = [e]"
| "expr_children (ENegate e) = [e]"
| "expr_children (EAssign _ e) = [e]"
| "expr_children (ECompoundAssign h e) =
     [Meta (EBinOp (Meta (EPath (ca_path h)) (ca_path_expr_id h)) (compound_op (ca_op h)) e) (ca_binop_id h)]"
| "expr_children (EBinOp l _ r) = [l, r]"
| "expr_children (EIfElse cond t e) = cond # block_children (node t) @ else_children e"
| "expr_children (EWhile cond b) = cond # block_children (node b)"
| "expr_children (EFor _ e b) = e # block_children (node b)"
| "expr_children (EQuestionMark e) = [e]"
| "expr_children (EFString parts) = concat (map (\<lambda>p. part_children (node p)) parts)"

fun match_ok :: "expr \<Rightarrow> bool" where
  "match_ok (EMatch m) = match_covered (snd (node m))"
| "match_ok _ = True"

text \<open>Whether \<open>n\<close> levels of recursion are enough, and whether the matches in them are covered.\<close>

fun fits :: "nat \<Rightarrow> expr meta \<Rightarrow> bool" where
  "fits 0 e = False"
| "fits (Suc n) e = list_all (fits n) (expr_children (node e))"

fun covered :: "nat \<Rightarrow> expr meta \<Rightarrow> bool" where
  "covered 0 e = True"
| "covered (Suc n) e = (match_ok (node e) \<and> list_all (covered n) (expr_children (node e)))"

context expr_lowering begin

lemma keeps_literal: "keeps c f moved (literal en l)"
  unfolding literal_def by (rule keepsI, unfold run_unfold, rule run_type_ref, assumption) simp

text \<open>One level.\<close>

lemma keeps_expr_step:
  assumes "set (expr_children (node e)) \<subseteq> S" and "c \<Longrightarrow> match_ok (node e)" and "orders_ok en"
  shows "keeps c f moved (expr_step ex en e)"
proof (cases "node e")
  case (EReturn k x)
  with assms show ?thesis
    by (auto simp: expr_step_def option_list_def intro!: keeps_return_expr split: option.splits)
next
  case (EFunctionCall g args)
  with assms show ?thesis by (auto simp: expr_step_def intro!: keeps_function_call)
next
  case (EIfElse cond t b)
  with assms show ?thesis by (auto simp: expr_step_def else_children_def intro!: keeps_if)
next
  case (EFString parts)
  with assms show ?thesis by (force simp: expr_step_def part_children_def intro!: keeps_f_string)
next
  case (ECompoundAssign h x)
  with assms show ?thesis by (auto simp: expr_step_def intro!: keeps_compound_assign)
next
  case (EMatch m)
  with assms show ?thesis by (auto simp: expr_step_def intro!: keeps_match)
qed (use assms in \<open>simp_all add: expr_step_def keeps_literal keeps_block_expr keeps_access keeps_path keeps_record keeps_list
  keeps_not keeps_negate keeps_assign keeps_binop keeps_while keeps_for keeps_question_mark\<close>)

end

section \<open>All levels\<close>

definition lowerable :: "bool \<Rightarrow> bool \<Rightarrow> nat \<Rightarrow> lower_env \<Rightarrow> expr meta set" where
  "lowerable c f n en = {e. orders_ok en \<and> (f \<longrightarrow> fits n e) \<and> (c \<longrightarrow> covered n e)}"

lemma keeps_lower_expr: "e \<in> lowerable c f n en \<Longrightarrow> keeps c f moved (lower_expr n en e)"
proof (induction n arbitrary: e)
  case 0
  then show ?case by (auto simp: lowerable_def keeps_def run_def)
next
  case (Suc n)
  have l: "expr_lowering c f (lowerable c f n en) (lower_expr n en)"
    by (unfold_locales) (rule Suc.IH)
  show ?case
    unfolding lower_expr.simps
    by (rule expr_lowering.keeps_expr_step [OF l])
      (use Suc.prems in \<open>auto simp: lowerable_def list_all_iff\<close>)
qed

interpretation lower_expr: expr_lowering c f "lowerable c f n en" "lower_expr n en" en for c f n en
  by unfold_locales (rule keeps_lower_expr)

section \<open>Fuel\<close>

lemma fits_mono: "fits n e \<Longrightarrow> n \<le> m \<Longrightarrow> fits m e"
proof (induction n arbitrary: m e)
  case (Suc n)
  from Suc.prems(2) obtain m' where m: "m = Suc m'" "n \<le> m'" by (cases m) auto
  with Suc show ?case by (auto simp: list_all_iff)
qed simp

lemma fits_all:
  assumes "\<And>e. e \<in> set es \<Longrightarrow> \<exists>n. fits n e"
  shows "\<exists>n. list_all (fits n) es"
  using assms
proof (induction es)
  case (Cons e es)
  obtain m where m: "list_all (fits m) es" using Cons by auto
  obtain n where n: "fits n e" using Cons.prems [of e] by auto
  have "list_all (fits (max n m)) (e # es)"
    using fits_mono [OF n, of "max n m"] fits_mono [of m _ "max n m"] m by (simp add: list_all_iff)
  then show ?case by blast
qed simp

definition fitting :: "expr meta \<Rightarrow> bool" where
  "fitting e \<longleftrightarrow> (\<exists>n. fits n e)"

lemma fittingI: "(\<And>x. x \<in> set (expr_children (node e)) \<Longrightarrow> fitting x) \<Longrightarrow> fitting e"
  using fits_all [of "expr_children (node e)"] fits.simps(2) unfolding fitting_def by blast

lemma set_meta_node [simp]: "set_meta m = {node m}"
  by (cases m) simp

text \<open>Every expression has a depth.\<close>

lemma fits_node: "fits n (Meta (node x) i) = fits n x"
  by (cases n) simp_all

lemma fitting_node [simp]: "fitting (Meta (node x) i) = fitting x"
  by (simp add: fitting_def fits_node)

lemma fittingD: "fitting e \<Longrightarrow> x \<in> set (expr_children (node e)) \<Longrightarrow> fitting x"
proof -
  assume "fitting e" and x: "x \<in> set (expr_children (node e))"
  then obtain n where "fits n e" by (auto simp: fitting_def)
  with x obtain m where "fits m x" by (cases n) (auto simp: list_all_iff)
  then show "fitting x" by (auto simp: fitting_def)
qed

lemma fitting_all:
  fixes e :: expr and b :: block and s :: stmt and a :: match_arm and p :: fstring_part
  shows "fitting (Meta e 0)" and "\<forall>x \<in> set (block_children b). fitting x" and "fitting (stmt_expr s)"
    and "\<forall>x \<in> set (option_list (guard_of a) @ block_children (node (body_of a))). fitting x"
    and "\<forall>x \<in> set (part_children p). fitting x"
proof (induction e and b and s and a and p)
  case (EReturn k e)
  show ?case by (rule fittingI) (use EReturn in \<open>auto simp: option_list_def split: option.splits\<close>)
next
  case (EMatch m)
  obtain e arms where m: "node m = (e, arms)" by (cases "node m")
  have e: "fitting e" using EMatch(1) [of "(e, arms)" e "node e"] by (simp add: m prod_set_simps)
  have arms: "\<forall>x \<in> set (option_list (guard_of a) @ block_children (node (body_of a))). fitting x"
    if "a \<in> set arms" for a
    using EMatch(2) [of "(e, arms)" arms a] that by (simp add: m prod_set_simps)
  show ?case
  proof (rule fittingI)
    fix x assume "x \<in> set (expr_children (node (Meta (EMatch m) 0)))"
    then consider "x = fst (node m)"
      | a where "a \<in> set (snd (node m))" "x \<in> set (option_list (guard_of a) @ block_children (node (body_of a)))"
      by (auto simp: match_children_def option_list_def)
    then show "fitting x" by cases (use e arms m in auto)
  qed
next
  case (EFunctionCall g args)
  have g: "fitting g" and args: "\<And>x. x \<in> set (node args) \<Longrightarrow> fitting x" using EFunctionCall by auto
  have "fitting x" if "x \<in> set (receiver_children (node g))" for x
    using that by (intro fittingD [OF g]) (cases "node g"; simp)
  with args show ?case by - (rule fittingI, auto)
next
  case (ERecord r)
  show ?case by (rule fittingI) (use ERecord in auto)
next
  case (ETypedRecord p r)
  show ?case by (rule fittingI) (use ETypedRecord in auto)
next
  case (ECompoundAssign h e)
  then have e: "fitting e" by simp
  have p: "fitting (Meta (EPath q) i)" for q i by (rule fittingI) simp
  have "fitting (Meta (EBinOp (Meta (EPath q) i) op e) j)" for q i op j
    by (rule fittingI) (use e p in auto)
  then show ?case by - (rule fittingI, simp)
next
  case (EIfElse cond t b)
  show ?case by (rule fittingI) (use EIfElse in \<open>auto simp: else_children_def split: option.splits\<close>)
next
  case (EFString parts)
  show ?case by (rule fittingI) (use EFString in auto)
next
  case (Block ims ss e)
  then show ?case by (auto simp: block_children_def split: option.splits)
next
  case (MatchArm pat g b)
  then show ?case by (auto simp: option_list_def split: option.splits)
qed (simp_all add: part_children_def, (rule fittingI, force)+)

end
