(* ===== verification/Mir_Item_Safe.thy ===== *)
theory Mir_Item_Safe
  imports Mir_Expr_Safe
begin

text \<open>
  What the lowering of items and scripts guarantees: the blocks of every item are closed under jumps and end in
  a terminator, when the matches are covered; the lowering only panics where it reads a table of the type
  checker, and it always returns.
\<close>

section \<open>Closed blocks\<close>

text \<open>Blocks with labels of their own that all end; with \<open>c\<close>, the targets of their jumps exist.\<close>

definition closed_blocks :: "bool \<Rightarrow> mir_block list \<Rightarrow> bool" where
  "closed_blocks c bs \<longleftrightarrow> bs \<noteq> [] \<and> distinct (map mb_label bs) \<and> (\<forall>b \<in> set bs. ended_block b) \<and>
     (c \<longrightarrow> block_targets bs \<subseteq> mb_label ` set bs)"

lemma closed_blocks_inv:
  assumes "lower_inv c {} U Xs st" and "ended st"
  shows "closed_blocks c (lw_blocks st)"
  using assms butlast_last_ended [of "lw_blocks st"]
  by (auto simp: closed_blocks_def lower_inv_def blocks_ok_def ended_def lab_def)

lemma ended_term_index: "ended_block b \<Longrightarrow> term_index b \<noteq> None"
  by (auto simp: ended_block_def term_index_def position_None)

lemma block_at_Some: "l \<in> mb_label ` set bs \<Longrightarrow> \<exists>b. block_at bs l = Some b \<and> b \<in> set bs"
  unfolding block_at_def by (induction bs) auto

lemma block_at_in: "block_at bs l = Some b \<Longrightarrow> b \<in> set bs"
  unfolding block_at_def by (auto simp: find_Some_iff)

lemma closed_well_formed:
  assumes "closed_blocks True bs"
  shows "mir_well_formed bs"
  unfolding mir_well_formed_def
proof (intro allI impI)
  fix l assume "control bs l 0"
  then have "l \<in> mb_label ` set bs"
  proof (induction l "0 :: nat" rule: control.induct)
    case (control_jump l i b l')
    then have "b \<in> set bs" "mb_instructions b ! i \<in> set (mb_instructions b)" by (auto dest: block_at_in)
    with control_jump have "l' \<in> block_targets bs" unfolding block_targets_def by blast
    with assms show ?case by (auto simp: closed_blocks_def)
  qed auto
  then obtain b where b: "block_at bs l = Some b" "b \<in> set bs" using block_at_Some by blast
  with assms have "term_index b \<noteq> None" by (intro ended_term_index) (simp add: closed_blocks_def)
  with b show "\<exists>b. block_at bs l = Some b \<and> term_index b \<noteq> None" by blast
qed

section \<open>Items\<close>

definition new_lowerer :: "lowerer \<Rightarrow> bool" where
  "new_lowerer st \<longleftrightarrow> lw_blocks st = [] \<and> lw_stack_slots st = []"

lemma run_begin:
  assumes "new_lowerer st" and "\<And>st'. lower_inv c {} {} [] st' \<Longrightarrow> Q () st'"
  shows "run f (fresh_label i) (\<lambda>l. run f (new_block l) Q) st"
proof -
  consider "fresh_label i st = LowerPanic Ice"
    | s x where "fresh_label i st = Lowered (nlab st) (st\<lparr>lw_labels := s\<rparr>)" "labels s = labels (lw_labels st) @ [x]"
    using label_step_fresh [of i] unfolding label_step_def by blast
  then show ?thesis
  proof cases
    case (2 s x)
    let ?st = "st\<lparr>lw_labels := s, lw_blocks := [\<lparr>mb_label = nlab st, mb_instructions = []\<rparr>]\<rparr>"
    have "lower_inv c {} {} [] ?st"
      using assms(1) 2(2)
      by (auto simp: new_lowerer_def lower_inv_def blocks_ok_def slots_ok_def lab_def nlab_def block_targets_def in_slots_def)
    then have "Q () ?st" by (rule assms(2))
    with 2(1) assms(1) show ?thesis by (simp add: run_def new_block_def new_lowerer_def)
  qed (simp add: run_def)
qed

lemma run_collect_inv:
  assumes "\<And>x st Q. x \<in> set xs \<Longrightarrow> lower_inv c P U Xs st \<Longrightarrow> (\<And>y st'. lower_inv c P U Xs st' \<Longrightarrow> Q y st') \<Longrightarrow> run f (g x) Q st"
    and "lower_inv c P U Xs st" and "\<And>ys st'. lower_inv c P U Xs st' \<Longrightarrow> Q ys st'"
  shows "run f (collect g xs) Q st"
  using assms
proof (induction xs arbitrary: st Q)
  case (Cons x xs)
  show ?case
    unfolding collect.simps run_andthen run_give
    by (rule Cons.prems(1) [OF _ Cons.prems(2)], simp, rule Cons.IH) (use Cons.prems in auto)
qed simp

lemma run_finish_item:
  assumes "lower_inv c {} U Xs st" and "ended st"
  shows "run f (finish_item en i s k) (\<lambda>item _. closed_blocks c (mi_blocks item)) st"
  unfolding finish_item_def run_andthen run_give run_the_lowerer
  by (rule run_table, rule run_expect) (use closed_blocks_inv [OF assms] in simp)

lemma run_function_like:
  assumes "new_lowerer st" and "set (block_children (node body)) \<subseteq> lowerable c f n en"
  shows "run f (function_like n en i ps rt body) (\<lambda>item _. closed_blocks c (mi_blocks item)) st"
  unfolding function_like_def run_andthen emit_return_def
proof (rule run_table, rule run_begin [OF assms(1)], rule run_collect_inv, unfold run_andthen run_give,
    rule run_type_of, assumption, rule run_table, assumption, assumption, rule run_push_slot, assumption,
    rule run_collect_inv, unfold add_parameter_def run_andthen run_give, rule run_convert_ty, assumption,
    rule run_live_named, assumption, simp, assumption, assumption, rule lower_expr.run_block [OF assms(2)], assumption,
    rule run_convert_ty, assumption, rule lower_expr.run_to_var_moved, rule run_close_last, assumption, rule run_emit,
    assumption, simp, rule run_finish_item)
qed auto

lemma run_lower_constant:
  assumes "new_lowerer st" and "e \<in> lowerable c f n en"
  shows "run f (lower_constant n en i e) (\<lambda>item _. closed_blocks c (mi_blocks item)) st"
  unfolding lower_constant_def run_andthen emit_return_def
  by (rule run_table, rule run_begin [OF assms(1)], rule run_push_slot, assumption, rule run_push_slot, assumption,
    rule run_keeps [OF keeps_lower_expr [OF assms(2)]], assumption, rule run_type_of, assumption, rule run_convert_ty,
    assumption, rule run_to_var, assumption, simp, rule run_remove, assumption, simp, rule run_close_slot, assumption,
    simp, rule run_emit, assumption, simp, rule run_table, rule run_finish_item [OF inv_drop]) auto

text \<open>The expressions of a declaration that are lowered.\<close>

fun decl_children :: "declaration_item \<Rightarrow> expr meta list" where
  "decl_children (DeFilterMap _ _ _ body) = block_children (node body)"
| "decl_children (DeFunction _ _ _ body) = block_children (node body)"
| "decl_children (DeTest _ body) = block_children (node body)"
| "decl_children (DeConst _ _ e) = [e]"
| "decl_children _ = []"

lemma run_lower_function:
  assumes "new_lowerer st" and "set (block_children (node body)) \<subseteq> lowerable c f n en"
  shows "run f (lower_function n en i ps body) (\<lambda>item _. closed_blocks c (mi_blocks item)) st"
  unfolding lower_function_def run_andthen
proof (rule run_table, rule run_expect)
  fix dec
  show "run f (case dec_kind dec of
       DkFunction (Some g) \<Rightarrow> function_like n en i ps (return_type (fd_signature g)) body
     | _ \<Rightarrow> lower_panic Ice) (\<lambda>item _. closed_blocks c (mi_blocks item)) st"
    using run_function_like [OF assms] by (cases "dec_kind dec") (auto split: option.splits)
qed

lemma run_lowering_of:
  assumes "lowering_of n en d = Some (i, k, m)" and "set (decl_children d) \<subseteq> lowerable c f n en" and "new_lowerer st"
  shows "run f m (\<lambda>item _. closed_blocks c (mi_blocks item)) st"
  using assms
  by (cases d)
    (auto simp: lower_filter_map_def lower_test_def intro!: run_table run_function_like run_lower_function run_lower_constant)

section \<open>Scripts\<close>

definition tree_ok :: "bool \<Rightarrow> ('a \<Rightarrow> bool) \<Rightarrow> 'a tree_result \<Rightarrow> bool" where
  "tree_ok f Q r = (case r of TreeOk x \<Rightarrow> Q x | TreePanic e \<Rightarrow> e = Ice | TreeFuel \<Rightarrow> \<not> f
   | TreeNoAnswer q \<Rightarrow> no_answer q)"

definition closed_items :: "bool \<Rightarrow> (resolved_name \<Rightarrow> mir_item option) \<Rightarrow> bool" where
  "closed_items c items \<longleftrightarrow> (\<forall>item \<in> ran items. closed_blocks c (mi_blocks item))"

lemma lowerer_new_new: "lowerer_new en i k sh = Some st \<Longrightarrow> new_lowerer st"
  by (auto simp: lowerer_new_def new_lowerer_def Let_def bind_eq_Some_conv split: prod.splits)

lemma closed_items_update: "closed_items c items \<Longrightarrow> closed_blocks c (mi_blocks x) \<Longrightarrow> closed_items c (items(n \<mapsto> x))"
  unfolding closed_items_def by (auto simp: ran_def split: if_splits)

lemma lower_declaration_ok:
  assumes "set (decl_children d) \<subseteq> lowerable c f n en" and "closed_items c (snd s)"
  shows "tree_ok f (\<lambda>r. closed_items c (snd r)) (lower_declaration n en d s)"
proof (cases "lowering_of n en d")
  case None
  with assms(2) show ?thesis by (simp add: lower_declaration_def tree_ok_def)
next
  case (Some x)
  obtain i k m where x: "x = (i, k, m)" by (cases x)
  have run: "run f m (\<lambda>item _. closed_blocks c (mi_blocks item)) st" if "lowerer_new en i k sh = Some st" for sh st
    using run_lowering_of [OF Some [unfolded x] assms(1) lowerer_new_new [OF that]] .
  show ?thesis
    using Some x run assms(2)
    by (fastforce simp: lower_declaration_def tree_ok_def run_def intro: closed_items_update split: option.splits lowered.splits)
qed

lemma lower_declarations_ok:
  assumes "\<And>d. d \<in> set ds \<Longrightarrow> set (decl_children d) \<subseteq> lowerable c f n en" and "closed_items c (snd s)"
  shows "tree_ok f (\<lambda>r. closed_items c (snd r)) (lower_declarations n en ds s)"
  using assms
proof (induction ds arbitrary: s)
  case Nil
  then show ?case by (simp add: tree_ok_def)
next
  case (Cons d ds)
  have d: "tree_ok f (\<lambda>r. closed_items c (snd r)) (lower_declaration n en d s)"
    by (rule lower_declaration_ok) (use Cons.prems in auto)
  show ?case
  proof (cases "lower_declaration n en d s")
    case (TreeOk s')
    with d have "closed_items c (snd s')" by (simp add: tree_ok_def)
    then have "tree_ok f (\<lambda>r. closed_items c (snd r)) (lower_declarations n en ds s')"
      using Cons.prems(1) by (intro Cons.IH) auto
    with TreeOk show ?thesis by simp
  qed (use d in \<open>simp_all add: tree_ok_def\<close>)
qed

lemma take_items_ran: "set (take_items items xs) \<subseteq> ran items"
proof (induction xs arbitrary: items)
  case (Cons x xs)
  show ?case
  proof (cases "items x")
    case (Some item)
    have "ran (items(x := None)) \<subseteq> ran items" by (auto simp: ran_def)
    then have "set (take_items (items(x := None)) xs) \<subseteq> ran items" using Cons.IH by (rule subset_trans [rotated])
    with Some show ?thesis by (simp add: ranI)
  qed (use Cons.IH in simp)
qed simp

lemma lower_tree_ok:
  assumes "\<And>d. d \<in> set (concat modules) \<Longrightarrow> set (decl_children d) \<subseteq> lowerable c f n en"
  shows "tree_ok f (\<lambda>r. \<forall>item \<in> set (snd r). closed_blocks c (mi_blocks item)) (lower_tree n en modules order sh)"
proof -
  have "tree_ok f (\<lambda>r. closed_items c (snd r)) (lower_declarations n en (concat modules) (sh, Map.empty))"
    by (rule lower_declarations_ok) (use assms in \<open>auto simp: closed_items_def\<close>)
  moreover have "\<forall>item \<in> set (take_items items order). closed_blocks c (mi_blocks item)" if "closed_items c items" for items
    using that take_items_ran [of items order] unfolding closed_items_def by blast
  ultimately show ?thesis
    unfolding lower_tree_def tree_ok_def by (auto split: tree_result.splits)
qed

end
