(* ===== verification/Mir_Lowering.thy ===== *)
theory Mir_Lowering
  imports Mir_Item_Safe
begin

text \<open>
  The theorems on the lowering to the mid-level representation, with a sample script: an enum with two variants
  and a function that matches on it.
\<close>

section \<open>A sample\<close>

definition sample_enum :: rtype where
  "sample_enum = named ''E'' []"

definition sample_bool :: rtype where
  "sample_bool = named ''bool'' []"

definition sample_signature :: signature where
  "sample_signature = \<lparr>sig_types = [], parameter_types = [sample_enum, sample_bool], return_type = TUnit\<rparr>"

definition sample_decl :: "scope_ref \<Rightarrow> ident \<Rightarrow> declaration_kind \<Rightarrow> resolved_name \<times> decl" where
  "sample_decl s i k = (ResolvedName s i,
     \<lparr>dec_name = ResolvedName s i, dec_kind = k, dec_id = 0, dec_scope = None, dec_doc = ''''\<rparr>)"

definition sample_graph :: scope_graph where
  "sample_graph = \<lparr>sg_declarations = map_of
     [sample_decl 0 ''E'' (DkType (TsType (DEnum (TypeName (ResolvedName 0 ''E'') [])
        [\<lparr>ev_name = ''A'', ev_fields = []\<rparr>, \<lparr>ev_name = ''B'', ev_fields = []\<rparr>]))),
      sample_decl 0 ''bool'' (DkType (TsType (DPrimitive PBool))),
      sample_decl 0 ''f'' (DkFunction (Some \<lparr>fd_definition = FdRoto, fd_parameter_names = [''x'', ''c''],
        fd_signature = sample_signature\<rparr>))],
     sg_scopes = [\<lparr>sc_type = StRoot, sc_parent = None, sc_imports = Map.empty\<rparr>,
       \<lparr>sc_type = StFunction ''f'', sc_parent = Some 0, sc_imports = Map.empty\<rparr>]\<rparr>"

definition sample_path :: "ident \<Rightarrow> rtype \<Rightarrow> resolved_path" where
  "sample_path i t = RpValue \<lparr>pv_name = ResolvedName 1 i, pv_kind = VkLocal, pv_root_ty = t, pv_fields = []\<rparr>"

definition sample_tables :: type_tables where
  "sample_tables = \<lparr>tt_scope_graph = sample_graph,
     tt_expr_types = map_of ([(2, sample_enum), (3, sample_bool), (7, sample_enum), (9, sample_bool)] @
       map (\<lambda>i. (i, TUnit)) [4, 5, 11, 12, 13]),
     tt_resolved_names = map_of [(1, ResolvedName 0 ''f''), (2, ResolvedName 1 ''x''), (3, ResolvedName 1 ''c'')],
     tt_function_scopes = map_of [(1, 1)],
     tt_function_calls = Map.empty, tt_function_signatures = map_of [(1, sample_signature)],
     tt_path_kinds = map_of [(8, sample_path ''x'' sample_enum), (10, sample_path ''c'' sample_bool)],
     tt_diverges = map_of (map (\<lambda>i. (i, False)) [4, 11, 12, 13])\<rparr>"

definition sample_env :: lower_env where
  "sample_env = \<lparr>le_tables = sample_tables, le_types = [], le_vtables = [], le_list_id = 0, le_string_id = 1,
     le_prefix_id = 2, le_set_order = (\<lambda>_ xs. xs), le_map_order = (\<lambda>xs. xs), le_fuel = 5\<rparr>"

text \<open>The type checker has converted the enum already.\<close>

definition sample_info :: convert_state where
  "sample_info = \<lparr>cs_unionfind = \<lparr>uf_inner = []\<rparr>,
     cs_pool = \<lparr>pool_types = map snd well_known @ [MEnum [(''A'', []), (''B'', [])]]\<rparr>\<rparr>"

definition sample_shared :: shared where
  "sample_shared = (sample_info, \<lparr>labels = []\<rparr>)"

definition sample_var :: "name \<Rightarrow> meta_id \<Rightarrow> expr meta" where
  "sample_var n i = Meta (EPath (Meta (Path [Meta n 0]) (i + 1))) i"

definition sample_block :: "expr meta option \<Rightarrow> meta_id \<Rightarrow> block meta" where
  "sample_block e i = Meta (Block [] [] e) i"

text \<open>The arms \<open>_ if c -> {}\<close>, \<open>A -> {}\<close> and \<open>B -> {}\<close>.\<close>

definition guarded_arm :: match_arm where
  "guarded_arm = MatchArm (Meta Underscore 0) (Some (sample_var [99] 9)) (sample_block None 11)"

definition variant_arm :: "name \<Rightarrow> meta_id \<Rightarrow> match_arm" where
  "variant_arm v i = MatchArm (Meta (EnumVariantPattern (Meta v 0) None) 0) None (sample_block None i)"

definition sample_match :: "match_arm list \<Rightarrow> expr meta" where
  "sample_match arms = Meta (EMatch (Meta (sample_var [120] 7, arms) 0)) 5"

definition sample_script :: "match_arm list \<Rightarrow> declaration_item" where
  "sample_script arms = DeFunction (Meta [102] 1) (Meta [(Meta [120] 2, Meta TeUnit 0), (Meta [99] 3, Meta TeUnit 0)] 0)
     None (sample_block (Some (sample_match arms)) 4)"

section \<open>Evaluation of the sample\<close>

text \<open>A definition is unfolded where its argument is known: binds and matches are evaluated from the outside in.\<close>

lemmas lower_expr_numeral = lower_expr.simps(2) [of "pred_numeral k" for k, folded numeral_eq_Suc]
  lower_expr.simps(2) [of 0, folded One_nat_def]

lemmas convert_numeral = convert.simps(2) [of "pred_numeral k" for k, folded numeral_eq_Suc]
  convert.simps(2) [of 0, folded One_nat_def]

lemma scope_idents_cases:
  "scope_idents g None = Some []"
  "scope_idents g (Some s) = (case index (sg_scopes g) s of
     None \<Rightarrow> None
   | Some sc \<Rightarrow>
       if sc_type sc = StRoot then Some []
       else Option.bind (show_scope_type g (sc_type sc)) (\<lambda>i.
            Option.bind (scope_idents g (sc_parent sc)) (\<lambda>xs. Some (i # xs))))"
  by (simp_all add: scope_idents.simps [of g None] scope_idents.simps [of g "Some s"])

lemmas build_eval = andthen_def give_def lower_panic_def expect_def the_lowerer_def set_lowerer_def
  next_label_def wrap_label_def fresh_label_def new_block_def current_label_def emit_def emit_assign_def
  emit_return_def emit_jump_def emit_switch_def emit_drop_def emit_drops_def push_slot_def
  pop_slot_def add_slot_def add_var_def add_live_variable_def remove_live_variable_def undropped_tmp_def tmp_def
  do_assign_def assign_to_var_def close_slot_def type_ref_def pool_type_def table_def return_ty_def explicit_var_def

lemmas label_eval = label_next_def label_get_def push_label_def new_label_def wrap_internal_def index_def
  usize_def usize_bound_def

lemmas expr_eval = lower_expr_numeral expr_step_def path_def path_value_def lower_block_def stmt_def unit_value_def

lemmas match_eval = match_expr_def branches_of_def branch_of_def discriminants_def case_label_def arm_label_def
  pattern_fields_def bind_fields_def match_case_def readd_fields_def match_arm_block_def branches_for_def
  default_branches_def discriminant_case_def

lemmas item_eval = lower_tree_def lower_declaration_def lowerer_new_def lower_function_def function_like_def
  add_parameter_def finish_item_def

lemmas sample_eval = sample_script_def sample_match_def variant_arm_def guarded_arm_def sample_block_def sample_var_def


lemma sample_types:
  "convert_type 5 sample_tables sample_info sample_enum = Some (sample_info, 14)"
  "convert_type 5 sample_tables sample_info sample_bool = Some (sample_info, 2)"
  "convert_type 5 sample_tables sample_info TUnit = Some (sample_info, 0)"
  by (simp_all add: convert_type_def convert_numeral resolve_type_def sample_enum_def sample_bool_def named_def
    resolve_type_name_def get_declaration_def sample_tables_def sample_graph_def sample_decl_def convert_named_def
    variant_substitute_many_def convert_intern_def pool_intern_def sample_info_def well_known_def cong: weak_bind)

lemma sample_convert:
  "lw_info st = sample_info \<Longrightarrow> convert_ty sample_env sample_enum st = Lowered 14 st"
  "lw_info st = sample_info \<Longrightarrow> convert_ty sample_env sample_bool st = Lowered 2 st"
  "lw_info st = sample_info \<Longrightarrow> convert_ty sample_env TUnit st = Lowered 0 st"
  by (simp_all add: convert_ty_def on_info_def sample_env_def sample_types)

lemma sample_type_of:
  "lw_info st = sample_info \<Longrightarrow> type_of sample_env i st = (case tt_expr_types sample_tables i of
     Some ty \<Rightarrow> Lowered ty st
   | None \<Rightarrow> LowerNoAnswer (Unanswered sample_tables 5 sample_info (AskType i)))"
proof -
  have "var_index ty = None" if "tt_expr_types sample_tables i = Some ty" for ty
    using that by (auto simp: sample_tables_def sample_enum_def sample_bool_def named_def split: if_splits)
  then show "lw_info st = sample_info \<Longrightarrow> ?thesis"
    by (auto simp: type_of_def on_info_def type_of_id_def resolve_type_def sample_env_def split: option.splits)
qed

lemma sample_lookups:
  "le_tables sample_env = sample_tables" "le_fuel sample_env = 5" "le_set_order sample_env p xs = xs" "le_map_order sample_env ys = ys"
  "tt_expr_types sample_tables 2 = Some sample_enum" "tt_expr_types sample_tables 3 = Some sample_bool"
  "tt_expr_types sample_tables 4 = Some TUnit" "tt_expr_types sample_tables 5 = Some TUnit"
  "tt_expr_types sample_tables 7 = Some sample_enum" "tt_expr_types sample_tables 9 = Some sample_bool"
  "tt_expr_types sample_tables 11 = Some TUnit" "tt_expr_types sample_tables 12 = Some TUnit"
  "tt_expr_types sample_tables 13 = Some TUnit"
  "tt_resolved_names sample_tables 1 = Some (ResolvedName 0 ''f'')"
  "tt_resolved_names sample_tables 2 = Some (ResolvedName 1 ''x'')"
  "tt_resolved_names sample_tables 3 = Some (ResolvedName 1 ''c'')"
  "tt_function_scopes sample_tables 1 = Some 1"
  "tt_function_signatures sample_tables 1 = Some sample_signature"
  "tt_path_kinds sample_tables 8 = Some (sample_path ''x'' sample_enum)"
  "tt_path_kinds sample_tables 10 = Some (sample_path ''c'' sample_bool)"
  "tt_diverges sample_tables 4 = Some False" "tt_diverges sample_tables 11 = Some False"
  "tt_diverges sample_tables 12 = Some False" "tt_diverges sample_tables 13 = Some False"
  "tt_scope_graph sample_tables = sample_graph"
  "pool_get (cs_pool sample_info) 14 = Some (MEnum [(''A'', []), (''B'', [])])"
  "full_name sample_tables (ResolvedName 0 ''f'') = Some ''.f''"
  by (simp_all add: sample_env_def sample_tables_def pool_get_def sample_info_def well_known_def index_def full_name_def
    print_scope_def scope_idents_cases sample_graph_def)

lemma sample_function:
  "get_declaration sample_graph (ResolvedName 0 ''f'') =
     Some \<lparr>dec_name = ResolvedName 0 ''f'', dec_kind = DkFunction (Some \<lparr>fd_definition = FdRoto,
       fd_parameter_names = [''x'', ''c''], fd_signature = sample_signature\<rparr>), dec_id = 0, dec_scope = None, dec_doc = ''''\<rparr>"
  by (simp add: get_declaration_def sample_graph_def sample_decl_def)

lemma sample_idents: "ident_of [65] = ''A''" "ident_of [66] = ''B''"
  by code_simp+

lemmas sample_run = build_eval label_eval expr_eval match_eval item_eval sample_convert sample_types sample_type_of
  sample_lookups sample_function sample_idents sample_eval sample_signature_def sample_path_def sample_shared_def

text \<open>A match with an arm for each variant.\<close>

lemma sample_orders: "orders_ok sample_env"
  by (simp add: orders_ok_def sample_env_def)

lemma sample_lowered:
  "\<exists>sh m. lower_tree 4 sample_env [[sample_script [variant_arm [65] 12, variant_arm [66] 13]]] [ResolvedName 0 ''f''] sample_shared =
     TreeOk (sh, [m]) \<and> map mb_label (mi_blocks m) = [0, 4, 8, 5, 10, 6, 7, 3]"
  by (simp add: sample_run del: One_nat_def cong: weak_bind)

text \<open>A match of an underscore with a guard before them.\<close>

lemma guarded_lowered:
  "\<exists>sh m. lower_tree 4 sample_env [[sample_script [guarded_arm, variant_arm [65] 12, variant_arm [66] 13]]] [ResolvedName 0 ''f'']
     sample_shared = TreeOk (sh, [m]) \<and> process_item m = Some None"
  by (simp add: sample_run process_item_def dead_loop.simps process_label_def process_block_def state_add_def
    del: One_nat_def cong: weak_bind)

section \<open>The theorems\<close>

text \<open>
  C9. The lowering of a script never looks for a variable that is not in the current slot, for a slot when there is
  none, or for a block when there is none: whatever the syntax tree, it only panics or stops where a table of the type
  checker has no entry of the kind it needs or gives no answer.
\<close>

theorem lowering_never_loses_track:
  assumes "orders_ok en"
  shows "lower_tree n en modules order sh \<noteq> TreePanic (NotLive v) \<and>
    lower_tree n en modules order sh \<noteq> TreePanic NoSlot \<and> lower_tree n en modules order sh \<noteq> TreePanic NoBlock"
proof -
  have "tree_ok False (\<lambda>r. \<forall>item \<in> set (snd r). closed_blocks False (mi_blocks item)) (lower_tree n en modules order sh)"
    by (rule lower_tree_ok) (use assms in \<open>simp add: lowerable_def\<close>)
  then show ?thesis by (auto simp: tree_ok_def)
qed

theorem lowering_never_loses_track_witness:
  "lower_tree 4 sample_env [[sample_script [guarded_arm, variant_arm [65] 12]]] [ResolvedName 0 ''f''] sample_shared \<noteq> TreePanic NoSlot"
  using lowering_never_loses_track [OF sample_orders] by blast



lemma eliminate_closed:
  "\<forall>item \<in> set m. closed_blocks True (mi_blocks item) \<Longrightarrow>
     eliminate_dead_code m = Some (Some (map (\<lambda>item. item\<lparr>mi_blocks := live_blocks (mi_blocks item)\<rparr>) m))"
proof (induction m)
  case (Cons item m)
  then have c: "closed_blocks True (mi_blocks item)" by simp
  then have "process_item item = Some (Some (item\<lparr>mi_blocks := live_blocks (mi_blocks item)\<rparr>))"
    using process_item_result [of item] closed_well_formed [OF c] by (simp add: closed_blocks_def)
  with Cons show ?case by simp
qed simp

lemma covered_lowering:
  assumes "orders_ok en" and "\<forall>d \<in> set (concat modules). \<forall>e \<in> set (decl_children d). covered n e"
    and "lower_tree n en modules order sh = TreeOk (sh', m)"
  shows "lower_to_mir n en modules order sh =
      Some (TreeOk (sh', map (\<lambda>item. item\<lparr>mi_blocks := live_blocks (mi_blocks item)\<rparr>) m)) \<and>
    (\<forall>item \<in> set m. distinct (map mb_label (mi_blocks item)) \<and> mir_well_formed (mi_blocks item))"
proof -
  have "tree_ok False (\<lambda>r. \<forall>item \<in> set (snd r). closed_blocks True (mi_blocks item)) (lower_tree n en modules order sh)"
    by (rule lower_tree_ok) (use assms(1,2) in \<open>auto simp: lowerable_def\<close>)
  then have c: "\<forall>item \<in> set m. closed_blocks True (mi_blocks item)" using assms(3) by (simp add: tree_ok_def)
  with assms(3) eliminate_closed [OF c] closed_well_formed show ?thesis
    by (auto simp: lower_to_mir_def closed_blocks_def)
qed

text \<open>
  C4. When the matches of a script are covered, the blocks of its lowered items are closed under jumps and all end
  in a terminator, so the elimination of dead code does not panic: \<open>lower_to_mir\<close> returns the items with the
  blocks that control can reach.
\<close>

theorem covered_script_lowers:
  assumes "orders_ok en" and "\<forall>d \<in> set (concat modules). \<forall>e \<in> set (decl_children d). covered n e"
    and "lower_tree n en modules order sh = TreeOk (sh', m)"
  shows "lower_to_mir n en modules order sh =
      Some (TreeOk (sh', map (\<lambda>item. item\<lparr>mi_blocks := live_blocks (mi_blocks item)\<rparr>) m)) \<and>
    (\<forall>item \<in> set m. distinct (map mb_label (mi_blocks item)) \<and> mir_well_formed (mi_blocks item))"
  using assms by (rule covered_lowering)

theorem covered_script_lowers_witness:
  "\<exists>sh m. lower_to_mir 4 sample_env [[sample_script [variant_arm [65] 12, variant_arm [66] 13]]] [ResolvedName 0 ''f''] sample_shared =
     Some (TreeOk (sh, m)) \<and> m \<noteq> []"
proof -
  obtain sh m where l: "lower_tree 4 sample_env [[sample_script [variant_arm [65] 12, variant_arm [66] 13]]] [ResolvedName 0 ''f'']
      sample_shared = TreeOk (sh, [m])"
    using sample_lowered by blast
  have "\<forall>d \<in> set (concat [[sample_script [variant_arm [65] 12, variant_arm [66] 13]]]). \<forall>e \<in> set (decl_children d). covered 4 e"
    by (simp add: sample_script_def sample_block_def sample_match_def sample_var_def variant_arm_def block_children_def
        match_children_def match_covered_def arms_with_def arm_variant_def sample_idents eval_nat_numeral)
  from covered_script_lowers [OF sample_orders this l] show ?thesis by blast
qed

text \<open>
  In a match on an enum with two variants, an underscore with a guard comes first and an arm for every variant follows:
  the lowering accepts it, but its default case ends in a jump to a block that is never made, and the elimination
  of dead code panics.
\<close>

theorem guarded_underscore_panics:
  "lower_to_mir 4 sample_env [[sample_script [guarded_arm, variant_arm [65] 12, variant_arm [66] 13]]] [ResolvedName 0 ''f'']
     sample_shared = Some (TreePanic Ice)"
  using guarded_lowered by (auto simp: lower_to_mir_def)

end
