(* ===== verification/Type_Error.thy ===== *)
theory Type_Error
  imports Checked_Info Ast
begin

text \<open>
  The errors of the type checker (\<open>src/src/typechecker/error.rs\<close>) and how types are printed in them
  (\<open>src/src/typechecker/types.rs\<close>, \<open>src/src/typechecker/scope.rs\<close>).  A \<open>type_error\<close> is a call of one of the functions of
  \<open>error.rs\<close> with its arguments; \<open>report\<close> is the \<open>TypeError\<close> that the call builds.  Printing a type
  follows its variables and takes fuel, because a variable can be bound to a type that contains it.
  \<open>None\<close> is a panic or too little fuel.
\<close>

section \<open>Printing types\<close>

definition show_resolved_name :: "scope_graph \<Rightarrow> resolved_name \<Rightarrow> string option" where
  "show_resolved_name g n = do {
     s \<leftarrow> print_scope g (rn_scope n);
     Some (if s = [] then rn_ident n else s @ ''.'' @ rn_ident n) }"

definition show_type_name :: "(rtype \<Rightarrow> string option) \<Rightarrow> scope_graph \<Rightarrow> type_name \<Rightarrow> string option" where
  "show_type_name sh g tn = do {
     n \<leftarrow> show_resolved_name g (tn_name tn);
     args \<leftarrow> those (map sh (tn_arguments tn));
     Some (if args = [] then n else n @ ''['' @ join '', '' args @ '']'') }"

definition show_field :: "(rtype \<Rightarrow> string option) \<Rightarrow> ident meta \<times> rtype \<Rightarrow> string option" where
  "show_field sh f = map_option (\<lambda>t. node (fst f) @ '': '' @ t) (sh (snd f))"

definition show_resolved_type :: "(rtype \<Rightarrow> string option) \<Rightarrow> scope_graph \<Rightarrow> rtype \<Rightarrow> string option" where
  "show_resolved_type sh g t = (case t of
     TVar x \<Rightarrow> Some (''@'' @ show_nat x)
   | TExplicitVar s \<Rightarrow> Some s
   | TIntVar _ SignedYes \<Rightarrow> Some ''{signed integer}''
   | TIntVar _ SignedNo \<Rightarrow> Some ''{integer}''
   | TFloatVar _ \<Rightarrow> Some ''{float}''
   | TRecordVar _ fs \<Rightarrow>
       map_option (\<lambda>xs. ''{ '' @ join '', '' xs @ '' }'') (those (map (show_field sh) fs))
   | TRecord fs \<Rightarrow>
       map_option (\<lambda>xs. ''{ '' @ join '', '' xs @ '' }'') (those (map (show_field sh) fs))
   | TUnit \<Rightarrow> Some ''()''
   | TNever \<Rightarrow> Some ''!''
   | TFunction args ret \<Rightarrow> do {
       xs \<leftarrow> those (map sh args);
       r \<leftarrow> sh ret;
       Some (''fn('' @ join '', '' xs @ '') -> '' @ r) }
   | TName tn \<Rightarrow> show_type_name sh g tn)"

fun show_type :: "nat \<Rightarrow> scope_graph \<Rightarrow> union_find \<Rightarrow> rtype \<Rightarrow> string option" where
  "show_type 0 g uf t = None"
| "show_type (Suc n) g uf t = do {
     t' \<leftarrow> resolve_ref uf t;
     show_resolved_type (show_type n g uf) g t' }"

definition show_definition :: "(rtype \<Rightarrow> string option) \<Rightarrow> scope_graph \<Rightarrow> type_definition \<Rightarrow> string option" where
  "show_definition sh g d = (case d of
     DEnum tn _ \<Rightarrow> show_type_name sh g tn
   | DRecord tn _ \<Rightarrow> show_type_name sh g tn
   | DList tn \<Rightarrow> show_type_name sh g tn
   | DRuntime n _ \<Rightarrow> show_resolved_name g n
   | DPrimitive p \<Rightarrow> Some (show_primitive p))"

section \<open>Reports\<close>

datatype level = LvError | LvInfo

record error_label =
  el_level :: level
  el_id :: meta_id
  el_message :: string

definition label_error :: "string \<Rightarrow> meta_id \<Rightarrow> error_label" where
  "label_error msg i = \<lparr>el_level = LvError, el_id = i, el_message = msg\<rparr>"

definition label_info :: "string \<Rightarrow> meta_id \<Rightarrow> error_label" where
  "label_info msg i = \<lparr>el_level = LvInfo, el_id = i, el_message = msg\<rparr>"

record report =
  rp_description :: string
  rp_location :: meta_id
  rp_labels :: "error_label list"
  rp_notes :: "string list"

definition quoted :: "string \<Rightarrow> string" where
  "quoted s = CHR 0x60 # s @ [CHR 0x60]"

definition join_quoted :: "string list \<Rightarrow> string option" where
  "join_quoted xs = (case rev (map quoted xs) of
     [] \<Rightarrow> None
   | [final] \<Rightarrow> Some final
   | final # rest \<Rightarrow> Some (join '', '' (rev rest) @ '' and '' @ final))"

definition describe_declaration :: "decl \<Rightarrow> string" where
  "describe_declaration d = (case dec_kind d of
     DkValue VkLocal _ \<Rightarrow> ''variable''
   | DkValue VkConstant _ \<Rightarrow> ''constant''
   | DkValue (VkContext _) _ \<Rightarrow> ''context''
   | DkType _ \<Rightarrow> ''type''
   | DkFunction _ \<Rightarrow> ''function''
   | DkModule \<Rightarrow> ''module''
   | DkMethod _ \<Rightarrow> ''method''
   | DkEnum _ \<Rightarrow> ''enum''
   | DkTypeParam _ \<Rightarrow> ''type parameter'')"

definition describe_path :: "resolved_path \<Rightarrow> string \<times> ident" where
  "describe_path p = (case p of
     RpFunction n _ _ \<Rightarrow> (''function'', rn_ident n)
   | RpMethod _ n _ _ \<Rightarrow> (''method'', rn_ident n)
   | RpValue v \<Rightarrow>
       if pv_fields v = [] then (''value'', rn_ident (pv_name v)) else (''field'', fst (last (pv_fields v)))
   | RpStaticMethod n _ _ \<Rightarrow> (''static method'', rn_ident n)
   | RpEnumConstructor _ v \<Rightarrow> (''enum constructor'', ev_name v))"

section \<open>The errors\<close>

datatype type_error =
  ErrSimple string string meta_id
| ErrDuplicateFields ident "meta_id list"
| ErrFieldMismatch meta_id "meta_id list" "meta_id list" "ident list"
| ErrExpectedType "ident meta" decl
| ErrExpectedModule "ident meta" decl
| ErrRecursiveConstant ident meta_id
| ErrConstantUsesContext ident meta_id
| ErrDeclaredTwice "ident meta" meta_id
| ErrNotDefined "ident meta"
| ErrArgumentCount string "ident meta" nat nat
| ErrMatchOnlyEnum rtype meta_id
| ErrVariantHasNoFields "ident meta" rtype
| ErrPatternNeedsArguments "ident meta" rtype
| ErrNoSuchVariant "ident meta" rtype
| ErrMismatchedTypes rtype rtype meta_id "meta_id option"
| ErrNonexhaustive meta_id "ident list"
| ErrUnreachable meta_id
| ErrCannotDiverge string meta_id
| ErrExpectedValue "ident meta" decl
| ErrExpectedNumeric meta_id rtype
| ErrExpectedInt meta_id rtype
| ErrExpectedValuePath "ident meta" resolved_path
| ErrExpectedFunction "ident meta" resolved_path
| ErrNoField rtype "ident meta"
| ErrNoMethod rtype "ident meta"
| ErrNoFieldOrMethod rtype "ident meta"
| ErrCannotAssign meta_id
| ErrWrongSignature ident rtype meta_id

definition error_simple :: "string \<Rightarrow> string \<Rightarrow> meta_id \<Rightarrow> report" where
  "error_simple description msg span =
     \<lparr>rp_description = description, rp_location = span, rp_labels = [label_error msg span], rp_notes = []\<rparr>"

definition error_duplicate_fields :: "ident \<Rightarrow> meta_id list \<Rightarrow> report option" where
  "error_duplicate_fields field_name locations = do {
     l \<leftarrow> index locations 0;
     Some \<lparr>rp_description = ''field '' @ quoted field_name @ '' appears multiple times in the same record'',
       rp_location = l,
       rp_labels = map (label_error (''field '' @ quoted field_name @ '' declared here'')) locations,
       rp_notes = []\<rparr> }"

definition error_field_mismatch ::
  "meta_id \<Rightarrow> meta_id list \<Rightarrow> meta_id list \<Rightarrow> ident list \<Rightarrow> report option" where
  "error_field_mismatch span invalid duplicate missing = do {
     description \<leftarrow>
       (case missing of
          [] \<Rightarrow> Some ''field mismatch''
        | [m] \<Rightarrow> Some (''field: mismatch: missing field '' @ quoted m @ '' in record literal'')
        | _ \<Rightarrow> do {
            fs \<leftarrow> join_quoted missing;
            Some (''field mismatch: missing fields '' @ fs @ '' in record literal'') });
     Some \<lparr>rp_description = description, rp_location = span,
       rp_labels = label_error description span # map (label_info ''invalid field'') invalid
         @ map (label_info ''duplicate field'') duplicate,
       rp_notes = []\<rparr> }"

definition error_expected_type :: "ident meta \<Rightarrow> decl \<Rightarrow> report" where
  "error_expected_type i stub =
     \<lparr>rp_description = ''expected type, but found '' @ describe_declaration stub @ '' '' @ quoted (node i),
      rp_location = meta_id i, rp_labels = [label_error ''expected type'' (meta_id i)], rp_notes = []\<rparr>"

definition error_expected_module :: "ident meta \<Rightarrow> decl \<Rightarrow> report" where
  "error_expected_module i d = (let kind = describe_declaration d in
     \<lparr>rp_description = ''expected a module, but found '' @ kind @ '' '' @ quoted (node i),
      rp_location = meta_id i,
      rp_labels = [label_error (quoted (node i) @ '' is a '' @ kind @ '', not a module'') (meta_id i)],
      rp_notes = []\<rparr>)"

definition error_recursive_constant :: "ident \<Rightarrow> meta_id \<Rightarrow> report" where
  "error_recursive_constant i span =
     \<lparr>rp_description = ''constant '' @ quoted i @ '' is recursively defined.'', rp_location = span,
      rp_labels = [label_error ''references itself'' span], rp_notes = []\<rparr>"

definition error_constant_uses_context :: "ident \<Rightarrow> meta_id \<Rightarrow> report" where
  "error_constant_uses_context i span =
     \<lparr>rp_description = ''constant '' @ quoted i @ '' depends on a context variable.'', rp_location = span,
      rp_labels = [label_error ''depends on a context variable'' span], rp_notes = []\<rparr>"

definition error_declared_twice :: "ident meta \<Rightarrow> meta_id \<Rightarrow> report" where
  "error_declared_twice new old =
     (let (item_type, name) =
        (if take 5 (node new) = ''test#'' then (''test'', drop 5 (node new)) else (''item'', node new)) in
     \<lparr>rp_description = item_type @ '' '' @ quoted name @ '' is declared multiple times'',
      rp_location = meta_id new,
      rp_labels = [label_error (quoted name @ '' redefined here'') (meta_id new),
        label_info (quoted name @ '' previously declared here'') old],
      rp_notes = []\<rparr>)"

definition error_not_defined :: "ident meta \<Rightarrow> report" where
  "error_not_defined i =
     \<lparr>rp_description = ''cannot find value '' @ quoted (node i) @ '' in this scope'', rp_location = meta_id i,
      rp_labels = [label_error ''not found in this scope'' (meta_id i)], rp_notes = []\<rparr>"

definition error_number_of_arguments_dont_match :: "string \<Rightarrow> ident meta \<Rightarrow> nat \<Rightarrow> nat \<Rightarrow> report" where
  "error_number_of_arguments_dont_match call_type method_name takes given =
     (let msg = ''takes '' @ show_nat takes @ '' arguments but '' @ show_nat given @ '' arguments were given'' in
     \<lparr>rp_description = call_type @ '' '' @ quoted (node method_name) @ '' '' @ msg,
      rp_location = meta_id method_name, rp_labels = [label_error msg (meta_id method_name)], rp_notes = []\<rparr>)"

definition error_can_only_match_on_enum :: "(rtype \<Rightarrow> string option) \<Rightarrow> rtype \<Rightarrow> meta_id \<Rightarrow> report option" where
  "error_can_only_match_on_enum sh ty span = do {
     t \<leftarrow> sh ty;
     Some \<lparr>rp_description = ''cannot match on the type '' @ quoted t
         @ '', because only matching on enums is supported.'',
       rp_location = span, rp_labels = [label_error (''cannot match on type '' @ quoted t) span],
       rp_notes = []\<rparr> }"

definition error_variant_does_not_have_fields ::
  "(rtype \<Rightarrow> string option) \<Rightarrow> ident meta \<Rightarrow> rtype \<Rightarrow> report option" where
  "error_variant_does_not_have_fields sh variant ty = do {
     t \<leftarrow> sh ty;
     Some \<lparr>rp_description = ''pattern has fields, but the variant '' @ quoted (node variant) @ '' of '' @ quoted t
         @ '' doesn't have one'',
       rp_location = meta_id variant, rp_labels = [label_error ''unexpected data field'' (meta_id variant)],
       rp_notes = []\<rparr> }"

definition error_need_arguments_on_pattern ::
  "(rtype \<Rightarrow> string option) \<Rightarrow> ident meta \<Rightarrow> rtype \<Rightarrow> report option" where
  "error_need_arguments_on_pattern sh variant ty = do {
     t \<leftarrow> sh ty;
     Some \<lparr>rp_description = ''pattern has no arguments, but variant '' @ quoted (node variant) @ '' of '' @ quoted t
         @ '' does have arguments'',
       rp_location = meta_id variant, rp_labels = [label_error ''missing arguments'' (meta_id variant)],
       rp_notes = []\<rparr> }"

definition error_variant_does_not_exist ::
  "(rtype \<Rightarrow> string option) \<Rightarrow> ident meta \<Rightarrow> rtype \<Rightarrow> report option" where
  "error_variant_does_not_exist sh variant ty = do {
     t \<leftarrow> sh ty;
     Some \<lparr>rp_description = ''the variant '' @ quoted (node variant) @ '' does not exist on '' @ quoted t,
       rp_location = meta_id variant,
       rp_labels = [label_error (''variant does not exist on '' @ quoted t) (meta_id variant)],
       rp_notes = []\<rparr> }"

definition error_mismatched_types ::
  "(rtype \<Rightarrow> string option) \<Rightarrow> rtype \<Rightarrow> rtype \<Rightarrow> meta_id \<Rightarrow> meta_id option \<Rightarrow> report option" where
  "error_mismatched_types sh expected got span cause = do {
     e \<leftarrow> sh expected;
     t \<leftarrow> sh got;
     Some \<lparr>rp_description = ''mismatched types'', rp_location = span,
       rp_labels = label_error (''expected '' @ quoted e @ '', found '' @ quoted t) span #
         (case cause of None \<Rightarrow> [] | Some c \<Rightarrow> [label_info (''expected because this is '' @ quoted e) c]),
       rp_notes = []\<rparr> }"

definition error_nonexhaustive_match :: "meta_id \<Rightarrow> ident list \<Rightarrow> report option" where
  "error_nonexhaustive_match span missing = do {
     m \<leftarrow> join_quoted missing;
     Some \<lparr>rp_description = ''match expression is not exhaustive, missing variants '' @ m, rp_location = span,
       rp_labels = [label_error (''missing variants '' @ m) span], rp_notes = []\<rparr> }"

definition error_unreachable_expression :: "meta_id \<Rightarrow> report" where
  "error_unreachable_expression i =
     \<lparr>rp_description = ''expression is unreachable'', rp_location = i,
      rp_labels = [label_error ''unreachable'' i], rp_notes = []\<rparr>"

definition error_cannot_diverge_here :: "string \<Rightarrow> meta_id \<Rightarrow> report" where
  "error_cannot_diverge_here divergence_type i =
     \<lparr>rp_description = ''cannot '' @ quoted divergence_type @ '' here'', rp_location = i,
      rp_labels = [label_error ''not allowed'' i], rp_notes = []\<rparr>"

definition error_expected_value :: "ident meta \<Rightarrow> decl \<Rightarrow> report" where
  "error_expected_value i d = (let kind = describe_declaration d; name = rn_ident (dec_name d) in
     \<lparr>rp_description = ''expected a value, but found '' @ kind @ '' '' @ quoted name,
      rp_location = meta_id i,
      rp_labels = [label_error ''expected a value'' (meta_id i),
        label_info (kind @ '' '' @ quoted name @ '' defined here'') (dec_id d)],
      rp_notes = []\<rparr>)"

definition error_expected_numeric_value :: "(rtype \<Rightarrow> string option) \<Rightarrow> meta_id \<Rightarrow> rtype \<Rightarrow> report option" where
  "error_expected_numeric_value sh i ty = do {
     t \<leftarrow> sh ty;
     Some \<lparr>rp_description = ''expected a numeric value, found type '' @ quoted t, rp_location = i,
       rp_labels = [label_error ''not a numeric value'' i], rp_notes = []\<rparr> }"

definition error_expected_int_value :: "(rtype \<Rightarrow> string option) \<Rightarrow> meta_id \<Rightarrow> rtype \<Rightarrow> report option" where
  "error_expected_int_value sh i ty = do {
     t \<leftarrow> sh ty;
     Some \<lparr>rp_description = ''expected an integer value, found type '' @ quoted t, rp_location = i,
       rp_labels = [label_error ''not an integer value'' i], rp_notes = []\<rparr> }"

text \<open>The code binds the pair of \<open>describe_path\<close> as \<open>(name, kind)\<close> here, so the words are exchanged.\<close>

definition error_expected_value_path :: "ident meta \<Rightarrow> resolved_path \<Rightarrow> report" where
  "error_expected_value_path i p = (let (name, kind) = describe_path p in
     \<lparr>rp_description = ''expected a value, but found '' @ kind @ '' '' @ quoted name,
      rp_location = meta_id i, rp_labels = [label_error ''expected a value'' (meta_id i)], rp_notes = []\<rparr>)"

definition error_expected_function :: "ident meta \<Rightarrow> resolved_path \<Rightarrow> report" where
  "error_expected_function i p = (let (kind, name) = describe_path p in
     \<lparr>rp_description = ''expected a function, but found '' @ kind @ '' '' @ quoted name,
      rp_location = meta_id i, rp_labels = [label_error ''expected a function'' (meta_id i)], rp_notes = []\<rparr>)"

definition error_no_field_on_type :: "(rtype \<Rightarrow> string option) \<Rightarrow> rtype \<Rightarrow> ident meta \<Rightarrow> report option" where
  "error_no_field_on_type sh ty i = do {
     t \<leftarrow> sh ty;
     Some (error_simple (''no field '' @ quoted (node i) @ '' on type '' @ quoted t)
       (''unknown field '' @ quoted (node i)) (meta_id i)) }"

definition error_no_method_on_type :: "(rtype \<Rightarrow> string option) \<Rightarrow> rtype \<Rightarrow> ident meta \<Rightarrow> report option" where
  "error_no_method_on_type sh ty i = do {
     t \<leftarrow> sh ty;
     Some (error_simple (''no method '' @ quoted (node i) @ '' on type '' @ quoted t)
       (''unknown method '' @ quoted (node i)) (meta_id i)) }"

definition error_no_field_or_method_on_type ::
  "(rtype \<Rightarrow> string option) \<Rightarrow> rtype \<Rightarrow> ident meta \<Rightarrow> report option" where
  "error_no_field_or_method_on_type sh ty i = do {
     t \<leftarrow> sh ty;
     Some (error_simple (''no field or method '' @ quoted (node i) @ '' on type '' @ quoted t)
       (''unknown field or method '' @ quoted (node i)) (meta_id i)) }"

definition error_cannot_assign_to_this_expression :: "meta_id \<Rightarrow> report" where
  "error_cannot_assign_to_this_expression i =
     (error_simple ''cannot assign to this expression'' ''cannot assign to this'' i)
       \<lparr>rp_notes := [''you can only assign to a variable or fields of a variable'']\<rparr>"

text \<open>The message of \<open>resolve_obligations\<close>.\<close>

definition error_wrong_signature ::
  "(rtype \<Rightarrow> string option) \<Rightarrow> ident \<Rightarrow> rtype \<Rightarrow> meta_id \<Rightarrow> report option" where
  "error_wrong_signature sh i ty span = do {
     t \<leftarrow> sh ty;
     Some (error_simple (''the '' @ quoted i @ '' method of type '' @ quoted t @ '' does not have the right signature'')
       (''does not have a valid '' @ quoted i @ '' method'') span) }"

fun report_of :: "(rtype \<Rightarrow> string option) \<Rightarrow> type_error \<Rightarrow> report option" where
  "report_of sh (ErrSimple d m i) = Some (error_simple d m i)"
| "report_of sh (ErrDuplicateFields f ls) = error_duplicate_fields f ls"
| "report_of sh (ErrFieldMismatch i bad dup mis) = error_field_mismatch i bad dup mis"
| "report_of sh (ErrExpectedType i d) = Some (error_expected_type i d)"
| "report_of sh (ErrExpectedModule i d) = Some (error_expected_module i d)"
| "report_of sh (ErrRecursiveConstant n i) = Some (error_recursive_constant n i)"
| "report_of sh (ErrConstantUsesContext n i) = Some (error_constant_uses_context n i)"
| "report_of sh (ErrDeclaredTwice i old) = Some (error_declared_twice i old)"
| "report_of sh (ErrNotDefined i) = Some (error_not_defined i)"
| "report_of sh (ErrArgumentCount k i m n) = Some (error_number_of_arguments_dont_match k i m n)"
| "report_of sh (ErrMatchOnlyEnum t i) = error_can_only_match_on_enum sh t i"
| "report_of sh (ErrVariantHasNoFields v t) = error_variant_does_not_have_fields sh v t"
| "report_of sh (ErrPatternNeedsArguments v t) = error_need_arguments_on_pattern sh v t"
| "report_of sh (ErrNoSuchVariant v t) = error_variant_does_not_exist sh v t"
| "report_of sh (ErrMismatchedTypes a b i c) = error_mismatched_types sh a b i c"
| "report_of sh (ErrNonexhaustive i vs) = error_nonexhaustive_match i vs"
| "report_of sh (ErrUnreachable i) = Some (error_unreachable_expression i)"
| "report_of sh (ErrCannotDiverge k i) = Some (error_cannot_diverge_here k i)"
| "report_of sh (ErrExpectedValue i d) = Some (error_expected_value i d)"
| "report_of sh (ErrExpectedNumeric i t) = error_expected_numeric_value sh i t"
| "report_of sh (ErrExpectedInt i t) = error_expected_int_value sh i t"
| "report_of sh (ErrExpectedValuePath i p) = Some (error_expected_value_path i p)"
| "report_of sh (ErrExpectedFunction i p) = Some (error_expected_function i p)"
| "report_of sh (ErrNoField t i) = error_no_field_on_type sh t i"
| "report_of sh (ErrNoMethod t i) = error_no_method_on_type sh t i"
| "report_of sh (ErrNoFieldOrMethod t i) = error_no_field_or_method_on_type sh t i"
| "report_of sh (ErrCannotAssign i) = Some (error_cannot_assign_to_this_expression i)"
| "report_of sh (ErrWrongSignature m t i) = error_wrong_signature sh m t i"

lemma join_quoted_None [simp]: "join_quoted xs = None \<longleftrightarrow> xs = []"
  by (auto simp: join_quoted_def split: list.splits)

text \<open>Every error that the checker can build with a non-empty list has a report when its types print.\<close>

lemma report_of_Some:
  assumes "\<And>t. sh t \<noteq> None"
    and "\<And>f. e \<noteq> ErrDuplicateFields f []" and "\<And>i. e \<noteq> ErrNonexhaustive i []"
  shows "report_of sh e \<noteq> None"
proof -
  from assms(1) have sh: "\<exists>s. sh t = Some s" for t by auto
  from sh have b: "Option.bind (sh t) f \<noteq> None" if "\<And>s. f s \<noteq> None" for t and f :: "string \<Rightarrow> report option"
    using that by (metis bind.bind_lunit)
  show ?thesis
  proof (cases e)
    case (ErrDuplicateFields f ls)
    with assms(2) show ?thesis by (auto simp: error_duplicate_fields_def index_def)
  next
    case (ErrFieldMismatch i bad dups miss)
    moreover have "miss = [] \<or> (\<exists>y. join_quoted miss = Some y)"
      using join_quoted_None [of miss] by (cases "join_quoted miss") auto
    ultimately show ?thesis
      by (auto simp: error_field_mismatch_def split: list.splits)
  next
    case (ErrNonexhaustive i vs)
    with assms(3) [of i] join_quoted_None [of vs] obtain y where "join_quoted vs = Some y"
      by (cases "join_quoted vs") auto
    with ErrNonexhaustive show ?thesis by (simp add: error_nonexhaustive_match_def)
  qed (use sh in \<open>auto simp: error_can_only_match_on_enum_def error_variant_does_not_have_fields_def
      error_need_arguments_on_pattern_def error_variant_does_not_exist_def error_mismatched_types_def
      error_expected_numeric_value_def error_expected_int_value_def error_no_field_on_type_def
      error_no_method_on_type_def error_no_field_or_method_on_type_def error_wrong_signature_def
      bind_eq_None_conv\<close>)
qed

end
