(* ===== verification/Check_Build.thy ===== *)
theory Check_Build
  imports Type_Error Value_Cycle "HOL-Library.List_Lexorder" "HOL-Library.Char_ord"
begin

text \<open>
  The state of the type checker and its helpers, from \<open>src/src/typechecker/mod.rs\<close>: fresh variables, unification
  with its error, and the declarations that also fill the tables.  A \<open>checker\<close> is the struct \<open>TypeChecker\<close>: the
  union-find, the tables and the scope graph of its \<open>type_info\<close>, the counters, the obligations and the graph
  of references.  \<open>ck_fuel\<close> bounds the depth of one unification and never changes.  The counters are unbounded
  here: each counts nodes of a syntax tree in memory.

  A step answers a value and the next state, an error with the state it leaves (some callers go on after
  an error), a panic, or \<open>Stuck\<close>: the end of a fuel, or a panic of an operation modelled with \<open>None\<close>.
  \<open>chain m f\<close> is \<open>let x = m?; f(x)\<close>.
\<close>

section \<open>An order of names\<close>

text \<open>
  The keys of a \<open>BTreeMap\<close> are ordered.  The order of identifiers is that of the interner of the crate
  \<open>symbol_table\<close>; here it is the order of their texts.  Only the order of iteration depends on it.
\<close>

instantiation resolved_name :: linorder
begin

definition less_eq_resolved_name :: "resolved_name \<Rightarrow> resolved_name \<Rightarrow> bool" where
  "less_eq_resolved_name a b \<longleftrightarrow> rn_scope a < rn_scope b \<or> rn_scope a = rn_scope b \<and> rn_ident a \<le> rn_ident b"

definition less_resolved_name :: "resolved_name \<Rightarrow> resolved_name \<Rightarrow> bool" where
  "less_resolved_name a b \<longleftrightarrow> rn_scope a < rn_scope b \<or> rn_scope a = rn_scope b \<and> rn_ident a < rn_ident b"

instance
  by standard
    (auto simp: less_eq_resolved_name_def less_resolved_name_def resolved_name.expand)

end

text \<open>The partial functions below the checker compute.\<close>

declare uf_find.simps [code] resolve_name.simps [code] parent_module.simps [code]

section \<open>State and outcome\<close>

datatype obligation = ResolveMethod meta_id rtype ident "rtype list" rtype

record checker =
  ck_tables :: type_tables
  ck_types :: "(resolved_name \<times> type_definition) list"
  ck_unionfind :: union_find
  ck_match :: nat
  ck_if_else :: nat
  ck_while :: nat
  ck_for :: nat
  ck_block :: nat
  ck_obligations :: "obligation list"
  ck_references :: "resolved_name ref_map"
  ck_fuel :: nat

datatype check_panic = PkIce | PkUnwrap | PkIndex | PkTodo | PkAssert | PkUnreachable

datatype 'a checked = Checked 'a checker | Rejected type_error checker | Panicked check_panic | Stuck

type_synonym 'a check = "checker \<Rightarrow> 'a checked"

definition pass :: "'a \<Rightarrow> 'a check" where
  "pass x st = Checked x st"

definition reject :: "type_error \<Rightarrow> 'a check" where
  "reject e st = Rejected e st"

definition crash :: "check_panic \<Rightarrow> 'a check" where
  "crash p st = Panicked p"

definition stuck :: "'a check" where
  "stuck st = Stuck"

definition chain :: "'a check \<Rightarrow> ('a \<Rightarrow> 'b check) \<Rightarrow> 'b check" where
  "chain m f st = (case m st of
     Checked x st' \<Rightarrow> f x st'
   | Rejected e st' \<Rightarrow> Rejected e st'
   | Panicked p \<Rightarrow> Panicked p
   | Stuck \<Rightarrow> Stuck)"

text \<open>The \<open>Result\<close> of a step as a value.\<close>

definition attempt :: "'a check \<Rightarrow> (type_error + 'a) check" where
  "attempt m st = (case m st of
     Checked x st' \<Rightarrow> Checked (Inr x) st'
   | Rejected e st' \<Rightarrow> Checked (Inl e) st'
   | Panicked p \<Rightarrow> Panicked p
   | Stuck \<Rightarrow> Stuck)"

definition need :: "check_panic \<Rightarrow> 'a option \<Rightarrow> 'a check" where
  "need p x = (case x of Some v \<Rightarrow> pass v | None \<Rightarrow> crash p)"

definition defined :: "'a option \<Rightarrow> 'a check" where
  "defined x = (case x of Some v \<Rightarrow> pass v | None \<Rightarrow> stuck)"

definition the_checker :: "checker check" where
  "the_checker st = Checked st st"

definition change :: "(checker \<Rightarrow> checker) \<Rightarrow> unit check" where
  "change f st = Checked () (f st)"

text \<open>\<open>for x in xs { f(x)?; }\<close>, \<open>xs.map(f).collect::<Result<_, _>>()\<close> and \<open>for x in xs { acc |= f(x)?; }\<close>.\<close>

fun each_of :: "('a \<Rightarrow> unit check) \<Rightarrow> 'a list \<Rightarrow> unit check" where
  "each_of f [] = pass ()"
| "each_of f (x # xs) = chain (f x) (\<lambda>_. each_of f xs)"

fun gather :: "('a \<Rightarrow> 'b check) \<Rightarrow> 'a list \<Rightarrow> 'b list check" where
  "gather f [] = pass []"
| "gather f (x # xs) = chain (f x) (\<lambda>y. chain (gather f xs) (\<lambda>ys. pass (y # ys)))"

fun any_of :: "('a \<Rightarrow> bool check) \<Rightarrow> bool \<Rightarrow> 'a list \<Rightarrow> bool check" where
  "any_of f acc [] = pass acc"
| "any_of f acc (x # xs) = chain (f x) (\<lambda>d. any_of f (acc \<or> d) xs)"

lemma gather_cong [fundef_cong]:
  "xs = ys \<Longrightarrow> (\<And>x. x \<in> set ys \<Longrightarrow> f x = g x) \<Longrightarrow> gather f xs = gather g ys"
  by (induction ys arbitrary: xs) auto

section \<open>The tables\<close>

definition change_tables :: "(type_tables \<Rightarrow> type_tables) \<Rightarrow> unit check" where
  "change_tables f = change (\<lambda>st. st\<lparr>ck_tables := f (ck_tables st)\<rparr>)"

definition set_expr_type :: "meta_id \<Rightarrow> rtype \<Rightarrow> unit check" where
  "set_expr_type i t = change_tables (\<lambda>tt. tt\<lparr>tt_expr_types := (tt_expr_types tt)(i \<mapsto> t)\<rparr>)"

definition set_resolved_name :: "meta_id \<Rightarrow> resolved_name \<Rightarrow> unit check" where
  "set_resolved_name i n = change_tables (\<lambda>tt. tt\<lparr>tt_resolved_names := (tt_resolved_names tt)(i \<mapsto> n)\<rparr>)"

definition set_function_scope :: "meta_id \<Rightarrow> scope_ref \<Rightarrow> unit check" where
  "set_function_scope i s = change_tables (\<lambda>tt. tt\<lparr>tt_function_scopes := (tt_function_scopes tt)(i \<mapsto> s)\<rparr>)"

definition set_function_call :: "meta_id \<Rightarrow> checked_function \<Rightarrow> unit check" where
  "set_function_call i f = change_tables (\<lambda>tt. tt\<lparr>tt_function_calls := (tt_function_calls tt)(i \<mapsto> f)\<rparr>)"

definition set_function_signature :: "meta_id \<Rightarrow> signature \<Rightarrow> unit check" where
  "set_function_signature i sg =
     change_tables (\<lambda>tt. tt\<lparr>tt_function_signatures := (tt_function_signatures tt)(i \<mapsto> sg)\<rparr>)"

definition set_path_kind :: "meta_id \<Rightarrow> resolved_path \<Rightarrow> unit check" where
  "set_path_kind i p = change_tables (\<lambda>tt. tt\<lparr>tt_path_kinds := (tt_path_kinds tt)(i \<mapsto> p)\<rparr>)"

definition set_diverges :: "meta_id \<Rightarrow> bool \<Rightarrow> unit check" where
  "set_diverges i b = change_tables (\<lambda>tt. tt\<lparr>tt_diverges := (tt_diverges tt)(i \<mapsto> b)\<rparr>)"

definition expr_type :: "meta_id \<Rightarrow> rtype check" where
  "expr_type i = chain the_checker (\<lambda>st. need PkIndex (tt_expr_types (ck_tables st) i))"

section \<open>Counters, obligations and references\<close>

definition next_match :: "nat check" where
  "next_match = chain the_checker (\<lambda>st. chain (change (\<lambda>st. st\<lparr>ck_match := ck_match st + 1\<rparr>)) (\<lambda>_. pass (ck_match st)))"

definition next_if_else :: "nat check" where
  "next_if_else = chain the_checker (\<lambda>st.
     chain (change (\<lambda>st. st\<lparr>ck_if_else := ck_if_else st + 1\<rparr>)) (\<lambda>_. pass (ck_if_else st)))"

definition next_while :: "nat check" where
  "next_while = chain the_checker (\<lambda>st. chain (change (\<lambda>st. st\<lparr>ck_while := ck_while st + 1\<rparr>)) (\<lambda>_. pass (ck_while st)))"

definition next_for :: "nat check" where
  "next_for = chain the_checker (\<lambda>st. chain (change (\<lambda>st. st\<lparr>ck_for := ck_for st + 1\<rparr>)) (\<lambda>_. pass (ck_for st)))"

definition next_block :: "nat check" where
  "next_block = chain the_checker (\<lambda>st. chain (change (\<lambda>st. st\<lparr>ck_block := ck_block st + 1\<rparr>)) (\<lambda>_. pass (ck_block st)))"

definition add_obligation :: "obligation \<Rightarrow> unit check" where
  "add_obligation ob = change (\<lambda>st. st\<lparr>ck_obligations := ck_obligations st @ [ob]\<rparr>)"

definition take_obligations :: "obligation list check" where
  "take_obligations = chain the_checker (\<lambda>st. chain (change (\<lambda>st. st\<lparr>ck_obligations := []\<rparr>)) (\<lambda>_. pass (ck_obligations st)))"

definition refer_node :: "resolved_name \<Rightarrow> unit check" where
  "refer_node v = change (\<lambda>st. st\<lparr>ck_references := add_node (ck_references st) v\<rparr>)"

definition refer_edge :: "resolved_name \<Rightarrow> resolved_name \<Rightarrow> unit check" where
  "refer_edge v w = change (\<lambda>st. st\<lparr>ck_references := add_edge (ck_references st) v w\<rparr>)"

section \<open>Type variables\<close>

definition fresh :: "(nat \<Rightarrow> rtype) \<Rightarrow> rtype check" where
  "fresh f st = (case uf_fresh (ck_unionfind st) f of (uf, t) \<Rightarrow> Checked t (st\<lparr>ck_unionfind := uf\<rparr>))"

definition fresh_var :: "rtype check" where
  "fresh_var = fresh TVar"

definition fresh_int :: "rtype check" where
  "fresh_int = fresh (\<lambda>n. TIntVar n SignedNo)"

definition fresh_float :: "rtype check" where
  "fresh_float = fresh TFloatVar"

definition fresh_record :: "fields \<Rightarrow> rtype check" where
  "fresh_record fs = fresh (\<lambda>x. TRecordVar x fs)"

text \<open>\<open>instantiate(|| self.fresh_var())\<close> of a signature and of a definition.\<close>

definition instantiate_signature :: "signature \<Rightarrow> signature check" where
  "instantiate_signature sg st =
     (case signature_instantiate (\<lambda>uf. uf_fresh uf TVar) (ck_unionfind st) sg of
        (uf, sg') \<Rightarrow> Checked sg' (st\<lparr>ck_unionfind := uf\<rparr>))"

definition instantiate_definition :: "type_definition \<Rightarrow> rtype check" where
  "instantiate_definition d st =
     (case def_instantiate (\<lambda>uf. uf_fresh uf TVar) (ck_unionfind st) d of
        (uf, t) \<Rightarrow> Checked t (st\<lparr>ck_unionfind := uf\<rparr>))"

definition resolve :: "rtype \<Rightarrow> rtype check" where
  "resolve t st = (case resolve_type (ck_unionfind st) t of
     None \<Rightarrow> Stuck
   | Some (uf, t') \<Rightarrow> Checked t' (st\<lparr>ck_unionfind := uf\<rparr>))"

definition type_env :: "checker \<Rightarrow> type_map" where
  "type_env st = resolve_type_name (tt_scope_graph (ck_tables st))"

definition definition_of :: "resolved_name \<Rightarrow> type_definition check" where
  "definition_of n = chain the_checker (\<lambda>st. need PkIce (type_env st n))"

definition is_numeric :: "rtype \<Rightarrow> bool check" where
  "is_numeric t st = (case is_numeric_type (type_env st) (ck_unionfind st) t of
     None \<Rightarrow> Stuck
   | Some (uf, b) \<Rightarrow> Checked b (st\<lparr>ck_unionfind := uf\<rparr>))"

definition is_int_type :: "rtype \<Rightarrow> bool check" where
  "is_int_type t st = (case get_int_type (type_env st) (ck_unionfind st) t of
     None \<Rightarrow> Stuck
   | Some (uf, x) \<Rightarrow> Checked (x \<noteq> None) (st\<lparr>ck_unionfind := uf\<rparr>))"

text \<open>No caller of \<open>unify\<close> passes a cause.\<close>

definition unify_at :: "rtype \<Rightarrow> rtype \<Rightarrow> meta_id \<Rightarrow> rtype check" where
  "unify_at a b span st = (case unify (ck_fuel st) (type_env st) (ck_unionfind st) a b of
     None \<Rightarrow> Stuck
   | Some (uf, Inr t) \<Rightarrow> Checked t (st\<lparr>ck_unionfind := uf\<rparr>)
   | Some (uf, Inl (MismatchedTypes x y)) \<Rightarrow>
       Rejected (ErrMismatchedTypes x y span None) (st\<lparr>ck_unionfind := uf\<rparr>))"

text \<open>The variable of a negated operand is marked: \<open>unionfind.set(i, IntVar(i, MustBeSigned::Yes))\<close>.\<close>

definition must_be_signed :: "nat \<Rightarrow> unit check" where
  "must_be_signed i st = (case uf_set (ck_unionfind st) i (TIntVar i SignedYes) of
     None \<Rightarrow> Panicked PkIndex
   | Some uf \<Rightarrow> Checked () (st\<lparr>ck_unionfind := uf\<rparr>))"

section \<open>Scopes and declarations\<close>

definition on_graph :: "(scope_graph \<Rightarrow> scope_graph \<times> 'a) \<Rightarrow> 'a check" where
  "on_graph f st = (case f (tt_scope_graph (ck_tables st)) of
     (g, x) \<Rightarrow> Checked x (st\<lparr>ck_tables := (ck_tables st)\<lparr>tt_scope_graph := g\<rparr>\<rparr>))"

definition the_graph :: "scope_graph check" where
  "the_graph = chain the_checker (\<lambda>st. pass (tt_scope_graph (ck_tables st)))"

definition wrap_scope :: "scope_ref \<Rightarrow> scope_type \<Rightarrow> scope_ref check" where
  "wrap_scope s ty = on_graph (\<lambda>g. graph_wrap g s ty)"

definition declaration_of :: "resolved_name \<Rightarrow> decl check" where
  "declaration_of n = chain the_graph (\<lambda>g. need PkIndex (get_declaration g n))"

definition find_name :: "scope_ref \<Rightarrow> ident \<Rightarrow> bool \<Rightarrow> decl option check" where
  "find_name s i recurse = chain the_graph (\<lambda>g. defined (resolve_name g s i recurse))"

definition get_scope_of :: "scope_ref \<Rightarrow> ident \<Rightarrow> scope_ref option check" where
  "get_scope_of s i = chain (find_name s i False) (\<lambda>d. pass (Option.bind d dec_scope))"

definition insert_at :: "(scope_graph \<Rightarrow> scope_graph \<times> (meta_id + 'a)) \<Rightarrow> ident meta \<Rightarrow> 'a check" where
  "insert_at f k = chain (on_graph f) (\<lambda>r. case r of
     Inl old \<Rightarrow> reject (ErrDeclaredTwice k old)
   | Inr x \<Rightarrow> pass x)"

definition declare_context :: "ident meta \<Rightarrow> rtype \<Rightarrow> nat \<Rightarrow> unit check" where
  "declare_context k ty offset = chain (on_graph (\<lambda>g. insert_context g k ty offset)) (\<lambda>r. case r of
     Inr name \<Rightarrow> chain (set_resolved_name (meta_id k) name) (\<lambda>_. set_expr_type (meta_id k) ty)
   | Inl _ \<Rightarrow> reject (ErrDeclaredTwice k 0))"

definition declare_function ::
  "scope_ref \<Rightarrow> ident meta \<Rightarrow> function_definition \<Rightarrow> ident list \<Rightarrow> string \<Rightarrow> signature \<Rightarrow> unit check" where
  "declare_function s k def params doc sg =
     chain (insert_at (\<lambda>g. insert_function g s k def params doc sg) k) (\<lambda>name.
     chain (set_resolved_name (meta_id k) name) (\<lambda>_. set_function_signature (meta_id k) sg))"

definition declare_var :: "scope_ref \<Rightarrow> ident meta \<Rightarrow> rtype \<Rightarrow> unit check" where
  "declare_var s k ty =
     chain (insert_at (\<lambda>g. insert_var g s k ty) k) (\<lambda>name.
     chain (set_resolved_name (meta_id k) name) (\<lambda>_. set_expr_type (meta_id k) ty))"

definition declare_const :: "scope_ref \<Rightarrow> ident meta \<Rightarrow> rtype \<Rightarrow> unit check" where
  "declare_const s k ty =
     chain (insert_at (\<lambda>g. insert_const g s k ty) k) (\<lambda>name.
     chain (set_resolved_name (meta_id k) name) (\<lambda>_. set_expr_type (meta_id k) ty))"

definition declare_module :: "scope_ref \<Rightarrow> ident meta \<Rightarrow> string \<Rightarrow> scope_ref \<Rightarrow> unit check" where
  "declare_module s k doc mod_scope = insert_at (\<lambda>g. insert_module g s k doc mod_scope) k"

end
