(* ===== verification/Check_Path.thy ===== *)
theory Check_Path
  imports Check_Build
begin

text \<open>
  Names in the type checker, from \<open>src/src/typechecker/expr.rs\<close> and \<open>src/src/typechecker/mod.rs\<close>: the module part of a
  path, paths in expressions and types, type expressions, fields and methods of a type, and imports.
  The iterator over the rest of a path is the list of identifiers that are left.
\<close>

section \<open>The module part of a path\<close>

definition too_many_supers :: "meta_id \<Rightarrow> type_error" where
  "too_many_supers i = ErrSimple ''could not resolve name: too many leading `super` keywords''
     ''too many leading `super` keywords'' i"

definition super_module :: "scope_ref \<Rightarrow> ident meta \<Rightarrow> (decl \<times> scope_ref) check" where
  "super_module s i =
     chain the_graph (\<lambda>g.
     chain (defined (parent_module g s)) (\<lambda>r. case r of
       None \<Rightarrow> reject (too_many_supers (meta_id i))
     | Some dec \<Rightarrow> chain (need PkUnreachable (dec_scope dec)) (\<lambda>s'. pass (dec, s'))))"

text \<open>Leading \<open>super\<close>s: either the path ends in one, or a scope and the next identifier are left.\<close>

fun leading_supers ::
  "scope_ref \<Rightarrow> ident meta \<Rightarrow> ident meta list \<Rightarrow> (ident meta \<times> decl + scope_ref \<times> ident meta \<times> ident meta list) check"
where
  "leading_supers s i [] =
     (if node i \<noteq> ''super'' then pass (Inr (s, i, []))
      else chain (super_module s i) (\<lambda>(dec, _). pass (Inl (i, dec))))"
| "leading_supers s i (j # rest) =
     (if node i \<noteq> ''super'' then pass (Inr (s, i, j # rest))
      else chain (super_module s i) (\<lambda>(_, s'). leading_supers s' j rest))"

definition path_step :: "scope_ref \<Rightarrow> ident meta \<Rightarrow> bool \<Rightarrow> decl check" where
  "path_step s i recurse =
     (if node i = ''super'' then reject (too_many_supers (meta_id i))
      else chain (find_name s (node i) recurse) (\<lambda>stub. case stub of
          None \<Rightarrow> reject (ErrNotDefined i)
        | Some dec \<Rightarrow> pass dec))"

fun module_steps ::
  "scope_ref \<Rightarrow> ident meta \<Rightarrow> bool \<Rightarrow> ident meta list \<Rightarrow> (ident meta \<times> decl \<times> ident meta list) check" where
  "module_steps s i recurse [] = chain (path_step s i recurse) (\<lambda>stub. pass (i, stub, []))"
| "module_steps s i recurse (j # rest) =
     chain (path_step s i recurse) (\<lambda>stub. case dec_scope stub of
       None \<Rightarrow> pass (i, stub, j # rest)
     | Some s' \<Rightarrow> module_steps s' j False rest)"

definition resolve_module_part_of_path ::
  "scope_ref \<Rightarrow> ident meta list \<Rightarrow> (ident meta \<times> decl \<times> ident meta list) check" where
  "resolve_module_part_of_path s idents = (case idents of
     [] \<Rightarrow> crash PkUnwrap
   | i # rest \<Rightarrow>
       chain (leading_supers s i rest) (\<lambda>r. case r of
         Inl (j, dec) \<Rightarrow> pass (j, dec, [])
       | Inr (s', j, rest') \<Rightarrow> module_steps s' j True rest'))"

definition path_names :: "path meta \<Rightarrow> ident meta list" where
  "path_names p = map ast_ident (path_idents (node p))"

section \<open>Type expressions\<close>

definition parameter_count :: "type_or_stub \<Rightarrow> nat" where
  "parameter_count t = (case t of TsType d \<Rightarrow> length (tn_arguments (def_type_name d)) | TsStub n \<Rightarrow> n)"

definition resolve_type_path ::
  "(type_expr meta \<Rightarrow> rtype check) \<Rightarrow> scope_ref \<Rightarrow> path meta \<Rightarrow> type_expr meta list \<Rightarrow> rtype check" where
  "resolve_type_path ev s p params =
     chain (resolve_module_part_of_path s (path_names p)) (\<lambda>(i, dec, _). case dec_kind dec of
       DkTypeParam x \<Rightarrow>
         if params \<noteq> [] then
           reject (ErrSimple (''expected 0 type parameters, got '' @ show_nat (length params))
             ''expected 0 type parameters'' (meta_id p))
         else pass (TExplicitVar x)
     | DkType ts \<Rightarrow>
         let num_params = parameter_count ts in
         if num_params \<noteq> length params then
           reject (ErrSimple (''expected '' @ show_nat num_params @ '' type parameters, got '' @ show_nat (length params))
             (''expected '' @ show_nat num_params @ '' type parameters'') (meta_id p))
         else chain (gather ev params) (\<lambda>args. pass (TName (TypeName (dec_name dec) args)))
     | _ \<Rightarrow> reject (ErrExpectedType i dec))"

text \<open>The first name that occurs twice in a record type is reported with the ids of all its occurrences.\<close>

fun first_duplicate :: "fields \<Rightarrow> fields \<Rightarrow> (ident \<times> meta_id list) option" where
  "first_duplicate all [] = None"
| "first_duplicate all ((i, _) # rest) =
     (let same_fields = map (\<lambda>f. meta_id (fst f)) (filter (\<lambda>f. node (fst f) = node i) all)
      in if length same_fields > 1 then Some (node i, same_fields) else first_duplicate all rest)"

definition distinct_fields :: "fields \<Rightarrow> fields check" where
  "distinct_fields fs = (case first_duplicate fs fs of
     Some (i, ids) \<Rightarrow> reject (ErrDuplicateFields i ids)
   | None \<Rightarrow> pass fs)"

definition evaluate_fields ::
  "(type_expr meta \<Rightarrow> rtype check) \<Rightarrow> (name meta \<times> type_expr meta) list \<Rightarrow> fields check" where
  "evaluate_fields ev fs =
     chain (gather (\<lambda>(i, ty). chain (ev ty) (\<lambda>t. pass (ast_ident i, t))) fs) distinct_fields"

lemma resolve_type_path_cong [fundef_cong]:
  assumes "s = s'" and "p = p'" and "ps = ps'" and "\<And>t. t \<in> set ps' \<Longrightarrow> ev t = ev' t"
  shows "resolve_type_path ev s p ps = resolve_type_path ev' s' p' ps'"
proof -
  have g: "gather ev ps' = gather ev' ps'" using assms(4) by (intro gather_cong) auto
  show ?thesis unfolding resolve_type_path_def assms(1-3) g ..
qed

lemma evaluate_fields_cong [fundef_cong]:
  assumes "fs = fs'" and "\<And>i t. (i, t) \<in> set fs' \<Longrightarrow> ev t = ev' t"
  shows "evaluate_fields ev fs = evaluate_fields ev' fs'"
proof -
  have "gather (\<lambda>(i, ty). chain (ev ty) (\<lambda>t. pass (ast_ident i, t))) fs =
      gather (\<lambda>(i, ty). chain (ev' ty) (\<lambda>t. pass (ast_ident i, t))) fs'"
    using assms by (intro gather_cong) auto
  then show ?thesis by (simp add: evaluate_fields_def)
qed

lemma size_meta_node: "size_meta f t = Suc (f (node t))"
  by (cases t) simp

lemma type_expr_size:
  fixes t :: "type_expr meta"
  shows "t \<in> set ts \<Longrightarrow> size (node t) < Suc (Suc (Suc (size_list (\<lambda>x. Suc (size (node x))) ts)))"
    and "(i, t) \<in> set fs \<Longrightarrow> size (node t) < Suc (Suc (size_list (size_prod (\<lambda>_. 0) (\<lambda>x. Suc (size (node x)))) fs))"
proof -
  show "t \<in> set ts \<Longrightarrow> size (node t) < Suc (Suc (Suc (size_list (\<lambda>x. Suc (size (node x))) ts)))"
    by (induction ts) auto
  show "(i, t) \<in> set fs \<Longrightarrow> size (node t) < Suc (Suc (size_list (size_prod (\<lambda>_. 0) (\<lambda>x. Suc (size (node x)))) fs))"
    by (induction fs) auto
qed

function evaluate_type_expr :: "scope_ref \<Rightarrow> type_expr \<Rightarrow> rtype check" where
  "evaluate_type_expr s (TePath p None) = resolve_type_path (\<lambda>t. evaluate_type_expr s (node t)) s p []"
| "evaluate_type_expr s (TePath p (Some params)) =
     resolve_type_path (\<lambda>t. evaluate_type_expr s (node t)) s p (node params)"
| "evaluate_type_expr s (TeRecord fs) =
     chain (evaluate_fields (\<lambda>t. evaluate_type_expr s (node t)) (node fs)) (\<lambda>fs. pass (TRecord fs))"
| "evaluate_type_expr s (TeOption inner) = chain (evaluate_type_expr s (node inner)) (\<lambda>t. pass (t_option t))"
| "evaluate_type_expr s TeNever = pass TNever"
| "evaluate_type_expr s TeUnit = pass TUnit"
  by pat_completeness auto

termination
  by (relation "measure (\<lambda>(s, t). size t)")
    (auto simp: size_meta_node [of "size_list f" for f] size_meta_node [of size "_ :: type_expr meta"]
      dest: type_expr_size)

definition evaluate_type :: "scope_ref \<Rightarrow> type_expr meta \<Rightarrow> rtype check" where
  "evaluate_type s t = evaluate_type_expr s (node t)"

definition evaluate_record_type :: "scope_ref \<Rightarrow> record_ty \<Rightarrow> fields check" where
  "evaluate_record_type s fs = evaluate_fields (evaluate_type s) (node fs)"

section \<open>Methods and fields of a type\<close>

definition get_method :: "rtype \<Rightarrow> ident meta \<Rightarrow> checked_function option check" where
  "get_method ty method =
     chain (resolve ty) (\<lambda>ty. case ty of
       TName tn \<Rightarrow>
         chain (declaration_of (tn_name tn)) (\<lambda>type_dec.
         chain (need PkUnwrap (dec_scope type_dec)) (\<lambda>type_scope.
         chain (find_name type_scope (node method) False) (\<lambda>d. case d of
           None \<Rightarrow> pass None
         | Some dec \<Rightarrow>
             (case dec_kind dec of
                DkMethod (Some func_dec) \<Rightarrow>
                  chain (instantiate_signature (fd_signature func_dec)) (\<lambda>sg.
                  pass (Some \<lparr>cf_signature = sg, cf_name = dec_name dec, cf_vars = [],
                    cf_definition = fd_definition func_dec\<rparr>))
              | _ \<Rightarrow> pass None))))
     | _ \<Rightarrow> pass None)"

definition get_function :: "resolved_name \<Rightarrow> checked_function option check" where
  "get_function name =
     chain (declaration_of name) (\<lambda>dec.
       let found = (\<lambda>func_dec.
         chain (instantiate_signature (fd_signature func_dec)) (\<lambda>sg.
         pass (Some \<lparr>cf_signature = sg, cf_name = name, cf_vars = [], cf_definition = fd_definition func_dec\<rparr>)))
       in case dec_kind dec of
            DkFunction (Some func_dec) \<Rightarrow> found func_dec
          | DkMethod (Some func_dec) \<Rightarrow> found func_dec
          | _ \<Rightarrow> pass None)"

definition get_function_in_type :: "resolved_name \<Rightarrow> ident \<Rightarrow> checked_function option check" where
  "get_function_in_type ty method =
     chain (declaration_of ty) (\<lambda>type_dec.
     chain (need PkUnwrap (dec_scope type_dec)) (\<lambda>type_scope.
     get_function (ResolvedName type_scope method)))"

definition find_field :: "ident \<Rightarrow> fields \<Rightarrow> rtype option" where
  "find_field x fs = map_option snd (find (\<lambda>f. node (fst f) = x) fs)"

definition access_field :: "rtype \<Rightarrow> ident meta \<Rightarrow> rtype check" where
  "access_field ty field =
     chain (resolve ty) (\<lambda>ty.
     chain (case ty of
         TRecord fs \<Rightarrow> pass (Some fs)
       | TRecordVar _ fs \<Rightarrow> pass (Some fs)
       | TName tn \<Rightarrow>
           chain (definition_of (tn_name tn)) (\<lambda>d. need PkAssert (record_fields d (tn_arguments tn)))
       | _ \<Rightarrow> pass None) (\<lambda>fs.
     case Option.bind fs (find_field (node field)) of
       Some t \<Rightarrow> pass t
     | None \<Rightarrow> reject (ErrNoField ty field)))"

section \<open>Paths in expressions\<close>

record check_context =
  cx_expected_type :: rtype
  cx_function_return_type :: "rtype option"
  cx_item :: resolved_name

definition with_type :: "check_context \<Rightarrow> rtype \<Rightarrow> check_context" where
  "with_type ctx t = ctx\<lparr>cx_expected_type := t\<rparr>"

text \<open>The fields behind a value, of which the last can be a method.\<close>

fun path_fields :: "Checked_Info.path_value \<Rightarrow> rtype \<Rightarrow> ident meta list \<Rightarrow> resolved_path check" where
  "path_fields v ty [] = pass (RpValue v)"
| "path_fields v ty (field # rest) =
     chain (get_method ty field) (\<lambda>m. case m of
       Some f \<Rightarrow>
         (case rest of
            x # _ \<Rightarrow> reject (ErrNoField ty x)
          | [] \<Rightarrow> pass (RpMethod v (cf_name f) (cf_definition f) (cf_signature f)))
     | None \<Rightarrow>
         chain (attempt (access_field ty field)) (\<lambda>r. case r of
           Inl _ \<Rightarrow> reject (ErrNoFieldOrMethod ty field)
         | Inr new_ty \<Rightarrow> path_fields (v\<lparr>pv_fields := pv_fields v @ [(node field, new_ty)]\<rparr>) new_ty rest))"

definition function_path :: "check_context \<Rightarrow> decl \<Rightarrow> function_declaration \<Rightarrow> ident meta list \<Rightarrow> resolved_path check" where
  "function_path ctx dec func_dec rest = (let sg = fd_signature func_dec in case rest of
     field # _ \<Rightarrow> reject (ErrNoField (TFunction (parameter_types sg) (return_type sg)) field)
   | [] \<Rightarrow>
       chain (instantiate_signature sg) (\<lambda>sg'.
       chain (refer_edge (cx_item ctx) (dec_name dec)) (\<lambda>_.
       pass (RpFunction (dec_name dec) (fd_definition func_dec) sg'))))"

definition resolve_expression_path :: "scope_ref \<Rightarrow> check_context \<Rightarrow> path meta \<Rightarrow> resolved_path check" where
  "resolve_expression_path s ctx p =
     chain (resolve_module_part_of_path s (path_names p)) (\<lambda>(i, dec, rest). case dec_kind dec of
       DkModule \<Rightarrow> reject (ErrExpectedValue i dec)
     | DkType _ \<Rightarrow> reject (ErrExpectedValue i dec)
     | DkTypeParam _ \<Rightarrow> reject (ErrExpectedValue i dec)
     | DkFunction (Some f) \<Rightarrow> function_path ctx dec f rest
     | DkMethod (Some f) \<Rightarrow> function_path ctx dec f rest
     | DkValue kind root_ty \<Rightarrow>
         chain (need PkUnwrap root_ty) (\<lambda>root_ty.
         chain (if kind = VkLocal then pass () else refer_edge (cx_item ctx) (dec_name dec)) (\<lambda>_.
         path_fields \<lparr>pv_name = dec_name dec, pv_kind = kind, pv_root_ty = root_ty, pv_fields = []\<rparr> root_ty rest))
     | DkEnum (Some (ty, variant)) \<Rightarrow>
         (case rest of
            _ # _ \<Rightarrow> crash PkTodo
          | [] \<Rightarrow> pass (RpEnumConstructor ty variant))
     | DkEnum None \<Rightarrow> crash PkIce
     | DkFunction None \<Rightarrow> crash PkIce
     | DkMethod None \<Rightarrow> crash PkIce)"

section \<open>Imports\<close>

definition import_path :: "scope_ref \<Rightarrow> path meta \<Rightarrow> unit check" where
  "import_path s p =
     chain (resolve_module_part_of_path s (path_names p)) (\<lambda>(i, dec, rest). case rest of
       _ # _ \<Rightarrow> reject (ErrExpectedModule i dec)
     | [] \<Rightarrow> chain the_graph (\<lambda>g. case insert_import g s (meta_id i) (dec_name dec) of
         None \<Rightarrow> crash PkIndex
       | Some (g', r) \<Rightarrow>
           chain (on_graph (\<lambda>_. (g', ()))) (\<lambda>_. case r of
             Inl old \<Rightarrow> reject (ErrDeclaredTwice i old)
           | Inr _ \<Rightarrow> pass ())))"

text \<open>\<open>paths.retain(|p| self.import(scope, p).is_err())\<close>\<close>

fun retain_failing :: "scope_ref \<Rightarrow> path meta list \<Rightarrow> path meta list check" where
  "retain_failing s [] = pass []"
| "retain_failing s (p # ps) =
     chain (attempt (import_path s p)) (\<lambda>r.
     chain (retain_failing s ps) (\<lambda>rest. pass (case r of Inl _ \<Rightarrow> p # rest | Inr _ \<Rightarrow> rest)))"

text \<open>The loop ends when nothing is left to import, or with an error; \<open>import_paths_ends\<close> has the fuel.\<close>

fun import_loop :: "nat \<Rightarrow> scope_ref \<Rightarrow> path meta list \<Rightarrow> unit check" where
  "import_loop 0 s ps = stuck"
| "import_loop (Suc n) s ps =
     chain (retain_failing s ps) (\<lambda>rest.
     if rest = [] then pass ()
     else if length rest = length ps then
       chain (each_of (import_path s) rest) (\<lambda>_. import_loop n s rest)
     else import_loop n s rest)"

definition import_paths :: "scope_ref \<Rightarrow> path meta list \<Rightarrow> unit check" where
  "import_paths s ps = import_loop (length ps + 1) s ps"

end
