(* ===== verification/Check_Expr.thy ===== *)
theory Check_Expr
  imports Check_Path
begin

text \<open>
  Type checking of expressions, blocks and statements, from \<open>src/src/typechecker/expr.rs\<close>.  Every case is a definition
  over the checker \<open>ex\<close> of sub-expressions; \<open>check_expr\<close> ties the knot and takes fuel, one unit for every level
  of nesting.  A step answers whether the expression always leaves the function early.
\<close>

type_synonym check_expression = "scope_ref \<Rightarrow> check_context \<Rightarrow> expr meta \<Rightarrow> bool check"

definition must_unify :: "rtype \<Rightarrow> rtype \<Rightarrow> meta_id \<Rightarrow> unit check" where
  "must_unify a b span = chain (unify_at a b span) (\<lambda>_. pass ())"

definition last_name :: "path meta \<Rightarrow> ident meta check" where
  "last_name p = need PkUnwrap (if path_names p = [] then None else Some (last (path_names p)))"

section \<open>Blocks and statements\<close>

fun check_stmt :: "check_expression \<Rightarrow> scope_ref \<Rightarrow> check_context \<Rightarrow> stmt \<Rightarrow> bool check" where
  "check_stmt ex s ctx (SLet i ty e) =
     chain (case ty of Some t \<Rightarrow> evaluate_type s t | None \<Rightarrow> fresh_var) (\<lambda>ty.
     chain (ex s (with_type ctx ty) e) (\<lambda>diverges.
     chain (resolve ty) (\<lambda>ty.
     chain (declare_var s (ast_ident i) ty) (\<lambda>_.
     pass diverges))))"
| "check_stmt ex s ctx (SExpr e) = chain fresh_var (\<lambda>var. ex s (with_type ctx var) e)"

definition record_block :: "meta_id \<Rightarrow> rtype \<Rightarrow> bool \<Rightarrow> bool check" where
  "record_block i ty diverged =
     chain (set_expr_type i ty) (\<lambda>_. chain (set_diverges i diverged) (\<lambda>_. pass diverged))"

definition check_block :: "check_expression \<Rightarrow> scope_ref \<Rightarrow> check_context \<Rightarrow> block meta \<Rightarrow> bool check" where
  "check_block ex s ctx b =
     chain (import_paths s (blk_imports (node b))) (\<lambda>_.
     chain (any_of (\<lambda>stmt. check_stmt ex s ctx (node stmt)) False (blk_stmts (node b))) (\<lambda>diverged.
     case blk_last (node b) of
       None \<Rightarrow>
         chain (if diverged then pass () else must_unify (cx_expected_type ctx) TUnit (meta_id b)) (\<lambda>_.
         record_block (meta_id b) TUnit diverged)
     | Some e \<Rightarrow>
         chain (ex s ctx e) (\<lambda>d.
         chain (expr_type (meta_id e)) (\<lambda>ty.
         record_block (meta_id b) ty (diverged \<or> d)))))"

section \<open>Literals, returns and assignments\<close>

definition literal_type :: "literal \<Rightarrow> rtype check" where
  "literal_type l = (case l of
     LitString _ \<Rightarrow> pass t_string
   | LitChar _ \<Rightarrow> pass (named ''char'' [])
   | LitAsn _ \<Rightarrow> pass (named ''Asn'' [])
   | LitIpAddress _ \<Rightarrow> pass (named ''IpAddr'' [])
   | LitBool _ \<Rightarrow> pass t_bool
   | LitInteger _ (Some ty) \<Rightarrow> pass (named (show_int_type ty) [])
   | LitInteger _ None \<Rightarrow> fresh_int
   | LitFloat _ (Some FloatF32) \<Rightarrow> pass (named ''f32'' [])
   | LitFloat _ (Some FloatF64) \<Rightarrow> pass (named ''f64'' [])
   | LitFloat _ None \<Rightarrow> fresh_float
   | LitUnit \<Rightarrow> pass TUnit)"

definition check_literal :: "check_context \<Rightarrow> literal meta \<Rightarrow> bool check" where
  "check_literal ctx l =
     chain (literal_type (node l)) (\<lambda>t.
     chain (must_unify (cx_expected_type ctx) t (meta_id l)) (\<lambda>_. pass False))"

text \<open>The type of the operand of \<open>return\<close>, \<open>accept\<close> and \<open>reject\<close>.\<close>

definition returned_type :: "return_kind \<Rightarrow> rtype \<Rightarrow> meta_id \<Rightarrow> rtype check" where
  "returned_type kind ret i = (case kind of
     RkReturn \<Rightarrow> pass ret
   | RkAccept \<Rightarrow>
       chain fresh_var (\<lambda>a. chain fresh_var (\<lambda>b.
       chain (must_unify ret (t_verdict a b) i) (\<lambda>_. resolve a)))
   | RkReject \<Rightarrow>
       chain fresh_var (\<lambda>a. chain fresh_var (\<lambda>r.
       chain (must_unify ret (t_verdict a r) i) (\<lambda>_. resolve r))))"

definition check_return ::
  "check_expression \<Rightarrow> scope_ref \<Rightarrow> check_context \<Rightarrow> meta_id \<Rightarrow> return_kind \<Rightarrow> expr meta option \<Rightarrow> bool check" where
  "check_return ex s ctx i kind e = (case cx_function_return_type ctx of
     None \<Rightarrow> reject (ErrCannotDiverge (return_kind_str kind) i)
   | Some ret \<Rightarrow>
       chain (must_unify (cx_expected_type ctx) TNever i) (\<lambda>_.
       chain (returned_type kind ret i) (\<lambda>expected.
       chain (case e of
           Some e \<Rightarrow> chain (ex s (with_type ctx expected) e) (\<lambda>_. pass ())
         | None \<Rightarrow> must_unify expected TUnit i) (\<lambda>_.
       pass True))))"

definition value_path :: "scope_ref \<Rightarrow> check_context \<Rightarrow> path meta \<Rightarrow> Checked_Info.path_value check" where
  "value_path s ctx p =
     chain (resolve_expression_path s ctx p) (\<lambda>resolved_path.
     chain (set_path_kind (meta_id p) resolved_path) (\<lambda>_. case resolved_path of
       RpValue v \<Rightarrow> pass v
     | _ \<Rightarrow> reject (ErrCannotAssign (meta_id p))))"

definition check_assign ::
  "check_expression \<Rightarrow> scope_ref \<Rightarrow> check_context \<Rightarrow> meta_id \<Rightarrow> path meta \<Rightarrow> expr meta \<Rightarrow> bool check" where
  "check_assign ex s ctx i p e =
     chain (must_unify (cx_expected_type ctx) TUnit i) (\<lambda>_.
     chain (value_path s ctx p) (\<lambda>v. ex s (with_type ctx (final_type v)) e))"

section \<open>Calls\<close>

definition check_arguments ::
  "check_expression \<Rightarrow> scope_ref \<Rightarrow> check_context \<Rightarrow> string \<Rightarrow> ident meta \<Rightarrow> rtype list \<Rightarrow> expr meta list \<Rightarrow> bool check" where
  "check_arguments ex s ctx call_type name params args =
     (if length args \<noteq> length params
      then reject (ErrArgumentCount call_type name (length params) (length args))
      else any_of (\<lambda>(arg, ty). ex s (with_type ctx ty) arg) False (zip args params))"

definition constructor_call ::
  "check_expression \<Rightarrow> scope_ref \<Rightarrow> check_context \<Rightarrow> meta_id \<Rightarrow> ident meta \<Rightarrow> type_definition \<Rightarrow> enum_variant
     \<Rightarrow> expr meta list \<Rightarrow> bool check" where
  "constructor_call ex s ctx i last_ident type_def variant args =
     chain (instantiate_definition type_def) (\<lambda>ty. case ty of
       TName tn \<Rightarrow>
         (let subs = zip (tn_arguments (def_type_name type_def)) (tn_arguments tn);
              variant' = variant_substitute_many variant subs in
          chain (check_arguments ex s ctx ''enum constructor'' last_ident (ev_fields variant') args) (\<lambda>diverges.
          chain (must_unify (cx_expected_type ctx) ty i) (\<lambda>_. pass diverges)))
     | _ \<Rightarrow> crash PkIce)"

text \<open>A method called on a value takes that value as its first argument.\<close>

definition call_parameters :: "resolved_path \<Rightarrow> signature \<Rightarrow> rtype list check" where
  "call_parameters resolved_path sg = (case resolved_path of
     RpMethod v _ _ _ \<Rightarrow>
       chain (need PkIndex (index (parameter_types sg) 0)) (\<lambda>receiver.
       chain (must_unify (final_type v) receiver 0) (\<lambda>_. pass (drop 1 (parameter_types sg))))
   | _ \<Rightarrow> pass (parameter_types sg))"

definition signature_call ::
  "check_expression \<Rightarrow> scope_ref \<Rightarrow> check_context \<Rightarrow> meta_id \<Rightarrow> ident meta \<Rightarrow> resolved_path \<Rightarrow> string
     \<Rightarrow> checked_function \<Rightarrow> expr meta list \<Rightarrow> bool check" where
  "signature_call ex s ctx i last_ident resolved_path description f args =
     chain (set_function_call i f) (\<lambda>_.
     chain (call_parameters resolved_path (cf_signature f)) (\<lambda>params.
     chain (check_arguments ex s ctx description last_ident params args) (\<lambda>diverges.
     chain (must_unify (cx_expected_type ctx) (return_type (cf_signature f)) i) (\<lambda>_. pass diverges))))"

definition path_function_call ::
  "check_expression \<Rightarrow> scope_ref \<Rightarrow> check_context \<Rightarrow> meta_id \<Rightarrow> path meta \<Rightarrow> expr meta list \<Rightarrow> bool check" where
  "path_function_call ex s ctx i p args =
     chain (last_name p) (\<lambda>last_ident.
     chain (resolve_expression_path s ctx p) (\<lambda>resolved_path.
     chain (set_path_kind (meta_id p) resolved_path) (\<lambda>_.
     let call = (\<lambda>description name def sg. signature_call ex s ctx i last_ident resolved_path description
           \<lparr>cf_signature = sg, cf_name = name, cf_vars = [], cf_definition = def\<rparr> args)
     in case resolved_path of
          RpFunction name def sg \<Rightarrow> call ''function'' name def sg
        | RpStaticMethod name def sg \<Rightarrow> call ''static method'' name def sg
        | RpMethod _ name def sg \<Rightarrow> call ''method'' name def sg
        | RpEnumConstructor type_def variant \<Rightarrow> constructor_call ex s ctx i last_ident type_def variant args
        | RpValue _ \<Rightarrow> reject (ErrExpectedFunction last_ident resolved_path))))"

definition method_call ::
  "check_expression \<Rightarrow> scope_ref \<Rightarrow> check_context \<Rightarrow> meta_id \<Rightarrow> rtype \<Rightarrow> ident meta \<Rightarrow> expr meta list \<Rightarrow> bool check" where
  "method_call ex s ctx i ty field args =
     chain (get_method ty field) (\<lambda>m. case m of
       None \<Rightarrow> reject (ErrNoMethod ty field)
     | Some f \<Rightarrow>
         (let sg = cf_signature f in
          chain (need PkIndex (index (parameter_types sg) 0)) (\<lambda>receiver.
          chain (must_unify receiver ty i) (\<lambda>_.
          chain (check_arguments ex s ctx ''method'' field (drop 1 (parameter_types sg)) args) (\<lambda>diverges.
          chain (must_unify (cx_expected_type ctx) (return_type sg) i) (\<lambda>_.
          chain (set_function_call i f) (\<lambda>_. pass diverges)))))))"

definition check_call ::
  "check_expression \<Rightarrow> scope_ref \<Rightarrow> check_context \<Rightarrow> meta_id \<Rightarrow> expr meta \<Rightarrow> expr meta list \<Rightarrow> bool check" where
  "check_call ex s ctx i f args = (case node f of
     EPath p \<Rightarrow> path_function_call ex s ctx i p args
   | EAccess e name \<Rightarrow>
       chain fresh_var (\<lambda>ty.
       chain (ex s (with_type ctx ty) e) (\<lambda>d.
       chain (method_call ex s ctx i ty (ast_ident name) args) (\<lambda>d'. pass (d \<or> d'))))
   | _ \<Rightarrow> reject (ErrSimple ''arbitrary function expressions are not supported yet'' ''cannot be called'' (meta_id f)))"

section \<open>Paths, fields and records\<close>

definition check_path :: "scope_ref \<Rightarrow> check_context \<Rightarrow> path meta \<Rightarrow> bool check" where
  "check_path s ctx p =
     chain (last_name p) (\<lambda>last_ident.
     chain (resolve_expression_path s ctx p) (\<lambda>resolved_path.
     chain (set_path_kind (meta_id p) resolved_path) (\<lambda>_.
     chain (case resolved_path of
         RpValue v \<Rightarrow> pass (final_type v)
       | RpEnumConstructor ty variant \<Rightarrow>
           if ev_fields variant \<noteq> [] then
             reject (ErrSimple (''enum variant '' @ ev_name variant @ '' requires arguments'')
               ''requires arguments'' (meta_id last_ident))
           else instantiate_definition ty
       | _ \<Rightarrow> reject (ErrExpectedValuePath last_ident resolved_path)) (\<lambda>ty.
     chain (set_expr_type (meta_id p) ty) (\<lambda>_.
     chain (must_unify (cx_expected_type ctx) ty (meta_id last_ident)) (\<lambda>_. pass False))))))"

definition check_access ::
  "check_expression \<Rightarrow> scope_ref \<Rightarrow> check_context \<Rightarrow> expr meta \<Rightarrow> name meta \<Rightarrow> bool check" where
  "check_access ex s ctx e field =
     chain fresh_var (\<lambda>ty.
     chain (ex s (with_type ctx ty) e) (\<lambda>diverges.
     chain (resolve ty) (\<lambda>ty.
     chain (access_field ty (ast_ident field)) (\<lambda>ty.
     chain (must_unify (cx_expected_type ctx) ty (meta_id field)) (\<lambda>_. pass diverges)))))"

text \<open>The fields given, sorted into used, missing, invalid and duplicate ones.\<close>

record field_tally =
  ft_used :: "ident set"
  ft_missing :: "ident list"
  ft_invalid :: "meta_id list"
  ft_duplicate :: "meta_id list"

definition tally_field :: "field_tally \<Rightarrow> ident meta \<Rightarrow> field_tally" where
  "tally_field t i =
     (if node i \<in> ft_used t then t\<lparr>ft_duplicate := ft_duplicate t @ [meta_id i]\<rparr>
      else case position (\<lambda>f. f = node i) (ft_missing t) of
        Some idx \<Rightarrow>
          t\<lparr>ft_missing := take idx (ft_missing t) @ drop (Suc idx) (ft_missing t), ft_used := insert (node i) (ft_used t)\<rparr>
      | None \<Rightarrow> t\<lparr>ft_invalid := ft_invalid t @ [meta_id i]\<rparr>)"

definition tally_fields :: "fields \<Rightarrow> ident meta list \<Rightarrow> field_tally" where
  "tally_fields field_types given = foldl tally_field
     \<lparr>ft_used = {}, ft_missing = map (\<lambda>f. node (fst f)) field_types, ft_invalid = [], ft_duplicate = []\<rparr> given"

definition check_record_fields ::
  "check_expression \<Rightarrow> scope_ref \<Rightarrow> check_context \<Rightarrow> fields \<Rightarrow> (name meta \<times> expr meta) list \<Rightarrow> meta_id \<Rightarrow> bool check" where
  "check_record_fields ex s ctx field_types rec span =
     (let t = tally_fields field_types (map (\<lambda>f. ast_ident (fst f)) rec) in
      if ft_invalid t \<noteq> [] \<or> ft_duplicate t \<noteq> [] \<or> ft_missing t \<noteq> []
      then reject (ErrFieldMismatch span (ft_invalid t) (ft_duplicate t) (ft_missing t))
      else any_of (\<lambda>(i, e).
          chain (need PkUnwrap (find_field (ident_of (node i)) field_types)) (\<lambda>expected.
          ex s (with_type ctx expected) e)) False rec)"

definition check_record ::
  "check_expression \<Rightarrow> scope_ref \<Rightarrow> check_context \<Rightarrow> meta_id \<Rightarrow> (name meta \<times> expr meta) list \<Rightarrow> bool check" where
  "check_record ex s ctx i rec =
     chain (gather (\<lambda>(n, _). chain fresh_var (\<lambda>t. pass (ast_ident n, t))) rec) (\<lambda>field_types.
     chain (fresh_record field_types) (\<lambda>rec_ty.
     chain (must_unify (cx_expected_type ctx) rec_ty i) (\<lambda>_.
     check_record_fields ex s ctx field_types rec i)))"

definition not_a_record :: "ident meta \<Rightarrow> type_error" where
  "not_a_record i = ErrSimple (''Expected a record type, but found '' @ quoted (node i)) ''not a record type'' (meta_id i)"

definition check_typed_record ::
  "check_expression \<Rightarrow> scope_ref \<Rightarrow> check_context \<Rightarrow> meta_id \<Rightarrow> path meta \<Rightarrow> (name meta \<times> expr meta) list \<Rightarrow> bool check" where
  "check_typed_record ex s ctx i p rec =
     chain (resolve_module_part_of_path s (path_names p)) (\<lambda>(ident, dec, _). case dec_kind dec of
       DkType (TsType type_def) \<Rightarrow>
         chain (instantiate_definition type_def) (\<lambda>ty. case ty of
           TName tn \<Rightarrow>
             chain (need PkAssert (record_fields type_def (tn_arguments tn))) (\<lambda>fs. case fs of
               None \<Rightarrow> reject (not_a_record ident)
             | Some instantiated_fields \<Rightarrow>
                 chain (check_record_fields ex s ctx instantiated_fields rec i) (\<lambda>diverges.
                 chain (must_unify (cx_expected_type ctx) ty i) (\<lambda>_. pass diverges)))
         | _ \<Rightarrow> crash PkIce)
     | _ \<Rightarrow> reject (not_a_record ident))"

definition check_list :: "check_expression \<Rightarrow> scope_ref \<Rightarrow> check_context \<Rightarrow> meta_id \<Rightarrow> expr meta list \<Rightarrow> bool check" where
  "check_list ex s ctx i es =
     chain fresh_var (\<lambda>var.
     chain (must_unify (cx_expected_type ctx) (t_list var) i) (\<lambda>_.
     any_of (ex s (with_type ctx var)) False es))"

section \<open>Operators\<close>

definition check_not :: "check_expression \<Rightarrow> scope_ref \<Rightarrow> check_context \<Rightarrow> meta_id \<Rightarrow> expr meta \<Rightarrow> bool check" where
  "check_not ex s ctx i e =
     chain (must_unify (cx_expected_type ctx) t_bool i) (\<lambda>_. ex s (with_type ctx t_bool) e)"

definition check_negate :: "check_expression \<Rightarrow> scope_ref \<Rightarrow> check_context \<Rightarrow> meta_id \<Rightarrow> expr meta \<Rightarrow> bool check" where
  "check_negate ex s ctx i e =
     chain fresh_var (\<lambda>var.
     chain (ex s (with_type ctx var) e) (\<lambda>diverges.
     chain (resolve var) (\<lambda>operand_ty.
     chain (case operand_ty of
         TName tn \<Rightarrow>
           chain (definition_of (tn_name tn)) (\<lambda>def. case def of
             DPrimitive (PInt Unsigned _) \<Rightarrow>
               reject (ErrSimple ''cannot apply `-` to unsigned integer type'' ''cannot apply `-`'' i)
           | _ \<Rightarrow> pass ())
       | _ \<Rightarrow> pass ()) (\<lambda>_.
     chain (is_numeric operand_ty) (\<lambda>num.
     if num then
       chain (case operand_ty of TIntVar x SignedNo \<Rightarrow> must_be_signed x | _ \<Rightarrow> pass ()) (\<lambda>_.
       chain (must_unify (cx_expected_type ctx) operand_ty i) (\<lambda>_. pass diverges))
     else reject (ErrExpectedNumeric (meta_id e) operand_ty))))))"

text \<open>Operators that are calls of methods of the runtime: \<open>/\<close> on addresses, \<open>+\<close> on strings and lists.\<close>

definition operator_call :: "ident \<Rightarrow> ident \<Rightarrow> meta_id \<Rightarrow> unit check" where
  "operator_call ty method span =
     chain (get_function_in_type (ResolvedName GLOBAL ty) method) (\<lambda>f.
     chain (need PkUnwrap f) (\<lambda>f. set_function_call span f))"

text \<open>The special cases of \<open>/\<close> and \<open>+\<close>; \<open>None\<close> goes on with the general case.\<close>

definition check_div ::
  "check_expression \<Rightarrow> scope_ref \<Rightarrow> check_context \<Rightarrow> meta_id \<Rightarrow> expr meta \<Rightarrow> expr meta \<Rightarrow> bool option check" where
  "check_div ex s ctx span left right =
     chain fresh_var (\<lambda>var.
     chain (ex s (with_type ctx var) left) (\<lambda>d.
     chain (resolve var) (\<lambda>resolved.
     if resolved = named ''IpAddr'' [] then
       chain (ex s (with_type ctx t_u8) right) (\<lambda>d'.
       chain (must_unify (cx_expected_type ctx) (named ''Prefix'' []) span) (\<lambda>_.
       chain (operator_call ''Prefix'' ''new'' span) (\<lambda>_. pass (Some (d \<or> d')))))
     else pass None)))"

definition check_append ::
  "check_expression \<Rightarrow> scope_ref \<Rightarrow> check_context \<Rightarrow> meta_id \<Rightarrow> expr meta \<Rightarrow> expr meta \<Rightarrow> bool option check" where
  "check_append ex s ctx span left right =
     chain fresh_var (\<lambda>var.
     chain (ex s (with_type ctx var) left) (\<lambda>d.
     chain (resolve var) (\<lambda>resolved.
     if resolved = t_string then
       chain (ex s (with_type ctx var) right) (\<lambda>d'.
       chain (must_unify (cx_expected_type ctx) t_string span) (\<lambda>_.
       chain (operator_call ''String'' ''append'' span) (\<lambda>_. pass (Some (d \<or> d')))))
     else if (case resolved of TName n \<Rightarrow> tn_name n = ResolvedName GLOBAL ''List'' | _ \<Rightarrow> False) then
       chain (ex s (with_type ctx var) right) (\<lambda>d'.
       chain (must_unify (cx_expected_type ctx) var span) (\<lambda>_.
       chain (operator_call ''List'' ''concat'' span) (\<lambda>_. pass (Some (d \<or> d')))))
     else pass None)))"

definition check_logical ::
  "check_expression \<Rightarrow> scope_ref \<Rightarrow> check_context \<Rightarrow> meta_id \<Rightarrow> expr meta \<Rightarrow> expr meta \<Rightarrow> bool check" where
  "check_logical ex s ctx span left right =
     chain (must_unify (cx_expected_type ctx) t_bool span) (\<lambda>_.
     chain (ex s (with_type ctx t_bool) left) (\<lambda>d.
     chain (ex s (with_type ctx t_bool) right) (\<lambda>d'. pass (d \<or> d'))))"

definition check_equality ::
  "check_expression \<Rightarrow> scope_ref \<Rightarrow> check_context \<Rightarrow> meta_id \<Rightarrow> expr meta \<Rightarrow> expr meta \<Rightarrow> bool check" where
  "check_equality ex s ctx span left right =
     chain (must_unify (cx_expected_type ctx) t_bool span) (\<lambda>_.
     chain fresh_var (\<lambda>ty.
     chain (ex s (with_type ctx ty) left) (\<lambda>d.
     chain (ex s (with_type ctx ty) right) (\<lambda>d'. pass (d \<or> d')))))"

definition check_comparison ::
  "check_expression \<Rightarrow> scope_ref \<Rightarrow> check_context \<Rightarrow> meta_id \<Rightarrow> expr meta \<Rightarrow> expr meta \<Rightarrow> bool check" where
  "check_comparison ex s ctx span left right =
     chain (must_unify (cx_expected_type ctx) t_bool span) (\<lambda>_.
     chain fresh_var (\<lambda>ty.
     chain (ex s (with_type ctx ty) left) (\<lambda>d.
     chain (is_numeric ty) (\<lambda>num.
     if num then chain (ex s (with_type ctx ty) right) (\<lambda>d'. pass (d \<or> d'))
     else reject (ErrExpectedNumeric (meta_id left) ty)))))"

definition check_arithmetic ::
  "(rtype \<Rightarrow> bool check) \<Rightarrow> (meta_id \<Rightarrow> rtype \<Rightarrow> type_error) \<Rightarrow> check_expression \<Rightarrow> scope_ref \<Rightarrow> check_context \<Rightarrow> meta_id
     \<Rightarrow> expr meta \<Rightarrow> expr meta \<Rightarrow> bool check" where
  "check_arithmetic allowed err ex s ctx span left right =
     chain fresh_var (\<lambda>operand_ty.
     chain (ex s (with_type ctx operand_ty) left) (\<lambda>d.
     chain (allowed operand_ty) (\<lambda>ok.
     if ok then
       chain (ex s (with_type ctx operand_ty) right) (\<lambda>d'.
       chain (must_unify (cx_expected_type ctx) operand_ty span) (\<lambda>_. pass (d \<or> d')))
     else reject (err (meta_id left) operand_ty))))"

definition general_binop ::
  "check_expression \<Rightarrow> scope_ref \<Rightarrow> check_context \<Rightarrow> bin_op \<Rightarrow> meta_id \<Rightarrow> expr meta \<Rightarrow> expr meta \<Rightarrow> bool check" where
  "general_binop ex s ctx op span left right =
     (if op \<in> {BAnd, BOr} then check_logical ex s ctx span left right
      else if op \<in> {BLt, BLe, BGt, BGe} then check_comparison ex s ctx span left right
      else if op \<in> {BEq, BNe} then check_equality ex s ctx span left right
      else if op = BMod then check_arithmetic is_int_type ErrExpectedInt ex s ctx span left right
      else check_arithmetic is_numeric ErrExpectedNumeric ex s ctx span left right)"

definition check_binop ::
  "check_expression \<Rightarrow> scope_ref \<Rightarrow> check_context \<Rightarrow> bin_op \<Rightarrow> meta_id \<Rightarrow> expr meta \<Rightarrow> expr meta \<Rightarrow> bool check" where
  "check_binop ex s ctx op span left right =
     chain (if op = BDiv then check_div ex s ctx span left right
            else if op = BAdd then check_append ex s ctx span left right
            else pass None) (\<lambda>special. case special of
       Some d \<Rightarrow> pass d
     | None \<Rightarrow> general_binop ex s ctx op span left right)"

fun assigned_op :: "compound_assign_op \<Rightarrow> bin_op" where
  "assigned_op CAdd = BAdd"
| "assigned_op CSub = BSub"
| "assigned_op CMul = BMul"
| "assigned_op CDiv = BDiv"
| "assigned_op CMod = BMod"

definition check_compound_assign ::
  "check_expression \<Rightarrow> scope_ref \<Rightarrow> check_context \<Rightarrow> meta_id \<Rightarrow> compound_head \<Rightarrow> expr meta \<Rightarrow> bool check" where
  "check_compound_assign ex s ctx i c e =
     chain (must_unify (cx_expected_type ctx) TUnit i) (\<lambda>_.
     chain (value_path s ctx (ca_path c)) (\<lambda>v.
     let ty = final_type v in
     chain (check_binop ex s (with_type ctx ty) (assigned_op (ca_op c)) (ca_binop_id c)
              (Meta (EPath (ca_path c)) (ca_path_expr_id c)) e) (\<lambda>diverges.
     chain (set_expr_type (ca_binop_id c) ty) (\<lambda>_. pass diverges))))"

section \<open>Branches and loops\<close>

definition check_if ::
  "check_expression \<Rightarrow> scope_ref \<Rightarrow> check_context \<Rightarrow> meta_id \<Rightarrow> expr meta \<Rightarrow> block meta \<Rightarrow> block meta option \<Rightarrow> bool check" where
  "check_if ex s ctx i c t e =
     chain (ex s (with_type ctx t_bool) c) (\<lambda>_.
     chain next_if_else (\<lambda>idx. case e of
       Some e \<Rightarrow>
         chain (wrap_scope s (StThen idx)) (\<lambda>then_scope.
         chain (check_block ex then_scope ctx t) (\<lambda>d.
         chain (wrap_scope s (StElse idx)) (\<lambda>else_scope.
         chain (check_block ex else_scope ctx e) (\<lambda>d'.
         chain (set_diverges i (d \<and> d')) (\<lambda>_. pass (d \<and> d'))))))
     | None \<Rightarrow>
         chain (must_unify (cx_expected_type ctx) TUnit i) (\<lambda>_.
         chain (wrap_scope s (StThen idx)) (\<lambda>then_scope.
         chain (check_block ex then_scope (with_type ctx TUnit) t) (\<lambda>_.
         chain (set_diverges i False) (\<lambda>_. pass False))))))"

definition check_while ::
  "check_expression \<Rightarrow> scope_ref \<Rightarrow> check_context \<Rightarrow> meta_id \<Rightarrow> expr meta \<Rightarrow> block meta \<Rightarrow> bool check" where
  "check_while ex s ctx i c b =
     chain (ex s (with_type ctx t_bool) c) (\<lambda>d.
     chain next_while (\<lambda>idx.
     chain (wrap_scope s (StWhileBody idx)) (\<lambda>body_scope.
     chain (check_block ex body_scope ctx b) (\<lambda>d'.
     chain (must_unify (cx_expected_type ctx) TUnit i) (\<lambda>_. pass (d \<or> d'))))))"

definition check_for ::
  "check_expression \<Rightarrow> scope_ref \<Rightarrow> check_context \<Rightarrow> meta_id \<Rightarrow> name meta \<Rightarrow> expr meta \<Rightarrow> block meta \<Rightarrow> bool check" where
  "check_for ex s ctx i name e b =
     chain fresh_var (\<lambda>element_ty.
     chain (ex s (with_type ctx (t_list element_ty)) e) (\<lambda>d.
     chain next_for (\<lambda>idx.
     chain (wrap_scope s (StForBody idx)) (\<lambda>body_scope.
     chain (declare_var body_scope (ast_ident name) element_ty) (\<lambda>_.
     chain (check_block ex body_scope ctx b) (\<lambda>d'.
     chain (must_unify (cx_expected_type ctx) TUnit i) (\<lambda>_. pass (d \<or> d'))))))))"

definition check_question_mark ::
  "check_expression \<Rightarrow> scope_ref \<Rightarrow> check_context \<Rightarrow> meta_id \<Rightarrow> expr meta \<Rightarrow> bool check" where
  "check_question_mark ex s ctx i e =
     (let err = ErrSimple ''can only use `?` in function returning an optional value'' ''cannot use `?` here'' i in
      chain (ex s (with_type ctx (t_option (cx_expected_type ctx))) e) (\<lambda>diverges.
      case cx_function_return_type ctx of
        None \<Rightarrow> reject err
      | Some ret_ty \<Rightarrow>
          chain (resolve ret_ty) (\<lambda>ty. case ty of
            TName tn \<Rightarrow> if tn_name tn \<noteq> ResolvedName GLOBAL ''Option'' then reject err else pass diverges
          | _ \<Rightarrow> reject err)))"

definition check_f_string_part ::
  "check_expression \<Rightarrow> scope_ref \<Rightarrow> check_context \<Rightarrow> fstring_part meta \<Rightarrow> bool check" where
  "check_f_string_part ex s ctx part = (case node part of
     FsString _ \<Rightarrow> pass False
   | FsExpr e \<Rightarrow>
       chain fresh_var (\<lambda>ty.
       chain (ex s (with_type ctx ty) e) (\<lambda>d.
       chain (add_obligation (ResolveMethod (meta_id part) ty ''to_string'' [ty] t_string)) (\<lambda>_. pass d))))"

definition check_f_string ::
  "check_expression \<Rightarrow> scope_ref \<Rightarrow> check_context \<Rightarrow> meta_id \<Rightarrow> fstring_part meta list \<Rightarrow> bool check" where
  "check_f_string ex s ctx i parts =
     chain (must_unify (cx_expected_type ctx) t_string i) (\<lambda>_. any_of (check_f_string_part ex s ctx) False parts)"

section \<open>Match expressions\<close>

text \<open>
  What the loop over the arms keeps: the variants with an arm that has no guard, whether all arms so far
  leave the function, and whether a default arm was seen.  The warning about a repeated variant is printed and
  changes nothing.
\<close>

record arms_state =
  as_used :: "ident list"
  as_diverge :: bool
  as_default :: bool

definition declare_pattern ::
  "scope_ref \<Rightarrow> rtype \<Rightarrow> ident meta \<Rightarrow> rtype list \<Rightarrow> name meta list meta option \<Rightarrow> unit check" where
  "declare_pattern arm_scope t_expr variant field_types data_field = (case (field_types, data_field) of
     ([], None) \<Rightarrow> pass ()
   | ([], Some _) \<Rightarrow> reject (ErrVariantHasNoFields variant t_expr)
   | (_ # _, Some fs) \<Rightarrow>
       if length field_types \<noteq> length (node fs)
       then reject (ErrArgumentCount ''pattern'' variant (length field_types) (length (node fs)))
       else each_of (\<lambda>(ty, field). declare_var arm_scope (ast_ident field) ty) (zip field_types (node fs))
   | (_ # _, None) \<Rightarrow> reject (ErrPatternNeedsArguments variant t_expr))"

definition check_guard :: "check_expression \<Rightarrow> scope_ref \<Rightarrow> check_context \<Rightarrow> expr meta option \<Rightarrow> unit check" where
  "check_guard ex arm_scope ctx guard = (case guard of
     None \<Rightarrow> pass ()
   | Some g \<Rightarrow> chain (ex arm_scope (with_type ctx t_bool) g) (\<lambda>_. pass ()))"

definition check_arm ::
  "check_expression \<Rightarrow> scope_ref \<Rightarrow> check_context \<Rightarrow> rtype \<Rightarrow> enum_variant list \<Rightarrow> nat \<Rightarrow> arms_state \<Rightarrow> match_arm
     \<Rightarrow> arms_state check" where
  "check_arm ex s ctx t_expr variants match_id st arm = (case arm of
     MatchArm pattern guard body \<Rightarrow>
       if as_default st then reject (ErrUnreachable (meta_id body))
       else (case node pattern of
         Underscore \<Rightarrow>
           chain (wrap_scope s (StMatchArm match_id None)) (\<lambda>arm_scope.
           chain (check_guard ex arm_scope ctx guard) (\<lambda>_.
           chain (check_block ex arm_scope ctx body) (\<lambda>d.
           pass (st\<lparr>as_default := (guard = None), as_diverge := as_diverge st \<and> d\<rparr>))))
       | EnumVariantPattern variant data_field \<Rightarrow>
           (case position (\<lambda>v. ev_name v = ident_of (node variant)) variants of
              None \<Rightarrow> reject (ErrNoSuchVariant (ast_ident variant) t_expr)
            | Some idx \<Rightarrow>
                chain (wrap_scope s (StMatchArm match_id (Some idx))) (\<lambda>arm_scope.
                chain (declare_pattern arm_scope t_expr (ast_ident variant) (ev_fields (variants ! idx)) data_field) (\<lambda>_.
                chain (check_guard ex arm_scope ctx guard) (\<lambda>_.
                let name = ident_of (node variant);
                    used = (if guard = None \<and> name \<notin> set (as_used st) then as_used st @ [name] else as_used st) in
                chain (check_block ex arm_scope ctx body) (\<lambda>d.
                pass (st\<lparr>as_used := used, as_diverge := as_diverge st \<and> d\<rparr>))))))))"

fun check_arms ::
  "check_expression \<Rightarrow> scope_ref \<Rightarrow> check_context \<Rightarrow> rtype \<Rightarrow> enum_variant list \<Rightarrow> nat \<Rightarrow> arms_state \<Rightarrow> match_arm list
     \<Rightarrow> arms_state check" where
  "check_arms ex s ctx t_expr variants match_id st [] = pass st"
| "check_arms ex s ctx t_expr variants match_id st (arm # arms) =
     chain (check_arm ex s ctx t_expr variants match_id st arm) (\<lambda>st'.
     check_arms ex s ctx t_expr variants match_id st' arms)"

definition matched_variants :: "rtype \<Rightarrow> meta_id \<Rightarrow> enum_variant list check" where
  "matched_variants t_expr i = (case t_expr of
     TName tn \<Rightarrow>
       chain (definition_of (tn_name tn)) (\<lambda>type_def.
       chain (need PkAssert (match_patterns type_def (tn_arguments tn))) (\<lambda>vs. case vs of
         Some variants \<Rightarrow> pass variants
       | None \<Rightarrow> reject (ErrMatchOnlyEnum t_expr i)))
   | _ \<Rightarrow> reject (ErrMatchOnlyEnum t_expr i))"

definition check_match ::
  "check_expression \<Rightarrow> scope_ref \<Rightarrow> check_context \<Rightarrow> (expr meta \<times> match_arm list) meta \<Rightarrow> bool check" where
  "check_match ex s ctx m = (case node m of (e, arms) \<Rightarrow>
     chain fresh_var (\<lambda>examinee_type.
     chain (ex s (with_type ctx examinee_type) e) (\<lambda>diverges.
     chain (resolve examinee_type) (\<lambda>t_expr.
     if diverges then crash PkTodo
     else
       chain (matched_variants t_expr (meta_id e)) (\<lambda>variants.
       chain next_match (\<lambda>match_id.
       chain (check_arms ex s ctx t_expr variants match_id
                \<lparr>as_used = [], as_diverge = True, as_default = False\<rparr> arms) (\<lambda>st.
       if \<not> as_default st \<and> length (as_used st) < length variants
       then reject (ErrNonexhaustive (meta_id m) (filter (\<lambda>v. v \<notin> set (as_used st)) (map ev_name variants)))
       else pass (as_diverge st))))))))"

section \<open>Expressions\<close>

definition check_node :: "check_expression \<Rightarrow> scope_ref \<Rightarrow> check_context \<Rightarrow> meta_id \<Rightarrow> expr \<Rightarrow> bool check" where
  "check_node ex s ctx i e = (case e of
     EReturn kind e \<Rightarrow> check_return ex s ctx i kind e
   | ELiteral l \<Rightarrow> check_literal ctx l
   | EBlock b \<Rightarrow>
       chain next_block (\<lambda>idx. chain (wrap_scope s (StBlock idx)) (\<lambda>block_scope. check_block ex block_scope ctx b))
   | EMatch m \<Rightarrow> check_match ex s ctx m
   | EFunctionCall f args \<Rightarrow> check_call ex s ctx i f (node args)
   | EAccess e field \<Rightarrow> check_access ex s ctx e field
   | EAssign p e \<Rightarrow> check_assign ex s ctx i p e
   | ECompoundAssign c e \<Rightarrow> check_compound_assign ex s ctx i c e
   | EPath p \<Rightarrow> check_path s ctx p
   | ERecord r \<Rightarrow> check_record ex s ctx i (node r)
   | ETypedRecord p r \<Rightarrow> check_typed_record ex s ctx i p (node r)
   | EList es \<Rightarrow> check_list ex s ctx i es
   | ENot e \<Rightarrow> check_not ex s ctx i e
   | ENegate e \<Rightarrow> check_negate ex s ctx i e
   | EBinOp l op r \<Rightarrow> check_binop ex s ctx op i l r
   | EIfElse c t e \<Rightarrow> check_if ex s ctx i c t e
   | EWhile c b \<Rightarrow> check_while ex s ctx i c b
   | EFor n e b \<Rightarrow> check_for ex s ctx i n e b
   | EQuestionMark e \<Rightarrow> check_question_mark ex s ctx i e
   | EFString parts \<Rightarrow> check_f_string ex s ctx i parts)"

text \<open>The expected type is stored for the lowering before anything else.\<close>

definition check_step :: "check_expression \<Rightarrow> check_expression" where
  "check_step ex s ctx e =
     chain (set_expr_type (meta_id e) (cx_expected_type ctx)) (\<lambda>_. check_node ex s ctx (meta_id e) (node e))"

fun check_expr :: "nat \<Rightarrow> check_expression" where
  "check_expr 0 s ctx e = stuck"
| "check_expr (Suc n) s ctx e = check_step (check_expr n) s ctx e"

section \<open>Obligations\<close>

text \<open>A method is looked up once the type of its receiver is known; an open number type is settled first.\<close>

fun unify_parameters :: "meta_id \<Rightarrow> (rtype \<times> rtype) list \<Rightarrow> bool \<Rightarrow> bool check" where
  "unify_parameters i [] correct = pass correct"
| "unify_parameters i ((a, b) # ps) correct =
     chain (attempt (unify_at a b i)) (\<lambda>r. unify_parameters i ps (correct \<and> \<not> isl r))"

definition default_number :: "rtype \<Rightarrow> meta_id \<Rightarrow> unit check" where
  "default_number t i = (case t of
     TIntVar _ _ \<Rightarrow> chain (attempt (unify_at t t_i32 i)) (\<lambda>r. case r of Inr _ \<Rightarrow> pass () | Inl _ \<Rightarrow> crash PkUnwrap)
   | TFloatVar _ \<Rightarrow> chain (attempt (unify_at t t_f64 i)) (\<lambda>r. case r of Inr _ \<Rightarrow> pass () | Inl _ \<Rightarrow> crash PkUnwrap)
   | _ \<Rightarrow> pass ())"

fun resolve_obligation :: "obligation \<Rightarrow> unit check" where
  "resolve_obligation (ResolveMethod i receiver ident params ret) =
     chain (resolve receiver) (\<lambda>receiver_ty.
     chain (default_number receiver_ty i) (\<lambda>_.
     chain (get_method receiver (Meta ident i)) (\<lambda>m. case m of
       None \<Rightarrow> reject (ErrNoMethod receiver (Meta ident i))
     | Some f \<Rightarrow>
         (let sg = cf_signature f in
          chain (unify_parameters i (zip (parameter_types sg) params)
                   (length (parameter_types sg) = length params)) (\<lambda>correct.
          chain (unify_parameters i [(return_type sg, ret)] correct) (\<lambda>correct.
          if \<not> correct then reject (ErrWrongSignature ident receiver_ty i)
          else set_function_call i f))))))"

definition resolve_obligations :: "unit check" where
  "resolve_obligations = chain take_obligations (each_of resolve_obligation)"

end
