(* ===== verification/Check_Items.thy ===== *)
theory Check_Items
  imports Check_Expr "HOL-Library.AList"
begin

text \<open>
  Type checking of functions, filter maps, constants and tests (\<open>src/src/typechecker/function.rs\<close>) and the passes
  over a whole program (\<open>src/src/typechecker/mod.rs\<close>).  The parameter \<open>n\<close> is the fuel of \<open>check_expr\<close>.  The
  texts that document the built-in types are left out.
\<close>

section \<open>Function-like items\<close>

definition check_params :: "scope_ref \<Rightarrow> params \<Rightarrow> fields check" where
  "check_params s ps = gather (\<lambda>(n, ty). chain (evaluate_type s ty) (\<lambda>t. pass (ast_ident n, t))) ps"

definition declare_params :: "scope_ref \<Rightarrow> params \<Rightarrow> unit check" where
  "declare_params s ps = chain (check_params s ps) (each_of (\<lambda>(v, t). declare_var s v t))"

definition function_scope :: "scope_ref \<Rightarrow> ident meta \<Rightarrow> scope_ref check" where
  "function_scope outer_scope i =
     chain (wrap_scope outer_scope (StFunction (node i))) (\<lambda>s.
     chain (set_function_scope (meta_id i) s) (\<lambda>_. pass s))"

definition item_context :: "rtype \<Rightarrow> rtype option \<Rightarrow> scope_ref \<Rightarrow> ident \<Rightarrow> check_context" where
  "item_context expected ret outer_scope i =
     \<lparr>cx_expected_type = expected, cx_function_return_type = ret, cx_item = ResolvedName outer_scope i\<rparr>"

definition check_body :: "nat \<Rightarrow> scope_ref \<Rightarrow> check_context \<Rightarrow> block meta \<Rightarrow> unit check" where
  "check_body n s ctx body =
     chain (refer_node (cx_item ctx)) (\<lambda>_.
     chain (check_block (check_expr n) s ctx body) (\<lambda>_.
     resolve_obligations))"

definition check_filter_map :: "nat \<Rightarrow> scope_ref \<Rightarrow> name meta \<Rightarrow> params \<Rightarrow> block meta \<Rightarrow> unit check" where
  "check_filter_map n outer_scope i ps body =
     chain the_checker (\<lambda>st.
     chain (need PkIndex (tt_function_signatures (ck_tables st) (meta_id i))) (\<lambda>sg.
     chain (function_scope outer_scope (ast_ident i)) (\<lambda>s.
     chain (declare_params s ps) (\<lambda>_.
     check_body n s (item_context (return_type sg) (Some (return_type sg)) outer_scope (ident_of (node i))) body))))"

definition declared_return :: "scope_ref \<Rightarrow> type_expr meta option \<Rightarrow> rtype check" where
  "declared_return s ret = (case ret of Some t \<Rightarrow> evaluate_type s t | None \<Rightarrow> pass TUnit)"

definition check_function ::
  "nat \<Rightarrow> scope_ref \<Rightarrow> name meta \<Rightarrow> params \<Rightarrow> type_expr meta option \<Rightarrow> block meta \<Rightarrow> unit check" where
  "check_function n outer_scope i ps ret body =
     chain (function_scope outer_scope (ast_ident i)) (\<lambda>s.
     chain (declare_params s ps) (\<lambda>_.
     chain (declared_return s ret) (\<lambda>ret.
     check_body n s (item_context ret (Some ret) outer_scope (ident_of (node i))) body)))"

definition check_constant :: "nat \<Rightarrow> scope_ref \<Rightarrow> name meta \<Rightarrow> type_expr meta \<Rightarrow> expr meta \<Rightarrow> unit check" where
  "check_constant n outer_scope i ty e =
     chain (function_scope outer_scope (ast_ident i)) (\<lambda>s.
     chain (evaluate_type outer_scope ty) (\<lambda>ty.
     let ctx = item_context ty None outer_scope (ident_of (node i)) in
     chain (refer_node (cx_item ctx)) (\<lambda>_.
     chain (check_expr n s ctx e) (\<lambda>_.
     resolve_obligations))))"

definition check_test :: "nat \<Rightarrow> scope_ref \<Rightarrow> name meta \<Rightarrow> block meta \<Rightarrow> unit check" where
  "check_test n outer_scope i body =
     (let name = Meta (''test#'' @ ident_of (node i)) (meta_id i); ret = t_verdict TUnit TUnit in
      chain (declare_function outer_scope name FdRoto [] []
               \<lparr>sig_types = [], parameter_types = [], return_type = ret\<rparr>) (\<lambda>_.
      chain (function_scope outer_scope name) (\<lambda>s.
      check_body n s (item_context ret (Some ret) outer_scope (node name)) body)))"

definition check_function_type :: "scope_ref \<Rightarrow> params \<Rightarrow> type_expr meta option \<Rightarrow> signature check" where
  "check_function_type s ps ret =
     chain (declared_return s ret) (\<lambda>ret.
     chain (check_params s ps) (\<lambda>fs.
     pass \<lparr>sig_types = [], parameter_types = map snd fs, return_type = ret\<rparr>))"

definition check_filter_map_type :: "scope_ref \<Rightarrow> params \<Rightarrow> signature check" where
  "check_filter_map_type s ps =
     chain fresh_var (\<lambda>accept.
     chain fresh_var (\<lambda>reject.
     chain (check_params s ps) (\<lambda>fs.
     pass \<lparr>sig_types = [], parameter_types = map snd fs, return_type = t_verdict accept reject\<rparr>)))"

section \<open>Declaring types\<close>

definition insert_type_def :: "resolved_name \<Rightarrow> type_definition \<Rightarrow> type_definition option check" where
  "insert_type_def n d =
     chain the_checker (\<lambda>st.
     chain (change (\<lambda>st. st\<lparr>ck_types := AList.update n d (ck_types st)\<rparr>)) (\<lambda>_.
     pass (map_of (ck_types st) n)))"

definition new_type_def :: "resolved_name \<Rightarrow> type_definition \<Rightarrow> unit check" where
  "new_type_def n d = chain (insert_type_def n d) (\<lambda>opt. if opt = None then pass () else crash PkAssert)"

text \<open>\<open>insert_declaration(..).unwrap()\<close>\<close>

definition insert_unwrap ::
  "scope_ref \<Rightarrow> ident \<Rightarrow> declaration_kind \<Rightarrow> (declaration_kind \<Rightarrow> bool) \<Rightarrow> unit check" where
  "insert_unwrap s i kind update_if =
     chain (on_graph (\<lambda>g. insert_declaration g s (Meta i 0) kind [] update_if)) (\<lambda>r.
     if isl r then crash PkUnwrap else pass ())"

definition declare_builtin_type :: "ident \<times> type_definition \<Rightarrow> unit check" where
  "declare_builtin_type it = (case it of (i, ty) \<Rightarrow>
     let name = ResolvedName GLOBAL i in
     chain (insert_at (\<lambda>g. insert_type g GLOBAL (Meta i 0) [] ty) (Meta i 0)) (\<lambda>_.
     chain (case ty of
         DEnum _ variants \<Rightarrow>
           chain (declaration_of name) (\<lambda>dec. case dec_kind dec of
             DkType (TsType type_def) \<Rightarrow>
               chain (need PkUnwrap (dec_scope dec)) (\<lambda>s.
               each_of (\<lambda>v. insert_unwrap s (ev_name v) (DkEnum (Some (type_def, v))) (\<lambda>_. False)) variants)
           | _ \<Rightarrow> crash PkIce)
       | _ \<Rightarrow> pass ()) (\<lambda>_.
     chain (insert_type_def name ty) (\<lambda>_. pass ()))))"

definition declare_builtin_types :: "unit check" where
  "declare_builtin_types = each_of declare_builtin_type default_types"

text \<open>\<open>TypeChecker::new\<close>; a failure in it is a panic.\<close>

definition blank_checker :: "nat \<Rightarrow> checker" where
  "blank_checker fuel =
     \<lparr>ck_tables = \<lparr>tt_scope_graph = graph_new, tt_expr_types = Map.empty, tt_resolved_names = Map.empty,
        tt_function_scopes = Map.empty, tt_function_calls = Map.empty, tt_function_signatures = Map.empty,
        tt_path_kinds = Map.empty, tt_diverges = Map.empty\<rparr>,
      ck_types = [], ck_unionfind = \<lparr>uf_inner = []\<rparr>, ck_match = 0, ck_if_else = 0, ck_while = 0, ck_for = 0,
      ck_block = 0, ck_obligations = [], ck_references = [], ck_fuel = fuel\<rparr>"

definition new_checker :: "nat \<Rightarrow> checker option" where
  "new_checker fuel = (case declare_builtin_types (blank_checker fuel) of Checked _ st \<Rightarrow> Some st | _ \<Rightarrow> None)"

section \<open>Items of the runtime\<close>

text \<open>These answer with an error message, \<open>Result<_, String>\<close>.\<close>

definition declare_runtime_module :: "scope_ref option \<Rightarrow> ident \<Rightarrow> string \<Rightarrow> (string + scope_ref) check" where
  "declare_runtime_module parent i doc =
     (let scope = (case parent of Some p \<Rightarrow> p | None \<Rightarrow> GLOBAL) in
      chain (wrap_scope GLOBAL (StModule \<lparr>ms_name = ResolvedName scope i, ms_parent_module = parent\<rparr>)) (\<lambda>mod_scope.
      chain (on_graph (\<lambda>g. insert_module g scope (Meta i 0) doc mod_scope)) (\<lambda>r.
      pass (if isl r then Inl (''An item with the name '' @ quoted i @ '' already exists'') else Inr mod_scope))))"

definition is_builtin_type :: "declaration_kind \<Rightarrow> bool" where
  "is_builtin_type k = (case k of DkType (TsType (DPrimitive _)) \<Rightarrow> True | DkType (TsType (DList _)) \<Rightarrow> True | _ \<Rightarrow> False)"

definition set_doc :: "resolved_name \<Rightarrow> string \<Rightarrow> unit check" where
  "set_doc n doc =
     chain (declaration_of n) (\<lambda>d.
     on_graph (\<lambda>g. (g\<lparr>sg_declarations := (sg_declarations g)(n \<mapsto> d\<lparr>dec_doc := doc\<rparr>)\<rparr>, ())))"

definition declare_runtime_type :: "scope_ref \<Rightarrow> ident \<Rightarrow> type_id \<Rightarrow> string \<Rightarrow> (string + unit) check" where
  "declare_runtime_type scope i type_id doc =
     (let name = ResolvedName scope i; ty = DRuntime name type_id in
      chain (find_name scope i True) (\<lambda>other.
      case (case other of Some d \<Rightarrow> if is_builtin_type (dec_kind d) then Some d else None | None \<Rightarrow> None) of
        Some d \<Rightarrow> chain (set_doc (dec_name d) doc) (\<lambda>_. pass (Inr ()))
      | None \<Rightarrow>
          chain (on_graph (\<lambda>g. insert_type g scope (Meta i 0) doc ty)) (\<lambda>r.
          if isl r then pass (Inl (''Item '' @ quoted i @ '' already exists in this scope''))
          else chain (insert_type_def name ty) (\<lambda>_. pass (Inr ())))))"

definition declare_runtime_function ::
  "scope_ref \<Rightarrow> ident \<Rightarrow> nat \<Rightarrow> ident list \<Rightarrow> signature \<Rightarrow> string \<Rightarrow> bool \<Rightarrow> (string + unit) check" where
  "declare_runtime_function scope i f parameter_names sg doc method =
     chain (on_graph (\<lambda>g.
       if method then insert_method g scope (Meta i 0) (FdRuntime f) parameter_names doc sg
       else insert_function g scope (Meta i 0) (FdRuntime f) parameter_names doc sg)) (\<lambda>r.
     pass (if isl r then Inl ''name is declared twice'' else Inr ()))"

definition declare_runtime_constant :: "scope_ref \<Rightarrow> ident \<Rightarrow> rtype \<Rightarrow> string \<Rightarrow> (string + unit) check" where
  "declare_runtime_constant scope i ty doc =
     chain (on_graph (\<lambda>g. insert_runtime_constant g scope (Meta i 0) ty doc)) (\<lambda>r.
     pass (if isl r then Inl ''Name declared twice!'' else Inr ()))"

definition declare_runtime_import :: "scope_ref \<Rightarrow> resolved_name \<Rightarrow> (string + unit) check" where
  "declare_runtime_import scope name =
     chain the_graph (\<lambda>g. case insert_import g scope 0 name of
       None \<Rightarrow> crash PkIndex
     | Some (g', r) \<Rightarrow>
         chain (on_graph (\<lambda>_. (g', ()))) (\<lambda>_. pass (if isl r then Inl ''Name declared twice!'' else Inr ())))"

text \<open>The fields of the context as the runtime has them: name, name of the registered type and offset.\<close>

definition check_declare_context :: "(ident \<times> resolved_name \<times> nat) list \<Rightarrow> unit check" where
  "check_declare_context fs =
     each_of (\<lambda>(i, ty, offset). declare_context (Meta i 0) (TName (TypeName ty [])) offset) fs"

section \<open>Declaring the items of a program\<close>

text \<open>A module of the program; its parent is an index into the modules before it.\<close>

record module_decl =
  md_ident :: "name meta"
  md_ast :: syntax_tree
  md_parent :: "nat option"

type_synonym modules = "(scope_ref \<times> module_decl) list"

definition variant_ident :: "variant_decl \<Rightarrow> name meta" where
  "variant_ident v = (case v of VariantDecl i _ \<Rightarrow> i)"

text \<open>The kind of declaration an item gets at first, its name, and the variants it brings.\<close>

fun stub_of :: "declaration_item \<Rightarrow> (declaration_kind \<times> name meta \<times> name meta list) option" where
  "stub_of (DeRecord i ps _) = Some (DkType (TsStub (length ps)), i, [])"
| "stub_of (DeEnum i ps vs) = Some (DkType (TsStub (length ps)), i, map variant_ident (node vs))"
| "stub_of (DeFunction i _ _ _) = Some (DkFunction None, i, [])"
| "stub_of (DeFilterMap _ i _ _) = Some (DkFunction None, i, [])"
| "stub_of (DeConst i _ _) = Some (DkValue VkConstant None, i, [])"
| "stub_of (DeImport _) = None"
| "stub_of (DeTest _ _) = None"

definition declare_stub :: "scope_ref \<Rightarrow> declaration_item \<Rightarrow> unit check" where
  "declare_stub scope d = (case stub_of d of
     None \<Rightarrow> pass ()
   | Some (kind, i, variants) \<Rightarrow>
       let i = ast_ident i in
       chain (case kind of
           DkType _ \<Rightarrow> chain (wrap_scope scope (StType (node i))) (\<lambda>s. pass (Some s))
         | _ \<Rightarrow> pass None) (\<lambda>new_scope.
       chain (insert_at (\<lambda>g. insert_declaration g scope i kind [] (\<lambda>_. False)) i) (\<lambda>name.
       chain (on_graph (\<lambda>g. (set_dec_scope g name (\<lambda>_. new_scope), ()))) (\<lambda>_.
       case new_scope of
         None \<Rightarrow> pass ()
       | Some s \<Rightarrow>
           each_of (\<lambda>v. chain (insert_at (\<lambda>g. insert_declaration g s (ast_ident v) (DkEnum None) [] (\<lambda>_. False)) i)
             (\<lambda>_. pass ())) variants))))"

fun declare_modules :: "modules \<Rightarrow> module_decl list \<Rightarrow> modules check" where
  "declare_modules done [] = pass done"
| "declare_modules done (m # ms) =
     (let i = ast_ident (md_ident m) in
      chain (case md_parent m of
          None \<Rightarrow> pass None
        | Some p \<Rightarrow> chain (need PkIndex (index done p)) (\<lambda>x. pass (Some (fst x)))) (\<lambda>parent_module.
      let outer = (case parent_module of Some p \<Rightarrow> p | None \<Rightarrow> GLOBAL) in
      chain (wrap_scope GLOBAL (StModule \<lparr>ms_name = ResolvedName outer (node i), ms_parent_module = parent_module\<rparr>))
        (\<lambda>scope.
      chain (declare_module outer i [] scope) (\<lambda>_.
      chain (each_of (declare_stub scope) (md_ast m)) (\<lambda>_.
      declare_modules (done @ [(scope, m)]) ms)))))"

fun imports_of :: "declaration_item \<Rightarrow> path meta list" where
  "imports_of (DeImport paths) = paths"
| "imports_of _ = []"

definition declare_imports :: "modules \<Rightarrow> unit check" where
  "declare_imports ms = each_of (\<lambda>(scope, m). import_paths scope (concat (map imports_of (md_ast m)))) ms"

definition declare_type_params :: "scope_ref \<Rightarrow> name meta list \<Rightarrow> scope_ref check" where
  "declare_type_params scope type_params =
     chain (wrap_scope scope StTypeParams) (\<lambda>eval_scope.
     chain (each_of (\<lambda>p. chain (insert_at (\<lambda>g. insert_declaration g eval_scope (ast_ident p)
              (DkTypeParam (ident_of (node p))) [] (\<lambda>_. False)) (ast_ident p)) (\<lambda>_. pass ())) type_params) (\<lambda>_.
     pass eval_scope))"

definition generic_name :: "scope_ref \<Rightarrow> name meta \<Rightarrow> name meta list \<Rightarrow> type_name" where
  "generic_name scope i type_params =
     TypeName (ResolvedName scope (ident_of (node i))) (map (\<lambda>p. TExplicitVar (ident_of (node p))) type_params)"

definition evaluate_variant :: "scope_ref \<Rightarrow> variant_decl \<Rightarrow> enum_variant check" where
  "evaluate_variant eval_scope v = (case v of VariantDecl i tys \<Rightarrow>
     chain (gather (evaluate_type eval_scope) tys) (\<lambda>ts.
     pass \<lparr>ev_name = ident_of (node i), ev_fields = ts\<rparr>))"

definition declare_type :: "scope_ref \<Rightarrow> name meta \<Rightarrow> type_definition \<Rightarrow> unit check" where
  "declare_type scope i d =
     chain (insert_at (\<lambda>g. insert_type g scope (ast_ident i) [] d) (ast_ident i)) (\<lambda>_.
     new_type_def (ResolvedName scope (ident_of (node i))) d)"

fun declare_type_item :: "scope_ref \<Rightarrow> declaration_item \<Rightarrow> unit check" where
  "declare_type_item scope (DeEnum i type_params variants) =
     chain (declare_type_params scope type_params) (\<lambda>eval_scope.
     chain (gather (evaluate_variant eval_scope) (node variants)) (\<lambda>vs.
     let d = DEnum (generic_name scope i type_params) vs in
     chain (declare_type scope i d) (\<lambda>_.
     chain (get_scope_of scope (ident_of (node i))) (\<lambda>inner.
     chain (need PkUnwrap inner) (\<lambda>inner_scope.
     each_of (\<lambda>v. insert_unwrap inner_scope (ev_name v) (DkEnum (Some (d, v))) (\<lambda>k. k = DkEnum None)) vs)))))"
| "declare_type_item scope (DeRecord i type_params record_type) =
     chain (declare_type_params scope type_params) (\<lambda>eval_scope.
     chain (evaluate_record_type eval_scope record_type) (\<lambda>fs.
     declare_type scope i (DRecord (generic_name scope i type_params) fs)))"
| "declare_type_item scope _ = pass ()"

definition for_items :: "(scope_ref \<Rightarrow> declaration_item \<Rightarrow> unit check) \<Rightarrow> modules \<Rightarrow> unit check" where
  "for_items f ms = each_of (\<lambda>(scope, m). each_of (f scope) (md_ast m)) ms"

definition declare_types :: "modules \<Rightarrow> unit check" where
  "declare_types ms = for_items declare_type_item ms"

definition parameter_names :: "params \<Rightarrow> ident list" where
  "parameter_names ps = map (\<lambda>p. ident_of (node (fst p))) ps"

fun declare_function_item :: "scope_ref \<Rightarrow> declaration_item \<Rightarrow> unit check" where
  "declare_function_item scope (DeFunction i ps ret _) =
     chain (check_function_type scope (node ps) ret) (\<lambda>sg.
     declare_function scope (ast_ident i) FdRoto (parameter_names (node ps)) [] sg)"
| "declare_function_item scope (DeFilterMap _ i ps _) =
     chain (check_filter_map_type scope (node ps)) (\<lambda>sg.
     declare_function scope (ast_ident i) FdRoto (parameter_names (node ps)) [] sg)"
| "declare_function_item scope (DeConst i ty _) =
     chain (evaluate_type scope ty) (\<lambda>t. declare_const scope (ast_ident i) t)"
| "declare_function_item scope _ = pass ()"

definition declare_functions :: "modules \<Rightarrow> unit check" where
  "declare_functions ms = for_items declare_function_item ms"

section \<open>The whole program\<close>

fun check_item :: "nat \<Rightarrow> scope_ref \<Rightarrow> declaration_item \<Rightarrow> unit check" where
  "check_item n scope (DeFilterMap _ i ps body) = check_filter_map n scope i (node ps) body"
| "check_item n scope (DeFunction i ps ret body) = check_function n scope i (node ps) ret body"
| "check_item n scope (DeConst i ty e) = check_constant n scope i ty e"
| "check_item n scope (DeTest i body) = check_test n scope i body"
| "check_item n scope _ = pass ()"

definition check_tree :: "nat \<Rightarrow> modules \<Rightarrow> unit check" where
  "check_tree n ms = for_items (check_item n) ms"

definition force_unit :: "rtype \<Rightarrow> meta_id \<Rightarrow> unit check" where
  "force_unit t i = chain (resolve t) (\<lambda>t'. case t' of
     TVar x \<Rightarrow> chain (attempt (unify_at (TVar x) TUnit i)) (\<lambda>r. if isl r then crash PkUnwrap else pass ())
   | _ \<Rightarrow> pass ())"

fun force_filtermap :: "declaration_item \<Rightarrow> unit check" where
  "force_filtermap (DeFilterMap _ i _ _) =
     chain the_checker (\<lambda>st.
     chain (need PkIndex (tt_function_signatures (ck_tables st) (meta_id i))) (\<lambda>sg. case return_type sg of
       TName tn \<Rightarrow>
         (case tn_arguments tn of
            [a, r] \<Rightarrow> chain (force_unit a (meta_id i)) (\<lambda>_. force_unit r (meta_id i))
          | _ \<Rightarrow> crash PkIce)
     | _ \<Rightarrow> crash PkIce))"
| "force_filtermap _ = pass ()"

definition force_filtermap_types :: "modules \<Rightarrow> unit check" where
  "force_filtermap_types ms = for_items (\<lambda>_. force_filtermap) ms"

fun cycle_message :: "cycle_error \<Rightarrow> string" where
  "cycle_message CycleDetected = ''cycle detected!''"
| "cycle_message UnresolvedVariable = ''there should be no unresolved type variables left''"

text \<open>\<open>key_order\<close> is the order in which the hash map of the types yields its keys.\<close>

definition check_type_cycles :: "(resolved_name list \<Rightarrow> resolved_name list) \<Rightarrow> unit check" where
  "check_type_cycles key_order =
     chain the_checker (\<lambda>st.
     chain (defined (detect_type_cycles (length (ck_types st) + 1) (map_of (ck_types st))
              (key_order (map fst (ck_types st))))) (\<lambda>r. case r of
       Inl e \<Rightarrow> reject (ErrSimple (cycle_message e) ''type cycle detected'' 0)
     | Inr _ \<Rightarrow> pass ()))"

fun order_type_error :: "order_error \<Rightarrow> type_error" where
  "order_type_error (RecursiveConstant i j) = ErrRecursiveConstant i j"
| "order_type_error (ConstantUsesContext i j) = ErrConstantUsesContext i j"

text \<open>More than the number of names in the graph.\<close>

definition reference_fuel :: "resolved_name ref_map \<Rightarrow> nat" where
  "reference_fuel r = Suc (length r + sum_list (map (\<lambda>(_, ws). length ws) r))"

definition compilation_order :: "resolved_name list check" where
  "compilation_order =
     chain the_checker (\<lambda>st.
     chain (defined (find_compilation_order (reference_fuel (ck_references st)) (tt_scope_graph (ck_tables st))
              (ck_references st))) (\<lambda>r. case r of
       Inl e \<Rightarrow> reject (order_type_error e)
     | Inr order \<Rightarrow> pass order))"

definition check_module_tree ::
  "nat \<Rightarrow> (resolved_name list \<Rightarrow> resolved_name list) \<Rightarrow> module_decl list \<Rightarrow> resolved_name list check" where
  "check_module_tree n key_order tree =
     chain (declare_modules [] tree) (\<lambda>ms.
     chain (declare_imports ms) (\<lambda>_.
     chain (declare_types ms) (\<lambda>_.
     chain (check_type_cycles key_order) (\<lambda>_.
     chain (declare_functions ms) (\<lambda>_.
     chain (check_tree n ms) (\<lambda>_.
     chain (force_filtermap_types ms) (\<lambda>_.
     compilation_order)))))))"

definition typecheck ::
  "nat \<Rightarrow> (resolved_name list \<Rightarrow> resolved_name list) \<Rightarrow> (ident \<times> resolved_name \<times> nat) list \<Rightarrow> module_decl list
     \<Rightarrow> resolved_name list check" where
  "typecheck n key_order context_fields tree =
     chain (check_declare_context context_fields) (\<lambda>_. check_module_tree n key_order tree)"

end
