(* ===== verification/Check_Logic.thy ===== *)
theory Check_Logic
  imports Check_Items
begin

text \<open>
  A logic for the steps of the type checker.  The invariant is that the scope graph is well-formed and the scopes
  of its declarations exist.  \<open>grows\<close> relates the states before and after a step: scopes keep their place,
  declarations and table entries are never lost.  A \<open>fact\<close> is a statement about the state that growth preserves, and
  \<open>does F m Q\<close> says that a step from a state with the facts \<open>F\<close> keeps the invariant, makes the state grow, also when it
  answers an error, and on success establishes the facts \<open>Q x\<close> about its value.
\<close>

section \<open>Invariant and growth\<close>

abbreviation graph :: "checker \<Rightarrow> scope_graph" where
  "graph st \<equiv> tt_scope_graph (ck_tables st)"

definition scopes_in_range :: "scope_graph \<Rightarrow> bool" where
  "scopes_in_range g \<longleftrightarrow> (\<forall>n d s. sg_declarations g n = Some d \<longrightarrow> dec_scope d = Some s \<longrightarrow> s < length (sg_scopes g))"

definition graph_inv :: "scope_graph \<Rightarrow> bool" where
  "graph_inv g \<longleftrightarrow> graph_ok g \<and> scopes_in_range g \<and> 0 < length (sg_scopes g)"

text \<open>Scopes keep their number and type, and may gain imports; declarations stay.\<close>

definition graph_extends :: "scope_graph \<Rightarrow> scope_graph \<Rightarrow> bool" where
  "graph_extends g g' \<longleftrightarrow> map sc_type (sg_scopes g) = take (length (sg_scopes g)) (map sc_type (sg_scopes g')) \<and>
     length (sg_scopes g) \<le> length (sg_scopes g') \<and> dom (sg_declarations g) \<subseteq> dom (sg_declarations g')"

lemma graph_extends_refl [simp]: "graph_extends g g"
  by (simp add: graph_extends_def)

lemma graph_extends_trans: "graph_extends a b \<Longrightarrow> graph_extends b c \<Longrightarrow> graph_extends a c"
  unfolding graph_extends_def by (auto simp: min_def)

lemma graph_extends_type:
  assumes "graph_extends g g'" and "s < length (sg_scopes g)"
  shows "sc_type (sg_scopes g' ! s) = sc_type (sg_scopes g ! s)"
proof -
  have "map sc_type (sg_scopes g) ! s = take (length (sg_scopes g)) (map sc_type (sg_scopes g')) ! s"
    using assms(1) by (simp add: graph_extends_def)
  moreover have "s < length (sg_scopes g')" using assms by (simp add: graph_extends_def)
  ultimately show ?thesis using assms(2) by simp
qed

lemma graph_grows_extends: "graph_grows g g' \<Longrightarrow> graph_extends g g'"
  unfolding graph_extends_def graph_grows_def
proof (intro conjI)
  assume a: "(\<forall>i sc. index (sg_scopes g) i = Some sc \<longrightarrow> index (sg_scopes g') i = Some sc) \<and>
    dom (sg_declarations g) \<subseteq> dom (sg_declarations g')"
  show len: "length (sg_scopes g) \<le> length (sg_scopes g')"
  proof (cases "sg_scopes g = []")
    case False
    then have "index (sg_scopes g) (length (sg_scopes g) - 1) = Some (last (sg_scopes g))"
      by (simp add: index_Some_iff last_conv_nth)
    with a have "index (sg_scopes g') (length (sg_scopes g) - 1) = Some (last (sg_scopes g))" by blast
    with False show ?thesis by (cases "length (sg_scopes g)") (auto simp: index_Some_iff)
  qed simp
  show "map sc_type (sg_scopes g) = take (length (sg_scopes g)) (map sc_type (sg_scopes g'))"
  proof (rule nth_equalityI)
    fix i assume "i < length (map sc_type (sg_scopes g))"
    with a have "index (sg_scopes g') i = Some (sg_scopes g ! i)" by (simp add: index_Some_iff)
    then show "map sc_type (sg_scopes g) ! i = take (length (sg_scopes g)) (map sc_type (sg_scopes g')) ! i"
      using \<open>i < _\<close> by (simp add: index_Some_iff)
  qed (use len in simp)
  show "dom (sg_declarations g) \<subseteq> dom (sg_declarations g')" using a by blast
qed

definition tables_grow :: "type_tables \<Rightarrow> type_tables \<Rightarrow> bool" where
  "tables_grow a b \<longleftrightarrow> dom (tt_expr_types a) \<subseteq> dom (tt_expr_types b) \<and>
     dom (tt_resolved_names a) \<subseteq> dom (tt_resolved_names b) \<and>
     dom (tt_function_scopes a) \<subseteq> dom (tt_function_scopes b) \<and>
     dom (tt_function_calls a) \<subseteq> dom (tt_function_calls b) \<and>
     dom (tt_function_signatures a) \<subseteq> dom (tt_function_signatures b) \<and>
     dom (tt_path_kinds a) \<subseteq> dom (tt_path_kinds b) \<and> dom (tt_diverges a) \<subseteq> dom (tt_diverges b)"

lemma tables_grow_refl [simp]: "tables_grow a a"
  by (simp add: tables_grow_def)

lemma tables_grow_trans: "tables_grow a b \<Longrightarrow> tables_grow b c \<Longrightarrow> tables_grow a c"
  unfolding tables_grow_def by (elim conjE) (intro conjI; erule (1) subset_trans)

definition grows :: "checker \<Rightarrow> checker \<Rightarrow> bool" where
  "grows a b \<longleftrightarrow> graph_extends (graph a) (graph b) \<and> tables_grow (ck_tables a) (ck_tables b)"

lemma grows_refl [simp]: "grows a a"
  by (simp add: grows_def)

lemma grows_trans: "grows a b \<Longrightarrow> grows b c \<Longrightarrow> grows a c"
  unfolding grows_def using graph_extends_trans tables_grow_trans by blast

definition checker_inv :: "checker \<Rightarrow> bool" where
  "checker_inv st \<longleftrightarrow> graph_inv (graph st)"

section \<open>Facts\<close>

typedef fact = "{f :: checker \<Rightarrow> bool. \<forall>a b. grows a b \<longrightarrow> f a \<longrightarrow> f b}"
  by (rule exI [of _ "\<lambda>_. True"]) simp

setup_lifting type_definition_fact

lift_definition true_in :: "fact \<Rightarrow> checker \<Rightarrow> bool" is "\<lambda>f. f" .

lemma true_in_grows: "true_in f a \<Longrightarrow> grows a b \<Longrightarrow> true_in f b"
  by transfer blast

lift_definition Scope :: "scope_ref \<Rightarrow> fact" is "\<lambda>s st. s < length (sg_scopes (graph st))"
  by (auto simp: grows_def graph_extends_def)

lift_definition ModuleScope :: "scope_ref \<Rightarrow> fact" is
  "\<lambda>s st. \<exists>m. s < length (sg_scopes (graph st)) \<and> sc_type (sg_scopes (graph st) ! s) = StModule m \<and>
     sg_declarations (graph st) (ms_name m) \<noteq> None"
proof -
  fix s a b
  assume g: "grows a b" and "\<exists>m. s < length (sg_scopes (graph a)) \<and> sc_type (sg_scopes (graph a) ! s) = StModule m \<and>
    sg_declarations (graph a) (ms_name m) \<noteq> None"
  then obtain m where m: "s < length (sg_scopes (graph a))" "sc_type (sg_scopes (graph a) ! s) = StModule m"
    "sg_declarations (graph a) (ms_name m) \<noteq> None" by blast
  have "sc_type (sg_scopes (graph b) ! s) = StModule m"
    using graph_extends_type [of "graph a" "graph b" s] g m by (simp add: grows_def)
  with m g show "\<exists>m. s < length (sg_scopes (graph b)) \<and> sc_type (sg_scopes (graph b) ! s) = StModule m \<and>
    sg_declarations (graph b) (ms_name m) \<noteq> None"
    by (auto simp: grows_def graph_extends_def)
qed

lift_definition Declared :: "resolved_name \<Rightarrow> fact" is "\<lambda>n st. sg_declarations (graph st) n \<noteq> None"
  by (auto simp: grows_def graph_extends_def)

lift_definition Typed :: "meta_id \<Rightarrow> fact" is "\<lambda>i st. tt_expr_types (ck_tables st) i \<noteq> None"
  by (auto simp: grows_def tables_grow_def)

lift_definition Named :: "meta_id \<Rightarrow> fact" is "\<lambda>i st. tt_resolved_names (ck_tables st) i \<noteq> None"
  by (auto simp: grows_def tables_grow_def)

lift_definition Pathed :: "meta_id \<Rightarrow> fact" is "\<lambda>i st. tt_path_kinds (ck_tables st) i \<noteq> None"
  by (auto simp: grows_def tables_grow_def)

lift_definition Called :: "meta_id \<Rightarrow> fact" is "\<lambda>i st. tt_function_calls (ck_tables st) i \<noteq> None"
  by (auto simp: grows_def tables_grow_def)

lift_definition HasSignature :: "meta_id \<Rightarrow> fact" is "\<lambda>i st. tt_function_signatures (ck_tables st) i \<noteq> None"
  by (auto simp: grows_def tables_grow_def)

lift_definition Scoped :: "meta_id \<Rightarrow> fact" is "\<lambda>i st. tt_function_scopes (ck_tables st) i \<noteq> None"
  by (auto simp: grows_def tables_grow_def)

lift_definition Diverging :: "meta_id \<Rightarrow> fact" is "\<lambda>i st. tt_diverges (ck_tables st) i \<noteq> None"
  by (auto simp: grows_def tables_grow_def)

section \<open>Triples\<close>

definition does :: "fact set \<Rightarrow> 'a check \<Rightarrow> ('a \<Rightarrow> fact set) \<Rightarrow> bool" where
  "does F m Q \<longleftrightarrow> (\<forall>st. checker_inv st \<longrightarrow> (\<forall>f \<in> F. true_in f st) \<longrightarrow>
     (case m st of
        Checked x st' \<Rightarrow> checker_inv st' \<and> grows st st' \<and> (\<forall>f \<in> Q x. true_in f st')
      | Rejected _ st' \<Rightarrow> checker_inv st' \<and> grows st st'
      | _ \<Rightarrow> True))"

named_theorems does_rules \<open>steps and the facts they establish\<close>

lemma does_chain:
  assumes m: "does F m Q" and f: "\<And>x. does (F \<union> Q x) (f x) R"
  shows "does F (chain m f) R"
  unfolding does_def
proof (intro allI impI)
  fix st assume st: "checker_inv st" "\<forall>f \<in> F. true_in f st"
  show "case chain m f st of
      Checked x st' \<Rightarrow> checker_inv st' \<and> grows st st' \<and> (\<forall>f \<in> R x. true_in f st')
    | Rejected _ st' \<Rightarrow> checker_inv st' \<and> grows st st' | _ \<Rightarrow> True"
  proof (cases "m st")
    case (Checked x st1)
    with m st have s1: "checker_inv st1" "grows st st1" "\<forall>f \<in> Q x. true_in f st1" unfolding does_def by fastforce+
    with st(2) have "\<forall>f \<in> F \<union> Q x. true_in f st1" using true_in_grows by blast
    with f [of x] s1(1) have "case f x st1 of
        Checked y st' \<Rightarrow> checker_inv st' \<and> grows st1 st' \<and> (\<forall>f \<in> R y. true_in f st')
      | Rejected _ st' \<Rightarrow> checker_inv st' \<and> grows st1 st' | _ \<Rightarrow> True" unfolding does_def by blast
    with Checked s1(2) show ?thesis by (auto simp: chain_def split: checked.splits intro: grows_trans)
  next
    case (Rejected e st1)
    with m st show ?thesis unfolding does_def by (fastforce simp: chain_def)
  qed (simp_all add: chain_def)
qed

lemma does_pass [does_rules]: "Q x \<subseteq> F \<Longrightarrow> does F (pass x) Q"
  by (auto simp: does_def pass_def)

lemma does_pass_nothing [does_rules]: "does F (pass x) (\<lambda>_. {})"
  by (rule does_pass) simp

lemma does_reject [does_rules]: "does F (reject e) Q"
  by (simp add: does_def reject_def)

lemma does_crash [does_rules]: "does F (crash p) Q" "does F stuck Q"
  by (simp_all add: does_def crash_def stuck_def)

lemma does_weaken:
  assumes "does F m Q" and "F \<subseteq> G" and "\<And>x. R x \<subseteq> Q x"
  shows "does G m R"
  unfolding does_def
proof (intro allI impI)
  fix st assume "checker_inv st" and "\<forall>f \<in> G. true_in f st"
  with assms(1,2) have "case m st of
      Checked x st' \<Rightarrow> checker_inv st' \<and> grows st st' \<and> (\<forall>f \<in> Q x. true_in f st')
    | Rejected _ st' \<Rightarrow> checker_inv st' \<and> grows st st' | _ \<Rightarrow> True"
    unfolding does_def by blast
  with assms(3) show "case m st of
      Checked x st' \<Rightarrow> checker_inv st' \<and> grows st st' \<and> (\<forall>f \<in> R x. true_in f st')
    | Rejected _ st' \<Rightarrow> checker_inv st' \<and> grows st st' | _ \<Rightarrow> True"
    by (fastforce split: checked.splits)
qed

lemma does_nothing: "does F m Q \<Longrightarrow> does F m (\<lambda>_. {})"
  by (erule does_weaken) auto

lemma does_then: "does F m (\<lambda>_. {}) \<Longrightarrow> (\<And>x. does F (f x) R) \<Longrightarrow> does F (chain m f) R"
  by (erule does_chain) simp

lemma does_frame:
  assumes "does F m Q"
  shows "does F m (\<lambda>x. F \<union> Q x)"
  unfolding does_def
proof (intro allI impI)
  fix st assume st: "checker_inv st" "\<forall>f \<in> F. true_in f st"
  with assms have r: "case m st of
      Checked x st' \<Rightarrow> checker_inv st' \<and> grows st st' \<and> (\<forall>f \<in> Q x. true_in f st')
    | Rejected _ st' \<Rightarrow> checker_inv st' \<and> grows st st' | _ \<Rightarrow> True" unfolding does_def by blast
  have "\<forall>f \<in> F. true_in f st'" if "grows st st'" for st' using st(2) true_in_grows that by blast
  with r show "case m st of
      Checked x st' \<Rightarrow> checker_inv st' \<and> grows st st' \<and> (\<forall>f \<in> F \<union> Q x. true_in f st')
    | Rejected _ st' \<Rightarrow> checker_inv st' \<and> grows st st' | _ \<Rightarrow> True"
    by (cases "m st") (simp_all, blast)
qed

lemma does_last:
  assumes "does F m Q" and "\<And>x. R x \<subseteq> F \<union> Q x"
  shows "does F m R"
  by (rule does_weaken [OF does_frame [OF assms(1)]]) (use assms(2) in auto)

lemma does_attempt:
  assumes "does F m Q"
  shows "does F (attempt m) (\<lambda>r. case r of Inl _ \<Rightarrow> {} | Inr x \<Rightarrow> Q x)"
  unfolding does_def
proof (intro allI impI)
  fix st assume "checker_inv st" and "\<forall>f \<in> F. true_in f st"
  with assms have "case m st of
      Checked x st' \<Rightarrow> checker_inv st' \<and> grows st st' \<and> (\<forall>f \<in> Q x. true_in f st')
    | Rejected _ st' \<Rightarrow> checker_inv st' \<and> grows st st' | _ \<Rightarrow> True" unfolding does_def by blast
  then show "case attempt m st of
      Checked r st' \<Rightarrow> checker_inv st' \<and> grows st st' \<and> (\<forall>f \<in> (case r of Inl _ \<Rightarrow> {} | Inr x \<Rightarrow> Q x). true_in f st')
    | Rejected _ st' \<Rightarrow> checker_inv st' \<and> grows st st' | _ \<Rightarrow> True"
    by (cases "m st") (simp_all add: attempt_def)
qed

lemma does_if [does_rules]: "(c \<Longrightarrow> does F m Q) \<Longrightarrow> (\<not> c \<Longrightarrow> does F m' Q) \<Longrightarrow> does F (if c then m else m') Q"
  by simp

lemma does_option [does_rules]:
  "(x = None \<Longrightarrow> does F m Q) \<Longrightarrow> (\<And>v. x = Some v \<Longrightarrow> does F (f v) Q) \<Longrightarrow>
   does F (case x of None \<Rightarrow> m | Some v \<Rightarrow> f v) Q"
  by (cases x) simp_all

lemma does_prod [does_rules]: "(\<And>a b. x = (a, b) \<Longrightarrow> does F (f a b) Q) \<Longrightarrow> does F (case x of (a, b) \<Rightarrow> f a b) Q"
  by (cases x) simp

lemma does_sum [does_rules]:
  "(\<And>v. x = Inl v \<Longrightarrow> does F (f v) Q) \<Longrightarrow> (\<And>v. x = Inr v \<Longrightarrow> does F (g v) Q) \<Longrightarrow>
   does F (case x of Inl v \<Rightarrow> f v | Inr v \<Rightarrow> g v) Q"
  by (cases x) simp_all

lemma does_let [does_rules]: "does F (f x) Q \<Longrightarrow> does F (let y = x in f y) Q"
  by (simp add: Let_def)

lemma does_checker [does_rules]: "does F the_checker (\<lambda>_. {})"
  by (simp add: does_def the_checker_def)

lemma does_need [does_rules]: "does F (need p x) (\<lambda>_. {})"
  by (cases x) (simp_all add: need_def does_rules)

lemma does_defined [does_rules]: "does F (defined x) (\<lambda>_. {})"
  by (cases x) (simp_all add: defined_def does_rules)

lemma does_each_of:
  assumes "\<And>x. x \<in> set xs \<Longrightarrow> does F (f x) (\<lambda>_. Q x)"
  shows "does F (each_of f xs) (\<lambda>_. \<Union>x \<in> set xs. Q x)"
  using assms
proof (induction xs arbitrary: F)
  case (Cons x xs)
  have "does (F \<union> Q x) (each_of f xs) (\<lambda>_. \<Union>x \<in> set xs. Q x)"
    by (rule Cons.IH, rule does_weaken [OF Cons.prems]) auto
  from does_frame [OF this]
  have "does (F \<union> Q x) (each_of f xs) (\<lambda>_. \<Union>x \<in> set (x # xs). Q x)" by (rule does_weaken) auto
  then show ?case unfolding each_of.simps by (rule does_chain [OF Cons.prems, rotated]) simp
qed (simp add: does_rules)

lemma does_gather [does_rules]:
  assumes "\<And>x. x \<in> set xs \<Longrightarrow> does F (f x) (\<lambda>_. {})"
  shows "does F (gather f xs) (\<lambda>_. {})"
  using assms
proof (induction xs)
  case (Cons x xs)
  then have "does F (f x) (\<lambda>_. {})" "does F (gather f xs) (\<lambda>_. {})" by auto
  then show ?case
    unfolding gather.simps by (intro does_then does_pass) simp_all
qed (simp add: does_rules)

lemma does_any_of:
  assumes "\<And>x. x \<in> set xs \<Longrightarrow> does F (f x) (\<lambda>_. Q x)"
  shows "does F (any_of f acc xs) (\<lambda>_. \<Union>x \<in> set xs. Q x)"
  using assms
proof (induction xs arbitrary: F acc)
  case (Cons x xs)
  have "does (F \<union> Q x) (any_of f (acc \<or> d) xs) (\<lambda>_. \<Union>x \<in> set xs. Q x)" for d
    by (rule Cons.IH, rule does_weaken [OF Cons.prems]) auto
  from does_frame [OF this]
  have "does (F \<union> Q x) (any_of f (acc \<or> d) xs) (\<lambda>_. \<Union>x \<in> set (x # xs). Q x)" for d by (rule does_weaken) auto
  then show ?case unfolding any_of.simps by (rule does_chain [OF Cons.prems, rotated]) simp
qed (simp add: does_rules)

text \<open>Without facts.\<close>

lemma does_each [does_rules]: "(\<And>x. x \<in> set xs \<Longrightarrow> does F (f x) (\<lambda>_. {})) \<Longrightarrow> does F (each_of f xs) (\<lambda>_. {})"
  using does_each_of [of xs F f "\<lambda>_. {}"] by simp

lemma does_try [does_rules]: "does F m (\<lambda>_. {}) \<Longrightarrow> does F (attempt m) (\<lambda>_. {})"
  by (rule does_nothing [OF does_attempt])

section \<open>Steps on types and tables\<close>

text \<open>A step that leaves the tables alone.\<close>

lemma does_same_tables:
  assumes "\<And>st x st'. m st = Checked x st' \<Longrightarrow> ck_tables st' = ck_tables st"
    and "\<And>st e st'. m st = Rejected e st' \<Longrightarrow> ck_tables st' = ck_tables st"
  shows "does F m (\<lambda>_. {})"
  unfolding does_def
proof (intro allI impI)
  fix st assume st: "checker_inv st"
  show "case m st of
      Checked x st' \<Rightarrow> checker_inv st' \<and> grows st st' \<and> (\<forall>f \<in> {}. true_in f st')
    | Rejected _ st' \<Rightarrow> checker_inv st' \<and> grows st st' | _ \<Rightarrow> True"
  proof (cases "m st")
    case (Checked x st')
    from assms(1) [OF this] Checked st show ?thesis by (simp add: checker_inv_def grows_def)
  next
    case (Rejected e st')
    from assms(2) [OF this] Rejected st show ?thesis by (simp add: checker_inv_def grows_def)
  qed simp_all
qed

lemma does_fresh [does_rules]: "does F fresh_var (\<lambda>_. {})" "does F fresh_int (\<lambda>_. {})" "does F fresh_float (\<lambda>_. {})"
    "does F (fresh_record fs) (\<lambda>_. {})"
  by (rule does_same_tables,
      auto simp: fresh_var_def fresh_int_def fresh_float_def fresh_record_def fresh_def split: prod.splits)+

lemma does_types [does_rules]:
  "does F (instantiate_signature sg) (\<lambda>_. {})" "does F (instantiate_definition d) (\<lambda>_. {})"
  "does F (resolve t) (\<lambda>_. {})" "does F (is_numeric t) (\<lambda>_. {})" "does F (is_int_type t) (\<lambda>_. {})"
  "does F (unify_at a b i) (\<lambda>_. {})" "does F (must_be_signed x) (\<lambda>_. {})"
  by (rule does_same_tables,
      auto simp: instantiate_signature_def instantiate_definition_def resolve_def is_numeric_def is_int_type_def
        unify_at_def must_be_signed_def split: prod.splits option.splits sum.splits unify_error.splits)+

lemma does_must_unify [does_rules]: "does F (must_unify a b i) (\<lambda>_. {})"
  unfolding must_unify_def by (intro does_then does_rules) simp_all

lemma does_definition_of [does_rules]: "does F (definition_of n) (\<lambda>_. {})"
  unfolding definition_of_def by (intro does_then does_rules)

lemma does_counters [does_rules]:
  "does F next_match (\<lambda>_. {})" "does F next_if_else (\<lambda>_. {})" "does F next_while (\<lambda>_. {})"
  "does F next_for (\<lambda>_. {})" "does F next_block (\<lambda>_. {})" "does F (add_obligation ob) (\<lambda>_. {})"
  "does F take_obligations (\<lambda>_. {})" "does F (refer_node v) (\<lambda>_. {})" "does F (refer_edge v w) (\<lambda>_. {})"
  by (rule does_same_tables,
      auto simp: next_match_def next_if_else_def next_while_def next_for_def next_block_def add_obligation_def
        take_obligations_def refer_node_def refer_edge_def chain_def the_checker_def change_def pass_def)+

text \<open>A step that fills a table.\<close>

lemma does_change_tables:
  assumes "\<And>tt. tt_scope_graph (u tt) = tt_scope_graph tt" and "\<And>tt. tables_grow tt (u tt)"
    and "\<And>st f. f \<in> Q \<Longrightarrow> true_in f (st\<lparr>ck_tables := u (ck_tables st)\<rparr>)"
  shows "does F (change_tables u) (\<lambda>_. Q)"
  using assms by (simp add: does_def change_tables_def change_def checker_inv_def grows_def)

lemma does_tables [does_rules]:
  "does F (set_expr_type i t) (\<lambda>_. {Typed i})" "does F (set_resolved_name i n) (\<lambda>_. {Named i})"
  "does F (set_function_scope i s) (\<lambda>_. {Scoped i})" "does F (set_function_call i f) (\<lambda>_. {Called i})"
  "does F (set_function_signature i sg) (\<lambda>_. {HasSignature i})" "does F (set_path_kind i p) (\<lambda>_. {Pathed i})"
  "does F (set_diverges i b) (\<lambda>_. {Diverging i})"
  unfolding set_expr_type_def set_resolved_name_def set_function_scope_def set_function_call_def
    set_function_signature_def set_path_kind_def set_diverges_def
  by (rule does_change_tables, simp,
      auto simp: tables_grow_def Typed.rep_eq Named.rep_eq Scoped.rep_eq Called.rep_eq HasSignature.rep_eq Pathed.rep_eq
        Diverging.rep_eq true_in.rep_eq)+

lemma does_expr_type [does_rules]: "does F (expr_type i) (\<lambda>_. {})"
  unfolding expr_type_def by (intro does_then does_rules)

section \<open>Steps on the scope graph\<close>

lemma true_in_simps:
  "true_in (Scope s) st \<longleftrightarrow> s < length (sg_scopes (graph st))"
  "true_in (Declared n) st \<longleftrightarrow> sg_declarations (graph st) n \<noteq> None"
  "true_in (ModuleScope s) st \<longleftrightarrow> (\<exists>m. s < length (sg_scopes (graph st)) \<and>
     sc_type (sg_scopes (graph st) ! s) = StModule m \<and> sg_declarations (graph st) (ms_name m) \<noteq> None)"
  by (transfer, simp)+

lemma does_on_graph:
  assumes "\<And>st. checker_inv st \<Longrightarrow> (\<forall>f \<in> F. true_in f st) \<Longrightarrow>
      graph_inv (fst (u (graph st))) \<and> graph_extends (graph st) (fst (u (graph st)))"
    and "\<And>st f. checker_inv st \<Longrightarrow> (\<forall>f \<in> F. true_in f st) \<Longrightarrow> f \<in> Q (snd (u (graph st))) \<Longrightarrow>
      true_in f (st\<lparr>ck_tables := (ck_tables st)\<lparr>tt_scope_graph := fst (u (graph st))\<rparr>\<rparr>)"
  shows "does F (on_graph u) Q"
  unfolding does_def
proof (intro allI impI)
  fix st assume st: "checker_inv st" "\<forall>f \<in> F. true_in f st"
  note a = assms(1) [OF st] and b = assms(2) [OF st]
  show "case on_graph u st of
      Checked x st' \<Rightarrow> checker_inv st' \<and> grows st st' \<and> (\<forall>f \<in> Q x. true_in f st')
    | Rejected _ st' \<Rightarrow> checker_inv st' \<and> grows st st' | _ \<Rightarrow> True"
    using a b by (cases "u (graph st)")
      (simp add: on_graph_def checker_inv_def grows_def tables_grow_def)
qed

lemma does_the_graph [does_rules]: "does F the_graph (\<lambda>_. {})"
  unfolding the_graph_def by (intro does_then does_rules) simp

text \<open>Declarations only: the scopes stay and the scope of every declaration exists.\<close>

lemma graph_inv_declarations:
  assumes "graph_inv g" and "graph_ok g'" and "sg_scopes g' = sg_scopes g" and "graph_grows g g'"
    and "\<And>n d s. sg_declarations g' n = Some d \<Longrightarrow> dec_scope d = Some s \<Longrightarrow> s < length (sg_scopes g)"
  shows "graph_inv g' \<and> graph_extends g g'"
  using assms graph_grows_extends [OF assms(4)] by (auto simp: graph_inv_def scopes_in_range_def)

lemma insert_declaration_inv:
  assumes "graph_inv g"
  shows "graph_inv (fst (insert_declaration g s i kind doc u)) \<and>
    graph_extends g (fst (insert_declaration g s i kind doc u))"
proof (rule graph_inv_declarations [OF assms])
  show "graph_ok (fst (insert_declaration g s i kind doc u))"
    using assms by (simp add: graph_inv_def insert_declaration_ok)
  show "sg_scopes (fst (insert_declaration g s i kind doc u)) = sg_scopes g"
    by (cases rule: insert_declaration_cases [of g s i kind doc u]) auto
  show "k < length (sg_scopes g)"
    if "sg_declarations (fst (insert_declaration g s i kind doc u)) n = Some d" "dec_scope d = Some k" for n d k
    using that assms by (cases rule: insert_declaration_cases [of g s i kind doc u])
      (auto simp: graph_inv_def scopes_in_range_def split: if_splits)
qed (rule insert_declaration_grows)

lemma insert_declaration_declares:
  "snd (insert_declaration g s i kind doc u) = Inr n \<Longrightarrow>
   n = ResolvedName s (node i) \<and> sg_declarations (fst (insert_declaration g s i kind doc u)) n \<noteq> None"
  by (cases rule: insert_declaration_cases [of g s i kind doc u]) auto

lemma set_dec_scope_inv:
  assumes "graph_inv g" and "\<And>s s'. f s = Some s' \<Longrightarrow> s' < length (sg_scopes g) \<or> s = Some s'"
  shows "graph_inv (set_dec_scope g n f) \<and> graph_extends g (set_dec_scope g n f)"
proof (rule graph_inv_declarations [OF assms(1)])
  show "graph_ok (set_dec_scope g n f)" "graph_grows g (set_dec_scope g n f)"
    using assms(1) by (simp_all add: graph_inv_def set_dec_scope_ok)
  show "k < length (sg_scopes g)" if "sg_declarations (set_dec_scope g n f) m = Some d" "dec_scope d = Some k" for m d k
    using that assms by (fastforce simp: set_dec_scope_def graph_inv_def scopes_in_range_def split: if_splits)
qed (simp add: set_dec_scope_def)

lemma graph_wrap_inv:
  assumes "graph_inv g" and "wrap_ok g p ty"
  shows "graph_inv (fst (graph_wrap g p ty)) \<and> graph_extends g (fst (graph_wrap g p ty))"
proof -
  have "graph_ok (fst (graph_wrap g p ty))" using assms graph_wrap_ok by (simp add: graph_inv_def)
  moreover have "scopes_in_range (fst (graph_wrap g p ty))"
    using assms(1) by (fastforce simp: graph_inv_def scopes_in_range_def graph_wrap_def Let_def)
  ultimately show ?thesis
    using assms(1) graph_grows_extends [OF graph_wrap_grows, of g p ty]
    by (simp add: graph_inv_def graph_wrap_def Let_def)
qed

lemma does_wrap_scope:
  assumes "Scope s \<in> F" and "\<And>m. ty \<noteq> StModule m"
  shows "does F (wrap_scope s ty) (\<lambda>x. {Scope x})"
  unfolding wrap_scope_def
proof (rule does_on_graph)
  fix st assume "checker_inv st" and f: "\<forall>f \<in> F. true_in f st"
  with assms have "wrap_ok (graph st) s ty" by (auto simp: wrap_ok_def true_in_simps)
  with graph_wrap_inv \<open>checker_inv st\<close>
  show "graph_inv (fst (graph_wrap (graph st) s ty)) \<and> graph_extends (graph st) (fst (graph_wrap (graph st) s ty))"
    by (simp add: checker_inv_def)
qed (simp add: true_in_simps graph_wrap_def Let_def)

lemma does_wrap_scopes [does_rules]:
  assumes "Scope s \<in> F"
  shows "does F (wrap_scope s (StThen k)) (\<lambda>x. {Scope x})" "does F (wrap_scope s (StElse k)) (\<lambda>x. {Scope x})"
    "does F (wrap_scope s (StWhileBody k)) (\<lambda>x. {Scope x})" "does F (wrap_scope s (StForBody k)) (\<lambda>x. {Scope x})"
    "does F (wrap_scope s (StBlock k)) (\<lambda>x. {Scope x})" "does F (wrap_scope s (StMatchArm k v)) (\<lambda>x. {Scope x})"
    "does F (wrap_scope s (StFunction i)) (\<lambda>x. {Scope x})" "does F (wrap_scope s (StType i)) (\<lambda>x. {Scope x})"
    "does F (wrap_scope s StTypeParams) (\<lambda>x. {Scope x})"
  by (rule does_wrap_scope [OF assms], simp)+

lemma does_insert_at:
  assumes "\<And>g. graph_inv g \<Longrightarrow> graph_inv (fst (u g)) \<and> graph_extends g (fst (u g))"
  shows "does F (insert_at u k) (\<lambda>_. {})"
  unfolding insert_at_def
proof (rule does_then)
  show "does F (on_graph u) (\<lambda>_. {})"
    by (rule does_on_graph) (use assms in \<open>auto simp: checker_inv_def\<close>)
qed (intro does_rules; simp)

lemma does_insert_declaration [does_rules]:
  "does F (insert_at (\<lambda>g. insert_declaration g s i kind doc u) k) (\<lambda>_. {})"
  by (rule does_insert_at) (rule insert_declaration_inv)

lemma does_declare_var [does_rules]: "does F (declare_var s k ty) (\<lambda>_. {Named (meta_id k), Typed (meta_id k)})"
  unfolding declare_var_def insert_var_def
  by (rule does_then, rule does_rules, rule does_chain, rule does_rules, rule does_last, rule does_rules) auto

lemma does_declare_const [does_rules]: "does F (declare_const s k ty) (\<lambda>_. {Named (meta_id k), Typed (meta_id k)})"
  unfolding declare_const_def insert_const_def
  by (rule does_then, rule does_rules, rule does_chain, rule does_rules, rule does_last, rule does_rules) auto

lemma does_declare_function [does_rules]:
  "does F (declare_function s k def ps doc sg) (\<lambda>_. {Named (meta_id k), HasSignature (meta_id k)})"
  unfolding declare_function_def insert_function_def
  by (rule does_then, rule does_rules, rule does_chain, rule does_rules, rule does_last, rule does_rules) auto

end
