(* ===== verification/Check_Safe.thy ===== *)
theory Check_Safe
  imports Check_Logic
begin

text \<open>
  The steps of the type checker on names, types and paths keep the invariant.
\<close>

section \<open>Looking names up\<close>

definition decl_facts :: "decl \<Rightarrow> fact set" where
  "decl_facts d = insert (Declared (dec_name d)) (Scope ` set_option (dec_scope d))"

lemma resolve_name_declared:
  "resolve_name g s i r = Some x \<Longrightarrow> graph_ok g \<Longrightarrow> x = Some d \<Longrightarrow> sg_declarations g (dec_name d) = Some d"
proof (induction g s i r x rule: resolve_name.raw_induct [rotated, consumes 1])
  case (1 f g s i recurse x)
  have filed: "dec_name d = n" if "sg_declarations g n = Some d" for n
    using 1(3) that by (simp add: graph_ok_def)
  show ?case
  proof (cases "sg_declarations g (ResolvedName s i)")
    case (Some d')
    with 1(2,4) have "d' = d" by auto
    with Some filed [of "ResolvedName s i"] show ?thesis by simp
  next
    case None
    with 1(2,4) obtain sc where r: recurse "index (sg_scopes g) s = Some sc"
      by (auto split: if_splits option.splits)
    show ?thesis
    proof (cases "sc_imports sc i")
      case (Some y)
      with None r 1(2,4) have "sg_declarations g (snd y) = Some d" by auto
      with filed show ?thesis by auto
    next
      case imp: None
      with None r 1(2,4) obtain p where "f g p i recurse = Some (Some d)" by (auto split: option.splits)
      from 1(1) [OF this 1(3) refl] show ?thesis .
    qed
  qed
qed

lemma parent_module_declared:
  "parent_module g s = Some x \<Longrightarrow> graph_ok g \<Longrightarrow> x = Some d \<Longrightarrow> sg_declarations g (dec_name d) = Some d"
proof (induction g s x rule: parent_module.raw_induct [rotated, consumes 1])
  case (1 f g s x)
  then show ?case
    by (auto simp: get_declaration_def graph_ok_def split: option.splits scope_type.splits)
qed

lemma declared_facts:
  assumes "checker_inv st" and "sg_declarations (graph st) (dec_name d) = Some d"
  shows "\<forall>f \<in> decl_facts d. true_in f st"
  using assms by (auto simp: decl_facts_def true_in_simps checker_inv_def graph_inv_def scopes_in_range_def)

text \<open>A step that reads the scope graph.\<close>

lemma does_reads:
  assumes "\<And>st x. checker_inv st \<Longrightarrow> h (graph st) = Some x \<Longrightarrow> \<forall>f \<in> Q x. true_in f st"
  shows "does F (chain the_graph (\<lambda>g. defined (h g))) Q"
  unfolding does_def
proof (intro allI impI)
  fix st assume st: "checker_inv st"
  have e: "chain the_graph (\<lambda>g. defined (h g)) st = (case h (graph st) of None \<Rightarrow> Stuck | Some x \<Rightarrow> Checked x st)"
    by (simp add: the_graph_def chain_def the_checker_def pass_def defined_def stuck_def split: option.splits)
  show "case chain the_graph (\<lambda>g. defined (h g)) st of
      Checked x st' \<Rightarrow> checker_inv st' \<and> grows st st' \<and> (\<forall>f \<in> Q x. true_in f st')
    | Rejected _ st' \<Rightarrow> checker_inv st' \<and> grows st st' | _ \<Rightarrow> True"
    using assms [OF st] st by (cases "h (graph st)") (simp_all add: e)
qed

definition option_facts :: "decl option \<Rightarrow> fact set" where
  "option_facts d = (case d of None \<Rightarrow> {} | Some d \<Rightarrow> decl_facts d)"

lemma does_find_name: "does F (find_name s i r) option_facts"
  unfolding find_name_def
proof (rule does_reads)
  fix st x assume st: "checker_inv st" "resolve_name (graph st) s i r = Some x"
  then show "\<forall>f \<in> option_facts x. true_in f st"
    using resolve_name_declared [OF st(2)] declared_facts [OF st(1)]
    by (auto simp: option_facts_def checker_inv_def graph_inv_def split: option.splits)
qed

lemma does_parent_module: "does F (chain the_graph (\<lambda>g. defined (parent_module g s))) option_facts"
proof (rule does_reads)
  fix st x assume st: "checker_inv st" "parent_module (graph st) s = Some x"
  then show "\<forall>f \<in> option_facts x. true_in f st"
    using parent_module_declared [OF st(2)] declared_facts [OF st(1)]
    by (auto simp: option_facts_def checker_inv_def graph_inv_def split: option.splits)
qed

lemma chain_assoc: "chain (chain m f) g = chain m (\<lambda>x. chain (f x) g)"
  by (auto simp: chain_def fun_eq_iff split: checked.splits)

lemma does_super_module: "does F (super_module s i) (\<lambda>(dec, s'). insert (Scope s') (decl_facts dec))"
proof -
  have "super_module s i = chain (chain the_graph (\<lambda>g. defined (parent_module g s))) (\<lambda>r. case r of
      None \<Rightarrow> reject (too_many_supers (meta_id i))
    | Some dec \<Rightarrow> chain (need PkUnreachable (dec_scope dec)) (\<lambda>s'. pass (dec, s')))"
    by (simp add: super_module_def chain_assoc)
  moreover have "does (F \<union> option_facts (Some dec)) (chain (need PkUnreachable (dec_scope dec)) (\<lambda>s'. pass (dec, s')))
      (\<lambda>(dec, s'). insert (Scope s') (decl_facts dec))" for dec
    by (cases "dec_scope dec")
      (auto simp: need_def option_facts_def decl_facts_def chain_def crash_def pass_def does_def)
  ultimately show ?thesis
    by (auto intro!: does_chain [OF does_parent_module] does_reject split: option.splits)
qed

lemma does_leading_supers:
  "Scope s \<in> F \<Longrightarrow> does F (leading_supers s i rest) (\<lambda>r. case r of Inl (j, dec) \<Rightarrow> decl_facts dec | Inr (s', _) \<Rightarrow> {Scope s'})"
proof (induction s i rest arbitrary: F rule: leading_supers.induct)
  case (1 s i)
  then show ?case
    by (auto intro!: does_rules does_chain [OF does_super_module])
next
  case (2 s i j rest)
  have "does (F \<union> insert (Scope s') (decl_facts dec)) (leading_supers s' j rest)
      (\<lambda>r. case r of Inl (j, dec) \<Rightarrow> decl_facts dec | Inr (s', _) \<Rightarrow> {Scope s'})" if "node i = ''super''" for dec s'
    by (rule 2(1)) (use that in auto)
  with 2(2) show ?case
    by (auto intro!: does_rules does_chain [OF does_super_module])
qed

lemma does_path_step: "does F (path_step s i r) decl_facts"
  unfolding path_step_def
  by (auto intro!: does_rules does_chain [OF does_find_name] simp: option_facts_def)

lemma does_module_steps: "does F (module_steps s i r rest) (\<lambda>(_, dec, _). decl_facts dec)"
proof (induction s i r rest arbitrary: F rule: module_steps.induct)
  case (1 s i r)
  then show ?case by (auto intro!: does_rules does_chain [OF does_path_step])
next
  case (2 s i r j rest)
  show ?case
    unfolding module_steps.simps
    by (rule does_chain [OF does_path_step]) (auto intro!: does_rules 2 split: option.splits)
qed

lemma does_module_part:
  assumes "Scope s \<in> F"
  shows "does F (resolve_module_part_of_path s is) (\<lambda>(_, dec, _). decl_facts dec)"
proof (cases "is")
  case (Cons i rest)
  show ?thesis
    unfolding resolve_module_part_of_path_def Cons list.case
    by (rule does_chain [OF does_leading_supers [OF assms]])
      (auto intro!: does_rules does_module_steps split: sum.splits)
qed (simp add: resolve_module_part_of_path_def does_crash)

section \<open>Imports\<close>

lemma insert_import_inv:
  assumes "graph_inv g" and "sg_declarations g n \<noteq> None" and r: "insert_import g s i n = Some (g', x)"
  shows "graph_inv g' \<and> graph_extends g g'"
proof -
  from r obtain sc where sc: "index (sg_scopes g) s = Some sc"
    and g': "g' = g \<or> g' = g\<lparr>sg_scopes := (sg_scopes g)[s := sc\<lparr>sc_imports := (sc_imports sc)(rn_ident n \<mapsto> (i, n))\<rparr>]\<rparr>"
    by (auto simp: insert_import_def bind_eq_Some_conv split: option.splits)
  have "graph_ok g'" using insert_import_ok(1) [of g n s i g' x] assms by (simp add: graph_inv_def)
  moreover have "length (sg_scopes g') = length (sg_scopes g)" "sg_declarations g' = sg_declarations g" using g' by auto
  moreover have "map sc_type (sg_scopes g') = map sc_type (sg_scopes g)"
    using g' sc by (auto simp: index_Some_iff map_update list_update_same_conv)
  ultimately show ?thesis
    using assms(1) by (simp add: graph_inv_def scopes_in_range_def graph_extends_def take_map [symmetric])
qed

lemma does_import_name:
  assumes "Declared n \<in> F" and k: "\<And>r F. does F (k r) (\<lambda>_. {})"
  shows "does F (chain the_graph (\<lambda>g. case insert_import g s i n of
      None \<Rightarrow> crash PkIndex
    | Some (g', r) \<Rightarrow> chain (on_graph (\<lambda>_. (g', ()))) (\<lambda>_. k r))) (\<lambda>_. {})"
  unfolding does_def
proof (intro allI impI)
  fix st assume st: "checker_inv st" "\<forall>f \<in> F. true_in f st"
  let ?m = "chain the_graph (\<lambda>g. case insert_import g s i n of
      None \<Rightarrow> crash PkIndex
    | Some (g', r) \<Rightarrow> chain (on_graph (\<lambda>_. (g', ()))) (\<lambda>_. k r))"
  have "sg_declarations (graph st) n \<noteq> None" using st assms by (force simp: true_in_simps)
  show "case ?m st of
      Checked x st' \<Rightarrow> checker_inv st' \<and> grows st st' \<and> (\<forall>f \<in> {}. true_in f st')
    | Rejected _ st' \<Rightarrow> checker_inv st' \<and> grows st st' | _ \<Rightarrow> True"
  proof (cases "insert_import (graph st) s i n")
    case None
    then show ?thesis
      by (simp add: the_graph_def chain_def the_checker_def pass_def crash_def)
  next
    case (Some p)
    obtain g' r where p: "p = (g', r)" by (cases p)
    let ?st = "st\<lparr>ck_tables := (ck_tables st)\<lparr>tt_scope_graph := g'\<rparr>\<rparr>"
    from insert_import_inv [of "graph st" n s i g' r] Some p st(1) \<open>_ \<noteq> None\<close>
    have i: "checker_inv ?st" "grows st ?st" by (simp_all add: checker_inv_def grows_def tables_grow_def)
    have "?m st = k r ?st"
      by (simp add: the_graph_def chain_def the_checker_def pass_def on_graph_def Some p)
    moreover from k [of "{}" r] i(1) have "case k r ?st of
        Checked x st' \<Rightarrow> checker_inv st' \<and> grows ?st st' \<and> (\<forall>f \<in> {}. true_in f st')
      | Rejected _ st' \<Rightarrow> checker_inv st' \<and> grows ?st st' | _ \<Rightarrow> True" unfolding does_def by blast
    ultimately show ?thesis
      using grows_trans [OF i(2)] by (cases "k r ?st") simp_all
  qed
qed

lemma does_import_path [does_rules]: "Scope s \<in> F \<Longrightarrow> does F (import_path s p) (\<lambda>_. {})"
  unfolding import_path_def
  by (rule does_chain [OF does_module_part])
    (auto intro!: does_rules does_import_name simp: decl_facts_def split: list.splits sum.splits)

lemma does_retain_failing [does_rules]: "Scope s \<in> F \<Longrightarrow> does F (retain_failing s ps) (\<lambda>_. {})"
proof (induction ps)
  case (Cons p ps)
  have a: "does F (attempt (import_path s p)) (\<lambda>_. {})" using Cons.prems by (intro does_try does_import_path)
  show ?case unfolding retain_failing.simps using Cons by (intro does_then [OF a] does_then does_rules) auto
qed (simp add: does_rules)

lemma does_import_loop [does_rules]: "Scope s \<in> F \<Longrightarrow> does F (import_loop n s ps) (\<lambda>_. {})"
proof (induction n arbitrary: ps)
  case (Suc n)
  then have e: "does F (each_of (import_path s) rest) (\<lambda>_. {})" for rest
    by (intro does_each does_import_path)
  show ?case unfolding import_loop.simps using Suc by (intro does_then [OF e] does_then does_rules) auto
qed (simp add: does_rules)

lemma does_import_paths [does_rules]: "Scope s \<in> F \<Longrightarrow> does F (import_paths s ps) (\<lambda>_. {})"
  unfolding import_paths_def by (rule does_rules)

section \<open>Types\<close>

lemma does_declaration_of [does_rules]: "does F (declaration_of n) (\<lambda>_. {})"
  unfolding declaration_of_def by (intro does_then does_rules)

lemma does_name [does_rules]: "does F (find_name s i r) (\<lambda>_. {})"
  by (rule does_nothing [OF does_find_name])

lemma does_path_part [does_rules]: "Scope s \<in> F \<Longrightarrow> does F (resolve_module_part_of_path s is) (\<lambda>_. {})"
  by (rule does_nothing [OF does_module_part])

lemma does_get_scope_of [does_rules]: "does F (get_scope_of s i) (\<lambda>_. {})"
  unfolding get_scope_of_def by (intro does_then does_rules) simp

lemma does_resolve_type_path:
  assumes "Scope s \<in> F" and "\<And>t. t \<in> set ps \<Longrightarrow> does F (ev t) (\<lambda>_. {})"
  shows "does F (resolve_type_path ev s p ps) (\<lambda>_. {})"
  unfolding resolve_type_path_def
proof (rule does_then, rule does_path_part [OF assms(1)], rule does_prod, rule does_prod)
  fix a b i and dec :: decl and rest :: "ident meta list"
  have g: "does F (chain (gather ev ps) (\<lambda>args. pass (TName (TypeName n args)))) (\<lambda>_. {})" for n
    using assms(2) by (intro does_then does_rules) auto
  show "does F (case dec_kind dec of
      DkType ts \<Rightarrow> let num_params = parameter_count ts in
        if num_params \<noteq> length ps then
          reject (ErrSimple (''expected '' @ show_nat num_params @ '' type parameters, got '' @ show_nat (length ps))
            (''expected '' @ show_nat num_params @ '' type parameters'') (meta_id p))
        else chain (gather ev ps) (\<lambda>args. pass (TName (TypeName (dec_name dec) args)))
    | DkTypeParam x \<Rightarrow>
        if ps \<noteq> [] then
          reject (ErrSimple (''expected 0 type parameters, got '' @ show_nat (length ps)) ''expected 0 type parameters'' (meta_id p))
        else pass (TExplicitVar x)
    | _ \<Rightarrow> reject (ErrExpectedType i dec)) (\<lambda>_. {})"
    by (cases "dec_kind dec") (simp_all add: Let_def g does_reject does_pass)
qed

lemma does_evaluate_fields:
  assumes "\<And>i t. (i, t) \<in> set fs \<Longrightarrow> does F (ev t) (\<lambda>_. {})"
  shows "does F (evaluate_fields ev fs) (\<lambda>_. {})"
proof -
  have "does F (gather (\<lambda>(i, ty). chain (ev ty) (\<lambda>t. pass (ast_ident i, t))) fs) (\<lambda>_. {})"
    using assms by (intro does_gather) (auto intro!: does_then does_pass)
  then show ?thesis
    unfolding evaluate_fields_def
    by (rule does_then) (simp add: distinct_fields_def does_pass does_reject split: option.splits)
qed

lemma does_evaluate_type_expr: "Scope s \<in> F \<Longrightarrow> does F (evaluate_type_expr s t) (\<lambda>_. {})"
proof (induction s t rule: evaluate_type_expr.induct)
  case (3 s fs)
  then have "does F (evaluate_fields (\<lambda>t. evaluate_type_expr s (node t)) (node fs)) (\<lambda>_. {})"
    by (intro does_evaluate_fields) auto
  then show ?case unfolding evaluate_type_expr.simps by (rule does_then) (simp add: does_pass)
next
  case (4 s inner)
  then show ?case unfolding evaluate_type_expr.simps by (intro does_then does_pass) simp_all
qed (auto intro!: does_resolve_type_path does_pass)

lemma does_evaluate_type [does_rules]: "Scope s \<in> F \<Longrightarrow> does F (evaluate_type s t) (\<lambda>_. {})"
  unfolding evaluate_type_def by (rule does_evaluate_type_expr)

lemma does_evaluate_record_type [does_rules]: "Scope s \<in> F \<Longrightarrow> does F (evaluate_record_type s fs) (\<lambda>_. {})"
  unfolding evaluate_record_type_def by (intro does_evaluate_fields does_rules)

lemma does_get_method [does_rules]: "does F (get_method ty m) (\<lambda>_. {})"
proof -
  have k: "does F (case dec_kind dec of
      DkMethod (Some f) \<Rightarrow> chain (instantiate_signature (fd_signature f)) (\<lambda>sg. pass (Some (h f sg)))
    | _ \<Rightarrow> pass None) (\<lambda>_. {})" for dec and h :: "function_declaration \<Rightarrow> signature \<Rightarrow> checked_function"
    by (auto intro!: does_then does_rules split: declaration_kind.splits option.splits)
  show ?thesis
    unfolding get_method_def
    by (rule does_then, rule does_rules, simp only: split: rtype.splits, intro allI impI conjI does_rules)
      (intro does_then does_rules k)
qed

lemma does_get_function [does_rules]: "does F (get_function n) (\<lambda>_. {})"
  unfolding get_function_def Let_def
  by (rule does_then, rule does_rules)
    (auto intro!: does_then does_rules split: declaration_kind.splits option.splits)

lemma does_get_function_in_type [does_rules]: "does F (get_function_in_type ty m) (\<lambda>_. {})"
  unfolding get_function_in_type_def by (intro does_then does_rules)

lemma does_access_field [does_rules]: "does F (access_field ty f) (\<lambda>_. {})"
proof -
  have k: "does F (case ty of
      TRecord fs \<Rightarrow> pass (Some fs) | TRecordVar _ fs \<Rightarrow> pass (Some fs)
    | TName tn \<Rightarrow> chain (definition_of (tn_name tn)) (\<lambda>d. need PkAssert (record_fields d (tn_arguments tn)))
    | _ \<Rightarrow> pass None) (\<lambda>_. {})" for ty
    by (cases ty) (auto intro!: does_then does_rules)
  show ?thesis unfolding access_field_def by (intro does_then does_rules k) simp
qed

section \<open>Paths\<close>

lemma does_path_fields: "does F (path_fields v ty rest) (\<lambda>_. {})"
proof (induction rest arbitrary: v ty)
  case (Cons field rest)
  have n: "does F (case r of Inl _ \<Rightarrow> reject e | Inr t \<Rightarrow> path_fields (h t) t rest) (\<lambda>_. {})"
    for r :: "type_error + rtype" and e h
    by (cases r) (simp_all add: does_reject Cons)
  have m: "does F (case rest of x # _ \<Rightarrow> reject (e x) | [] \<Rightarrow> pass y) (\<lambda>_. {})" for e and y :: resolved_path
    by (cases rest) (simp_all add: does_rules)
  show ?case
    unfolding path_fields.simps by (intro does_then does_rules n m)
qed (simp add: does_pass)

lemma does_function_path: "does F (function_path ctx dec f rest) (\<lambda>_. {})"
  unfolding function_path_def Let_def
  by (auto intro!: does_then does_rules split: list.splits)

lemma does_expression_path [does_rules]: "Scope s \<in> F \<Longrightarrow> does F (resolve_expression_path s ctx p) (\<lambda>_. {})"
  unfolding resolve_expression_path_def
proof (rule does_then, rule does_path_part, assumption, rule does_prod, rule does_prod)
  fix a b i and dec :: decl and rest :: "ident meta list"
  have v: "does F (chain (need PkUnwrap root_ty) (\<lambda>root_ty.
      chain (if kind = VkLocal then pass () else refer_edge (cx_item ctx) (dec_name dec)) (\<lambda>_.
      path_fields \<lparr>pv_name = dec_name dec, pv_kind = kind, pv_root_ty = root_ty, pv_fields = []\<rparr> root_ty rest))) (\<lambda>_. {})"
    for kind root_ty
    by (intro does_then does_rules does_path_fields) simp
  show "does F (case dec_kind dec of
      DkValue kind root_ty \<Rightarrow> chain (need PkUnwrap root_ty) (\<lambda>root_ty.
        chain (if kind = VkLocal then pass () else refer_edge (cx_item ctx) (dec_name dec)) (\<lambda>_.
        path_fields \<lparr>pv_name = dec_name dec, pv_kind = kind, pv_root_ty = root_ty, pv_fields = []\<rparr> root_ty rest))
    | DkType _ \<Rightarrow> reject (ErrExpectedValue i dec)
    | DkFunction None \<Rightarrow> crash PkIce
    | DkFunction (Some f) \<Rightarrow> function_path ctx dec f rest
    | DkModule \<Rightarrow> reject (ErrExpectedValue i dec)
    | DkMethod None \<Rightarrow> crash PkIce
    | DkMethod (Some f) \<Rightarrow> function_path ctx dec f rest
    | DkEnum None \<Rightarrow> crash PkIce
    | DkEnum (Some (ty, variant)) \<Rightarrow>
        (case rest of [] \<Rightarrow> pass (RpEnumConstructor ty variant) | _ # _ \<Rightarrow> crash PkTodo)
    | DkTypeParam _ \<Rightarrow> reject (ErrExpectedValue i dec)) (\<lambda>_. {})"
    by (cases "dec_kind dec") (auto simp: v intro!: does_rules does_function_path split: option.splits list.splits)
qed

lemma does_last_name [does_rules]: "does F (last_name p) (\<lambda>_. {})"
  unfolding last_name_def by (rule does_rules)

end
