(* ===== verification/Check_Leaves.thy ===== *)
theory Check_Leaves
  imports Check_Items Mir_Expr_Safe
begin

text \<open>
  What the answer of the checker of expressions means: \<open>counted\<close> says by the form of an expression alone
  whether the checker takes it to leave the function early, and the checker answers exactly that.
\<close>

section \<open>Steps that succeed\<close>

lemma chain_Checked: "chain m f st = Checked y st'' \<longleftrightarrow> (\<exists>x st'. m st = Checked x st' \<and> f x st' = Checked y st'')"
  by (cases "m st") (simp_all add: chain_def)

lemma pass_Checked [simp]: "pass x st = Checked y st' \<longleftrightarrow> y = x \<and> st' = st"
  by (auto simp: pass_def)

lemma never_Checked [simp]:
  "reject e st \<noteq> Checked y st'" "crash p st \<noteq> Checked y st'" "stuck st \<noteq> Checked y st'"
  by (simp_all add: reject_def crash_def stuck_def)

text \<open>\<open>answers m P\<close>: whenever the step succeeds its value satisfies \<open>P\<close>.\<close>

definition answers :: "'a check \<Rightarrow> ('a \<Rightarrow> bool) \<Rightarrow> bool" where
  "answers m P \<longleftrightarrow> (\<forall>st x st'. m st = Checked x st' \<longrightarrow> P x)"

named_theorems answer_rules \<open>what a step answers\<close>

lemma answers_pass [answer_rules]: "P x \<Longrightarrow> answers (pass x) P"
  by (simp add: answers_def)

lemma answers_never [answer_rules]: "answers (reject e) P" "answers (crash p) P" "answers stuck P"
  by (simp_all add: answers_def)

lemma answers_chain: "answers m R \<Longrightarrow> (\<And>x. R x \<Longrightarrow> answers (f x) P) \<Longrightarrow> answers (chain m f) P"
  by (fastforce simp: answers_def chain_Checked)

lemma answers_mono: "answers m R \<Longrightarrow> (\<And>x. R x \<Longrightarrow> P x) \<Longrightarrow> answers m P"
  by (auto simp: answers_def)

lemma answers_if [answer_rules]:
  "(c \<Longrightarrow> answers m P) \<Longrightarrow> (\<not> c \<Longrightarrow> answers m' P) \<Longrightarrow> answers (if c then m else m') P"
  by simp

text \<open>The value of the first step does not matter.\<close>

lemma answers_ignore [answer_rules]: "(\<And>x. answers (f x) P) \<Longrightarrow> answers (chain m f) P"
  by (rule answers_chain [where R = "\<lambda>_. True"]) (simp_all add: answers_def)

lemma answers_any_of:
  assumes "\<And>x. x \<in> set xs \<Longrightarrow> answers (f x) (\<lambda>d. d \<longleftrightarrow> Q x)"
  shows "answers (any_of f acc xs) (\<lambda>d. d \<longleftrightarrow> acc \<or> (\<exists>x \<in> set xs. Q x))"
  using assms
proof (induction xs arbitrary: acc)
  case (Cons x xs)
  have "answers (any_of f (acc \<or> d) xs) (\<lambda>d. d \<longleftrightarrow> acc \<or> (\<exists>x \<in> set (x # xs). Q x))" if "d \<longleftrightarrow> Q x" for d
    using Cons.IH [of "acc \<or> Q x"] Cons.prems that by (simp add: disj_assoc)
  with Cons.prems [of x] show ?case by (auto intro: answers_chain)
qed (simp add: answers_pass)

section \<open>What is counted as leaving\<close>

definition part_expr :: "fstring_part meta \<Rightarrow> expr meta option" where
  "part_expr p = (case node p of FsExpr e \<Rightarrow> Some e | FsString _ \<Rightarrow> None)"

inductive counted :: "expr meta \<Rightarrow> bool" and block_counted :: "block meta \<Rightarrow> bool" where
  counted_return: "counted (Meta (EReturn k x) i)"
| counted_block: "block_counted b \<Longrightarrow> counted (Meta (EBlock b) i)"
| counted_match: "\<forall>arm \<in> set (snd (node m)). block_counted (body_of arm) \<Longrightarrow> counted (Meta (EMatch m) i)"
| counted_argument: "a \<in> set (node args) \<Longrightarrow> counted a \<Longrightarrow> counted (Meta (EFunctionCall f args) i)"
| counted_receiver: "node f = EAccess e n \<Longrightarrow> counted e \<Longrightarrow> counted (Meta (EFunctionCall f args) i)"
| counted_access: "counted e \<Longrightarrow> counted (Meta (EAccess e n) i)"
| counted_assign: "counted e \<Longrightarrow> counted (Meta (EAssign p e) i)"
| counted_compound: "counted e \<Longrightarrow> counted (Meta (ECompoundAssign h e) i)"
| counted_record: "(n, e) \<in> set (node r) \<Longrightarrow> counted e \<Longrightarrow> counted (Meta (ERecord r) i)"
| counted_typed_record: "(n, e) \<in> set (node r) \<Longrightarrow> counted e \<Longrightarrow> counted (Meta (ETypedRecord p r) i)"
| counted_list: "e \<in> set es \<Longrightarrow> counted e \<Longrightarrow> counted (Meta (EList es) i)"
| counted_not: "counted e \<Longrightarrow> counted (Meta (ENot e) i)"
| counted_negate: "counted e \<Longrightarrow> counted (Meta (ENegate e) i)"
| counted_left: "counted l \<Longrightarrow> counted (Meta (EBinOp l op r) i)"
| counted_right: "counted r \<Longrightarrow> counted (Meta (EBinOp l op r) i)"
| counted_if: "block_counted t \<Longrightarrow> block_counted b \<Longrightarrow> counted (Meta (EIfElse c t (Some b)) i)"
| counted_while_condition: "counted c \<Longrightarrow> counted (Meta (EWhile c b) i)"
| counted_while_body: "block_counted b \<Longrightarrow> counted (Meta (EWhile c b) i)"
| counted_for_list: "counted e \<Longrightarrow> counted (Meta (EFor n e b) i)"
| counted_for_body: "block_counted b \<Longrightarrow> counted (Meta (EFor n e b) i)"
| counted_question: "counted e \<Longrightarrow> counted (Meta (EQuestionMark e) i)"
| counted_part: "p \<in> set parts \<Longrightarrow> part_expr p = Some e \<Longrightarrow> counted e \<Longrightarrow> counted (Meta (EFString parts) i)"
| block_counted_stmt: "s \<in> set (blk_stmts (node b)) \<Longrightarrow> counted (stmt_expr (node s)) \<Longrightarrow> block_counted b"
| block_counted_last: "blk_last (node b) = Some e \<Longrightarrow> counted e \<Longrightarrow> block_counted b"

inductive_simps counted_simps:
  "counted (Meta (EReturn k x) i)"
  "counted (Meta (ELiteral l) i)"
  "counted (Meta (EBlock b) i)"
  "counted (Meta (EMatch m) i)"
  "counted (Meta (EFunctionCall f args) i)"
  "counted (Meta (EAccess e n) i)"
  "counted (Meta (EPath p) i)"
  "counted (Meta (ERecord r) i)"
  "counted (Meta (ETypedRecord p r) i)"
  "counted (Meta (EList es) i)"
  "counted (Meta (ENot e) i)"
  "counted (Meta (EAssign p e) i)"
  "counted (Meta (ECompoundAssign h e) i)"
  "counted (Meta (EBinOp l op r) i)"
  "counted (Meta (ENegate e) i)"
  "counted (Meta (EIfElse c t b) i)"
  "counted (Meta (EWhile c b) i)"
  "counted (Meta (EFor n e b) i)"
  "counted (Meta (EQuestionMark e) i)"
  "counted (Meta (EFString parts) i)"

inductive_simps block_counted_simp: "block_counted b"

section \<open>The checker answers what is counted\<close>

locale leaving_checker =
  fixes ex :: check_expression
  assumes ex_counted: "answers (ex s ctx e) (\<lambda>d. d \<longleftrightarrow> counted e)"
begin

lemma chain_ex: "answers (f (counted e)) P \<Longrightarrow> answers (chain (ex s ctx e) f) P"
  by (rule answers_chain [OF ex_counted]) simp

lemma stmt_counted: "answers (check_stmt ex s ctx st) (\<lambda>d. d \<longleftrightarrow> counted (stmt_expr st))"
  by (cases st) (auto intro!: answer_rules ex_counted answers_chain [OF ex_counted])

lemma block_counted: "answers (check_block ex s ctx b) (\<lambda>d. d \<longleftrightarrow> block_counted b)"
proof -
  have s: "answers (any_of (\<lambda>stmt. check_stmt ex s ctx (node stmt)) False (blk_stmts (node b)))
      (\<lambda>d. d \<longleftrightarrow> (\<exists>x \<in> set (blk_stmts (node b)). counted (stmt_expr (node x))))"
    using answers_any_of [of "blk_stmts (node b)" "\<lambda>stmt. check_stmt ex s ctx (node stmt)" "\<lambda>x. counted (stmt_expr (node x))" False]
      stmt_counted by simp
  have r: "answers (record_block i t d) (\<lambda>d'. d' \<longleftrightarrow> d)" for i t d
    unfolding record_block_def by (rule answers_ignore answers_pass refl)+
  have c: "block_counted b \<longleftrightarrow> (\<exists>x \<in> set (blk_stmts (node b)). counted (stmt_expr (node x))) \<or>
      (\<exists>e. blk_last (node b) = Some e \<and> counted e)"
    by (auto simp: block_counted_simp)
  show ?thesis
  proof (cases "blk_last (node b)")
    case None
    show ?thesis
      unfolding check_block_def c None option.case
      by (rule answers_ignore, rule answers_chain [OF s], rule answers_ignore, rule answers_mono [OF r]) simp
  next
    case (Some e)
    show ?thesis
      unfolding check_block_def c Some option.case
      by (rule answers_ignore, rule answers_chain [OF s], rule chain_ex, rule answers_ignore, rule answers_mono [OF r]) simp
  qed
qed

lemma args_counted: "answers (check_arguments ex s ctx k i params args) (\<lambda>d. d \<longleftrightarrow> (\<exists>a \<in> set args. counted a))"
proof -
  have "answers (any_of (\<lambda>(arg, ty). ex s (with_type ctx ty) arg) False (zip args params))
      (\<lambda>d. d \<longleftrightarrow> False \<or> (\<exists>x \<in> set (zip args params). counted (fst x)))"
    by (rule answers_any_of) (auto intro: ex_counted)
  moreover have "(\<exists>x \<in> set (zip args params). counted (fst x)) \<longleftrightarrow> (\<exists>a \<in> set args. counted a)"
    if "length args = length params"
  proof -
    have e: "set args = fst ` set (zip args params)"
      using arg_cong [OF map_fst_zip [OF that], of set] by (simp del: map_fst_zip)
    show ?thesis unfolding e by simp
  qed
  ultimately show ?thesis
    unfolding check_arguments_def by (intro answers_if answers_never) auto
qed

lemma fields_counted: "answers (check_record_fields ex s ctx fs rec i) (\<lambda>d. d \<longleftrightarrow> (\<exists>(n, e) \<in> set rec. counted e))"
proof -
  have "answers (any_of (\<lambda>(i, e). chain (need PkUnwrap (find_field (ident_of (node i)) fs))
      (\<lambda>expected. ex s (with_type ctx expected) e)) False rec)
    (\<lambda>d. d \<longleftrightarrow> False \<or> (\<exists>x \<in> set rec. counted (snd x)))"
    by (rule answers_any_of) (auto intro!: answer_rules ex_counted)
  then show ?thesis by (auto simp: check_record_fields_def Let_def split_beta intro: answer_rules)
qed

lemma arms_counted:
  "answers (check_arms ex s ctx t vs k st arms)
     (\<lambda>st'. as_diverge st' \<longleftrightarrow> as_diverge st \<and> (\<forall>arm \<in> set arms. block_counted (body_of arm)))"
proof (induction arms arbitrary: st)
  case (Cons arm arms)
  have "answers (check_arm ex s ctx t vs k st arm) (\<lambda>st'. as_diverge st' \<longleftrightarrow> as_diverge st \<and> block_counted (body_of arm))"
    unfolding check_arm_def
    by (auto intro!: answer_rules answers_chain [OF block_counted] simp: Let_def
        split: match_arm.splits pattern.splits option.splits)
  moreover have "answers (check_arms ex s ctx t vs k st' arms)
      (\<lambda>st''. as_diverge st'' \<longleftrightarrow> as_diverge st \<and> (\<forall>arm \<in> set (arm # arms). block_counted (body_of arm)))"
    if "as_diverge st' \<longleftrightarrow> as_diverge st \<and> block_counted (body_of arm)" for st'
    using Cons.IH [of st'] that by (simp add: conj_assoc)
  ultimately show ?case by (auto intro: answers_chain)
qed (simp add: answers_pass)

lemma match_counted: "answers (check_match ex s ctx m) (\<lambda>d. d \<longleftrightarrow> (\<forall>arm \<in> set (snd (node m)). block_counted (body_of arm)))"
proof (cases "node m")
  case (Pair e arms)
  show ?thesis
    unfolding check_match_def Pair prod.case
    by (rule answers_ignore answers_if answers_never answers_chain [OF arms_counted] | simp add: answers_pass)+
qed

lemma call_counted:
  "answers (check_call ex s ctx i f args)
     (\<lambda>d. d \<longleftrightarrow> (\<exists>a \<in> set args. counted a) \<or> (\<exists>e n. node f = EAccess e n \<and> counted e))"
proof -
  have c: "answers (constructor_call ex s ctx i l ty v args) (\<lambda>d. d \<longleftrightarrow> (\<exists>a \<in> set args. counted a))" for l ty v
    unfolding constructor_call_def
    by (auto intro!: answer_rules answers_chain [OF args_counted] simp: Let_def split: rtype.splits)
  have g: "answers (signature_call ex s ctx i l rp k fn args) (\<lambda>d. d \<longleftrightarrow> (\<exists>a \<in> set args. counted a))" for l rp k fn
    unfolding signature_call_def by (auto intro!: answer_rules answers_chain [OF args_counted])
  have p: "answers (path_function_call ex s ctx i p args) (\<lambda>d. d \<longleftrightarrow> (\<exists>a \<in> set args. counted a))" for p
    unfolding path_function_call_def
    by (auto intro!: answers_ignore c g answers_never simp: Let_def split: resolved_path.splits)
  have m: "answers (method_call ex s ctx i ty n args) (\<lambda>d. d \<longleftrightarrow> (\<exists>a \<in> set args. counted a))" for ty n
    unfolding method_call_def
    by (auto intro!: answer_rules answers_chain [OF args_counted] simp: Let_def split: option.splits)
  show ?thesis
    by (cases "node f")
      (auto intro!: answer_rules p answers_chain [OF ex_counted] answers_chain [OF m] simp: check_call_def)
qed

lemma binop_counted: "answers (check_binop ex s ctx op i l r) (\<lambda>d. d \<longleftrightarrow> counted l \<or> counted r)"
proof -
  let ?P = "\<lambda>x. case x of None \<Rightarrow> True | Some d \<Rightarrow> d = (counted l \<or> counted r)"
  have "answers (check_div ex s ctx i l r) ?P" "answers (check_append ex s ctx i l r) ?P"
    unfolding check_div_def check_append_def
    by ((rule chain_ex answers_if answers_pass | rule answers_ignore | simp; fail)+)
  then have s: "answers (if op = BDiv then check_div ex s ctx i l r else if op = BAdd then check_append ex s ctx i l r else pass None) ?P"
    by (auto intro: answers_pass)
  have g: "answers (general_binop ex s ctx op i l r) (\<lambda>d. d \<longleftrightarrow> counted l \<or> counted r)"
    unfolding general_binop_def check_logical_def check_comparison_def check_equality_def check_arithmetic_def
    by ((rule chain_ex answers_if answers_pass answers_never | rule answers_ignore | simp; fail)+)
  show ?thesis
    unfolding check_binop_def by (rule answers_chain [OF s]) (use g in \<open>auto simp: answers_pass split: option.splits\<close>)
qed

lemma f_string_counted:
  "answers (check_f_string ex s ctx i parts) (\<lambda>d. d \<longleftrightarrow> (\<exists>p \<in> set parts. \<exists>e. part_expr p = Some e \<and> counted e))"
proof -
  have "answers (check_f_string_part ex s ctx p) (\<lambda>d. d \<longleftrightarrow> (\<exists>e. part_expr p = Some e \<and> counted e))" for p
    by (cases "node p")
      (auto simp: check_f_string_part_def part_expr_def intro!: answer_rules answers_chain [OF ex_counted])
  then have "answers (any_of (check_f_string_part ex s ctx) False parts)
      (\<lambda>d. d \<longleftrightarrow> False \<or> (\<exists>p \<in> set parts. \<exists>e. part_expr p = Some e \<and> counted e))"
    by (intro answers_any_of)
  then show ?thesis unfolding check_f_string_def by (auto intro: answers_ignore)
qed

lemma node_counted: "answers (check_node ex s ctx i e) (\<lambda>d. d \<longleftrightarrow> counted (Meta e i))"
proof (cases e)
  case (EFunctionCall f args)
  show ?thesis
    unfolding EFunctionCall check_node_def expr.case by (rule answers_mono [OF call_counted]) (auto simp: counted_simps)
next
  case (EMatch m)
  show ?thesis
    unfolding EMatch check_node_def expr.case by (rule answers_mono [OF match_counted]) (simp add: counted_simps)
next
  case (EBinOp l op r)
  show ?thesis
    unfolding EBinOp check_node_def expr.case by (rule answers_mono [OF binop_counted]) (auto simp: counted_simps)
next
  case (EFString parts)
  show ?thesis
    unfolding EFString check_node_def expr.case by (rule answers_mono [OF f_string_counted]) (auto simp: counted_simps)
next
  case (EReturn k x)
  show ?thesis
    unfolding EReturn check_node_def expr.case check_return_def counted_simps
    by (cases "cx_function_return_type ctx"; simp) (rule answer_rules refl | simp)+
next
  case (ELiteral l)
  show ?thesis
    unfolding ELiteral check_node_def expr.case check_literal_def counted_simps by (rule answer_rules refl | simp)+
next
  case (EBlock b)
  show ?thesis
    unfolding EBlock check_node_def expr.case counted_simps by (rule answers_ignore block_counted)+
next
  case (EAccess x n)
  show ?thesis
    unfolding EAccess check_node_def expr.case check_access_def counted_simps
    by (rule answers_ignore, rule chain_ex) (rule answer_rules refl)+
next
  case (EPath p)
  show ?thesis
    unfolding EPath check_node_def expr.case check_path_def counted_simps by (rule answer_rules refl | simp)+
next
  case (ERecord r)
  have "answers (check_record ex s ctx i (node r)) (\<lambda>d. d \<longleftrightarrow> (\<exists>(n, e) \<in> set (node r). counted e))"
    unfolding check_record_def by (rule answers_ignore fields_counted)+
  then show ?thesis
    unfolding ERecord check_node_def expr.case by (rule answers_mono) (auto simp: counted_simps)
next
  case (ETypedRecord p r)
  have f: "answers (chain (check_record_fields ex s ctx fs (node r) i) (\<lambda>d. chain m (\<lambda>_. pass d)))
      (\<lambda>d. d \<longleftrightarrow> (\<exists>(n, e) \<in> set (node r). counted e))" for fs and m :: "unit check"
    by (rule answers_chain [OF fields_counted]) (rule answers_ignore, simp add: answers_pass)
  have o: "answers (case fs of None \<Rightarrow> reject x | Some fs \<Rightarrow>
        chain (check_record_fields ex s ctx fs (node r) i) (\<lambda>d. chain m (\<lambda>_. pass d)))
      (\<lambda>d. d \<longleftrightarrow> (\<exists>(n, e) \<in> set (node r). counted e))" for fs x and m :: "unit check"
    by (cases fs) (simp_all only: option.case f answers_never)
  have "answers (check_typed_record ex s ctx i p (node r)) (\<lambda>d. d \<longleftrightarrow> (\<exists>(n, e) \<in> set (node r). counted e))"
    unfolding check_typed_record_def
    apply (rule answers_ignore)
    apply (simp only: split: prod.splits declaration_kind.splits type_or_stub.splits)
    apply (intro allI impI conjI answers_never)
    apply (rule answers_ignore)
    apply (simp only: split: rtype.splits)
    apply (intro allI impI conjI answers_never)
    apply (rule answers_ignore, rule o)
    done
  then show ?thesis
    unfolding ETypedRecord check_node_def expr.case by (rule answers_mono) (auto simp: counted_simps)
next
  case (EList es)
  have "answers (any_of (ex s (with_type ctx t)) False es) (\<lambda>d. d \<longleftrightarrow> False \<or> (\<exists>e \<in> set es. counted e))" for t
    by (rule answers_any_of) (rule ex_counted)
  then have "answers (check_list ex s ctx i es) (\<lambda>d. d \<longleftrightarrow> (\<exists>e \<in> set es. counted e))"
    unfolding check_list_def by (intro answers_ignore) simp
  then show ?thesis
    unfolding EList check_node_def expr.case by (rule answers_mono) (auto simp: counted_simps)
next
  case (ENot x)
  show ?thesis
    unfolding ENot check_node_def expr.case check_not_def counted_simps by (rule answers_ignore ex_counted)+
next
  case (EAssign p x)
  show ?thesis
    unfolding EAssign check_node_def expr.case check_assign_def counted_simps by (rule answers_ignore ex_counted)+
next
  case (ECompoundAssign h x)
  show ?thesis
    unfolding ECompoundAssign check_node_def expr.case check_compound_assign_def counted_simps Let_def
    by (rule answers_ignore, rule answers_ignore, rule answers_chain [OF binop_counted], rule answers_ignore)
      (simp add: answers_pass counted_simps)
next
  case (ENegate x)
  show ?thesis
    unfolding ENegate check_node_def expr.case check_negate_def counted_simps
    by (rule answers_ignore, rule chain_ex) (rule answer_rules refl)+
next
  case (EIfElse c t b)
  show ?thesis
    unfolding EIfElse check_node_def expr.case check_if_def counted_simps
    by (cases b)
      (simp_all, (rule answers_chain [OF block_counted] | rule answers_ignore | simp add: answers_pass)+)
next
  case (EWhile c b)
  show ?thesis
    unfolding EWhile check_node_def expr.case check_while_def counted_simps
    by (rule chain_ex, rule answers_ignore, rule answers_ignore, rule answers_chain [OF block_counted])
      (simp add: answers_pass answers_ignore)
next
  case (EFor n x b)
  show ?thesis
    unfolding EFor check_node_def expr.case check_for_def counted_simps
    by (rule answers_ignore, rule chain_ex, rule answers_ignore, rule answers_ignore, rule answers_ignore,
        rule answers_chain [OF block_counted]) (simp add: answers_pass answers_ignore)
next
  case (EQuestionMark x)
  show ?thesis
    unfolding EQuestionMark check_node_def expr.case check_question_mark_def counted_simps Let_def
    by (rule chain_ex)
      (auto intro!: answers_never answers_pass answers_ignore split: option.splits rtype.splits)
qed

end

lemma check_expr_counted: "answers (check_expr n s ctx e) (\<lambda>d. d \<longleftrightarrow> counted e)"
proof (induction n arbitrary: s ctx e)
  case 0
  then show ?case by (simp add: answers_never)
next
  case (Suc n)
  have l: "leaving_checker (check_expr n)" by unfold_locales (rule Suc)
  show ?case
    using leaving_checker.node_counted [OF l, of s ctx "meta_id e" "node e"]
    by (auto simp: check_step_def intro: answers_ignore)
qed

interpretation leaving: leaving_checker "check_expr n" for n
  by unfold_locales (rule check_expr_counted)

end
