(* ===== verification/Check_Match.thy ===== *)
theory Check_Match
  imports Check_Leaves
begin

text \<open>
  The exhaustiveness check of \<open>match_expr\<close> counts the variants that have an arm without a guard.  When the arms
  pass, the count decides exactly whether the match is exhaustive.
\<close>

section \<open>Exhaustive arms\<close>

definition unguarded :: "match_arm \<Rightarrow> bool" where
  "unguarded arm \<longleftrightarrow> guard_of arm = None"

lemma unguarded_simp [simp]: "unguarded (MatchArm pat guard body) \<longleftrightarrow> guard = None"
  by (simp add: unguarded_def)

text \<open>Every value of the type is taken by some arm whatever the guards answer.\<close>

definition exhaustive :: "match_arm list \<Rightarrow> enum_variant list \<Rightarrow> bool" where
  "exhaustive arms vs \<longleftrightarrow> (\<exists>arm \<in> set arms. unguarded arm \<and> arm_variant arm = None) \<or>
     (\<forall>v \<in> set vs. \<exists>arm \<in> set arms. unguarded arm \<and> arm_variant arm = Some (ev_name v))"

definition taken_names :: "match_arm list \<Rightarrow> ident set" where
  "taken_names arms = {x. \<exists>arm \<in> set arms. unguarded arm \<and> arm_variant arm = Some x}"

definition has_default :: "match_arm list \<Rightarrow> bool" where
  "has_default arms \<longleftrightarrow> (\<exists>arm \<in> set arms. unguarded arm \<and> arm_variant arm = None)"

section \<open>What the loop keeps\<close>

text \<open>
  After the arms \<open>done\<close>: the used variants are those with an unguarded arm, each once, all of them
  variants of the type; and the default flag tells whether there was an unguarded underscore.
\<close>

definition tallied :: "enum_variant list \<Rightarrow> match_arm list \<Rightarrow> arms_state \<Rightarrow> bool" where
  "tallied vs arms st \<longleftrightarrow> distinct (as_used st) \<and> set (as_used st) = taken_names arms \<and>
     taken_names arms \<subseteq> ev_name ` set vs \<and> as_default st = has_default arms"

lemma tallied_arm:
  assumes "tallied vs pre st"
  shows "answers (check_arm ex s ctx t vs k st arm) (\<lambda>st'. tallied vs (pre @ [arm]) st')"
proof (cases arm)
  case (MatchArm pat guard body)
  show ?thesis
  proof (cases "as_default st")
    case True
    then show ?thesis by (simp add: check_arm_def MatchArm answers_never)
  next
    case dflt: False
    show ?thesis
    proof (cases "node pat")
      case Underscore
      have n: "arm_variant arm = None" by (simp add: arm_variant_def MatchArm Underscore)
      have "tallied vs (pre @ [arm]) (st\<lparr>as_default := (guard = None), as_diverge := x\<rparr>)" for x
        using assms dflt n by (auto simp: tallied_def taken_names_def has_default_def MatchArm)
      then show ?thesis
        using dflt Underscore by (simp add: check_arm_def MatchArm answers_ignore answers_pass)
    next
      case (EnumVariantPattern v fs)
      let ?n = "ident_of (node v)"
      have n: "arm_variant arm = Some ?n" by (simp add: arm_variant_def MatchArm EnumVariantPattern)
      show ?thesis
      proof (cases "position (\<lambda>v. ev_name v = ?n) vs")
        case None
        with dflt EnumVariantPattern show ?thesis by (simp add: check_arm_def MatchArm answers_never)
      next
        case (Some idx)
        then have "?n \<in> ev_name ` set vs" by (metis (mono_tags, lifting) position_Some image_eqI nth_mem)
        let ?used = "if guard = None \<and> ?n \<notin> set (as_used st) then as_used st @ [?n] else as_used st"
        have t: "taken_names (pre @ [arm]) = (if guard = None then insert ?n (taken_names pre) else taken_names pre)"
          using n by (auto simp: taken_names_def MatchArm)
        have d: "has_default (pre @ [arm]) = has_default pre" using n by (auto simp: has_default_def)
        have r: "tallied vs (pre @ [arm]) (st\<lparr>as_used := ?used, as_diverge := x\<rparr>)" for x
          using assms n \<open>?n \<in> _\<close> unfolding tallied_def t d by (auto split: if_splits)
        show ?thesis
          unfolding check_arm_def MatchArm match_arm.case EnumVariantPattern pattern.case Some option.case Let_def
          by (rule answers_if, rule answers_never, rule answers_ignore, rule answers_ignore, rule answers_ignore,
              rule answers_ignore, rule answers_pass, rule r [unfolded MatchArm])
      qed
    qed
  qed
qed

lemma tallied_arms:
  "tallied vs pre st \<Longrightarrow> answers (check_arms ex s ctx t vs k st arms) (\<lambda>st'. tallied vs (pre @ arms) st')"
proof (induction arms arbitrary: pre st)
  case (Cons arm arms)
  show ?case
    unfolding check_arms.simps
    by (rule answers_chain [OF tallied_arm [OF Cons.prems]]) (use Cons.IH [of "pre @ [arm]"] in simp)
qed (simp add: answers_pass)

lemma exhaustive_iff:
  assumes "tallied vs arms st" and "distinct (map ev_name vs)"
  shows "exhaustive arms vs \<longleftrightarrow> as_default st \<or> length vs \<le> length (as_used st)"
proof -
  from assms(1) have u: "length (as_used st) = card (taken_names arms)" "taken_names arms \<subseteq> ev_name ` set vs"
    by (auto simp: tallied_def distinct_card [symmetric])
  from assms(2) have v: "length vs = card (ev_name ` set vs)" by (metis distinct_card length_map set_map)
  have "(\<forall>v \<in> set vs. ev_name v \<in> taken_names arms) \<longleftrightarrow> length vs \<le> length (as_used st)"
  proof
    assume "\<forall>v \<in> set vs. ev_name v \<in> taken_names arms"
    with u(2) have "taken_names arms = ev_name ` set vs" by auto
    with u(1) v show "length vs \<le> length (as_used st)" by simp
  next
    assume "length vs \<le> length (as_used st)"
    with u v have "taken_names arms = ev_name ` set vs" by (metis card_seteq finite_imageI finite_set)
    then show "\<forall>v \<in> set vs. ev_name v \<in> taken_names arms" by auto
  qed
  with assms(1) show ?thesis by (auto simp: exhaustive_def tallied_def has_default_def taken_names_def)
qed

lemma check_arms_exhaustive:
  assumes "check_arms ex s ctx t vs k \<lparr>as_used = [], as_diverge = True, as_default = False\<rparr> arms st = Checked ast st'"
    and "distinct (map ev_name vs)"
  shows "exhaustive arms vs \<longleftrightarrow> as_default ast \<or> length vs \<le> length (as_used ast)"
proof -
  have "tallied vs [] \<lparr>as_used = [], as_diverge = True, as_default = False\<rparr>"
    by (simp add: tallied_def taken_names_def has_default_def)
  from tallied_arms [OF this, of ex s ctx t k arms] assms(1) have "tallied vs arms ast"
    by (auto simp: answers_def)
  from exhaustive_iff [OF this assms(2)] show ?thesis .
qed

lemma check_arms_used:
  assumes "check_arms ex s ctx t vs k \<lparr>as_used = [], as_diverge = True, as_default = False\<rparr> arms st = Checked ast st'"
  shows "set (as_used ast) = {x. \<exists>arm \<in> set arms. unguarded arm \<and> arm_variant arm = Some x}"
proof -
  have "tallied vs [] \<lparr>as_used = [], as_diverge = True, as_default = False\<rparr>"
    by (simp add: tallied_def taken_names_def has_default_def)
  from tallied_arms [OF this, of ex s ctx t k arms] assms have "tallied vs arms ast"
    unfolding answers_def append_Nil by blast
  then show ?thesis by (simp add: tallied_def taken_names_def)
qed

section \<open>What an accepted match gives the lowering\<close>

text \<open>A default arm is the last one, since any arm after it is rejected.\<close>

lemma default_is_last:
  assumes "as_default st \<longleftrightarrow> pre \<noteq> [] \<and> unguarded (last pre) \<and> arm_variant (last pre) = None"
  shows "answers (check_arms ex s ctx t vs k st arms)
    (\<lambda>st'. as_default st' \<longleftrightarrow> pre @ arms \<noteq> [] \<and> unguarded (last (pre @ arms)) \<and> arm_variant (last (pre @ arms)) = None)"
  using assms
proof (induction arms arbitrary: pre st)
  case (Cons arm arms)
  have "answers (check_arm ex s ctx t vs k st arm) (\<lambda>st'. as_default st' \<longleftrightarrow> unguarded arm \<and> arm_variant arm = None)"
  proof (cases arm)
    case (MatchArm pat guard body)
    show ?thesis
    proof (cases "node pat")
      case Underscore
      then show ?thesis
        by (simp add: check_arm_def MatchArm arm_variant_def answers_never answers_ignore answers_pass)
    next
      case (EnumVariantPattern v fs)
      then have "arm_variant arm = Some (ident_of (node v))" by (simp add: MatchArm arm_variant_def)
      with EnumVariantPattern show ?thesis
        unfolding check_arm_def
        by (simp add: MatchArm Let_def answers_never answers_ignore answers_pass split: option.split)
    qed
  qed
  then show ?case
    unfolding check_arms.simps
    by (rule answers_chain) (use Cons.IH [of _ "pre @ [arm]"] in simp)
qed (simp add: answers_pass)

definition settled :: "match_arm list \<Rightarrow> bool" where
  "settled arms \<longleftrightarrow> (has_default arms \<longrightarrow> unguarded (last arms) \<and> arm_variant (last arms) = None) \<and>
     (has_default arms \<or>
      (\<forall>arm \<in> set arms. \<forall>x. arm_variant arm = Some x \<longrightarrow> (\<exists>u \<in> set arms. unguarded u \<and> arm_variant u = Some x)))"

lemma known_variants: "answers (check_arms ex s ctx t vs k st arms)
    (\<lambda>_. \<forall>arm \<in> set arms. \<forall>x. arm_variant arm = Some x \<longrightarrow> x \<in> ev_name ` set vs)"
proof (induction arms arbitrary: st)
  case (Cons arm arms)
  have "answers (check_arm ex s ctx t vs k st arm) (\<lambda>_. \<forall>x. arm_variant arm = Some x \<longrightarrow> x \<in> ev_name ` set vs)"
  proof (cases arm)
    case (MatchArm pat guard body)
    show ?thesis
    proof (cases "node pat")
      case (EnumVariantPattern v fs)
      let ?n = "ident_of (node v)"
      have n: "arm_variant arm = Some ?n" by (simp add: arm_variant_def MatchArm EnumVariantPattern)
      show ?thesis
      proof (cases "position (\<lambda>v. ev_name v = ?n) vs")
        case None
        with EnumVariantPattern show ?thesis by (simp add: check_arm_def MatchArm answers_never)
      next
        case (Some idx)
        then have "?n \<in> ev_name ` set vs" by (metis (mono_tags, lifting) position_Some image_eqI nth_mem)
        with n show ?thesis by (simp add: answers_def)
      qed
    qed (simp add: MatchArm arm_variant_def answers_def)
  qed
  then show ?case
    unfolding check_arms.simps
    by (rule answers_chain) (use Cons.IH in \<open>auto intro: answers_mono\<close>)
qed (simp add: answers_pass)

lemma arms_settled:
  assumes "check_arms ex s ctx t vs k \<lparr>as_used = [], as_diverge = True, as_default = False\<rparr> arms st = Checked ast st'"
    and "as_default ast \<or> length vs \<le> length (as_used ast)"
  shows "settled arms"
proof -
  let ?s0 = "\<lparr>as_used = [], as_diverge = True, as_default = False\<rparr>"
  have "tallied vs [] ?s0" by (simp add: tallied_def taken_names_def has_default_def)
  from tallied_arms [OF this, of ex s ctx t k arms] assms(1) have t: "tallied vs arms ast" by (auto simp: answers_def)
  from default_is_last [of ?s0 "[]" ex s ctx t vs k arms] assms(1)
  have d: "as_default ast \<longleftrightarrow> arms \<noteq> [] \<and> unguarded (last arms) \<and> arm_variant (last arms) = None" by (auto simp: answers_def)
  from known_variants [of ex s ctx t vs k ?s0 arms] assms(1)
  have k: "\<forall>arm \<in> set arms. \<forall>x. arm_variant arm = Some x \<longrightarrow> x \<in> ev_name ` set vs" by (auto simp: answers_def)
  have "\<exists>u \<in> set arms. unguarded u \<and> arm_variant u = Some x"
    if "\<not> as_default ast" "arm \<in> set arms" "arm_variant arm = Some x" for arm x
  proof -
    from t have u: "length (as_used ast) = card (taken_names arms)" "taken_names arms \<subseteq> ev_name ` set vs"
      by (auto simp: tallied_def distinct_card [symmetric])
    have "card (ev_name ` set vs) \<le> length vs" by (metis card_length image_set length_map)
    with u assms(2) that(1) have "taken_names arms = ev_name ` set vs" by (intro card_seteq) auto
    with k that(2,3) show ?thesis by (auto simp: taken_names_def)
  qed
  with t d show ?thesis by (auto simp: settled_def tallied_def)
qed

text \<open>Arms without a guarded underscore, and without a guard on a variant that was already taken whole.\<close>

definition tidy :: "match_arm list \<Rightarrow> bool" where
  "tidy arms \<longleftrightarrow> (\<forall>arm \<in> set arms. arm_variant arm = None \<longrightarrow> unguarded arm) \<and>
     sorted_wrt (\<lambda>a b. unguarded a \<and> arm_variant a = arm_variant b \<longrightarrow> unguarded b) arms"

lemma sorted_wrt_last:
  "sorted_wrt R xs \<Longrightarrow> x \<in> set xs \<Longrightarrow> x = last xs \<or> R x (last xs)"
  by (induction xs) (auto split: if_splits)

lemma settled_covered:
  assumes "settled arms" and "tidy arms"
  shows "match_covered arms"
  unfolding match_covered_def list_all_iff
proof
  fix a assume a: "a \<in> set arms"
  let ?ws = "arms_with arms a"
  have ws: "a \<in> set ?ws" using a by (simp add: arms_with_def)
  then have ne: "?ws \<noteq> []" by auto
  have "unguarded (last ?ws)"
  proof (cases "has_default arms")
    case True
    with assms(1) have l: "unguarded (last arms)" "arm_variant (last arms) = None" by (auto simp: settled_def)
    have "last ?ws = last arms"
    proof (cases arms rule: rev_cases)
      case (snoc ys y)
      with l have "?ws = filter (\<lambda>b. arm_variant b = arm_variant a \<or> arm_variant b = None) ys @ [y]"
        by (simp add: arms_with_def)
      then show ?thesis using snoc by simp
    qed (use a in simp)
    with l show ?thesis by simp
  next
    case False
    have no: "arm_variant b \<noteq> None" if "b \<in> set arms" for b
      using False assms(2) that by (auto simp: has_default_def tidy_def)
    with a obtain x where x: "arm_variant a = Some x" by blast
    have "\<exists>u \<in> set arms. unguarded u \<and> arm_variant u = Some x"
      using False assms(1) a x unfolding settled_def by blast
    then obtain u where u: "u \<in> set arms" "unguarded u" "arm_variant u = Some x" by blast
    then have "u \<in> set ?ws" using x by (simp add: arms_with_def)
    have so: "sorted_wrt (\<lambda>a b. unguarded a \<and> arm_variant a = arm_variant b \<longrightarrow> unguarded b) ?ws"
      using assms(2) by (simp add: tidy_def arms_with_def sorted_wrt_filter)
    have "arm_variant (last ?ws) = Some x"
    proof -
      have l: "last ?ws \<in> set arms" "arm_variant (last ?ws) = arm_variant a \<or> arm_variant (last ?ws) = None"
        using last_in_set [OF ne] by (simp_all add: arms_with_def)
      from l(2) no [OF l(1)] x show ?thesis by simp
    qed
    with sorted_wrt_last [OF so \<open>u \<in> set ?ws\<close>] u show ?thesis by auto
  qed
  then show "guard_of (last ?ws) = None" by (simp add: unguarded_def)
qed

end
