(* ===== verification/Check_Tables.thy ===== *)
theory Check_Tables
  imports Check_Safe Check_Match
begin

text \<open>
  The tables are complete: once an expression is checked, every expression, block, path, call and variable that its
  lowering looks up has its entry, at every level of nesting.
\<close>

section \<open>The entries of an expression\<close>

definition var_facts :: "'a meta \<Rightarrow> fact set" where
  "var_facts i = {Named (meta_id i), Typed (meta_id i)}"

fun stmt_facts :: "stmt \<Rightarrow> fact set" where
  "stmt_facts (SLet i _ _) = var_facts i"
| "stmt_facts (SExpr _) = {}"

definition block_facts :: "block meta \<Rightarrow> fact set" where
  "block_facts b = {Typed (meta_id b), Diverging (meta_id b)} \<union> (\<Union>s \<in> set (blk_stmts (node b)). stmt_facts (node s))"

definition pattern_vars :: "match_arm \<Rightarrow> name meta list" where
  "pattern_vars arm = (case pattern_fields arm of Some fs \<Rightarrow> fs | None \<Rightarrow> [])"

definition arm_facts :: "match_arm \<Rightarrow> fact set" where
  "arm_facts arm = block_facts (body_of arm) \<union> (\<Union>v \<in> set (pattern_vars arm). var_facts v)"

text \<open>A statement that does not depend on the state.\<close>

lift_definition Always :: "bool \<Rightarrow> fact" is "\<lambda>b _. b"
  by simp

lemma true_in_Always [simp]: "true_in (Always b) st = b"
  by transfer simp

definition node_facts :: "meta_id \<Rightarrow> expr \<Rightarrow> fact set" where
  "node_facts i e = (case e of
     EBlock b \<Rightarrow> block_facts b
   | EMatch m \<Rightarrow> insert (Always (settled (snd (node m)))) (\<Union>arm \<in> set (snd (node m)). arm_facts arm)
   | EFunctionCall f _ \<Rightarrow> (case node f of EPath p \<Rightarrow> {Pathed (meta_id p)} | EAccess _ _ \<Rightarrow> {Called i} | _ \<Rightarrow> {})
   | EPath p \<Rightarrow> {Pathed (meta_id p), Typed (meta_id p)}
   | EAssign p _ \<Rightarrow> {Pathed (meta_id p)}
   | ECompoundAssign h _ \<Rightarrow> {Pathed (meta_id (ca_path h)), Typed (ca_binop_id h)}
   | EIfElse _ t b \<Rightarrow> {Diverging i} \<union> block_facts t \<union> (case b of Some b \<Rightarrow> block_facts b | None \<Rightarrow> {})
   | EWhile _ b \<Rightarrow> block_facts b
   | EFor n _ b \<Rightarrow> var_facts n \<union> block_facts b
   | _ \<Rightarrow> {})"

text \<open>Every level of an expression has its entries.\<close>

inductive recorded :: "checker \<Rightarrow> expr meta \<Rightarrow> bool" for st where
  recordedI: "true_in (Typed (meta_id e)) st \<Longrightarrow> (\<And>f. f \<in> node_facts (meta_id e) (node e) \<Longrightarrow> true_in f st) \<Longrightarrow>
    (\<And>c. c \<in> set (expr_children (node e)) \<Longrightarrow> recorded st c) \<Longrightarrow> recorded st e"

lemma recorded_grows:
  assumes "recorded a e" and "grows a b"
  shows "recorded b e"
  using assms(1)
proof (induction rule: recorded.induct)
  case (recordedI e)
  show ?case
  proof (rule recorded.recordedI)
    show "true_in (Typed (meta_id e)) b" by (rule true_in_grows [OF recordedI(1) assms(2)])
    show "true_in f b" if "f \<in> node_facts (meta_id e) (node e)" for f
      by (rule true_in_grows [OF recordedI(2) [OF that] assms(2)])
  qed (rule recordedI(4))
qed

lift_definition Recorded :: "expr meta \<Rightarrow> fact" is "\<lambda>e st. recorded st e"
  using recorded_grows by blast

lemma true_in_Recorded [simp]: "true_in (Recorded e) st = recorded st e"
  by transfer simp

section \<open>One level\<close>

lemma does_any: "(\<And>x. x \<in> set xs \<Longrightarrow> does F (f x) (\<lambda>_. Q x)) \<Longrightarrow> does F (any_of f acc xs) (\<lambda>_. \<Union>x \<in> set xs. Q x)"
  by (rule does_any_of)

text \<open>Facts of a step, followed by steps without facts.\<close>

lemma does_keep: "does F m Q \<Longrightarrow> (\<And>x. does (F \<union> Q x) (f x) (\<lambda>_. {})) \<Longrightarrow> (\<And>x. R \<subseteq> F \<union> Q x) \<Longrightarrow> does F (chain m f) (\<lambda>_. R)"
proof -
  assume m: "does F m Q" and f: "\<And>x. does (F \<union> Q x) (f x) (\<lambda>_. {})" and r: "\<And>x. R \<subseteq> F \<union> Q x"
  show "does F (chain m f) (\<lambda>_. R)"
    by (rule does_chain [OF m], rule does_last [OF f]) (use r in auto)
qed

lemmas steps = does_fresh does_types does_must_unify does_definition_of does_counters does_need does_expr_type does_tables
  does_last_name does_get_method does_get_function_in_type does_access_field

lemma does_value:
  assumes m: "does F m Q" and v: "\<And>st x st'. m st = Checked x st' \<Longrightarrow> P x"
    and f: "\<And>x. P x \<Longrightarrow> does (F \<union> Q x) (f x) R"
  shows "does F (chain m f) R"
proof -
  have "does F (chain m (\<lambda>x. if P x then f x else stuck)) R"
    by (rule does_chain [OF m]) (simp add: f does_crash)
  moreover have "chain m (\<lambda>x. if P x then f x else stuck) = chain m f"
    using v by (auto simp: chain_def fun_eq_iff split: checked.splits)
  ultimately show ?thesis by simp
qed

lemma does_implied:
  assumes "does F m Q" and "\<And>st x f. \<forall>g \<in> Q x. true_in g st \<Longrightarrow> f \<in> R x \<Longrightarrow> true_in f st"
  shows "does F m R"
  using assms unfolding does_def by (fastforce split: checked.splits)

locale recording_checker =
  fixes ex :: check_expression
  assumes ex: "Scope s \<in> F \<Longrightarrow> does F (ex s ctx e) (\<lambda>_. {Typed (meta_id e), Recorded e})"
begin

abbreviation recs :: "expr meta list \<Rightarrow> fact set" where
  "recs es \<equiv> Recorded ` set es"

lemma ex_nothing [does_rules]: "Scope s \<in> F \<Longrightarrow> does F (ex s ctx e) (\<lambda>_. {})"
  by (rule does_nothing [OF ex])

lemma ex_rec: "Scope s \<in> F \<Longrightarrow> does F (ex s ctx e) (\<lambda>_. {Recorded e})"
  by (rule does_weaken [OF ex]) auto

lemma rec_stmt: "Scope s \<in> F \<Longrightarrow> does F (check_stmt ex s ctx st) (\<lambda>_. insert (Recorded (stmt_expr st)) (stmt_facts st))"
proof (cases st)
  case (SLet i ty e)
  assume s: "Scope s \<in> F"
  have t: "does F (case ty of Some t \<Rightarrow> evaluate_type s t | None \<Rightarrow> fresh_var) (\<lambda>_. {})"
    using s by (cases ty) (auto intro: does_rules)
  show ?thesis
    unfolding SLet check_stmt.simps stmt_expr.simps stmt_facts.simps var_facts_def
    by (rule does_then [OF t], rule does_chain [OF ex_rec [OF s]], rule does_then, rule does_rules,
        rule does_keep, rule does_rules, rule does_rules) (auto simp: ast_ident_def)
next
  case (SExpr e)
  assume s: "Scope s \<in> F"
  show ?thesis
    unfolding SExpr check_stmt.simps stmt_expr.simps stmt_facts.simps
    by (rule does_then, rule does_rules, rule ex_rec [OF s])
qed

lemma rec_block:
  assumes "Scope s \<in> F"
  shows "does F (check_block ex s ctx b) (\<lambda>_. block_facts b \<union> recs (block_children (node b)))"
proof -
  have ss: "does F (any_of (\<lambda>st. check_stmt ex s ctx (node st)) False (blk_stmts (node b)))
      (\<lambda>_. \<Union>x \<in> set (blk_stmts (node b)). insert (Recorded (stmt_expr (node x))) (stmt_facts (node x)))"
    by (rule does_any) (rule rec_stmt [OF assms])
  have r: "does G (record_block i t d) (\<lambda>_. {Typed i, Diverging i})" for G i t d
    unfolding record_block_def
    by (rule does_chain, rule does_rules, rule does_keep, rule does_rules, rule does_rules) auto
  show ?thesis
  proof (cases "blk_last (node b)")
    case None
    show ?thesis
      unfolding check_block_def None option.case
      by (rule does_then, rule does_rules, rule assms, rule does_chain [OF ss], rule does_then, intro does_rules,
          rule does_last [OF r]) (auto simp: block_facts_def block_children_def None)
  next
    case (Some e)
    show ?thesis
      unfolding check_block_def Some option.case
      by (rule does_then, rule does_rules, rule assms, rule does_chain [OF ss], rule does_chain, rule ex_rec,
          simp add: assms, rule does_then, rule does_rules, rule does_last [OF r])
        (auto simp: block_facts_def block_children_def Some)
  qed
qed

lemma rec_args: "Scope s \<in> F \<Longrightarrow> does F (check_arguments ex s ctx k i params args) (\<lambda>_. recs args)"
proof -
  assume s: "Scope s \<in> F"
  have "does F (any_of (\<lambda>(arg, ty). ex s (with_type ctx ty) arg) False (zip args params))
      (\<lambda>_. \<Union>x \<in> set (zip args params). {Recorded (fst x)})"
    by (rule does_any) (auto intro: ex_rec [OF s])
  moreover have "recs args \<subseteq> (\<Union>x \<in> set (zip args params). {Recorded (fst x)})" if "length args = length params"
  proof -
    have e: "set args = fst ` set (zip args params)"
      using arg_cong [OF map_fst_zip [OF that], of set] by (simp del: map_fst_zip)
    show ?thesis by (subst e) auto
  qed
  ultimately show ?thesis
    unfolding check_arguments_def
    by (auto intro!: does_reject elim: does_weaken)
qed

lemma rec_fields: "Scope s \<in> F \<Longrightarrow> does F (check_record_fields ex s ctx fs r i) (\<lambda>_. recs (map snd r))"
proof -
  assume s: "Scope s \<in> F"
  have "does F (any_of (\<lambda>(i, e). chain (need PkUnwrap (find_field (ident_of (node i)) fs))
      (\<lambda>expected. ex s (with_type ctx expected) e)) False r) (\<lambda>_. \<Union>x \<in> set r. {Recorded (snd x)})"
    by (rule does_any) (auto intro!: does_then [OF does_need] ex_rec [OF s])
  then have "does F (any_of (\<lambda>(i, e). chain (need PkUnwrap (find_field (ident_of (node i)) fs))
      (\<lambda>expected. ex s (with_type ctx expected) e)) False r) (\<lambda>_. recs (map snd r))"
    by (rule does_weaken) auto
  then show ?thesis unfolding check_record_fields_def Let_def by (intro does_if does_reject)
qed

lemma rec_constructor: "Scope s \<in> F \<Longrightarrow> does F (constructor_call ex s ctx i k d v args) (\<lambda>_. recs args)"
proof -
  assume s: "Scope s \<in> F"
  have c: "does G (chain (check_arguments ex s ctx t k fs args) (\<lambda>d. chain (must_unify a b i) (\<lambda>_. pass d))) (\<lambda>_. recs args)"
    if "Scope s \<in> G" for G t fs a b
    by (rule does_chain, rule rec_args [OF that], rule does_chain, rule steps, rule does_pass) auto
  show ?thesis
    unfolding constructor_call_def Let_def
    by (rule does_then, rule steps, simp only: split: rtype.splits, intro allI impI conjI does_rules c s)
qed

lemma rec_signature: "Scope s \<in> F \<Longrightarrow> does F (signature_call ex s ctx i k p t f args) (\<lambda>_. insert (Called i) (recs args))"
proof -
  assume s: "Scope s \<in> F"
  have c: "does G (call_parameters p sg) (\<lambda>_. {})" for G sg
    unfolding call_parameters_def
    by (simp only: split: resolved_path.splits) (intro allI impI conjI does_then does_rules)
  show ?thesis
    unfolding signature_call_def
    by (rule does_chain, rule steps, rule does_chain, rule c, rule does_chain, rule rec_args, simp add: s,
        rule does_chain, rule steps, rule does_pass) auto
qed

lemma rec_path_call: "Scope s \<in> F \<Longrightarrow> does F (path_function_call ex s ctx i p args) (\<lambda>_. insert (Pathed (meta_id p)) (recs args))"
proof -
  assume s: "Scope s \<in> F"
  have g: "does G (signature_call ex s ctx i k r t f args) (\<lambda>_. insert (Pathed (meta_id p)) (recs args))"
    if "Scope s \<in> G" "Pathed (meta_id p) \<in> G" for G k r t f
    by (rule does_last [OF rec_signature]) (use that in auto)
  have c: "does G (constructor_call ex s ctx i k d v args) (\<lambda>_. insert (Pathed (meta_id p)) (recs args))"
    if "Scope s \<in> G" "Pathed (meta_id p) \<in> G" for G k d v
    by (rule does_last [OF rec_constructor]) (use that in auto)
  show ?thesis
    unfolding path_function_call_def Let_def
    by (rule does_then, rule steps, rule does_then, rule does_expression_path [OF s], rule does_chain, rule steps,
        simp only: split: resolved_path.splits, intro allI impI conjI g c does_reject) (simp_all add: s)
qed

lemma rec_method: "Scope s \<in> F \<Longrightarrow> does F (method_call ex s ctx i ty k args) (\<lambda>_. insert (Called i) (recs args))"
proof -
  assume s: "Scope s \<in> F"
  show ?thesis
    unfolding method_call_def Let_def
    by (rule does_then, rule does_get_method, rule does_option, rule does_reject, rule does_then, rule steps,
        rule does_then, rule steps, rule does_chain, rule rec_args [OF s], rule does_chain, rule steps,
        rule does_chain, rule steps, rule does_pass) auto
qed

lemma rec_call:
  assumes "Scope s \<in> F"
  shows "does F (check_call ex s ctx i f (node args))
    (\<lambda>_. node_facts i (EFunctionCall f args) \<union> recs (expr_children (EFunctionCall f args)))"
proof -
  have p: "does F (path_function_call ex s ctx i p (node args)) (\<lambda>_. {Pathed (meta_id p)} \<union> recs (node args))" for p
    using rec_path_call [OF assms] by simp
  have m: "does F (chain fresh_var (\<lambda>ty. chain (ex s (with_type ctx ty) e) (\<lambda>d.
      chain (method_call ex s ctx i ty k (node args)) (\<lambda>d'. pass (d \<or> d')))))
      (\<lambda>_. {Called i} \<union> recs (e # node args))" for e k
    by (rule does_then, rule steps, rule does_chain, rule ex_rec [OF assms], rule does_chain, rule rec_method,
        simp add: assms, rule does_pass) auto
  show ?thesis
    using p m by (cases "node f") (simp_all add: check_call_def node_facts_def does_reject)
qed

lemma rec_path: "Scope s \<in> F \<Longrightarrow> does F (check_path s ctx p) (\<lambda>_. {Pathed (meta_id p), Typed (meta_id p)})"
proof -
  assume s: "Scope s \<in> F"
  have t: "does G (case r of
      RpValue v \<Rightarrow> pass (final_type v)
    | RpEnumConstructor ty variant \<Rightarrow>
        if ev_fields variant \<noteq> [] then reject (err variant) else instantiate_definition ty
    | _ \<Rightarrow> reject err') (\<lambda>_. {})" for G r err err'
    by (cases r) (simp_all add: does_rules)
  show ?thesis
    unfolding check_path_def
    by (rule does_then, rule steps, rule does_then, rule does_expression_path [OF s], rule does_chain, rule steps,
        rule does_then, rule t, rule does_chain, rule steps, rule does_chain, rule steps, rule does_pass) auto
qed

lemma rec_access: "Scope s \<in> F \<Longrightarrow> does F (check_access ex s ctx e k) (\<lambda>_. {Recorded e})"
  unfolding check_access_def
  by (rule does_then, rule steps, rule does_chain, rule ex_rec, assumption, rule does_then, rule steps,
      rule does_then, rule steps, rule does_then, rule steps, rule does_pass) auto

lemma rec_return: "Scope s \<in> F \<Longrightarrow> does F (check_return ex s ctx i k e) (\<lambda>_. recs (option_list e))"
proof -
  assume s: "Scope s \<in> F"
  have t: "does G (returned_type k r i) (\<lambda>_. {})" for G r
    unfolding returned_type_def by (cases k) (simp, intro does_then steps does_pass_nothing; simp)+
  have e: "does G (case e of Some e \<Rightarrow> chain (ex s c e) (\<lambda>_. pass ()) | None \<Rightarrow> must_unify c' TUnit i)
      (\<lambda>_. recs (option_list e))" if "Scope s \<in> G" for G c c'
  proof (cases e)
    case (Some x)
    show ?thesis
      unfolding Some option.case option_list_def
      by (rule does_chain, rule ex_rec [OF that], rule does_pass) auto
  qed (simp add: option_list_def does_must_unify)
  show ?thesis
    unfolding check_return_def
    by (rule does_option, rule does_reject, rule does_then, rule steps, rule does_then, rule t, rule does_chain,
        rule e [OF s], rule does_pass) auto
qed

lemma does_value_path: "Scope s \<in> F \<Longrightarrow> does F (value_path s ctx p) (\<lambda>_. {Pathed (meta_id p)})"
  unfolding value_path_def
  by (rule does_then, rule does_expression_path, assumption, rule does_chain, rule steps)
    (auto intro!: does_reject does_pass split: resolved_path.splits)

lemma rec_assign: "Scope s \<in> F \<Longrightarrow> does F (check_assign ex s ctx i p e) (\<lambda>_. {Pathed (meta_id p), Recorded e})"
  unfolding check_assign_def
  by (rule does_then, rule steps, rule does_chain, rule does_value_path, assumption, rule does_last,
      rule ex_rec) auto

lemma rec_record: "Scope s \<in> F \<Longrightarrow> does F (check_record ex s ctx i r) (\<lambda>_. recs (map snd r))"
  unfolding check_record_def
  by (rule does_then, rule does_gather, rule does_prod, rule does_then, rule steps, rule does_pass_nothing,
      rule does_then, rule steps, rule does_then, rule steps, rule rec_fields)

lemma rec_typed_record: "Scope s \<in> F \<Longrightarrow> does F (check_typed_record ex s ctx i p r) (\<lambda>_. recs (map snd r))"
proof -
  assume s: "Scope s \<in> F"
  have t: "does F (case ty of
      TName tn \<Rightarrow>
        chain (need PkAssert (record_fields d (tn_arguments tn))) (\<lambda>fs. case fs of
          None \<Rightarrow> reject err
        | Some fs \<Rightarrow>
            chain (check_record_fields ex s ctx fs r i) (\<lambda>diverges.
            chain (must_unify (cx_expected_type ctx) ty i) (\<lambda>_. pass diverges)))
    | _ \<Rightarrow> crash PkIce) (\<lambda>_. recs (map snd r))" for ty d err
    by (simp only: split: rtype.splits, intro allI impI conjI does_crash, rule does_then, rule steps,
        rule does_option, rule does_reject, rule does_chain, rule rec_fields [OF s], rule does_chain, rule steps,
        rule does_pass) auto
  have k: "does F (case k of
      DkType (TsType d) \<Rightarrow>
        chain (instantiate_definition d) (\<lambda>ty. case ty of
          TName tn \<Rightarrow>
            chain (need PkAssert (record_fields d (tn_arguments tn))) (\<lambda>fs. case fs of
              None \<Rightarrow> reject err
            | Some fs \<Rightarrow>
                chain (check_record_fields ex s ctx fs r i) (\<lambda>diverges.
                chain (must_unify (cx_expected_type ctx) ty i) (\<lambda>_. pass diverges)))
        | _ \<Rightarrow> crash PkIce)
    | _ \<Rightarrow> reject err) (\<lambda>_. recs (map snd r))" for k err
    by (simp only: split: declaration_kind.splits type_or_stub.splits,
        intro allI impI conjI does_reject does_then [OF does_types(2)] t)
  show ?thesis
    unfolding check_typed_record_def
    by (rule does_then, rule does_path_part [OF s], rule does_prod, rule does_prod, rule k)
qed

lemma rec_list: "Scope s \<in> F \<Longrightarrow> does F (check_list ex s ctx i es) (\<lambda>_. recs es)"
proof -
  assume s: "Scope s \<in> F"
  have "does F (any_of (ex s c) False es) (\<lambda>_. \<Union>x \<in> set es. {Recorded x})" for c
    by (rule does_any) (rule ex_rec [OF s])
  then have "does F (any_of (ex s c) False es) (\<lambda>_. recs es)" for c
    by (rule does_weaken) auto
  then show ?thesis
    unfolding check_list_def
    by (rule does_then [OF does_fresh(1) does_then [OF does_must_unify]])
qed

lemma rec_not: "Scope s \<in> F \<Longrightarrow> does F (check_not ex s ctx i e) (\<lambda>_. {Recorded e})"
  unfolding check_not_def by (rule does_then, rule steps, rule ex_rec)

lemma rec_negate: "Scope s \<in> F \<Longrightarrow> does F (check_negate ex s ctx i e) (\<lambda>_. {Recorded e})"
proof -
  assume s: "Scope s \<in> F"
  have a: "does G (case d of DPrimitive (PInt Unsigned x) \<Rightarrow> reject err | _ \<Rightarrow> pass ()) (\<lambda>_. {})" for G d err
    by (simp only: split: type_definition.splits primitive.splits int_kind.splits,
        intro allI impI conjI does_reject does_pass_nothing)
  have b: "does G (case t of
      TName tn \<Rightarrow> chain (definition_of (tn_name tn)) (\<lambda>def. case def of
          DPrimitive (PInt Unsigned _) \<Rightarrow> reject err | _ \<Rightarrow> pass ())
    | _ \<Rightarrow> pass ()) (\<lambda>_. {})" for G t err
    by (simp only: split: rtype.splits, intro allI impI conjI does_pass_nothing does_then [OF does_definition_of] a)
  have c: "does G (case t of TIntVar x SignedNo \<Rightarrow> must_be_signed x | _ \<Rightarrow> pass ()) (\<lambda>_. {})" for G t
    by (simp only: split: rtype.splits must_be_signed.splits,
        intro allI impI conjI does_pass_nothing does_types)
  show ?thesis
    unfolding check_negate_def
    by (rule does_then, rule steps, rule does_chain, rule ex_rec [OF s], rule does_then, rule steps,
        rule does_then, rule b, rule does_then, rule steps, rule does_if, rule does_then, rule c,
        rule does_then, rule steps, rule does_pass, simp, rule does_reject)
qed

lemma does_operator: "does F (operator_call t m i) (\<lambda>_. {Called i})"
  unfolding operator_call_def by (rule does_then, rule steps, rule does_then, rule steps, rule steps)

abbreviation special_facts :: "expr meta \<Rightarrow> expr meta \<Rightarrow> bool option \<Rightarrow> fact set" where
  "special_facts l r d \<equiv> (if d = None then {} else {Recorded l, Recorded r})"

lemma rec_special:
  assumes "Scope s \<in> F"
  shows "does (F \<union> {Recorded l}) (chain (ex s c r) (\<lambda>d'. chain (must_unify a b i) (\<lambda>_. chain (operator_call t m i)
    (\<lambda>_. pass (Some (h d')))))) (special_facts l r)"
  by (rule does_chain, rule ex_rec, simp add: assms, rule does_then, rule steps, rule does_then,
      rule does_nothing [OF does_operator], rule does_pass) auto

lemma rec_div: "Scope s \<in> F \<Longrightarrow> does F (check_div ex s ctx i l r) (special_facts l r)"
  unfolding check_div_def
  by (rule does_then, rule steps, rule does_chain, rule ex_rec, assumption, rule does_then, rule steps,
      rule does_if, rule rec_special, assumption, rule does_pass) simp

lemma rec_append: "Scope s \<in> F \<Longrightarrow> does F (check_append ex s ctx i l r) (special_facts l r)"
  unfolding check_append_def
  by (rule does_then, rule steps, rule does_chain, rule ex_rec, assumption, rule does_then, rule steps,
      rule does_if, rule rec_special, assumption, rule does_if, rule rec_special, assumption, rule does_pass) simp

text \<open>Both operands, in any of the general cases.\<close>

lemma rec_both:
  assumes "Scope s \<in> F"
  shows "does (F \<union> {Recorded l}) (chain (ex s c r) (\<lambda>d'. pass (h d'))) (\<lambda>_. {Recorded l, Recorded r})"
  by (rule does_chain, rule ex_rec, simp add: assms, rule does_pass) auto

lemma rec_logical: "Scope s \<in> F \<Longrightarrow> does F (check_logical ex s ctx i l r) (\<lambda>_. {Recorded l, Recorded r})"
  unfolding check_logical_def
  by (rule does_then, rule steps, rule does_chain, rule ex_rec, assumption, rule rec_both)

lemma rec_equality: "Scope s \<in> F \<Longrightarrow> does F (check_equality ex s ctx i l r) (\<lambda>_. {Recorded l, Recorded r})"
  unfolding check_equality_def
  by (rule does_then, rule steps, rule does_then, rule steps, rule does_chain, rule ex_rec, assumption, rule rec_both)

lemma rec_comparison: "Scope s \<in> F \<Longrightarrow> does F (check_comparison ex s ctx i l r) (\<lambda>_. {Recorded l, Recorded r})"
  unfolding check_comparison_def
  by (rule does_then, rule steps, rule does_then, rule steps, rule does_chain, rule ex_rec, assumption,
      rule does_then, rule steps, rule does_if, rule rec_both, assumption, rule does_reject)

lemma rec_arithmetic:
  assumes "Scope s \<in> F" and a: "\<And>t G. does G (allowed t) (\<lambda>_. {})"
  shows "does F (check_arithmetic allowed err ex s ctx i l r) (\<lambda>_. {Recorded l, Recorded r})"
  unfolding check_arithmetic_def
  by (rule does_then, rule steps, rule does_chain, rule ex_rec [OF assms(1)], rule does_then, rule a, rule does_if,
      rule does_chain, rule ex_rec, simp add: assms(1), rule does_then, rule steps, rule does_pass, simp,
      rule does_reject)

lemma rec_general: "Scope s \<in> F \<Longrightarrow> does F (general_binop ex s ctx op i l r) (\<lambda>_. {Recorded l, Recorded r})"
  unfolding general_binop_def
  by (intro does_if rec_logical rec_equality rec_comparison rec_arithmetic does_types)

lemma rec_binop:
  assumes "Scope s \<in> F"
  shows "does F (check_binop ex s ctx op i l r) (\<lambda>_. {Recorded l, Recorded r})"
proof -
  have sp: "does F (if op = BDiv then check_div ex s ctx i l r else if op = BAdd then check_append ex s ctx i l r
      else pass None) (special_facts l r)"
    by (intro does_if rec_div rec_append assms does_pass) simp
  show ?thesis
    unfolding check_binop_def
    by (rule does_chain [OF sp], rule does_option, rule rec_general, simp add: assms, rule does_pass, simp)
qed

lemma rec_compound:
  assumes "Scope s \<in> F"
  shows "does F (check_compound_assign ex s ctx i c e)
    (\<lambda>_. node_facts i (ECompoundAssign c e) \<union> recs (expr_children (ECompoundAssign c e)))"
proof -
  let ?p = "Meta (EPath (ca_path c)) (ca_path_expr_id c)"
  let ?b = "Meta (EBinOp ?p (compound_op (ca_op c)) e) (ca_binop_id c)"
  have r: "recorded st ?b" if "true_in (Typed (ca_binop_id c)) st" "recorded st ?p" "recorded st e" for st
  proof (rule recorded.recordedI)
    show "recorded st x" if "x \<in> set (expr_children (node ?b))" for x
      using that \<open>recorded st ?p\<close> \<open>recorded st e\<close> by auto
  qed (use that in \<open>simp_all add: node_facts_def\<close>)
  have "does F (check_compound_assign ex s ctx i c e)
      (\<lambda>_. {Pathed (meta_id (ca_path c)), Typed (ca_binop_id c), Recorded ?p, Recorded e})"
    unfolding check_compound_assign_def Let_def
    by (rule does_then, rule steps, rule does_chain, rule does_value_path [OF assms], rule does_chain, rule rec_binop,
        simp add: assms, rule does_chain, rule steps, rule does_pass) auto
  then show ?thesis
    by (rule does_implied) (auto simp: node_facts_def r)
qed

abbreviation block_recorded :: "block meta \<Rightarrow> fact set" where
  "block_recorded b \<equiv> block_facts b \<union> recs (block_children (node b))"

lemma rec_if:
  assumes "Scope s \<in> F"
  shows "does F (check_if ex s ctx i c t e)
    (\<lambda>_. node_facts i (EIfElse c t e) \<union> recs (expr_children (EIfElse c t e)))"
proof (cases e)
  case None
  show ?thesis
    unfolding check_if_def None option.case
    by (rule does_chain, rule ex_rec [OF assms], rule does_then, rule steps, rule does_then, rule steps,
        rule does_chain, rule does_wrap_scopes, simp add: assms, rule does_chain, rule rec_block, simp,
        rule does_chain, rule steps, rule does_pass) (auto simp: node_facts_def else_children_def)
next
  case (Some b)
  show ?thesis
    unfolding check_if_def Some option.case
    by (rule does_chain, rule ex_rec [OF assms], rule does_then, rule steps,
        rule does_chain, rule does_wrap_scopes, simp add: assms, rule does_chain, rule rec_block, simp,
        rule does_chain, rule does_wrap_scopes, simp add: assms, rule does_chain, rule rec_block, simp,
        rule does_chain, rule steps, rule does_pass) (auto simp: node_facts_def else_children_def)
qed

lemma rec_while:
  assumes "Scope s \<in> F"
  shows "does F (check_while ex s ctx i c b) (\<lambda>_. insert (Recorded c) (block_recorded b))"
  unfolding check_while_def
  by (rule does_chain, rule ex_rec [OF assms], rule does_then, rule steps,
      rule does_chain, rule does_wrap_scopes, simp add: assms, rule does_chain, rule rec_block, simp,
      rule does_then, rule steps, rule does_pass) auto

lemma rec_for:
  assumes "Scope s \<in> F"
  shows "does F (check_for ex s ctx i n e b) (\<lambda>_. insert (Recorded e) (var_facts n \<union> block_recorded b))"
  unfolding check_for_def
  by (rule does_then, rule steps, rule does_chain, rule ex_rec [OF assms], rule does_then, rule steps,
      rule does_chain, rule does_wrap_scopes, simp add: assms, rule does_chain, rule does_declare_var,
      rule does_chain, rule rec_block, simp, rule does_then, rule steps, rule does_pass)
    (auto simp: var_facts_def ast_ident_def)

lemma rec_question_mark: "Scope s \<in> F \<Longrightarrow> does F (check_question_mark ex s ctx i e) (\<lambda>_. {Recorded e})"
proof -
  assume s: "Scope s \<in> F"
  have t: "does (F \<union> {Recorded e}) (case ty of TName tn \<Rightarrow> if c tn then reject err else pass d | _ \<Rightarrow> reject err)
      (\<lambda>_. {Recorded e})" for ty c err and d :: bool
    by (cases ty) (simp_all add: does_reject does_pass)
  show ?thesis
    unfolding check_question_mark_def Let_def
    by (rule does_chain, rule ex_rec [OF s], rule does_option, rule does_reject, rule does_then, rule steps, rule t)
qed

lemma rec_f_string:
  assumes "Scope s \<in> F"
  shows "does F (check_f_string ex s ctx i parts) (\<lambda>_. recs (concat (map (\<lambda>p. part_children (node p)) parts)))"
proof -
  have p: "does F (check_f_string_part ex s ctx p) (\<lambda>_. recs (part_children (node p)))" for p
  proof (cases "node p")
    case (FsExpr e)
    show ?thesis
      unfolding check_f_string_part_def FsExpr fstring_part.case part_children_def
      by (rule does_then, rule steps, rule does_chain, rule ex_rec [OF assms], rule does_then, rule steps,
          rule does_pass) auto
  qed (simp add: check_f_string_part_def part_children_def does_pass)
  have "does F (any_of (check_f_string_part ex s ctx) False parts) (\<lambda>_. \<Union>x \<in> set parts. recs (part_children (node x)))"
    by (rule does_any) (rule p)
  then have "does F (any_of (check_f_string_part ex s ctx) False parts)
      (\<lambda>_. recs (concat (map (\<lambda>p. part_children (node p)) parts)))"
    by (rule does_weaken) auto
  then show ?thesis unfolding check_f_string_def by (rule does_then [OF does_must_unify])
qed

lemma rec_pattern: "does F (declare_pattern s t v ts data_field)
    (\<lambda>_. \<Union>x \<in> set (case data_field of Some fs \<Rightarrow> node fs | None \<Rightarrow> []). var_facts x)"
proof -
  have each: "does F (each_of (\<lambda>(ty, field). declare_var s (ast_ident field) ty) (zip ts fs)) (\<lambda>_. \<Union>x \<in> set fs. var_facts x)"
    if "length ts = length fs" for fs
  proof -
    have "does F (each_of (\<lambda>(ty, field). declare_var s (ast_ident field) ty) (zip ts fs))
        (\<lambda>_. \<Union>x \<in> set (zip ts fs). var_facts (snd x))"
    proof (rule does_each_of, rule does_prod)
      show "does F (declare_var s (ast_ident field) ty) (\<lambda>_. var_facts (snd x))" if "x = (ty, field)" for x ty field
        using does_declare_var [of F s "ast_ident field" ty] by (simp add: that var_facts_def ast_ident_def)
    qed
    moreover have "(\<Union>x \<in> set fs. var_facts x) = (\<Union>x \<in> set (zip ts fs). var_facts (snd x))"
      by (subst map_snd_zip [OF that, symmetric]) (simp only: set_map UN_simps image_image)
    ultimately show ?thesis by simp
  qed
  show ?thesis
    using each by (cases ts; cases data_field) (simp_all add: declare_pattern_def does_reject does_pass)
qed

lemma rec_guard: "Scope s \<in> F \<Longrightarrow> does F (check_guard ex s ctx g) (\<lambda>_. recs (option_list g))"
  by (cases g) (auto simp: check_guard_def option_list_def does_pass intro!: does_chain [OF ex_rec] does_pass)

abbreviation arm_recorded :: "match_arm \<Rightarrow> fact set" where
  "arm_recorded arm \<equiv> arm_facts arm \<union> recs (option_list (guard_of arm) @ block_children (node (body_of arm)))"

lemma rec_arm:
  assumes "Scope s \<in> F"
  shows "does F (check_arm ex s ctx t vs k st arm) (\<lambda>_. arm_recorded arm)"
proof (cases arm)
  case (MatchArm pat g body)
  have arm: "arm_recorded arm = (\<Union>x \<in> set (pattern_vars arm). var_facts x) \<union> recs (option_list g) \<union> block_recorded body"
    by (auto simp: MatchArm arm_facts_def)
  show ?thesis
  proof (cases "node pat")
    case Underscore
    have v: "pattern_vars arm = []" by (simp add: MatchArm Underscore pattern_vars_def pattern_fields_def)
    show ?thesis
      unfolding arm v check_arm_def unfolding MatchArm match_arm.case Underscore pattern.case
      by (rule does_if, rule does_reject, rule does_chain, rule does_wrap_scopes [OF assms], rule does_chain,
          rule rec_guard, simp, rule does_chain, rule rec_block, simp, rule does_pass) auto
  next
    case (EnumVariantPattern v fs)
    have v: "pattern_vars arm = (case fs of Some fs \<Rightarrow> node fs | None \<Rightarrow> [])"
      by (simp add: MatchArm EnumVariantPattern pattern_vars_def pattern_fields_def split: option.splits)
    show ?thesis
      unfolding arm v check_arm_def unfolding MatchArm match_arm.case EnumVariantPattern pattern.case Let_def
      by (rule does_if, rule does_reject, rule does_option, rule does_reject, rule does_chain,
          rule does_wrap_scopes [OF assms], rule does_chain, rule rec_pattern, rule does_chain,
          rule rec_guard, simp, rule does_chain, rule rec_block, simp, rule does_pass) auto
  qed
qed

lemma rec_arms:
  assumes "Scope s \<in> F"
  shows "does F (check_arms ex s ctx t vs k st arms) (\<lambda>_. \<Union>arm \<in> set arms. arm_recorded arm)"
  using assms
proof (induction arms arbitrary: F st)
  case (Cons arm arms)
  have "does (F \<union> arm_recorded arm) (check_arms ex s ctx t vs k st' arms)
      (\<lambda>_. \<Union>arm \<in> set (arm # arms). arm_recorded arm)" for st'
    by (rule does_last [OF Cons.IH]) (use Cons.prems in auto)
  then show ?case unfolding check_arms.simps by (rule does_chain [OF rec_arm [OF Cons.prems]])
qed (simp add: does_pass)

lemma rec_match:
  assumes "Scope s \<in> F"
  shows "does F (check_match ex s ctx m) (\<lambda>_. node_facts i (EMatch m) \<union> recs (expr_children (EMatch m)))"
proof -
  obtain e arms where m: "node m = (e, arms)" by (cases "node m")
  have v: "does G (matched_variants t j) (\<lambda>_. {})" for G t j
    unfolding matched_variants_def
    by (simp only: split: rtype.splits, intro allI impI conjI does_reject does_then does_need does_definition_of
        does_option does_pass_nothing)
  have all: "node_facts i (EMatch m) \<union> recs (expr_children (EMatch m)) =
      insert (Always (settled arms)) (insert (Recorded e) (\<Union>arm \<in> set arms. arm_recorded arm))"
    by (auto simp: node_facts_def m match_children_def option_list_def)
  have fin: "does G (if \<not> as_default st \<and> length (as_used st) < length vs then reject err else pass (as_diverge st))
      (\<lambda>_. insert (Always (settled arms)) (insert (Recorded e) (\<Union>arm \<in> set arms. arm_recorded arm)))"
    if "as_default st \<or> length vs \<le> length (as_used st) \<longrightarrow> settled arms"
      "insert (Recorded e) (\<Union>arm \<in> set arms. arm_recorded arm) \<subseteq> G" for G st vs err
  proof (cases "\<not> as_default st \<and> length (as_used st) < length vs")
    case False
    with that(1) have "settled arms" by auto
    then have a: "does G (pass (as_diverge st)) (\<lambda>_. {Always (settled arms)})" by (simp add: does_def pass_def)
    show ?thesis unfolding if_not_P [OF False] by (rule does_last [OF a]) (use that(2) in auto)
  qed (simp add: does_reject)
  have arms: "does G (chain (check_arms ex s ctx t vs k \<lparr>as_used = [], as_diverge = True, as_default = False\<rparr> arms) (\<lambda>st.
      if \<not> as_default st \<and> length (as_used st) < length vs then reject (err st) else pass (as_diverge st)))
      (\<lambda>_. insert (Always (settled arms)) (insert (Recorded e) (\<Union>arm \<in> set arms. arm_recorded arm)))"
    if "Scope s \<in> G" "Recorded e \<in> G" for G t vs k err
    by (rule does_value [OF rec_arms [OF that(1)]], rule impI, rule arms_settled, assumption, assumption, rule fin)
      (use that in auto)
  show ?thesis
    unfolding all check_match_def m prod.case
    by (rule does_then, rule steps, rule does_chain, rule ex_rec [OF assms], rule does_then, rule steps, rule does_if,
        rule does_crash, rule does_then, rule v, rule does_then, rule steps, rule arms) (simp_all add: assms)
qed

lemma rec_literal: "does F (check_literal ctx l) (\<lambda>_. {})"
proof -
  have "does G (literal_type l) (\<lambda>_. {})" for G l
    unfolding literal_type_def
    by (simp only: split: literal.splits option.splits float_type.splits,
        intro allI impI conjI does_pass_nothing does_fresh)
  then show ?thesis unfolding check_literal_def by (intro does_then does_rules)
qed

lemma rec_node:
  assumes "Scope s \<in> F"
  shows "does F (check_node ex s ctx i e) (\<lambda>_. node_facts i e \<union> recs (expr_children e))"
proof (cases e)
  case (EBlock b)
  show ?thesis
    unfolding EBlock check_node_def expr.case
    by (rule does_then, rule steps, rule does_chain, rule does_wrap_scopes [OF assms], rule does_last, rule rec_block,
        simp) (auto simp: node_facts_def)
next
  case (EMatch m)
  then show ?thesis using rec_match [OF assms] by (simp add: check_node_def)
next
  case (EFunctionCall f args)
  then show ?thesis using rec_call [OF assms] by (simp add: check_node_def)
next
  case (ECompoundAssign h x)
  then show ?thesis using rec_compound [OF assms] by (simp add: check_node_def)
next
  case (EIfElse c t x)
  then show ?thesis using rec_if [OF assms] by (simp add: check_node_def)
next
  case (EReturn k x)
  then show ?thesis using rec_return [OF assms] by (simp add: check_node_def node_facts_def)
next
  case (EAccess x k)
  then show ?thesis using rec_access [OF assms] by (simp add: check_node_def node_facts_def)
next
  case (EAssign p x)
  then show ?thesis using rec_assign [OF assms] by (simp add: check_node_def node_facts_def insert_commute)
next
  case (EPath p)
  then show ?thesis using rec_path [OF assms] by (simp add: check_node_def node_facts_def)
next
  case (EFor n x b)
  then show ?thesis using rec_for [OF assms] by (simp add: check_node_def node_facts_def Un_assoc)
next
  case (ERecord r)
  then show ?thesis using rec_record [OF assms] by (simp only: check_node_def node_facts_def expr.case expr_children.simps Un_empty_left)
next
  case (ETypedRecord p r)
  then show ?thesis
    using rec_typed_record [OF assms] by (simp only: check_node_def node_facts_def expr.case expr_children.simps Un_empty_left)
next
  case (EFString ps)
  then show ?thesis
    using rec_f_string [OF assms] by (simp only: check_node_def node_facts_def expr.case expr_children.simps Un_empty_left)
qed (use assms in \<open>simp_all add: check_node_def node_facts_def rec_literal rec_list rec_not rec_negate rec_binop
  rec_while [simplified] rec_question_mark\<close>)

lemma rec_step:
  assumes "Scope s \<in> F"
  shows "does F (check_step ex s ctx e) (\<lambda>_. {Typed (meta_id e), Recorded e})"
proof -
  have "does F (check_step ex s ctx e)
      (\<lambda>_. {Typed (meta_id e)} \<union> (node_facts (meta_id e) (node e) \<union> recs (expr_children (node e))))"
    unfolding check_step_def
    by (rule does_chain, rule steps, rule does_last, rule rec_node) (use assms in auto)
  then show ?thesis
  proof (rule does_implied)
    fix st f
    assume g: "\<forall>g \<in> {Typed (meta_id e)} \<union> (node_facts (meta_id e) (node e) \<union> recs (expr_children (node e))). true_in g st"
      and f: "f \<in> {Typed (meta_id e), Recorded e}"
    have "recorded st e"
    proof (rule recorded.recordedI)
      show "true_in (Typed (meta_id e)) st" using g by simp
      show "true_in f st" if "f \<in> node_facts (meta_id e) (node e)" for f using g that by blast
      show "recorded st x" if "x \<in> set (expr_children (node e))" for x
      proof -
        have "Recorded x \<in> recs (expr_children (node e))" using that by blast
        with g have "true_in (Recorded x) st" by blast
        then show ?thesis by simp
      qed
    qed
    then show "true_in f st" using f g by auto
  qed
qed

end

section \<open>Every level\<close>

lemma does_check_expr:
  "Scope s \<in> F \<Longrightarrow> does F (check_expr n s ctx e) (\<lambda>_. {Typed (meta_id e), Recorded e})"
proof (induction n arbitrary: F s ctx e)
  case (Suc n)
  have "recording_checker (check_expr n)" by unfold_locales (rule Suc.IH)
  from recording_checker.rec_step [OF this Suc.prems] show ?case unfolding check_expr.simps .
qed (simp add: does_crash)

interpretation recording: recording_checker "check_expr n" for n
  by unfold_locales (rule does_check_expr)

end
