(* ===== verification/Check_Program.thy ===== *)
theory Check_Program
  imports Check_Tables
begin

text \<open>
  Items and whole programs keep the invariant of the scope graph and leave complete tables: after \<open>typecheck\<close> every
  item of every module has the entries that the lowering reads.
\<close>

section \<open>The entries of an item\<close>

definition param_facts :: "params \<Rightarrow> fact set" where
  "param_facts ps = (\<Union>p \<in> set ps. var_facts (fst p))"

definition body_facts :: "block meta \<Rightarrow> fact set" where
  "body_facts b = block_facts b \<union> Recorded ` set (block_children (node b))"

text \<open>Entries of the pass over the bodies, and of the pass that declares the functions.\<close>

fun checked_facts :: "declaration_item \<Rightarrow> fact set" where
  "checked_facts (DeFunction i ps _ body) = {Scoped (meta_id i)} \<union> param_facts (node ps) \<union> body_facts body"
| "checked_facts (DeFilterMap _ i ps body) = {Scoped (meta_id i)} \<union> param_facts (node ps) \<union> body_facts body"
| "checked_facts (DeTest i body) = {Scoped (meta_id i), Named (meta_id i), HasSignature (meta_id i)} \<union> body_facts body"
| "checked_facts (DeConst i _ e) = {Scoped (meta_id i), Recorded e}"
| "checked_facts _ = {}"

fun declared_facts :: "declaration_item \<Rightarrow> fact set" where
  "declared_facts (DeFunction i _ _ _) = {Named (meta_id i), HasSignature (meta_id i)}"
| "declared_facts (DeFilterMap _ i _ _) = {Named (meta_id i), HasSignature (meta_id i)}"
| "declared_facts (DeConst i _ _) = {Named (meta_id i), Typed (meta_id i)}"
| "declared_facts _ = {}"

definition item_recorded :: "checker \<Rightarrow> declaration_item \<Rightarrow> bool" where
  "item_recorded st d \<longleftrightarrow> (\<forall>f \<in> declared_facts d \<union> checked_facts d. true_in f st)"

section \<open>Items\<close>

lemma does_parameter [does_rules]: "does F (unify_parameters i ps c) (\<lambda>_. {})"
  by (induction i ps c rule: unify_parameters.induct)
    (simp_all add: does_pass does_then [OF does_try [OF does_types(6)]])

lemma does_default_number [does_rules]: "does F (default_number t i) (\<lambda>_. {})"
proof -
  have k: "does F (chain (attempt (unify_at t u i)) (\<lambda>r. case r of Inr _ \<Rightarrow> pass () | Inl _ \<Rightarrow> crash PkUnwrap)) (\<lambda>_. {})" for t u
    by (intro does_then does_try does_types does_sum does_crash does_pass_nothing)
  show ?thesis unfolding default_number_def by (cases t) (simp_all add: k does_pass)
qed

lemma does_resolve_obligation: "does F (resolve_obligation ob) (\<lambda>_. {})"
proof (cases ob)
  case (ResolveMethod i receiver ident params ret)
  show ?thesis
    unfolding ResolveMethod resolve_obligation.simps Let_def
    by (rule does_then, rule steps, rule does_then, rule does_default_number, rule does_then, rule does_get_method,
        rule does_option, rule does_reject, rule does_then, rule does_parameter, rule does_then, rule does_parameter,
        rule does_if, rule does_reject, rule does_nothing, rule does_tables)
qed

lemma does_resolve_obligations [does_rules]: "does F resolve_obligations (\<lambda>_. {})"
  unfolding resolve_obligations_def by (intro does_then does_counters does_each does_resolve_obligation)

lemma does_function_scope: "Scope s \<in> F \<Longrightarrow> does F (function_scope s i) (\<lambda>x. {Scope x, Scoped (meta_id i)})"
  unfolding function_scope_def
  by (rule does_chain, rule does_wrap_scopes, assumption, rule does_chain, rule does_tables, rule does_pass) auto

text \<open>The parameters keep their identifiers.\<close>

definition gathered :: "params \<Rightarrow> fields \<Rightarrow> bool" where
  "gathered ps fs \<longleftrightarrow> map (\<lambda>f. meta_id (fst f)) fs = map (\<lambda>p. meta_id (fst p)) ps"

lemma gather_gathered:
  "check_params s ps st = Checked fs st' \<Longrightarrow> gathered ps fs"
proof (induction ps arbitrary: fs st)
  case Nil
  then show ?case by (simp add: check_params_def gathered_def pass_def)
next
  case (Cons p ps)
  from Cons.prems obtain t st1 fs' where "check_params s ps st1 = Checked fs' st'" "fs = (ast_ident (fst p), t) # fs'"
    by (cases p) (auto simp: check_params_def chain_def pass_def split: checked.splits)
  with Cons.IH show ?case by (simp add: gathered_def ast_ident_def)
qed

lemma does_check_params: "Scope s \<in> F \<Longrightarrow> does F (check_params s ps) (\<lambda>_. {})"
  unfolding check_params_def by (intro does_gather does_prod does_then does_evaluate_type does_pass_nothing)

lemma does_declare_params:
  assumes "Scope s \<in> F"
  shows "does F (declare_params s ps) (\<lambda>_. param_facts ps)"
  unfolding declare_params_def
proof (rule does_value [OF does_check_params [OF assms], rotated])
  fix fs assume g: "gathered ps fs"
  have "does F (each_of (\<lambda>(v, t). declare_var s v t) fs) (\<lambda>_. \<Union>x \<in> set fs. {Named (meta_id (fst x)), Typed (meta_id (fst x))})"
    by (rule does_each_of, rule does_prod) (simp add: does_declare_var)
  moreover have "param_facts ps = (\<Union>x \<in> set fs. {Named (meta_id (fst x)), Typed (meta_id (fst x))})"
  proof -
    have "param_facts ps = (\<Union>i \<in> set (map (\<lambda>p. meta_id (fst p)) ps). {Named i, Typed i})"
      by (simp add: param_facts_def var_facts_def)
    also have "\<dots> = (\<Union>i \<in> set (map (\<lambda>f. meta_id (fst f)) fs). {Named i, Typed i})" using g by (simp only: gathered_def)
    finally show ?thesis by simp
  qed
  ultimately show "does (F \<union> {}) (each_of (\<lambda>(v, t). declare_var s v t) fs) (\<lambda>_. param_facts ps)" by simp
qed (rule gather_gathered)

lemma does_body: "Scope s \<in> F \<Longrightarrow> does F (check_body n s ctx body) (\<lambda>_. body_facts body)"
  unfolding check_body_def
  by (rule does_then, rule does_counters, rule does_chain, rule recording.rec_block, assumption, rule does_last,
      rule does_resolve_obligations) (auto simp: body_facts_def)

lemma does_declared_return [does_rules]: "Scope s \<in> F \<Longrightarrow> does F (declared_return s r) (\<lambda>_. {})"
  unfolding declared_return_def by (intro does_option does_pass_nothing does_evaluate_type)

lemma does_check_item: "Scope s \<in> F \<Longrightarrow> does F (check_item n s d) (\<lambda>_. checked_facts d)"
proof -
  assume s: "Scope s \<in> F"
  have all: "does F (chain (function_scope s i) (\<lambda>fs. chain (declare_params fs ps) (\<lambda>_. m fs))) (\<lambda>_. {Scoped (meta_id i)} \<union> param_facts ps \<union> body_facts b)"
    if "\<And>fs G. Scope fs \<in> G \<Longrightarrow> does G (m fs) (\<lambda>_. body_facts b)" for i ps m b
    by (rule does_chain, rule does_function_scope [OF s], rule does_chain, rule does_declare_params, simp,
        rule does_last, rule that) auto
  show ?thesis
  proof (cases d)
    case (DeFunction i ps ret body)
    show ?thesis
      unfolding DeFunction check_item.simps checked_facts.simps check_function_def
      using all [of "\<lambda>fs. chain (declared_return fs ret) (\<lambda>ret. check_body n fs (c ret) body)" body "ast_ident i" "node ps" for c]
      by (simp add: ast_ident_def does_then [OF does_declared_return] does_body)
  next
    case (DeFilterMap k i ps body)
    have "does F (chain (function_scope s (ast_ident i)) (\<lambda>fs. chain (declare_params fs (node ps)) (\<lambda>_. check_body n fs c body)))
        (\<lambda>_. checked_facts d)" for c
      using all [of "\<lambda>fs. check_body n fs c body" body "ast_ident i" "node ps"] unfolding DeFilterMap checked_facts.simps
      by (simp add: ast_ident_def does_body)
    then show ?thesis
      unfolding DeFilterMap check_item.simps check_filter_map_def
      by (intro does_then [OF does_checker] does_then [OF does_need])
  next
    case (DeTest i body)
    show ?thesis
      unfolding DeTest check_item.simps checked_facts.simps check_test_def Let_def
      by (rule does_chain, rule does_declare_function, rule does_chain, rule does_function_scope, simp add: s,
          rule does_last, rule does_body) auto
  next
    case (DeConst i ty e)
    show ?thesis
      unfolding DeConst check_item.simps checked_facts.simps check_constant_def Let_def
      by (rule does_chain, rule does_function_scope [OF s], rule does_then, rule does_evaluate_type, simp add: s,
          rule does_then, rule does_counters, rule does_chain, rule recording.ex_rec, simp, rule does_last,
          rule does_resolve_obligations) (auto simp: ast_ident_def)
  qed (simp_all add: does_pass)
qed

section \<open>Declaring the items\<close>

lift_definition ScopeIs :: "scope_ref \<Rightarrow> scope_type \<Rightarrow> fact" is
  "\<lambda>s ty st. s < length (sg_scopes (graph st)) \<and> sc_type (sg_scopes (graph st) ! s) = ty"
proof -
  fix s ty a b assume g: "grows a b" and s: "s < length (sg_scopes (graph a)) \<and> sc_type (sg_scopes (graph a) ! s) = ty"
  then show "s < length (sg_scopes (graph b)) \<and> sc_type (sg_scopes (graph b) ! s) = ty"
    using graph_extends_type [of "graph a" "graph b" s] by (auto simp: grows_def graph_extends_def)
qed

lemma true_in_ScopeIs: "true_in (ScopeIs s ty) st \<longleftrightarrow> s < length (sg_scopes (graph st)) \<and> sc_type (sg_scopes (graph st) ! s) = ty"
  by transfer simp

text \<open>The root scope always exists.\<close>

lemma does_global:
  assumes "does (insert (Scope GLOBAL) F) m Q"
  shows "does F m Q"
  using assms unfolding does_def
  by (auto simp: true_in_simps checker_inv_def graph_inv_def)

lemma does_wrap_module:
  assumes "Scope s \<in> F" and "\<And>q. ms_parent_module m = Some q \<Longrightarrow> ModuleScope q \<in> F"
  shows "does F (wrap_scope s (StModule m)) (\<lambda>x. {ScopeIs x (StModule m)})"
  unfolding wrap_scope_def
proof (rule does_on_graph)
  fix st assume "checker_inv st" and f: "\<forall>f \<in> F. true_in f st"
  have "\<exists>psc pm. index (sg_scopes (graph st)) q = Some psc \<and> sc_type psc = StModule pm \<and>
      sg_declarations (graph st) (ms_name pm) \<noteq> None" if "ms_parent_module m = Some q" for q
    using f assms(2) [OF that] by (force simp: true_in_simps index_Some_iff)
  with f assms(1) have "wrap_ok (graph st) s (StModule m)" by (auto simp: wrap_ok_def true_in_simps)
  with graph_wrap_inv \<open>checker_inv st\<close>
  show "graph_inv (fst (graph_wrap (graph st) s (StModule m))) \<and>
      graph_extends (graph st) (fst (graph_wrap (graph st) s (StModule m)))"
    by (simp add: checker_inv_def)
qed (simp add: true_in_ScopeIs graph_wrap_def Let_def)

text \<open>A declaration followed by the choice of its scope.\<close>

lemma does_on_graph_inv:
  assumes "\<And>st. checker_inv st \<Longrightarrow> (\<forall>f \<in> F. true_in f st) \<Longrightarrow>
      graph_inv (fst (u (graph st))) \<and> graph_extends (graph st) (fst (u (graph st)))"
  shows "does F (on_graph u) (\<lambda>_. {})"
  by (rule does_on_graph) (use assms in auto)

lemma does_insert_at_inv:
  assumes "\<And>st. checker_inv st \<Longrightarrow> (\<forall>f \<in> F. true_in f st) \<Longrightarrow>
      graph_inv (fst (u (graph st))) \<and> graph_extends (graph st) (fst (u (graph st)))"
  shows "does F (insert_at u k) (\<lambda>_. {})"
  unfolding insert_at_def
  by (rule does_then [OF does_on_graph_inv [OF assms]]) (simp_all add: does_sum does_reject does_pass)

lemma insert_type_inv:
  assumes g: "graph_inv g" and s: "s < length (sg_scopes g)"
  shows "graph_inv (fst (insert_type g s i doc ty)) \<and> graph_extends g (fst (insert_type g s i doc ty))"
proof -
  define g1 where "g1 = fst (graph_wrap g s (StType (node i)))"
  define ns where "ns = snd (graph_wrap g s (StType (node i)))"
  define r where "r = insert_declaration g1 s i (DkType (TsType ty)) doc (\<lambda>kind. case kind of
      DkType (TsStub num_params) \<Rightarrow> num_params = length (tn_arguments (def_type_name ty)) | _ \<Rightarrow> False)"
  have e: "fst (insert_type g s i doc ty) = (case snd r of Inl _ \<Rightarrow> fst r
      | Inr name \<Rightarrow> set_dec_scope (fst r) name (\<lambda>sc. case sc of None \<Rightarrow> Some ns | Some x \<Rightarrow> Some x))"
    by (simp add: insert_type_def g1_def ns_def r_def Let_def split_beta split: sum.splits)
  have w: "graph_inv g1 \<and> graph_extends g g1"
    unfolding g1_def using s by (intro graph_wrap_inv [OF g]) (simp add: wrap_ok_def)
  then have d: "graph_inv (fst r) \<and> graph_extends g1 (fst r)" unfolding r_def by (intro insert_declaration_inv) simp
  have "ns < length (sg_scopes g1)" by (simp add: ns_def g1_def graph_wrap_def Let_def)
  with d have ns: "ns < length (sg_scopes (fst r))" by (auto simp: graph_extends_def)
  have "graph_inv (set_dec_scope (fst r) name (\<lambda>sc. case sc of None \<Rightarrow> Some ns | Some x \<Rightarrow> Some x)) \<and>
      graph_extends (fst r) (set_dec_scope (fst r) name (\<lambda>sc. case sc of None \<Rightarrow> Some ns | Some x \<Rightarrow> Some x))" for name
    using ns d by (intro set_dec_scope_inv) (auto split: option.splits)
  with w d show ?thesis
    unfolding e using graph_extends_trans by (cases "snd r") (simp_all, blast+)
qed

lemma insert_module_inv:
  assumes g: "graph_inv g" and s: "ms < length (sg_scopes g)"
  shows "graph_inv (fst (insert_module g s i doc ms)) \<and> graph_extends g (fst (insert_module g s i doc ms))"
proof -
  define r where "r = insert_declaration g s i DkModule doc (\<lambda>_. False)"
  have e: "fst (insert_module g s i doc ms) = (case snd r of Inl _ \<Rightarrow> fst r
      | Inr name \<Rightarrow> set_dec_scope (fst r) name (\<lambda>_. Some ms))"
    by (simp add: insert_module_def r_def split_beta split: prod.splits sum.splits)
  have d: "graph_inv (fst r) \<and> graph_extends g (fst r)" unfolding r_def by (intro insert_declaration_inv g)
  with s have "graph_inv (set_dec_scope (fst r) name (\<lambda>_. Some ms)) \<and>
      graph_extends (fst r) (set_dec_scope (fst r) name (\<lambda>_. Some ms))" for name
    by (intro set_dec_scope_inv) (auto simp: graph_extends_def)
  with d show ?thesis unfolding e using graph_extends_trans by (cases "snd r") (simp_all, blast+)
qed

lemma insert_module_declares:
  assumes "snd (insert_module g s i doc ms) = Inr x"
  shows "sg_declarations (fst (insert_module g s i doc ms)) (ResolvedName s (node i)) \<noteq> None"
proof -
  obtain g1 n where r: "insert_declaration g s i DkModule doc (\<lambda>_. False) = (g1, Inr n)"
    using assms by (auto simp: insert_module_def split: prod.splits sum.splits)
  with insert_declaration_declares [of g s i DkModule doc "\<lambda>_. False" n]
  have "n = ResolvedName s (node i)" "sg_declarations g1 n \<noteq> None" by auto
  then show ?thesis by (auto simp: insert_module_def r set_dec_scope_def)
qed

lemma does_graph_module:
  assumes "Scope ms \<in> F"
  shows "does F (on_graph (\<lambda>g. insert_module g s k doc ms)) (\<lambda>r. if isl r then {} else {Declared (ResolvedName s (node k))})"
proof (rule does_on_graph)
  fix st assume "checker_inv st" and f: "\<forall>f \<in> F. true_in f st"
  with assms have "ms < length (sg_scopes (graph st))" by (auto simp: true_in_simps)
  with insert_module_inv \<open>checker_inv st\<close>
  show "graph_inv (fst (insert_module (graph st) s k doc ms)) \<and>
      graph_extends (graph st) (fst (insert_module (graph st) s k doc ms))" by (simp add: checker_inv_def)
next
  fix st f assume "f \<in> (if isl (snd (insert_module (graph st) s k doc ms)) then {} else {Declared (ResolvedName s (node k))})"
  then show "true_in f (st\<lparr>ck_tables := (ck_tables st)\<lparr>tt_scope_graph := fst (insert_module (graph st) s k doc ms)\<rparr>\<rparr>)"
    using insert_module_declares [of "graph st" s k doc ms]
    by (cases "snd (insert_module (graph st) s k doc ms)") (auto simp: true_in_simps)
qed

lemma does_declare_module:
  assumes "Scope ms \<in> F"
  shows "does F (declare_module s k doc ms) (\<lambda>_. {Declared (ResolvedName s (node k))})"
  unfolding declare_module_def insert_at_def
  by (rule does_chain [OF does_graph_module [OF assms]]) (auto intro!: does_sum does_reject does_pass)

lemma does_set_scope:
  assumes "\<And>x. s = Some x \<Longrightarrow> Scope x \<in> F"
  shows "does F (on_graph (\<lambda>g. (set_dec_scope g n (\<lambda>_. s), ()))) (\<lambda>_. {})"
proof (rule does_on_graph_inv)
  fix st assume st: "checker_inv st" "\<forall>f \<in> F. true_in f st"
  then have "x < length (sg_scopes (graph st))" if "s = Some x" for x using assms [OF that] by (auto simp: true_in_simps)
  with st(1) set_dec_scope_inv [of "graph st" "\<lambda>_. s" n]
  show "graph_inv (fst (set_dec_scope (graph st) n (\<lambda>_. s), ())) \<and>
      graph_extends (graph st) (fst (set_dec_scope (graph st) n (\<lambda>_. s), ()))" by (auto simp: checker_inv_def)
qed

lemma does_declare_stub: "Scope s \<in> F \<Longrightarrow> does F (declare_stub s d) (\<lambda>_. {})"
proof -
  assume s: "Scope s \<in> F"
  have new: "does F (case kind of DkType _ \<Rightarrow> chain (wrap_scope s (StType i)) (\<lambda>s. pass (Some s)) | _ \<Rightarrow> pass None)
      (\<lambda>x. Scope ` set_option x)" for kind i
  proof -
    have "does F (chain (wrap_scope s (StType i)) (\<lambda>s. pass (Some s))) (\<lambda>x. Scope ` set_option x)"
      by (rule does_chain, rule does_wrap_scopes [OF s], rule does_pass) simp
    then show ?thesis by (cases kind) (simp_all add: does_pass)
  qed
  have tail: "does (F \<union> Scope ` set_option x)
      (chain (insert_at (\<lambda>g. insert_declaration g s i kind [] (\<lambda>_. False)) i) (\<lambda>name.
       chain (on_graph (\<lambda>g. (set_dec_scope g name (\<lambda>_. x), ()))) (\<lambda>_.
       case x of None \<Rightarrow> pass () | Some s \<Rightarrow> each_of (\<lambda>v. chain (insert_at (\<lambda>g. insert_declaration g s (ast_ident v)
         (DkEnum None) [] (\<lambda>_. False)) i) (\<lambda>_. pass ())) vs))) (\<lambda>_. {})" for x i kind and vs :: "name meta list"
    by (rule does_then, rule does_insert_declaration, rule does_then, rule does_set_scope, simp, rule does_option,
        rule does_pass_nothing, rule does_each, rule does_then, rule does_insert_declaration, rule does_pass_nothing)
  show ?thesis
    unfolding declare_stub_def Let_def
    by (rule does_option, rule does_pass_nothing, rule does_prod, rule does_prod, rule does_chain, rule new, rule tail)
qed

lemma does_derive:
  assumes "\<And>st. \<forall>g \<in> F. true_in g st \<Longrightarrow> true_in f st" and "does (insert f F) m Q"
  shows "does F m Q"
  unfolding does_def
proof (intro allI impI)
  fix st assume st: "checker_inv st" "\<forall>f \<in> F. true_in f st"
  from assms(1) [OF st(2)] st(2) have "\<forall>g \<in> insert f F. true_in g st" by simp
  with assms(2) st(1) show "case m st of
      Checked x st' \<Rightarrow> checker_inv st' \<and> grows st st' \<and> (\<forall>f \<in> Q x. true_in f st')
    | Rejected _ st' \<Rightarrow> checker_inv st' \<and> grows st st' | _ \<Rightarrow> True" unfolding does_def by blast
qed

text \<open>The scopes that the modules declared so far have.\<close>

abbreviation module_facts :: "modules \<Rightarrow> fact set" where
  "module_facts ms \<equiv> (\<Union>m \<in> set ms. {Scope (fst m), ModuleScope (fst m)})"

lemma index_mem: "index xs i = Some x \<Longrightarrow> x \<in> set xs"
  by (auto simp: index_Some_iff)

definition module_scope_of :: "scope_ref option \<Rightarrow> module_decl \<Rightarrow> module_scope" where
  "module_scope_of p m = \<lparr>ms_name = ResolvedName (case p of Some p \<Rightarrow> p | None \<Rightarrow> GLOBAL) (node (ast_ident (md_ident m))),
     ms_parent_module = p\<rparr>"

lemma does_new_module:
  assumes p: "\<And>q. p = Some q \<Longrightarrow> ModuleScope q \<in> F"
    and k: "\<And>scope. does (insert (ModuleScope scope) (insert (Scope scope) F)) (k scope) Q"
  shows "does F (chain (wrap_scope GLOBAL (StModule (module_scope_of p m))) (\<lambda>scope.
      chain (declare_module (case p of Some p \<Rightarrow> p | None \<Rightarrow> GLOBAL) (ast_ident (md_ident m)) [] scope) (\<lambda>_. k scope))) Q"
proof -
  let ?n = "ResolvedName (case p of Some p \<Rightarrow> p | None \<Rightarrow> GLOBAL) (node (ast_ident (md_ident m)))"
  have w: "does (insert (Scope GLOBAL) F) (wrap_scope GLOBAL (StModule (module_scope_of p m)))
      (\<lambda>x. {ScopeIs x (StModule (module_scope_of p m))})"
    by (rule does_wrap_module) (use p in \<open>simp_all add: module_scope_of_def\<close>)
  have k': "does (F \<union> {ScopeIs x (StModule (module_scope_of p m)), Scope x, Declared ?n}) (k x) Q" for x
  proof (rule does_derive [of _ "ModuleScope x"])
    fix st assume "\<forall>g \<in> F \<union> {ScopeIs x (StModule (module_scope_of p m)), Scope x, Declared ?n}. true_in g st"
    then have "true_in (ScopeIs x (StModule (module_scope_of p m))) st" "true_in (Declared ?n) st" by blast+
    then show "true_in (ModuleScope x) st" by (simp add: true_in_simps true_in_ScopeIs module_scope_of_def)
  next
    show "does (insert (ModuleScope x) (F \<union> {ScopeIs x (StModule (module_scope_of p m)), Scope x, Declared ?n})) (k x) Q"
      by (rule does_weaken [OF k]) auto
  qed
  have s: "does (F \<union> {ScopeIs x (StModule (module_scope_of p m))})
      (chain (declare_module (case p of Some p \<Rightarrow> p | None \<Rightarrow> GLOBAL) (ast_ident (md_ident m)) [] x) (\<lambda>_. k x)) Q" for x
  proof (rule does_derive [of _ "Scope x"])
    fix st assume "\<forall>g \<in> F \<union> {ScopeIs x (StModule (module_scope_of p m))}. true_in g st"
    then have "true_in (ScopeIs x (StModule (module_scope_of p m))) st" by blast
    then show "true_in (Scope x) st" by (simp add: true_in_simps true_in_ScopeIs)
  next
    show "does (insert (Scope x) (F \<union> {ScopeIs x (StModule (module_scope_of p m))}))
      (chain (declare_module (case p of Some p \<Rightarrow> p | None \<Rightarrow> GLOBAL) (ast_ident (md_ident m)) [] x) (\<lambda>_. k x)) Q"
      by (rule does_chain, rule does_declare_module, simp, rule does_weaken [OF k']) auto
  qed
  show ?thesis
    by (rule does_global, rule does_chain [OF w], rule does_weaken [OF s]) auto
qed

lemma does_declare_modules:
  "module_facts don \<subseteq> F \<Longrightarrow> does F (declare_modules don ms) module_facts"
proof (induction ms arbitrary: don F)
  case (Cons m ms)
  have parent: "does F (case md_parent m of None \<Rightarrow> pass None
      | Some p \<Rightarrow> chain (need PkIndex (index don p)) (\<lambda>x. pass (Some (fst x)))) (\<lambda>p. ModuleScope ` set_option p)"
  proof (rule does_option)
    fix p assume "md_parent m = Some p"
    show "does F (chain (need PkIndex (index don p)) (\<lambda>x. pass (Some (fst x)))) (\<lambda>p. ModuleScope ` set_option p)"
    proof (cases "index don p")
      case (Some x)
      with index_mem [OF this] Cons.prems have "ModuleScope (fst x) \<in> F" by blast
      moreover have "chain (need PkIndex (Some x)) (\<lambda>x. pass (Some (fst x))) = pass (Some (fst x))"
        by (simp add: need_def chain_def pass_def fun_eq_iff)
      ultimately show ?thesis unfolding Some by (simp add: does_pass)
    next
      case None
      have "chain (need PkIndex None) (\<lambda>x :: scope_ref \<times> module_decl. pass (Some (fst x))) = crash PkIndex"
        by (simp add: need_def chain_def crash_def fun_eq_iff)
      then show ?thesis unfolding None by (simp only: does_crash)
    qed
  qed (simp add: does_pass)
  have go: "does (insert (ModuleScope scope) (insert (Scope scope) (F \<union> ModuleScope ` set_option p)))
      (chain (each_of (declare_stub scope) (md_ast m)) (\<lambda>_. declare_modules (don @ [(scope, m)]) ms)) module_facts" for scope p
    by (rule does_then, rule does_each, rule does_declare_stub, simp, rule Cons.IH) (use Cons.prems in auto)
  show ?case
    unfolding declare_modules.simps Let_def
    by (rule does_chain [OF parent], rule does_new_module [unfolded module_scope_of_def], simp, rule go)
qed (simp add: does_pass)

lemma declare_modules_tree:
  "declare_modules don ms st = Checked r st' \<Longrightarrow> map snd r = map snd don @ ms"
proof (induction ms arbitrary: don st)
  case (Cons m ms)
  from Cons.prems obtain scope st1 where "declare_modules (don @ [(scope, m)]) ms st1 = Checked r st'"
    by (auto simp: Let_def chain_def split: checked.splits)
  from Cons.IH [OF this] show ?case by simp
qed (simp add: pass_def)

section \<open>The passes\<close>

lemma does_for_items:
  assumes "module_facts ms \<subseteq> F" and "\<And>s d. Scope s \<in> F \<Longrightarrow> does F (f s d) (\<lambda>_. Q d)"
  shows "does F (for_items f ms) (\<lambda>_. \<Union>m \<in> set ms. \<Union>d \<in> set (md_ast (snd m)). Q d)"
  unfolding for_items_def
proof (rule does_each_of, rule does_prod)
  fix x scope m assume x: "x \<in> set ms" "x = (scope, m)"
  with assms(1) have "Scope scope \<in> F" by force
  then have "does F (each_of (f scope) (md_ast m)) (\<lambda>_. \<Union>d \<in> set (md_ast m). Q d)"
    by (intro does_each_of assms(2))
  with x show "does F (each_of (f scope) (md_ast m)) (\<lambda>_. \<Union>d \<in> set (md_ast (snd x)). Q d)" by simp
qed

lemma does_declare_imports: "module_facts ms \<subseteq> F \<Longrightarrow> does F (declare_imports ms) (\<lambda>_. {})"
  unfolding declare_imports_def
  by (rule does_each, rule does_prod, rule does_import_paths) force

lemma does_insert_type_def [does_rules]: "does F (insert_type_def n d) (\<lambda>_. {})"
  by (rule does_same_tables)
    (auto simp: insert_type_def_def chain_def the_checker_def change_def pass_def)

lemma does_new_type_def [does_rules]: "does F (new_type_def n d) (\<lambda>_. {})"
  unfolding new_type_def_def by (rule does_then, rule does_insert_type_def, intro does_if does_crash does_pass_nothing)

lemma does_insert_unwrap [does_rules]: "does F (insert_unwrap s i k u) (\<lambda>_. {})"
  unfolding insert_unwrap_def
  by (rule does_then, rule does_on_graph_inv) (auto simp: checker_inv_def insert_declaration_inv intro!: does_rules)

lemma does_insert_type: "Scope s \<in> F \<Longrightarrow> does F (insert_at (\<lambda>g. insert_type g s i doc d) k) (\<lambda>_. {})"
  by (rule does_insert_at_inv, rule insert_type_inv) (auto simp: checker_inv_def true_in_simps)

lemma does_declare_type: "Scope s \<in> F \<Longrightarrow> does F (declare_type s i d) (\<lambda>_. {})"
  unfolding declare_type_def by (rule does_then, rule does_insert_type, assumption, rule does_new_type_def)

lemma does_declare_type_params: "Scope s \<in> F \<Longrightarrow> does F (declare_type_params s ps) (\<lambda>x. {Scope x})"
  unfolding declare_type_params_def
  by (rule does_chain, rule does_wrap_scopes, assumption, rule does_then, rule does_each, rule does_then,
      rule does_insert_declaration, rule does_pass_nothing, rule does_pass) simp

lemma does_evaluate_variant: "Scope s \<in> F \<Longrightarrow> does F (evaluate_variant s v) (\<lambda>_. {})"
  unfolding evaluate_variant_def
  by (cases v) (simp, intro does_then does_gather does_evaluate_type does_pass_nothing)

lemma does_declare_type_item: "Scope s \<in> F \<Longrightarrow> does F (declare_type_item s d) (\<lambda>_. {})"
proof -
  assume s: "Scope s \<in> F"
  show ?thesis
  proof (cases d)
    case (DeEnum i ps vs)
    show ?thesis
      unfolding DeEnum declare_type_item.simps Let_def
      by (rule does_chain, rule does_declare_type_params [OF s], rule does_then, rule does_gather,
          rule does_evaluate_variant, simp, rule does_then, rule does_declare_type, simp add: s, rule does_then,
          rule does_get_scope_of, rule does_then, rule does_need, rule does_each, rule does_insert_unwrap)
  next
    case (DeRecord i ps r)
    show ?thesis
      unfolding DeRecord declare_type_item.simps
      by (rule does_chain, rule does_declare_type_params [OF s], rule does_then, rule does_evaluate_record_type, simp,
          rule does_declare_type, simp add: s)
  qed (simp_all add: does_pass)
qed

lemma does_declare_types: "module_facts ms \<subseteq> F \<Longrightarrow> does F (declare_types ms) (\<lambda>_. {})"
  unfolding declare_types_def
  by (rule does_nothing, rule does_for_items, assumption, rule does_declare_type_item)

lemma does_function_item: "Scope s \<in> F \<Longrightarrow> does F (declare_function_item s d) (\<lambda>_. declared_facts d)"
proof -
  assume s: "Scope s \<in> F"
  show ?thesis
  proof (cases d)
    case (DeFunction i ps ret b)
    have t: "does F (check_function_type s (node ps) ret) (\<lambda>_. {})"
      unfolding check_function_type_def
      by (intro does_then does_declared_return does_check_params does_pass_nothing s)
    show ?thesis
      unfolding DeFunction declare_function_item.simps declared_facts.simps
      by (rule does_then [OF t], rule does_weaken, rule does_declare_function) (auto simp: ast_ident_def)
  next
    case (DeFilterMap k i ps b)
    have t: "does F (check_filter_map_type s (node ps)) (\<lambda>_. {})"
      unfolding check_filter_map_type_def
      by (intro does_then does_fresh does_check_params does_pass_nothing s)
    show ?thesis
      unfolding DeFilterMap declare_function_item.simps declared_facts.simps
      by (rule does_then [OF t], rule does_weaken, rule does_declare_function) (auto simp: ast_ident_def)
  next
    case (DeConst i ty e)
    show ?thesis
      unfolding DeConst declare_function_item.simps declared_facts.simps
      by (rule does_then, rule does_evaluate_type [OF s], rule does_weaken, rule does_declare_const)
        (auto simp: ast_ident_def)
  qed (simp_all add: does_pass)
qed

lemma does_type_cycles [does_rules]: "does F (check_type_cycles ko) (\<lambda>_. {})"
  unfolding check_type_cycles_def
  by (intro does_then does_checker does_defined does_sum does_reject does_pass_nothing)

lemma does_compilation_order [does_rules]: "does F compilation_order (\<lambda>_. {})"
  unfolding compilation_order_def
  by (intro does_then does_checker does_defined does_sum does_reject does_pass_nothing)

lemma does_force_unit: "does F (force_unit t i) (\<lambda>_. {})"
proof -
  have k: "does F (chain (attempt (unify_at a TUnit i)) (\<lambda>r. if isl r then crash PkUnwrap else pass ())) (\<lambda>_. {})" for a
    by (intro does_then does_try does_types does_if does_crash does_pass_nothing)
  show ?thesis
    unfolding force_unit_def by (rule does_then, rule does_types) (simp add: k does_pass split: rtype.splits)
qed

lemma does_force_filtermap: "does F (force_filtermap d) (\<lambda>_. {})"
proof (cases d)
  case (DeFilterMap k i ps b)
  have a: "does F (case xs of [a, r] \<Rightarrow> chain (force_unit a j) (\<lambda>_. force_unit r j) | _ \<Rightarrow> crash PkIce) (\<lambda>_. {})" for xs j
    by (simp only: split: list.splits, intro allI impI conjI does_crash does_then does_force_unit)
  show ?thesis
    unfolding DeFilterMap force_filtermap.simps
    by (rule does_then, rule does_checker, rule does_then, rule does_need, simp only: split: rtype.splits,
        intro allI impI conjI does_crash a)
qed (simp_all add: does_pass)

lemma does_force_types: "does F (force_filtermap_types ms) (\<lambda>_. {})"
  unfolding force_filtermap_types_def for_items_def
  by (rule does_each, rule does_prod, rule does_each, rule does_force_filtermap)

section \<open>The whole program\<close>

abbreviation program_facts :: "module_decl list \<Rightarrow> fact set" where
  "program_facts tree \<equiv> \<Union>m \<in> set tree. \<Union>d \<in> set (md_ast m). declared_facts d \<union> checked_facts d"

lemma does_check_module_tree: "does F (check_module_tree n ko tree) (\<lambda>_. program_facts tree)"
  unfolding check_module_tree_def
proof (rule does_value [OF does_declare_modules [of "[]"]])
  show "map snd ms = tree" if "declare_modules [] tree st = Checked ms st'" for st ms st'
    using declare_modules_tree [OF that] by simp
  fix ms :: modules assume ms: "map snd ms = tree"
  let ?D = "\<Union>m \<in> set ms. \<Union>d \<in> set (md_ast (snd m)). declared_facts d"
  let ?C = "\<Union>m \<in> set ms. \<Union>d \<in> set (md_ast (snd m)). checked_facts d"
  have d: "does G (declare_functions ms) (\<lambda>_. ?D)" if "module_facts ms \<subseteq> G" for G
    unfolding declare_functions_def by (rule does_for_items [OF that], rule does_function_item)
  have c: "does G (check_tree n ms) (\<lambda>_. ?C)" if "module_facts ms \<subseteq> G" for G
    unfolding check_tree_def by (rule does_for_items [OF that], rule does_check_item)
  show "does (F \<union> module_facts ms) (chain (declare_imports ms) (\<lambda>_.
     chain (declare_types ms) (\<lambda>_.
     chain (check_type_cycles ko) (\<lambda>_.
     chain (declare_functions ms) (\<lambda>_.
     chain (check_tree n ms) (\<lambda>_.
     chain (force_filtermap_types ms) (\<lambda>_.
     compilation_order))))))) (\<lambda>_. program_facts tree)"
    by (rule does_then, rule does_declare_imports, simp, rule does_then, rule does_declare_types, simp,
        rule does_then, rule does_type_cycles, rule does_chain, rule d, simp, rule does_chain, rule c, blast,
        rule does_then, rule does_force_types, rule does_last, rule does_compilation_order) (auto simp: ms [symmetric])
qed simp

lemma insert_context_inv:
  assumes "graph_inv g"
  shows "graph_inv (fst (insert_context g k ty off)) \<and> graph_extends g (fst (insert_context g k ty off))"
proof (cases "sg_declarations g (ResolvedName GLOBAL (node k))")
  case None
  let ?g = "fst (insert_context g k ty off)"
  have e: "?g = g\<lparr>sg_declarations := (sg_declarations g)(ResolvedName GLOBAL (node k) \<mapsto>
      \<lparr>dec_name = ResolvedName GLOBAL (node k), dec_kind = DkValue (VkContext off) (Some ty), dec_id = meta_id k,
        dec_scope = None, dec_doc = []\<rparr>)\<rparr>"
    by (simp add: insert_context_def None Let_def)
  have grows: "graph_grows g ?g" by (auto simp: e graph_grows_def)
  show ?thesis
  proof (rule graph_inv_declarations [OF assms _ _ grows])
    show "graph_ok ?g"
      by (rule decl_only_ok [OF _ _ grows]) (use assms in \<open>auto simp: e graph_inv_def graph_ok_def split: if_splits\<close>)
    show "sg_scopes ?g = sg_scopes g" by (simp add: e)
    show "s < length (sg_scopes g)" if "sg_declarations ?g n = Some d" "dec_scope d = Some s" for n d s
      using that assms by (auto simp: e graph_inv_def scopes_in_range_def split: if_splits)
  qed
qed (simp add: insert_context_def Let_def assms)

lemma does_declare_context [does_rules]: "does F (declare_context k ty off) (\<lambda>_. {Named (meta_id k), Typed (meta_id k)})"
proof -
  have o: "does F (on_graph (\<lambda>g. insert_context g k ty off)) (\<lambda>_. {})"
    by (rule does_on_graph_inv) (simp add: checker_inv_def insert_context_inv)
  show ?thesis
    unfolding declare_context_def
    by (rule does_then [OF o], rule does_sum, rule does_reject, rule does_chain, rule does_tables, rule does_last,
        rule does_tables) auto
qed

lemma does_typecheck: "does F (typecheck n ko cf tree) (\<lambda>_. program_facts tree)"
proof -
  have c: "does F (check_declare_context cf) (\<lambda>_. {})"
    unfolding check_declare_context_def
    by (rule does_each, rule does_prod, rule does_prod, rule does_nothing, rule does_declare_context)
  show ?thesis unfolding typecheck_def by (rule does_then [OF c does_check_module_tree])
qed

section \<open>A new checker\<close>

lemma blank_checker_inv: "checker_inv (blank_checker fuel)"
  using graph_new_ok by (simp add: checker_inv_def graph_inv_def blank_checker_def scopes_in_range_def graph_new_def)

lemma does_builtin_type: "does F (declare_builtin_type it) (\<lambda>_. {})"
proof -
  obtain i ty where it: "it = (i, ty)" by (cases it)
  have v: "does G (case ty of
         DEnum _ variants \<Rightarrow>
           chain (declaration_of nm) (\<lambda>dec. case dec_kind dec of
             DkType (TsType type_def) \<Rightarrow>
               chain (need PkUnwrap (dec_scope dec)) (\<lambda>s.
               each_of (\<lambda>v. insert_unwrap s (ev_name v) (DkEnum (Some (type_def, v))) (\<lambda>_. False)) variants)
           | _ \<Rightarrow> crash PkIce)
       | _ \<Rightarrow> pass ()) (\<lambda>_. {})" for G nm
    by (simp only: split: type_definition.splits declaration_kind.splits type_or_stub.splits,
        intro allI impI conjI does_pass_nothing does_then [OF does_declaration_of], simp only: split: declaration_kind.splits type_or_stub.splits,
        intro allI impI conjI does_crash does_then does_need does_each does_insert_unwrap)
  show ?thesis
    unfolding declare_builtin_type_def it prod.case Let_def
    by (rule does_global, rule does_then, rule does_insert_type, simp, rule does_then, rule v, rule does_then,
        rule does_insert_type_def, rule does_pass_nothing)
qed

lemma new_checker_inv: "new_checker fuel = Some st \<Longrightarrow> checker_inv st"
proof -
  assume "new_checker fuel = Some st"
  then obtain x where r: "declare_builtin_types (blank_checker fuel) = Checked x st"
    by (auto simp: new_checker_def split: checked.splits)
  have "does {} declare_builtin_types (\<lambda>_. {})"
    unfolding declare_builtin_types_def by (intro does_each does_builtin_type)
  then have "case declare_builtin_types (blank_checker fuel) of
      Checked x st' \<Rightarrow> checker_inv st' \<and> grows (blank_checker fuel) st' \<and> (\<forall>f \<in> {}. true_in f st')
    | Rejected _ st' \<Rightarrow> checker_inv st' \<and> grows (blank_checker fuel) st' | _ \<Rightarrow> True"
    unfolding does_def using blank_checker_inv by blast
  with r show ?thesis by simp
qed

section \<open>Items of the runtime\<close>

lemma set_doc_inv:
  assumes g: "graph_inv g" and d: "sg_declarations g n = Some d"
  shows "graph_inv (g\<lparr>sg_declarations := (sg_declarations g)(n \<mapsto> d\<lparr>dec_doc := doc\<rparr>)\<rparr>) \<and>
    graph_extends g (g\<lparr>sg_declarations := (sg_declarations g)(n \<mapsto> d\<lparr>dec_doc := doc\<rparr>)\<rparr>)" (is "graph_inv ?g \<and> _")
proof (rule graph_inv_declarations [OF g])
  show grows: "graph_grows g ?g" by (auto simp: graph_grows_def)
  show "graph_ok ?g"
    by (rule decl_only_ok [OF _ _ grows]) (use g d in \<open>auto simp: graph_inv_def graph_ok_def split: if_splits\<close>)
  show "s < length (sg_scopes g)" if "sg_declarations ?g m = Some d'" "dec_scope d' = Some s" for m d' s
    using that g d by (auto simp: graph_inv_def scopes_in_range_def split: if_splits)
qed simp

lemma does_set_doc: "does F (set_doc n doc) (\<lambda>_. {})"
  unfolding does_def
proof (intro allI impI)
  fix st assume st: "checker_inv st"
  show "case set_doc n doc st of
      Checked x st' \<Rightarrow> checker_inv st' \<and> grows st st' \<and> (\<forall>f \<in> {}. true_in f st')
    | Rejected _ st' \<Rightarrow> checker_inv st' \<and> grows st st' | _ \<Rightarrow> True"
  proof (cases "sg_declarations (graph st) n")
    case (Some d)
    with set_doc_inv [of "graph st" n d doc] st show ?thesis
      by (simp add: set_doc_def declaration_of_def get_declaration_def the_graph_def chain_def the_checker_def pass_def
          need_def on_graph_def checker_inv_def grows_def tables_grow_def)
  qed (simp add: set_doc_def declaration_of_def get_declaration_def the_graph_def chain_def the_checker_def pass_def
      need_def crash_def)
qed

text \<open>Modules may be nested in modules, everything else goes into an existing scope.\<close>

lemma does_runtime_items:
  shows "(\<And>p. parent = Some p \<Longrightarrow> ModuleScope p \<in> F) \<Longrightarrow>
      does F (declare_runtime_module parent i doc) (\<lambda>r. case r of Inl _ \<Rightarrow> {} | Inr s \<Rightarrow> {Scope s, ModuleScope s})"
    and "Scope s \<in> F \<Longrightarrow> does F (declare_runtime_type s i t doc) (\<lambda>_. {})"
    and "does F (declare_runtime_function s i f ps sg doc b) (\<lambda>_. {})"
proof -
  assume p: "\<And>p. parent = Some p \<Longrightarrow> ModuleScope p \<in> F"
  let ?o = "case parent of Some p \<Rightarrow> p | None \<Rightarrow> GLOBAL"
  let ?m = "\<lparr>ms_name = ResolvedName ?o i, ms_parent_module = parent\<rparr>"
  have w: "does (insert (Scope GLOBAL) F) (wrap_scope GLOBAL (StModule ?m)) (\<lambda>x. {ScopeIs x (StModule ?m)})"
    by (rule does_wrap_module) (use p in simp_all)
  have e: "does (F \<union> {ScopeIs x (StModule ?m), Scope x} \<union> (if isl r then {} else {Declared (ResolvedName ?o i)}))
      (pass (if isl r then Inl msg else Inr x)) (\<lambda>r. case r of Inl _ \<Rightarrow> {} | Inr s \<Rightarrow> {Scope s, ModuleScope s})"
    for x and msg :: string and r :: "meta_id + unit"
  proof (cases r)
    case (Inr u)
    have "does (F \<union> {ScopeIs x (StModule ?m), Scope x, Declared (ResolvedName ?o i)}) (pass (Inr x :: string + scope_ref))
        (\<lambda>r. case r of Inl _ \<Rightarrow> {} | Inr s \<Rightarrow> {Scope s, ModuleScope s})"
    proof (rule does_derive [of _ "ModuleScope x"])
      fix st assume "\<forall>g \<in> F \<union> {ScopeIs x (StModule ?m), Scope x, Declared (ResolvedName ?o i)}. true_in g st"
      then have "true_in (ScopeIs x (StModule ?m)) st" "true_in (Declared (ResolvedName ?o i)) st" by blast+
      then show "true_in (ModuleScope x) st" by (simp add: true_in_simps true_in_ScopeIs)
    qed (rule does_pass, simp)
    then show ?thesis by (simp add: Inr insert_commute)
  qed (simp add: does_pass)
  have s: "does (F \<union> {ScopeIs x (StModule ?m)}) (chain (on_graph (\<lambda>g. insert_module g ?o (Meta i 0) doc x)) (\<lambda>r.
      pass (if isl r then Inl msg else Inr x))) (\<lambda>r. case r of Inl _ \<Rightarrow> {} | Inr s \<Rightarrow> {Scope s, ModuleScope s})" for x and msg :: string
  proof (rule does_derive [of _ "Scope x"])
    fix st assume "\<forall>g \<in> F \<union> {ScopeIs x (StModule ?m)}. true_in g st"
    then have "true_in (ScopeIs x (StModule ?m)) st" by blast
    then show "true_in (Scope x) st" by (simp add: true_in_simps true_in_ScopeIs)
  next
    show "does (insert (Scope x) (F \<union> {ScopeIs x (StModule ?m)}))
        (chain (on_graph (\<lambda>g. insert_module g ?o (Meta i 0) doc x)) (\<lambda>r. pass (if isl r then Inl msg else Inr x)))
        (\<lambda>r. case r of Inl _ \<Rightarrow> {} | Inr s \<Rightarrow> {Scope s, ModuleScope s})"
      by (rule does_chain, rule does_graph_module, simp, rule does_weaken [OF e]) auto
  qed
  show "does F (declare_runtime_module parent i doc) (\<lambda>r. case r of Inl _ \<Rightarrow> {} | Inr s \<Rightarrow> {Scope s, ModuleScope s})"
    unfolding declare_runtime_module_def Let_def
    by (rule does_global, rule does_chain [OF w], rule does_weaken [OF s]) auto
next
  assume s: "Scope s \<in> F"
  have t: "does F (on_graph (\<lambda>g. insert_type g s k doc d)) (\<lambda>_. {})" for k d
    by (rule does_on_graph_inv, rule insert_type_inv) (use s in \<open>auto simp: checker_inv_def true_in_simps\<close>)
  show "does F (declare_runtime_type s i t doc) (\<lambda>_. {})"
    unfolding declare_runtime_type_def Let_def
    by (rule does_then, rule does_name, rule does_option, rule does_then, rule t, rule does_if, rule does_pass_nothing,
        rule does_then, rule does_insert_type_def, rule does_pass_nothing, rule does_then, rule does_set_doc,
        rule does_pass_nothing)
next
  have "does F (on_graph (\<lambda>g. if b then insert_method g s (Meta i 0) (FdRuntime f) ps doc sg
      else insert_function g s (Meta i 0) (FdRuntime f) ps doc sg)) (\<lambda>_. {})"
    by (rule does_on_graph_inv)
      (auto simp: checker_inv_def insert_method_def insert_function_def insert_declaration_inv)
  then show "does F (declare_runtime_function s i f ps sg doc b) (\<lambda>_. {})"
    unfolding declare_runtime_function_def by (rule does_then) (rule does_pass_nothing)
qed

lemma insert_runtime_constant_inv:
  assumes "graph_inv g"
  shows "graph_inv (fst (insert_runtime_constant g s k ty doc)) \<and> graph_extends g (fst (insert_runtime_constant g s k ty doc))"
proof (cases "sg_declarations g (ResolvedName s (node k))")
  case None
  let ?g = "fst (insert_runtime_constant g s k ty doc)"
  have e: "\<exists>d. ?g = g\<lparr>sg_declarations := (sg_declarations g)(ResolvedName s (node k) \<mapsto> d)\<rparr> \<and>
      dec_name d = ResolvedName s (node k) \<and> dec_scope d = None"
    by (simp add: insert_runtime_constant_def None Let_def) (rule exI, rule conjI, rule refl, simp)
  then obtain d where e: "?g = g\<lparr>sg_declarations := (sg_declarations g)(ResolvedName s (node k) \<mapsto> d)\<rparr>"
    "dec_name d = ResolvedName s (node k)" "dec_scope d = None" by blast
  have grows: "graph_grows g ?g" by (auto simp: e graph_grows_def)
  show ?thesis
  proof (rule graph_inv_declarations [OF assms _ _ grows])
    show "graph_ok ?g"
      by (rule decl_only_ok [OF _ _ grows]) (use assms e in \<open>auto simp: graph_inv_def graph_ok_def split: if_splits\<close>)
    show "sg_scopes ?g = sg_scopes g" by (simp add: e)
    show "x < length (sg_scopes g)" if "sg_declarations ?g n = Some d'" "dec_scope d' = Some x" for n d' x
      using that assms e by (auto simp: graph_inv_def scopes_in_range_def split: if_splits)
  qed
qed (simp add: insert_runtime_constant_def Let_def assms)

lemma does_runtime_values:
  shows "does F (declare_runtime_constant s i ty doc) (\<lambda>_. {})"
    and "Declared n \<in> F \<Longrightarrow> does F (declare_runtime_import s n) (\<lambda>_. {})"
proof -
  have "does F (on_graph (\<lambda>g. insert_runtime_constant g s (Meta i 0) ty doc)) (\<lambda>_. {})"
    by (rule does_on_graph_inv) (simp add: checker_inv_def insert_runtime_constant_inv)
  then show "does F (declare_runtime_constant s i ty doc) (\<lambda>_. {})"
    unfolding declare_runtime_constant_def by (rule does_then) (rule does_pass_nothing)
  show "does F (declare_runtime_import s n) (\<lambda>_. {})" if "Declared n \<in> F"
    unfolding declare_runtime_import_def by (rule does_import_name [OF that], rule does_pass_nothing)
qed

end
