(* ===== verification/Check_Import.thy ===== *)
theory Check_Import
  imports Check_Safe
begin

text \<open>
  The loop over import paths: it always ends, and when it ends with an error then no path that is left can be
  imported.  A failed attempt changes nothing, so a round without progress is followed by the error of its first path.
\<close>

section \<open>Lookups end\<close>

lemma resolve_name_total:
  assumes "graph_ok g"
  shows "s < length (sg_scopes g) \<Longrightarrow> \<exists>d. resolve_name g s i r = Some d"
proof (induction s rule: less_induct)
  case (less s)
  then have sc: "index (sg_scopes g) s = Some (sg_scopes g ! s)" by (simp add: index_Some_iff)
  note ok = graph_okD [OF assms sc]
  show ?case
  proof (cases "sg_declarations g (ResolvedName s i)")
    case None
    note d = None
    show ?thesis
    proof (cases "sc_imports (sg_scopes g ! s) i")
      case (Some x)
      with ok have "sg_declarations g (snd x) \<noteq> None" unfolding scope_ok_def by blast
      then show ?thesis by (subst resolve_name.simps) (auto simp: d sc Some)
    next
      case None
      show ?thesis
      proof (cases "sc_parent (sg_scopes g ! s)")
        case (Some p)
        with ok have "p < s" by (simp add: scope_ok_def)
        with less obtain x where "resolve_name g p i r = Some x" by force
        then show ?thesis by (subst resolve_name.simps) (auto simp: d sc None Some)
      qed (subst resolve_name.simps, simp add: d sc None)
    qed
  qed (subst resolve_name.simps, simp)
qed

text \<open>Steps that answer with the state they got, and do not run out of fuel.\<close>

definition looks :: "fact set \<Rightarrow> 'a check \<Rightarrow> bool" where
  "looks F m \<longleftrightarrow> (\<forall>st. checker_inv st \<longrightarrow> (\<forall>f \<in> F. true_in f st) \<longrightarrow>
     (case m st of Checked _ st' \<Rightarrow> st' = st | Rejected _ st' \<Rightarrow> st' = st | Panicked _ \<Rightarrow> True | Stuck \<Rightarrow> False))"

lemma looks_chain:
  assumes m: "looks F m" and d: "does F m Q" and f: "\<And>x. looks (F \<union> Q x) (f x)"
  shows "looks F (chain m f)"
  unfolding looks_def
proof (intro allI impI)
  fix st assume st: "checker_inv st" "\<forall>f \<in> F. true_in f st"
  have a: "case m st of Checked _ st' \<Rightarrow> st' = st | Rejected _ st' \<Rightarrow> st' = st | Panicked _ \<Rightarrow> True | Stuck \<Rightarrow> False"
    using m st unfolding looks_def by blast
  show "case chain m f st of Checked _ st' \<Rightarrow> st' = st | Rejected _ st' \<Rightarrow> st' = st | Panicked _ \<Rightarrow> True | Stuck \<Rightarrow> False"
  proof (cases "m st")
    case (Checked x st1)
    with a have [simp]: "st1 = st" by simp
    from d st Checked have "\<forall>f \<in> Q x. true_in f st" unfolding does_def by fastforce
    with st(2) have "\<forall>f \<in> F \<union> Q x. true_in f st" by blast
    with f [of x] st(1) show ?thesis unfolding looks_def by (simp add: chain_def Checked)
  qed (use a in \<open>simp_all add: chain_def\<close>)
qed

lemma looks_basic: "looks F (pass x)" "looks F (reject e)" "looks F (crash p)"
  by (simp_all add: looks_def pass_def reject_def crash_def)

lemma looks_then: "looks F m \<Longrightarrow> (\<And>x. looks F (f x)) \<Longrightarrow> does F m (\<lambda>_. {}) \<Longrightarrow> looks F (chain m f)"
  by (rule looks_chain [of _ _ "\<lambda>_. {}"]) (simp_all only: Un_empty_right)

lemma looks_option: "(x = None \<Longrightarrow> looks F m) \<Longrightarrow> (\<And>v. x = Some v \<Longrightarrow> looks F (f v)) \<Longrightarrow>
    looks F (case x of None \<Rightarrow> m | Some v \<Rightarrow> f v)"
  by (cases x) simp_all

lemma looks_if: "(c \<Longrightarrow> looks F m) \<Longrightarrow> (\<not> c \<Longrightarrow> looks F m') \<Longrightarrow> looks F (if c then m else m')"
  by simp

lemma looks_need: "looks F (need p x)"
  by (cases x) (simp_all add: need_def looks_basic)

lemma looks_reads:
  assumes "\<And>st. checker_inv st \<Longrightarrow> (\<forall>f \<in> F. true_in f st) \<Longrightarrow> \<exists>x. h (graph st) = Some x"
  shows "looks F (chain the_graph (\<lambda>g. defined (h g)))"
  unfolding looks_def
proof (intro allI impI)
  fix st assume "checker_inv st" and "\<forall>f \<in> F. true_in f st"
  from assms [OF this] obtain x where "h (graph st) = Some x" by blast
  then show "case chain the_graph (\<lambda>g. defined (h g)) st of
      Checked _ st' \<Rightarrow> st' = st | Rejected _ st' \<Rightarrow> st' = st | Panicked _ \<Rightarrow> True | Stuck \<Rightarrow> False"
    by (simp add: the_graph_def chain_def the_checker_def pass_def defined_def)
qed

lemma looks_find_name: "Scope s \<in> F \<Longrightarrow> looks F (find_name s i r)"
  unfolding find_name_def
  by (rule looks_reads, rule resolve_name_total) (auto simp: checker_inv_def graph_inv_def true_in_simps)

lemma looks_parent_module: "Scope s \<in> F \<Longrightarrow> looks F (chain the_graph (\<lambda>g. defined (parent_module g s)))"
  by (rule looks_reads, rule parent_module_total) (auto simp: checker_inv_def graph_inv_def true_in_simps)

lemma looks_super_module: "Scope s \<in> F \<Longrightarrow> looks F (super_module s i)"
proof -
  assume s: "Scope s \<in> F"
  have e: "super_module s i = chain (chain the_graph (\<lambda>g. defined (parent_module g s))) (\<lambda>r. case r of
      None \<Rightarrow> reject (too_many_supers (meta_id i))
    | Some dec \<Rightarrow> chain (need PkUnreachable (dec_scope dec)) (\<lambda>s'. pass (dec, s')))"
    by (simp add: super_module_def chain_assoc)
  show ?thesis
    unfolding e
    by (rule looks_then, rule looks_parent_module [OF s], rule looks_option, rule looks_basic, rule looks_then,
        rule looks_need, rule looks_basic, rule does_need, rule does_nothing, rule does_parent_module)
qed

lemma looks_leading_supers: "Scope s \<in> F \<Longrightarrow> looks F (leading_supers s i rest)"
proof (induction s i rest arbitrary: F rule: leading_supers.induct)
  case (1 s i)
  have p: "looks F (case x of (dec, _) \<Rightarrow> pass (Inl (i, dec)))" for x :: "decl \<times> scope_ref"
    by (cases x) (simp add: looks_basic)
  show ?case
    unfolding leading_supers.simps
    by (rule looks_if, rule looks_basic, rule looks_then, rule looks_super_module [OF 1], rule p, rule does_nothing,
        rule does_super_module)
next
  case (2 s i j rest)
  show ?case
    unfolding leading_supers.simps
  proof (rule looks_if, rule looks_basic, rule looks_chain, rule looks_super_module [OF 2(2)], rule does_super_module)
    fix x assume i: "\<not> node i \<noteq> ''super''"
    show "looks (F \<union> (case x of (dec, s') \<Rightarrow> insert (Scope s') (decl_facts dec))) (case x of (_, s') \<Rightarrow> leading_supers s' j rest)"
      using 2(1) i by (cases x) simp
  qed
qed

lemma looks_path_step: "Scope s \<in> F \<Longrightarrow> looks F (path_step s i r)"
  unfolding path_step_def
  by (rule looks_if, rule looks_basic, rule looks_then, rule looks_find_name, assumption, rule looks_option,
      rule looks_basic, rule looks_basic, rule does_name)

lemma looks_module_steps: "Scope s \<in> F \<Longrightarrow> looks F (module_steps s i r rest)"
proof (induction s i r rest arbitrary: F rule: module_steps.induct)
  case (1 s i r)
  show ?case
    unfolding module_steps.simps
    by (rule looks_then, rule looks_path_step [OF 1], rule looks_basic, rule does_nothing, rule does_path_step)
next
  case (2 s i r j rest)
  show ?case
    unfolding module_steps.simps
  proof (rule looks_chain, rule looks_path_step [OF 2(2)], rule does_path_step, rule looks_option, rule looks_basic)
    fix dec :: decl and s' assume d: "dec_scope dec = Some s'"
    show "looks (F \<union> decl_facts dec) (module_steps s' j False rest)"
      by (rule 2(1) [OF d]) (simp add: decl_facts_def d)
  qed
qed

lemma looks_module_part: "Scope s \<in> F \<Longrightarrow> looks F (resolve_module_part_of_path s is)"
proof (cases "is")
  case (Cons i rest)
  assume s: "Scope s \<in> F"
  show ?thesis
    unfolding resolve_module_part_of_path_def Cons list.case
  proof (rule looks_chain, rule looks_leading_supers [OF s], rule does_leading_supers [OF s])
    fix r
    show "looks (F \<union> (case r of Inl (j, dec) \<Rightarrow> decl_facts dec | Inr (s', _) \<Rightarrow> {Scope s'}))
        (case r of Inl (j, dec) \<Rightarrow> pass (j, dec, []) | Inr (s', j, rest') \<Rightarrow> module_steps s' j True rest')"
      by (cases r) (auto simp: looks_basic looks_module_steps)
  qed
qed (simp add: resolve_module_part_of_path_def looks_basic)

section \<open>The identifier a path ends in\<close>

lemma checked_chain: "chain m f st = Checked y st' \<longleftrightarrow> (\<exists>x st1. m st = Checked x st1 \<and> f x st1 = Checked y st')"
  by (auto simp: chain_def split: checked.splits)

lemma leading_supers_last:
  "leading_supers s i rest st = Checked r st' \<Longrightarrow>
   case r of Inl (j, _) \<Rightarrow> j = last (i # rest) | Inr (_, j, rest') \<Rightarrow> last (j # rest') = last (i # rest)"
proof (induction s i rest arbitrary: st rule: leading_supers.induct)
  case (1 s i)
  then show ?case by (auto simp: checked_chain pass_def split: if_splits prod.splits)
next
  case (2 s i j rest)
  show ?case
  proof (cases "node i = ''super''")
    case True
    with 2(2) obtain dec s' st1 where "leading_supers s' j rest st1 = Checked r st'"
      by (auto simp: checked_chain)
    from 2(1) [OF _ this] True show ?thesis by (auto split: sum.splits)
  qed (use 2(2) in \<open>auto simp: pass_def\<close>)
qed

lemma module_steps_last: "module_steps s i r rest st = Checked (j, dec, []) st' \<Longrightarrow> j = last (i # rest)"
proof (induction s i r rest arbitrary: st rule: module_steps.induct)
  case (1 s i r)
  then show ?case by (auto simp: checked_chain pass_def)
next
  case (2 s i r k rest)
  from 2(2) obtain stub st1 where c: "(case dec_scope stub of None \<Rightarrow> pass (i, stub, k # rest)
      | Some s' \<Rightarrow> module_steps s' k False rest) st1 = Checked (j, dec, []) st'"
    by (auto simp: checked_chain)
  then obtain s' where s': "dec_scope stub = Some s'" "module_steps s' k False rest st1 = Checked (j, dec, []) st'"
    by (cases "dec_scope stub") (auto simp: pass_def)
  from 2(1) [OF s'] show ?case by simp
qed

lemma module_part_last:
  assumes "resolve_module_part_of_path s is st = Checked (j, dec, []) st'"
  shows "is \<noteq> [] \<and> j = last is"
proof (cases "is")
  case (Cons i rest)
  from assms obtain r st1 where l: "leading_supers s i rest st = Checked r st1"
    and r: "(case r of Inl (j, dec) \<Rightarrow> pass (j, dec, []) | Inr (s', j, rest') \<Rightarrow> module_steps s' j True rest') st1 =
      Checked (j, dec, []) st'"
    by (auto simp: resolve_module_part_of_path_def Cons checked_chain)
  note ls = leading_supers_last [OF l]
  show ?thesis
  proof (cases r)
    case (Inl x)
    with r ls show ?thesis by (cases x) (auto simp: Cons pass_def)
  next
    case (Inr x)
    obtain s' k rest' where x: "x = (s', k, rest')" by (cases x)
    with r Inr have "module_steps s' k True rest' st1 = Checked (j, dec, []) st'" by simp
    from module_steps_last [OF this] ls show ?thesis by (simp add: Cons Inr x)
  qed
qed (use assms in \<open>simp add: resolve_module_part_of_path_def crash_def\<close>)

section \<open>One import\<close>

text \<open>The scope has an import that was made by the path: its entry carries the id of the path's last identifier.\<close>

definition path_end :: "path meta \<Rightarrow> meta_id" where
  "path_end p = meta_id (last (path_names p))"

definition imported :: "scope_graph \<Rightarrow> scope_ref \<Rightarrow> path meta \<Rightarrow> bool" where
  "imported g s p \<longleftrightarrow> (\<exists>sc n. index (sg_scopes g) s = Some sc \<and> sc_imports sc (rn_ident n) = Some (path_end p, n))"

lemma insert_import_result:
  assumes "insert_import g s i n = Some (g', r)"
  shows "case r of Inl _ \<Rightarrow> g' = g
    | Inr _ \<Rightarrow> (\<exists>sc. index (sg_scopes g') s = Some sc \<and> sc_imports sc (rn_ident n) = Some (i, n)) \<and>
        (\<forall>p. imported g s p \<longrightarrow> imported g' s p)"
proof -
  from assms obtain sc where sc: "index (sg_scopes g) s = Some sc"
    and c: "(g', r) = (case sc_imports sc (rn_ident n) of
        Some entry \<Rightarrow> (g, Inl (fst entry))
      | None \<Rightarrow> (g\<lparr>sg_scopes := (sg_scopes g)[s := sc\<lparr>sc_imports := (sc_imports sc)(rn_ident n \<mapsto> (i, n))\<rparr>]\<rparr>, Inr ()))"
    by (auto simp: insert_import_def bind_eq_Some_conv split: option.splits)
  then have l: "s < length (sg_scopes g)" by (simp add: index_Some_iff)
  show ?thesis
  proof (cases "sc_imports sc (rn_ident n)")
    case None
    have "imported g' s p" if "imported g s p" for p
    proof -
      from that sc obtain m where "sc_imports sc (rn_ident m) = Some (path_end p, m)" by (auto simp: imported_def)
      moreover from this None have "rn_ident m \<noteq> rn_ident n" by auto
      ultimately show ?thesis using c None l by (auto simp: imported_def index_Some_iff)
    qed
    then show ?thesis using c None l by (auto simp: index_Some_iff)
  qed (use c in auto)
qed

text \<open>A failed import changes nothing; a successful one makes its entry and keeps the others.\<close>

lemma import_path_outcome:
  assumes st: "checker_inv st" "s < length (sg_scopes (graph st))"
  shows "case import_path s p st of
      Checked _ st' \<Rightarrow> imported (graph st') s p \<and> (\<forall>q. imported (graph st) s q \<longrightarrow> imported (graph st') s q)
    | Rejected _ st' \<Rightarrow> st' = st
    | Panicked _ \<Rightarrow> True | Stuck \<Rightarrow> False"
proof -
  let ?m = "resolve_module_part_of_path s (path_names p)"
  have l: "case ?m st of Checked _ st' \<Rightarrow> st' = st | Rejected _ st' \<Rightarrow> st' = st | Panicked _ \<Rightarrow> True | Stuck \<Rightarrow> False"
    using looks_module_part [of s "{Scope s}" "path_names p"] st unfolding looks_def by (simp add: true_in_simps)
  show ?thesis
  proof (cases "?m st")
    case (Checked x st1)
    obtain i dec rest where x: "x = (i, dec, rest)" by (cases x)
    from l Checked have [simp]: "st1 = st" by simp
    show ?thesis
    proof (cases rest)
      case Nil
      from module_part_last Checked x Nil have i: "meta_id i = path_end p" by (auto simp: path_end_def)
      show ?thesis
      proof (cases "insert_import (graph st) s (meta_id i) (dec_name dec)")
        case None
        then show ?thesis
          by (simp add: import_path_def chain_def Checked x Nil the_graph_def the_checker_def pass_def crash_def)
      next
        case (Some gr)
        obtain g' r where gr: "gr = (g', r)" by (cases gr)
        from insert_import_result [of "graph st" s "meta_id i" "dec_name dec" g' r] Some gr
        have res: "case r of Inl _ \<Rightarrow> g' = graph st
          | Inr _ \<Rightarrow> imported g' s p \<and> (\<forall>p. imported (graph st) s p \<longrightarrow> imported g' s p)"
          using i by (fastforce simp: imported_def split: sum.splits)
        have run: "import_path s p st = (case r of
            Inl old \<Rightarrow> Rejected (ErrDeclaredTwice i old) (st\<lparr>ck_tables := (ck_tables st)\<lparr>tt_scope_graph := g'\<rparr>\<rparr>)
          | Inr _ \<Rightarrow> Checked () (st\<lparr>ck_tables := (ck_tables st)\<lparr>tt_scope_graph := g'\<rparr>\<rparr>))"
          by (cases r) (simp_all add: import_path_def chain_def Checked x Nil the_graph_def the_checker_def pass_def
              reject_def on_graph_def Some gr)
        show ?thesis using res unfolding run by (cases r) simp_all
      qed
    qed (simp add: import_path_def chain_def Checked x reject_def)
  qed (use l in \<open>simp_all add: import_path_def chain_def\<close>)
qed

section \<open>The loop\<close>

definition failing :: "checker \<Rightarrow> scope_ref \<Rightarrow> path meta \<Rightarrow> bool" where
  "failing st s p \<longleftrightarrow> (\<exists>e. import_path s p st = Rejected e st)"

text \<open>A good state: the invariant and the scope; imports keep it.\<close>

abbreviation can_import :: "checker \<Rightarrow> scope_ref \<Rightarrow> bool" where
  "can_import st s \<equiv> checker_inv st \<and> s < length (sg_scopes (graph st))"

lemma import_path_keeps:
  assumes "can_import st s" and "import_path s p st = Checked u st'"
  shows "can_import st' s"
proof -
  have "does {Scope s} (import_path s p) (\<lambda>_. {})" by (rule does_import_path) simp
  then have "case import_path s p st of
      Checked x st' \<Rightarrow> checker_inv st' \<and> grows st st' \<and> (\<forall>f \<in> {}. true_in f st')
    | Rejected _ st' \<Rightarrow> checker_inv st' \<and> grows st st' | _ \<Rightarrow> True"
    using assms(1) unfolding does_def by (simp add: true_in_simps)
  with assms(2) have "checker_inv st'" "grows st st'" by simp_all
  with assms(1) show ?thesis by (auto simp: grows_def graph_extends_def)
qed

text \<open>One round: what is left failed, what is gone is imported; without progress nothing has changed.\<close>

lemma retain_failing_outcome:
  assumes "can_import st s"
  shows "case retain_failing s ps st of
      Checked rest st' \<Rightarrow> can_import st' s \<and> set rest \<subseteq> set ps \<and> length rest \<le> length ps \<and>
        (\<forall>p \<in> set ps - set rest. imported (graph st') s p) \<and>
        (\<forall>p. imported (graph st) s p \<longrightarrow> imported (graph st') s p) \<and>
        (length rest = length ps \<longrightarrow> rest = ps \<and> st' = st \<and> (\<forall>p \<in> set ps. failing st s p))
    | Rejected _ _ \<Rightarrow> False | Panicked _ \<Rightarrow> True | Stuck \<Rightarrow> False"
  using assms
proof (induction ps arbitrary: st)
  case (Cons p ps)
  note out = import_path_outcome [of st s p]
  show ?case
  proof (cases "import_path s p st")
    case (Checked u st1)
    with out Cons.prems have imp: "imported (graph st1) s p" "\<And>q. imported (graph st) s q \<Longrightarrow> imported (graph st1) s q" by auto
    note IH = Cons.IH [OF import_path_keeps [OF Cons.prems Checked]]
    have run: "retain_failing s (p # ps) st = retain_failing s ps st1"
      by (auto simp: chain_def attempt_def Checked pass_def split: checked.splits)
    show ?thesis unfolding run using IH imp by (auto split: checked.splits)
  next
    case (Rejected e st1)
    with out Cons.prems have [simp]: "st1 = st" by simp
    have fl: "failing st s p" using Rejected by (simp add: failing_def)
    have run: "retain_failing s (p # ps) st = (case retain_failing s ps st of Checked rest st' \<Rightarrow> Checked (p # rest) st'
      | Rejected e st' \<Rightarrow> Rejected e st' | Panicked k \<Rightarrow> Panicked k | Stuck \<Rightarrow> Stuck)"
      by (auto simp: chain_def attempt_def Rejected pass_def split: checked.splits)
    show ?thesis unfolding run using Cons.IH [OF Cons.prems] fl by (auto split: checked.splits)
  qed (use out Cons.prems in \<open>simp_all add: chain_def attempt_def\<close>)
qed (simp add: pass_def)

lemma failing_each:
  assumes "failing st s p"
  shows "\<exists>e. each_of (import_path s) (p # ps) st = Rejected e st"
  using assms by (auto simp: failing_def chain_def)

text \<open>What a round and the rounds after it amount to.\<close>

lemma import_rounds:
  assumes "can_import st1 s \<and> set rest \<subseteq> set ps \<and> length rest \<le> length ps \<and>
      (\<forall>p \<in> set ps - set rest. imported (graph st1) s p) \<and> (\<forall>p. imported g s p \<longrightarrow> imported (graph st1) s p) \<and> P"
    and "case r of
      Checked _ st' \<Rightarrow> (\<forall>p \<in> set rest. imported (graph st') s p) \<and> (\<forall>p. imported (graph st1) s p \<longrightarrow> imported (graph st') s p)
    | Rejected _ st' \<Rightarrow> \<exists>left. left \<noteq> [] \<and> set left \<subseteq> set rest \<and> (\<forall>p \<in> set left. failing st' s p) \<and>
        (\<forall>p \<in> set rest - set left. imported (graph st') s p) \<and> (\<forall>p. imported (graph st1) s p \<longrightarrow> imported (graph st') s p)
    | Panicked _ \<Rightarrow> True | Stuck \<Rightarrow> False"
  shows "case r of
      Checked _ st' \<Rightarrow> (\<forall>p \<in> set ps. imported (graph st') s p) \<and> (\<forall>p. imported g s p \<longrightarrow> imported (graph st') s p)
    | Rejected _ st' \<Rightarrow> \<exists>left. left \<noteq> [] \<and> set left \<subseteq> set ps \<and> (\<forall>p \<in> set left. failing st' s p) \<and>
        (\<forall>p \<in> set ps - set left. imported (graph st') s p) \<and> (\<forall>p. imported g s p \<longrightarrow> imported (graph st') s p)
    | Panicked _ \<Rightarrow> True | Stuck \<Rightarrow> False"
proof (cases r)
  case (Checked u st')
  with assms show ?thesis by simp blast
next
  case (Rejected e st')
  with assms(2) obtain left where l: "left \<noteq> []" "set left \<subseteq> set rest" "\<forall>p \<in> set left. failing st' s p"
    "\<forall>p \<in> set rest - set left. imported (graph st') s p" "\<forall>p. imported (graph st1) s p \<longrightarrow> imported (graph st') s p" by auto
  have "set left \<subseteq> set ps" using l(2) assms(1) by blast
  moreover have "\<forall>p \<in> set ps - set left. imported (graph st') s p" using l(4,5) assms(1) by blast
  moreover have "\<forall>p. imported g s p \<longrightarrow> imported (graph st') s p" using l(5) assms(1) by blast
  ultimately show ?thesis using l(1,3) Rejected by auto
qed (use assms(2) in simp_all)

lemma import_loop_outcome:
  assumes "can_import st s" and "length ps < n"
  shows "case import_loop n s ps st of
      Checked _ st' \<Rightarrow> (\<forall>p \<in> set ps. imported (graph st') s p) \<and> (\<forall>p. imported (graph st) s p \<longrightarrow> imported (graph st') s p)
    | Rejected _ st' \<Rightarrow> \<exists>rest. rest \<noteq> [] \<and> set rest \<subseteq> set ps \<and> (\<forall>p \<in> set rest. failing st' s p) \<and>
        (\<forall>p \<in> set ps - set rest. imported (graph st') s p) \<and> (\<forall>p. imported (graph st) s p \<longrightarrow> imported (graph st') s p)
    | Panicked _ \<Rightarrow> True | Stuck \<Rightarrow> False"
  using assms
proof (induction n arbitrary: st ps)
  case (Suc n)
  note out = retain_failing_outcome [OF Suc.prems(1), of ps]
  show ?case
  proof (cases "retain_failing s ps st")
    case (Checked rest st1)
    note o = out [unfolded Checked checked.case]
    consider "rest = []" | "rest \<noteq> []" "length rest = length ps" | "rest \<noteq> []" "length rest < length ps"
      using o by linarith
    then show ?thesis
    proof cases
      case 1
      then show ?thesis using o by (simp add: chain_def Checked pass_def)
    next
      case 2
      with o have same: "rest = ps" "st1 = st" "\<forall>p \<in> set ps. failing st s p" by auto
      obtain p qs where ps: "ps = p # qs" using 2 same by (cases ps) auto
      with same failing_each [of st s p qs] obtain e where e: "each_of (import_path s) ps st = Rejected e st" by auto
      have "import_loop (Suc n) s ps st = Rejected e st"
        using 2 same by (simp add: chain_def [of "retain_failing s ps"] Checked chain_def [of "each_of (import_path s) ps"] e)
      moreover have "\<exists>rest. rest \<noteq> [] \<and> set rest \<subseteq> set ps \<and> (\<forall>p \<in> set rest. failing st s p) \<and>
          (\<forall>p \<in> set ps - set rest. imported (graph st) s p) \<and> (\<forall>p. imported (graph st) s p \<longrightarrow> imported (graph st) s p)"
        by (rule exI [of _ ps]) (use same ps in auto)
      ultimately show ?thesis by (simp only: checked.case)
    next
      case 3
      have run: "import_loop (Suc n) s ps st = import_loop n s rest st1"
        using 3 by (simp add: chain_def Checked)
      have "case import_loop n s rest st1 of
          Checked _ st' \<Rightarrow> (\<forall>p \<in> set rest. imported (graph st') s p) \<and> (\<forall>p. imported (graph st1) s p \<longrightarrow> imported (graph st') s p)
        | Rejected _ st' \<Rightarrow> \<exists>left. left \<noteq> [] \<and> set left \<subseteq> set rest \<and> (\<forall>p \<in> set left. failing st' s p) \<and>
            (\<forall>p \<in> set rest - set left. imported (graph st') s p) \<and> (\<forall>p. imported (graph st1) s p \<longrightarrow> imported (graph st') s p)
        | Panicked _ \<Rightarrow> True | Stuck \<Rightarrow> False"
        by (rule Suc.IH) (use o 3 Suc.prems in auto)
      with o show ?thesis unfolding run by (rule import_rounds)
    qed
  qed (use out in \<open>simp_all add: chain_def\<close>)
qed simp

end
