(* ===== verification/Check_Samples.thy ===== *)
theory Check_Samples
  imports Check_Program Check_Import
begin

text \<open>
  Small programs for the type checker, in a checker whose only type is \<open>bool\<close>, and their evaluation: a step is
  unfolded where its argument is known, from the outside in.
\<close>

section \<open>The checker and the programs\<close>

definition bool_checker :: checker where
  "bool_checker = (case declare_builtin_type (''bool'', DPrimitive PBool) (blank_checker 3) of
     Checked _ st \<Rightarrow> st | _ \<Rightarrow> blank_checker 3)"

definition lit_bool :: "bool \<Rightarrow> meta_id \<Rightarrow> expr meta" where
  "lit_bool b i = Meta (ELiteral (Meta (LitBool b) i)) i"

definition plain_block :: "stmt meta list \<Rightarrow> expr meta option \<Rightarrow> meta_id \<Rightarrow> block meta" where
  "plain_block ss e i = Meta (Block [] ss e) i"

definition one_function :: "params \<Rightarrow> type_expr meta option \<Rightarrow> block meta \<Rightarrow> declaration_item" where
  "one_function ps ret body = DeFunction (Meta [102] 8) (Meta ps 9) ret body"

definition one_module :: "declaration_item \<Rightarrow> module_decl list" where
  "one_module d = [\<lparr>md_ident = Meta [112] 12, md_ast = [d], md_parent = None\<rparr>]"

definition bool_path :: "path meta" where
  "bool_path = Meta (Path [Meta [98, 111, 111, 108] 10]) 11"

definition bool_type :: "type_expr meta" where
  "bool_type = Meta (TePath bool_path None) 11"

text \<open>\<open>while false { return true }\<close> and \<open>fn f() -> bool { while false { return true }; }\<close>\<close>

definition loop_expr :: "expr meta" where
  "loop_expr = Meta (EWhile (lit_bool False 4)
     (plain_block [] (Some (Meta (EReturn RkReturn (Some (lit_bool True 1))) 2)) 3)) 5"

definition falling_function :: declaration_item where
  "falling_function = one_function [] (Some bool_type) (plain_block [Meta (SExpr loop_expr) 6] None 7)"

text \<open>\<open>fn f() { match { return } {} }\<close>\<close>

definition matching_function :: declaration_item where
  "matching_function = one_function [] None (plain_block []
     (Some (Meta (EMatch (Meta (Meta (EBlock (plain_block [] (Some (Meta (EReturn RkReturn None) 1)) 2)) 3, []) 4)) 5)) 7)"

text \<open>A function with two parameters of type \<open>()\<close> and no body, and two arms of a match.\<close>

definition plain_function :: declaration_item where
  "plain_function = DeFunction (Meta [102] 1) (Meta [(Meta [120] 2, Meta TeUnit 0), (Meta [99] 3, Meta TeUnit 0)] 0)
     None (plain_block [] None 4)"

definition plain_arm :: "name \<Rightarrow> match_arm" where
  "plain_arm v = MatchArm (Meta (EnumVariantPattern (Meta v 0) None) 0) None (plain_block [] None 1)"

definition two_variants :: "enum_variant list" where
  "two_variants = [\<lparr>ev_name = ''A'', ev_fields = []\<rparr>, \<lparr>ev_name = ''B'', ev_fields = []\<rparr>]"

section \<open>Evaluation\<close>

lemmas step_eval = chain_def pass_def reject_def crash_def stuck_def need_def defined_def the_checker_def change_def
  attempt_def each_of.simps gather.simps any_of.simps

lemmas scope_eval = declare_builtin_type_def insert_at_def insert_type_def graph_wrap_def insert_declaration_def
  on_graph_def set_dec_scope_def insert_type_def_def Let_def blank_checker_def graph_new_def wrap_scope_def the_graph_def
  find_name_def insert_module_def insert_function_def index_def resolve_name.simps

lemmas record_eval = change_tables_def set_expr_type_def set_diverges_def set_function_scope_def
  set_function_signature_def set_resolved_name_def expr_type_def

lemmas path_eval = resolve_module_part_of_path_def path_names_def path_step_def leading_supers.simps
  module_steps.simps parameter_count_def evaluate_type_def resolve_type_path_def

lemmas unify_numeral = unify_inner.simps(2) [of "pred_numeral k" for k, folded numeral_eq_Suc]

lemmas unify_eval = resolve_def resolve_type_def unify_at_def unify_def fresh_var_def fresh_def uf_fresh_def must_unify_def
  unify_resolved_def unify_inner.simps bind_var_def uf_set_def and_then_def t_bool_def named_def unify_numeral uf_find.simps

lemma check_expr_numeral: "check_expr (numeral k) s ctx e = check_step (check_expr (pred_numeral k)) s ctx e"
  by (simp only: numeral_eq_Suc check_expr.simps)

lemma import_nothing: "import_paths s [] st = Checked () st"
  by (simp add: import_paths_def step_eval)

lemma no_obligations: "ck_obligations st = [] \<Longrightarrow> resolve_obligations st = Checked () (st\<lparr>ck_obligations := []\<rparr>)"
  by (simp add: resolve_obligations_def take_obligations_def step_eval)

lemmas check_eval = check_block_def record_block_def check_node_def check_step_def check_while_def check_return_def
  returned_type_def check_literal_def literal_type_def import_nothing next_while_def next_block_def with_type_def check_expr_numeral
  check_match_def

lemmas function_eval = check_function_def function_scope_def declare_params_def check_params_def declared_return_def
  check_body_def item_context_def refer_node_def no_obligations check_function_type_def declare_function_def
  parameter_names_def add_node_def declare_var_def insert_var_def

lemmas program_eval = typecheck_def check_declare_context_def check_module_tree_def declare_modules.simps
  declare_module_def declare_stub_def declare_imports_def declare_types_def for_items_def check_type_cycles_def
  declare_functions_def check_tree_def force_filtermap_types_def

lemmas sample_programs = lit_bool_def plain_block_def one_function_def one_module_def bool_path_def bool_type_def
  loop_expr_def falling_function_def matching_function_def ast_ident_def bool_checker_def
  plain_function_def plain_arm_def two_variants_def

lemma check_idents: "ident_of [98, 111, 111, 108] = ''bool''" "ident_of [102] = ''f''" "ident_of [112] = ''p''"
  "ident_of [65] = ''A''" "ident_of [66] = ''B''" "ident_of [120] = ''x''" "ident_of [99] = ''c''"
  by code_simp+

lemma check_types: "detect_type_cycles (Suc (Suc 0)) [ResolvedName 0 ''bool'' \<mapsto> DPrimitive PBool]
    [ResolvedName 0 ''bool''] = Some (Inr ())"
  by code_simp

lemma single_order:
  "sg_declarations g n = Some d \<Longrightarrow> \<not> is_constant d \<Longrightarrow> find_compilation_order (Suc (Suc 0)) g [(n, [])] = Some (Inr [n])"
  by (simp add: find_compilation_order_def get_declaration_def tarjan_def successors_def state_new_def open_vertex_def
    close_component_def context_check_def)

lemma program_order:
  assumes "ck_references st = [(n, [])]" and "sg_declarations (graph st) n = Some d" and "\<not> is_constant d"
  shows "compilation_order st = Checked [n] st"
  using single_order [OF assms(2,3)]
  by (simp add: compilation_order_def step_eval assms(1) reference_fuel_def)

lemmas weak = weak_bind if_weak_cong checked.case_cong_weak option.case_cong_weak prod.case_cong_weak sum.case_cong_weak

lemmas run_eval = sample_programs step_eval scope_eval record_eval path_eval unify_eval check_eval function_eval
  program_eval check_idents check_types program_order is_constant_def

section \<open>The runs\<close>

lemma falling_run:
  "\<exists>st. typecheck 3 id [] (one_module falling_function) bool_checker = Checked [ResolvedName 2 ''f''] st \<and>
     tt_expr_types (ck_tables st) 7 = Some TUnit \<and> tt_diverges (ck_tables st) 7 = Some True \<and>
     map_option return_type (tt_function_signatures (ck_tables st) 8) = Some t_bool"
  by (simp add: run_eval cong: weak)

lemma matching_run: "typecheck 3 id [] (one_module matching_function) bool_checker = Panicked PkTodo"
  by (simp add: run_eval cong: weak)

lemma loop_run:
  "\<exists>st. check_expr 3 0 \<lparr>cx_expected_type = TUnit, cx_function_return_type = Some t_bool, cx_item = ResolvedName 0 ''f''\<rparr>
     loop_expr bool_checker = Checked True st"
  by (simp add: run_eval cong: weak)

lemma bool_import: "\<exists>st. import_paths 0 [bool_path] bool_checker = Checked () st"
  by (simp add: import_paths_def import_loop.simps retain_failing.simps import_path_def insert_import_def run_eval cong: weak)

lemma plain_run: "\<exists>st. typecheck 3 id [] (one_module plain_function) bool_checker = Checked [ResolvedName 2 ''f''] st"
  by (simp add: run_eval cong: weak)

lemma arms_run: "\<exists>ast st. check_arms (check_expr 1) 0
    \<lparr>cx_expected_type = TUnit, cx_function_return_type = Some t_bool, cx_item = ResolvedName 0 ''f''\<rparr> TUnit two_variants 0
    \<lparr>as_used = [], as_diverge = True, as_default = False\<rparr> [plain_arm [66]] bool_checker = Checked ast st \<and>
    as_used ast = [''B''] \<and> \<not> as_default ast"
  by (simp add: check_arm_def position.simps declare_pattern_def check_guard_def run_eval cong: weak)

lemma bool_checker_inv: "checker_inv bool_checker"
proof -
  have "case declare_builtin_type (''bool'', DPrimitive PBool) (blank_checker 3) of
      Checked x st' \<Rightarrow> checker_inv st' \<and> grows (blank_checker 3) st' \<and> (\<forall>f \<in> {}. true_in f st')
    | Rejected _ st' \<Rightarrow> checker_inv st' \<and> grows (blank_checker 3) st' | _ \<Rightarrow> True"
    using does_builtin_type [of "{}" "(''bool'', DPrimitive PBool)"] blank_checker_inv unfolding does_def by blast
  then show ?thesis unfolding bool_checker_def using blank_checker_inv by (auto split: checked.splits)
qed

end
