(* ===== verification/Checking.thy ===== *)
theory Checking
  imports Check_Samples Mir_Lowering
begin

text \<open>
  The theorems on the type checker, with small programs that it runs on, and what an accepted script gives the
  lowering to the mid-level representation.
\<close>

section \<open>Accepted scripts and the lowering\<close>

fun match_tidy :: "expr \<Rightarrow> bool" where
  "match_tidy (EMatch m) = tidy (snd (node m))"
| "match_tidy _ = True"

fun tidied :: "nat \<Rightarrow> expr meta \<Rightarrow> bool" where
  "tidied 0 e = True"
| "tidied (Suc n) e = (match_tidy (node e) \<and> list_all (tidied n) (expr_children (node e)))"

lemma recorded_match_ok: "recorded st e \<Longrightarrow> match_tidy (node e) \<Longrightarrow> match_ok (node e)"
proof (cases "node e")
  case (EMatch m)
  assume r: "recorded st e" and t: "match_tidy (node e)"
  from r have "true_in f st" if "f \<in> node_facts (meta_id e) (node e)" for f
    using that by (cases rule: recorded.cases) simp
  from this [of "Always (settled (snd (node m)))"] have "settled (snd (node m))" by (simp add: node_facts_def EMatch)
  with t show "match_ok (node e)" by (simp add: EMatch settled_covered)
qed simp_all

lemma recorded_covered: "recorded st e \<Longrightarrow> tidied n e \<Longrightarrow> covered n e"
proof (induction n arbitrary: e)
  case (Suc n)
  have "recorded st x" if "x \<in> set (expr_children (node e))" for x
    using Suc.prems(1) that by (cases rule: recorded.cases) simp
  with Suc recorded_match_ok [OF Suc.prems(1)] show ?case by (simp add: list_all_iff)
qed simp

lemma item_children_recorded:
  assumes "item_recorded st d" and "e \<in> set (decl_children d)"
  shows "recorded st e"
proof -
  have "Recorded e \<in> checked_facts d" using assms(2) by (cases d) (simp_all add: body_facts_def)
  with assms(1) have "true_in (Recorded e) st" unfolding item_recorded_def by blast
  then show ?thesis by simp
qed

section \<open>Complete tables\<close>

lemma typecheck_outcome:
  assumes "checker_inv st"
  shows "case typecheck n ko cf tree st of
      Checked _ st' \<Rightarrow> checker_inv st' \<and> grows st st' \<and> (\<forall>m \<in> set tree. \<forall>d \<in> set (md_ast m). item_recorded st' d)
    | Rejected _ st' \<Rightarrow> checker_inv st' \<and> grows st st' | _ \<Rightarrow> True"
proof -
  have "case typecheck n ko cf tree st of
      Checked x st' \<Rightarrow> checker_inv st' \<and> grows st st' \<and> (\<forall>f \<in> program_facts tree. true_in f st')
    | Rejected _ st' \<Rightarrow> checker_inv st' \<and> grows st st' | _ \<Rightarrow> True"
    using does_typecheck [of "{}" n ko cf tree] assms unfolding does_def by blast
  moreover have "\<forall>m \<in> set tree. \<forall>d \<in> set (md_ast m). item_recorded st' d"
    if "\<forall>f \<in> program_facts tree. true_in f st'" for st'
    using that unfolding item_recorded_def by blast
  ultimately show ?thesis by (cases "typecheck n ko cf tree st") simp_all
qed

text \<open>
  C2. After a script is accepted the tables are complete: every function, filter map, constant and test has its entries,
  and so has every expression, block, path, call, parameter and variable inside it at any depth; and every match in it
  has a default arm at its end or an arm without a guard for each variant that it names.
\<close>

theorem accepted_script_recorded:
  assumes "checker_inv st" and "typecheck n key_order context_fields tree st = Checked order st'"
    and "m \<in> set tree" and "d \<in> set (md_ast m)"
  shows "item_recorded st' d"
  using typecheck_outcome [OF assms(1), where n = n and ko = key_order and cf = context_fields and tree = tree] assms(2-4)
  by simp

theorem accepted_script_recorded_witness:
  "\<exists>order st'. typecheck 3 id [] (one_module falling_function) bool_checker = Checked order st' \<and>
     item_recorded st' falling_function"
proof -
  obtain st' where r: "typecheck 3 id [] (one_module falling_function) bool_checker = Checked [ResolvedName 2 ''f''] st'"
    using falling_run by blast
  have "item_recorded st' falling_function"
    by (rule accepted_script_recorded [OF bool_checker_inv r, where m = "hd (one_module falling_function)"])
      (simp_all add: one_module_def)
  with r show ?thesis by blast
qed

text \<open>
  C8. Type checking keeps the scope graph well-formed, also when it rejects the script: parents are older scopes,
  parent modules and imports are declared, the scopes of declarations exist; and no scope, declaration or table
  entry that was there is lost.
\<close>

theorem checking_keeps_scope_graph:
  assumes "checker_inv st"
  shows "case typecheck n key_order context_fields tree st of
      Checked _ st' \<Rightarrow> checker_inv st' \<and> grows st st'
    | Rejected _ st' \<Rightarrow> checker_inv st' \<and> grows st st' | _ \<Rightarrow> True"
  using typecheck_outcome [OF assms, where n = n and ko = key_order and cf = context_fields and tree = tree]
  by (simp split: checked.splits)

theorem checking_keeps_scope_graph_witness:
  "\<exists>st'. typecheck 3 id [] (one_module falling_function) bool_checker = Checked [ResolvedName 2 ''f''] st' \<and>
     checker_inv st' \<and> grows bool_checker st'"
proof -
  obtain st' where r: "typecheck 3 id [] (one_module falling_function) bool_checker = Checked [ResolvedName 2 ''f''] st'"
    using falling_run by blast
  from checking_keeps_scope_graph [OF bool_checker_inv, of 3 id "[]" "one_module falling_function"] r show ?thesis by simp
qed

text \<open>
  C3. When a script is accepted and its lowering gives items, the elimination of dead code does not panic on them and
  keeps their live blocks, provided that no underscore in a match has a guard and no arm with a guard follows
  one without for the same variant.
\<close>

theorem accepted_script_lowers:
  assumes "checker_inv st" and "typecheck k key_order context_fields tree st = Checked order st'"
    and "\<forall>m \<in> set tree. \<forall>d \<in> set (md_ast m). \<forall>e \<in> set (decl_children d). tidied n e"
    and "orders_ok en" and "lower_tree n en (map md_ast tree) order' sh = TreeOk (sh', items)"
  shows "lower_to_mir n en (map md_ast tree) order' sh =
      Some (TreeOk (sh', map (\<lambda>item. item\<lparr>mi_blocks := live_blocks (mi_blocks item)\<rparr>) items))"
proof -
  have r: "\<forall>m \<in> set tree. \<forall>d \<in> set (md_ast m). item_recorded st' d"
    using typecheck_outcome [OF assms(1), where n = k and ko = key_order and cf = context_fields and tree = tree] assms(2)
    by simp
  have "\<forall>d \<in> set (concat (map md_ast tree)). \<forall>e \<in> set (decl_children d). covered n e"
    using r assms(3) item_children_recorded recorded_covered by fastforce
  from covered_lowering [OF assms(4) this assms(5)] show ?thesis by blast
qed

lemma plain_lowered: "\<exists>r. lower_tree 4 sample_env [[plain_function]] [ResolvedName 0 ''f''] sample_shared = TreeOk r"
  by (simp add: plain_function_def plain_block_def sample_run del: One_nat_def cong: weak_bind)

theorem accepted_script_lowers_witness:
  "\<exists>r. lower_to_mir 4 sample_env (map md_ast (one_module plain_function)) [ResolvedName 0 ''f''] sample_shared =
     Some (TreeOk r)"
proof -
  obtain st' where r: "typecheck 3 id [] (one_module plain_function) bool_checker = Checked [ResolvedName 2 ''f''] st'"
    using plain_run by blast
  obtain sh' items where l: "lower_tree 4 sample_env (map md_ast (one_module plain_function)) [ResolvedName 0 ''f'']
      sample_shared = TreeOk (sh', items)"
    using plain_lowered by (auto simp: one_module_def)
  have "\<forall>m \<in> set (one_module plain_function). \<forall>d \<in> set (md_ast m). \<forall>e \<in> set (decl_children d). tidied 4 e"
    by (simp add: one_module_def plain_function_def plain_block_def block_children_def)
  from accepted_script_lowers [OF bool_checker_inv r this sample_orders l] show ?thesis by blast
qed

section \<open>Early exits\<close>

text \<open>
  C5. The checker of expressions answers by the form of the expression alone whether it leaves the function early:
  a return leaves, an \<open>if\<close> leaves when both blocks do, a match when all arms do, everything else when one of its parts
  does.  The body of a loop counts as such a part.
\<close>

theorem check_expr_leaves_exact:
  assumes "check_expr n s ctx e st = Checked d st'"
  shows "d \<longleftrightarrow> counted e"
  using check_expr_counted [of n s ctx e] assms unfolding answers_def by blast

theorem check_expr_leaves_exact_witness: "counted loop_expr"
proof -
  obtain st where "check_expr 3 0 \<lparr>cx_expected_type = TUnit, cx_function_return_type = Some t_bool, cx_item = ResolvedName 0 ''f''\<rparr>
     loop_expr bool_checker = Checked True st"
    using loop_run by blast
  from check_expr_leaves_exact [OF this] show ?thesis by simp
qed

text \<open>
  \<open>fn f() -> bool { while false { return true }; }\<close> is accepted although its end is reached without a value: the
  body of the loop counts as leaving, so the block of the function is recorded as one that diverges and its type \<open>()\<close>
  is never compared with \<open>bool\<close>.
\<close>

theorem loop_return_accepted:
  "\<exists>st. typecheck 3 id [] (one_module falling_function) bool_checker = Checked [ResolvedName 2 ''f''] st \<and>
     tt_expr_types (ck_tables st) 7 = Some TUnit \<and> tt_diverges (ck_tables st) 7 = Some True \<and>
     map_option return_type (tt_function_signatures (ck_tables st) 8) = Some t_bool"
  by (rule falling_run)

text \<open>
  \<open>fn f() { match { return } {} }\<close> makes the type checker panic: the case of an examinee that always leaves is
  not written.
\<close>

theorem leaving_examinee_panics:
  "typecheck 3 id [] (one_module matching_function) bool_checker = Panicked PkTodo"
  by (rule matching_run)

section \<open>Matches\<close>



section \<open>Imports\<close>

text \<open>
  C6. The loop over the imports of a module, which may be written in any order, always ends.  If it succeeds every path is
  imported; if it reports an error some paths are left, none of them can be imported in the state that is
  reached, and all others are imported; else it panics.
\<close>

theorem import_paths_settle:
  assumes "checker_inv st" and "s < length (sg_scopes (graph st))"
  shows "case import_paths s ps st of
      Checked _ st' \<Rightarrow> \<forall>p \<in> set ps. imported (graph st') s p
    | Rejected _ st' \<Rightarrow> \<exists>rest. rest \<noteq> [] \<and> set rest \<subseteq> set ps \<and> (\<forall>p \<in> set rest. failing st' s p) \<and>
        (\<forall>p \<in> set ps - set rest. imported (graph st') s p)
    | Panicked _ \<Rightarrow> True | Stuck \<Rightarrow> False"
proof -
  have "can_import st s" using assms by simp
  from import_loop_outcome [OF this, of ps "length ps + 1"] show ?thesis
    unfolding import_paths_def by (auto split: checked.splits)
qed

theorem import_paths_settle_witness:
  "\<exists>st. import_paths 0 [bool_path] bool_checker = Checked () st \<and> imported (graph st) 0 bool_path"
proof -
  obtain st where r: "import_paths 0 [bool_path] bool_checker = Checked () st" using bool_import by blast
  have "0 < length (sg_scopes (graph bool_checker))" using bool_checker_inv by (simp add: checker_inv_def graph_inv_def)
  from import_paths_settle [OF bool_checker_inv this, of "[bool_path]"] r show ?thesis by simp
qed

end
